(* ===== verification/C_Prelude.thy ===== *)
theory C_Prelude
  imports Main "HOL-Library.Word" "HOL-Library.Monad_Syntax"
begin

text \<open>
  Shared vocabulary of the development.

  Every C routine that can fail to return normally (a failed \<open>assert\<close>, an access outside an
  allocated array, a loop that does not end) is modelled by a function into \<open>option\<close>:
  \<^term>\<open>None\<close> is ``the routine does not return normally'', and a theorem that such a routine
  yields \<^term>\<open>Some y\<close> therefore states memory safety and termination together with the value.
  Arrays are lists, read and written through the guarded accessors below.
\<close>

unbundle bit_operations_syntax

type_synonym u8 = "8 word"
type_synonym u16 = "16 word"
type_synonym u32 = "32 word"
type_synonym u64 = "64 word"

text \<open>A C pointer to an object of type \<open>'a\<close>: \<^term>\<open>None\<close> is \<open>NULL\<close>.\<close>

type_synonym 'a ptr = "'a option"

named_theorems c_simps \<open>guarded array accesses and assertions\<close>

section \<open>Guarded accesses\<close>

definition rd :: "'a list \<Rightarrow> nat \<Rightarrow> 'a option" where
  "rd xs i = (if i < length xs then Some (xs ! i) else None)"

definition wr :: "'a list \<Rightarrow> nat \<Rightarrow> 'a \<Rightarrow> 'a list option" where
  "wr xs i x = (if i < length xs then Some (xs[i := x]) else None)"

definition c_assert :: "bool \<Rightarrow> unit option" where
  "c_assert b = (if b then Some () else None)"

lemma rd_Some [c_simps]: "i < length xs \<Longrightarrow> rd xs i = Some (xs ! i)"
  by (simp add: rd_def)

lemma rd_eq_Some_iff [c_simps]: "rd xs i = Some x \<longleftrightarrow> i < length xs \<and> x = xs ! i"
  by (auto simp: rd_def)

lemma wr_Some [c_simps]: "i < length xs \<Longrightarrow> wr xs i x = Some (xs[i := x])"
  by (simp add: wr_def)

lemma wr_eq_Some_iff [c_simps]: "wr xs i x = Some ys \<longleftrightarrow> i < length xs \<and> ys = xs[i := x]"
  by (auto simp: wr_def)

lemma c_assert_True [simp]: "c_assert True = Some ()"
  by (simp add: c_assert_def)

lemma c_assert_False [simp]: "c_assert False = None"
  by (simp add: c_assert_def)

lemma c_assert_eq_Some_iff [c_simps]: "c_assert b = Some u \<longleftrightarrow> b"
  by (simp add: c_assert_def)

lemmas bind_Some_iff = Option.bind_eq_Some_conv

section \<open>Lists as arrays\<close>

lemma nth_append_replicate:
  "i < length xs + n \<Longrightarrow> (xs @ replicate n x) ! i = (if i < length xs then xs ! i else x)"
  by (simp add: nth_append)

lemma take_update_Suc: "i < length xs \<Longrightarrow> take (Suc i) (xs[i := x]) = take i xs @ [x]"
  by (simp add: take_Suc_conv_app_nth)

lemma nth_list_update_if:
  "j < length xs \<Longrightarrow> xs[i := x] ! j = (if i = j then x else xs ! j)"
  by (simp add: nth_list_update)

section \<open>Loops in the option monad\<close>

text \<open>A loop over the elements of a list whose body may fail to return normally.\<close>

fun fold_opt :: "('a \<Rightarrow> 's \<Rightarrow> 's option) \<Rightarrow> 'a list \<Rightarrow> 's \<Rightarrow> 's option" where
  "fold_opt f [] s = Some s"
| "fold_opt f (x # xs) s = Option.bind (f x s) (fold_opt f xs)"

lemma fold_opt_append:
  "fold_opt f (xs @ ys) s = Option.bind (fold_opt f xs s) (fold_opt f ys)"
  by (induction xs arbitrary: s) (simp_all split: Option.bind_split)

lemma fold_opt_invariant:
  assumes "P s" "\<And>x s. x \<in> set xs \<Longrightarrow> P s \<Longrightarrow> \<exists>s'. f x s = Some s' \<and> P s'"
  shows "\<exists>s'. fold_opt f xs s = Some s' \<and> P s'"
  using assms
proof (induction xs arbitrary: s)
  case (Cons x xs)
  from Cons.prems(2) [of x s] Cons.prems(1) obtain s1 where "f x s = Some s1" "P s1" by auto
  with Cons show ?case by auto
qed simp

lemma sum_list_update_eq:
  fixes f :: "'a \<Rightarrow> 'b::comm_monoid_add"
  shows "i < length xs \<Longrightarrow> sum_list (map f (xs[i := y])) + f (xs ! i) = sum_list (map f xs) + f y"
proof (induction xs arbitrary: i)
  case (Cons x xs)
  then show ?case by (cases i) (auto simp: ac_simps)
qed simp

section \<open>Words\<close>

lemma unat_u8_less: "unat (b :: u8) < 256"
  using unsigned_less [of b] by simp

lemma unat_of_nat_u32: "n < 2 ^ 32 \<Longrightarrow> unat (of_nat n :: u32) = n"
  by (simp add: unat_of_nat take_bit_nat_eq_self)

lemma unat_ucast_u32_u64: "unat (ucast (w :: u32) :: u64) = unat w"
proof -
  have "unat w < 2 ^ 32" using unsigned_less [of w] by simp
  then have "unat w < 2 ^ 64" by simp
  then show ?thesis by (simp add: unsigned_ucast_eq take_bit_nat_eq_self)
qed

lemma unat_push_bit_u32: "k < 32 \<Longrightarrow> unat (push_bit k (1 :: u32)) = 2 ^ k"
  using unat_of_nat_u32 [of "2 ^ k"] power_strict_increasing [of k 32 "2 :: nat"]
  by (simp add: push_bit_eq_mult)

text \<open>A power of two that fits in 32 bits.\<close>

definition pow2_u32 :: "u32 \<Rightarrow> bool" where
  "pow2_u32 w \<longleftrightarrow> (\<exists>k < 32. w = push_bit k 1)"

lemma pow2_index_less:
  fixes w :: u32
  assumes "pow2_u32 w"
  shows "unat (x AND (w - 1)) < unat w"
proof -
  obtain k where k: "k < 32" "w = push_bit k 1" using assms by (auto simp: pow2_u32_def)
  have "x AND (w - 1) = take_bit k x"
    using k(2) by (simp add: take_bit_eq_mask mask_eq_decr_exp push_bit_eq_mult)
  then have "unat (x AND (w - 1)) < 2 ^ k"
    by (simp add: unsigned_take_bit_eq take_bit_nat_less_exp)
  then show ?thesis using unat_push_bit_u32 [OF k(1)] k(2) by simp
qed

lemma pow2_double:
  assumes "pow2_u32 w" "unat w < 2 ^ 31"
  shows "pow2_u32 (w * 2)" "unat (w * 2) = 2 * unat w"
proof -
  obtain k where k: "k < 32" "w = push_bit k 1" using assms(1) by (auto simp: pow2_u32_def)
  have "(2 :: nat) ^ k < 2 ^ 31" using assms(2) unat_push_bit_u32 [OF k(1)] k(2) by simp
  then have "k < 31" using power_strict_increasing_iff [of "2 :: nat" k 31] by simp
  moreover have w: "w * 2 = push_bit (Suc k) 1" using k(2) by (simp add: push_bit_eq_mult)
  ultimately show "pow2_u32 (w * 2)" unfolding pow2_u32_def by (intro exI [of _ "Suc k"]) linarith
  show "unat (w * 2) = 2 * unat w"
    using unat_push_bit_u32 [of "Suc k"] unat_push_bit_u32 [of k] k \<open>k < 31\<close> w by (simp add: mult.commute)
qed

section \<open>Comparison callbacks\<close>

text \<open>
  What the containers require of a client's three-way comparison: it is antisymmetric in sign and
  its \<open>\<le> 0\<close> is transitive.
\<close>

locale comparator =
  fixes cmp :: "'a \<Rightarrow> 'a \<Rightarrow> int"
  assumes cmp_anti: "cmp x y < 0 \<longleftrightarrow> cmp y x > 0"
    and cmp_trans: "cmp x y \<le> 0 \<Longrightarrow> cmp y z \<le> 0 \<Longrightarrow> cmp x z \<le> 0"
begin

lemma cmp_total: "cmp x y \<le> 0 \<or> cmp y x \<le> 0"
  using cmp_anti [of y x] by linarith

lemma cmp_refl: "cmp x x = 0"
  using cmp_anti [of x x] by linarith

lemma cmp_not_less: "\<not> cmp x y < 0 \<longleftrightarrow> cmp y x \<le> 0"
  using cmp_anti [of x y] by linarith

lemma cmp_zero_sym: "cmp x y = 0 \<longleftrightarrow> cmp y x = 0"
  using cmp_anti [of x y] cmp_anti [of y x] by linarith

end

end
