(* ===== verification/Vectors.thy ===== *)
theory Vectors
  imports C_Prelude
begin

text \<open>
  The growable pointer vector of \<open>libvui/src/vui/lib/vector.c\<close>.

  \<open>struct _vector\<close> has the array \<open>index\<close> of \<open>alloced\<close> slots (a slot is a pointer, \<^term>\<open>None\<close> is
  \<open>NULL\<close>) and the number \<open>active\<close> of slots in use; \<open>active\<close> and \<open>alloced\<close> are 32-bit unsigned in
  the source, so growing past \<open>UINT_MAX\<close> is an abnormal outcome (\<^term>\<open>None\<close>) here.
\<close>

record 'a vector =
  active :: nat
  alloced :: nat
  index :: "'a ptr list"

definition UINT_MAX :: nat where "UINT_MAX = 2 ^ 32 - 1"
definition INT_MAX :: nat where "INT_MAX = 2 ^ 31 - 1"

definition VECTOR_MIN_SIZE :: nat where "VECTOR_MIN_SIZE = 1"

section \<open>Operations\<close>

definition vector_init :: "nat \<Rightarrow> 'a vector" where
  "vector_init sz =
     (let size = (if sz = 0 then 1 else sz)
      in \<lparr>active = 0, alloced = size, index = replicate size None\<rparr>)"

definition vector_copy :: "'a vector \<Rightarrow> 'a vector" where
  "vector_copy v = \<lparr>active = active v, alloced = alloced v, index = take (alloced v) (index v)\<rparr>"

text \<open>
  \<open>alloced * 2\<close> that does not fit in \<open>unsigned int\<close> wraps, and the \<open>memset\<close> that follows writes
  outside the reallocated block; with \<open>alloced = 0\<close> the recursion never ends.
\<close>

function vector_ensure :: "'a vector \<Rightarrow> nat \<Rightarrow> 'a vector option" where
  "vector_ensure v num =
     (if alloced v > num then Some v
      else if alloced v = 0 \<or> alloced v * 2 > UINT_MAX then None
      else let v' = v\<lparr>index := index v @ replicate (alloced v) None, alloced := alloced v * 2\<rparr>
           in if alloced v' \<le> num then vector_ensure v' num else Some v')"
  by pat_completeness auto
termination
  by (relation "measure (\<lambda>(v, num). Suc num - alloced v)") auto

declare vector_ensure.simps [simp del]

fun empty_slot_from :: "'a ptr list \<Rightarrow> nat \<Rightarrow> nat \<Rightarrow> nat option" where
  "empty_slot_from [] n i = (if i < n then None else Some i)"
| "empty_slot_from (s # ss) n i =
     (if i < n then (if s = None then Some i else empty_slot_from ss n (Suc i)) else Some i)"

text \<open>The scan of \<open>vector_empty_slot\<close>: first \<open>NULL\<close> slot below \<open>active\<close>, else \<open>active\<close>.\<close>

definition vector_empty_slot :: "'a vector \<Rightarrow> nat option" where
  "vector_empty_slot v =
     (if active v = 0 then Some 0 else empty_slot_from (index v) (active v) 0)"

definition vector_set_index :: "'a vector \<Rightarrow> nat \<Rightarrow> 'a ptr \<Rightarrow> ('a vector \<times> nat) option" where
  "vector_set_index v i val =
     do { v1 \<leftarrow> vector_ensure v i;
          ix \<leftarrow> wr (index v1) i val;
          let v2 = v1\<lparr>index := ix\<rparr>;
          Some (if active v2 \<le> i then v2\<lparr>active := i + 1\<rparr> else v2, i) }"

definition vector_set :: "'a vector \<Rightarrow> 'a ptr \<Rightarrow> ('a vector \<times> nat) option" where
  "vector_set v val =
     do { i \<leftarrow> vector_empty_slot v;
          v1 \<leftarrow> vector_ensure v i;
          ix \<leftarrow> wr (index v1) i val;
          let v2 = v1\<lparr>index := ix\<rparr>;
          Some (if active v2 \<le> i then v2\<lparr>active := i + 1\<rparr> else v2, i) }"

definition vector_lookup :: "'a vector \<Rightarrow> nat \<Rightarrow> 'a ptr option" where
  "vector_lookup v i = (if i \<ge> active v then Some None else rd (index v) i)"

definition vector_lookup_ensure :: "'a vector \<Rightarrow> nat \<Rightarrow> ('a vector \<times> 'a ptr) option" where
  "vector_lookup_ensure v i =
     do { v1 \<leftarrow> vector_ensure v i; p \<leftarrow> rd (index v1) i; Some (v1, p) }"

text \<open>The trimming loop \<open>while (i && v->index[--i] == NULL && v->active--);\<close> of \<open>vector_unset\<close>.\<close>

fun unset_trim :: "'a ptr list \<Rightarrow> nat \<Rightarrow> nat \<Rightarrow> nat option" where
  "unset_trim ix 0 act = Some act"
| "unset_trim ix (Suc i) act =
     do { p \<leftarrow> rd ix i;
          if p = None
          then (if act = 0 then Some UINT_MAX else unset_trim ix i (act - 1))
          else Some act }"

definition vector_unset :: "'a vector \<Rightarrow> nat \<Rightarrow> 'a vector option" where
  "vector_unset v i =
     (if i \<ge> alloced v then Some v
      else do { ix \<leftarrow> wr (index v) i None;
                if i + 1 = active v
                then do { act \<leftarrow> unset_trim ix i (active v - 1);
                          Some (v\<lparr>index := ix, active := act\<rparr>) }
                else Some (v\<lparr>index := ix\<rparr>) })"

text \<open>\<open>memmove\<close> of \<open>n\<close> slots from \<open>ix + 1\<close> to \<open>ix\<close>; \<open>n\<close> is an \<open>int\<close> in the source.\<close>

definition vector_remove :: "'a vector \<Rightarrow> nat \<Rightarrow> 'a vector option" where
  "vector_remove v ix =
     (if ix \<ge> active v then Some v
      else let act = active v - 1; n = act - ix
           in if n > INT_MAX \<or> act \<ge> length (index v) then None
              else let moved = take ix (index v) @ take n (drop (ix + 1) (index v))
                                 @ drop (ix + n) (index v)
                   in do { ix' \<leftarrow> wr moved act None;
                           Some (v\<lparr>active := act, index := ix'\<rparr>) })"

text \<open>
  \<open>vector_compact\<close>: \<open>vector_remove\<close> keeps position \<open>i\<close> in place (\<open>--i\<close> then \<open>++i\<close>) as long as slots
  are \<open>NULL\<close>. Each turn either advances \<open>i\<close> or shortens the active part.
\<close>

lemma vector_remove_active:
  "i < active v \<Longrightarrow> vector_remove v i = Some v' \<Longrightarrow> active v' = active v - 1"
  by (auto simp: vector_remove_def Let_def bind_Some_iff split: if_splits)

lemma vector_remove_shrinks:
  "i < active v \<Longrightarrow> vector_remove v i = Some v' \<Longrightarrow> active v' - i < active v - i"
  using vector_remove_active [of i v v'] by simp

function vector_compact_from :: "nat \<Rightarrow> 'a vector \<Rightarrow> 'a vector option" where
  "vector_compact_from i v =
     (if i < active v
      then (case rd (index v) i of
              None \<Rightarrow> None
            | Some None \<Rightarrow>
                (case vector_remove v i of
                   None \<Rightarrow> None
                 | Some v' \<Rightarrow> vector_compact_from i v')
            | Some (Some _) \<Rightarrow> vector_compact_from (Suc i) v)
      else Some v)"
  by pat_completeness auto
termination
  by (relation "measure (\<lambda>(i, v). active v - i)") (auto simp: vector_remove_shrinks)

declare vector_compact_from.simps [simp del]

definition vector_compact :: "'a vector \<Rightarrow> 'a vector option" where
  "vector_compact v = vector_compact_from 0 v"

text \<open>\<open>vector_unset_value\<close>: clear the first slot that holds \<open>val\<close>, then trim \<open>NULL\<close>s at the end.\<close>

fun find_slot :: "'a ptr list \<Rightarrow> nat \<Rightarrow> 'a ptr \<Rightarrow> nat \<Rightarrow> nat option" where
  "find_slot [] n val i = (if i < n then None else Some i)"
| "find_slot (s # ss) n val i =
     (if i < n then (if s = val then Some i else find_slot ss n val (Suc i)) else Some i)"

fun unset_value_trim :: "'a ptr list \<Rightarrow> nat \<Rightarrow> nat \<Rightarrow> nat option" where
  "unset_value_trim ix 0 act = Some (act - 1)"
| "unset_value_trim ix (Suc i) act =
     do { p \<leftarrow> rd ix i;
          if p = None then unset_value_trim ix i (act - 1) else Some (act - 1) }"

definition vector_unset_value :: "'a vector \<Rightarrow> 'a ptr \<Rightarrow> 'a vector option" where
  "vector_unset_value v val =
     do { i \<leftarrow> find_slot (index v) (active v) val 0;
          let ix = (if i < active v then (index v)[i := None] else index v);
          if i + 1 = active v
          then do { act \<leftarrow> unset_value_trim ix i (active v);
                    Some (v\<lparr>index := ix, active := act\<rparr>) }
          else Some (v\<lparr>index := ix\<rparr>) }"

definition vector_count :: "'a vector \<Rightarrow> nat option" where
  "vector_count v =
     (if active v \<le> length (index v)
      then Some (length (filter (\<lambda>p. p \<noteq> None) (take (active v) (index v)))) else None)"

definition vector_to_array :: "'a vector \<Rightarrow> 'a ptr list option" where
  "vector_to_array v =
     (if active v \<le> length (index v) then Some (take (active v) (index v)) else None)"

fun array_to_vector_from :: "'a ptr list \<Rightarrow> nat \<Rightarrow> 'a vector \<Rightarrow> 'a vector option" where
  "array_to_vector_from [] i v = Some v"
| "array_to_vector_from (x # xs) i v =
     do { (v', _) \<leftarrow> vector_set_index v i x; array_to_vector_from xs (Suc i) v' }"

definition array_to_vector :: "'a ptr list \<Rightarrow> 'a vector option" where
  "array_to_vector src = array_to_vector_from src 0 (vector_init VECTOR_MIN_SIZE)"

section \<open>Well-formedness\<close>

text \<open>The invariant every vector built by these operations has.\<close>

definition vec_wf :: "'a vector \<Rightarrow> bool" where
  "vec_wf v \<longleftrightarrow> 0 < alloced v \<and> alloced v \<le> UINT_MAX \<and> length (index v) = alloced v
     \<and> active v \<le> alloced v \<and> (\<forall>i < alloced v. active v \<le> i \<longrightarrow> index v ! i = None)"

text \<open>The contents a client sees.\<close>

definition vec_slots :: "'a vector \<Rightarrow> 'a ptr list" where
  "vec_slots v = take (active v) (index v)"

lemma vec_wfI:
  assumes "0 < alloced v" "alloced v \<le> UINT_MAX" "length (index v) = alloced v"
    and "active v \<le> alloced v"
    and "\<And>i. i < alloced v \<Longrightarrow> active v \<le> i \<Longrightarrow> index v ! i = None"
  shows "vec_wf v"
  using assms by (simp add: vec_wf_def)

lemma vec_wfD:
  assumes "vec_wf v"
  shows "0 < alloced v" "alloced v \<le> UINT_MAX" "length (index v) = alloced v"
    "active v \<le> alloced v" "i < alloced v \<Longrightarrow> active v \<le> i \<Longrightarrow> index v ! i = None"
  using assms by (auto simp: vec_wf_def)

lemma length_vec_slots [simp]: "vec_wf v \<Longrightarrow> length (vec_slots v) = active v"
  by (simp add: vec_slots_def vec_wf_def)

lemma nth_vec_slots [simp]: "i < active v \<Longrightarrow> vec_slots v ! i = index v ! i"
  by (simp add: vec_slots_def)

text \<open>A well-formed vector is its visible slots followed by spare \<open>NULL\<close> slots.\<close>

lemma vec_index_eq:
  "vec_wf v \<Longrightarrow> index v = vec_slots v @ replicate (alloced v - active v) None"
  by (rule nth_equalityI) (auto simp: vec_wf_def vec_slots_def nth_append)

lemma vec_of_slots:
  assumes "index v = ps @ replicate k None" "active v = length ps" "alloced v = length ps + k"
    and "0 < alloced v" "alloced v \<le> UINT_MAX"
  shows "vec_wf v \<and> vec_slots v = ps"
  using assms by (auto simp: vec_wf_def vec_slots_def nth_append)

lemma vector_init_wf: "sz \<le> UINT_MAX \<Longrightarrow> vec_wf (vector_init sz)"
  by (auto simp: vector_init_def vec_wf_def UINT_MAX_def)

lemma vector_init_slots [simp]: "vec_slots (vector_init sz) = []"
  by (simp add: vector_init_def vec_slots_def)

lemma vector_copy_id: "vec_wf v \<Longrightarrow> vector_copy v = v"
  by (simp add: vector_copy_def vec_wf_def)

text \<open>Growing adds \<open>NULL\<close> slots at the end and nothing else.\<close>

lemma vector_ensure_grows:
  assumes "0 < alloced v" "length (index v) = alloced v" "num \<le> INT_MAX" "alloced v \<le> UINT_MAX"
  shows "\<exists>k. vector_ensure v num
               = Some (v\<lparr>index := index v @ replicate k None, alloced := alloced v + k\<rparr>)
             \<and> num < alloced v + k \<and> alloced v + k \<le> UINT_MAX"
  using assms
proof (induction v num rule: vector_ensure.induct)
  case (1 v num)
  show ?case
  proof (cases "num < alloced v")
    case True
    then show ?thesis
      using "1.prems" by (intro exI [of _ 0]) (simp add: vector_ensure.simps [of v num])
  next
    case False
    let ?v = "v\<lparr>index := index v @ replicate (alloced v) None, alloced := alloced v * 2\<rparr>"
    have fits: "\<not> (alloced v = 0 \<or> alloced v * 2 > UINT_MAX)"
      using False "1.prems" by (simp add: INT_MAX_def UINT_MAX_def)
    show ?thesis
    proof (cases "alloced ?v \<le> num")
      case True
      from "1.IH" [OF False fits refl True] "1.prems" fits
      obtain k where k: "vector_ensure ?v num
            = Some (?v\<lparr>index := index ?v @ replicate k None, alloced := alloced ?v + k\<rparr>)"
        "num < alloced ?v + k" "alloced ?v + k \<le> UINT_MAX"
        by auto
      have step: "vector_ensure v num = vector_ensure ?v num"
        using False fits True by (simp add: vector_ensure.simps [of v num] Let_def)
      have shape: "?v\<lparr>index := index ?v @ replicate k None, alloced := alloced ?v + k\<rparr>
            = v\<lparr>index := index v @ replicate (alloced v + k) None,
                alloced := alloced v + (alloced v + k)\<rparr>"
        by (simp add: replicate_add)
      show ?thesis
        by (rule exI [of _ "alloced v + k"]) (use k step shape in simp)
    next
      case not_less: False
      have "vector_ensure v num = Some ?v"
        using False fits not_less by (simp add: vector_ensure.simps [of v num] Let_def)
      then show ?thesis
        using not_less fits by (intro exI [of _ "alloced v"]) auto
    qed
  qed
qed

lemma vector_ensure_wf:
  assumes "vec_wf v" "num \<le> INT_MAX"
  obtains w where "vector_ensure v num = Some w" "vec_wf w" "num < alloced w"
    "active w = active v" "vec_slots w = vec_slots v"
    "\<And>i. i < alloced w \<Longrightarrow> index w ! i = (if i < alloced v then index v ! i else None)"
proof -
  from vector_ensure_grows [of v num] assms obtain k where
    k: "vector_ensure v num
          = Some (v\<lparr>index := index v @ replicate k None, alloced := alloced v + k\<rparr>)"
       "num < alloced v + k" "alloced v + k \<le> UINT_MAX"
    by (auto simp: vec_wf_def)
  show ?thesis
    by (rule that [OF k(1)])
      (use assms k in \<open>auto simp: vec_wf_def vec_slots_def nth_append\<close>)
qed

section \<open>Functional behaviour\<close>

definition trim_nulls :: "'a ptr list \<Rightarrow> 'a ptr list" where
  "trim_nulls ps = rev (dropWhile (\<lambda>p. p = None) (rev ps))"

definition null_pos :: "'a ptr list \<Rightarrow> nat" where
  "null_pos ps = length (takeWhile (\<lambda>p. p \<noteq> None) ps)"

lemma null_pos_le: "null_pos ps \<le> length ps"
  by (simp add: null_pos_def length_takeWhile_le)

lemma null_pos_Cons [simp]: "null_pos (p # ps) = (if p = None then 0 else Suc (null_pos ps))"
  by (simp add: null_pos_def)

lemma null_pos_Nil [simp]: "null_pos [] = 0"
  by (simp add: null_pos_def)

lemma null_pos_nonull: "None \<notin> set ps \<Longrightarrow> null_pos ps = length ps"
  by (induction ps) (simp_all add: eq_commute [of None] del: not_None_eq)

lemma empty_slot_from_eq:
  assumes "n \<le> i + length ss" "i \<le> n"
  shows "empty_slot_from ss n i = Some (i + null_pos (take (n - i) ss))"
  using assms
proof (induction ss arbitrary: i)
  case (Cons s ss)
  show ?case
  proof (cases "i < n")
    case True
    then have "take (n - i) (s # ss) = s # take (n - Suc i) ss"
      by (simp add: take_Cons')
    with True Cons show ?thesis by simp
  qed (use Cons in simp)
qed simp

lemma vector_empty_slot_eq:
  "vec_wf v \<Longrightarrow> vector_empty_slot v = Some (null_pos (vec_slots v))"
  using empty_slot_from_eq [of "active v" 0 "index v"]
  by (auto simp: vector_empty_slot_def vec_wf_def vec_slots_def null_pos_def)

text \<open>The slots after a write at \<open>i\<close>, which may lie beyond the active part.\<close>

definition slots_put :: "'a ptr list \<Rightarrow> nat \<Rightarrow> 'a ptr \<Rightarrow> 'a ptr list" where
  "slots_put ps i val = (ps @ replicate (Suc i - length ps) None)[i := val]"

lemma take_index_wf:
  "vec_wf v \<Longrightarrow> active v \<le> n \<Longrightarrow> n \<le> alloced v \<Longrightarrow>
   take n (index v) = vec_slots v @ replicate (n - active v) None"
  by (subst vec_index_eq) (auto simp: min_def)

lemma vector_set_index_spec:
  assumes "vec_wf v" "i \<le> INT_MAX"
  obtains w where "vector_set_index v i val = Some (w, i)" "vec_wf w"
    "vec_slots w = slots_put (vec_slots v) i val"
proof -
  from vector_ensure_wf [OF assms] obtain u where
    u: "vector_ensure v i = Some u" "vec_wf u" "i < alloced u" "active u = active v"
       "vec_slots u = vec_slots v"
    by blast
  let ?n = "max (active u) (Suc i)" and ?u = "u\<lparr>index := (index u)[i := val]\<rparr>"
  let ?w = "if active u \<le> i then ?u\<lparr>active := i + 1\<rparr> else ?u"
  have fields: "active ?w = ?n" "alloced ?w = alloced u" "index ?w = (index u)[i := val]"
    by (simp_all add: max_def)
  have "i < length (index u)"
    using u(2,3) by (simp add: vec_wf_def)
  then have eq: "vector_set_index v i val = Some (?w, i)"
    by (simp add: vector_set_index_def Let_def u(1) wr_Some)
  have wf: "vec_wf ?w"
    using u(2,3) unfolding vec_wf_def fields by (auto simp: nth_list_update)
  have "vec_slots ?w = (take ?n (index u))[i := val]"
    unfolding vec_slots_def fields by (simp add: take_update_swap)
  also have "\<dots> = slots_put (vec_slots v) i val"
    using u assms(1) vec_wfD(4) [OF u(2)] by (simp add: take_index_wf slots_put_def max_def)
  finally show ?thesis by (rule that [OF eq wf])
qed

lemma vector_set_as_set_index:
  "vec_wf v \<Longrightarrow> vector_set v val = vector_set_index v (null_pos (vec_slots v)) val"
  by (simp add: vector_set_def vector_set_index_def vector_empty_slot_eq)

lemma vector_set_spec:
  assumes "vec_wf v" "active v \<le> INT_MAX"
  obtains w where "vector_set v val = Some (w, null_pos (vec_slots v))" "vec_wf w"
    "vec_slots w = slots_put (vec_slots v) (null_pos (vec_slots v)) val"
proof -
  have "null_pos (vec_slots v) \<le> INT_MAX"
    using null_pos_le [of "vec_slots v"] assms by simp
  from vector_set_index_spec [OF assms(1) this, of val] obtain w where
    "vector_set_index v (null_pos (vec_slots v)) val = Some (w, null_pos (vec_slots v))"
    "vec_wf w" "vec_slots w = slots_put (vec_slots v) (null_pos (vec_slots v)) val"
    by blast
  then show ?thesis
    using that [of w] vector_set_as_set_index [OF assms(1), of val] by simp
qed

text \<open>On a vector without holes, \<open>vector_set\<close> appends.\<close>

lemma slots_put_append: "slots_put ps (length ps) val = ps @ [val]"
  by (simp add: slots_put_def)

lemma vector_set_append:
  assumes "vec_wf v" "active v \<le> INT_MAX" "None \<notin> set (vec_slots v)"
  obtains w where "vector_set v val = Some (w, active v)" "vec_wf w"
    "vec_slots w = vec_slots v @ [val]"
proof -
  have pos: "null_pos (vec_slots v) = length (vec_slots v)"
    using assms(3) by (rule null_pos_nonull)
  from vector_set_spec [OF assms(1,2), of val] obtain w where
    "vector_set v val = Some (w, length (vec_slots v))" "vec_wf w"
    "vec_slots w = vec_slots v @ [val]"
    unfolding pos slots_put_append by blast
  then show ?thesis
    using that [of w] assms(1) by simp
qed

lemma vector_lookup_eq:
  "vec_wf v \<Longrightarrow> vector_lookup v i = Some (if i < active v then vec_slots v ! i else None)"
  by (auto simp: vector_lookup_def vec_wf_def c_simps)

lemma vector_remove_spec:
  assumes "vec_wf v" "active v \<le> INT_MAX" "ix < active v"
  obtains w where "vector_remove v ix = Some w" "vec_wf w" "active w = active v - 1"
    "vec_slots w = take ix (vec_slots v) @ drop (Suc ix) (vec_slots v)"
proof -
  define A x B k where "A = take ix (vec_slots v)" and "x = vec_slots v ! ix"
    and "B = drop (Suc ix) (vec_slots v)" and "k = alloced v - active v"
  have slots: "vec_slots v = A @ x # B"
    unfolding A_def x_def B_def by (rule id_take_nth_drop) (use assms in simp)
  have ix: "index v = A @ x # B @ replicate k None"
    using vec_index_eq [OF assms(1)] slots by (simp add: k_def)
  have lens: "length A = ix" "active v = ix + Suc (length B)" "alloced v = ix + Suc (length B) + k"
    using assms vec_wfD(4) [OF assms(1)] by (simp_all add: A_def B_def k_def)
  have tail: "(drop (length B) (x # B @ C))[0 := None] = None # C" for C
  proof -
    have "drop (length B) (x # B @ C) = last (x # B) # C"
      by (cases B rule: rev_cases) auto
    then show ?thesis by simp
  qed
  let ?w = "v\<lparr>active := ix + length B, index := A @ B @ None # replicate k None\<rparr>"
  have eq: "vector_remove v ix = Some ?w"
    using lens assms(2) by (simp add: vector_remove_def Let_def wr_def ix list_update_append tail)
  have "vec_wf ?w \<and> vec_slots ?w = A @ B"
    by (rule vec_of_slots [where k = "Suc k"]) (use lens vec_wfD(1,2) [OF assms(1)] in auto)
  then show ?thesis
    using that [OF eq] lens by (simp add: A_def B_def)
qed

text \<open>Removing at the end trims the trailing \<open>NULL\<close> slots.\<close>

lemma trim_nulls_snoc [simp]:
  "trim_nulls (ps @ [p]) = (if p = None then trim_nulls ps else ps @ [p])"
  by (auto simp: trim_nulls_def)

lemma trim_nulls_Nil [simp]: "trim_nulls [] = []"
  by (simp add: trim_nulls_def)

lemma trim_nulls_split: "\<exists>k. ps = trim_nulls ps @ replicate k None"
proof (induction ps rule: rev_induct)
  case (snoc p ps)
  then obtain k where k: "ps = trim_nulls ps @ replicate k None" by blast
  show ?case
  proof (cases p)
    case None
    with k have "ps @ [p] = trim_nulls ps @ replicate (Suc k) None"
      by (metis append.assoc replicate_append_same replicate_Suc)
    with None show ?thesis by (metis trim_nulls_snoc)
  next
    case (Some y)
    then show ?thesis by (intro exI [of _ 0]) simp
  qed
qed simp

lemma trim_nulls_last: "trim_nulls ps \<noteq> [] \<Longrightarrow> last (trim_nulls ps) \<noteq> None"
  by (induction ps rule: rev_induct) auto

lemma unset_trim_eq:
  "i \<le> length ix \<Longrightarrow> unset_trim ix i i = Some (length (trim_nulls (take i ix)))"
  by (induction i) (auto simp: take_Suc_conv_app_nth c_simps)

lemma unset_value_trim_eq:
  "i \<le> length ix \<Longrightarrow> unset_value_trim ix i (Suc i) = Some (length (trim_nulls (take i ix)))"
  by (induction i) (auto simp: take_Suc_conv_app_nth c_simps)

text \<open>What both unset operations leave behind when they clear the last active slot.\<close>

lemma cleared_last_wf:
  assumes "vec_wf v" "active v = Suc i"
  defines "ix \<equiv> (index v)[i := None]"
  shows "vec_wf (v\<lparr>index := ix, active := length (trim_nulls (take i ix))\<rparr>)
    \<and> vec_slots (v\<lparr>index := ix, active := length (trim_nulls (take i ix))\<rparr>)
        = trim_nulls (take i (vec_slots v))"
proof -
  let ?t = "trim_nulls (take i (vec_slots v))" and ?r = "alloced v - active v"
  have tk: "take i ix = take i (vec_slots v)"
    using assms(2) by (simp add: ix_def vec_slots_def min_def)
  obtain k where k: "take i (vec_slots v) = ?t @ replicate k None"
    using trim_nulls_split by blast
  have len: "length (take i (vec_slots v)) = i"
    using assms(1,2) by simp
  have "vec_slots v = take i (vec_slots v) @ [vec_slots v ! i]"
    using assms(1,2) take_Suc_conv_app_nth [of i "vec_slots v"] by simp
  then have "index v = take i (vec_slots v) @ vec_slots v ! i # replicate ?r None"
    using vec_index_eq [OF assms(1)] by (metis append.assoc append_Cons append_Nil)
  then have "ix = take i (vec_slots v) @ None # replicate ?r None"
    unfolding ix_def using len by (metis list_update_length)
  moreover have "replicate (k + Suc ?r) None = replicate k None @ None # replicate ?r None"
    by (simp add: replicate_add replicate_append_same)
  ultimately have ix: "ix = ?t @ replicate (k + Suc ?r) None"
    using k by (metis append.assoc)
  have lt: "length ?t + k = i"
    using k len by (metis length_append length_replicate)
  show ?thesis
    unfolding tk
    by (rule vec_of_slots [where k = "k + Suc ?r"])
      (use ix assms(2) lt vec_wfD(1,2,4) [OF assms(1)] in simp_all)
qed

lemma cleared_inner_wf:
  assumes "vec_wf v" "i < alloced v"
  shows "vec_wf (v\<lparr>index := (index v)[i := None]\<rparr>)
    \<and> vec_slots (v\<lparr>index := (index v)[i := None]\<rparr>) = (vec_slots v)[i := None]"
  using assms by (auto simp: vec_wf_def vec_slots_def nth_list_update take_update_swap)

lemma vector_unset_spec:
  assumes "vec_wf v"
  obtains w where "vector_unset v i = Some w" "vec_wf w"
    "vec_slots w = (if Suc i = active v then trim_nulls (take i (vec_slots v))
                    else (vec_slots v)[i := None])"
proof (cases "i < alloced v")
  case False
  then have "(vec_slots v)[i := None] = vec_slots v" "Suc i \<noteq> active v"
    using assms vec_wfD(4) [OF assms] by (auto intro: list_update_beyond)
  with False show ?thesis
    using assms that [of v] by (simp add: vector_unset_def)
next
  case in_range: True
  then have wr: "wr (index v) i None = Some ((index v)[i := None])"
    using assms by (simp add: vec_wf_def wr_Some)
  show ?thesis
  proof (cases "Suc i = active v")
    case True
    let ?ix = "(index v)[i := None]"
    have "unset_trim ?ix i (active v - 1) = Some (length (trim_nulls (take i ?ix)))"
      using True in_range vec_wfD(3) [OF assms] unset_trim_eq [of i ?ix] by (simp flip: True)
    then have "vector_unset v i = Some (v\<lparr>index := ?ix, active := length (trim_nulls (take i ?ix))\<rparr>)"
      using True in_range by (simp add: vector_unset_def wr)
    then show ?thesis
      using that cleared_last_wf [OF assms, of i] True by simp
  next
    case False
    then show ?thesis
      using that cleared_inner_wf [OF assms in_range] in_range by (simp add: vector_unset_def wr)
  qed
qed

text \<open>The first slot equal to \<open>val\<close>, or the end.\<close>

definition val_pos :: "'a ptr list \<Rightarrow> 'a ptr \<Rightarrow> nat" where
  "val_pos ps val = length (takeWhile (\<lambda>p. p \<noteq> val) ps)"

lemma val_pos_simps [simp]:
  "val_pos [] val = 0" "val_pos (p # ps) val = (if p = val then 0 else Suc (val_pos ps val))"
  by (simp_all add: val_pos_def)

lemma val_pos_le: "val_pos ps val \<le> length ps"
  by (simp add: val_pos_def length_takeWhile_le)

lemma find_slot_eq:
  assumes "n \<le> i + length ss" "i \<le> n"
  shows "find_slot ss n val i = Some (i + val_pos (take (n - i) ss) val)"
  using assms
proof (induction ss arbitrary: i)
  case (Cons s ss)
  show ?case
  proof (cases "i < n")
    case True
    then have "take (n - i) (s # ss) = s # take (n - Suc i) ss"
      by (simp add: take_Cons')
    with True Cons show ?thesis by simp
  qed (use Cons in simp)
qed simp

lemma vector_unset_value_spec:
  assumes "vec_wf v"
    and i: "i = val_pos (vec_slots v) val"
  obtains w where "vector_unset_value v val = Some w" "vec_wf w"
    "vec_slots w = (if Suc i = active v then trim_nulls (take i (vec_slots v))
                    else (vec_slots v)[i := None])"
proof -
  have find: "find_slot (index v) (active v) val 0 = Some i"
    using assms find_slot_eq [of "active v" 0 "index v" val] by (simp add: vec_wf_def vec_slots_def)
  have le: "i \<le> active v" "active v \<le> alloced v"
    using assms val_pos_le [of "vec_slots v" val] by (auto simp: vec_wf_def)
  consider "Suc i = active v" | "Suc i \<noteq> active v" "i < active v" | "i = active v"
    using le by linarith
  then show ?thesis
  proof cases
    case 1
    let ?ix = "(index v)[i := None]"
    have "unset_value_trim ?ix i (active v) = Some (length (trim_nulls (take i ?ix)))"
      using 1 le vec_wfD(3) [OF assms(1)] unset_value_trim_eq [of i ?ix] by simp
    then have "vector_unset_value v val
        = Some (v\<lparr>index := ?ix, active := length (trim_nulls (take i ?ix))\<rparr>)"
      using 1 by (simp add: vector_unset_value_def find Let_def)
    then show ?thesis
      using that cleared_last_wf [OF assms(1), of i] 1 by simp
  next
    case 2
    then show ?thesis
      using that cleared_inner_wf [OF assms(1), of i] le
      by (simp add: vector_unset_value_def find Let_def)
  next
    case 3
    then show ?thesis
      using that [of v] assms(1)
      by (simp add: vector_unset_value_def find Let_def list_update_beyond)
  qed
qed

text \<open>Compaction keeps the non-\<open>NULL\<close> slots in order.\<close>

lemma vector_compact_from_spec:
  assumes "vec_wf v" "active v \<le> INT_MAX" "i \<le> active v" "None \<notin> set (take i (vec_slots v))"
  shows "\<exists>w. vector_compact_from i v = Some w \<and> vec_wf w
           \<and> vec_slots w = filter (\<lambda>p. p \<noteq> None) (vec_slots v)"
  using assms
proof (induction i v rule: vector_compact_from.induct)
  case (1 i v)
  show ?case
  proof (cases "i < active v")
    case False
    with "1.prems" have "vector_compact_from i v = Some v" "None \<notin> set (vec_slots v)"
      by (auto simp: vector_compact_from.simps [of "active v" v])
    moreover from this(2) have "filter (\<lambda>p. p \<noteq> None) (vec_slots v) = vec_slots v"
      by (intro filter_True) metis
    ultimately show ?thesis using "1.prems"(1) by simp
  next
    case lt: True
    let ?ps = "vec_slots v"
    have rd: "rd (index v) i = Some (?ps ! i)"
      using lt "1.prems"(1) vec_wfD(3,4) [OF "1.prems"(1)] by (simp add: rd_Some)
    have split: "?ps = take i ?ps @ ?ps ! i # drop (Suc i) ?ps"
      by (rule id_take_nth_drop) (use lt "1.prems"(1) in simp)
    show ?thesis
    proof (cases "?ps ! i")
      case None
      obtain w where w: "vector_remove v i = Some w" "vec_wf w" "active w = active v - 1"
        "vec_slots w = take i ?ps @ drop (Suc i) ?ps"
        using vector_remove_spec [OF "1.prems"(1,2) lt] by blast
      have keep: "take i (vec_slots w) = take i ?ps"
        using w(4) lt "1.prems"(1) by simp
      have "\<exists>x. vector_compact_from i w = Some x \<and> vec_wf x
           \<and> vec_slots x = filter (\<lambda>p. p \<noteq> None) (vec_slots w)"
        by (rule "1.IH"(1) [OF lt rd _ w(1,2)])
          (use None w(3) keep lt "1.prems" in auto)
      moreover have "filter (\<lambda>p. p \<noteq> None) ?ps = filter (\<lambda>p. p \<noteq> None) (vec_slots w)"
        by (subst split) (simp add: None w(4))
      moreover have "vector_compact_from i v = vector_compact_from i w"
        using lt rd None w(1) by (simp add: vector_compact_from.simps [of i v])
      ultimately show ?thesis by simp
    next
      case (Some y)
      have "take (Suc i) ?ps = take i ?ps @ [?ps ! i]"
        by (rule take_Suc_conv_app_nth) (use lt "1.prems"(1) in simp)
      then have "\<exists>x. vector_compact_from (Suc i) v = Some x \<and> vec_wf x
           \<and> vec_slots x = filter (\<lambda>p. p \<noteq> None) ?ps"
        by (intro "1.IH"(2) [OF lt rd _ "1.prems"(1,2)])
          (use Some lt "1.prems" in auto)
      moreover have "vector_compact_from i v = vector_compact_from (Suc i) v"
        using lt rd Some by (simp add: vector_compact_from.simps [of i v])
      ultimately show ?thesis by simp
    qed
  qed
qed

lemma vector_count_eq:
  "vec_wf v \<Longrightarrow> vector_count v = Some (length (filter (\<lambda>p. p \<noteq> None) (vec_slots v)))"
  by (simp add: vector_count_def vec_slots_def vec_wf_def)

lemma vector_to_array_eq: "vec_wf v \<Longrightarrow> vector_to_array v = Some (vec_slots v)"
  by (simp add: vector_to_array_def vec_slots_def vec_wf_def)

lemma array_to_vector_from_spec:
  assumes "vec_wf v" "i = length (vec_slots v)" "i + length xs \<le> INT_MAX"
  shows "\<exists>w. array_to_vector_from xs i v = Some w \<and> vec_wf w \<and> vec_slots w = vec_slots v @ xs"
  using assms
proof (induction xs arbitrary: i v)
  case (Cons x xs)
  then have "i \<le> INT_MAX" by simp
  from vector_set_index_spec [OF Cons.prems(1) this, of x] obtain w where
    w: "vector_set_index v i x = Some (w, i)" "vec_wf w" "vec_slots w = vec_slots v @ [x]"
    using Cons.prems(2) slots_put_append by metis
  have "\<exists>u. array_to_vector_from xs (Suc i) w = Some u \<and> vec_wf u
          \<and> vec_slots u = vec_slots w @ xs"
    by (rule Cons.IH [OF w(2)]) (use w Cons.prems in simp_all)
  then show ?case using w by simp
qed simp

section \<open>Properties\<close>

text \<open>A vector with a hole and a spare slot, used by the concrete instances below.\<close>

lemma vec_wf_example: "vec_wf \<lparr>active = 3, alloced = 4, index = [Some (7::nat), None, Some 9, None]\<rparr>"
  by (rule vec_of_slots [where k = 1 and ps = "[Some 7, None, Some 9]", THEN conjunct1])
    (simp_all add: UINT_MAX_def)

text \<open>
  \<open>vector_set\<close> stores its argument in the smallest empty slot and changes no other slot; it
  returns that slot's index, and the vector stays well formed.
\<close>

theorem vector_set_smallest_slot:
  assumes "vec_wf v" "active v \<le> INT_MAX"
  shows "\<exists>w i. vector_set v val = Some (w, i) \<and> vec_wf w
           \<and> (\<forall>j < i. vector_lookup v j \<noteq> Some None) \<and> vector_lookup v i = Some None
           \<and> vector_lookup w i = Some val
           \<and> (\<forall>j. j \<noteq> i \<longrightarrow> vector_lookup w j = vector_lookup v j)"
proof -
  let ?i = "null_pos (vec_slots v)"
  obtain w where w: "vector_set v val = Some (w, ?i)" "vec_wf w"
    "vec_slots w = slots_put (vec_slots v) ?i val"
    using vector_set_spec [OF assms] by blast
  have le: "?i \<le> active v"
    using null_pos_le [of "vec_slots v"] assms(1) by simp
  have before: "vec_slots v ! j \<noteq> None" if "j < ?i" for j
    using that nth_length_takeWhile takeWhile_nth [of j "\<lambda>p. p \<noteq> None" "vec_slots v"]
    by (metis (mono_tags, lifting) null_pos_def nth_mem set_takeWhileD)
  have at: "?i < active v \<Longrightarrow> vec_slots v ! ?i = None"
    using nth_length_takeWhile [of "\<lambda>p. p \<noteq> None" "vec_slots v"] assms(1)
    by (simp add: null_pos_def)
  have len: "active w = max (active v) (Suc ?i)"
    using arg_cong [OF w(3), of length] w(2) assms(1) le by (simp add: slots_put_def max_def)
  have nth: "vec_slots w ! j = (if j = ?i then val else if j < active v then vec_slots v ! j else None)"
    if "j < active w" for j
    using that len le assms(1) unfolding w(3) slots_put_def
    by (auto simp: nth_list_update nth_append)
  show ?thesis
    by (rule exI [of _ w], rule exI [of _ ?i])
      (use w(1,2) before at nth len le assms(1) in \<open>auto simp: vector_lookup_eq\<close>)
qed

text \<open>
  \<open>vector_compact\<close> terminates without leaving the allocated slots and removes exactly the
  \<open>NULL\<close> slots, keeping the order of the others.
\<close>

theorem vector_compact_filters:
  assumes "vec_wf v" "active v \<le> INT_MAX"
  shows "\<exists>w. vector_compact v = Some w \<and> vec_wf w
           \<and> vec_slots w = filter (\<lambda>p. p \<noteq> None) (vec_slots v)
           \<and> vector_count w = vector_count v"
proof -
  obtain w where w: "vector_compact v = Some w" "vec_wf w"
    "vec_slots w = filter (\<lambda>p. p \<noteq> None) (vec_slots v)"
    using vector_compact_from_spec [OF assms, of 0] by (auto simp: vector_compact_def)
  then show ?thesis
    using assms(1) by (simp add: vector_count_eq)
qed

text \<open>
  Copying an array into a vector and the vector back into an array gives the array again.
\<close>

theorem array_vector_roundtrip:
  assumes "length xs \<le> INT_MAX"
  shows "\<exists>v. array_to_vector xs = Some v \<and> vec_wf v \<and> vector_to_array v = Some xs"
proof -
  have "vec_wf (vector_init VECTOR_MIN_SIZE)"
    by (rule vector_init_wf) (simp add: VECTOR_MIN_SIZE_def UINT_MAX_def)
  from array_to_vector_from_spec [OF this, of 0 xs] assms show ?thesis
    by (auto simp: array_to_vector_def vector_to_array_eq)
qed

text \<open>
  Clearing the last active slot with \<open>vector_unset\<close> shrinks the vector to its last
  non-\<open>NULL\<close> slot, empties the cleared slot and changes no other lookup.
\<close>

theorem vector_unset_trims:
  assumes "vec_wf v" "Suc i = active v"
  shows "\<exists>w. vector_unset v i = Some w \<and> vec_wf w
           \<and> (active w = 0 \<or> vector_lookup w (active w - 1) \<noteq> Some None)
           \<and> (\<forall>j. vector_lookup w j = (if j = i then Some None else vector_lookup v j))"
proof -
  let ?ps = "take i (vec_slots v)"
  obtain w where w: "vector_unset v i = Some w" "vec_wf w" "vec_slots w = trim_nulls ?ps"
    using vector_unset_spec [OF assms(1), of i] assms(2) by (auto simp: assms(2))
  obtain k where k: "?ps = vec_slots w @ replicate k None"
    using trim_nulls_split [of ?ps] w(3) by auto
  have len: "i = active w + k"
    using arg_cong [OF k, of length] w(2) assms by simp
  have nth: "vec_slots v ! j = (if j < active w then vec_slots w ! j else None)" if "j < i" for j
    using arg_cong [OF k, of "\<lambda>l. l ! j"] that w(2) len by (simp add: nth_append split: if_splits)
  have last: "vec_slots w ! (active w - 1) \<noteq> None" if "active w \<noteq> 0"
    using trim_nulls_last [of ?ps] w that
    by (metis last_conv_nth length_0_conv length_vec_slots)
  show ?thesis
    by (rule exI [of _ w])
      (use w(1,2) last nth len assms in \<open>auto simp: vector_lookup_eq\<close>)
qed

end
