(* ===== verification/Graphs.thy ===== *)
theory Graphs
  imports Vectors "HOL-Library.Multiset"
begin

text \<open>
  The directed multigraph of \<open>libvui/src/vui/lib/graph.c\<close>, on which the command tree is built.

  Nodes are heap objects: \<^term>\<open>g_cells\<close> maps an address to a \<open>struct graph_node\<close>, \<^term>\<open>g_next\<close> is
  the next fresh address, and \<^term>\<open>g_log\<close> records the arguments of the deletion callbacks in the
  order they are called. A graph is the vector of the addresses of its nodes; nodes may move
  between graphs, so the memory is shared.
\<close>

record 'd gnode =
  g_from :: "nat vector"
  g_to :: "nat vector"
  g_data :: "'d ptr"
  g_del :: bool

record 'd gmem =
  g_next :: nat
  g_cells :: "nat \<Rightarrow> 'd gnode option"
  g_log :: "'d list"

record graph =
  nodes :: "nat vector"

section \<open>Operations\<close>

definition graph_new :: graph where
  "graph_new = \<lparr>nodes = vector_init VECTOR_MIN_SIZE\<rparr>"

definition graph_new_node :: "'d gmem \<Rightarrow> graph \<Rightarrow> 'd ptr \<Rightarrow> bool \<Rightarrow> ('d gmem \<times> graph \<times> nat) option" where
  "graph_new_node m g data del =
     (let a = g_next m;
          node = \<lparr>g_from = vector_init VECTOR_MIN_SIZE, g_to = vector_init VECTOR_MIN_SIZE,
                  g_data = data, g_del = del\<rparr>
      in do { (ns, _) \<leftarrow> vector_set (nodes g) (Some a);
              Some (m\<lparr>g_next := a + 1, g_cells := (g_cells m)(a \<mapsto> node)\<rparr>, g\<lparr>nodes := ns\<rparr>, a) })"

definition graph_vector_remove :: "'a vector \<Rightarrow> nat \<Rightarrow> 'a vector option" where
  "graph_vector_remove v ix =
     (if ix \<ge> active v then Some v
      else let act = active v - 1
           in do { p \<leftarrow> rd (index v) act;
                   i1 \<leftarrow> wr (index v) ix p;
                   i2 \<leftarrow> wr i1 act None;
                   Some (v\<lparr>active := act, index := i2\<rparr>) })"

text \<open>The descending search \<open>for (i = vector_active(v); i--; )\<close> for a slot with a given value.\<close>

fun scan_down :: "'a ptr list \<Rightarrow> nat \<Rightarrow> 'a ptr \<Rightarrow> nat option option" where
  "scan_down ix 0 val = Some None"
| "scan_down ix (Suc i) val =
     do { p \<leftarrow> rd ix i; if p = val then Some (Some i) else scan_down ix i val }"

definition vector_drop_match :: "'a vector \<Rightarrow> 'a \<Rightarrow> 'a vector option" where
  "vector_drop_match v a =
     do { r \<leftarrow> scan_down (index v) (active v) (Some a);
          case r of None \<Rightarrow> Some v | Some i \<Rightarrow> graph_vector_remove v i }"

definition set_cell :: "'d gmem \<Rightarrow> nat \<Rightarrow> 'd gnode \<Rightarrow> 'd gmem" where
  "set_cell m a n = m\<lparr>g_cells := (g_cells m)(a \<mapsto> n)\<rparr>"

definition graph_add_edge :: "'d gmem \<Rightarrow> nat \<Rightarrow> nat \<Rightarrow> 'd gmem option" where
  "graph_add_edge m from to =
     do { nf \<leftarrow> g_cells m from;
          (t, _) \<leftarrow> vector_set (g_to nf) (Some to);
          let m1 = set_cell m from (nf\<lparr>g_to := t\<rparr>);
          nt \<leftarrow> g_cells m1 to;
          (f, _) \<leftarrow> vector_set (g_from nt) (Some from);
          Some (set_cell m1 to (nt\<lparr>g_from := f\<rparr>)) }"

definition graph_remove_edge :: "'d gmem \<Rightarrow> nat \<Rightarrow> nat \<Rightarrow> 'd gmem option" where
  "graph_remove_edge m from to =
     do { nt \<leftarrow> g_cells m to;
          f \<leftarrow> vector_drop_match (g_from nt) from;
          let m1 = set_cell m to (nt\<lparr>g_from := f\<rparr>);
          nf \<leftarrow> g_cells m1 from;
          t \<leftarrow> vector_drop_match (g_to nf) to;
          Some (set_cell m1 from (nf\<lparr>g_to := t\<rparr>)) }"

text \<open>The two edge-removal loops of \<open>graph_delete_node\<close>, counting \<open>i\<close> down.\<close>

fun del_in_edges :: "'d gmem \<Rightarrow> nat \<Rightarrow> nat \<Rightarrow> 'd gmem option" where
  "del_in_edges m node 0 = Some m"
| "del_in_edges m node (Suc i) =
     do { n \<leftarrow> g_cells m node;
          p \<leftarrow> rd (index (g_from n)) i;
          adj \<leftarrow> p;
          m' \<leftarrow> graph_remove_edge m adj node;
          del_in_edges m' node i }"

fun del_out_edges :: "'d gmem \<Rightarrow> nat \<Rightarrow> nat \<Rightarrow> 'd gmem option" where
  "del_out_edges m node 0 = Some m"
| "del_out_edges m node (Suc i) =
     do { n \<leftarrow> g_cells m node;
          p \<leftarrow> rd (index (g_to n)) i;
          adj \<leftarrow> p;
          m' \<leftarrow> graph_remove_edge m node adj;
          del_out_edges m' node i }"

definition run_del :: "'d gnode \<Rightarrow> 'd gmem \<Rightarrow> 'd gmem" where
  "run_del n m = (if g_del n then (case g_data n of None \<Rightarrow> m | Some d \<Rightarrow> m\<lparr>g_log := g_log m @ [d]\<rparr>) else m)"

definition graph_delete_node :: "'d gmem \<Rightarrow> graph \<Rightarrow> nat ptr \<Rightarrow> ('d gmem \<times> graph) option" where
  "graph_delete_node m g p =
     (case p of
        None \<Rightarrow> Some (m, g)
      | Some node \<Rightarrow>
          do { n \<leftarrow> g_cells m node;
               m1 \<leftarrow> del_in_edges m node (active (g_from n));
               n1 \<leftarrow> g_cells m1 node;
               m2 \<leftarrow> del_out_edges m1 node (active (g_to n1));
               n2 \<leftarrow> g_cells m2 node;
               let m3 = run_del n2 m2;
               ns \<leftarrow> vector_drop_match (nodes g) node;
               Some (m3\<lparr>g_cells := (g_cells m3)(node := None)\<rparr>, g\<lparr>nodes := ns\<rparr>) })"

fun delete_graph_from :: "'d gmem \<Rightarrow> graph \<Rightarrow> nat \<Rightarrow> ('d gmem \<times> graph) option" where
  "delete_graph_from m g 0 = Some (m, g)"
| "delete_graph_from m g (Suc i) =
     do { p \<leftarrow> rd (index (nodes g)) i;
          (m', g') \<leftarrow> graph_delete_node m g p;
          delete_graph_from m' g' i }"

definition graph_delete_graph :: "'d gmem \<Rightarrow> graph \<Rightarrow> 'd gmem option" where
  "graph_delete_graph m g = map_option fst (delete_graph_from m g (active (nodes g)))"

fun find_node_down :: "'d gmem \<Rightarrow> nat ptr list \<Rightarrow> nat \<Rightarrow> 'd ptr \<Rightarrow> nat ptr option" where
  "find_node_down m ix 0 data = Some None"
| "find_node_down m ix (Suc i) data =
     do { p \<leftarrow> rd ix i;
          a \<leftarrow> p;
          n \<leftarrow> g_cells m a;
          if g_data n = data then Some (Some a) else find_node_down m ix i data }"

definition graph_find_node :: "'d gmem \<Rightarrow> graph \<Rightarrow> 'd ptr \<Rightarrow> nat ptr option" where
  "graph_find_node m g data = find_node_down m (index (nodes g)) (active (nodes g)) data"

definition graph_has_edge :: "'d gmem \<Rightarrow> nat \<Rightarrow> nat \<Rightarrow> bool option" where
  "graph_has_edge m from to =
     do { n \<leftarrow> g_cells m from;
          r \<leftarrow> scan_down (index (g_to n)) (active (g_to n)) (Some to);
          Some (r \<noteq> None) }"

text \<open>
  Depth-first search. \<open>visited\<close> is a vector scanned linearly; the callback updates \<open>arg\<close>. The first
  argument bounds the recursion depth; \<open>graph_dfs\<close> below is shown to have enough.
\<close>

primrec graph_dfs_rec ::
  "nat \<Rightarrow> 'd gmem \<Rightarrow> (nat \<Rightarrow> 's \<Rightarrow> 's) \<Rightarrow> nat \<Rightarrow> nat vector \<times> 's \<Rightarrow> (nat vector \<times> 's) option" where
  "graph_dfs_rec 0 m cb start st = None"
| "graph_dfs_rec (Suc depth) m cb start st =
     (case st of (visited, arg) \<Rightarrow>
        do { seen \<leftarrow> vector_to_array visited;
             if Some start \<in> set seen then Some (visited, arg)
             else do { v1 \<leftarrow> vector_ensure visited (active visited);
                       (v2, _) \<leftarrow> vector_set_index v1 (active v1) (Some start);
                       let arg1 = cb start arg;
                       n \<leftarrow> g_cells m start;
                       ps \<leftarrow> vector_to_array (g_to n);
                       fold_opt (\<lambda>p st'. do { c \<leftarrow> p; graph_dfs_rec depth m cb c st' })
                         (rev ps) (v2, arg1) } })"

definition graph_dfs :: "nat \<Rightarrow> 'd gmem \<Rightarrow> (nat \<Rightarrow> 's \<Rightarrow> 's) \<Rightarrow> nat \<Rightarrow> 's \<Rightarrow> 's option" where
  "graph_dfs depth m cb start arg =
     map_option snd (graph_dfs_rec depth m cb start (vector_init VECTOR_MIN_SIZE, arg))"

section \<open>Vectors without holes as bags\<close>

text \<open>
  The contract the graph relies on: an adjacency vector is a bag of node addresses to which one
  occurrence can be added and from which one occurrence can be removed.
\<close>

locale pointer_bag =
  fixes bag_inv :: "'v \<Rightarrow> bool"
    and bag :: "'v \<Rightarrow> 'a multiset"
    and put :: "'v \<Rightarrow> 'a \<Rightarrow> ('v \<times> nat) option"
    and remove :: "'v \<Rightarrow> 'a \<Rightarrow> 'v option"
    and limit :: nat
  assumes put_law: "bag_inv v \<Longrightarrow> size (bag v) \<le> limit \<Longrightarrow>
      \<exists>w i. put v x = Some (w, i) \<and> bag_inv w \<and> bag w = add_mset x (bag v)"
    and remove_law: "bag_inv v \<Longrightarrow> \<exists>w. remove v x = Some w \<and> bag_inv w \<and> bag w = bag v - {#x#}"
begin

lemma put_then_remove:
  assumes "bag_inv v" "size (bag v) \<le> limit"
  shows "\<exists>w i u. put v x = Some (w, i) \<and> remove w x = Some u \<and> bag_inv u \<and> bag u = bag v"
proof -
  obtain w i where w: "put v x = Some (w, i)" "bag_inv w" "bag w = add_mset x (bag v)"
    using put_law [OF assms] by blast
  with remove_law [OF w(2), of x] show ?thesis by auto
qed

lemma remove_absent:
  "bag_inv v \<Longrightarrow> x \<notin># bag v \<Longrightarrow> \<exists>w. remove v x = Some w \<and> bag_inv w \<and> bag w = bag v"
  using remove_law [of v x] by (simp add: diff_single_trivial)

end

definition full_wf :: "'a vector \<Rightarrow> bool" where
  "full_wf v \<longleftrightarrow> vec_wf v \<and> None \<notin> set (vec_slots v)"

definition vec_bag :: "'a vector \<Rightarrow> 'a multiset" where
  "vec_bag v = mset (map the (vec_slots v))"

lemma full_wf_init: "full_wf (vector_init VECTOR_MIN_SIZE)"
  by (simp add: full_wf_def vector_init_wf VECTOR_MIN_SIZE_def UINT_MAX_def)

lemma vec_bag_init [simp]: "vec_bag (vector_init n) = {#}"
  by (simp add: vec_bag_def)

lemma size_vec_bag [simp]: "vec_wf v \<Longrightarrow> size (vec_bag v) = active v"
  by (simp add: vec_bag_def)

lemma set_vec_bag:
  assumes "full_wf v"
  shows "Some x \<in> set (vec_slots v) \<longleftrightarrow> x \<in># vec_bag v"
proof
  show "x \<in># vec_bag v" if "Some x \<in> set (vec_slots v)"
    using that by (force simp: vec_bag_def)
  assume "x \<in># vec_bag v"
  then obtain p where "p \<in> set (vec_slots v)" "x = the p"
    by (auto simp: vec_bag_def)
  with assms show "Some x \<in> set (vec_slots v)"
    by (cases p) (auto simp: full_wf_def)
qed

lemma full_wf_nth:
  assumes "full_wf v" "i < active v"
  shows "\<exists>x. vec_slots v ! i = Some x \<and> x \<in># vec_bag v"
proof -
  have mem: "vec_slots v ! i \<in> set (vec_slots v)"
    by (rule nth_mem) (use assms in \<open>simp add: full_wf_def\<close>)
  moreover have "None \<notin> set (vec_slots v)"
    using assms(1) by (simp add: full_wf_def)
  ultimately have "vec_slots v ! i \<noteq> None"
    by metis
  then obtain x where "vec_slots v ! i = Some x" by blast
  with mem show ?thesis using set_vec_bag [OF assms(1), of x] by simp
qed

lemma scan_down_spec:
  "n \<le> length ix \<Longrightarrow>
   (\<exists>i. scan_down ix n val = Some (Some i) \<and> i < n \<and> ix ! i = val)
   \<or> (scan_down ix n val = Some None \<and> (\<forall>i < n. ix ! i \<noteq> val))"
  by (induction n) (auto simp: c_simps less_Suc_eq)

lemma graph_vector_remove_spec:
  assumes "full_wf v" "i < active v" "vec_slots v ! i = Some x"
  shows "\<exists>w. graph_vector_remove v i = Some w \<and> full_wf w \<and> vec_bag w = vec_bag v - {#x#}"
proof -
  have wf: "vec_wf v" and no: "None \<notin> set (vec_slots v)"
    using assms(1) by (auto simp: full_wf_def)
  let ?ps = "vec_slots v" and ?act = "active v - 1" and ?k = "alloced v - active v"
  let ?qs = "butlast (?ps[i := last ?ps])"
  have len: "length ?ps = Suc ?act"
    using assms(2) wf by simp
  then have ne: "?ps \<noteq> []"
    by (metis length_0_conv nat.distinct(1))
  have ix: "index v = ?ps @ replicate ?k None"
    using vec_index_eq [OF wf] .
  have last: "index v ! ?act = last ?ps"
    using ne wf assms(2) by (simp add: last_conv_nth)
  let ?w = "v\<lparr>active := ?act, index := ((index v)[i := last ?ps])[?act := None]\<rparr>"
  have eq: "graph_vector_remove v i = Some ?w"
    using assms(2) wf last vec_wfD(4) [OF wf] less_le_trans [of ?act "active v" "alloced v"]
    by (simp add: graph_vector_remove_def Let_def rd_def wr_def vec_wf_def)
  have up: "?ps[i := last ?ps] = ?qs @ [last ?ps]"
  proof -
    have "last (?ps[i := last ?ps]) = last ?ps"
      using ne by (auto simp: last_list_update)
    then show ?thesis
      using ne by (metis append_butlast_last_id list_update_nonempty)
  qed
  have "((index v)[i := last ?ps])[?act := None] = ?qs @ replicate (Suc ?k) None"
  proof -
    have "length ?qs = ?act" using len by simp
    then have "(?ps[i := last ?ps])[?act := None] = ?qs @ [None]"
      using arg_cong [OF up, of "\<lambda>l. l[?act := None]"] by (metis list_update_length)
    then show ?thesis
      unfolding ix using assms(2) wf by (simp add: list_update_append)
  qed
  then have w: "vec_wf ?w \<and> vec_slots ?w = ?qs"
    by (intro vec_of_slots [where k = "Suc ?k"]) (use ne wf assms(2) vec_wfD [OF wf] in auto)
  have "mset ?ps = add_mset (Some x) (mset ?qs)"
  proof -
    have "mset (?ps[i := last ?ps]) = add_mset (last ?ps) (mset ?ps - {#Some x#})"
      using assms(2,3) wf by (simp add: mset_update)
    then have "add_mset (last ?ps) (mset ?qs) = add_mset (last ?ps) (mset ?ps - {#Some x#})"
      using arg_cong [OF up, of mset] by simp
    then have "mset ?qs = mset ?ps - {#Some x#}" by simp
    moreover have "Some x \<in># mset ?ps"
      using nth_mem [of i ?ps] assms(2,3) wf by simp
    ultimately show ?thesis by simp
  qed
  then have "vec_bag v = add_mset x (vec_bag ?w)"
    using w by (simp add: vec_bag_def mset_map)
  moreover have "set ?qs \<subseteq> set ?ps"
    using arg_cong [OF \<open>mset ?ps = add_mset (Some x) (mset ?qs)\<close>, of set_mset] by auto
  ultimately show ?thesis
    using eq w no by (auto simp: full_wf_def)
qed

lemma vector_drop_match_spec:
  assumes "full_wf v"
  shows "\<exists>w. vector_drop_match v x = Some w \<and> full_wf w \<and> vec_bag w = vec_bag v - {#x#}"
proof -
  have wf: "vec_wf v" using assms by (simp add: full_wf_def)
  then have "active v \<le> length (index v)" by (simp add: vec_wf_def)
  from scan_down_spec [OF this, of "Some x"] show ?thesis
  proof (elim disjE exE conjE)
    fix i assume "scan_down (index v) (active v) (Some x) = Some (Some i)" "i < active v"
      "index v ! i = Some x"
    then show ?thesis
      using graph_vector_remove_spec [OF assms, of i x] by (simp add: vector_drop_match_def)
  next
    assume none: "scan_down (index v) (active v) (Some x) = Some None"
      and all: "\<forall>i<active v. index v ! i \<noteq> Some x"
    have "Some x \<notin> set (vec_slots v)"
      using all wf by (auto simp: in_set_conv_nth)
    then have "x \<notin># vec_bag v" using set_vec_bag [OF assms] by blast
    with none assms show ?thesis by (simp add: vector_drop_match_def diff_single_trivial)
  qed
qed

lemma vector_set_bag:
  assumes "full_wf v" "active v \<le> INT_MAX"
  shows "\<exists>w i. vector_set v (Some x) = Some (w, i) \<and> full_wf w \<and> vec_bag w = add_mset x (vec_bag v)"
proof -
  obtain w where "vector_set v (Some x) = Some (w, active v)" "vec_wf w"
    "vec_slots w = vec_slots v @ [Some x]"
    using vector_set_append [of v "Some x"] assms by (auto simp: full_wf_def)
  then show ?thesis using assms by (auto simp: full_wf_def vec_bag_def)
qed

interpretation adj: pointer_bag full_wf vec_bag "\<lambda>v x. vector_set v (Some x)" vector_drop_match INT_MAX
proof unfold_locales
  fix v :: "'a vector" and x
  assume inv: "full_wf v"
  then show "\<exists>w. vector_drop_match v x = Some w \<and> full_wf w \<and> vec_bag w = vec_bag v - {#x#}"
    by (rule vector_drop_match_spec)
  assume "size (vec_bag v) \<le> INT_MAX"
  with inv show "\<exists>w i. vector_set v (Some x) = Some (w, i) \<and> full_wf w
      \<and> vec_bag w = add_mset x (vec_bag v)"
    by (intro vector_set_bag) (auto simp: full_wf_def)
qed

section \<open>The graph invariant\<close>

definition outs :: "'d gmem \<Rightarrow> nat \<Rightarrow> nat multiset" where
  "outs m a = (case g_cells m a of None \<Rightarrow> {#} | Some n \<Rightarrow> vec_bag (g_to n))"

definition ins :: "'d gmem \<Rightarrow> nat \<Rightarrow> nat multiset" where
  "ins m a = (case g_cells m a of None \<Rightarrow> {#} | Some n \<Rightarrow> vec_bag (g_from n))"

text \<open>What edge operations leave alone: which nodes exist, their data and deletion callback.\<close>

definition node_info :: "'d gmem \<Rightarrow> nat \<Rightarrow> ('d ptr \<times> bool) option" where
  "node_info m a = map_option (\<lambda>n. (g_data n, g_del n)) (g_cells m a)"

definition live :: "'d gmem \<Rightarrow> nat \<Rightarrow> bool" where
  "live m a \<longleftrightarrow> g_cells m a \<noteq> None"

text \<open>Every edge is recorded the same number of times at both of its ends.\<close>

definition cells_wf :: "'d gmem \<Rightarrow> bool" where
  "cells_wf m \<longleftrightarrow>
     (\<forall>a n. g_cells m a = Some n \<longrightarrow> full_wf (g_from n) \<and> full_wf (g_to n) \<and> a < g_next m)"

definition graph_wf :: "'d gmem \<Rightarrow> bool" where
  "graph_wf m \<longleftrightarrow> cells_wf m \<and> (\<forall>a b. count (outs m a) b = count (ins m b) a)"

lemma cells_wfD:
  assumes "cells_wf m" "g_cells m a = Some n"
  shows "full_wf (g_from n)" "full_wf (g_to n)" "a < g_next m"
  using assms by (simp_all add: cells_wf_def)

lemma graph_wf_cells: "graph_wf m \<Longrightarrow> cells_wf m"
  by (simp add: graph_wf_def)

lemma graph_wf_count: "graph_wf m \<Longrightarrow> count (outs m a) b = count (ins m b) a"
  by (simp add: graph_wf_def)

lemma live_info: "live m a \<longleftrightarrow> node_info m a \<noteq> None"
  by (simp add: live_def node_info_def)

lemma outs_live: "b \<in># outs m a \<Longrightarrow> live m a"
  by (auto simp: outs_def live_def split: option.splits)

lemma ins_live: "b \<in># ins m a \<Longrightarrow> live m a"
  by (auto simp: ins_def live_def split: option.splits)

lemma edge_ends_live: "graph_wf m \<Longrightarrow> b \<in># outs m a \<Longrightarrow> live m a \<and> live m b"
  using outs_live [of b m a] ins_live [of a m b] graph_wf_count [of m a b]
  by (metis count_greater_zero_iff)

lemma set_cell_simps [simp]:
  "g_cells (set_cell m a n) = (g_cells m)(a \<mapsto> n)"
  "g_next (set_cell m a n) = g_next m" "g_log (set_cell m a n) = g_log m"
  by (simp_all add: set_cell_def)

lemma outs_eq: "g_cells m a = Some n \<Longrightarrow> outs m a = vec_bag (g_to n)"
  by (simp add: outs_def)

lemma ins_eq: "g_cells m a = Some n \<Longrightarrow> ins m a = vec_bag (g_from n)"
  by (simp add: ins_def)

text \<open>Writing back a node with one adjacency vector replaced.\<close>

lemma set_cell_to:
  assumes "g_cells m a = Some n"
  shows "outs (set_cell m a (n\<lparr>g_to := t\<rparr>)) = (outs m)(a := vec_bag t)"
    and "ins (set_cell m a (n\<lparr>g_to := t\<rparr>)) = ins m"
    and "node_info (set_cell m a (n\<lparr>g_to := t\<rparr>)) = node_info m"
    and "cells_wf m \<Longrightarrow> full_wf t \<Longrightarrow> cells_wf (set_cell m a (n\<lparr>g_to := t\<rparr>))"
  using assms by (auto simp: outs_def ins_def node_info_def fun_eq_iff cells_wf_def)

lemma set_cell_from:
  assumes "g_cells m a = Some n"
  shows "ins (set_cell m a (n\<lparr>g_from := t\<rparr>)) = (ins m)(a := vec_bag t)"
    and "outs (set_cell m a (n\<lparr>g_from := t\<rparr>)) = outs m"
    and "node_info (set_cell m a (n\<lparr>g_from := t\<rparr>)) = node_info m"
    and "cells_wf m \<Longrightarrow> full_wf t \<Longrightarrow> cells_wf (set_cell m a (n\<lparr>g_from := t\<rparr>))"
  using assms by (auto simp: outs_def ins_def node_info_def fun_eq_iff cells_wf_def)

lemma live_cell: "live m a \<Longrightarrow> \<exists>n. g_cells m a = Some n"
  by (auto simp: live_def)

lemma live_cong: "node_info m' = node_info m \<Longrightarrow> live m' a = live m a"
  by (simp add: live_info)

lemma graph_remove_edge_spec:
  assumes "graph_wf m" "live m from" "live m to"
  shows "\<exists>m'. graph_remove_edge m from to = Some m' \<and> graph_wf m'
           \<and> outs m' = (outs m)(from := outs m from - {#to#})
           \<and> ins m' = (ins m)(to := ins m to - {#from#})
           \<and> node_info m' = node_info m \<and> g_next m' = g_next m \<and> g_log m' = g_log m"
proof -
  note cw = graph_wf_cells [OF assms(1)]
  obtain nt where nt: "g_cells m to = Some nt" using live_cell [OF assms(3)] ..
  obtain f where f: "vector_drop_match (g_from nt) from = Some f" "full_wf f"
    "vec_bag f = vec_bag (g_from nt) - {#from#}"
    using adj.remove_law [OF cells_wfD(1) [OF cw nt], of "from"] by blast
  define m1 where "m1 = set_cell m to (nt\<lparr>g_from := f\<rparr>)"
  note m1 = set_cell_from [OF nt, of f, folded m1_def]
  have "live m1 from" using assms(2) live_cong [OF m1(3)] by simp
  then obtain nf where nf: "g_cells m1 from = Some nf" using live_cell by blast
  have cw1: "cells_wf m1" using m1(4) cw f(2) .
  obtain t where t: "vector_drop_match (g_to nf) to = Some t" "full_wf t"
    "vec_bag t = vec_bag (g_to nf) - {#to#}"
    using adj.remove_law [OF cells_wfD(2) [OF cw1 nf], of to] by blast
  define m2 where "m2 = set_cell m1 from (nf\<lparr>g_to := t\<rparr>)"
  note m2 = set_cell_to [OF nf, of t, folded m2_def]
  have eq: "graph_remove_edge m from to = Some m2"
    using nt f(1) nf t(1) by (simp add: graph_remove_edge_def Let_def m1_def m2_def)
  have o: "outs m2 = (outs m)(from := outs m from - {#to#})"
    using m1(2) m2(1) t(3) outs_eq [OF nf] by simp
  have i: "ins m2 = (ins m)(to := ins m to - {#from#})"
    using m1(1) m2(2) f(3) ins_eq [OF nt] by simp
  have "graph_wf m2"
    unfolding graph_wf_def o i using m2(4) [OF cw1 t(2)] graph_wf_count [OF assms(1)] by simp
  moreover have "node_info m2 = node_info m" "g_next m2 = g_next m" "g_log m2 = g_log m"
    using m1(3) m2(3) by (simp_all add: m1_def m2_def)
  ultimately show ?thesis using eq o i by blast
qed

lemma graph_has_edge_eq:
  assumes "graph_wf m" "live m from"
  shows "graph_has_edge m from to = Some (to \<in># outs m from)"
proof -
  obtain n where n: "g_cells m from = Some n" using live_cell [OF assms(2)] ..
  note fw = cells_wfD(2) [OF graph_wf_cells [OF assms(1)] n]
  then have len: "vec_wf (g_to n)" "active (g_to n) \<le> length (index (g_to n))"
    by (auto simp: full_wf_def vec_wf_def)
  have "to \<in># outs m from \<longleftrightarrow> (\<exists>i < active (g_to n). index (g_to n) ! i = Some to)"
    using set_vec_bag [OF fw, of to] outs_eq [OF n] len(1) by (auto simp: in_set_conv_nth)
  then show ?thesis
    using scan_down_spec [OF len(2), of "Some to"] n by (auto simp: graph_has_edge_def)
qed

lemma graph_add_edge_spec:
  assumes "graph_wf m" "live m from" "live m to"
    and "size (outs m from) \<le> INT_MAX" "size (ins m to) \<le> INT_MAX"
  shows "\<exists>m'. graph_add_edge m from to = Some m' \<and> graph_wf m'
           \<and> outs m' = (outs m)(from := add_mset to (outs m from))
           \<and> ins m' = (ins m)(to := add_mset from (ins m to))
           \<and> node_info m' = node_info m \<and> g_next m' = g_next m \<and> g_log m' = g_log m"
proof -
  note cw = graph_wf_cells [OF assms(1)]
  obtain nf where nf: "g_cells m from = Some nf" using live_cell [OF assms(2)] ..
  have "size (vec_bag (g_to nf)) \<le> INT_MAX" using assms(4) outs_eq [OF nf] by simp
  then obtain t i1 where t: "vector_set (g_to nf) (Some to) = Some (t, i1)" "full_wf t"
    "vec_bag t = add_mset to (vec_bag (g_to nf))"
    using adj.put_law [OF cells_wfD(2) [OF cw nf], of to] by blast
  define m1 where "m1 = set_cell m from (nf\<lparr>g_to := t\<rparr>)"
  note m1 = set_cell_to [OF nf, of t, folded m1_def]
  have "live m1 to" using assms(3) live_cong [OF m1(3)] by simp
  then obtain nt where nt: "g_cells m1 to = Some nt" using live_cell by blast
  have cw1: "cells_wf m1" using m1(4) cw t(2) .
  have "size (vec_bag (g_from nt)) \<le> INT_MAX" using assms(5) ins_eq [OF nt] m1(2) by simp
  then obtain f i2 where f: "vector_set (g_from nt) (Some from) = Some (f, i2)" "full_wf f"
    "vec_bag f = add_mset from (vec_bag (g_from nt))"
    using adj.put_law [OF cells_wfD(1) [OF cw1 nt], of "from"] by blast
  define m2 where "m2 = set_cell m1 to (nt\<lparr>g_from := f\<rparr>)"
  note m2 = set_cell_from [OF nt, of f, folded m2_def]
  have eq: "graph_add_edge m from to = Some m2"
    using nf t(1) nt f(1) by (simp add: graph_add_edge_def Let_def m1_def m2_def)
  have o: "outs m2 = (outs m)(from := add_mset to (outs m from))"
    using m1(1) m2(2) t(3) outs_eq [OF nf] by simp
  have i: "ins m2 = (ins m)(to := add_mset from (ins m to))"
    using m1(2) m2(1) f(3) ins_eq [OF nt] by simp
  have "graph_wf m2"
    unfolding graph_wf_def o i using m2(4) [OF cw1 f(2)] graph_wf_count [OF assms(1)] by simp
  moreover have "node_info m2 = node_info m" "g_next m2 = g_next m" "g_log m2 = g_log m"
    using m1(3) m2(3) by (simp_all add: m1_def m2_def)
  ultimately show ?thesis using eq o i by blast
qed

section \<open>Creating and deleting nodes\<close>

lemma graph_new_node_spec:
  assumes "graph_wf m" "full_wf (nodes g)" "active (nodes g) \<le> INT_MAX"
  shows "\<exists>m' g'. graph_new_node m g d del = Some (m', g', g_next m) \<and> graph_wf m' \<and> full_wf (nodes g')
           \<and> vec_bag (nodes g') = add_mset (g_next m) (vec_bag (nodes g))
           \<and> node_info m' = (node_info m)(g_next m \<mapsto> (d, del))
           \<and> outs m' = outs m \<and> ins m' = ins m"
proof -
  obtain w i where w: "vector_set (nodes g) (Some (g_next m)) = Some (w, i)" "full_wf w"
    "vec_bag w = add_mset (g_next m) (vec_bag (nodes g))"
    using vector_set_bag [OF assms(2,3), of "g_next m"] by blast
  let ?n = "\<lparr>g_from = vector_init VECTOR_MIN_SIZE, g_to = vector_init VECTOR_MIN_SIZE,
              g_data = d, g_del = del\<rparr>"
  let ?m = "m\<lparr>g_next := g_next m + 1, g_cells := (g_cells m)(g_next m \<mapsto> ?n)\<rparr>"
  have eq: "graph_new_node m g d del = Some (?m, g\<lparr>nodes := w\<rparr>, g_next m)"
    using w(1) by (simp add: graph_new_node_def Let_def)
  have fresh: "g_cells m (g_next m) = None"
    using cells_wfD(3) [OF graph_wf_cells [OF assms(1)], of "g_next m"] by (cases "g_cells m (g_next m)") auto
  have o: "outs ?m = outs m" "ins ?m = ins m"
    using fresh by (auto simp: outs_def ins_def fun_eq_iff)
  have "cells_wf ?m"
    using graph_wf_cells [OF assms(1)] full_wf_init by (auto simp: cells_wf_def less_SucI)
  then have wf: "graph_wf ?m"
    unfolding graph_wf_def o using graph_wf_count [OF assms(1)] by simp
  have "node_info ?m = (node_info m)(g_next m \<mapsto> (d, del))"
    by (auto simp: node_info_def fun_eq_iff)
  with eq o wf w show ?thesis by auto
qed

lemma last_in_adj:
  assumes "full_wf v" "active v = Suc i"
  shows "\<exists>x. rd (index v) i = Some (Some x) \<and> x \<in># vec_bag v"
proof -
  have wf: "vec_wf v" using assms(1) by (simp add: full_wf_def)
  have "i < length (index v)" using wf assms(2) by (simp add: vec_wf_def)
  then show ?thesis using full_wf_nth [OF assms(1), of i] assms(2) wf by (auto simp: rd_def)
qed

lemma del_in_edges_spec:
  assumes "graph_wf m" "live m node" "i = size (ins m node)"
  shows "\<exists>m'. del_in_edges m node i = Some m' \<and> graph_wf m'
           \<and> ins m' = (ins m)(node := {#})
           \<and> (\<forall>a b. b \<noteq> node \<longrightarrow> count (outs m' a) b = count (outs m a) b)
           \<and> node_info m' = node_info m \<and> g_next m' = g_next m \<and> g_log m' = g_log m"
  using assms
proof (induction i arbitrary: m)
  case 0
  then have "ins m node = {#}" by simp
  with 0 show ?case by (auto simp: fun_upd_idem)
next
  case (Suc i)
  obtain n where n: "g_cells m node = Some n" using live_cell [OF Suc.prems(2)] ..
  note fw = cells_wfD(1) [OF graph_wf_cells [OF Suc.prems(1)] n]
  have "active (g_from n) = Suc i" using Suc.prems(3) ins_eq [OF n] fw by (simp add: full_wf_def)
  then obtain x where x: "rd (index (g_from n)) i = Some (Some x)" "x \<in># ins m node"
    using last_in_adj [OF fw] ins_eq [OF n] by auto
  have lx: "live m x"
    using x(2) outs_live [of node m x] graph_wf_count [OF Suc.prems(1), of x node]
    by (simp add: count_greater_zero_iff [symmetric] del: count_greater_zero_iff)
  obtain m1 where m1: "graph_remove_edge m x node = Some m1" "graph_wf m1"
    "outs m1 = (outs m)(x := outs m x - {#node#})" "ins m1 = (ins m)(node := ins m node - {#x#})"
    "node_info m1 = node_info m" "g_next m1 = g_next m" "g_log m1 = g_log m"
    using graph_remove_edge_spec [OF Suc.prems(1) lx Suc.prems(2)] by blast
  have "i = size (ins m1 node)" using m1(4) x(2) Suc.prems(3) by (simp add: size_Diff_singleton)
  from Suc.IH [OF m1(2) _ this] Suc.prems(2) live_cong [OF m1(5)] obtain m2 where
    m2: "del_in_edges m1 node i = Some m2" "graph_wf m2" "ins m2 = (ins m1)(node := {#})"
    "\<forall>a b. b \<noteq> node \<longrightarrow> count (outs m2 a) b = count (outs m1 a) b"
    "node_info m2 = node_info m1" "g_next m2 = g_next m1" "g_log m2 = g_log m1"
    by blast
  have "del_in_edges m node (Suc i) = Some m2" using n x(1) m1(1) m2(1) by simp
  then show ?case using m2 m1 by auto
qed

lemma del_out_edges_spec:
  assumes "graph_wf m" "live m node" "i = size (outs m node)"
  shows "\<exists>m'. del_out_edges m node i = Some m' \<and> graph_wf m'
           \<and> outs m' = (outs m)(node := {#})
           \<and> node_info m' = node_info m \<and> g_next m' = g_next m \<and> g_log m' = g_log m"
  using assms
proof (induction i arbitrary: m)
  case 0
  then have "outs m node = {#}" by simp
  with 0 show ?case by (auto simp: fun_upd_idem)
next
  case (Suc i)
  obtain n where n: "g_cells m node = Some n" using live_cell [OF Suc.prems(2)] ..
  note fw = cells_wfD(2) [OF graph_wf_cells [OF Suc.prems(1)] n]
  have "active (g_to n) = Suc i" using Suc.prems(3) outs_eq [OF n] fw by (simp add: full_wf_def)
  then obtain x where x: "rd (index (g_to n)) i = Some (Some x)" "x \<in># outs m node"
    using last_in_adj [OF fw] outs_eq [OF n] by auto
  have lx: "live m x" using edge_ends_live [OF Suc.prems(1) x(2)] by simp
  obtain m1 where m1: "graph_remove_edge m node x = Some m1" "graph_wf m1"
    "outs m1 = (outs m)(node := outs m node - {#x#})"
    "node_info m1 = node_info m" "g_next m1 = g_next m" "g_log m1 = g_log m"
    using graph_remove_edge_spec [OF Suc.prems(1,2) lx] by blast
  have "i = size (outs m1 node)" using m1(3) x(2) Suc.prems(3) by (simp add: size_Diff_singleton)
  from Suc.IH [OF m1(2) _ this] Suc.prems(2) live_cong [OF m1(4)] obtain m2 where
    m2: "del_out_edges m1 node i = Some m2" "graph_wf m2" "outs m2 = (outs m1)(node := {#})"
    "node_info m2 = node_info m1" "g_next m2 = g_next m1" "g_log m2 = g_log m1"
    by blast
  have "del_out_edges m node (Suc i) = Some m2" using n x(1) m1(1) m2(1) by simp
  then show ?case using m2 m1 by auto
qed

text \<open>Removing an isolated node from the memory.\<close>

lemma free_node_wf:
  assumes "graph_wf m" "outs m node = {#}" "ins m node = {#}"
  shows "graph_wf (m\<lparr>g_cells := (g_cells m)(node := None), g_log := l\<rparr>)"
    and "outs (m\<lparr>g_cells := (g_cells m)(node := None), g_log := l\<rparr>) = outs m"
    and "node_info (m\<lparr>g_cells := (g_cells m)(node := None), g_log := l\<rparr>) = (node_info m)(node := None)"
proof -
  let ?m = "m\<lparr>g_cells := (g_cells m)(node := None), g_log := l\<rparr>"
  show o: "outs ?m = outs m" using assms(2) by (auto simp: outs_def fun_eq_iff)
  have i: "ins ?m = ins m" using assms(3) by (auto simp: ins_def fun_eq_iff)
  have "cells_wf ?m" using graph_wf_cells [OF assms(1)] by (simp add: cells_wf_def)
  then show "graph_wf ?m" unfolding graph_wf_def o i using graph_wf_count [OF assms(1)] by simp
  show "node_info ?m = (node_info m)(node := None)" by (auto simp: node_info_def fun_eq_iff)
qed

definition del_calls :: "('d ptr \<times> bool) option \<Rightarrow> 'd list" where
  "del_calls info = (case info of Some (Some d, True) \<Rightarrow> [d] | _ \<Rightarrow> [])"

lemma run_del_eq: "g_cells m a = Some n \<Longrightarrow> run_del n m = m\<lparr>g_log := g_log m @ del_calls (node_info m a)\<rparr>"
  by (auto simp: run_del_def del_calls_def node_info_def split: option.splits)

text \<open>
  deleting a node of a well-formed graph succeeds; the node's memory is gone, every other node
  keeps its data, the edges between other nodes are unchanged and no edge to the node is left; the
  node is dropped from the node vector; its deletion callback runs exactly once, and only when it
  has both a callback and data.
\<close>

theorem graph_delete_node_correct:
  assumes "graph_wf m" "live m node" "full_wf (nodes g)"
  shows "\<exists>m' g'. graph_delete_node m g (Some node) = Some (m', g') \<and> graph_wf m'
           \<and> node_info m' = (node_info m)(node := None)
           \<and> (\<forall>a b. count (outs m' a) b = (if a = node \<or> b = node then 0 else count (outs m a) b))
           \<and> full_wf (nodes g') \<and> vec_bag (nodes g') = vec_bag (nodes g) - {#node#}
           \<and> g_log m' = g_log m @ del_calls (node_info m node)"
proof -
  obtain n where n: "g_cells m node = Some n" using live_cell [OF assms(2)] ..
  have "active (g_from n) = size (ins m node)"
    using ins_eq [OF n] cells_wfD(1) [OF graph_wf_cells [OF assms(1)] n] by (simp add: full_wf_def)
  then obtain m1 where m1: "del_in_edges m node (active (g_from n)) = Some m1" "graph_wf m1"
    "ins m1 = (ins m)(node := {#})"
    "\<forall>a b. b \<noteq> node \<longrightarrow> count (outs m1 a) b = count (outs m a) b"
    "node_info m1 = node_info m" "g_log m1 = g_log m"
    using del_in_edges_spec [OF assms(1,2)] by blast
  have l1: "live m1 node" using assms(2) live_cong [OF m1(5)] by simp
  obtain n1 where n1: "g_cells m1 node = Some n1" using live_cell [OF l1] ..
  have "active (g_to n1) = size (outs m1 node)"
    using outs_eq [OF n1] cells_wfD(2) [OF graph_wf_cells [OF m1(2)] n1] by (simp add: full_wf_def)
  then obtain m2 where m2: "del_out_edges m1 node (active (g_to n1)) = Some m2" "graph_wf m2"
    "outs m2 = (outs m1)(node := {#})" "node_info m2 = node_info m1" "g_log m2 = g_log m1"
    using del_out_edges_spec [OF m1(2) l1] by blast
  have l2: "live m2 node" using l1 live_cong [OF m2(4)] by simp
  obtain n2 where n2: "g_cells m2 node = Some n2" using live_cell [OF l2] ..
  have outs_node1: "count (outs m1 a) node = 0" for a
    using graph_wf_count [OF m1(2), of a node] m1(3) by simp
  then have outs_node: "count (outs m2 a) node = 0" for a
    using m2(3) by simp
  have iso: "ins m2 node = {#}"
    by (rule multiset_eqI) (use graph_wf_count [OF m2(2), of _ node] outs_node in simp)
  obtain ns where ns: "vector_drop_match (nodes g) node = Some ns" "full_wf ns"
    "vec_bag ns = vec_bag (nodes g) - {#node#}"
    using adj.remove_law [OF assms(3), of node] by blast
  let ?l = "g_log m @ del_calls (node_info m node)"
  let ?m = "m2\<lparr>g_cells := (g_cells m2)(node := None), g_log := ?l\<rparr>"
  have eq: "graph_delete_node m g (Some node) = Some (?m, g\<lparr>nodes := ns\<rparr>)"
    using n m1 n1 m2 n2 ns(1) by (simp add: graph_delete_node_def Let_def run_del_eq [OF n2])
  have "outs m2 node = {#}" using m2(3) by simp
  note fin = free_node_wf [OF m2(2) this iso, of ?l]
  have cnt: "\<forall>a b. count (outs ?m a) b = (if a = node \<or> b = node then 0 else count (outs m a) b)"
    unfolding fin(2) using m2(3) m1(4) outs_node1 by auto
  have info: "node_info ?m = (node_info m)(node := None)" using fin(3) m2(4) m1(5) by simp
  from eq fin(1) cnt info ns show ?thesis by auto
qed

text \<open>A two-node graph with an edge in each direction and a self-loop on node 0.\<close>

definition ex_mem :: "int gmem" where
  "ex_mem = \<lparr>g_next = 2,
     g_cells = [0 \<mapsto> \<lparr>g_from = \<lparr>active = 2, alloced = 2, index = [Some 1, Some 0]\<rparr>,
                      g_to = \<lparr>active = 2, alloced = 2, index = [Some 0, Some 1]\<rparr>,
                      g_data = Some 7, g_del = True\<rparr>,
                1 \<mapsto> \<lparr>g_from = \<lparr>active = 1, alloced = 1, index = [Some 0]\<rparr>,
                      g_to = \<lparr>active = 1, alloced = 1, index = [Some 0]\<rparr>,
                      g_data = Some 9, g_del = False\<rparr>],
     g_log = []\<rparr>"

definition ex_graph :: graph where
  "ex_graph = \<lparr>nodes = \<lparr>active = 2, alloced = 2, index = [Some 0, Some 1]\<rparr>\<rparr>"

lemma full_wf_example:
  "full_wf \<lparr>active = 1, alloced = 1, index = [Some x]\<rparr>"
  "full_wf \<lparr>active = 2, alloced = 2, index = [Some x, Some y]\<rparr>"
  by (auto simp: full_wf_def vec_wf_def vec_slots_def UINT_MAX_def)

lemma ex_mem_wf: "graph_wf ex_mem"
proof -
  have "cells_wf ex_mem"
    unfolding cells_wf_def ex_mem_def by (auto simp: full_wf_example [simplified] split: if_splits)
  moreover have "\<forall>a b. count (outs ex_mem a) b = count (ins ex_mem b) a"
    by (auto simp: outs_def ins_def ex_mem_def vec_bag_def vec_slots_def)
  ultimately show ?thesis by (simp add: graph_wf_def)
qed

lemma ex_graph_wf: "full_wf (nodes ex_graph)"
  by (simp add: ex_graph_def full_wf_example)

lemma ex_mem_live: "live ex_mem 0" "live ex_mem 1"
  by (simp_all add: live_def ex_mem_def)

section \<open>Depth-first search\<close>

definition edges :: "'d gmem \<Rightarrow> (nat \<times> nat) set" where
  "edges m = {(a, b). b \<in># outs m a}"

definition dfs_pre :: "'d gmem \<Rightarrow> nat \<Rightarrow> nat vector \<Rightarrow> nat list \<Rightarrow> bool" where
  "dfs_pre m depth v vs \<longleftrightarrow> vec_wf v \<and> vec_slots v = map Some vs \<and> distinct vs
     \<and> set vs \<subseteq> Collect (live m) \<and> card (Collect (live m) - set vs) < depth"

definition dfs_post :: "'d gmem \<Rightarrow> (nat \<Rightarrow> 's \<Rightarrow> 's) \<Rightarrow> nat set \<Rightarrow> nat list \<Rightarrow> 's
    \<Rightarrow> nat vector \<times> 's \<Rightarrow> nat list \<Rightarrow> bool" where
  "dfs_post m cb starts vs arg st new \<longleftrightarrow>
     snd st = fold cb new arg \<and> vec_wf (fst st) \<and> vec_slots (fst st) = map Some (vs @ new)
     \<and> distinct (vs @ new) \<and> set new \<subseteq> Collect (live m) \<and> starts \<subseteq> set (vs @ new)
     \<and> set new \<subseteq> (edges m)\<^sup>* `` starts \<and> edges m `` set new \<subseteq> set (vs @ new)"

lemma finite_live: "graph_wf m \<Longrightarrow> finite (Collect (live m))"
  using finite_subset [of "Collect (live m)" "{..<g_next m}"] cells_wfD(3) [OF graph_wf_cells]
  by (fastforce simp: live_def)

lemma dfs_post_trans:
  assumes "dfs_post m cb A vs arg st new" "dfs_post m cb B (vs @ new) (snd st) st' new'"
  shows "dfs_post m cb (A \<union> B) vs arg st' (new @ new')"
  using assms by (auto simp: dfs_post_def)

lemma dfs_pre_post:
  assumes "dfs_pre m d v vs" "dfs_post m cb A vs arg (v', a') new" "finite (Collect (live m))"
  shows "dfs_pre m d v' (vs @ new)"
proof -
  have "card (Collect (live m) - set (vs @ new)) \<le> card (Collect (live m) - set vs)"
    by (rule card_mono) (use assms(3) in auto)
  then show ?thesis using assms by (auto simp: dfs_pre_def dfs_post_def)
qed

lemma dfs_children:
  assumes "\<And>c v vs arg. c \<in> set cs \<Longrightarrow> dfs_pre m d v vs \<Longrightarrow>
             \<exists>st new. f c (v, arg) = Some st \<and> dfs_post m cb {c} vs arg st new"
    and "dfs_pre m d v vs" "finite (Collect (live m))"
  shows "\<exists>st new. fold_opt (\<lambda>p st'. Option.bind p (\<lambda>c. f c st')) (map Some cs) (v, arg) = Some st
           \<and> dfs_post m cb (set cs) vs arg st new"
  using assms(1,2)
proof (induction cs arbitrary: v vs arg)
  case Nil
  then show ?case by (intro exI [of _ "(v, arg)"] exI [of _ "[]"]) (simp add: dfs_pre_def dfs_post_def)
next
  case (Cons c cs)
  obtain v1 a1 new where c: "f c (v, arg) = Some (v1, a1)" "dfs_post m cb {c} vs arg (v1, a1) new"
    using Cons.prems(1) [of c v vs arg] Cons.prems(2) by auto
  have "dfs_pre m d v1 (vs @ new)" using dfs_pre_post [OF Cons.prems(2) c(2) assms(3)] .
  from Cons.IH [OF _ this, of a1] Cons.prems(1) obtain st new' where
    "fold_opt (\<lambda>p st'. Option.bind p (\<lambda>c. f c st')) (map Some cs) (v1, a1) = Some st"
    "dfs_post m cb (set cs) (vs @ new) a1 st new'"
    by (metis list.set_intros(2))
  moreover from this(2) have "dfs_post m cb ({c} \<union> set cs) vs arg st (new @ new')"
    using dfs_post_trans [OF c(2), of "set cs" st new'] by simp
  ultimately show ?case using c(1) by auto
qed

lemma vector_push_spec:
  assumes "vec_wf v" "vec_slots v = map Some vs" "length vs \<le> INT_MAX"
  shows "\<exists>v1 v2. vector_ensure v (active v) = Some v1
           \<and> vector_set_index v1 (active v1) (Some x) = Some (v2, active v1)
           \<and> vec_wf v2 \<and> vec_slots v2 = map Some (vs @ [x])"
proof -
  have act: "active v = length vs" using assms(2) length_vec_slots [OF assms(1)] by simp
  obtain v1 where v1: "vector_ensure v (active v) = Some v1" "vec_wf v1" "active v1 = active v"
    "vec_slots v1 = vec_slots v"
    using vector_ensure_wf [OF assms(1), of "active v"] assms(3) act by auto
  obtain v2 where "vector_set_index v1 (active v1) (Some x) = Some (v2, active v1)" "vec_wf v2"
    "vec_slots v2 = slots_put (vec_slots v1) (active v1) (Some x)"
    using vector_set_index_spec [OF v1(2), of "active v1" "Some x"] assms(3) v1(3) act by auto
  moreover have "(map Some vs @ [None])[length vs := Some x] = map Some vs @ [Some x]"
    using list_update_length [of "map Some vs" None "[]" "Some x"] by simp
  ultimately show ?thesis using v1 act assms(2) by (auto simp: slots_put_def)
qed

lemma graph_dfs_rec_spec:
  assumes "graph_wf m" "card (Collect (live m)) \<le> INT_MAX"
    and "live m start" "dfs_pre m depth v vs"
  shows "\<exists>st new. graph_dfs_rec depth m cb start (v, arg) = Some st
           \<and> dfs_post m cb {start} vs arg st new"
  using assms(3,4)
proof (induction depth arbitrary: start v vs arg)
  case 0
  then show ?case by (simp add: dfs_pre_def)
next
  case (Suc depth)
  note fin = finite_live [OF assms(1)]
  have pre: "vec_wf v" "vec_slots v = map Some vs" "distinct vs" "set vs \<subseteq> Collect (live m)"
    "card (Collect (live m) - set vs) < Suc depth"
    using Suc.prems(2) by (auto simp: dfs_pre_def)
  show ?case
  proof (cases "start \<in> set vs")
    case True
    then show ?thesis
      using pre by (intro exI [of _ "(v, arg)"] exI [of _ "[]"])
        (simp add: vector_to_array_eq dfs_post_def image_iff)
  next
    case False
    have "length vs \<le> INT_MAX"
      using card_mono [OF fin pre(4)] distinct_card [OF pre(3)] assms(2) by simp
    then obtain v1 v2 where v: "vector_ensure v (active v) = Some v1"
      "vector_set_index v1 (active v1) (Some start) = Some (v2, active v1)"
      "vec_wf v2" "vec_slots v2 = map Some (vs @ [start])"
      using vector_push_spec [OF pre(1,2), of start] by blast
    obtain n where n: "g_cells m start = Some n" using live_cell [OF Suc.prems(1)] ..
    note fw = cells_wfD(2) [OF graph_wf_cells [OF assms(1)] n]
    define cs where "cs = rev (map the (vec_slots (g_to n)))"
    have "map (\<lambda>p. Some (the p)) (vec_slots (g_to n)) = vec_slots (g_to n)"
      using fw by (intro map_idI) (metis full_wf_def option.collapse)
    then have cs: "map Some cs = rev (vec_slots (g_to n))" "set cs = set_mset (outs m start)"
      using outs_eq [OF n] by (auto simp: cs_def rev_map [symmetric] vec_bag_def comp_def)
    have "card (Collect (live m) - set (vs @ [start])) < card (Collect (live m) - set vs)"
      by (rule psubset_card_mono) (use fin False Suc.prems(1) in auto)
    then have pre': "dfs_pre m depth v2 (vs @ [start])"
      using pre False Suc.prems(1) v(3,4) by (simp add: dfs_pre_def)
    have ih: "\<exists>st new. graph_dfs_rec depth m cb c (w, a) = Some st \<and> dfs_post m cb {c} ws a st new"
      if "c \<in> set cs" "dfs_pre m depth w ws" for c w ws a
      using Suc.IH [OF _ that(2)] edge_ends_live [OF assms(1)] that(1) cs(2) by blast
    obtain st new where st: "fold_opt (\<lambda>p st'. Option.bind p (\<lambda>c. graph_dfs_rec depth m cb c st'))
        (map Some cs) (v2, cb start arg) = Some st"
      "dfs_post m cb (set cs) (vs @ [start]) (cb start arg) st new"
      using dfs_children [OF ih pre' fin] by blast
    have "graph_dfs_rec (Suc depth) m cb start (v, arg) = Some st"
      using st(1) v n fw pre False by (simp add: vector_to_array_eq cs(1) full_wf_def image_iff)
    moreover have "dfs_post m cb {start} vs arg st (start # new)"
    proof -
      have step: "(start, c) \<in> edges m" if "c \<in> set cs" for c
        using that cs(2) by (simp add: edges_def)
      then have "set new \<subseteq> (edges m)\<^sup>* `` {start}"
        using st(2) by (force simp: dfs_post_def intro: converse_rtrancl_into_rtrancl)
      moreover have "edges m `` {start} = set cs" using cs(2) by (auto simp: edges_def)
      ultimately show ?thesis
        using st(2) Suc.prems(1) False by (auto simp: dfs_post_def)
    qed
    ultimately show ?thesis by blast
  qed
qed

text \<open>
  C39: the depth-first search of a well-formed graph returns when the call stack has room for one
  frame more than there are nodes, and then the callback has been run exactly once on each node
  reachable from the start node and on no other.
\<close>

theorem graph_dfs_visits_reachable:
  assumes "graph_wf m" "card (Collect (live m)) \<le> INT_MAX" "live m start"
    and "card (Collect (live m)) < depth"
  shows "\<exists>order. graph_dfs depth m cb start arg = Some (fold cb order arg)
           \<and> distinct order \<and> set order = (edges m)\<^sup>* `` {start}"
proof -
  have "dfs_pre m depth (vector_init VECTOR_MIN_SIZE) []"
    using assms(4) full_wf_init by (simp add: dfs_pre_def full_wf_def)
  from graph_dfs_rec_spec [OF assms(1-3) this, of cb arg] obtain st new where
    st: "graph_dfs_rec depth m cb start (vector_init VECTOR_MIN_SIZE, arg) = Some st"
      "dfs_post m cb {start} [] arg st new"
    by blast
  have closed: "start \<in> set new" "edges m `` set new \<subseteq> set new"
    and sub: "set new \<subseteq> (edges m)\<^sup>* `` {start}"
    using st(2) by (auto simp: dfs_post_def)
  have "b \<in> set new" if "(start, b) \<in> (edges m)\<^sup>*" for b
    using that by (induction rule: rtrancl_induct) (use closed in auto)
  with sub have "set new = (edges m)\<^sup>* `` {start}" by blast
  with st show ?thesis by (auto simp: graph_dfs_def dfs_post_def)
qed

lemma ex_mem_card: "Collect (live ex_mem) = {0, 1}"
  by (auto simp: live_def ex_mem_def split: if_splits)

theorem graph_dfs_visits_reachable_witness:
  "\<exists>order. graph_dfs 3 ex_mem (\<lambda>n ns. ns @ [n]) 0 [] = Some (fold (\<lambda>n ns. ns @ [n]) order [])
     \<and> distinct order \<and> set order = (edges ex_mem)\<^sup>* `` {0}"
  by (rule graph_dfs_visits_reachable)
    (simp_all add: ex_mem_wf ex_mem_card ex_mem_live INT_MAX_def)

text \<open>
  adding an edge between two nodes of a well-formed graph keeps the graph well-formed and the
  nodes untouched; \<open>graph_has_edge\<close> then reports it; and removing it again restores exactly the
  edges there were before.
\<close>

theorem graph_add_remove_edge:
  assumes "graph_wf m" "live m from" "live m to"
    and "size (outs m from) \<le> INT_MAX" "size (ins m to) \<le> INT_MAX"
  shows "\<exists>m1 m2. graph_add_edge m from to = Some m1 \<and> graph_wf m1 \<and> node_info m1 = node_info m
           \<and> graph_has_edge m1 from to = Some True
           \<and> graph_remove_edge m1 from to = Some m2 \<and> graph_wf m2 \<and> node_info m2 = node_info m
           \<and> outs m2 = outs m \<and> ins m2 = ins m"
proof -
  obtain m1 where m1: "graph_add_edge m from to = Some m1" "graph_wf m1"
    "outs m1 = (outs m)(from := add_mset to (outs m from))"
    "ins m1 = (ins m)(to := add_mset from (ins m to))" "node_info m1 = node_info m"
    using graph_add_edge_spec [OF assms] by blast
  have l: "live m1 from" "live m1 to" using assms live_cong [OF m1(5)] by auto
  obtain m2 where m2: "graph_remove_edge m1 from to = Some m2" "graph_wf m2"
    "outs m2 = (outs m1)(from := outs m1 from - {#to#})"
    "ins m2 = (ins m1)(to := ins m1 to - {#from#})" "node_info m2 = node_info m1"
    using graph_remove_edge_spec [OF m1(2) l] by blast
  have "graph_has_edge m1 from to = Some True"
    using graph_has_edge_eq [OF m1(2) l(1)] m1(3) by simp
  with m1 m2 show ?thesis by (auto simp: fun_eq_iff)
qed

end
