(* ===== verification/Pqueue.thy ===== *)
theory Pqueue
  imports Vectors "HOL-Library.Multiset"
begin

text \<open>
  The binary-heap priority queue of \<open>libvui/src/vui/lib/pqueue.c\<close>, which holds the timers of the
  event loop.

  The record mirrors \<open>struct pqueue\<close>. Array elements are pointers; the \<open>update\<close> hook, when set, is
  called with a node and its position and acts on a client state of type \<open>'s\<close> that the operations
  thread through. An access outside the array, a call of a NULL comparison function and a signed
  overflow of \<open>array_size\<close> are \<^term>\<open>None\<close>.
\<close>

record ('a, 's) pqueue =
  pq_array :: "'a ptr list"
  pq_array_size :: nat
  pq_size :: nat
  pq_cmp :: "('a \<Rightarrow> 'a \<Rightarrow> int) ptr"
  pq_update :: "('a \<Rightarrow> nat \<Rightarrow> 's \<Rightarrow> 's) ptr"

section \<open>Operations\<close>

definition PQUEUE_INIT_ARRAYSIZE :: nat where "PQUEUE_INIT_ARRAYSIZE = 32"

definition PARENT_OF :: "nat \<Rightarrow> nat" where "PARENT_OF x = (x - 1) div 2"
definition LEFT_OF :: "nat \<Rightarrow> nat" where "LEFT_OF x = 2 * x + 1"
definition RIGHT_OF :: "nat \<Rightarrow> nat" where "RIGHT_OF x = 2 * x + 2"

text \<open>An element read through its slot, and a slot written with the hook told about it.\<close>

definition pq_node :: "'a ptr list \<Rightarrow> nat \<Rightarrow> 'a option" where
  "pq_node arr i = Option.bind (rd arr i) id"

definition pq_place ::
  "('a \<Rightarrow> nat \<Rightarrow> 's \<Rightarrow> 's) ptr \<Rightarrow> nat \<Rightarrow> 'a \<Rightarrow> 'a ptr list \<times> 's \<Rightarrow> ('a ptr list \<times> 's) option" where
  "pq_place upd i x st =
     do { arr \<leftarrow> wr (fst st) i (Some x);
          Some (arr, case upd of None \<Rightarrow> snd st | Some u \<Rightarrow> u x i (snd st)) }"

function trickle_up_loop ::
  "('a \<Rightarrow> 'a \<Rightarrow> int) ptr \<Rightarrow> ('a \<Rightarrow> nat \<Rightarrow> 's \<Rightarrow> 's) ptr \<Rightarrow> 'a \<Rightarrow> nat
    \<Rightarrow> 'a ptr list \<times> 's \<Rightarrow> ('a ptr list \<times> 's) option" where
  "trickle_up_loop cmp upd tmp ix st =
     (if ix = 0 then pq_place upd ix tmp st
      else do { c \<leftarrow> cmp;
                p \<leftarrow> pq_node (fst st) (PARENT_OF ix);
                if c tmp p < 0
                then do { st' \<leftarrow> pq_place upd ix p st;
                          trickle_up_loop cmp upd tmp (PARENT_OF ix) st' }
                else pq_place upd ix tmp st })"
  by pat_completeness auto
termination
  by (relation "measure (\<lambda>(_, _, _, ix, _). ix)") (auto simp: PARENT_OF_def)

definition trickle_up :: "nat \<Rightarrow> ('a, 's) pqueue \<times> 's \<Rightarrow> (('a, 's) pqueue \<times> 's) option" where
  "trickle_up ix qs =
     (case qs of (q, s) \<Rightarrow>
        do { tmp \<leftarrow> pq_node (pq_array q) ix;
             (arr, s') \<leftarrow> trickle_up_loop (pq_cmp q) (pq_update q) tmp ix (pq_array q, s);
             Some (q\<lparr>pq_array := arr\<rparr>, s') })"

definition pick_child :: "('a \<Rightarrow> 'a \<Rightarrow> int) \<Rightarrow> 'a ptr list \<Rightarrow> nat \<Rightarrow> nat \<Rightarrow> nat option" where
  "pick_child c arr sz ix =
     (if RIGHT_OF ix < sz
      then do { l \<leftarrow> pq_node arr (LEFT_OF ix);
                r \<leftarrow> pq_node arr (RIGHT_OF ix);
                Some (if c l r > 0 then RIGHT_OF ix else LEFT_OF ix) }
      else Some (LEFT_OF ix))"

lemma pick_child_cases:
  "pick_child c arr sz ix = Some which \<Longrightarrow> which = LEFT_OF ix \<or> which = RIGHT_OF ix"
  by (auto simp: pick_child_def bind_Some_iff split: if_splits)

text \<open>The loop of \<open>trickle_down\<close>; it ends because the index grows and stays below the size.\<close>

function trickle_down_loop ::
  "nat \<Rightarrow> ('a \<Rightarrow> 'a \<Rightarrow> int) ptr \<Rightarrow> ('a \<Rightarrow> nat \<Rightarrow> 's \<Rightarrow> 's) ptr \<Rightarrow> 'a \<Rightarrow> nat
    \<Rightarrow> 'a ptr list \<times> 's \<Rightarrow> ('a ptr list \<times> 's) option" where
  "trickle_down_loop sz cmp upd tmp ix st =
     (if ix < sz div 2
      then (case cmp of None \<Rightarrow> None | Some c \<Rightarrow>
            (case pick_child c (fst st) sz ix of None \<Rightarrow> None | Some which \<Rightarrow>
              do { x \<leftarrow> pq_node (fst st) which;
                   if c x tmp > 0 then pq_place upd ix tmp st
                   else do { st' \<leftarrow> pq_place upd ix x st;
                             trickle_down_loop sz cmp upd tmp which st' } }))
      else pq_place upd ix tmp st)"
  by pat_completeness auto
termination
  by (relation "measure (\<lambda>(sz, _, _, _, ix, _). sz - ix)")
    (auto dest!: pick_child_cases simp: LEFT_OF_def RIGHT_OF_def)

definition trickle_down :: "nat \<Rightarrow> ('a, 's) pqueue \<times> 's \<Rightarrow> (('a, 's) pqueue \<times> 's) option" where
  "trickle_down ix qs =
     (case qs of (q, s) \<Rightarrow>
        do { tmp \<leftarrow> pq_node (pq_array q) ix;
             (arr, s') \<leftarrow> trickle_down_loop (pq_size q) (pq_cmp q) (pq_update q) tmp ix (pq_array q, s);
             Some (q\<lparr>pq_array := arr\<rparr>, s') })"

definition pqueue_create :: "('a, 's) pqueue" where
  "pqueue_create = \<lparr>pq_array = replicate PQUEUE_INIT_ARRAYSIZE None,
                    pq_array_size = PQUEUE_INIT_ARRAYSIZE, pq_size = 0, pq_cmp = None, pq_update = None\<rparr>"

definition pqueue_expand :: "('a, 's) pqueue \<Rightarrow> ('a, 's) pqueue option" where
  "pqueue_expand q =
     (if 2 * pq_array_size q > INT_MAX then None
      else Some (q\<lparr>pq_array := pq_array q @ replicate (pq_array_size q) None,
                   pq_array_size := 2 * pq_array_size q\<rparr>))"

text \<open>The guard that opens \<open>pqueue_enqueue\<close>; \<open>pqueue_expand\<close> always returns 1.\<close>

definition pq_room :: "('a, 's) pqueue \<Rightarrow> ('a, 's) pqueue option" where
  "pq_room q = (if pq_size q + 2 \<ge> pq_array_size q then pqueue_expand q else Some q)"

definition pqueue_enqueue :: "'a \<Rightarrow> ('a, 's) pqueue \<times> 's \<Rightarrow> (('a, 's) pqueue \<times> 's) option" where
  "pqueue_enqueue data qs =
     (case qs of (q, s) \<Rightarrow>
        do { q1 \<leftarrow> pq_room q;
             (arr, s1) \<leftarrow> pq_place (pq_update q1) (pq_size q1) data (pq_array q1, s);
             (q2, s2) \<leftarrow> trickle_up (pq_size q1) (q1\<lparr>pq_array := arr\<rparr>, s1);
             Some (q2\<lparr>pq_size := pq_size q2 + 1\<rparr>, s2) })"

definition pqueue_dequeue :: "('a, 's) pqueue \<times> 's \<Rightarrow> ('a \<times> ('a, 's) pqueue \<times> 's) option" where
  "pqueue_dequeue qs =
     (case qs of (q, s) \<Rightarrow>
        do { data \<leftarrow> pq_node (pq_array q) 0;
             c_assert (pq_size q > 0);
             lst \<leftarrow> rd (pq_array q) (pq_size q - 1);
             arr \<leftarrow> wr (pq_array q) 0 lst;
             qs' \<leftarrow> trickle_down 0 (q\<lparr>pq_size := pq_size q - 1, pq_array := arr\<rparr>, s);
             Some (data, qs') })"

definition pqueue_remove_at :: "nat \<Rightarrow> ('a, 's) pqueue \<times> 's \<Rightarrow> (('a, 's) pqueue \<times> 's) option" where
  "pqueue_remove_at ix qs =
     (case qs of (q, s) \<Rightarrow>
        do { c_assert (pq_size q > 0);
             lst \<leftarrow> rd (pq_array q) (pq_size q - 1);
             arr \<leftarrow> wr (pq_array q) ix lst;
             let q1 = q\<lparr>pq_size := pq_size q - 1, pq_array := arr\<rparr>;
             up \<leftarrow> if ix > 0
                   then do { c \<leftarrow> pq_cmp q1;
                             x \<leftarrow> pq_node arr ix;
                             p \<leftarrow> pq_node arr (PARENT_OF ix);
                             Some (c x p < 0) }
                   else Some False;
             if up then trickle_up ix (q1, s) else trickle_down ix (q1, s) })"

text \<open>
  The scan of \<open>pqueue_remove\<close>. The index grows by one in each round and the size never grows, so the
  initial size bounds the number of rounds; the first argument counts them.
\<close>

primrec pqueue_remove_loop ::
  "nat \<Rightarrow> 'a \<Rightarrow> nat \<Rightarrow> ('a, 's) pqueue \<times> 's \<Rightarrow> (('a, 's) pqueue \<times> 's) option" where
  "pqueue_remove_loop 0 data i qs = (if i < pq_size (fst qs) then None else Some qs)"
| "pqueue_remove_loop (Suc n) data i qs =
     (if i < pq_size (fst qs)
      then do { p \<leftarrow> rd (pq_array (fst qs)) i;
                qs' \<leftarrow> if p = Some data then pqueue_remove_at i qs else Some qs;
                pqueue_remove_loop n data (i + 1) qs' }
      else Some qs)"

definition pqueue_remove :: "'a \<Rightarrow> ('a, 's) pqueue \<times> 's \<Rightarrow> (('a, 's) pqueue \<times> 's) option" where
  "pqueue_remove data qs = pqueue_remove_loop (pq_size (fst qs)) data 0 qs"

declare trickle_up_loop.simps [simp del] trickle_down_loop.simps [simp del]

section \<open>Heap order\<close>

definition heap_ok :: "('a \<Rightarrow> 'a \<Rightarrow> int) \<Rightarrow> 'a list \<Rightarrow> bool" where
  "heap_ok c xs \<longleftrightarrow> (\<forall>j < length xs. 0 < j \<longrightarrow> c (xs ! PARENT_OF j) (xs ! j) \<le> 0)"

text \<open>Heap order except above, or below, position \<open>i\<close>.\<close>

definition heap_but_up :: "('a \<Rightarrow> 'a \<Rightarrow> int) \<Rightarrow> 'a list \<Rightarrow> nat \<Rightarrow> bool" where
  "heap_but_up c ys i \<longleftrightarrow>
     (\<forall>j < length ys. 0 < j \<longrightarrow>
        (j \<noteq> i \<longrightarrow> c (ys ! PARENT_OF j) (ys ! j) \<le> 0)
        \<and> (PARENT_OF j = i \<longrightarrow> 0 < i \<longrightarrow> c (ys ! PARENT_OF i) (ys ! j) \<le> 0))"

definition heap_but_down :: "('a \<Rightarrow> 'a \<Rightarrow> int) \<Rightarrow> 'a list \<Rightarrow> nat \<Rightarrow> bool" where
  "heap_but_down c ys i \<longleftrightarrow>
     (\<forall>j < length ys. 0 < j \<longrightarrow>
        (PARENT_OF j \<noteq> i \<longrightarrow> c (ys ! PARENT_OF j) (ys ! j) \<le> 0)
        \<and> (PARENT_OF j = i \<longrightarrow> 0 < i \<longrightarrow> c (ys ! PARENT_OF i) (ys ! j) \<le> 0))"

definition swap :: "'a list \<Rightarrow> nat \<Rightarrow> nat \<Rightarrow> 'a list" where
  "swap ys i k = ys[i := ys ! k, k := ys ! i]"

lemma length_swap [simp]: "length (swap ys i k) = length ys"
  by (simp add: swap_def)

lemma mset_swap_eq: "i < length ys \<Longrightarrow> k < length ys \<Longrightarrow> mset (swap ys i k) = mset ys"
  by (simp add: swap_def mset_swap)

lemma nth_swap: "i < length ys \<Longrightarrow> k < length ys \<Longrightarrow>
   swap ys i k ! j = (if j = k then ys ! i else if j = i then ys ! k else ys ! j)"
  by (auto simp: swap_def)

lemma PARENT_OF_less: "0 < j \<Longrightarrow> PARENT_OF j < j"
  by (simp add: PARENT_OF_def)

lemma PARENT_OF_eq_iff: "0 < j \<Longrightarrow> PARENT_OF j = i \<longleftrightarrow> j = LEFT_OF i \<or> j = RIGHT_OF i"
  by (auto simp: PARENT_OF_def LEFT_OF_def RIGHT_OF_def)

lemma heap_but_up_step:
  assumes c: "comparator c" and inv: "heap_but_up c ys i" and i: "0 < i" "i < length ys"
    and less: "c (ys ! i) (ys ! PARENT_OF i) < 0"
  shows "heap_but_up c (swap ys i (PARENT_OF i)) (PARENT_OF i)"
proof -
  let ?p = "PARENT_OF i"
  have p: "?p < i" "?p < length ys" using PARENT_OF_less [OF i(1)] i(2) by auto
  note tr = comparator.cmp_trans [OF c]
  have A: "c (ys ! PARENT_OF j) (ys ! j) \<le> 0" if "j < length ys" "0 < j" "j \<noteq> i" for j
    using inv that by (auto simp: heap_but_up_def)
  have B: "c (ys ! ?p) (ys ! j) \<le> 0" if "j < length ys" "0 < j" "PARENT_OF j = i" for j
    using inv that i(1) by (auto simp: heap_but_up_def)
  have C: "c (ys ! PARENT_OF ?p) (ys ! j) \<le> 0"
    if "j < length ys" "0 < j" "j \<noteq> i" "PARENT_OF j = ?p" "0 < ?p" for j
    using tr [OF A [of ?p]] A [of j] that p by auto
  have D: "c (ys ! i) (ys ! j) \<le> 0" if "j < length ys" "0 < j" "j \<noteq> i" "PARENT_OF j = ?p" for j
    using tr [of "ys ! i" "ys ! ?p" "ys ! j"] A [of j] less that by auto
  show ?thesis
    unfolding heap_but_up_def length_swap
  proof (intro allI impI conjI)
    fix j assume j: "j < length ys" "0 < j"
    show "c (swap ys i ?p ! PARENT_OF j) (swap ys i ?p ! j) \<le> 0" if "j \<noteq> ?p"
      using that A [of j] B [of j] D [of j] less j p i PARENT_OF_less [of j] PARENT_OF_less [of i]
      by (auto simp: nth_swap)
    show "c (swap ys i ?p ! PARENT_OF ?p) (swap ys i ?p ! j) \<le> 0" if "PARENT_OF j = ?p" "0 < ?p"
      using that C [of j] A [of ?p] j p i PARENT_OF_less [of ?p] PARENT_OF_less [of j]
      by (auto simp: nth_swap)
  qed
qed

lemma heap_but_up_done:
  assumes "comparator c" "heap_but_up c ys i"
    and "i = 0 \<or> \<not> c (ys ! i) (ys ! PARENT_OF i) < 0"
  shows "heap_ok c ys"
  using assms comparator.cmp_not_less [OF assms(1)]
  by (fastforce simp: heap_ok_def heap_but_up_def)

lemma heap_but_down_step:
  assumes inv: "heap_but_down c ys i" and w: "w < length ys" "0 < w" "PARENT_OF w = i"
    and le: "c (ys ! w) (ys ! i) \<le> 0"
    and best: "\<And>j. j < length ys \<Longrightarrow> 0 < j \<Longrightarrow> PARENT_OF j = i \<Longrightarrow> j \<noteq> w \<Longrightarrow> c (ys ! w) (ys ! j) \<le> 0"
  shows "heap_but_down c (swap ys i w) w"
proof -
  have i: "i < w" "i < length ys" using PARENT_OF_less [OF w(2)] w by auto
  have A: "c (ys ! PARENT_OF j) (ys ! j) \<le> 0" if "j < length ys" "0 < j" "PARENT_OF j \<noteq> i" for j
    using inv that by (auto simp: heap_but_down_def)
  have B: "c (ys ! PARENT_OF i) (ys ! j) \<le> 0" if "j < length ys" "0 < j" "PARENT_OF j = i" "0 < i" for j
    using inv that by (auto simp: heap_but_down_def)
  show ?thesis
    unfolding heap_but_down_def length_swap
  proof (intro allI impI conjI)
    fix j assume j: "j < length ys" "0 < j"
    show "c (swap ys i w ! PARENT_OF j) (swap ys i w ! j) \<le> 0" if "PARENT_OF j \<noteq> w"
      using that A [of j] B [of w] best [of j] le j w i PARENT_OF_less [of j]
      by (auto simp: nth_swap)
    show "c (swap ys i w ! PARENT_OF w) (swap ys i w ! j) \<le> 0" if "PARENT_OF j = w" "0 < w"
      using that A [of j] j w i PARENT_OF_less [of j] by (auto simp: nth_swap)
  qed
qed

lemma heap_but_down_done:
  assumes "heap_but_down c ys i"
    and "\<And>j. j < length ys \<Longrightarrow> 0 < j \<Longrightarrow> PARENT_OF j = i \<Longrightarrow> c (ys ! i) (ys ! j) \<le> 0"
  shows "heap_ok c ys"
  using assms by (auto simp: heap_ok_def heap_but_down_def)

text \<open>The root of a heap is a least element.\<close>

lemma heap_root_le:
  assumes c: "comparator c" and "heap_ok c xs" "j < length xs"
  shows "c (xs ! 0) (xs ! j) \<le> 0"
  using assms(3)
proof (induction j rule: less_induct)
  case (less j)
  show ?case
  proof (cases "j = 0")
    case True
    then show ?thesis using comparator.cmp_refl [OF c] by simp
  next
    case False
    then have "PARENT_OF j < j" "c (xs ! PARENT_OF j) (xs ! j) \<le> 0"
      using PARENT_OF_less less.prems assms(2) by (auto simp: heap_ok_def)
    then show ?thesis using less comparator.cmp_trans [OF c] by force
  qed
qed

section \<open>The loops restore heap order\<close>

text \<open>
  \<open>pos\<close> is the client's view of where a node is; the hook keeps it when it stores the position.
\<close>

definition pos_hook :: "('a \<Rightarrow> nat \<Rightarrow> 's \<Rightarrow> 's) ptr \<Rightarrow> ('s \<Rightarrow> 'a \<Rightarrow> nat) \<Rightarrow> bool" where
  "pos_hook upd pos \<longleftrightarrow> (\<exists>u. upd = Some u \<and> (\<forall>x i s. pos (u x i s) = (pos s)(x := i)))"

definition run_hook :: "('a \<Rightarrow> nat \<Rightarrow> 's \<Rightarrow> 's) ptr \<Rightarrow> 'a \<Rightarrow> nat \<Rightarrow> 's \<Rightarrow> 's" where
  "run_hook upd x i s = (case upd of None \<Rightarrow> s | Some u \<Rightarrow> u x i s)"

definition tracks_but :: "('s \<Rightarrow> 'a \<Rightarrow> nat) \<Rightarrow> 's \<Rightarrow> 'a list \<Rightarrow> nat \<Rightarrow> bool" where
  "tracks_but pos s xs k \<longleftrightarrow> (\<forall>j < length xs. j \<noteq> k \<longrightarrow> pos s (xs ! j) = j)"

definition tracks :: "('s \<Rightarrow> 'a \<Rightarrow> nat) \<Rightarrow> 's \<Rightarrow> 'a list \<Rightarrow> bool" where
  "tracks pos s xs \<longleftrightarrow> (\<forall>j < length xs. pos s (xs ! j) = j)"

lemma pos_run_hook: "pos_hook upd pos \<Longrightarrow> pos (run_hook upd x i s) = (pos s)(x := i)"
  by (auto simp: pos_hook_def run_hook_def)

lemma pq_node_live: "i < length xs \<Longrightarrow> pq_node (map Some xs @ rest) i = Some (xs ! i)"
  by (simp add: pq_node_def rd_def nth_append)

lemma pq_place_live:
  "i < length xs \<Longrightarrow>
   pq_place upd i x (map Some xs @ rest, s) = Some (map Some (xs[i := x]) @ rest, run_hook upd x i s)"
  by (cases upd) (simp_all add: pq_place_def wr_def run_hook_def list_update_append map_update)

lemma tracks_place:
  assumes "pos_hook upd pos" "distinct ys" "i < length ys" "tracks_but pos s ys i"
  shows "tracks pos (run_hook upd (ys ! i) i s) ys"
  using assms by (auto simp: tracks_def tracks_but_def pos_run_hook nth_eq_iff_index_eq)

lemma tracks_move:
  assumes "pos_hook upd pos" "distinct ys" "i < length ys" "k < length ys" "i \<noteq> k"
    and "tracks_but pos s ys i"
  shows "tracks_but pos (run_hook upd (ys ! k) i s) (swap ys i k) k"
  using assms by (auto simp: tracks_but_def pos_run_hook nth_swap nth_eq_iff_index_eq)

lemma hole_swap:
  assumes "i < length xs" "k < length xs" "i \<noteq> k"
  shows "(xs[i := xs ! k])[k := tmp] = swap (xs[i := tmp]) i k"
  using assms by (simp add: swap_def list_update_swap)

text \<open>
  The state of a loop: the live part of the array with a hole at \<open>i\<close>, and \<open>ys\<close>, what it would be with
  the saved node put there.
\<close>

definition loop_post ::
  "('a \<Rightarrow> 'a \<Rightarrow> int) \<Rightarrow> ('a \<Rightarrow> nat \<Rightarrow> 's \<Rightarrow> 's) ptr \<Rightarrow> ('s \<Rightarrow> 'a \<Rightarrow> nat) \<Rightarrow> 'a list \<Rightarrow> nat \<Rightarrow> 's \<Rightarrow> 'a ptr list
    \<Rightarrow> ('a ptr list \<times> 's) option \<Rightarrow> bool" where
  "loop_post c upd pos ys i s rest r \<longleftrightarrow>
     (\<exists>zs s'. r = Some (map Some zs @ rest, s') \<and> length zs = length ys \<and> mset zs = mset ys
        \<and> heap_ok c zs
        \<and> (pos_hook upd pos \<longrightarrow> distinct ys \<longrightarrow> tracks_but pos s ys i \<longrightarrow> tracks pos s' zs))"

lemma loop_post_place:
  assumes "i < length xs" "ys = xs[i := tmp]" "heap_ok c ys"
  shows "loop_post c upd pos ys i s rest (pq_place upd i tmp (map Some xs @ rest, s))"
proof -
  have "ys ! i = tmp" "i < length ys" using assms by auto
  then show ?thesis
    using assms tracks_place [of upd pos ys i s]
    by (auto simp: loop_post_def pq_place_live)
qed

lemma loop_post_move:
  assumes "i < length ys" "k < length ys" "i \<noteq> k"
    and "loop_post c upd pos (swap ys i k) k (run_hook upd (ys ! k) i s) rest r"
  shows "loop_post c upd pos ys i s rest r"
proof -
  obtain zs s' where z: "r = Some (map Some zs @ rest, s')" "length zs = length ys"
    "mset zs = mset ys" "heap_ok c zs"
    and t: "pos_hook upd pos \<longrightarrow> distinct (swap ys i k)
      \<longrightarrow> tracks_but pos (run_hook upd (ys ! k) i s) (swap ys i k) k \<longrightarrow> tracks pos s' zs"
    using assms(4) mset_swap_eq [OF assms(1,2)] by (auto simp: loop_post_def)
  have "distinct (swap ys i k) = distinct ys"
    using mset_swap_eq [OF assms(1,2)] mset_eq_imp_distinct_iff by blast
  with t tracks_move [of upd pos ys i k s] assms(1-3)
  have "pos_hook upd pos \<longrightarrow> distinct ys \<longrightarrow> tracks_but pos s ys i \<longrightarrow> tracks pos s' zs" by blast
  with z show ?thesis by (auto simp: loop_post_def)
qed

lemma trickle_up_loop_spec:
  assumes c: "comparator c" and "i < length xs" "heap_but_up c (xs[i := tmp]) i"
  shows "loop_post c upd pos (xs[i := tmp]) i s rest
           (trickle_up_loop (Some c) upd tmp i (map Some xs @ rest, s))"
  using assms(2,3)
proof (induction i arbitrary: xs s rule: less_induct)
  case (less i)
  let ?ys = "xs[i := tmp]" and ?p = "PARENT_OF i"
  show ?case
  proof (cases "i = 0 \<or> \<not> c tmp (xs ! ?p) < 0")
    case True
    have ne: "i \<noteq> 0 \<Longrightarrow> ?ys ! ?p = xs ! ?p" using PARENT_OF_less [of i] by simp
    then have "heap_ok c ?ys"
      using heap_but_up_done [OF c less.prems(2)] True less.prems(1) by fastforce
    moreover have "trickle_up_loop (Some c) upd tmp i (map Some xs @ rest, s)
        = pq_place upd i tmp (map Some xs @ rest, s)"
      using True less.prems(1) PARENT_OF_less [of i]
      by (subst trickle_up_loop.simps) (auto simp: pq_node_live)
    ultimately show ?thesis
      using loop_post_place [OF less.prems(1) refl] by metis
  next
    case False
    then have i: "0 < i" "c tmp (xs ! ?p) < 0" by auto
    then have p: "?p < i" "?p < length xs" using PARENT_OF_less less.prems(1) by (auto intro: less_trans)
    let ?xs = "xs[i := xs ! ?p]"
    have hole: "?xs[?p := tmp] = swap ?ys i ?p"
      using p less.prems(1) by (intro hole_swap) auto
    have run: "trickle_up_loop (Some c) upd tmp i (map Some xs @ rest, s)
        = trickle_up_loop (Some c) upd tmp ?p (map Some ?xs @ rest, run_hook upd (xs ! ?p) i s)"
      using i p less.prems(1)
      by (subst trickle_up_loop.simps) (simp add: pq_node_live pq_place_live)
    have "heap_but_up c (?xs[?p := tmp]) ?p"
      unfolding hole using heap_but_up_step [OF c less.prems(2) i(1)] i(2) less.prems(1) p by simp
    from less.IH [OF p(1) _ this, of "run_hook upd (xs ! ?p) i s"] p
    have "loop_post c upd pos (swap ?ys i ?p) ?p (run_hook upd (xs ! ?p) i s) rest
        (trickle_up_loop (Some c) upd tmp ?p (map Some ?xs @ rest, run_hook upd (xs ! ?p) i s))"
      unfolding hole by simp
    then show ?thesis
      unfolding run using p less.prems(1) by (intro loop_post_move [of i ?ys ?p]) auto
  qed
qed

lemma pick_child_spec:
  assumes "comparator c" "i < length xs div 2"
  shows "\<exists>w. pick_child c (map Some xs @ rest) (length xs) i = Some w \<and> w < length xs \<and> 0 < w
           \<and> PARENT_OF w = i
           \<and> (\<forall>j < length xs. 0 < j \<longrightarrow> PARENT_OF j = i \<longrightarrow> j \<noteq> w \<longrightarrow> c (xs ! w) (xs ! j) \<le> 0)"
proof -
  have l: "LEFT_OF i < length xs" "PARENT_OF (LEFT_OF i) = i" "PARENT_OF (RIGHT_OF i) = i"
    "0 < LEFT_OF i" "0 < RIGHT_OF i"
    using assms(2) by (auto simp: LEFT_OF_def RIGHT_OF_def PARENT_OF_def)
  show ?thesis
  proof (cases "RIGHT_OF i < length xs \<and> c (xs ! LEFT_OF i) (xs ! RIGHT_OF i) > 0")
    case True
    then have "c (xs ! RIGHT_OF i) (xs ! LEFT_OF i) \<le> 0"
      using comparator.cmp_anti [OF assms(1)] by (meson le_less_linear less_imp_le)
    with True l show ?thesis
      by (intro exI [of _ "RIGHT_OF i"]) (auto simp: pick_child_def pq_node_live PARENT_OF_eq_iff)
  next
    case False
    with l show ?thesis
      by (intro exI [of _ "LEFT_OF i"]) (auto simp: pick_child_def pq_node_live PARENT_OF_eq_iff)
  qed
qed

lemma trickle_down_loop_spec:
  assumes c: "comparator c" and "i < length xs" "heap_but_down c (xs[i := tmp]) i"
  shows "loop_post c upd pos (xs[i := tmp]) i s rest
           (trickle_down_loop (length xs) (Some c) upd tmp i (map Some xs @ rest, s))"
  using assms(2,3)
proof (induction "length xs - i" arbitrary: i xs s rule: less_induct)
  case less
  let ?ys = "xs[i := tmp]"
  show ?case
  proof (cases "i < length xs div 2")
    case False
    have "PARENT_OF j \<noteq> i" if "j < length xs" "0 < j" for j
      using that False by (auto simp: PARENT_OF_eq_iff LEFT_OF_def RIGHT_OF_def)
    then have "heap_ok c ?ys" using heap_but_down_done [OF less.prems(2)] by simp
    then show ?thesis
      using loop_post_place [OF less.prems(1) refl] False
      by (subst trickle_down_loop.simps) simp
  next
    case True
    obtain w where w: "pick_child c (map Some xs @ rest) (length xs) i = Some w" "w < length xs" "0 < w"
      "PARENT_OF w = i"
      "\<forall>j < length xs. 0 < j \<longrightarrow> PARENT_OF j = i \<longrightarrow> j \<noteq> w \<longrightarrow> c (xs ! w) (xs ! j) \<le> 0"
      using pick_child_spec [OF c True] by blast
    have iw: "i < w" using PARENT_OF_less [OF w(3)] w(4) by simp
    have child: "j \<noteq> i" if "0 < j" "PARENT_OF j = i" for j using that PARENT_OF_less [of j] by auto
    show ?thesis
    proof (cases "c (xs ! w) tmp > 0")
      case brk: True
      then have "c tmp (xs ! w) \<le> 0"
        using comparator.cmp_anti [OF c] by (meson less_imp_le)
      then have le: "c tmp (xs ! j) \<le> 0" if "j < length xs" "0 < j" "PARENT_OF j = i" for j
        using w(5) that comparator.cmp_trans [OF c, of tmp "xs ! w" "xs ! j"] by (cases "j = w") auto
      have "c (?ys ! i) (?ys ! j) \<le> 0" if "j < length ?ys" "0 < j" "PARENT_OF j = i" for j
        using le [of j] child [of j] that less.prems(1) by simp
      with less.prems(2) have "heap_ok c ?ys" by (rule heap_but_down_done)
      then show ?thesis
        using loop_post_place [OF less.prems(1) refl] True w brk
        by (subst trickle_down_loop.simps) (simp add: pq_node_live)
    next
      case False
      let ?xs = "xs[i := xs ! w]"
      have hole: "?xs[w := tmp] = swap ?ys i w"
        using iw w(2) less.prems(1) by (intro hole_swap) auto
      have run: "trickle_down_loop (length xs) (Some c) upd tmp i (map Some xs @ rest, s)
          = trickle_down_loop (length ?xs) (Some c) upd tmp w (map Some ?xs @ rest, run_hook upd (xs ! w) i s)"
        using True w False less.prems(1)
        by (subst trickle_down_loop.simps) (simp add: pq_node_live pq_place_live)
      have "c (?ys ! w) (?ys ! j) \<le> 0" if "j < length ?ys" "0 < j" "PARENT_OF j = i" "j \<noteq> w" for j
        using w(5) that child [of j] iw by simp
      then have "heap_but_down c (?xs[w := tmp]) w"
        unfolding hole
        by (intro heap_but_down_step [OF less.prems(2)]) (use w iw False less.prems(1) in auto)
      then have "loop_post c upd pos (swap ?ys i w) w (run_hook upd (xs ! w) i s) rest
          (trickle_down_loop (length ?xs) (Some c) upd tmp w (map Some ?xs @ rest, run_hook upd (xs ! w) i s))"
        using less.hyps [of ?xs w "run_hook upd (xs ! w) i s"] iw w(2) unfolding hole by simp
      then show ?thesis
        unfolding run using iw w(2) less.prems(1) by (intro loop_post_move [of i ?ys w]) auto
    qed
  qed
qed

section \<open>The queue\<close>

text \<open>
  The queue \<open>q\<close> holds the nodes \<open>xs\<close>, in array order, as a heap. With \<^term>\<open>Some p\<close> for \<open>pos\<close>, the nodes
  are moreover distinct, the hook stores positions, and the stored position of every node is right.
\<close>

definition pos_inv ::
  "('s \<Rightarrow> 'a \<Rightarrow> nat) option \<Rightarrow> ('a \<Rightarrow> nat \<Rightarrow> 's \<Rightarrow> 's) ptr \<Rightarrow> 's \<Rightarrow> 'a list \<Rightarrow> bool" where
  "pos_inv pos upd s xs \<longleftrightarrow>
     (case pos of None \<Rightarrow> True | Some p \<Rightarrow> pos_hook upd p \<and> distinct xs \<and> tracks p s xs)"

definition pq_inv ::
  "('a \<Rightarrow> 'a \<Rightarrow> int) \<Rightarrow> ('s \<Rightarrow> 'a \<Rightarrow> nat) option \<Rightarrow> ('a, 's) pqueue \<times> 's \<Rightarrow> 'a list \<Rightarrow> bool" where
  "pq_inv c pos qs xs \<longleftrightarrow>
     (\<exists>rest. pq_array (fst qs) = map Some xs @ rest) \<and> length (pq_array (fst qs)) = pq_array_size (fst qs)
     \<and> pq_size (fst qs) = length xs \<and> 0 < pq_array_size (fst qs) \<and> pq_array_size (fst qs) \<le> INT_MAX
     \<and> pq_cmp (fst qs) = Some c \<and> heap_ok c xs \<and> pos_inv pos (pq_update (fst qs)) (snd qs) xs"

lemma pqueue_create_inv:
  "(\<forall>p. pos = Some p \<longrightarrow> pos_hook u p) \<Longrightarrow>
   pq_inv c pos (pqueue_create\<lparr>pq_cmp := Some c, pq_update := u\<rparr>, s) []"
  by (auto simp: pq_inv_def pos_inv_def pqueue_create_def PQUEUE_INIT_ARRAYSIZE_def INT_MAX_def
      heap_ok_def tracks_def split: option.splits)

lemma pq_inv_loop:
  assumes lp: "\<And>p. loop_post c (pq_update q) p ys i s rest r"
    and "pq_cmp q = Some c" "length ys + length rest = pq_array_size q" "0 < pq_array_size q"
    "pq_array_size q \<le> INT_MAX"
    and pos: "\<And>p. pos = Some p \<Longrightarrow> pos_hook (pq_update q) p \<and> distinct ys \<and> tracks_but p s ys i"
  shows "\<exists>arr s' zs. r = Some (arr, s') \<and> mset zs = mset ys
           \<and> pq_inv c pos (q\<lparr>pq_array := arr, pq_size := length ys\<rparr>, s') zs"
proof -
  obtain zs s' where z: "r = Some (map Some zs @ rest, s')" "length zs = length ys" "mset zs = mset ys"
    "heap_ok c zs"
    using lp [unfolded loop_post_def] by blast
  have "distinct zs \<and> tracks p s' zs" if "pos = Some p" for p
    using lp [of p] pos [OF that] z mset_eq_imp_distinct_iff [OF z(3)] inj_map_eq_map [OF inj_Some]
    by (auto simp: loop_post_def)
  with pos have "pos_inv pos (pq_update q) s' zs"
    by (auto simp: pos_inv_def split: option.splits)
  with z assms(2-5) show ?thesis by (auto simp: pq_inv_def)
qed

lemma pq_place_new:
  "pq_place upd (length xs) x (map Some xs @ r # rest, s)
     = Some (map Some (xs @ [x]) @ rest, run_hook upd x (length xs) s)"
proof -
  have "(map Some xs @ r # rest)[length xs := Some x] = map Some xs @ Some x # rest"
    using list_update_length [of "map Some xs" r rest "Some x"] by simp
  then show ?thesis by (cases upd) (simp_all add: pq_place_def wr_def run_hook_def)
qed

lemma heap_append:
  assumes "heap_ok c xs"
  shows "heap_but_up c (xs @ [x]) (length xs)"
proof -
  have "\<not> PARENT_OF j = length xs" if "j < Suc (length xs)" "0 < j" for j
    using that PARENT_OF_less [of j] by auto
  moreover have "PARENT_OF j < length xs" if "j < length xs" for j
    using that PARENT_OF_less [of j] by (cases "j = 0") (auto simp: PARENT_OF_def)
  ultimately show ?thesis
    using assms by (auto simp: heap_but_up_def heap_ok_def nth_append)
qed

lemma pq_room_spec:
  assumes inv: "pq_inv c pos (q, s) xs" and room: "2 * pq_array_size q \<le> INT_MAX"
  shows "\<exists>q1 r rest. pq_room q = Some q1 \<and> pq_array q1 = map Some xs @ r # rest
           \<and> length (pq_array q1) = pq_array_size q1 \<and> pq_size q1 = length xs
           \<and> pq_array_size q1 \<le> INT_MAX \<and> pq_cmp q1 = Some c \<and> pq_update q1 = pq_update q"
proof -
  obtain rest where r: "pq_array q = map Some xs @ rest" using inv by (auto simp: pq_inv_def)
  have *: "length xs + length rest = pq_array_size q" "pq_size q = length xs" "0 < pq_array_size q"
    "pq_cmp q = Some c" using inv r by (auto simp: pq_inv_def)
  show ?thesis
  proof (cases "pq_size q + 2 \<ge> pq_array_size q")
    case True
    let ?rest = "rest @ replicate (pq_array_size q) None"
    have e: "?rest = hd ?rest # tl ?rest" using *(3) by (intro list.collapse [symmetric]) auto
    show ?thesis
      by (rule exI [of _ "q\<lparr>pq_array := pq_array q @ replicate (pq_array_size q) None,
                             pq_array_size := 2 * pq_array_size q\<rparr>"],
          rule exI [of _ "hd ?rest"], rule exI [of _ "tl ?rest"], unfold e [symmetric])
        (use True * r room in \<open>simp add: pq_room_def pqueue_expand_def\<close>)
  next
    case False
    with * have "rest \<noteq> []" by auto
    then have e: "rest = hd rest # tl rest" by simp
    show ?thesis
      by (rule exI [of _ q], rule exI [of _ "hd rest"], rule exI [of _ "tl rest"], unfold e [symmetric])
        (use False * r room in \<open>simp add: pq_room_def\<close>)
  qed
qed

lemma pqueue_enqueue_spec:
  assumes c: "comparator c" and inv: "pq_inv c pos (q, s) xs" and room: "2 * pq_array_size q \<le> INT_MAX"
    and new: "pos = None \<or> x \<notin> set xs"
  shows "\<exists>q' s' ys. pqueue_enqueue x (q, s) = Some (q', s') \<and> pq_inv c pos (q', s') ys
           \<and> mset ys = add_mset x (mset xs) \<and> pq_update q' = pq_update q"
proof -
  obtain q1 r rest where q1: "pq_room q = Some q1"
    "pq_array q1 = map Some xs @ r # rest" "length (pq_array q1) = pq_array_size q1"
    "pq_size q1 = length xs" "pq_array_size q1 \<le> INT_MAX" "pq_cmp q1 = Some c" "pq_update q1 = pq_update q"
    using pq_room_spec [OF inv room] by blast
  let ?ys = "xs @ [x]" and ?s = "run_hook (pq_update q) x (length xs) s"
  let ?r = "trickle_up_loop (Some c) (pq_update q) x (length xs) (map Some ?ys @ rest, ?s)"
  have "heap_ok c xs" using inv by (simp add: pq_inv_def)
  then have lp: "loop_post c (pq_update q1) p ?ys (length xs) ?s rest ?r" for p
    using trickle_up_loop_spec [OF c, of "length xs" ?ys x "pq_update q" p ?s rest] heap_append [of c xs x] q1(7)
    by simp
  have sz: "length ?ys + length rest = pq_array_size q1" "0 < pq_array_size q1" using q1(2,3) by auto
  have trk: "pos_hook (pq_update q1) p \<and> distinct ?ys \<and> tracks_but p ?s ?ys (length xs)" if "pos = Some p" for p
  proof -
    have "pos_hook (pq_update q) p" "distinct ?ys" "tracks p s xs"
      using inv that new by (auto simp: pq_inv_def pos_inv_def)
    then show ?thesis
      using nth_mem [of _ xs] q1(7) by (auto simp: tracks_but_def tracks_def pos_run_hook nth_append less_Suc_eq)
  qed
  obtain arr s' zs where z: "?r = Some (arr, s')" "mset zs = mset ?ys"
    "pq_inv c pos (q1\<lparr>pq_array := arr, pq_size := length ?ys\<rparr>, s') zs"
    using pq_inv_loop [OF lp q1(6) sz q1(5) trk] by blast
  have "pqueue_enqueue x (q, s) = Some (q1\<lparr>pq_array := arr, pq_size := length ?ys\<rparr>, s')"
    using q1 z(1) pq_place_new [of "pq_update q" xs x r rest s] pq_node_live [of "length xs" ?ys rest]
    by (simp add: pqueue_enqueue_def trickle_up_def)
  then show ?thesis using z q1(7) by auto
qed

lemma mset_butlast_update:
  assumes "i < length xs - 1"
  shows "mset ((butlast xs)[i := last xs]) = mset xs - {#xs ! i#}"
proof -
  have ne: "xs \<noteq> []" using assms by auto
  then have m: "mset xs = add_mset (last xs) (mset (butlast xs))"
    using arg_cong [OF append_butlast_last_id [OF ne], of mset]
    by (simp del: append_butlast_last_id)
  have "xs ! i \<in># mset (butlast xs)"
    using assms nth_mem [of i "butlast xs"] by (simp add: nth_butlast)
  then show ?thesis using assms m by (simp add: mset_update nth_butlast)
qed

lemma heap_replace:
  assumes c: "comparator c" and h: "heap_ok c xs" and i: "i < length xs - 1"
  shows "0 < i \<Longrightarrow> c (last xs) (xs ! PARENT_OF i) < 0 \<Longrightarrow> heap_but_up c ((butlast xs)[i := last xs]) i"
    and "i = 0 \<or> \<not> c (last xs) (xs ! PARENT_OF i) < 0 \<Longrightarrow> heap_but_down c ((butlast xs)[i := last xs]) i"
proof -
  let ?ys = "(butlast xs)[i := last xs]"
  note tr = comparator.cmp_trans [OF c]
  have H: "c (xs ! PARENT_OF j) (xs ! j) \<le> 0" if "j < length xs - 1" "0 < j" for j
    using h that by (simp add: heap_ok_def)
  have par: "PARENT_OF j < length xs - 1" if "j < length xs - 1" for j
    using that by (simp add: PARENT_OF_def)
  have par_ne: "PARENT_OF i \<noteq> i" if "0 < i" using PARENT_OF_less [OF that] by simp
  have B: "c (?ys ! PARENT_OF i) (?ys ! j) \<le> 0"
    if "j < length xs - 1" "0 < j" "PARENT_OF j = i" "0 < i" for j
  proof -
    have "j \<noteq> i" using that PARENT_OF_less [of j] by auto
    then show ?thesis
      using that tr [of "xs ! PARENT_OF i" "xs ! i" "xs ! j"] H [of i] H [of j] i par [of i] par_ne
      by (simp add: nth_butlast)
  qed
  show "heap_but_up c ?ys i" if up: "0 < i" "c (last xs) (xs ! PARENT_OF i) < 0"
  proof -
    have "c (last xs) (xs ! i) \<le> 0" using tr [of "last xs" "xs ! PARENT_OF i" "xs ! i"] H [of i] up i by simp
    then have "c (?ys ! PARENT_OF j) (?ys ! j) \<le> 0" if "j < length xs - 1" "0 < j" "j \<noteq> i" for j
      using that tr [of "last xs" "xs ! i" "xs ! j"] H [of j] par [of j] i by (auto simp: nth_list_update nth_butlast)
    with B show ?thesis using up by (simp add: heap_but_up_def)
  qed
  show "heap_but_down c ?ys i" if dn: "i = 0 \<or> \<not> c (last xs) (xs ! PARENT_OF i) < 0"
  proof -
    have "c (?ys ! PARENT_OF j) (?ys ! j) \<le> 0" if "j < length xs - 1" "0 < j" "PARENT_OF j \<noteq> i" for j
      using that H [of j] par [of j] dn i comparator.cmp_not_less [OF c] by (auto simp: nth_list_update nth_butlast)
    with B show ?thesis by (simp add: heap_but_down_def)
  qed
qed

lemma map_Some_last: "xs \<noteq> [] \<Longrightarrow> map Some xs @ rest = map Some (butlast xs) @ Some (last xs) # rest"
  by (cases xs rule: rev_cases) simp_all

text \<open>Removing the last array element only shrinks the array.\<close>

lemma remove_at_last:
  assumes c: "comparator c" and inv: "pq_inv c pos (q, s) xs" and i: "xs \<noteq> []" "i = length xs - 1"
  shows "\<exists>q' s'. pqueue_remove_at i (q, s) = Some (q', s') \<and> pq_inv c pos (q', s') (butlast xs)
           \<and> pq_update q' = pq_update q"
proof -
  obtain rest where r: "pq_array q = map Some xs @ rest" using inv by (auto simp: pq_inv_def)
  have *: "pq_size q = length xs" "pq_cmp q = Some c" "heap_ok c xs"
    using inv by (auto simp: pq_inv_def)
  have il: "i < length xs" "length xs = Suc i" using i by auto
  have same: "(map Some xs @ rest)[i := Some (xs ! i)] = map Some xs @ rest"
    using il by (simp add: list_update_append map_update [symmetric])
  have rdi: "rd (map Some xs @ rest) i = Some (Some (xs ! i))"
    using il by (simp add: rd_def nth_append)
  have not_up: "\<not> c (xs ! i) (xs ! PARENT_OF i) < 0" if "0 < i"
    using * that il comparator.cmp_not_less [OF c] by (auto simp: heap_ok_def)
  have down: "trickle_down_loop i (Some c) (pq_update q) (xs ! i) i (map Some xs @ rest, s)
      = Some (map Some xs @ rest, run_hook (pq_update q) (xs ! i) i s)"
    using pq_place_live [OF il(1), of "pq_update q" "xs ! i" rest s] div_le_dividend [of i 2]
    by (subst trickle_down_loop.simps) (auto simp: not_less)
  let ?q = "q\<lparr>pq_size := i, pq_array := map Some xs @ rest\<rparr>" and ?s = "run_hook (pq_update q) (xs ! i) i s"
  have td: "trickle_down i (?q, s) = Some (?q, ?s)"
    using pq_node_live [OF il(1), of rest] down *(2) by (simp add: trickle_down_def)
  have wri: "wr (map Some xs @ rest) i (Some (xs ! i)) = Some (map Some xs @ rest)"
    using same il by (simp add: wr_def)
  have eq: "pqueue_remove_at i (q, s) = Some (?q, ?s)"
  proof (cases "0 < i")
    case True
    then have "PARENT_OF i < length xs" using PARENT_OF_less [of i] il by simp
    then show ?thesis
      using r * il rdi wri td not_up True by (simp add: pqueue_remove_at_def pq_node_live)
  next
    case False
    then show ?thesis using r * il rdi wri td by (simp add: pqueue_remove_at_def)
  qed
  have arr: "map Some xs @ rest = map Some (butlast xs) @ Some (last xs) # rest"
    using i(1) by (rule map_Some_last)
  have heap: "heap_ok c (butlast xs)"
    using *(3) PARENT_OF_less le_less_trans by (simp add: heap_ok_def nth_butlast less_diff_conv PARENT_OF_def)
  have "distinct (butlast xs) \<and> tracks p ?s (butlast xs)"
    if "pos_hook (pq_update q) p" "distinct xs" "tracks p s xs" for p
    using that il by (auto simp: tracks_def pos_run_hook nth_butlast distinct_butlast nth_eq_iff_index_eq)
  then have "pos_inv pos (pq_update q) ?s (butlast xs)"
    using inv by (auto simp: pos_inv_def pq_inv_def split: option.splits)
  then show ?thesis using eq arr heap inv il r by (auto simp: pq_inv_def)
qed

lemma remove_at_inner:
  assumes c: "comparator c" and inv: "pq_inv c pos (q, s) xs" and i: "i < length xs - 1"
  shows "\<exists>q' s' ys. pqueue_remove_at i (q, s) = Some (q', s') \<and> pq_inv c pos (q', s') ys
           \<and> mset ys = mset xs - {#xs ! i#} \<and> pq_update q' = pq_update q"
proof -
  obtain rest0 where r0: "pq_array q = map Some xs @ rest0" using inv by (auto simp: pq_inv_def)
  have ne: "xs \<noteq> []" using i by auto
  let ?ys = "(butlast xs)[i := last xs]" and ?rest = "Some (last xs) # rest0"
  have *: "pq_size q = length xs" "pq_cmp q = Some c" "heap_ok c xs" "0 < pq_array_size q"
    "length xs + length rest0 = pq_array_size q" "pq_array_size q \<le> INT_MAX"
    using inv r0 by (auto simp: pq_inv_def)
  have arr: "pq_array q = map Some (butlast xs) @ ?rest"
    unfolding r0 using ne by (rule map_Some_last)
  have rdl: "rd (pq_array q) (length xs - 1) = Some (Some (last xs))"
    using ne i unfolding r0 by (simp add: rd_def nth_append last_conv_nth)
  have wri: "wr (pq_array q) i (Some (last xs)) = Some (map Some ?ys @ ?rest)"
    using i unfolding arr by (simp add: wr_def list_update_append map_update)
  have node: "pq_node (map Some ?ys @ ?rest) i = Some (last xs)"
    using i pq_node_live [of i ?ys ?rest] by simp
  have par: "PARENT_OF i < length ?ys" "0 < i \<Longrightarrow> ?ys ! PARENT_OF i = xs ! PARENT_OF i"
    using i PARENT_OF_less [of i] by (auto simp: nth_butlast PARENT_OF_def)
  let ?q = "q\<lparr>pq_size := length xs - 1, pq_array := map Some ?ys @ ?rest\<rparr>"
  let ?up = "0 < i \<and> c (last xs) (xs ! PARENT_OF i) < 0"
  define r where "r = (if ?up then trickle_up_loop (Some c) (pq_update q) (last xs) i (map Some ?ys @ ?rest, s)
     else trickle_down_loop (length ?ys) (Some c) (pq_update q) (last xs) i (map Some ?ys @ ?rest, s))"
  have upd: "?ys[i := last xs] = ?ys" by simp
  have lp: "loop_post c (pq_update ?q) p ?ys i s ?rest r" for p
    using heap_replace [OF c *(3) i] trickle_up_loop_spec [OF c, of i ?ys "last xs" "pq_update q" p s ?rest]
      trickle_down_loop_spec [OF c, of i ?ys "last xs" "pq_update q" p s ?rest] i
    unfolding r_def upd by auto
  have q: "pq_cmp ?q = Some c" "length ?ys + length ?rest = pq_array_size ?q" "0 < pq_array_size ?q"
    "pq_array_size ?q \<le> INT_MAX" using * i by auto
  have trk: "pos_hook (pq_update ?q) p \<and> distinct ?ys \<and> tracks_but p s ?ys i" if "pos = Some p" for p
  proof -
    have h: "pos_hook (pq_update q) p" "distinct xs" "tracks p s xs"
      using inv that by (auto simp: pq_inv_def pos_inv_def)
    have "distinct ?ys"
      using h(2) ne by (cases xs rule: rev_cases) (auto intro: distinct_list_update)
    with h show ?thesis by (auto simp: tracks_but_def tracks_def nth_butlast)
  qed
  obtain arr' s' zs where z: "r = Some (arr', s')" "mset zs = mset ?ys"
    "pq_inv c pos (?q\<lparr>pq_array := arr', pq_size := length ?ys\<rparr>, s') zs"
    using pq_inv_loop [OF lp q trk] by blast
  have "pqueue_remove_at i (q, s) = Some (?q\<lparr>pq_array := arr', pq_size := length ?ys\<rparr>, s')"
    using * rdl wri node par z(1) pq_node_live [OF par(1), of ?rest] i ne
    by (cases "0 < i"; cases "c (last xs) (xs ! PARENT_OF i) < 0")
      (simp_all add: pqueue_remove_at_def trickle_up_def trickle_down_def r_def Let_def)
  then show ?thesis using z mset_butlast_update [OF i] by auto
qed

lemma pqueue_remove_at_spec:
  assumes c: "comparator c" and inv: "pq_inv c pos (q, s) xs" and i: "i < length xs"
  shows "\<exists>q' s' ys. pqueue_remove_at i (q, s) = Some (q', s') \<and> pq_inv c pos (q', s') ys
           \<and> mset ys = mset xs - {#xs ! i#} \<and> pq_update q' = pq_update q"
proof (cases "i = length xs - 1")
  case True
  have ne: "xs \<noteq> []" using i by auto
  have "mset (butlast xs) = mset xs - {#xs ! i#}"
    using arg_cong [OF append_butlast_last_id [OF ne], of mset] True ne
    by (simp add: last_conv_nth del: append_butlast_last_id) (metis add_mset_remove_trivial)
  then show ?thesis using remove_at_last [OF c inv ne True] by blast
next
  case False
  then show ?thesis using remove_at_inner [OF c inv] i by simp
qed

lemma pqueue_dequeue_eq:
  "pqueue_dequeue qs = do { data \<leftarrow> pq_node (pq_array (fst qs)) 0;
                            qs' \<leftarrow> pqueue_remove_at 0 qs; Some (data, qs') }"
  by (cases qs) (simp add: pqueue_dequeue_def pqueue_remove_at_def Let_def)

lemma pqueue_dequeue_spec:
  assumes c: "comparator c" and inv: "pq_inv c pos (q, s) xs" and ne: "xs \<noteq> []"
  shows "\<exists>x q' s' ys. pqueue_dequeue (q, s) = Some (x, q', s') \<and> pq_inv c pos (q', s') ys
           \<and> mset xs = add_mset x (mset ys) \<and> (\<forall>y \<in> set xs. c x y \<le> 0) \<and> pq_update q' = pq_update q"
proof -
  obtain rest where r: "pq_array q = map Some xs @ rest" using inv by (auto simp: pq_inv_def)
  obtain q' s' ys where d: "pqueue_remove_at 0 (q, s) = Some (q', s')" "pq_inv c pos (q', s') ys"
    "mset ys = mset xs - {#xs ! 0#}" "pq_update q' = pq_update q"
    using pqueue_remove_at_spec [OF c inv, of 0] ne by auto
  have "pqueue_dequeue (q, s) = Some (xs ! 0, q', s')"
    using d(1) r ne by (simp add: pqueue_dequeue_eq pq_node_live)
  moreover have "\<forall>y \<in> set xs. c (xs ! 0) y \<le> 0"
    using heap_root_le [OF c] inv by (auto simp: pq_inv_def in_set_conv_nth)
  moreover have "mset xs = add_mset (xs ! 0) (mset ys)" using d(3) ne by simp
  ultimately show ?thesis using d by blast
qed

section \<open>The priority-queue contract\<close>

text \<open>
  What a client of a priority queue relies on; \<open>holds q B\<close> says that the queue holds the bag \<open>B\<close>.
\<close>

locale prio_queue =
  fixes le :: "'a \<Rightarrow> 'a \<Rightarrow> bool"
    and holds :: "'q \<Rightarrow> 'a multiset \<Rightarrow> bool"
    and take_min :: "'q \<Rightarrow> ('a \<times> 'q) option"
  assumes take_min_law: "holds q B \<Longrightarrow> B \<noteq> {#} \<Longrightarrow>
      \<exists>x q'. take_min q = Some (x, q') \<and> x \<in># B \<and> (\<forall>y \<in># B. le x y) \<and> holds q' (B - {#x#})"

text \<open>Emptying a queue by repeated dequeuing.\<close>

primrec drain :: "('q \<Rightarrow> ('a \<times> 'q) option) \<Rightarrow> nat \<Rightarrow> 'q \<Rightarrow> ('a list \<times> 'q) option" where
  "drain f 0 q = Some ([], q)"
| "drain f (Suc n) q =
     do { (x, q') \<leftarrow> f q; (xs, q'') \<leftarrow> drain f n q'; Some (x # xs, q'') }"

context prio_queue
begin

lemma drain_sorted:
  "holds q B \<Longrightarrow> n = size B \<Longrightarrow>
   \<exists>xs q'. drain take_min n q = Some (xs, q') \<and> mset xs = B \<and> sorted_wrt le xs \<and> holds q' {#}"
proof (induction n arbitrary: q B)
  case 0
  then show ?case by simp
next
  case (Suc n)
  then have "B \<noteq> {#}" by auto
  then obtain x q1 where x: "take_min q = Some (x, q1)" "x \<in># B" "\<forall>y \<in># B. le x y" "holds q1 (B - {#x#})"
    using take_min_law [OF Suc.prems(1)] by blast
  have "n = size (B - {#x#})" using x(2) Suc.prems(2) by (simp add: size_Diff_singleton)
  from Suc.IH [OF x(4) this] obtain xs q' where
    xs: "drain take_min n q1 = Some (xs, q')" "mset xs = B - {#x#}" "sorted_wrt le xs" "holds q' {#}"
    by blast
  have "\<forall>y \<in> set xs. le x y"
  proof
    fix y assume "y \<in> set xs"
    then have "y \<in># B - {#x#}" using xs(2) by (metis set_mset_mset)
    then show "le x y" using x(3) by (meson in_diffD)
  qed
  moreover have "mset (x # xs) = B" using xs(2) x(2) by simp
  ultimately show ?case using x(1) xs by (intro exI [of _ "x # xs"] exI [of _ q']) simp
qed

end

definition pq_holds :: "('a \<Rightarrow> 'a \<Rightarrow> int) \<Rightarrow> ('a, 's) pqueue \<times> 's \<Rightarrow> 'a multiset \<Rightarrow> bool" where
  "pq_holds c qs B \<longleftrightarrow> comparator c \<and> (\<exists>xs. pq_inv c None qs xs \<and> mset xs = B)"

interpretation pq: prio_queue "\<lambda>x y. c x y \<le> 0" "pq_holds c" pqueue_dequeue for c
proof unfold_locales
  fix qs :: "('a, 'b) pqueue \<times> 'b" and B
  assume h: "pq_holds c qs B" "B \<noteq> {#}"
  obtain q s where qs: "qs = (q, s)" by (cases qs)
  obtain xs where xs: "comparator c" "pq_inv c None (q, s) xs" "mset xs = B"
    using h(1) qs by (auto simp: pq_holds_def)
  have "xs \<noteq> []" using xs(3) h(2) by auto
  from pqueue_dequeue_spec [OF xs(1,2) this] obtain x q' s' ys where
    "pqueue_dequeue (q, s) = Some (x, q', s')" "pq_inv c None (q', s') ys"
    "mset xs = add_mset x (mset ys)" "\<forall>y \<in> set xs. c x y \<le> 0"
    by blast
  moreover have "set_mset B = set xs" using xs(3) by auto
  ultimately show "\<exists>x q'. pqueue_dequeue qs = Some (x, q') \<and> x \<in># B \<and> (\<forall>y \<in># B. c x y \<le> 0)
      \<and> pq_holds c q' (B - {#x#})"
    using xs qs by (auto simp: pq_holds_def)
qed

lemma pq_inv_rd:
  "pq_inv c pos (q, s) xs \<Longrightarrow> i < length xs \<Longrightarrow> rd (pq_array q) i = Some (Some (xs ! i))"
  by (auto simp: pq_inv_def rd_def nth_append)

lemma pq_inv_size: "pq_inv c pos (q, s) xs \<Longrightarrow> pq_size q = length xs"
  by (simp add: pq_inv_def)

lemma remove_loop_absent:
  assumes "pq_inv c pos (q, s) xs" "x \<notin> set xs"
  shows "length xs - i \<le> n \<Longrightarrow> pqueue_remove_loop n x i (q, s) = Some (q, s)"
proof (induction n arbitrary: i)
  case (Suc n)
  then show ?case
    using pq_inv_rd [OF assms(1), of i] pq_inv_size [OF assms(1)] assms(2) nth_mem [of i xs] by auto
qed (use pq_inv_size [OF assms(1)] in simp)

lemma remove_loop_spec:
  assumes c: "comparator c" and inv: "pq_inv c pos (q, s) xs" and d: "distinct xs"
  shows "length xs - i \<le> n \<Longrightarrow> x \<notin> set (take i xs) \<Longrightarrow>
    \<exists>q' s' ys. pqueue_remove_loop n x i (q, s) = Some (q', s') \<and> pq_inv c pos (q', s') ys
      \<and> mset ys = mset xs - {#x#}"
proof (induction n arbitrary: i)
  case 0
  then have "x \<notin> set xs" by simp
  with inv 0 pq_inv_size [OF inv] show ?case by (auto simp: diff_single_trivial)
next
  case (Suc n)
  note rdi = pq_inv_rd [OF inv, of i] and sz = pq_inv_size [OF inv]
  consider "length xs \<le> i" | "i < length xs" "xs ! i = x" | "i < length xs" "xs ! i \<noteq> x" by linarith
  then show ?case
  proof cases
    case 1
    then have "x \<notin> set xs" using Suc.prems by simp
    with 1 inv sz show ?thesis by (auto simp: diff_single_trivial)
  next
    case 2
    obtain q' s' ys where r: "pqueue_remove_at i (q, s) = Some (q', s')" "pq_inv c pos (q', s') ys"
      "mset ys = mset xs - {#x#}"
      using pqueue_remove_at_spec [OF c inv 2(1)] 2(2) by blast
    have "length ys < length xs"
      using arg_cong [OF r(3), of size] 2 nth_mem [of i xs] by (auto simp: size_Diff_singleton)
    moreover have "count (mset xs) x \<le> 1" using d distinct_count_atmost_1 [of xs] by simp
    then have "count (mset ys) x = 0" using r(3) by simp
    then have "x \<notin> set ys" by (metis count_eq_zero_iff set_mset_mset)
    ultimately show ?thesis
      using remove_loop_absent [OF r(2), of x "i + 1" n] r rdi sz 2 Suc.prems(1) by auto
  next
    case 3
    have "x \<notin> set (take (i + 1) xs)" using Suc.prems(2) 3 by (simp add: take_Suc_conv_app_nth)
    then show ?thesis using Suc.IH [of "i + 1"] Suc.prems(1) rdi sz 3 by auto
  qed
qed

section \<open>Properties\<close>

text \<open>
  inserting into a well-formed queue keeps heap order and, when the client stores positions
  through the update hook, keeps every stored position equal to the node's array index; the queue's
  contents grow by exactly the new node, the array doubling when it is full.
\<close>

theorem pqueue_enqueue_correct:
  assumes "comparator c" "pq_inv c (Some p) (q, s) xs" "2 * pq_array_size q \<le> INT_MAX" "x \<notin> set xs"
  shows "\<exists>q' s' ys. pqueue_enqueue x (q, s) = Some (q', s') \<and> pq_inv c (Some p) (q', s') ys
           \<and> mset ys = add_mset x (mset xs)"
  using pqueue_enqueue_spec [OF assms(1-3)] assms(4) by blast

text \<open>
  C36: with positions stored through the hook, \<open>pqueue_remove_at\<close> at a node's stored position removes
  exactly that node and leaves a well-formed queue with correct positions; this is how the event
  loop cancels a timer.
\<close>

theorem pqueue_remove_at_tracked:
  assumes "comparator c" "pq_inv c (Some p) (q, s) xs" "x \<in> set xs"
  shows "\<exists>q' s' ys. pqueue_remove_at (p s x) (q, s) = Some (q', s') \<and> pq_inv c (Some p) (q', s') ys
           \<and> mset ys = mset xs - {#x#}"
proof -
  obtain i where i: "i < length xs" "xs ! i = x" using assms(3) by (auto simp: in_set_conv_nth)
  have "p s x = i" using assms(2) i by (auto simp: pq_inv_def pos_inv_def tracks_def)
  then show ?thesis using pqueue_remove_at_spec [OF assms(1,2) i(1)] i(2) by auto
qed

text \<open>
  dequeuing a well-formed queue until it is empty never fails and yields its nodes in ascending
  order of the comparison.
\<close>

theorem pqueue_drain_sorted:
  assumes "comparator c" "pq_inv c None qs xs"
  shows "\<exists>ys qs'. drain pqueue_dequeue (length xs) qs = Some (ys, qs') \<and> mset ys = mset xs
           \<and> sorted_wrt (\<lambda>x y. c x y \<le> 0) ys \<and> pq_size (fst qs') = 0"
proof -
  have "pq_holds c qs (mset xs)" using assms by (auto simp: pq_holds_def)
  from pq.drain_sorted [OF this, of "length xs"] obtain ys qs' where
    "drain pqueue_dequeue (length xs) qs = Some (ys, qs')" "mset ys = mset xs"
    "sorted_wrt (\<lambda>x y. c x y \<le> 0) ys" "pq_holds c qs' {#}"
    by auto
  then show ?thesis by (auto simp: pq_holds_def pq_inv_def)
qed

text \<open>
  \<open>pqueue_remove\<close> of a queue of distinct nodes ends and removes exactly the given node, if present.
\<close>

theorem pqueue_remove_correct:
  assumes "comparator c" "pq_inv c pos (q, s) xs" "distinct xs"
  shows "\<exists>q' s' ys. pqueue_remove x (q, s) = Some (q', s') \<and> pq_inv c pos (q', s') ys
           \<and> mset ys = mset xs - {#x#}"
  using remove_loop_spec [OF assms, of 0 "length xs" x] pq_inv_size [OF assms(2)]
  by (simp add: pqueue_remove_def)

text \<open>A queue of three integers with positions stored in a function.\<close>

definition ex_cmp :: "int \<Rightarrow> int \<Rightarrow> int" where "ex_cmp x y = x - y"

definition ex_pq :: "(int, int \<Rightarrow> nat) pqueue" where
  "ex_pq = \<lparr>pq_array = [Some 1, Some 5, Some 3, None], pq_array_size = 4, pq_size = 3,
            pq_cmp = Some ex_cmp, pq_update = Some (\<lambda>x i s. s(x := i))\<rparr>"

definition ex_pos :: "int \<Rightarrow> nat" where
  "ex_pos = (\<lambda>x. if x = 1 then 0 else if x = 5 then 1 else 2)"

lemma ex_cmp_comparator: "comparator ex_cmp"
  by unfold_locales (auto simp: ex_cmp_def)

lemma ex_pq_inv: "pq_inv ex_cmp (Some id) (ex_pq, ex_pos) [1, 5, 3]"
proof -
  have "heap_ok ex_cmp [1, 5, 3]"
    unfolding heap_ok_def by (auto simp: PARENT_OF_def ex_cmp_def less_Suc_eq numeral_eq_Suc)
  moreover have "tracks id ex_pos [1, 5, 3]"
    unfolding tracks_def by (auto simp: ex_pos_def less_Suc_eq numeral_eq_Suc)
  ultimately show ?thesis
    by (auto simp: pq_inv_def ex_pq_def INT_MAX_def pos_inv_def pos_hook_def)
qed

lemma ex_pq_inv_None: "pq_inv ex_cmp None (ex_pq, ex_pos) [1, 5, 3]"
  using ex_pq_inv by (simp add: pq_inv_def pos_inv_def)

theorem pqueue_remove_at_tracked_witness:
  "\<exists>q' s' ys. pqueue_remove_at (ex_pos 5) (ex_pq, ex_pos) = Some (q', s')
     \<and> pq_inv ex_cmp (Some id) (q', s') ys \<and> mset ys = {#1, 3#}"
  using pqueue_remove_at_tracked [OF ex_cmp_comparator ex_pq_inv, of 5] by simp

end
