(* ===== verification/Linklist.thy ===== *)
theory Linklist
  imports C_Prelude "HOL-Library.Multiset"
begin

text \<open>
  The doubly linked list of \<open>libvui/src/vui/lib/linklist.c\<close>.

  Nodes live in an explicit memory: \<open>lm_cells\<close> maps addresses to \<open>struct listnode\<close>s, \<open>lm_next\<close> is
  the next fresh address and \<open>lm_log\<close> records the arguments of the \<open>del\<close> callback in call order.
  A use of NULL or of a freed node and a failed assertion are \<^term>\<open>None\<close>; so is a traversal that
  does not end. \<open>count\<close> is a 32-bit word and wraps.
\<close>

record 'd lnode =
  ln_next :: "nat ptr"
  ln_prev :: "nat ptr"
  ln_data :: "'d ptr"

record 'd lmem =
  lm_next :: nat
  lm_cells :: "nat \<Rightarrow> 'd lnode option"
  lm_log :: "'d list"

record 'd llist =
  ll_head :: "nat ptr"
  ll_tail :: "nat ptr"
  ll_count :: u32
  ll_cmp :: "('d \<Rightarrow> 'd \<Rightarrow> int) ptr"
  ll_del :: bool

section \<open>Memory accesses\<close>

definition put_node :: "'d lmem \<Rightarrow> nat \<Rightarrow> 'd lnode \<Rightarrow> 'd lmem" where
  "put_node m a n = m\<lparr>lm_cells := (lm_cells m)(a \<mapsto> n)\<rparr>"

definition put_next :: "'d lmem \<Rightarrow> nat \<Rightarrow> nat ptr \<Rightarrow> 'd lmem option" where
  "put_next m a p = do { n \<leftarrow> lm_cells m a; Some (put_node m a (n\<lparr>ln_next := p\<rparr>)) }"

definition put_prev :: "'d lmem \<Rightarrow> nat \<Rightarrow> nat ptr \<Rightarrow> 'd lmem option" where
  "put_prev m a p = do { n \<leftarrow> lm_cells m a; Some (put_node m a (n\<lparr>ln_prev := p\<rparr>)) }"

definition listnode_new :: "'d lmem \<Rightarrow> 'd lnode \<Rightarrow> 'd lmem \<times> nat" where
  "listnode_new m n =
     (m\<lparr>lm_next := lm_next m + 1, lm_cells := (lm_cells m)(lm_next m \<mapsto> n)\<rparr>, lm_next m)"

definition listnode_free :: "'d lmem \<Rightarrow> nat \<Rightarrow> 'd lmem" where
  "listnode_free m a = m\<lparr>lm_cells := (lm_cells m)(a := None)\<rparr>"

text \<open>The branch \<open>if (p) p->next = v; else list->head = v;\<close> and its mirror image.\<close>

definition link_fwd :: "'d lmem \<Rightarrow> 'd llist \<Rightarrow> nat ptr \<Rightarrow> nat ptr \<Rightarrow> ('d lmem \<times> 'd llist) option" where
  "link_fwd m l p v =
     (case p of None \<Rightarrow> Some (m, l\<lparr>ll_head := v\<rparr>)
      | Some a \<Rightarrow> do { m' \<leftarrow> put_next m a v; Some (m', l) })"

definition link_bwd :: "'d lmem \<Rightarrow> 'd llist \<Rightarrow> nat ptr \<Rightarrow> nat ptr \<Rightarrow> ('d lmem \<times> 'd llist) option" where
  "link_bwd m l p v =
     (case p of None \<Rightarrow> Some (m, l\<lparr>ll_tail := v\<rparr>)
      | Some a \<Rightarrow> do { m' \<leftarrow> put_prev m a v; Some (m', l) })"

section \<open>Operations\<close>

definition list_new :: "'d llist" where
  "list_new = \<lparr>ll_head = None, ll_tail = None, ll_count = 0, ll_cmp = None, ll_del = False\<rparr>"

definition LISTNODE_ATTACH :: "'d lmem \<Rightarrow> 'd llist \<Rightarrow> nat \<Rightarrow> ('d lmem \<times> 'd llist) option" where
  "LISTNODE_ATTACH m l a =
     do { m1 \<leftarrow> put_prev m a (ll_tail l);
          m2 \<leftarrow> put_next m1 a None;
          (m3, l1) \<leftarrow> (if ll_head l = None then Some (m2, l\<lparr>ll_head := Some a\<rparr>)
                       else do { t \<leftarrow> ll_tail l; m3 \<leftarrow> put_next m2 t (Some a); Some (m3, l) });
          Some (m3, l1\<lparr>ll_tail := Some a, ll_count := ll_count l1 + 1\<rparr>) }"

definition LISTNODE_DETACH :: "'d lmem \<Rightarrow> 'd llist \<Rightarrow> nat \<Rightarrow> ('d lmem \<times> 'd llist) option" where
  "LISTNODE_DETACH m l a =
     do { n \<leftarrow> lm_cells m a;
          (m1, l1) \<leftarrow> link_fwd m l (ln_prev n) (ln_next n);
          n1 \<leftarrow> lm_cells m1 a;
          (m2, l2) \<leftarrow> link_bwd m1 l1 (ln_next n1) (ln_prev n1);
          Some (m2, l2\<lparr>ll_count := ll_count l2 - 1\<rparr>) }"

definition listnode_add :: "'d lmem \<Rightarrow> 'd llist \<Rightarrow> 'd ptr \<Rightarrow> ('d lmem \<times> 'd llist \<times> nat) option" where
  "listnode_add m l val =
     do { c_assert (val \<noteq> None);
          let (m1, a) = listnode_new m \<lparr>ln_next = None, ln_prev = ll_tail l, ln_data = val\<rparr>;
          (m2, l1) \<leftarrow> (if ll_head l = None then Some (m1, l\<lparr>ll_head := Some a\<rparr>)
                       else do { t \<leftarrow> ll_tail l; m2 \<leftarrow> put_next m1 t (Some a); Some (m2, l) });
          Some (m2, l1\<lparr>ll_tail := Some a, ll_count := ll_count l1 + 1\<rparr>, a) }"

definition listnode_add_head :: "'d lmem \<Rightarrow> 'd llist \<Rightarrow> 'd ptr \<Rightarrow> ('d lmem \<times> 'd llist) option" where
  "listnode_add_head m l val =
     do { c_assert (val \<noteq> None);
          let (m1, a) = listnode_new m \<lparr>ln_next = ll_head l, ln_prev = None, ln_data = val\<rparr>;
          m2 \<leftarrow> (case ll_head l of None \<Rightarrow> Some m1 | Some h \<Rightarrow> put_prev m1 h (Some a));
          Some (m2, l\<lparr>ll_head := Some a, ll_count := ll_count l + 1\<rparr>) }"

text \<open>
  Following \<open>next\<close> from \<open>p\<close> to the first node whose data satisfies \<open>P\<close>, NULL when there is none; the
  loops of the sorted insertions and of \<open>listnode_lookup\<close>.
\<close>

partial_function (option) find_from :: "'d lmem \<Rightarrow> ('d \<Rightarrow> bool) \<Rightarrow> nat ptr \<Rightarrow> nat ptr option" where
  "find_from m P p =
     (case p of None \<Rightarrow> Some None
      | Some a \<Rightarrow> do { n \<leftarrow> lm_cells m a;
                       d \<leftarrow> ln_data n;
                       if P d then Some (Some a) else find_from m P (ln_next n) })"

text \<open>The insertion of a new node with data \<open>val\<close> before the node \<open>n\<close> in the sorted insertions.\<close>

definition insert_before_node :: "'d lmem \<Rightarrow> 'd llist \<Rightarrow> nat \<Rightarrow> 'd ptr \<Rightarrow> ('d lmem \<times> 'd llist) option" where
  "insert_before_node m l b val =
     do { n \<leftarrow> lm_cells m b;
          let (m1, a) = listnode_new m \<lparr>ln_next = Some b, ln_prev = ln_prev n, ln_data = val\<rparr>;
          (m2, l1) \<leftarrow> link_fwd m1 l (ln_prev n) (Some a);
          m3 \<leftarrow> put_prev m2 b (Some a);
          Some (m3, l1\<lparr>ll_count := ll_count l1 + 1\<rparr>) }"

definition listnode_add_sort_nodup :: "'d lmem \<Rightarrow> 'd llist \<Rightarrow> 'd ptr \<Rightarrow> ('d lmem \<times> 'd llist \<times> bool) option" where
  "listnode_add_sort_nodup m l val =
     do { v \<leftarrow> val;
          r \<leftarrow> (case ll_cmp l of None \<Rightarrow> Some None
               | Some c \<Rightarrow> find_from m (\<lambda>d. c v d \<le> 0) (ll_head l));
          case r of
            None \<Rightarrow> do { let (m1, a) = listnode_new m \<lparr>ln_next = None, ln_prev = None, ln_data = val\<rparr>;
                         (m2, l1) \<leftarrow> LISTNODE_ATTACH m1 l a;
                         Some (m2, l1, True) }
          | Some b \<Rightarrow> do { c \<leftarrow> ll_cmp l;
                           n \<leftarrow> lm_cells m b;
                           d \<leftarrow> ln_data n;
                           if c v d < 0
                           then do { (m1, l1) \<leftarrow> insert_before_node m l b val; Some (m1, l1, True) }
                           else Some (m, l, False) } }"

definition listnode_add_sort :: "'d lmem \<Rightarrow> 'd llist \<Rightarrow> 'd ptr \<Rightarrow> ('d lmem \<times> 'd llist) option" where
  "listnode_add_sort m l val =
     do { v \<leftarrow> val;
          r \<leftarrow> (case ll_cmp l of None \<Rightarrow> Some None
               | Some c \<Rightarrow> find_from m (\<lambda>d. c v d < 0) (ll_head l));
          case r of
            Some b \<Rightarrow> insert_before_node m l b val
          | None \<Rightarrow> do { let (m1, a) = listnode_new m \<lparr>ln_next = None, ln_prev = ll_tail l, ln_data = val\<rparr>;
                         (m2, l1) \<leftarrow> link_fwd m1 l (ll_tail l) (Some a);
                         Some (m2, l1\<lparr>ll_tail := Some a, ll_count := ll_count l1 + 1\<rparr>) } }"

definition listnode_add_after ::
  "'d lmem \<Rightarrow> 'd llist \<Rightarrow> nat ptr \<Rightarrow> 'd ptr \<Rightarrow> ('d lmem \<times> 'd llist \<times> nat) option" where
  "listnode_add_after m l pp val =
     do { c_assert (val \<noteq> None);
          nx \<leftarrow> (case pp of None \<Rightarrow> Some (ll_head l) | Some p \<Rightarrow> map_option ln_next (lm_cells m p));
          let (m1, a) = listnode_new m \<lparr>ln_next = nx, ln_prev = pp, ln_data = val\<rparr>;
          (m2, l1) \<leftarrow> link_bwd m1 l nx (Some a);
          (m3, l2) \<leftarrow> link_fwd m2 l1 pp (Some a);
          Some (m3, l2\<lparr>ll_count := ll_count l2 + 1\<rparr>, a) }"

definition listnode_add_before ::
  "'d lmem \<Rightarrow> 'd llist \<Rightarrow> nat ptr \<Rightarrow> 'd ptr \<Rightarrow> ('d lmem \<times> 'd llist \<times> nat) option" where
  "listnode_add_before m l pp val =
     do { c_assert (val \<noteq> None);
          pv \<leftarrow> (case pp of None \<Rightarrow> Some (ll_tail l) | Some p \<Rightarrow> map_option ln_prev (lm_cells m p));
          let (m1, a) = listnode_new m \<lparr>ln_next = pp, ln_prev = pv, ln_data = val\<rparr>;
          (m2, l1) \<leftarrow> link_fwd m1 l pv (Some a);
          (m3, l2) \<leftarrow> link_bwd m2 l1 pp (Some a);
          Some (m3, l2\<lparr>ll_count := ll_count l2 + 1\<rparr>, a) }"

definition listnode_move_to_tail :: "'d lmem \<Rightarrow> 'd llist \<Rightarrow> nat \<Rightarrow> ('d lmem \<times> 'd llist) option" where
  "listnode_move_to_tail m l a = do { (m1, l1) \<leftarrow> LISTNODE_DETACH m l a; LISTNODE_ATTACH m1 l1 a }"

definition list_delete_node :: "'d lmem \<Rightarrow> 'd llist \<Rightarrow> nat \<Rightarrow> ('d lmem \<times> 'd llist) option" where
  "list_delete_node m l a =
     do { (m1, l1) \<leftarrow> LISTNODE_DETACH m l a; Some (listnode_free m1 a, l1) }"

definition listnode_lookup :: "'d lmem \<Rightarrow> 'd llist \<Rightarrow> 'd ptr \<Rightarrow> nat ptr option" where
  "listnode_lookup m l data = find_from m (\<lambda>d. data = Some d) (ll_head l)"

definition listnode_delete :: "'d lmem \<Rightarrow> 'd llist \<Rightarrow> 'd ptr \<Rightarrow> ('d lmem \<times> 'd llist) option" where
  "listnode_delete m l val =
     do { r \<leftarrow> listnode_lookup m l val;
          case r of None \<Rightarrow> Some (m, l) | Some a \<Rightarrow> list_delete_node m l a }"

definition listnode_head :: "'d lmem \<Rightarrow> 'd llist \<Rightarrow> 'd ptr option" where
  "listnode_head m l = (case ll_head l of None \<Rightarrow> Some None | Some a \<Rightarrow> map_option ln_data (lm_cells m a))"

definition call_del :: "'d lmem \<Rightarrow> 'd llist \<Rightarrow> 'd ptr \<Rightarrow> 'd lmem" where
  "call_del m l data = (if ll_del l then m\<lparr>lm_log := lm_log m @ (case data of None \<Rightarrow> [] | Some d \<Rightarrow> [d])\<rparr> else m)"

partial_function (option) delete_all_from :: "'d llist \<Rightarrow> 'd lmem \<Rightarrow> nat ptr \<Rightarrow> 'd lmem option" where
  "delete_all_from l m p =
     (case p of None \<Rightarrow> Some m
      | Some a \<Rightarrow> do { n \<leftarrow> lm_cells m a;
                       delete_all_from l (listnode_free (call_del m l (ln_data n)) a) (ln_next n) })"

definition list_delete_all_node :: "'d lmem \<Rightarrow> 'd llist \<Rightarrow> ('d lmem \<times> 'd llist) option" where
  "list_delete_all_node m l =
     do { m1 \<leftarrow> delete_all_from l m (ll_head l);
          Some (m1, l\<lparr>ll_head := None, ll_tail := None, ll_count := 0\<rparr>) }"

text \<open>\<open>ALL_LIST_ELEMENTS\<close>: the next node is read before the body runs.\<close>

partial_function (option) filter_from ::
  "('d \<Rightarrow> bool) ptr \<Rightarrow> 'd lmem \<times> 'd llist \<Rightarrow> nat ptr \<Rightarrow> ('d lmem \<times> 'd llist) option" where
  "filter_from cond ml p =
     (case p of None \<Rightarrow> Some ml
      | Some a \<Rightarrow> do { n \<leftarrow> lm_cells (fst ml) a;
                       d \<leftarrow> ln_data n;
                       ml' \<leftarrow> (if (case cond of None \<Rightarrow> True | Some c \<Rightarrow> c d)
                              then list_delete_node (call_del (fst ml) (snd ml) (Some d)) (snd ml) a
                              else Some ml);
                       filter_from cond ml' (ln_next n) })"

definition list_filter_out_nodes :: "'d lmem \<Rightarrow> 'd llist \<Rightarrow> ('d \<Rightarrow> bool) ptr \<Rightarrow> ('d lmem \<times> 'd llist) option" where
  "list_filter_out_nodes m l cond = filter_from cond (m, l) (ll_head l)"

text \<open>\<open>list_add_list\<close> and \<open>list_dup\<close> walk one list and append to another in the same memory.\<close>

partial_function (option) add_list_from :: "'d lmem \<times> 'd llist \<Rightarrow> nat ptr \<Rightarrow> ('d lmem \<times> 'd llist) option" where
  "add_list_from ml p =
     (case p of None \<Rightarrow> Some ml
      | Some a \<Rightarrow> do { n \<leftarrow> lm_cells (fst ml) a;
                       (m', l', _) \<leftarrow> listnode_add (fst ml) (snd ml) (ln_data n);
                       n' \<leftarrow> lm_cells m' a;
                       add_list_from (m', l') (ln_next n') })"

definition list_add_list :: "'d lmem \<Rightarrow> 'd llist \<Rightarrow> 'd llist \<Rightarrow> ('d lmem \<times> 'd llist) option" where
  "list_add_list m l add = add_list_from (m, l) (ll_head add)"

definition list_dup :: "'d lmem \<Rightarrow> 'd llist \<Rightarrow> ('d lmem \<times> 'd llist) option" where
  "list_dup m l = add_list_from (m, list_new\<lparr>ll_cmp := ll_cmp l, ll_del := ll_del l\<rparr>) (ll_head l)"

partial_function (option) sort_collect ::
  "'d ptr list \<Rightarrow> nat \<Rightarrow> 'd lmem \<times> 'd llist \<Rightarrow> nat ptr \<Rightarrow> ('d ptr list \<times> 'd lmem \<times> 'd llist) option" where
  "sort_collect items i ml p =
     (case p of None \<Rightarrow> Some (items, ml)
      | Some a \<Rightarrow> do { n \<leftarrow> lm_cells (fst ml) a;
                       d \<leftarrow> ln_data n;
                       items' \<leftarrow> wr items i (Some d);
                       ml' \<leftarrow> list_delete_node (fst ml) (snd ml) a;
                       sort_collect items' (i + 1) ml' (ln_next n) })"

text \<open>\<open>qsort\<close> of the C library is a parameter.\<close>

definition list_sort ::
  "('d ptr list \<Rightarrow> 'd ptr list) \<Rightarrow> 'd lmem \<Rightarrow> 'd llist \<Rightarrow> ('d lmem \<times> 'd llist) option" where
  "list_sort qsort m l =
     do { let n = unat (ll_count l);
          (items, ml) \<leftarrow> sort_collect (replicate n None) 0 (m, l) (ll_head l);
          fold_opt (\<lambda>d ml. do { (m', l', _) \<leftarrow> listnode_add (fst ml) (snd ml) d; Some (m', l') }) (qsort items) ml }"

partial_function (option) to_array_from ::
  "'d lmem \<Rightarrow> 'd ptr list \<Rightarrow> nat \<Rightarrow> nat ptr \<Rightarrow> 'd ptr list option" where
  "to_array_from m arr idx p =
     (case p of None \<Rightarrow> Some arr
      | Some a \<Rightarrow> do { n \<leftarrow> lm_cells m a;
                       d \<leftarrow> ln_data n;
                       arr' \<leftarrow> wr arr idx (Some d);
                       if idx + 1 = length arr' then Some arr' else to_array_from m arr' (idx + 1) (ln_next n) })"

definition list_to_array :: "'d lmem \<Rightarrow> 'd llist \<Rightarrow> 'd ptr list \<Rightarrow> 'd ptr list option" where
  "list_to_array m l arr = to_array_from m arr 0 (ll_head l)"

text \<open>The list itself as a heap object that may be absent.\<close>

definition list_delete :: "'d lmem \<Rightarrow> 'd llist ptr \<Rightarrow> ('d lmem \<times> 'd llist ptr) option" where
  "list_delete m p = do { l \<leftarrow> p; (m1, _) \<leftarrow> list_delete_all_node m l; Some (m1, None) }"

definition listnode_lookup_nocheck :: "'d lmem \<Rightarrow> 'd llist ptr \<Rightarrow> 'd ptr \<Rightarrow> nat ptr option" where
  "listnode_lookup_nocheck m p data = (case p of None \<Rightarrow> Some None | Some l \<Rightarrow> listnode_lookup m l data)"

definition listnode_add_force :: "'d lmem \<Rightarrow> 'd llist ptr \<Rightarrow> 'd ptr \<Rightarrow> ('d lmem \<times> 'd llist \<times> nat) option" where
  "listnode_add_force m p val = listnode_add m (case p of None \<Rightarrow> list_new | Some l \<Rightarrow> l) val"

section \<open>Linked segments\<close>

definition hd_ptr :: "nat list \<Rightarrow> nat ptr \<Rightarrow> nat ptr" where
  "hd_ptr as q = (case as of [] \<Rightarrow> q | a # _ \<Rightarrow> Some a)"

definition last_ptr :: "nat ptr \<Rightarrow> nat list \<Rightarrow> nat ptr" where
  "last_ptr p as = (if as = [] then p else Some (last as))"

text \<open>The nodes at the addresses \<open>as\<close> are linked in this order between \<open>p\<close> and \<open>q\<close>, and hold data.\<close>

primrec dseg :: "'d lmem \<Rightarrow> nat ptr \<Rightarrow> nat list \<Rightarrow> nat ptr \<Rightarrow> bool" where
  "dseg m p [] q \<longleftrightarrow> True"
| "dseg m p (a # as) q \<longleftrightarrow>
     (\<exists>d. lm_cells m a = Some \<lparr>ln_next = hd_ptr as q, ln_prev = p, ln_data = Some d\<rparr>) \<and> dseg m (Some a) as q"

definition node_data :: "'d lmem \<Rightarrow> nat \<Rightarrow> 'd" where
  "node_data m a = the (ln_data (the (lm_cells m a)))"

definition lrep :: "'d lmem \<Rightarrow> 'd llist \<Rightarrow> nat list \<Rightarrow> bool" where
  "lrep m l as \<longleftrightarrow> dseg m None as None \<and> distinct as \<and> set as \<subseteq> {..<lm_next m}
     \<and> ll_head l = hd_ptr as None \<and> ll_tail l = last_ptr None as \<and> ll_count l = of_nat (length as)"

text \<open>The contents a client sees.\<close>

definition lvals :: "'d lmem \<Rightarrow> nat list \<Rightarrow> 'd list" where
  "lvals m as = map (node_data m) as"

lemma hd_ptr_simps [simp]: "hd_ptr [] q = q" "hd_ptr (a # as) q = Some a"
  by (simp_all add: hd_ptr_def)

lemma hd_ptr_append: "hd_ptr (as @ bs) q = hd_ptr as (hd_ptr bs q)"
  by (cases as) simp_all

lemma last_ptr_simps [simp]: "last_ptr p [] = p" "last_ptr p (as @ [a]) = Some a"
  "last_ptr p (a # as) = last_ptr (Some a) as"
  by (simp_all add: last_ptr_def)

lemma ptr_ne: "as \<noteq> [] \<Longrightarrow> hd_ptr as q = Some (hd as)" "as \<noteq> [] \<Longrightarrow> last_ptr p as = Some (last as)"
  by (auto simp: hd_ptr_def last_ptr_def split: list.splits)

lemma last_ptr_append: "last_ptr p (as @ bs) = last_ptr (last_ptr p as) bs"
  by (simp add: last_ptr_def)

lemma dseg_append:
  "dseg m p (as @ bs) q \<longleftrightarrow> dseg m p as (hd_ptr bs q) \<and> dseg m (last_ptr p as) bs q"
  by (induction as arbitrary: p) (auto simp: hd_ptr_append)

lemma dseg_cong:
  "(\<And>a. a \<in> set as \<Longrightarrow> lm_cells m' a = lm_cells m a) \<Longrightarrow> dseg m' p as q = dseg m p as q"
  by (induction as arbitrary: p) auto

lemma put_node_simps [simp]:
  "lm_cells (put_node m a n) = (lm_cells m)(a \<mapsto> n)"
  "lm_next (put_node m a n) = lm_next m" "lm_log (put_node m a n) = lm_log m"
  by (simp_all add: put_node_def)

lemma dseg_put_node [simp]: "a \<notin> set as \<Longrightarrow> dseg (put_node m a n) p as q = dseg m p as q"
  by (rule dseg_cong) auto

lemma listnode_free_simps [simp]:
  "lm_cells (listnode_free m a) = (lm_cells m)(a := None)"
  "lm_next (listnode_free m a) = lm_next m" "lm_log (listnode_free m a) = lm_log m"
  by (simp_all add: listnode_free_def)

text \<open>
  What relinking leaves alone: everything but the links of the nodes in \<open>S\<close>.
\<close>

definition relinked :: "nat set \<Rightarrow> 'd lmem \<Rightarrow> 'd lmem \<Rightarrow> bool" where
  "relinked S m m' \<longleftrightarrow> (\<forall>b. b \<notin> S \<longrightarrow> lm_cells m' b = lm_cells m b) \<and> node_data m' = node_data m
     \<and> (\<forall>b. lm_cells m' b = None \<longleftrightarrow> lm_cells m b = None) \<and> lm_next m' = lm_next m \<and> lm_log m' = lm_log m"

lemma relinked_refl [simp]: "relinked S m m"
  by (simp add: relinked_def)

lemma relinked_trans:
  "relinked S m m1 \<Longrightarrow> relinked T m1 m2 \<Longrightarrow> relinked (S \<union> T) m m2"
  by (auto simp: relinked_def)

lemma relinked_dseg: "relinked S m m' \<Longrightarrow> set as \<inter> S = {} \<Longrightarrow> dseg m' p as q = dseg m p as q"
  by (rule dseg_cong) (auto simp: relinked_def)

lemma relinked_put:
  assumes "lm_cells m a = Some n" "ln_data n' = ln_data n" "a \<in> S"
  shows "relinked S m (put_node m a n')"
  using assms by (auto simp: relinked_def node_data_def fun_eq_iff)

lemma link_fwd_seg:
  assumes "dseg m None as q" "distinct as"
  shows "\<exists>m'. link_fwd m l (last_ptr None as) v
            = Some (m', l\<lparr>ll_head := (if as = [] then v else ll_head l)\<rparr>)
          \<and> dseg m' None as v \<and> relinked (set as) m m'"
proof (cases as rule: rev_cases)
  case Nil
  then show ?thesis by (intro exI [of _ m]) (simp add: link_fwd_def)
next
  case (snoc as' a)
  then obtain d where d: "dseg m None as' (Some a)"
    "lm_cells m a = Some \<lparr>ln_next = q, ln_prev = last_ptr None as', ln_data = Some d\<rparr>" "a \<notin> set as'"
    using assms by (auto simp: dseg_append)
  let ?n = "\<lparr>ln_next = v, ln_prev = last_ptr None as', ln_data = Some d\<rparr>"
  have "dseg (put_node m a ?n) None as' (Some a)" using d by simp
  then show ?thesis
    using snoc d by (intro exI [of _ "put_node m a ?n"])
      (auto simp: link_fwd_def put_next_def dseg_append intro: relinked_put)
qed

lemma link_bwd_seg:
  assumes "dseg m p bs None" "distinct bs"
  shows "\<exists>m'. link_bwd m l (hd_ptr bs None) v
            = Some (m', l\<lparr>ll_tail := (if bs = [] then v else ll_tail l)\<rparr>)
          \<and> dseg m' v bs None \<and> relinked (set bs) m m'"
proof (cases bs)
  case Nil
  then show ?thesis by (intro exI [of _ m]) (simp add: link_bwd_def)
next
  case (Cons b bs')
  then obtain d where d: "dseg m (Some b) bs' None"
    "lm_cells m b = Some \<lparr>ln_next = hd_ptr bs' None, ln_prev = p, ln_data = Some d\<rparr>" "b \<notin> set bs'"
    using assms by auto
  let ?n = "\<lparr>ln_next = hd_ptr bs' None, ln_prev = v, ln_data = Some d\<rparr>"
  have "dseg (put_node m b ?n) (Some b) bs' None" using d by simp
  then show ?thesis
    using Cons d by (intro exI [of _ "put_node m b ?n"])
      (auto simp: link_bwd_def put_prev_def intro: relinked_put)
qed

text \<open>Unlinking and linking a node, whatever code does it.\<close>

lemma detach_spec:
  assumes "lrep m l (as @ a # bs)"
  shows "\<exists>m' l'. LISTNODE_DETACH m l a = Some (m', l') \<and> lrep m' l' (as @ bs)
           \<and> relinked (set (as @ bs)) m m' \<and> ll_cmp l' = ll_cmp l \<and> ll_del l' = ll_del l"
proof -
  obtain d where seg: "dseg m None as (Some a)" "dseg m (Some a) bs None"
    and cell: "lm_cells m a = Some \<lparr>ln_next = hd_ptr bs None, ln_prev = last_ptr None as, ln_data = Some d\<rparr>"
    and dist: "distinct as" "distinct bs" "a \<notin> set as" "a \<notin> set bs" "set as \<inter> set bs = {}"
    using assms by (auto simp: lrep_def dseg_append)
  let ?l1 = "l\<lparr>ll_head := (if as = [] then hd_ptr bs None else ll_head l)\<rparr>"
  obtain m1 where m1: "link_fwd m l (last_ptr None as) (hd_ptr bs None) = Some (m1, ?l1)"
    "dseg m1 None as (hd_ptr bs None)" "relinked (set as) m m1"
    using link_fwd_seg [OF seg(1) dist(1)] by blast
  have b1: "dseg m1 (Some a) bs None" "lm_cells m1 a = lm_cells m a"
    using relinked_dseg [OF m1(3), of bs] seg(2) dist m1(3) by (auto simp: relinked_def)
  let ?l2 = "?l1\<lparr>ll_tail := (if bs = [] then last_ptr None as else ll_tail ?l1)\<rparr>"
  obtain m2 where m2: "link_bwd m1 ?l1 (hd_ptr bs None) (last_ptr None as) = Some (m2, ?l2)"
    "dseg m2 (last_ptr None as) bs None" "relinked (set bs) m1 m2"
    using link_bwd_seg [OF b1(1) dist(2)] by blast
  have eq: "LISTNODE_DETACH m l a = Some (m2, ?l2\<lparr>ll_count := ll_count ?l2 - 1\<rparr>)"
    using cell b1(2) m1(1) m2(1) by (simp add: LISTNODE_DETACH_def)
  have re: "relinked (set (as @ bs)) m m2" using relinked_trans [OF m1(3) m2(3)] by simp
  have "dseg m2 None as (hd_ptr bs None)" using relinked_dseg [OF m2(3), of as] m1(2) dist(5) by simp
  with m2(2) have "dseg m2 None (as @ bs) None" by (simp add: dseg_append)
  then have "lrep m2 (?l2\<lparr>ll_count := ll_count ?l2 - 1\<rparr>) (as @ bs)"
    using assms dist re by (auto simp: lrep_def hd_ptr_append last_ptr_append relinked_def ptr_ne)
  with eq re show ?thesis by auto
qed

text \<open>A node \<open>a\<close> that is ready to be linked between \<open>as\<close> and \<open>bs\<close>.\<close>

definition ready :: "'d lmem \<Rightarrow> 'd llist \<Rightarrow> nat list \<Rightarrow> nat list \<Rightarrow> nat \<Rightarrow> 'd \<Rightarrow> bool" where
  "ready m l as bs a d \<longleftrightarrow> lrep m l (as @ bs) \<and> a \<notin> set (as @ bs) \<and> a < lm_next m
     \<and> lm_cells m a = Some \<lparr>ln_next = hd_ptr bs None, ln_prev = last_ptr None as, ln_data = Some d\<rparr>"

definition linked_list :: "'d llist \<Rightarrow> nat list \<Rightarrow> nat list \<Rightarrow> nat \<Rightarrow> 'd llist" where
  "linked_list l as bs a = l\<lparr>ll_head := (if as = [] then Some a else ll_head l),
     ll_tail := (if bs = [] then Some a else ll_tail l), ll_count := ll_count l + 1\<rparr>"

lemma linked_list_simps [simp]:
  "ll_cmp (linked_list l as bs a) = ll_cmp l" "ll_del (linked_list l as bs a) = ll_del l"
  by (simp_all add: linked_list_def)

lemma lrep_linked:
  assumes "ready m l as bs a d" "relinked (set as \<union> set bs) m m'"
    and "dseg m' None as (Some a)" "dseg m' (Some a) bs None"
  shows "lrep m' (linked_list l as bs a) (as @ a # bs)"
proof -
  have "lm_cells m' a = lm_cells m a" using assms(1,2) by (auto simp: ready_def relinked_def)
  with assms have "dseg m' None (as @ a # bs) None" by (auto simp: ready_def dseg_append)
  then show ?thesis
    using assms(1,2)
    by (auto simp: lrep_def ready_def relinked_def linked_list_def hd_ptr_append last_ptr_append ptr_ne)
qed

lemma ready_segs:
  assumes "ready m l as bs a d"
  shows "dseg m None as (hd_ptr bs None)" "dseg m (last_ptr None as) bs None" "distinct as" "distinct bs"
    "set as \<inter> set bs = {}"
  using assms by (auto simp: ready_def lrep_def dseg_append)

lemma insert_fwd_bwd:
  assumes r: "ready m l as bs a d"
  shows "\<exists>m1 l1 m2 l2. link_fwd m l (last_ptr None as) (Some a) = Some (m1, l1)
           \<and> link_bwd m1 l1 (hd_ptr bs None) (Some a) = Some (m2, l2)
           \<and> l2\<lparr>ll_count := ll_count l2 + 1\<rparr> = linked_list l as bs a
           \<and> lrep m2 (linked_list l as bs a) (as @ a # bs) \<and> relinked (set as \<union> set bs) m m2"
proof -
  note seg = ready_segs [OF r]
  obtain m1 where m1: "link_fwd m l (last_ptr None as) (Some a)
      = Some (m1, l\<lparr>ll_head := (if as = [] then Some a else ll_head l)\<rparr>)"
    "dseg m1 None as (Some a)" "relinked (set as) m m1"
    using link_fwd_seg [OF seg(1,3)] by blast
  let ?l1 = "l\<lparr>ll_head := (if as = [] then Some a else ll_head l)\<rparr>"
  have b1: "dseg m1 (last_ptr None as) bs None" using relinked_dseg [OF m1(3), of bs] seg by auto
  obtain m2 where m2: "link_bwd m1 ?l1 (hd_ptr bs None) (Some a)
      = Some (m2, ?l1\<lparr>ll_tail := (if bs = [] then Some a else ll_tail ?l1)\<rparr>)"
    "dseg m2 (Some a) bs None" "relinked (set bs) m1 m2"
    using link_bwd_seg [OF b1 seg(4)] by blast
  have "dseg m2 None as (Some a)" using relinked_dseg [OF m2(3), of as] m1(2) seg(5) by simp
  with lrep_linked [OF r relinked_trans [OF m1(3) m2(3)]] m2(2) m1 m2 relinked_trans [OF m1(3) m2(3)]
  show ?thesis by (auto simp: linked_list_def)
qed

lemma insert_bwd_fwd:
  assumes r: "ready m l as bs a d"
  shows "\<exists>m1 l1 m2 l2. link_bwd m l (hd_ptr bs None) (Some a) = Some (m1, l1)
           \<and> link_fwd m1 l1 (last_ptr None as) (Some a) = Some (m2, l2)
           \<and> l2\<lparr>ll_count := ll_count l2 + 1\<rparr> = linked_list l as bs a
           \<and> lrep m2 (linked_list l as bs a) (as @ a # bs) \<and> relinked (set as \<union> set bs) m m2"
proof -
  note seg = ready_segs [OF r]
  obtain m1 where m1: "link_bwd m l (hd_ptr bs None) (Some a)
      = Some (m1, l\<lparr>ll_tail := (if bs = [] then Some a else ll_tail l)\<rparr>)"
    "dseg m1 (Some a) bs None" "relinked (set bs) m m1"
    using link_bwd_seg [OF seg(2,4)] by blast
  let ?l1 = "l\<lparr>ll_tail := (if bs = [] then Some a else ll_tail l)\<rparr>"
  have b1: "dseg m1 None as (hd_ptr bs None)" using relinked_dseg [OF m1(3), of as] seg by auto
  obtain m2 where m2: "link_fwd m1 ?l1 (last_ptr None as) (Some a)
      = Some (m2, ?l1\<lparr>ll_head := (if as = [] then Some a else ll_head ?l1)\<rparr>)"
    "dseg m2 None as (Some a)" "relinked (set as) m1 m2"
    using link_fwd_seg [OF b1 seg(3)] by blast
  have "dseg m2 (Some a) bs None" using relinked_dseg [OF m2(3), of bs] m1(2) seg(5) by (simp add: Int_commute)
  moreover have re: "relinked (set as \<union> set bs) m m2"
    using relinked_trans [OF m1(3) m2(3)] by (simp add: Un_commute)
  ultimately show ?thesis
    using lrep_linked [OF r re m2(2)] m1(1) m2(1) by (auto simp: linked_list_def)
qed

text \<open>Allocating the node.\<close>

lemma ready_new:
  assumes "lrep m l (as @ bs)"
    and "listnode_new m \<lparr>ln_next = hd_ptr bs None, ln_prev = last_ptr None as, ln_data = Some d\<rparr> = (m1, a)"
  shows "ready m1 l as bs a d" "a = lm_next m" "node_data m1 a = d" "lm_log m1 = lm_log m"
    "\<And>b. b \<noteq> a \<Longrightarrow> lm_cells m1 b = lm_cells m b"
proof -
  have a: "a = lm_next m" "a \<notin> set (as @ bs)"
    and m1: "m1 = m\<lparr>lm_next := a + 1, lm_cells := (lm_cells m)(a \<mapsto>
      \<lparr>ln_next = hd_ptr bs None, ln_prev = last_ptr None as, ln_data = Some d\<rparr>)\<rparr>"
    using assms by (auto simp: listnode_new_def lrep_def)
  have "dseg m1 None (as @ bs) None = dseg m None (as @ bs) None"
    by (rule dseg_cong) (use a m1 in auto)
  with assms(1) a m1 show "ready m1 l as bs a d" by (auto simp: ready_def lrep_def)
  show "a = lm_next m" "node_data m1 a = d" "lm_log m1 = lm_log m"
    "\<And>b. b \<noteq> a \<Longrightarrow> lm_cells m1 b = lm_cells m b"
    using a m1 by (auto simp: node_data_def)
qed

section \<open>Insertions\<close>

text \<open>A node with data \<open>d\<close> has been inserted between \<open>as\<close> and \<open>bs\<close>, and nothing else has happened.\<close>

definition ins_ok ::
  "'d lmem \<Rightarrow> 'd llist \<Rightarrow> nat list \<Rightarrow> nat list \<Rightarrow> 'd \<Rightarrow> 'd lmem \<Rightarrow> 'd llist \<Rightarrow> nat \<Rightarrow> bool" where
  "ins_ok m l as bs d m' l' a \<longleftrightarrow>
     lrep m' l' (as @ a # bs) \<and> lvals m' (as @ a # bs) = lvals m as @ d # lvals m bs
     \<and> a = lm_next m \<and> lm_next m' = Suc (lm_next m) \<and> lm_log m' = lm_log m
     \<and> (\<forall>b. b \<notin> set (as @ a # bs) \<longrightarrow> lm_cells m' b = lm_cells m b)
     \<and> ll_cmp l' = ll_cmp l \<and> ll_del l' = ll_del l"

lemma ins_okI:
  assumes "lrep m l (as @ bs)"
    and "listnode_new m \<lparr>ln_next = hd_ptr bs None, ln_prev = last_ptr None as, ln_data = Some d\<rparr> = (m1, a)"
    and "lrep m' (linked_list l as bs a) (as @ a # bs)" "relinked (set as \<union> set bs) m1 m'"
  shows "ins_ok m l as bs d m' (linked_list l as bs a) a"
proof -
  note new = ready_new [OF assms(1,2)]
  have "a \<notin> set (as @ bs)" using new(1) by (simp add: ready_def)
  then have "node_data m' b = node_data m b" if "b \<in> set (as @ bs)" for b
    using that assms(4) new(5) [of b] by (cases "b = a") (auto simp: relinked_def node_data_def)
  moreover have "node_data m' a = d" using assms(4) new(3) by (simp add: relinked_def)
  moreover have "lm_next m' = Suc (lm_next m)"
    using assms(2,4) by (auto simp: relinked_def listnode_new_def)
  ultimately show ?thesis
    using assms(3,4) new by (auto simp: ins_ok_def lvals_def relinked_def)
qed

lemma listnode_add_before_spec:
  assumes "lrep m l (as @ bs)"
  shows "\<exists>m' l' a. listnode_add_before m l (hd_ptr bs None) (Some d) = Some (m', l', a)
           \<and> ins_ok m l as bs d m' l' a"
proof -
  obtain m1 a where new: "listnode_new m \<lparr>ln_next = hd_ptr bs None, ln_prev = last_ptr None as, ln_data = Some d\<rparr> = (m1, a)"
    by fastforce
  note r = ready_new(1) [OF assms new]
  have pv: "(case hd_ptr bs None of None \<Rightarrow> Some (ll_tail l) | Some p \<Rightarrow> map_option ln_prev (lm_cells m p))
      = Some (last_ptr None as)"
    using assms by (cases bs) (auto simp: lrep_def dseg_append)
  from insert_fwd_bwd [OF r] obtain m2 l2 m3 l3 where
    i: "link_fwd m1 l (last_ptr None as) (Some a) = Some (m2, l2)"
      "link_bwd m2 l2 (hd_ptr bs None) (Some a) = Some (m3, l3)"
      "l3\<lparr>ll_count := ll_count l3 + 1\<rparr> = linked_list l as bs a"
      "lrep m3 (linked_list l as bs a) (as @ a # bs)" "relinked (set as \<union> set bs) m1 m3"
    by blast
  have "listnode_add_before m l (hd_ptr bs None) (Some d) = Some (m3, linked_list l as bs a, a)"
    using pv new i by (simp add: listnode_add_before_def)
  then show ?thesis using ins_okI [OF assms new i(4,5)] by blast
qed

lemma listnode_add_after_spec:
  assumes "lrep m l (as @ bs)"
  shows "\<exists>m' l' a. listnode_add_after m l (last_ptr None as) (Some d) = Some (m', l', a)
           \<and> ins_ok m l as bs d m' l' a"
proof -
  obtain m1 a where new: "listnode_new m \<lparr>ln_next = hd_ptr bs None, ln_prev = last_ptr None as, ln_data = Some d\<rparr> = (m1, a)"
    by fastforce
  note r = ready_new(1) [OF assms new]
  have nx: "(case last_ptr None as of None \<Rightarrow> Some (ll_head l) | Some p \<Rightarrow> map_option ln_next (lm_cells m p))
      = Some (hd_ptr bs None)"
    using assms by (cases as rule: rev_cases) (auto simp: lrep_def dseg_append)
  from insert_bwd_fwd [OF r] obtain m2 l2 m3 l3 where
    i: "link_bwd m1 l (hd_ptr bs None) (Some a) = Some (m2, l2)"
      "link_fwd m2 l2 (last_ptr None as) (Some a) = Some (m3, l3)"
      "l3\<lparr>ll_count := ll_count l3 + 1\<rparr> = linked_list l as bs a"
      "lrep m3 (linked_list l as bs a) (as @ a # bs)" "relinked (set as \<union> set bs) m1 m3"
    by blast
  have "listnode_add_after m l (last_ptr None as) (Some d) = Some (m3, linked_list l as bs a, a)"
    using nx new i by (simp add: listnode_add_after_def)
  then show ?thesis using ins_okI [OF assms new i(4,5)] by blast
qed

text \<open>The other insertions do what \<open>listnode_add_before\<close> does.\<close>

lemma listnode_add_eq:
  assumes "lrep m l as"
  shows "listnode_add m l (Some d) = listnode_add_before m l None (Some d)"
proof (cases as rule: rev_cases)
  case Nil
  then have "ll_head l = None" "ll_tail l = None" using assms by (auto simp: lrep_def)
  then show ?thesis
    by (simp add: listnode_add_def listnode_add_before_def link_fwd_def link_bwd_def split: prod.split)
next
  case (snoc as' a)
  then have "ll_head l \<noteq> None" "ll_tail l = Some a" using assms by (auto simp: lrep_def ptr_ne)
  then show ?thesis
    by (auto simp: listnode_add_def listnode_add_before_def link_fwd_def link_bwd_def split: prod.split
        Option.bind_split)
qed

lemma listnode_add_spec:
  assumes "lrep m l as"
  shows "\<exists>m' l' a. listnode_add m l (Some d) = Some (m', l', a) \<and> ins_ok m l as [] d m' l' a"
  using listnode_add_before_spec [of m l as "[]" d] assms by (simp add: listnode_add_eq)

lemma insert_before_node_eq:
  assumes "lrep m l (as @ b # bs)"
  shows "insert_before_node m l b (Some d)
    = map_option (\<lambda>(m', l', _). (m', l')) (listnode_add_before m l (Some b) (Some d))"
proof -
  obtain d0 where "lm_cells m b = Some \<lparr>ln_next = hd_ptr bs None, ln_prev = last_ptr None as, ln_data = Some d0\<rparr>"
    using assms by (auto simp: lrep_def dseg_append)
  then show ?thesis
    by (auto simp: insert_before_node_def listnode_add_before_def link_bwd_def split: prod.split Option.bind_split)
qed

lemma insert_before_node_spec:
  assumes "lrep m l (as @ b # bs)"
  shows "\<exists>m' l' a. insert_before_node m l b (Some d) = Some (m', l') \<and> ins_ok m l as (b # bs) d m' l' a"
  using listnode_add_before_spec [OF assms, of d] by (auto simp: insert_before_node_eq [OF assms])

lemma listnode_add_head_spec:
  assumes "lrep m l as" "as \<noteq> []"
  shows "\<exists>m' l' a. listnode_add_head m l (Some d) = Some (m', l') \<and> ins_ok m l [] as d m' l' a"
proof -
  obtain b bs where as: "as = b # bs" using assms(2) by (cases as) auto
  then have h: "ll_head l = Some b" using assms(1) by (simp add: lrep_def)
  have "listnode_add_head m l (Some d)
      = map_option (\<lambda>(m', l', _). (m', l')) (listnode_add_after m l None (Some d))"
    using h by (auto simp: listnode_add_head_def listnode_add_after_def link_bwd_def link_fwd_def
        split: prod.split Option.bind_split)
  then show ?thesis using listnode_add_after_spec [of m l "[]" as d] assms(1) by auto
qed

section \<open>Searching and sorted insertion\<close>

declare find_from.simps [code]

lemma dseg_cell:
  assumes "dseg m p (a # as) None"
  shows "lm_cells m a = Some \<lparr>ln_next = hd_ptr as None, ln_prev = p, ln_data = Some (node_data m a)\<rparr>"
  using assms by (auto simp: node_data_def)

lemma find_from_spec:
  "dseg m p as None \<Longrightarrow>
   find_from m P (hd_ptr as None) = Some (hd_ptr (dropWhile (\<lambda>a. \<not> P (node_data m a)) as) None)"
proof (induction as arbitrary: p)
  case Nil
  then show ?case by (subst find_from.simps) simp
next
  case (Cons a as)
  note cell = dseg_cell [OF Cons.prems]
  show ?case
    using cell Cons.IH [of "Some a"] Cons.prems by (subst find_from.simps) simp
qed

lemma find_total: "lrep m l as \<Longrightarrow> \<exists>r. find_from m P (ll_head l) = Some r"
  using find_from_spec [of m None as P] by (simp add: lrep_def)

definition ins_sorted :: "('d \<Rightarrow> bool) \<Rightarrow> 'd \<Rightarrow> 'd list \<Rightarrow> 'd list" where
  "ins_sorted P v ds = takeWhile (\<lambda>d. \<not> P d) ds @ v # dropWhile (\<lambda>d. \<not> P d) ds"

lemma lvals_while:
  "lvals m (takeWhile (\<lambda>a. Q (node_data m a)) as) = takeWhile Q (lvals m as)"
  "lvals m (dropWhile (\<lambda>a. Q (node_data m a)) as) = dropWhile Q (lvals m as)"
  by (simp_all add: lvals_def takeWhile_map dropWhile_map comp_def)

text \<open>Insertion before the first node satisfying \<open>P\<close>, at the end when there is none.\<close>

lemma insert_at_found:
  assumes "lrep m l as" "find_from m P (ll_head l) = Some (Some b)"
  shows "\<exists>m' l' as'. insert_before_node m l b (Some v) = Some (m', l') \<and> lrep m' l' as'
           \<and> lvals m' as' = ins_sorted P v (lvals m as) \<and> ll_cmp l' = ll_cmp l"
proof -
  let ?as = "takeWhile (\<lambda>a. \<not> P (node_data m a)) as" and ?bs = "dropWhile (\<lambda>a. \<not> P (node_data m a)) as"
  have "find_from m P (ll_head l) = Some (hd_ptr ?bs None)"
    using assms(1) find_from_spec by (auto simp: lrep_def)
  then obtain bs where bs: "?bs = b # bs" using assms(2) by (cases ?bs) simp_all
  have "as = ?as @ b # bs" using takeWhile_dropWhile_id [of "\<lambda>a. \<not> P (node_data m a)" as] bs by simp
  then have "lrep m l (?as @ b # bs)" using assms(1) by simp
  from insert_before_node_spec [OF this, of v] obtain m' l' a where
    i: "insert_before_node m l b (Some v) = Some (m', l')" "ins_ok m l ?as (b # bs) v m' l' a"
    by blast
  then show ?thesis
    unfolding bs [symmetric]
    by (intro exI [of _ m'] exI [of _ l'] exI [of _ "?as @ a # ?bs"])
      (auto simp: ins_ok_def ins_sorted_def lvals_while [of m "\<lambda>d. \<not> P d" as])
qed

lemma find_none:
  assumes "lrep m l as" "find_from m P (ll_head l) = Some None"
  shows "ins_sorted P v (lvals m as) = lvals m as @ [v]"
proof -
  have "find_from m P (ll_head l) = Some (hd_ptr (dropWhile (\<lambda>a. \<not> P (node_data m a)) as) None)"
    using assms(1) find_from_spec by (auto simp: lrep_def)
  then have "dropWhile (\<lambda>a. \<not> P (node_data m a)) as = []"
    using assms(2) by (cases "dropWhile (\<lambda>a. \<not> P (node_data m a)) as") simp_all
  then have "\<forall>d \<in> set (lvals m as). \<not> P d" by (auto simp: dropWhile_eq_Nil_conv lvals_def)
  then show ?thesis by (simp add: ins_sorted_def takeWhile_eq_all_conv dropWhile_eq_Nil_conv)
qed

lemma add_sort_tail_eq:
  assumes "lrep m l as"
  shows "(let (m1, a) = listnode_new m \<lparr>ln_next = None, ln_prev = ll_tail l, ln_data = Some v\<rparr>
          in do { (m2, l1) \<leftarrow> link_fwd m1 l (ll_tail l) (Some a);
                  Some (m2, l1\<lparr>ll_tail := Some a, ll_count := ll_count l1 + 1\<rparr>) })
    = map_option (\<lambda>(m', l', _). (m', l')) (listnode_add_before m l None (Some v))"
  by (auto simp: listnode_add_before_def link_bwd_def split: prod.split Option.bind_split)

lemma listnode_add_sort_spec:
  assumes "lrep m l as" "ll_cmp l = Some c"
  shows "\<exists>m' l' as'. listnode_add_sort m l (Some v) = Some (m', l') \<and> lrep m' l' as'
           \<and> lvals m' as' = ins_sorted (\<lambda>d. c v d < 0) v (lvals m as) \<and> ll_cmp l' = Some c"
proof -
  obtain r where r: "find_from m (\<lambda>d. c v d < 0) (ll_head l) = Some r"
    using find_total [OF assms(1)] by blast
  show ?thesis
  proof (cases r)
    case (Some b)
    then show ?thesis
      using insert_at_found [OF assms(1), of "\<lambda>d. c v d < 0" b v] r assms(2)
      by (auto simp: listnode_add_sort_def)
  next
    case None
    have "listnode_add_sort m l (Some v)
        = map_option (\<lambda>(m', l', _). (m', l')) (listnode_add_before m l None (Some v))"
      using r None assms(2) add_sort_tail_eq [OF assms(1), of v] by (simp add: listnode_add_sort_def Let_def)
    moreover obtain m' l' a where "listnode_add_before m l None (Some v) = Some (m', l', a)"
      "ins_ok m l as [] v m' l' a"
      using listnode_add_before_spec [of m l as "[]" v] assms(1) by auto
    ultimately show ?thesis
      using find_none [OF assms(1)] r None assms(2) by (auto simp: ins_ok_def lvals_def)
  qed
qed

lemma sorted_ins_sorted:
  assumes c: "comparator c" and "sorted_wrt (\<lambda>x y. c x y \<le> 0) ds"
  shows "sorted_wrt (\<lambda>x y. c x y \<le> 0) (ins_sorted (\<lambda>d. c v d < 0) v ds)"
proof -
  let ?Q = "\<lambda>d. \<not> c v d < 0"
  have s: "sorted_wrt (\<lambda>x y. c x y \<le> 0) (takeWhile ?Q ds)" "sorted_wrt (\<lambda>x y. c x y \<le> 0) (dropWhile ?Q ds)"
    "\<forall>x \<in> set (takeWhile ?Q ds). \<forall>y \<in> set (dropWhile ?Q ds). c x y \<le> 0"
    using assms(2) sorted_wrt_append [of "\<lambda>x y. c x y \<le> 0" "takeWhile ?Q ds" "dropWhile ?Q ds"] by simp_all
  have lo: "c d v \<le> 0" if "d \<in> set (takeWhile ?Q ds)" for d
    using set_takeWhileD [OF that] comparator.cmp_not_less [OF c] by auto
  have hi: "c v d \<le> 0" if "d \<in> set (dropWhile ?Q ds)" for d
  proof (cases "dropWhile ?Q ds")
    case Nil
    then show ?thesis using that [unfolded Nil] by simp
  next
    case b: (Cons b bs)
    then have "c v b < 0" using hd_dropWhile [of ?Q ds] by (metis list.distinct(1) list.sel(1))
    moreover have "d = b \<or> c b d \<le> 0"
      using s(2) [unfolded b] that [unfolded b] by auto
    ultimately show ?thesis using comparator.cmp_trans [OF c, of v b d] by auto
  qed
  show ?thesis
    using s lo hi by (simp add: ins_sorted_def sorted_wrt_append)
qed

lemma mset_ins_sorted: "mset (ins_sorted P v ds) = add_mset v (mset ds)"
  using arg_cong [OF takeWhile_dropWhile_id [of "\<lambda>d. \<not> P d" ds], of mset]
  by (simp add: ins_sorted_def del: takeWhile_dropWhile_id)

section \<open>Removal\<close>

lemma list_delete_node_spec:
  assumes "lrep m l (as @ a # bs)"
  shows "\<exists>m' l'. list_delete_node m l a = Some (m', l') \<and> lrep m' l' (as @ bs)
           \<and> lvals m' (as @ bs) = lvals m (as @ bs) \<and> lm_cells m' a = None
           \<and> (\<forall>b. b \<notin> set (as @ a # bs) \<longrightarrow> lm_cells m' b = lm_cells m b) \<and> lm_log m' = lm_log m
           \<and> lm_next m' = lm_next m \<and> ll_cmp l' = ll_cmp l \<and> ll_del l' = ll_del l"
proof -
  obtain m1 l1 where d: "LISTNODE_DETACH m l a = Some (m1, l1)" "lrep m1 l1 (as @ bs)"
    "relinked (set (as @ bs)) m m1" "ll_cmp l1 = ll_cmp l" "ll_del l1 = ll_del l"
    using detach_spec [OF assms] by blast
  have a: "a \<notin> set (as @ bs)" using assms by (auto simp: lrep_def)
  have "dseg (listnode_free m1 a) None (as @ bs) None = dseg m1 None (as @ bs) None"
    by (rule dseg_cong) (use a in auto)
  then have "lrep (listnode_free m1 a) l1 (as @ bs)" using d(2) by (simp add: lrep_def)
  moreover have "lvals (listnode_free m1 a) (as @ bs) = lvals m (as @ bs)"
    using d(3) a by (auto simp: lvals_def node_data_def relinked_def fun_eq_iff)
  ultimately show ?thesis using d by (auto simp: list_delete_node_def relinked_def)
qed

lemma lrep_log [simp]: "lrep (m\<lparr>lm_log := x\<rparr>) l as = lrep m l as" "lvals (m\<lparr>lm_log := x\<rparr>) as = lvals m as"
proof -
  have "dseg (m\<lparr>lm_log := x\<rparr>) None as None = dseg m None as None" by (rule dseg_cong) simp
  then show "lrep (m\<lparr>lm_log := x\<rparr>) l as = lrep m l as" by (simp add: lrep_def)
  show "lvals (m\<lparr>lm_log := x\<rparr>) as = lvals m as" by (simp add: lvals_def node_data_def)
qed

lemma lvals_simps [simp]: "lvals m [] = []" "lvals m (a # as) = node_data m a # lvals m as"
  "lvals m (as @ bs) = lvals m as @ lvals m bs"
  by (simp_all add: lvals_def)

lemma length_lvals [simp]: "length (lvals m as) = length as"
  by (simp add: lvals_def)

lemma lrep_cell:
  assumes "lrep m l (as @ a # bs)"
  shows "lm_cells m a = Some \<lparr>ln_next = hd_ptr bs None, ln_prev = last_ptr None as, ln_data = Some (node_data m a)\<rparr>"
  using assms by (auto simp: lrep_def dseg_append node_data_def)

definition hits :: "('d \<Rightarrow> bool) ptr \<Rightarrow> 'd \<Rightarrow> bool" where
  "hits cond d = (case cond of None \<Rightarrow> True | Some c \<Rightarrow> c d)"

lemma filter_from_spec:
  "lrep m l (ks @ rs) \<Longrightarrow>
   \<exists>m' l' as. filter_from cond (m, l) (hd_ptr rs None) = Some (m', l') \<and> lrep m' l' as
     \<and> lvals m' as = lvals m ks @ filter (\<lambda>d. \<not> hits cond d) (lvals m rs)
     \<and> lm_log m' = lm_log m @ (if ll_del l then filter (hits cond) (lvals m rs) else [])"
proof (induction rs arbitrary: ks m l)
  case Nil
  then show ?case by (subst filter_from.simps) auto
next
  case (Cons a rs)
  note cell = lrep_cell [OF Cons.prems]
  let ?d = "node_data m a"
  show ?case
  proof (cases "hits cond ?d")
    case True
    let ?m = "call_del m l (Some ?d)"
    have log: "lm_log ?m = lm_log m @ (if ll_del l then [?d] else [])" and
      eq: "?m = m\<lparr>lm_log := lm_log ?m\<rparr>" by (simp_all add: call_del_def)
    have "lrep ?m l (ks @ a # rs)" using Cons.prems lrep_log(1) eq by metis
    then obtain m1 l1 where d: "list_delete_node ?m l a = Some (m1, l1)" "lrep m1 l1 (ks @ rs)"
      "lvals m1 (ks @ rs) = lvals ?m (ks @ rs)" "lm_log m1 = lm_log ?m" "ll_del l1 = ll_del l"
      using list_delete_node_spec by blast
    have v: "lvals m1 ks = lvals m ks" "lvals m1 rs = lvals m rs"
      using d(3) lrep_log(2) eq by (metis append_eq_append_conv length_lvals lvals_simps(3))+
    obtain m' l' as where "filter_from cond (m1, l1) (hd_ptr rs None) = Some (m', l')" "lrep m' l' as"
      "lvals m' as = lvals m1 ks @ filter (\<lambda>d. \<not> hits cond d) (lvals m1 rs)"
      "lm_log m' = lm_log m1 @ (if ll_del l1 then filter (hits cond) (lvals m1 rs) else [])"
      using Cons.IH [OF d(2)] by blast
    moreover from this(1) have "filter_from cond (m, l) (hd_ptr (a # rs) None) = Some (m', l')"
      using cell d(1) True by (subst filter_from.simps) (simp add: hits_def)
    ultimately show ?thesis using True log d v by auto
  next
    case False
    obtain m' l' as where "filter_from cond (m, l) (hd_ptr rs None) = Some (m', l')" "lrep m' l' as"
      "lvals m' as = lvals m (ks @ [a]) @ filter (\<lambda>d. \<not> hits cond d) (lvals m rs)"
      "lm_log m' = lm_log m @ (if ll_del l then filter (hits cond) (lvals m rs) else [])"
      using Cons.IH [of m l "ks @ [a]"] Cons.prems by auto
    moreover from this(1) have "filter_from cond (m, l) (hd_ptr (a # rs) None) = Some (m', l')"
      using cell False by (subst filter_from.simps) (simp add: hits_def)
    ultimately show ?thesis using False by auto
  qed
qed

lemma attach_spec:
  assumes "lrep m l as" "a \<notin> set as" "lm_cells m a = Some n" "ln_data n = Some d" "a < lm_next m"
  shows "\<exists>m' l'. LISTNODE_ATTACH m l a = Some (m', l') \<and> lrep m' l' (as @ [a]) \<and> node_data m' = node_data m
           \<and> ll_cmp l' = ll_cmp l \<and> ll_del l' = ll_del l"
proof -
  let ?m = "put_node m a \<lparr>ln_next = None, ln_prev = ll_tail l, ln_data = Some d\<rparr>"
  have two: "put_node (put_node m a (n\<lparr>ln_prev := ll_tail l\<rparr>)) a (n\<lparr>ln_prev := ll_tail l, ln_next := None\<rparr>) = ?m"
    using assms(4) by (cases n) (simp add: put_node_def)
  have nd: "node_data ?m = node_data m" using assms(3,4) by (auto simp: node_data_def fun_eq_iff)
  have r: "ready ?m l as [] a d"
    using assms dseg_put_node [OF assms(2), of m _ None None] by (auto simp: ready_def lrep_def)
  obtain m2 l1 m3 l2 where i: "link_fwd ?m l (last_ptr None as) (Some a) = Some (m2, l1)"
    "link_bwd m2 l1 None (Some a) = Some (m3, l2)"
    "l2\<lparr>ll_count := ll_count l2 + 1\<rparr> = linked_list l as [] a"
    "lrep m3 (linked_list l as [] a) (as @ [a])" "relinked (set as) ?m m3"
    using insert_fwd_bwd [OF r] by auto
  have fwd: "link_fwd ?m l (last_ptr None as) (Some a)
      = (if ll_head l = None then Some (?m, l\<lparr>ll_head := Some a\<rparr>)
         else do { t \<leftarrow> ll_tail l; m3 \<leftarrow> put_next ?m t (Some a); Some (m3, l) })"
    using assms(1) by (cases as rule: rev_cases) (auto simp: lrep_def link_fwd_def ptr_ne)
  have "m3 = m2" "l2 = l1\<lparr>ll_tail := Some a\<rparr>" using i(2) by (auto simp: link_bwd_def)
  moreover have "put_prev m a (ll_tail l) = Some (put_node m a (n\<lparr>ln_prev := ll_tail l\<rparr>))"
    "put_next (put_node m a (n\<lparr>ln_prev := ll_tail l\<rparr>)) a None = Some ?m"
    using assms(3) two by (simp_all add: put_prev_def put_next_def)
  ultimately have "LISTNODE_ATTACH m l a = Some (m3, linked_list l as [] a)"
    using i(1,3) unfolding LISTNODE_ATTACH_def fwd by simp
  then show ?thesis using i(4,5) nd by (auto simp: relinked_def)
qed

lemma delete_all_from_spec:
  "dseg m p rs None \<Longrightarrow> distinct rs \<Longrightarrow>
   \<exists>m'. delete_all_from l m (hd_ptr rs None) = Some m' \<and> (\<forall>a \<in> set rs. lm_cells m' a = None)
     \<and> (\<forall>a. a \<notin> set rs \<longrightarrow> lm_cells m' a = lm_cells m a)
     \<and> lm_log m' = lm_log m @ (if ll_del l then lvals m rs else [])"
proof (induction rs arbitrary: m p)
  case Nil
  then show ?case by (subst delete_all_from.simps) auto
next
  case (Cons a rs)
  note cell = dseg_cell [OF Cons.prems(1)]
  let ?m = "listnode_free (call_del m l (Some (node_data m a))) a"
  have cells: "lm_cells ?m = (lm_cells m)(a := None)" by (simp add: call_del_def)
  have a: "a \<notin> set rs" "distinct rs" using Cons.prems(2) by auto
  have "dseg ?m (Some a) rs None = dseg m (Some a) rs None" by (rule dseg_cong) (use a cells in auto)
  with Cons.prems have "dseg ?m (Some a) rs None" by simp
  from Cons.IH [OF this a(2)] obtain m' where m': "delete_all_from l ?m (hd_ptr rs None) = Some m'"
    "\<forall>b \<in> set rs. lm_cells m' b = None" "\<forall>b. b \<notin> set rs \<longrightarrow> lm_cells m' b = lm_cells ?m b"
    "lm_log m' = lm_log ?m @ (if ll_del l then lvals ?m rs else [])"
    by blast
  have "lvals ?m rs = lvals m rs" using a(1) cells by (auto simp: lvals_def node_data_def)
  moreover have "delete_all_from l m (hd_ptr (a # rs) None) = Some m'"
    using cell m'(1) by (subst delete_all_from.simps) simp
  ultimately show ?case using m' cells a by (auto simp: call_del_def)
qed

section \<open>Copying and sorting\<close>

lemma fold_add_spec:
  "lrep m l as \<Longrightarrow>
   \<exists>m' l' as'. fold_opt (\<lambda>d ml. do { (m', l', _) \<leftarrow> listnode_add (fst ml) (snd ml) d; Some (m', l') })
       (map Some ds) (m, l) = Some (m', l') \<and> lrep m' l' as' \<and> lvals m' as' = lvals m as @ ds
       \<and> lm_log m' = lm_log m"
proof (induction ds arbitrary: m l as)
  case Nil
  then show ?case by auto
next
  case (Cons d ds)
  obtain m1 l1 a where a: "listnode_add m l (Some d) = Some (m1, l1, a)" "ins_ok m l as [] d m1 l1 a"
    using listnode_add_spec [OF Cons.prems] by blast
  then have "lrep m1 l1 (as @ [a])" "lvals m1 (as @ [a]) = lvals m as @ [d]" "lm_log m1 = lm_log m"
    by (auto simp: ins_ok_def)
  with Cons.IH [of m1 l1 "as @ [a]"] a(1) show ?case by auto
qed

lemma sort_collect_spec:
  "lrep m l rs \<Longrightarrow> i + length rs \<le> length items \<Longrightarrow>
   \<exists>m' l'. sort_collect items i (m, l) (hd_ptr rs None)
       = Some (take i items @ map Some (lvals m rs) @ drop (i + length rs) items, m', l')
     \<and> lrep m' l' [] \<and> lm_log m' = lm_log m"
proof (induction rs arbitrary: m l i items)
  case Nil
  then show ?case by (subst sort_collect.simps) auto
next
  case (Cons a rs)
  have cell: "lm_cells m a = Some \<lparr>ln_next = hd_ptr rs None, ln_prev = None, ln_data = Some (node_data m a)\<rparr>"
    using lrep_cell [of m l "[]" a rs] Cons.prems(1) by simp
  obtain m1 l1 where d: "list_delete_node m l a = Some (m1, l1)" "lrep m1 l1 rs" "lvals m1 rs = lvals m rs"
    "lm_log m1 = lm_log m"
    using list_delete_node_spec [of m l "[]" a rs] Cons.prems(1) by auto
  let ?items = "items[i := Some (node_data m a)]"
  have i: "i < length items" using Cons.prems(2) by simp
  obtain m' l' where "sort_collect ?items (i + 1) (m1, l1) (hd_ptr rs None)
      = Some (take (i + 1) ?items @ map Some (lvals m1 rs) @ drop (i + 1 + length rs) ?items, m', l')"
    "lrep m' l' []" "lm_log m' = lm_log m1"
    using Cons.IH [OF d(2), of "i + 1" ?items] Cons.prems(2) by auto
  then show ?case
    using cell d i by (subst sort_collect.simps) (auto simp: wr_def take_Suc_conv_app_nth)
qed

text \<open>What \<open>qsort\<close> promises for a comparison \<open>c\<close>: a sorted rearrangement.\<close>

definition qsort_ok :: "('d \<Rightarrow> 'd \<Rightarrow> int) \<Rightarrow> ('d ptr list \<Rightarrow> 'd ptr list) \<Rightarrow> bool" where
  "qsort_ok c qsort \<longleftrightarrow>
     (\<forall>ds. \<exists>ds'. qsort (map Some ds) = map Some ds' \<and> mset ds' = mset ds \<and> sorted_wrt (\<lambda>x y. c x y \<le> 0) ds')"

lemma list_sort_spec:
  assumes "lrep m l as" "length as < 2 ^ 32" "qsort_ok c qsort"
  shows "\<exists>m' l' as'. list_sort qsort m l = Some (m', l') \<and> lrep m' l' as'
           \<and> mset (lvals m' as') = mset (lvals m as) \<and> sorted_wrt (\<lambda>x y. c x y \<le> 0) (lvals m' as')
           \<and> lm_log m' = lm_log m"
proof -
  have n: "unat (ll_count l) = length as" "ll_head l = hd_ptr as None"
    using assms(1,2) by (auto simp: lrep_def unat_of_nat_u32)
  obtain m1 l1 where c: "sort_collect (replicate (length as) None) 0 (m, l) (hd_ptr as None)
      = Some (map Some (lvals m as), m1, l1)" "lrep m1 l1 []" "lm_log m1 = lm_log m"
    using sort_collect_spec [OF assms(1), of 0 "replicate (length as) None"] by auto
  obtain ds where ds: "qsort (map Some (lvals m as)) = map Some ds" "mset ds = mset (lvals m as)"
    "sorted_wrt (\<lambda>x y. c x y \<le> 0) ds"
    using assms(3) unfolding qsort_ok_def by blast
  from fold_add_spec [OF c(2), of ds] ds c n show ?thesis
    by (auto simp: list_sort_def Let_def)
qed

lemma ins_ok_other:
  assumes "ins_ok m l as [] d m1 l1 a" "dseg m p rs None" "set rs \<inter> set as = {}" "set rs \<subseteq> {..<lm_next m}"
  shows "dseg m1 p rs None" "lvals m1 rs = lvals m rs" "a \<notin> set rs" "set rs \<subseteq> {..<lm_next m1}"
proof -
  show a: "a \<notin> set rs" using assms(1,4) by (auto simp: ins_ok_def)
  have same: "lm_cells m1 b = lm_cells m b" if "b \<in> set rs" for b
  proof -
    have "b \<notin> set (as @ [a])" using assms(3) that a by auto
    then show ?thesis using assms(1) by (simp add: ins_ok_def)
  qed
  then show "dseg m1 p rs None" using assms(2) dseg_cong [of rs m1 m] by blast
  show "lvals m1 rs = lvals m rs" using same by (simp add: lvals_def node_data_def)
  show "set rs \<subseteq> {..<lm_next m1}" using assms(1,4) by (auto simp: ins_ok_def)
qed

lemma add_list_from_spec:
  "lrep m l as \<Longrightarrow> dseg m p rs None \<Longrightarrow> set rs \<inter> set as = {} \<Longrightarrow> set rs \<subseteq> {..<lm_next m} \<Longrightarrow>
   \<exists>m' l' as'. add_list_from (m, l) (hd_ptr rs None) = Some (m', l') \<and> lrep m' l' as'
     \<and> lvals m' as' = lvals m as @ lvals m rs \<and> ll_cmp l' = ll_cmp l \<and> ll_del l' = ll_del l
     \<and> (\<forall>b. b < lm_next m \<longrightarrow> b \<notin> set as \<longrightarrow> lm_cells m' b = lm_cells m b) \<and> lm_next m \<le> lm_next m'
     \<and> set as' \<subseteq> set as \<union> {lm_next m..}"
proof (induction rs arbitrary: m l as p)
  case Nil
  then show ?case by (subst add_list_from.simps) auto
next
  case (Cons b rs)
  obtain m1 l1 a where a: "listnode_add m l (Some (node_data m b)) = Some (m1, l1, a)"
    "ins_ok m l as [] (node_data m b) m1 l1 a"
    using listnode_add_spec [OF Cons.prems(1)] by blast
  note oth = ins_ok_other [OF a(2) Cons.prems(2-4)]
  have l1: "lrep m1 l1 (as @ [a])" "lvals m1 (as @ [a]) = lvals m as @ [node_data m b]"
    "ll_cmp l1 = ll_cmp l" "ll_del l1 = ll_del l" "lm_next m1 = Suc (lm_next m)" "a = lm_next m"
    using a(2) by (auto simp: ins_ok_def)
  have step: "add_list_from (m, l) (hd_ptr (b # rs) None) = add_list_from (m1, l1) (hd_ptr rs None)"
    using dseg_cell [OF Cons.prems(2)] dseg_cell [OF oth(1)] a(1) by (subst add_list_from.simps) simp
  obtain m' l' as' where i: "add_list_from (m1, l1) (hd_ptr rs None) = Some (m', l')" "lrep m' l' as'"
    "lvals m' as' = lvals m1 (as @ [a]) @ lvals m1 rs" "ll_cmp l' = ll_cmp l1" "ll_del l' = ll_del l1"
    "\<forall>b. b < lm_next m1 \<longrightarrow> b \<notin> set (as @ [a]) \<longrightarrow> lm_cells m' b = lm_cells m1 b" "lm_next m1 \<le> lm_next m'"
    "set as' \<subseteq> set (as @ [a]) \<union> {lm_next m1..}"
    using Cons.IH [OF l1(1), of "Some b"] oth Cons.prems(3) by auto
  have "lm_cells m' x = lm_cells m x" if "x < lm_next m" "x \<notin> set as" for x
    using i(6) l1 that a(2) by (auto simp: ins_ok_def)
  moreover have "set as' \<subseteq> set as \<union> {lm_next m..}" using i(8) l1(5,6) by auto
  ultimately show ?case using step i l1 oth by (intro exI [of _ m'] exI [of _ l'] exI [of _ as']) auto
qed

section \<open>Properties\<close>

text \<open>
  sorted insertion into a well-formed list sorted by the list's comparison succeeds and leaves a
  well-formed sorted list whose contents grew by exactly the new value, which is placed after all
  values that compare equal to it.
\<close>

theorem listnode_add_sort_sorted:
  assumes "lrep m l as" "ll_cmp l = Some c" "comparator c"
    and "sorted_wrt (\<lambda>x y. c x y \<le> 0) (lvals m as)"
  shows "\<exists>m' l' as'. listnode_add_sort m l (Some v) = Some (m', l') \<and> lrep m' l' as'
           \<and> sorted_wrt (\<lambda>x y. c x y \<le> 0) (lvals m' as') \<and> mset (lvals m' as') = add_mset v (mset (lvals m as))
           \<and> lvals m' as' = takeWhile (\<lambda>d. \<not> c v d < 0) (lvals m as) @ v # dropWhile (\<lambda>d. \<not> c v d < 0) (lvals m as)"
  using listnode_add_sort_spec [OF assms(1,2), of v] sorted_ins_sorted [OF assms(3,4), of v]
    mset_ins_sorted [of "\<lambda>d. c v d < 0" v "lvals m as"]
  unfolding ins_sorted_def by (elim exE conjE) (intro exI conjI; assumption?; simp only:)

text \<open>
  removing the nodes that satisfy a condition (all nodes, with a NULL condition) keeps the list
  well formed, keeps the other values in order, and calls the deletion callback, when there is one,
  on exactly the removed values in list order.
\<close>

theorem list_filter_out_nodes_correct:
  assumes "lrep m l as"
  shows "\<exists>m' l' as'. list_filter_out_nodes m l cond = Some (m', l') \<and> lrep m' l' as'
           \<and> lvals m' as' = filter (\<lambda>d. \<not> hits cond d) (lvals m as)
           \<and> lm_log m' = lm_log m @ (if ll_del l then filter (hits cond) (lvals m as) else [])"
  using filter_from_spec [of m l "[]" as cond] assms by (simp add: list_filter_out_nodes_def lrep_def)

text \<open>
  \<open>list_sort\<close> of a well-formed list of fewer than \<open>2 ^ 32\<close> nodes, with a \<open>qsort\<close> that sorts, gives
  a well-formed list with the same values in ascending order, and calls no deletion callback.
\<close>

theorem list_sort_sorts:
  assumes "lrep m l as" "length as < 2 ^ 32" "qsort_ok c qsort"
  shows "\<exists>m' l' as'. list_sort qsort m l = Some (m', l') \<and> lrep m' l' as'
           \<and> mset (lvals m' as') = mset (lvals m as) \<and> sorted_wrt (\<lambda>x y. c x y \<le> 0) (lvals m' as')
           \<and> lm_log m' = lm_log m"
  by (rule list_sort_spec [OF assms])

text \<open>
  moving a node of a well-formed list to the tail keeps every other node in order, all data, and
  the count.
\<close>

theorem listnode_move_to_tail_correct:
  assumes "lrep m l (as @ a # bs)"
  shows "\<exists>m' l'. listnode_move_to_tail m l a = Some (m', l') \<and> lrep m' l' (as @ bs @ [a])
           \<and> lvals m' (as @ bs @ [a]) = lvals m (as @ bs @ [a]) \<and> ll_count l' = ll_count l"
proof -
  obtain m1 l1 where d: "LISTNODE_DETACH m l a = Some (m1, l1)" "lrep m1 l1 (as @ bs)"
    "relinked (set (as @ bs)) m m1"
    using detach_spec [OF assms] by blast
  have a: "a \<notin> set (as @ bs)" "a < lm_next m1" using assms d(3) by (auto simp: lrep_def relinked_def)
  have cell: "lm_cells m1 a = lm_cells m a" using d(3) a(1) by (simp add: relinked_def)
  obtain m2 l2 where t: "LISTNODE_ATTACH m1 l1 a = Some (m2, l2)" "lrep m2 l2 ((as @ bs) @ [a])"
    "node_data m2 = node_data m1"
    using attach_spec [OF d(2) a(1) cell [unfolded lrep_cell [OF assms]] _ a(2)] by auto
  have "node_data m2 = node_data m" using t(3) d(3) by (simp add: relinked_def)
  then have "lvals m2 xs = lvals m xs" for xs by (simp add: lvals_def)
  moreover have "ll_count l2 = ll_count l" using t(2) assms by (simp add: lrep_def)
  ultimately show ?thesis
    using d(1) t(1,2) by (intro exI [of _ m2] exI [of _ l2]) (simp add: listnode_move_to_tail_def del: lvals_simps)
qed

text \<open>
  \<open>listnode_delete\<close> removes the first node holding the value, if there is one, and nothing else.
\<close>

theorem listnode_delete_correct:
  assumes "lrep m l as"
  shows "\<exists>m' l' as'. listnode_delete m l (Some v) = Some (m', l') \<and> lrep m' l' as'
           \<and> lvals m' as' = remove1 v (lvals m as) \<and> lm_log m' = lm_log m"
proof -
  let ?P = "\<lambda>d. Some v = Some d"
  let ?as = "takeWhile (\<lambda>a. \<not> ?P (node_data m a)) as" and ?bs = "dropWhile (\<lambda>a. \<not> ?P (node_data m a)) as"
  have f: "listnode_lookup m l (Some v) = Some (hd_ptr ?bs None)"
    using assms find_from_spec [of m None as ?P] by (simp add: lrep_def listnode_lookup_def)
  have split: "as = ?as @ ?bs" by simp
  have nv: "v \<notin> set (lvals m ?as)" using set_takeWhileD by (fastforce simp: lvals_def)
  show ?thesis
  proof (cases ?bs)
    case Nil
    then have "v \<notin> set (lvals m as)" by (auto simp: lvals_def dropWhile_eq_Nil_conv)
    then show ?thesis
      using f [unfolded Nil] assms by (intro exI [of _ m] exI [of _ l] exI [of _ as]) (simp add: listnode_delete_def remove1_idem)
  next
    case (Cons b bs)
    then have b: "node_data m b = v"
      using hd_dropWhile [of "\<lambda>a. \<not> ?P (node_data m a)" as] unfolding Cons by simp
    have as: "as = ?as @ b # bs" using split unfolding Cons .
    have "lrep m l (?as @ b # bs)" using assms unfolding as [symmetric] .
    from list_delete_node_spec [OF this] obtain m' l' where
      d: "list_delete_node m l b = Some (m', l')" "lrep m' l' (?as @ bs)"
        "lvals m' (?as @ bs) = lvals m (?as @ bs)" "lm_log m' = lm_log m"
      by blast
    have "remove1 v (lvals m as) = lvals m (?as @ bs)"
      using arg_cong [OF as, of "lvals m"] nv b by (simp add: remove1_append)
    then show ?thesis
      using f [unfolded Cons] d
      by (intro exI [of _ m'] exI [of _ l'] exI [of _ "?as @ bs"]) (simp add: listnode_delete_def)
  qed
qed

text \<open>
  duplicating a well-formed list gives a second, disjoint well-formed list with the same values,
  comparison and deletion callback, and leaves the original as it was.
\<close>

theorem list_dup_correct:
  assumes "lrep m l as"
  shows "\<exists>m' l' as'. list_dup m l = Some (m', l') \<and> lrep m' l' as' \<and> lvals m' as' = lvals m as
           \<and> ll_cmp l' = ll_cmp l \<and> ll_del l' = ll_del l
           \<and> lrep m' l as \<and> lvals m' as = lvals m as \<and> set as \<inter> set as' = {}"
proof -
  let ?l = "list_new\<lparr>ll_cmp := ll_cmp l, ll_del := ll_del l\<rparr>"
  have new: "lrep m ?l []" by (simp add: lrep_def list_new_def)
  have as: "dseg m None as None" "set as \<subseteq> {..<lm_next m}" "ll_head l = hd_ptr as None"
    using assms by (auto simp: lrep_def)
  obtain m' l' as' where d: "add_list_from (m, ?l) (hd_ptr as None) = Some (m', l')" "lrep m' l' as'"
    "lvals m' as' = lvals m as" "ll_cmp l' = ll_cmp l" "ll_del l' = ll_del l"
    "\<forall>b. b < lm_next m \<longrightarrow> lm_cells m' b = lm_cells m b" "lm_next m \<le> lm_next m'" "set as' \<subseteq> {lm_next m..}"
    using add_list_from_spec [OF new as(1) _ as(2)] by auto
  have same: "lm_cells m' b = lm_cells m b" if "b \<in> set as" for b using d(6) as(2) that by auto
  then have "dseg m' None as None" using as(1) dseg_cong [of as m' m] by blast
  then have "lrep m' l as" using assms d(7) by (auto simp: lrep_def)
  moreover have "lvals m' as = lvals m as" using same by (simp add: lvals_def node_data_def)
  moreover have "set as \<inter> set as' = {}" using d(8) as(2) by fastforce
  ultimately show ?thesis using d as(3) by (auto simp: list_dup_def)
qed

text \<open>
  \<open>listnode_add_head\<close> on an empty list leaves \<open>tail\<close> NULL, so the result is not a well-formed list
  and the next \<open>listnode_add\<close> dereferences NULL.
\<close>

theorem listnode_add_head_empty:
  assumes "lrep m l []"
  shows "\<exists>m' l'. listnode_add_head m l (Some v) = Some (m', l') \<and> ll_head l' \<noteq> None \<and> ll_tail l' = None
           \<and> (\<forall>as. \<not> lrep m' l' as) \<and> listnode_add m' l' (Some w) = None"
proof -
  have l: "ll_head l = None" "ll_tail l = None" using assms by (auto simp: lrep_def)
  let ?l = "l\<lparr>ll_head := Some (lm_next m), ll_count := ll_count l + 1\<rparr>"
  have add: "listnode_add m' ?l (Some w) = None" for m' :: "'a lmem"
    using l by (simp add: listnode_add_def listnode_new_def)
  have "\<not> lrep m' ?l as" for m' :: "'a lmem" and as
    using l by (cases as rule: rev_cases) (auto simp: lrep_def)
  with add l show ?thesis by (auto simp: listnode_add_head_def listnode_new_def)
qed

section \<open>A list of two integers\<close>

definition ex_lmem :: "int lmem" where
  "ex_lmem = \<lparr>lm_next = 2,
     lm_cells = [0 \<mapsto> \<lparr>ln_next = Some 1, ln_prev = None, ln_data = Some 3\<rparr>,
                 1 \<mapsto> \<lparr>ln_next = None, ln_prev = Some 0, ln_data = Some 7\<rparr>],
     lm_log = []\<rparr>"

definition ex_llist :: "int llist" where
  "ex_llist = \<lparr>ll_head = Some 0, ll_tail = Some 1, ll_count = 2, ll_cmp = Some (\<lambda>x y. x - y), ll_del = True\<rparr>"

lemma ex_lrep: "lrep ex_lmem ex_llist [0, 1]"
  by (simp add: lrep_def ex_lmem_def ex_llist_def last_ptr_def)

lemma ex_lvals: "lvals ex_lmem [0, 1] = [3, 7]"
  by (simp add: node_data_def ex_lmem_def)

lemma ex_minus_comparator: "comparator (\<lambda>x y :: int. x - y)"
  by unfold_locales auto

lemma ex_qsort_ok: "qsort_ok (\<lambda>x y :: int. x - y) (\<lambda>ps. map Some (sort (map the ps)))"
proof -
  have "sorted_wrt (\<lambda>x y. x - y \<le> 0) (sort ds)" for ds :: "int list"
    using sorted_sort [of ds] by simp
  then show ?thesis
    unfolding qsort_ok_def by (intro allI) (metis (no_types) comp_def id_apply list.map_comp list.map_id0 map_idI
        mset_sort option.sel)
qed

end
