(* ===== verification/Hash.thy ===== *)
theory Hash
  imports C_Prelude "HOL-Library.Multiset"
begin

text \<open>
  The chained hash table of \<open>libvui/src/vui/lib/hash.c\<close> and its hash functions.

  A bucket chain is the list of its \<open>struct hash_bucket\<close>s, in link order. Sizes and keys are 32-bit
  words, \<open>count\<close> and the statistics 64-bit words. An access outside the index array is \<^term>\<open>None\<close>.
  The global list of all tables, which only serves the display of statistics, is left out.
\<close>

record 'd bucket =
  hb_len :: int
  hb_key :: u32
  hb_data :: 'd

record 'd hash =
  hs_index :: "'d bucket list list"
  hs_size :: u32
  hs_max_size :: u32
  hs_key :: "'d \<Rightarrow> u32"
  hs_cmp :: "'d \<Rightarrow> 'd \<Rightarrow> bool"
  hs_count :: u64
  hs_empty :: u64
  hs_ssq :: u64

section \<open>The table\<close>

definition HASH_INITIAL_SIZE :: u32 where "HASH_INITIAL_SIZE = 256"

definition HASH_THRESHOLD :: "u64 \<Rightarrow> u32 \<Rightarrow> bool" where
  "HASH_THRESHOLD used sz \<longleftrightarrow> used > ucast sz"

definition hash_create_size :: "u32 \<Rightarrow> ('d \<Rightarrow> u32) \<Rightarrow> ('d \<Rightarrow> 'd \<Rightarrow> bool) \<Rightarrow> 'd hash option" where
  "hash_create_size sz hash_key hash_cmp =
     do { c_assert (sz AND (sz - 1) = 0);
          Some \<lparr>hs_index = replicate (unat sz) [], hs_size = sz, hs_max_size = 0, hs_key = hash_key,
                hs_cmp = hash_cmp, hs_count = 0, hs_empty = ucast sz, hs_ssq = 0\<rparr> }"

definition hash_create :: "('d \<Rightarrow> u32) \<Rightarrow> ('d \<Rightarrow> 'd \<Rightarrow> bool) \<Rightarrow> 'd hash option" where
  "hash_create hash_key hash_cmp = hash_create_size HASH_INITIAL_SIZE hash_key hash_cmp"

text \<open>
  Linking a bucket at the head of a chain, with the length kept in the chain's head only; \<open>hash_expand\<close>
  and \<open>hash_get\<close> both do this. The result has the changes of \<open>empty\<close> and \<open>ssq\<close>.
\<close>

definition chain_len :: "'d bucket list \<Rightarrow> int" where
  "chain_len ch = (case ch of [] \<Rightarrow> 0 | b # _ \<Rightarrow> hb_len b)"

definition chain_push :: "'d bucket \<Rightarrow> 'd bucket list \<Rightarrow> ('d bucket list \<times> u64 \<times> u64) option" where
  "chain_push hb ch =
     (let oldlen = chain_len ch; newlen = oldlen + 1
      in do { (rest, de) \<leftarrow> (if newlen = 1 then Some (ch, - 1)
                            else case ch of [] \<Rightarrow> None | b # bs \<Rightarrow> Some (b\<lparr>hb_len := 0\<rparr> # bs, 0));
              Some (hb\<lparr>hb_len := newlen\<rparr> # rest, de, of_int ((newlen + oldlen) * (newlen - oldlen))) })"

definition bucket_index :: "u32 \<Rightarrow> u32 \<Rightarrow> nat" where
  "bucket_index sz key = unat (key AND (sz - 1))"

text \<open>All buckets in the order in which the loops over the index array meet them.\<close>

definition hash_buckets :: "'d hash \<Rightarrow> 'd bucket list option" where
  "hash_buckets h =
     (if unat (hs_size h) \<le> length (hs_index h)
      then Some (concat (take (unat (hs_size h)) (hs_index h))) else None)"

definition rehash_bucket ::
  "u32 \<Rightarrow> 'd bucket \<Rightarrow> 'd bucket list list \<times> u64 \<times> u64 \<Rightarrow> ('d bucket list list \<times> u64 \<times> u64) option" where
  "rehash_bucket new_size hb st =
     (case st of (new_index, emp, ssq) \<Rightarrow>
        do { ch \<leftarrow> rd new_index (bucket_index new_size (hb_key hb));
             (ch', de, dq) \<leftarrow> chain_push hb ch;
             new_index' \<leftarrow> wr new_index (bucket_index new_size (hb_key hb)) ch';
             Some (new_index', emp + de, ssq + dq) })"

definition hash_expand :: "'d hash \<Rightarrow> 'd hash option" where
  "hash_expand h =
     (let new_size = hs_size h * 2
      in if hs_max_size h \<noteq> 0 \<and> new_size > hs_max_size h then Some h
         else do { bs \<leftarrow> hash_buckets h;
                   (new_index, emp, ssq) \<leftarrow>
                     fold_opt (rehash_bucket new_size) bs (replicate (unat new_size) [], ucast new_size, hs_ssq h);
                   Some (h\<lparr>hs_index := new_index, hs_size := new_size, hs_empty := emp, hs_ssq := ssq\<rparr>) })"

definition hash_alloc_intern :: "'d \<Rightarrow> 'd ptr" where
  "hash_alloc_intern arg = Some arg"

definition bucket_matches :: "'d hash \<Rightarrow> u32 \<Rightarrow> 'd \<Rightarrow> 'd bucket \<Rightarrow> bool" where
  "bucket_matches h key data b \<longleftrightarrow> hb_key b = key \<and> hs_cmp h (hb_data b) data"

text \<open>\<open>alloc_func\<close> is a possibly NULL function pointer whose result may be NULL.\<close>

definition hash_get :: "'d hash \<Rightarrow> 'd \<Rightarrow> ('d \<Rightarrow> 'd ptr) ptr \<Rightarrow> ('d hash \<times> 'd ptr) option" where
  "hash_get h data alloc_func =
     (if alloc_func = None \<and> hs_count h = 0 then Some (h, None)
      else let key = hs_key h data
           in do { ch \<leftarrow> rd (hs_index h) (bucket_index (hs_size h) key);
                   case find (bucket_matches h key data) ch of
                     Some b \<Rightarrow> Some (h, Some (hb_data b))
                   | None \<Rightarrow>
                       (case alloc_func of
                          None \<Rightarrow> Some (h, None)
                        | Some f \<Rightarrow>
                            (case f data of
                               None \<Rightarrow> Some (h, None)
                             | Some newdata \<Rightarrow>
                                 do { h1 \<leftarrow> (if HASH_THRESHOLD (hs_count h + 1) (hs_size h)
                                             then hash_expand h else Some h);
                                      let ix = bucket_index (hs_size h1) key;
                                      ch1 \<leftarrow> rd (hs_index h1) ix;
                                      (ch', de, dq) \<leftarrow> chain_push \<lparr>hb_len = 0, hb_key = key, hb_data = newdata\<rparr> ch1;
                                      index' \<leftarrow> wr (hs_index h1) ix ch';
                                      Some (h1\<lparr>hs_index := index', hs_count := hs_count h1 + 1,
                                               hs_empty := hs_empty h1 + de, hs_ssq := hs_ssq h1 + dq\<rparr>,
                                            Some newdata) })) })"

definition hash_lookup :: "'d hash \<Rightarrow> 'd \<Rightarrow> 'd ptr option" where
  "hash_lookup h data = map_option snd (hash_get h data None)"

text \<open>Unlinking the first matching bucket of a chain.\<close>

fun chain_unlink :: "('d bucket \<Rightarrow> bool) \<Rightarrow> 'd bucket list \<Rightarrow> ('d bucket \<times> 'd bucket list) ptr" where
  "chain_unlink P [] = None"
| "chain_unlink P (b # bs) =
     (if P b then Some (b, bs)
      else case chain_unlink P bs of None \<Rightarrow> None | Some (x, bs') \<Rightarrow> Some (x, b # bs'))"

definition set_head_len :: "int \<Rightarrow> 'd bucket list \<Rightarrow> 'd bucket list" where
  "set_head_len n ch = (case ch of [] \<Rightarrow> [] | b # bs \<Rightarrow> b\<lparr>hb_len := n\<rparr> # bs)"

definition hash_release :: "'d hash \<Rightarrow> 'd \<Rightarrow> ('d hash \<times> 'd ptr) option" where
  "hash_release h data =
     (let key = hs_key h data; ix = bucket_index (hs_size h) key
      in do { ch \<leftarrow> rd (hs_index h) ix;
              case chain_unlink (bucket_matches h key data) ch of
                None \<Rightarrow> Some (h, None)
              | Some (b, ch') \<Rightarrow>
                  let oldlen = chain_len ch; newlen = oldlen - 1
                  in do { index' \<leftarrow> wr (hs_index h) ix (set_head_len newlen ch');
                          Some (h\<lparr>hs_index := index', hs_count := hs_count h - 1,
                                  hs_empty := hs_empty h + (if ch' = [] then 1 else 0),
                                  hs_ssq := hs_ssq h + of_int ((newlen + oldlen) * (newlen - oldlen))\<rparr>,
                                Some (hb_data b)) } })"

text \<open>Iteration, with callbacks that do not change the table; \<open>hash_walk\<close> stops at \<open>HASHWALK_ABORT\<close>.\<close>

definition hash_iterate :: "'d hash \<Rightarrow> ('d bucket \<Rightarrow> 's \<Rightarrow> 's) \<Rightarrow> 's \<Rightarrow> 's option" where
  "hash_iterate h func arg = do { bs \<leftarrow> hash_buckets h; Some (fold func bs arg) }"

definition HASHWALK_ABORT :: int where "HASHWALK_ABORT = - 1"

fun walk_buckets :: "('d bucket \<Rightarrow> 's \<Rightarrow> int \<times> 's) \<Rightarrow> 'd bucket list \<Rightarrow> 's \<Rightarrow> 's" where
  "walk_buckets func [] arg = arg"
| "walk_buckets func (b # bs) arg =
     (case func b arg of (ret, arg') \<Rightarrow> if ret = HASHWALK_ABORT then arg' else walk_buckets func bs arg')"

definition hash_walk :: "'d hash \<Rightarrow> ('d bucket \<Rightarrow> 's \<Rightarrow> int \<times> 's) \<Rightarrow> 's \<Rightarrow> 's option" where
  "hash_walk h func arg = do { bs \<leftarrow> hash_buckets h; Some (walk_buckets func bs arg) }"

definition hash_to_list :: "'d hash \<Rightarrow> 'd list option" where
  "hash_to_list h = hash_iterate h (\<lambda>b ds. ds @ [hb_data b]) []"

text \<open>\<open>hash_clean\<close> returns the table and the data handed to \<open>free_func\<close>, in call order.\<close>

definition hash_clean :: "'d hash \<Rightarrow> bool \<Rightarrow> ('d hash \<times> 'd list) option" where
  "hash_clean h free_func =
     do { bs \<leftarrow> hash_buckets h;
          Some (h\<lparr>hs_index := replicate (unat (hs_size h)) [] @ drop (unat (hs_size h)) (hs_index h),
                  hs_count := hs_count h - of_nat (length bs), hs_ssq := 0, hs_empty := ucast (hs_size h)\<rparr>,
                if free_func then map hb_data bs else []) }"

section \<open>Hash functions\<close>

text \<open>The characters of a string are signed, so the cast to \<open>unsigned int\<close> sign-extends.\<close>

definition string_hash_make :: "8 word list \<Rightarrow> u32" where
  "string_hash_make str = fold (\<lambda>ch hash. (hash * 33) XOR (signed ch :: u32)) (takeWhile (\<lambda>ch. ch \<noteq> 0) str) 0"

definition JHASH_GOLDEN_RATIO :: u32 where "JHASH_GOLDEN_RATIO = 0x9e3779b9"

definition jhash_mix :: "u32 \<times> u32 \<times> u32 \<Rightarrow> u32 \<times> u32 \<times> u32" where
  "jhash_mix s =
     (case s of (a, b, c) \<Rightarrow>
        let a = a - b; a = a - c; a = a XOR drop_bit 13 c;
            b = b - c; b = b - a; b = b XOR push_bit 8 a;
            c = c - a; c = c - b; c = c XOR drop_bit 13 b;
            a = a - b; a = a - c; a = a XOR drop_bit 12 c;
            b = b - c; b = b - a; b = b XOR push_bit 16 a;
            c = c - a; c = c - b; c = c XOR drop_bit 5 b;
            a = a - b; a = a - c; a = a XOR drop_bit 3 c;
            b = b - c; b = b - a; b = b XOR push_bit 10 a;
            c = c - a; c = c - b; c = c XOR drop_bit 15 b
        in (a, b, c))"

definition le_word :: "u8 list \<Rightarrow> nat \<Rightarrow> u32" where
  "le_word k i = ucast (k ! i) + push_bit 8 (ucast (k ! (i + 1))) + push_bit 16 (ucast (k ! (i + 2)))
     + push_bit 24 (ucast (k ! (i + 3)))"

function jhash_loop :: "u8 list \<Rightarrow> nat \<Rightarrow> u32 \<times> u32 \<times> u32 \<Rightarrow> (u8 list \<times> nat \<times> u32 \<times> u32 \<times> u32) option" where
  "jhash_loop k len (a, b, c) =
     (if len \<ge> 12
      then do { c_assert (12 \<le> length k);
                jhash_loop (drop 12 k) (len - 12) (jhash_mix (a + le_word k 0, b + le_word k 4, c + le_word k 8)) }
      else Some (k, len, a, b, c))"
  by pat_completeness auto
termination by (relation "measure (\<lambda>(_, len, _). len)") auto

definition jhash_tail :: "u8 list \<Rightarrow> nat \<Rightarrow> u32 \<times> u32 \<times> u32 \<Rightarrow> u32 \<times> u32 \<times> u32" where
  "jhash_tail k len s =
     (case s of (a, b, c) \<Rightarrow>
        let c = (if len \<ge> 11 then c + push_bit 24 (ucast (k ! 10)) else c);
            c = (if len \<ge> 10 then c + push_bit 16 (ucast (k ! 9)) else c);
            c = (if len \<ge> 9 then c + push_bit 8 (ucast (k ! 8)) else c);
            b = (if len \<ge> 8 then b + push_bit 24 (ucast (k ! 7)) else b);
            b = (if len \<ge> 7 then b + push_bit 16 (ucast (k ! 6)) else b);
            b = (if len \<ge> 6 then b + push_bit 8 (ucast (k ! 5)) else b);
            b = (if len \<ge> 5 then b + ucast (k ! 4) else b);
            a = (if len \<ge> 4 then a + push_bit 24 (ucast (k ! 3)) else a);
            a = (if len \<ge> 3 then a + push_bit 16 (ucast (k ! 2)) else a);
            a = (if len \<ge> 2 then a + push_bit 8 (ucast (k ! 1)) else a);
            a = (if len \<ge> 1 then a + ucast (k ! 0) else a)
        in (a, b, c))"

definition jhash :: "u8 list \<Rightarrow> u32 \<Rightarrow> u32 \<Rightarrow> u32 option" where
  "jhash key length' initval =
     do { (k, len, a, b, c) \<leftarrow> jhash_loop key (unat length') (JHASH_GOLDEN_RATIO, JHASH_GOLDEN_RATIO, initval);
          c_assert (len \<le> length k);
          Some (snd (snd (jhash_mix (jhash_tail k len (a, b, c + length'))))) }"

function jhash2_loop :: "u32 list \<Rightarrow> nat \<Rightarrow> u32 \<times> u32 \<times> u32 \<Rightarrow> (u32 list \<times> nat \<times> u32 \<times> u32 \<times> u32) option" where
  "jhash2_loop k len (a, b, c) =
     (if len \<ge> 3
      then do { c_assert (3 \<le> length k);
                jhash2_loop (drop 3 k) (len - 3) (jhash_mix (a + k ! 0, b + k ! 1, c + k ! 2)) }
      else Some (k, len, a, b, c))"
  by pat_completeness auto
termination by (relation "measure (\<lambda>(_, len, _). len)") auto

definition jhash2 :: "u32 list \<Rightarrow> u32 \<Rightarrow> u32 \<Rightarrow> u32 option" where
  "jhash2 key length' initval =
     do { (k, len, a, b, c) \<leftarrow> jhash2_loop key (unat length') (JHASH_GOLDEN_RATIO, JHASH_GOLDEN_RATIO, initval);
          c_assert (len \<le> length k);
          let c = c + length' * 4;
          let b = (if len \<ge> 2 then b + k ! 1 else b);
          let a = (if len \<ge> 1 then a + k ! 0 else a);
          Some (snd (snd (jhash_mix (a, b, c)))) }"

definition jhash_3words :: "u32 \<Rightarrow> u32 \<Rightarrow> u32 \<Rightarrow> u32 \<Rightarrow> u32" where
  "jhash_3words a b c initval =
     snd (snd (jhash_mix (a + JHASH_GOLDEN_RATIO, b + JHASH_GOLDEN_RATIO, c + initval)))"

definition jhash_2words :: "u32 \<Rightarrow> u32 \<Rightarrow> u32 \<Rightarrow> u32" where
  "jhash_2words a b initval = jhash_3words a b 0 initval"

definition jhash_1word :: "u32 \<Rightarrow> u32 \<Rightarrow> u32" where
  "jhash_1word a initval = jhash_3words a 0 0 initval"

declare jhash_loop.simps [simp del] jhash2_loop.simps [simp del]

section \<open>Chains and tables\<close>

text \<open>The head of a chain holds its length, the other buckets hold 0.\<close>

definition chain_ok :: "'d bucket list \<Rightarrow> bool" where
  "chain_ok ch \<longleftrightarrow> map hb_len ch = (if ch = [] then [] else int (length ch) # replicate (length ch - 1) 0)"

definition dbag :: "'d bucket list \<Rightarrow> 'd multiset" where
  "dbag ch = mset (map hb_data ch)"

definition tbag :: "'d bucket list list \<Rightarrow> 'd multiset" where
  "tbag index = sum_list (map dbag index)"

definition empties :: "'d bucket list list \<Rightarrow> nat" where
  "empties index = sum_list (map (\<lambda>ch. if ch = [] then 1 else 0) index)"

text \<open>The sum of the squares of the chain lengths.\<close>

definition sum_squares :: "'d bucket list list \<Rightarrow> int" where
  "sum_squares index = sum_list (map (\<lambda>ch. int (length ch) ^ 2) index)"

definition placed :: "('d \<Rightarrow> u32) \<Rightarrow> u32 \<Rightarrow> nat \<Rightarrow> 'd bucket list \<Rightarrow> bool" where
  "placed key sz i ch \<longleftrightarrow> (\<forall>b \<in> set ch. hb_key b = key (hb_data b) \<and> bucket_index sz (hb_key b) = i)"

definition table_ok :: "('d \<Rightarrow> u32) \<Rightarrow> u32 \<Rightarrow> 'd bucket list list \<Rightarrow> u64 \<Rightarrow> bool" where
  "table_ok key sz index emp \<longleftrightarrow> pow2_u32 sz \<and> length index = unat sz
     \<and> (\<forall>i < length index. chain_ok (index ! i) \<and> placed key sz i (index ! i))
     \<and> emp = of_nat (empties index)"

lemma table_okD:
  assumes "table_ok key sz index emp"
  shows "pow2_u32 sz" "length index = unat sz" "emp = of_nat (empties index)"
    "i < length index \<Longrightarrow> chain_ok (index ! i)" "i < length index \<Longrightarrow> placed key sz i (index ! i)"
  using assms by (simp_all add: table_ok_def)

lemma table_update:
  assumes "i < length index"
  shows "tbag (index[i := ch]) + dbag (index ! i) = tbag index + dbag ch"
    "empties (index[i := ch]) + (if index ! i = [] then 1 else 0) = empties index + (if ch = [] then 1 else 0)"
    "sum_squares (index[i := ch]) + int (length (index ! i)) ^ 2 = sum_squares index + int (length ch) ^ 2"
  unfolding tbag_def empties_def sum_squares_def using assms by (rule sum_list_update_eq)+

lemma tbag_concat: "tbag index = dbag (concat index)"
  by (induction index) (simp_all add: tbag_def dbag_def)

lemma empty_table:
  "tbag (replicate n []) = {#}" "empties (replicate n []) = n" "sum_squares (replicate n []) = 0"
  by (induction n) (simp_all add: tbag_def dbag_def empties_def sum_squares_def)

lemma table_ok_empty: "pow2_u32 sz \<Longrightarrow> table_ok key sz (replicate (unat sz) []) (ucast sz)"
  by (simp add: table_ok_def chain_ok_def placed_def empty_table)

lemma bucket_index_less: "table_ok key sz index emp \<Longrightarrow> bucket_index sz k < length index"
  by (simp add: table_ok_def bucket_index_def pow2_index_less)

lemma chain_len_eq: "chain_ok ch \<Longrightarrow> chain_len ch = int (length ch)"
  by (cases ch) (auto simp: chain_ok_def chain_len_def)

definition kd :: "'d bucket \<Rightarrow> u32 \<times> 'd" where
  "kd b = (hb_key b, hb_data b)"

lemma kd_len [simp]: "kd (b\<lparr>hb_len := n\<rparr>) = kd b"
  by (simp add: kd_def)

lemma dbag_kd: "dbag ch = image_mset snd (mset (map kd ch))"
  by (simp add: dbag_def kd_def multiset.map_comp comp_def)

lemma placed_kd: "placed key sz i ch \<longleftrightarrow> (\<forall>(k, d) \<in> set (map kd ch). k = key d \<and> bucket_index sz k = i)"
  by (auto simp: placed_def kd_def)

lemma length_kd: "map kd ch' = kd b # map kd ch \<Longrightarrow> length ch' = Suc (length ch)"
  by (metis length_Cons length_map)

lemma chain_push_spec:
  assumes "chain_ok ch"
  shows "\<exists>ch'. chain_push hb ch = Some (ch', (if ch = [] then - 1 else 0), of_int (2 * int (length ch) + 1))
           \<and> chain_ok ch' \<and> map kd ch' = kd hb # map kd ch"
proof (cases ch)
  case Nil
  then show ?thesis by (simp add: chain_push_def chain_len_def chain_ok_def)
next
  case (Cons b bs)
  then have "chain_len ch = int (length bs) + 1" using chain_len_eq [OF assms] by simp
  moreover have "map hb_len bs = replicate (length bs) 0" using assms Cons by (simp add: chain_ok_def)
  ultimately show ?thesis
    using Cons by (auto simp: chain_push_def chain_ok_def Let_def algebra_simps)
qed

text \<open>Pushing a bucket onto its chain, as both users of \<open>chain_push\<close> do it.\<close>

lemma table_push:
  assumes t: "table_ok key sz index emp" and b: "hb_key b = key (hb_data b)"
  shows "\<exists>ch de dq ch'. rd index (bucket_index sz (hb_key b)) = Some ch \<and> chain_push b ch = Some (ch', de, dq)
           \<and> wr index (bucket_index sz (hb_key b)) ch' = Some (index[bucket_index sz (hb_key b) := ch'])
           \<and> table_ok key sz (index[bucket_index sz (hb_key b) := ch']) (emp + de)
           \<and> tbag (index[bucket_index sz (hb_key b) := ch']) = add_mset (hb_data b) (tbag index)
           \<and> of_int (sum_squares (index[bucket_index sz (hb_key b) := ch'])) = (of_int (sum_squares index) + dq :: u64)"
proof -
  let ?i = "bucket_index sz (hb_key b)"
  have i: "?i < length index" using bucket_index_less [OF t] .
  note ok = table_okD(4) [OF t i] table_okD(5) [OF t i]
  let ?ch = "index ! ?i"
  obtain ch' where p: "chain_push b ?ch = Some (ch', (if ?ch = [] then - 1 else 0), of_int (2 * int (length ?ch) + 1))"
    "chain_ok ch'" "map kd ch' = kd b # map kd ?ch"
    using chain_push_spec [OF ok(1), of b] by (elim exE conjE) (rule that)
  have len: "length ch' = Suc (length ?ch)" using length_kd [OF p(3)] .
  then have ne: "ch' \<noteq> []" by auto
  have "placed key sz ?i ch'" using ok(2) b unfolding placed_kd p(3) by (auto simp: kd_def)
  moreover have "of_nat (empties (index[?i := ch'])) = (emp + (if ?ch = [] then - 1 else 0) :: u64)"
    using arg_cong [OF table_update(2) [OF i, of ch'], of "of_nat :: nat \<Rightarrow> u64"] table_okD(3) [OF t] ne
    by (cases "?ch = []") (simp_all add: algebra_simps)
  ultimately have "table_ok key sz (index[?i := ch']) (emp + (if ?ch = [] then - 1 else 0))"
    using t p(2) i by (auto simp: table_ok_def nth_list_update)
  moreover have "dbag ch' = add_mset (hb_data b) (dbag ?ch)" unfolding dbag_kd p(3) by (simp add: kd_def)
  then have "tbag (index[?i := ch']) = add_mset (hb_data b) (tbag index)"
    using table_update(1) [OF i, of ch'] by simp
  moreover have "sum_squares (index[?i := ch']) = sum_squares index + (2 * int (length ?ch) + 1)"
    using table_update(3) [OF i, of ch'] len by (simp add: power2_eq_square algebra_simps)
  ultimately show ?thesis using i p(1) by (auto simp: rd_def wr_def)
qed

lemma rehash_spec:
  assumes "\<forall>b \<in> set bs. hb_key b = key (hb_data b)" "table_ok key sz index emp"
  shows "\<exists>index' emp' q'. fold_opt (rehash_bucket sz) bs (index, emp, q) = Some (index', emp', q')
           \<and> table_ok key sz index' emp' \<and> tbag index' = dbag bs + tbag index
           \<and> q' + of_int (sum_squares index) = q + of_int (sum_squares index')"
  using assms
proof (induction bs arbitrary: index emp q)
  case Nil
  then show ?case by (auto simp: dbag_def)
next
  case (Cons b bs)
  then have "hb_key b = key (hb_data b)" by simp
  from table_push [OF Cons.prems(2) this] obtain ch de dq ch' where
    p: "rd index (bucket_index sz (hb_key b)) = Some ch" "chain_push b ch = Some (ch', de, dq)"
      "wr index (bucket_index sz (hb_key b)) ch' = Some (index[bucket_index sz (hb_key b) := ch'])"
      "table_ok key sz (index[bucket_index sz (hb_key b) := ch']) (emp + de)"
      "tbag (index[bucket_index sz (hb_key b) := ch']) = add_mset (hb_data b) (tbag index)"
      "of_int (sum_squares (index[bucket_index sz (hb_key b) := ch'])) = (of_int (sum_squares index) + dq :: u64)"
    by blast
  from Cons.IH [OF _ p(4), of "q + dq"] Cons.prems(1) obtain index' emp' q' where
    i: "fold_opt (rehash_bucket sz) bs (index[bucket_index sz (hb_key b) := ch'], emp + de, q + dq) = Some (index', emp', q')"
      "table_ok key sz index' emp'" "tbag index' = dbag bs + tbag (index[bucket_index sz (hb_key b) := ch'])"
      "q' + of_int (sum_squares (index[bucket_index sz (hb_key b) := ch'])) = q + dq + of_int (sum_squares index')"
    by auto
  have "fold_opt (rehash_bucket sz) (b # bs) (index, emp, q) = Some (index', emp', q')"
    using p(1-3) i(1) by (simp add: rehash_bucket_def)
  moreover have "q' + of_int (sum_squares index) = q + of_int (sum_squares index')"
    using i(4) p(6) by (simp add: algebra_simps)
  ultimately show ?case using i(2,3) p(5) by (auto simp: dbag_def)
qed

section \<open>The table as a set of data up to the client's equality\<close>

text \<open>What a table requires of its client's key and comparison functions.\<close>

locale hashable =
  fixes key :: "'d \<Rightarrow> u32" and cmp :: "'d \<Rightarrow> 'd \<Rightarrow> bool"
  assumes cmp_refl: "cmp x x"
    and cmp_sym: "cmp x y \<Longrightarrow> cmp y x"
    and cmp_trans: "cmp x y \<Longrightarrow> cmp y z \<Longrightarrow> cmp x z"
    and cmp_key: "cmp x y \<Longrightarrow> key x = key y"
begin

lemma cmp_join: "cmp x d \<Longrightarrow> cmp y d \<Longrightarrow> cmp x y"
  by (blast intro: cmp_sym cmp_trans)

end

text \<open>C strings up to their terminator, hashed by \<open>string_hash_make\<close>, are such a client.\<close>

definition c_string :: "8 word list \<Rightarrow> 8 word list" where
  "c_string s = takeWhile (\<lambda>ch. ch \<noteq> 0) s"

interpretation c_strings: hashable string_hash_make "\<lambda>s t. c_string s = c_string t"
  by unfold_locales (auto simp: string_hash_make_def c_string_def)

definition hbag :: "'d hash \<Rightarrow> 'd multiset" where
  "hbag h = tbag (hs_index h)"

definition uniq :: "('d \<Rightarrow> 'd \<Rightarrow> bool) \<Rightarrow> 'd multiset \<Rightarrow> bool" where
  "uniq cmp B \<longleftrightarrow> (\<forall>x y. {#x, y#} \<subseteq># B \<longrightarrow> \<not> cmp x y)"

definition hash_wf :: "'d hash \<Rightarrow> bool" where
  "hash_wf h \<longleftrightarrow> hashable (hs_key h) (hs_cmp h)
     \<and> table_ok (hs_key h) (hs_size h) (hs_index h) (hs_empty h)
     \<and> hs_count h = of_nat (size (hbag h)) \<and> size (hbag h) < 2 ^ 64 \<and> uniq (hs_cmp h) (hbag h)"

lemma hash_wfD:
  assumes "hash_wf h"
  shows "hashable (hs_key h) (hs_cmp h)" "table_ok (hs_key h) (hs_size h) (hs_index h) (hs_empty h)"
    "hs_count h = of_nat (size (hbag h))" "size (hbag h) < 2 ^ 64" "uniq (hs_cmp h) (hbag h)"
  using assms by (simp_all add: hash_wf_def)

lemma unat_hs_count: "hash_wf h \<Longrightarrow> unat (hs_count h) = size (hbag h)"
  using hash_wfD(3,4) [of h] by (simp add: unat_of_nat take_bit_nat_eq_self)

lemma tbag_member: "x \<in># tbag index \<longleftrightarrow> (\<exists>i < length index. \<exists>b \<in> set (index ! i). hb_data b = x)"
proof -
  have "x \<in># tbag index \<longleftrightarrow> (\<exists>ch \<in> set index. \<exists>b \<in> set ch. hb_data b = x)"
    unfolding tbag_concat dbag_def by auto
  then show ?thesis unfolding set_conv_nth [of index] by blast
qed

lemma uniq_eq:
  assumes "uniq cmp B" "x \<in># B" "y \<in># B" "cmp x y"
  shows "x = y"
proof (rule ccontr)
  assume "x \<noteq> y"
  then have "{#x, y#} \<subseteq># B" using assms(2,3) by (simp add: insert_subset_eq_iff in_diff_count)
  with assms show False by (auto simp: uniq_def)
qed

lemma uniq_add:
  assumes "uniq cmp B" "\<forall>y \<in># B. \<not> cmp x y \<and> \<not> cmp y x"
  shows "uniq cmp (add_mset x B)"
  unfolding uniq_def
proof (intro allI impI notI)
  fix a b assume s: "{#a, b#} \<subseteq># add_mset x B" and c: "cmp a b"
  consider "{#a, b#} \<subseteq># B" | "a = x" "b \<in># B" | "b = x" "a \<in># B"
    using s by (cases "a = x"; cases "b = x") (auto simp: insert_subset_eq_iff in_diff_count)
  then show False
    by cases (use assms c in \<open>auto simp: uniq_def\<close>)
qed

lemma uniq_diff: "uniq cmp B \<Longrightarrow> uniq cmp (B - C)"
  unfolding uniq_def by (meson diff_subset_eq_self subset_mset.order_trans)

text \<open>The search loop finds the datum equal to \<open>data\<close> exactly when the table holds one.\<close>

lemma chain_find:
  assumes wf: "hash_wf h" and i: "i = bucket_index (hs_size h) (hs_key h data)"
  shows "find (bucket_matches h (hs_key h data) data) (hs_index h ! i) = Some b \<Longrightarrow>
           hb_data b \<in># hbag h \<and> hs_cmp h (hb_data b) data"
    and "find (bucket_matches h (hs_key h data) data) (hs_index h ! i) = None \<Longrightarrow>
           \<forall>x \<in># hbag h. \<not> hs_cmp h x data"
proof -
  have il: "i < length (hs_index h)" using bucket_index_less [OF hash_wfD(2) [OF wf]] i by simp
  show "hb_data b \<in># hbag h \<and> hs_cmp h (hb_data b) data"
    if "find (bucket_matches h (hs_key h data) data) (hs_index h ! i) = Some b"
    using that il nth_mem by (fastforce simp: find_Some_iff bucket_matches_def hbag_def tbag_member)
  show "\<forall>x \<in># hbag h. \<not> hs_cmp h x data"
    if none: "find (bucket_matches h (hs_key h data) data) (hs_index h ! i) = None"
  proof (intro ballI notI)
    fix x assume "x \<in># hbag h" and c: "hs_cmp h x data"
    then obtain j b where b: "j < length (hs_index h)" "b \<in> set (hs_index h ! j)" "hb_data b = x"
      by (auto simp: hbag_def tbag_member)
    then have "hb_key b = hs_key h x" "bucket_index (hs_size h) (hb_key b) = j"
      using table_okD(5) [OF hash_wfD(2) [OF wf] b(1)] by (auto simp: placed_def)
    moreover have "hs_key h x = hs_key h data" using hashable.cmp_key [OF hash_wfD(1) [OF wf] c] .
    ultimately have "bucket_matches h (hs_key h data) data b" "b \<in> set (hs_index h ! i)"
      using b i c by (auto simp: bucket_matches_def)
    with none show False by (auto simp: find_None_iff)
  qed
qed

section \<open>Growth, insertion and removal\<close>

lemma hash_buckets_eq: "hash_wf h \<Longrightarrow> hash_buckets h = Some (concat (hs_index h))"
  using table_okD(2) [OF hash_wfD(2)] by (fastforce simp: hash_buckets_def)

lemma bucket_keys:
  assumes "hash_wf h" "b \<in> set (concat (hs_index h))"
  shows "hb_key b = hs_key h (hb_data b)"
proof -
  obtain i where "i < length (hs_index h)" "b \<in> set (hs_index h ! i)"
    using assms(2) by (auto simp: set_conv_nth [of "hs_index h"])
  then show ?thesis using table_okD(5) [OF hash_wfD(2) [OF assms(1)]] by (auto simp: placed_def)
qed

lemma hash_expand_spec:
  assumes wf: "hash_wf h" and sz: "unat (hs_size h) < 2 ^ 31"
  shows "\<exists>h'. hash_expand h = Some h' \<and> hash_wf h' \<and> hbag h' = hbag h \<and> hs_key h' = hs_key h
           \<and> hs_cmp h' = hs_cmp h \<and> hs_count h' = hs_count h
           \<and> (h' = h \<or> hs_size h' = 2 * hs_size h
                \<and> hs_ssq h' = hs_ssq h + of_int (sum_squares (hs_index h')))"
proof (cases "hs_max_size h \<noteq> 0 \<and> hs_size h * 2 > hs_max_size h")
  case True
  then show ?thesis using wf by (auto simp: hash_expand_def Let_def)
next
  case False
  let ?sz = "hs_size h * 2" and ?bs = "concat (hs_index h)"
  have t: "table_ok (hs_key h) ?sz (replicate (unat ?sz) []) (ucast ?sz)"
    by (intro table_ok_empty pow2_double(1) table_okD(1) [OF hash_wfD(2) [OF wf]] sz)
  have keys: "\<forall>b \<in> set ?bs. hb_key b = hs_key h (hb_data b)" using bucket_keys [OF wf] by blast
  obtain index' emp' q' where r:
    "fold_opt (rehash_bucket ?sz) ?bs (replicate (unat ?sz) [], ucast ?sz, hs_ssq h) = Some (index', emp', q')"
    "table_ok (hs_key h) ?sz index' emp'" "tbag index' = dbag ?bs"
    "q' = hs_ssq h + of_int (sum_squares index')"
    using rehash_spec [OF keys t, of "hs_ssq h"] by (auto simp: empty_table)
  let ?h = "h\<lparr>hs_index := index', hs_size := ?sz, hs_empty := emp', hs_ssq := q'\<rparr>"
  have bag: "hbag ?h = hbag h" using r(3) by (simp add: hbag_def tbag_concat [of "hs_index h"])
  have "hash_expand h = Some ?h"
    using False r(1) hash_buckets_eq [OF wf] by (auto simp: hash_expand_def Let_def)
  moreover have "hash_wf ?h"
    using hash_wfD [OF wf] r(2) bag by (simp add: hash_wf_def)
  ultimately show ?thesis using bag r(4) by (auto simp: mult.commute)
qed

lemma hash_get_found:
  assumes wf: "hash_wf h" and x: "x \<in># hbag h" "hs_cmp h x data"
  shows "hash_get h data alloc = Some (h, Some x)"
proof -
  let ?i = "bucket_index (hs_size h) (hs_key h data)"
  have il: "?i < length (hs_index h)" using bucket_index_less [OF hash_wfD(2) [OF wf]] .
  have cnt: "hs_count h \<noteq> 0" using unat_hs_count [OF wf] x(1) by fastforce
  obtain b where b: "find (bucket_matches h (hs_key h data) data) (hs_index h ! ?i) = Some b"
    using chain_find(2) [OF wf refl, of data] x by (cases "find (bucket_matches h (hs_key h data) data) (hs_index h ! ?i)") auto
  have "hb_data b \<in># hbag h" "hs_cmp h (hb_data b) data" using chain_find(1) [OF wf refl b] by auto
  then have "hb_data b = x"
    using uniq_eq [OF hash_wfD(5) [OF wf]] hashable.cmp_join [OF hash_wfD(1) [OF wf]] x by blast
  then show ?thesis using b il cnt by (simp add: hash_get_def Let_def rd_def)
qed

lemma hash_get_absent:
  assumes wf: "hash_wf h" and x: "\<forall>x \<in># hbag h. \<not> hs_cmp h x data"
  shows "hash_get h data None = Some (h, None)"
    and "rd (hs_index h) (bucket_index (hs_size h) (hs_key h data)) \<noteq> None"
    and "find (bucket_matches h (hs_key h data) data) (the (rd (hs_index h) (bucket_index (hs_size h) (hs_key h data)))) = None"
proof -
  let ?i = "bucket_index (hs_size h) (hs_key h data)"
  have il: "?i < length (hs_index h)" using bucket_index_less [OF hash_wfD(2) [OF wf]] .
  then show "rd (hs_index h) ?i \<noteq> None" by (simp add: rd_def)
  have none: "find (bucket_matches h (hs_key h data) data) (hs_index h ! ?i) = None"
    using chain_find(1) [OF wf refl, of data] x
    by (cases "find (bucket_matches h (hs_key h data) data) (hs_index h ! ?i)") auto
  then show "find (bucket_matches h (hs_key h data) data) (the (rd (hs_index h) ?i)) = None"
    using il by (simp add: rd_def)
  show "hash_get h data None = Some (h, None)" using none il by (simp add: hash_get_def Let_def rd_def)
qed

lemma hash_get_insert:
  assumes wf: "hash_wf h" and x: "\<forall>x \<in># hbag h. \<not> hs_cmp h x data"
    and new: "f data = Some newdata" "hs_cmp h newdata data" and room: "size (hbag h) < 2 ^ 31 - 1"
  shows "\<exists>h'. hash_get h data (Some f) = Some (h', Some newdata) \<and> hash_wf h'
           \<and> hbag h' = add_mset newdata (hbag h) \<and> hs_key h' = hs_key h \<and> hs_cmp h' = hs_cmp h"
proof -
  note ha = hash_wfD(1) [OF wf]
  let ?key = "hs_key h data"
  have key: "?key = hs_key h newdata" using hashable.cmp_key [OF ha new(2)] by simp
  obtain h1 where h1: "(if HASH_THRESHOLD (hs_count h + 1) (hs_size h) then hash_expand h else Some h) = Some h1"
    "hash_wf h1" "hbag h1 = hbag h" "hs_key h1 = hs_key h" "hs_cmp h1 = hs_cmp h" "hs_count h1 = hs_count h"
  proof (cases "HASH_THRESHOLD (hs_count h + 1) (hs_size h)")
    case True
    have "unat (hs_count h + 1) = size (hbag h) + 1"
      using unat_hs_count [OF wf] room by (simp add: unat_word_ariths(1))
    then have "unat (hs_size h) < 2 ^ 31"
      using True room by (simp add: HASH_THRESHOLD_def word_less_nat_alt unat_ucast_u32_u64)
    with True show ?thesis using hash_expand_spec [OF wf] that by auto
  qed (use wf that in auto)
  let ?b = "\<lparr>hb_len = 0, hb_key = ?key, hb_data = newdata\<rparr>"
  let ?i = "bucket_index (hs_size h1) ?key"
  have "hb_key ?b = hs_key h1 (hb_data ?b)" using key h1(4) by simp
  from table_push [OF hash_wfD(2) [OF h1(2)] this] obtain ch de dq ch' where
    p: "rd (hs_index h1) ?i = Some ch" "chain_push ?b ch = Some (ch', de, dq)"
      "wr (hs_index h1) ?i ch' = Some ((hs_index h1)[?i := ch'])"
      "table_ok (hs_key h1) (hs_size h1) ((hs_index h1)[?i := ch']) (hs_empty h1 + de)"
      "tbag ((hs_index h1)[?i := ch']) = add_mset newdata (hbag h1)"
    by (auto simp: hbag_def)
  let ?h = "h1\<lparr>hs_index := (hs_index h1)[?i := ch'], hs_count := hs_count h1 + 1,
              hs_empty := hs_empty h1 + de, hs_ssq := hs_ssq h1 + dq\<rparr>"
  have bag: "hbag ?h = add_mset newdata (hbag h)" using p(5) h1(3) by (simp add: hbag_def)
  note ab = hash_get_absent [OF wf x]
  have get: "hash_get h data (Some f) = Some (?h, Some newdata)"
    using ab(2,3) h1(1) p(1-3) new(1) by (auto simp: hash_get_def Let_def)
  have "uniq (hs_cmp h) (add_mset newdata (hbag h))"
  proof (rule uniq_add [OF hash_wfD(5) [OF wf]], intro ballI conjI notI)
    fix y assume y: "y \<in># hbag h"
    show False if "hs_cmp h newdata y" using that x y new(2) hashable.cmp_sym [OF ha] hashable.cmp_trans [OF ha] by blast
    show False if "hs_cmp h y newdata" using that x y new(2) hashable.cmp_trans [OF ha] by blast
  qed
  then have "hash_wf ?h"
    using hash_wfD [OF h1(2)] h1 p(4) bag room by (simp add: hash_wf_def)
  then show ?thesis using get bag h1 by auto
qed

lemma chain_unlink_spec:
  "(case chain_unlink P ch of
      None \<Rightarrow> find P ch = None
    | Some (b, ch') \<Rightarrow> find P ch = Some b \<and> (\<exists>as bs. ch = as @ b # bs \<and> ch' = as @ bs))"
proof (induction ch)
  case (Cons a ch)
  show ?case
  proof (cases "P a")
    case True
    then show ?thesis by (auto intro: exI [of _ "[]"])
  next
    case False
    with Cons show ?thesis
      by (auto split: option.splits) (metis append_Cons)
  qed
qed simp

lemma chain_ok_remove:
  assumes "chain_ok (as @ b # bs)"
  shows "chain_ok (set_head_len (chain_len (as @ b # bs) - 1) (as @ bs))"
proof (cases as)
  case Nil
  then show ?thesis using assms chain_len_eq [OF assms]
    by (cases bs) (auto simp: chain_ok_def set_head_len_def)
next
  case (Cons a as')
  have "map hb_len (as' @ b # bs) = replicate (Suc (length as' + length bs)) 0"
    using assms Cons by (simp add: chain_ok_def)
  then have "\<forall>x \<in> set (as' @ b # bs). hb_len x = 0"
    by (metis imageI in_set_replicate list.set_map)
  then have "map hb_len (as' @ bs) = replicate (length as' + length bs) 0"
    by (intro replicate_eqI) auto
  then show ?thesis
    using assms Cons chain_len_eq [OF assms] by (simp add: chain_ok_def set_head_len_def)
qed

lemma set_head_len_kd [simp]: "map kd (set_head_len n ch) = map kd ch" "length (set_head_len n ch) = length ch"
  "set_head_len n ch = [] \<longleftrightarrow> ch = []"
  by (cases ch; simp add: set_head_len_def)+

lemma hash_release_found:
  assumes wf: "hash_wf h" and x: "x \<in># hbag h" "hs_cmp h x data"
  shows "\<exists>h'. hash_release h data = Some (h', Some x) \<and> hash_wf h' \<and> hbag h' = hbag h - {#x#}
           \<and> hs_key h' = hs_key h \<and> hs_cmp h' = hs_cmp h"
proof -
  note t = hash_wfD(2) [OF wf]
  let ?key = "hs_key h data" and ?i = "bucket_index (hs_size h) (hs_key h data)"
  let ?P = "bucket_matches h ?key data" and ?ch = "hs_index h ! ?i"
  have il: "?i < length (hs_index h)" using bucket_index_less [OF t] .
  obtain b ch' where u: "chain_unlink ?P ?ch = Some (b, ch')" "find ?P ?ch = Some b"
    using chain_unlink_spec [of ?P ?ch] chain_find(2) [OF wf refl, of data] x
    by (cases "chain_unlink ?P ?ch") auto
  obtain as bs where ab: "?ch = as @ b # bs" "ch' = as @ bs"
    using chain_unlink_spec [of ?P ?ch] u(1) by auto
  have b: "hb_data b = x"
    using chain_find(1) [OF wf refl u(2)] uniq_eq [OF hash_wfD(5) [OF wf]]
      hashable.cmp_join [OF hash_wfD(1) [OF wf]] x by blast
  let ?n = "chain_len ?ch - 1"
  let ?index = "(hs_index h)[?i := set_head_len ?n ch']"
  define q where "q = (of_int ((?n + chain_len ?ch) * (?n - chain_len ?ch)) :: u64)"
  let ?h = "h\<lparr>hs_index := ?index, hs_count := hs_count h - 1,
      hs_empty := hs_empty h + (if ch' = [] then 1 else 0), hs_ssq := hs_ssq h + q\<rparr>"
  have rel: "hash_release h data = Some (?h, Some x)"
    using il u(1) b by (simp add: hash_release_def Let_def rd_def wr_def q_def)
  have "dbag ?ch = add_mset x (dbag ch')" using ab b by (simp add: dbag_def)
  moreover have "dbag (set_head_len ?n ch') = dbag ch'" by (simp add: dbag_kd)
  ultimately have bag: "hbag h = add_mset x (hbag ?h)"
    using table_update(1) [OF il, of "set_head_len ?n ch'"] by (simp add: hbag_def)
  have "chain_ok (set_head_len ?n ch')"
    using chain_ok_remove [of as b bs] table_okD(4) [OF t il] ab by simp
  moreover have "placed (hs_key h) (hs_size h) ?i (set_head_len ?n ch')"
    using table_okD(5) [OF t il] ab unfolding placed_kd set_head_len_kd by auto
  moreover have "of_nat (empties ?index) = (hs_empty h + (if ch' = [] then 1 else 0) :: u64)"
    using arg_cong [OF table_update(2) [OF il, of "set_head_len ?n ch'"], of "of_nat :: nat \<Rightarrow> u64"]
      table_okD(3) [OF t] ab by (cases "ch' = []") simp_all
  ultimately have "table_ok (hs_key h) (hs_size h) ?index (hs_empty h + (if ch' = [] then 1 else 0))"
    using table_okD [OF t] il by (auto simp: table_ok_def nth_list_update)
  moreover obtain h2 where h2: "h2 = ?h" by simp
  moreover have bag': "hbag h = add_mset x (hbag h2)" using bag unfolding h2 .
  moreover have "hs_count h2 = hs_count h - 1" by (simp add: h2)
  then have "hs_count h2 = of_nat (size (hbag h2))" "size (hbag h2) < 2 ^ 64"
    using hash_wfD(3,4) [OF wf] bag' by simp_all
  moreover have "uniq (hs_cmp h) (hbag h2)"
    using uniq_diff [OF hash_wfD(5) [OF wf], of "{#x#}"] bag' by simp
  ultimately have "hash_wf h2" using hash_wfD(1) [OF wf] unfolding hash_wf_def h2 by simp
  moreover have "hash_release h data = Some (h2, Some x)" "hs_key h2 = hs_key h" "hs_cmp h2 = hs_cmp h"
    using rel by (simp_all add: h2)
  ultimately show ?thesis using bag' by auto
qed

lemma hash_release_absent:
  assumes wf: "hash_wf h" and x: "\<forall>x \<in># hbag h. \<not> hs_cmp h x data"
  shows "hash_release h data = Some (h, None)"
proof -
  let ?P = "bucket_matches h (hs_key h data) data"
  have il: "bucket_index (hs_size h) (hs_key h data) < length (hs_index h)"
    using bucket_index_less [OF hash_wfD(2) [OF wf]] .
  have "chain_unlink ?P (hs_index h ! bucket_index (hs_size h) (hs_key h data)) = None"
    using chain_unlink_spec [of ?P "hs_index h ! bucket_index (hs_size h) (hs_key h data)"]
      hash_get_absent(3) [OF wf x] il by (auto simp: rd_def split: option.splits)
  then show ?thesis using il by (simp add: hash_release_def Let_def rd_def)
qed

section \<open>The table contract\<close>

text \<open>
  What clients of a table of data rely on, where two data are the same entry when \<open>eq\<close> holds.
\<close>

locale datum_table =
  fixes inv :: "'t \<Rightarrow> bool" and bag :: "'t \<Rightarrow> 'd multiset" and eq :: "'t \<Rightarrow> 'd \<Rightarrow> 'd \<Rightarrow> bool"
    and look :: "'t \<Rightarrow> 'd \<Rightarrow> 'd ptr option"
    and add :: "'t \<Rightarrow> 'd \<Rightarrow> ('t \<times> 'd ptr) option"
    and remove :: "'t \<Rightarrow> 'd \<Rightarrow> ('t \<times> 'd ptr) option"
    and limit :: nat
  assumes look_hit: "inv t \<Longrightarrow> x \<in># bag t \<Longrightarrow> eq t x d \<Longrightarrow> look t d = Some (Some x)"
    and look_miss: "inv t \<Longrightarrow> \<forall>x \<in># bag t. \<not> eq t x d \<Longrightarrow> look t d = Some None"
    and add_law: "inv t \<Longrightarrow> size (bag t) < limit \<Longrightarrow> \<forall>x \<in># bag t. \<not> eq t x d \<Longrightarrow>
      \<exists>t'. add t d = Some (t', Some d) \<and> inv t' \<and> bag t' = add_mset d (bag t) \<and> eq t' = eq t"
    and remove_law: "inv t \<Longrightarrow> x \<in># bag t \<Longrightarrow> eq t x d \<Longrightarrow>
      \<exists>t'. remove t d = Some (t', Some x) \<and> inv t' \<and> bag t' = bag t - {#x#} \<and> eq t' = eq t"
    and eq_join: "inv t \<Longrightarrow> eq t x d \<Longrightarrow> eq t y d \<Longrightarrow> eq t x y"
    and eq_sym: "inv t \<Longrightarrow> eq t x y \<Longrightarrow> eq t y x"
    and uniq_law: "inv t \<Longrightarrow> uniq (eq t) (bag t)"
begin

lemma look_total: "inv t \<Longrightarrow> (\<exists>x \<in># bag t. eq t x d \<and> look t d = Some (Some x)) \<or> look t d = Some None"
  using look_hit [of t _ d] look_miss [of t d] by blast

lemma add_look:
  assumes "inv t" "size (bag t) < limit" "\<forall>x \<in># bag t. \<not> eq t x d"
  shows "\<exists>t'. add t d = Some (t', Some d) \<and> inv t'
           \<and> (\<forall>e. look t' e = (if eq t d e then Some (Some d) else look t e))"
proof -
  obtain t' where t: "add t d = Some (t', Some d)" "inv t'" "bag t' = add_mset d (bag t)" "eq t' = eq t"
    using add_law [OF assms] by blast
  have "look t' e = (if eq t d e then Some (Some d) else look t e)" for e
  proof (cases "eq t d e")
    case True
    then show ?thesis using look_hit [OF t(2), of d e] t by simp
  next
    case no: False
    show ?thesis
    proof (cases "\<exists>x \<in># bag t. eq t x e")
      case True
      then obtain x where x: "x \<in># bag t" "eq t x e" by blast
      then show ?thesis using look_hit [OF assms(1) x] look_hit [OF t(2), of x e] t no by simp
    next
      case False
      then show ?thesis using look_miss [OF assms(1), of e] look_miss [OF t(2), of e] t no by simp
    qed
  qed
  with t show ?thesis by blast
qed

lemma remove_look:
  assumes "inv t" "x \<in># bag t" "eq t x d"
  shows "\<exists>t'. remove t d = Some (t', Some x) \<and> inv t'
           \<and> (\<forall>e. look t' e = (if eq t x e then Some None else look t e))"
proof -
  obtain t' where t: "remove t d = Some (t', Some x)" "inv t'" "bag t' = bag t - {#x#}" "eq t' = eq t"
    using remove_law [OF assms] by blast
  have other: "\<not> eq t y x" if "y \<in># bag t - {#x#}" for y
  proof -
    have "add_mset x (bag t - {#x#}) = bag t" using assms(2) by simp
    then have "{#y, x#} \<subseteq># bag t"
      using that by (metis add_mset_add_single mset_subset_eq_insertD mset_subset_eq_single
          mset_subset_eq_mono_add_right_cancel add_mset_commute)
    then show ?thesis using uniq_law [OF assms(1)] by (auto simp: uniq_def)
  qed
  have "look t' e = (if eq t x e then Some None else look t e)" for e
  proof (cases "eq t x e")
    case True
    then have "\<forall>y \<in># bag t'. \<not> eq t' y e" using other eq_join [OF assms(1)] t by metis
    then show ?thesis using look_miss [OF t(2)] True by simp
  next
    case no: False
    show ?thesis
    proof (cases "\<exists>y \<in># bag t. eq t y e")
      case True
      then obtain y where y: "y \<in># bag t" "eq t y e" by blast
      then have "y \<in># bag t'" using no t(3) by (metis insert_DiffM insert_noteq_member assms(2))
      then show ?thesis using look_hit [OF assms(1) y] look_hit [OF t(2), of y e] t y no by simp
    next
      case False
      then have "\<forall>y \<in># bag t'. \<not> eq t' y e" using t by (auto dest: in_diffD)
      then show ?thesis using look_miss [OF assms(1), of e] look_miss [OF t(2), of e] no False by simp
    qed
  qed
  with t show ?thesis by blast
qed

end

interpretation ht: datum_table hash_wf hbag hs_cmp hash_lookup
  "\<lambda>h d. hash_get h d (Some hash_alloc_intern)" hash_release "2 ^ 31 - 1"
proof unfold_locales
  fix h :: "'a hash" and d x y
  assume wf: "hash_wf h"
  note ha = hash_wfD(1) [OF wf]
  show "hash_lookup h d = Some (Some x)" if "x \<in># hbag h" "hs_cmp h x d"
    using hash_get_found [OF wf that] by (simp add: hash_lookup_def)
  show "hash_lookup h d = Some None" if "\<forall>x \<in># hbag h. \<not> hs_cmp h x d"
    using hash_get_absent(1) [OF wf that] by (simp add: hash_lookup_def)
  show "\<exists>h'. hash_get h d (Some hash_alloc_intern) = Some (h', Some d) \<and> hash_wf h'
      \<and> hbag h' = add_mset d (hbag h) \<and> hs_cmp h' = hs_cmp h"
    if "size (hbag h) < 2 ^ 31 - 1" "\<forall>x \<in># hbag h. \<not> hs_cmp h x d"
    using hash_get_insert [OF wf that(2), of hash_alloc_intern d] hashable.cmp_refl [OF ha] that(1)
    by (auto simp: hash_alloc_intern_def)
  show "\<exists>h'. hash_release h d = Some (h', Some x) \<and> hash_wf h' \<and> hbag h' = hbag h - {#x#} \<and> hs_cmp h' = hs_cmp h"
    if "x \<in># hbag h" "hs_cmp h x d"
    using hash_release_found [OF wf that] by blast
  show "hs_cmp h x y" if "hs_cmp h x d" "hs_cmp h y d" using hashable.cmp_join [OF ha that] .
  show "hs_cmp h y x" if "hs_cmp h x y" using hashable.cmp_sym [OF ha that] .
  show "uniq (hs_cmp h) (hbag h)" using hash_wfD(5) [OF wf] .
qed

section \<open>The word and the byte version of the Jenkins hash\<close>

definition word_bytes :: "u32 \<Rightarrow> u8 list" where
  "word_bytes w = [ucast w, ucast (drop_bit 8 w), ucast (drop_bit 16 w), ucast (drop_bit 24 w)]"

definition words_bytes :: "u32 list \<Rightarrow> u8 list" where
  "words_bytes ws = concat (map word_bytes ws)"

lemma byte_of_int: "(ucast (ucast (drop_bit n (w :: u32)) :: u8) :: u32) = of_int ((uint w div 2 ^ n) mod 256)"
proof -
  have "uint w mod 4294967296 = uint w" using uint_bounded [of w] by simp
  then have "uint (ucast (drop_bit n w) :: u8) = (uint w div 2 ^ n) mod 256"
    by (simp add: unsigned_ucast_eq unsigned_drop_bit_eq) (simp add: drop_bit_eq_div take_bit_eq_mod)
  moreover have "(ucast x :: u32) = of_int (uint x)" for x :: u8 by simp
  ultimately show ?thesis by metis
qed

lemma le_word_bytes:
  fixes w :: u32
  shows "ucast (ucast w :: u8) + push_bit 8 (ucast (ucast (drop_bit 8 w) :: u8))
    + push_bit 16 (ucast (ucast (drop_bit 16 w) :: u8)) + push_bit 24 (ucast (ucast (drop_bit 24 w) :: u8)) = w"
proof -
  let ?x = "uint w"
  have b: "0 \<le> ?x" "?x < 2 ^ 32" using uint_bounded [of w] by simp_all
  have "?x mod 256 + (?x div 256) mod 256 * 256 + (?x div 65536) mod 256 * 65536
      + (?x div 16777216) mod 256 * 16777216 = ?x"
  proof -
    have d: "?x div 65536 = ?x div 256 div 256" "?x div 16777216 = ?x div 256 div 256 div 256"
      by (simp_all flip: zdiv_zmult2_eq)
    have "?x div 16777216 < 256" "0 \<le> ?x div 16777216"
      using b by (simp_all add: pos_imp_zdiv_nonneg_iff)
    then have "?x div 16777216 mod 256 = ?x div 16777216" by simp
    moreover have "?x = 256 * (?x div 256) + ?x mod 256"
      "?x div 256 = 256 * (?x div 256 div 256) + ?x div 256 mod 256"
      "?x div 256 div 256 = 256 * (?x div 256 div 256 div 256) + ?x div 256 div 256 mod 256"
      by simp_all
    ultimately show ?thesis unfolding d by linarith
  qed
  from arg_cong [OF this, of "of_int :: int \<Rightarrow> u32"]
  have "of_int (?x mod 256) + of_int ((?x div 256) mod 256) * 256
      + of_int ((?x div 65536) mod 256) * 65536 + of_int ((?x div 16777216) mod 256) * 16777216 = w"
    by (simp only: of_int_add of_int_mult of_int_numeral of_int_uint ucast_id)
  moreover have "(ucast (ucast w :: u8) :: u32) = of_int (?x mod 256)"
    "(ucast (ucast (drop_bit 8 w) :: u8) :: u32) = of_int ((?x div 256) mod 256)"
    "(ucast (ucast (drop_bit 16 w) :: u8) :: u32) = of_int ((?x div 65536) mod 256)"
    "(ucast (ucast (drop_bit 24 w) :: u8) :: u32) = of_int ((?x div 16777216) mod 256)"
    using byte_of_int [of 0 w] byte_of_int [of 8 w] byte_of_int [of 16 w] byte_of_int [of 24 w] by simp_all
  moreover have "push_bit 8 v = v * 256" "push_bit 16 v = v * 65536" "push_bit 24 v = v * 16777216" for v :: u32
    by (simp_all add: push_bit_eq_mult)
  ultimately show ?thesis by (simp only:)
qed

lemma length_word_bytes: "length (word_bytes w) = 4"
  by (simp add: word_bytes_def)

lemma length_words_bytes [simp]: "length (words_bytes ws) = 4 * length ws"
  by (induction ws) (simp_all add: words_bytes_def word_bytes_def)

lemma words_bytes_Cons: "words_bytes (w # ws) = word_bytes w @ words_bytes ws"
  by (simp add: words_bytes_def)

lemma drop_words_bytes: "drop (4 * n) (words_bytes ws) = words_bytes (drop n ws)"
proof (induction n arbitrary: ws)
  case (Suc n)
  then show ?case
    by (cases ws) (simp_all add: words_bytes_Cons length_word_bytes, simp add: words_bytes_def)
qed simp

lemma le_word_words_bytes: "i < length ws \<Longrightarrow> le_word (words_bytes ws) (4 * i) = ws ! i"
proof (induction ws arbitrary: i)
  case (Cons w ws)
  show ?case
  proof (cases i)
    case 0
    then show ?thesis
      using le_word_bytes [of w] by (simp add: le_word_def words_bytes_Cons word_bytes_def)
  next
    case (Suc j)
    then have "le_word (words_bytes (w # ws)) (4 * i) = le_word (words_bytes ws) (4 * j)"
      by (simp add: le_word_def words_bytes_Cons word_bytes_def add.commute)
    then show ?thesis using Cons Suc by simp
  qed
qed simp

lemma jhash_loop_words:
  "jhash_loop (words_bytes ws) (4 * len) s
     = map_option (\<lambda>(k, l, r). (words_bytes k, 4 * l, r)) (jhash2_loop ws len s)"
proof (induction ws len s rule: jhash2_loop.induct)
  case (1 ws len a b c)
  show ?case
  proof (cases "3 \<le> len")
    case False
    then show ?thesis by (simp add: jhash_loop.simps [of _ _ a b c] jhash2_loop.simps)
  next
    case len: True
    show ?thesis
    proof (cases "3 \<le> length ws")
      case False
      then show ?thesis using len by (simp add: jhash_loop.simps [of _ _ a b c] jhash2_loop.simps)
    next
      case True
      then have "ws \<noteq> []" by auto
      with True have w: "le_word (words_bytes ws) 0 = ws ! 0" "le_word (words_bytes ws) 4 = ws ! 1"
        "le_word (words_bytes ws) 8 = ws ! 2" "drop 12 (words_bytes ws) = words_bytes (drop 3 ws)"
        using le_word_words_bytes [of 0 ws] le_word_words_bytes [of 1 ws] le_word_words_bytes [of 2 ws]
          drop_words_bytes [of 3 ws] by simp_all
      have e: "12 \<le> 4 * len" "4 * len - 12 = 4 * (len - 3)" using len by simp_all
      show ?thesis
        using "1.IH" [OF len] w e len True
        by (simp add: jhash_loop.simps [of _ _ a b c] jhash2_loop.simps [of ws len a b c])
    qed
  qed
qed

lemma jhash_tail_words:
  assumes "len < 3" "len \<le> length k"
  shows "jhash_tail (words_bytes k) (4 * len) (a, b, c)
    = ((if len \<ge> 1 then a + k ! 0 else a), (if len \<ge> 2 then b + k ! 1 else b), c)"
proof -
  have ne: "k \<noteq> []" if "1 \<le> len" using that assms(2) by auto
  consider "len = 0" | "len = 1" | "len = 2" using assms(1) by linarith
  then show ?thesis
  proof cases
    case 1
    then show ?thesis by (simp add: jhash_tail_def)
  next
    case 2
    then show ?thesis
      using le_word_words_bytes [of 0 k] assms(2) ne
      by (simp add: jhash_tail_def le_word_def eval_nat_numeral algebra_simps)
  next
    case 3
    then show ?thesis
      using le_word_words_bytes [of 0 k] le_word_words_bytes [of 1 k] assms(2) ne
      by (simp add: jhash_tail_def le_word_def eval_nat_numeral algebra_simps)
  qed
qed

lemma jhash2_loop_small: "jhash2_loop ws len s = Some (k, l, r) \<Longrightarrow> l < 3"
proof (induction ws len s rule: jhash2_loop.induct)
  case (1 ws len a b c)
  show ?case
  proof (cases "3 \<le> len")
    case True
    with 1 show ?thesis
      by (auto simp: jhash2_loop.simps [of ws len a b c] bind_Some_iff c_assert_eq_Some_iff)
  next
    case False
    with 1 show ?thesis by (simp add: jhash2_loop.simps)
  qed
qed

section \<open>Properties\<close>

text \<open>
  C35: interning a datum that has no equal in a well-formed table of fewer than \<open>2 ^ 31 - 1\<close> entries
  returns it and keeps the table well formed (chain lengths, entry count and number of empty buckets
  included), also when the table has to grow; afterwards a lookup finds it for every datum equal to
  it and gives the same answer as before for every other datum.
\<close>

theorem hash_get_intern_lookup:
  assumes "hash_wf h" "size (hbag h) < 2 ^ 31 - 1" "\<forall>x \<in># hbag h. \<not> hs_cmp h x d"
  shows "\<exists>h'. hash_get h d (Some hash_alloc_intern) = Some (h', Some d) \<and> hash_wf h'
           \<and> (\<forall>e. hash_lookup h' e = (if hs_cmp h d e then Some (Some d) else hash_lookup h e))"
  by (rule ht.add_look [OF assms])

text \<open>
  releasing a datum from a well-formed table returns the entry equal to it and keeps the table
  well formed; afterwards a lookup of any datum equal to that entry finds nothing and every other
  lookup answers as before.
\<close>

theorem hash_release_lookup:
  assumes "hash_wf h" "x \<in># hbag h" "hs_cmp h x d"
  shows "\<exists>h'. hash_release h d = Some (h', Some x) \<and> hash_wf h'
           \<and> (\<forall>e. hash_lookup h' e = (if hs_cmp h x e then Some None else hash_lookup h e))"
  by (rule ht.remove_look [OF assms])

text \<open>
  growing a well-formed table of size below \<open>2 ^ 31\<close> keeps it well formed and keeps its entries;
  unless the size limit forbids growth, the size doubles and the statistic \<open>ssq\<close>, documented as the
  sum of squares of the bucket lengths, becomes its old value plus the sum of squares of the new
  bucket lengths.
\<close>

theorem hash_expand_keeps:
  assumes "hash_wf h" "unat (hs_size h) < 2 ^ 31"
  shows "\<exists>h'. hash_expand h = Some h' \<and> hash_wf h' \<and> hbag h' = hbag h
           \<and> (h' = h \<or> hs_size h' = 2 * hs_size h
                \<and> hs_ssq h' = hs_ssq h + of_int (sum_squares (hs_index h')))"
  using hash_expand_spec [OF assms] by blast

text \<open>
  hashing an array of 32-bit words with \<open>jhash2\<close> gives the same value as hashing its
  little-endian bytes with \<open>jhash\<close>.
\<close>

theorem jhash2_eq_jhash:
  assumes "4 * unat n < 2 ^ 32"
  shows "jhash (words_bytes ws) (4 * n) initval = jhash2 ws n initval"
proof -
  have n: "unat (4 * n) = 4 * unat n"
    using assms by (simp add: unat_word_ariths(2) mult.commute)
  show ?thesis
  proof (cases "jhash2_loop ws (unat n) (JHASH_GOLDEN_RATIO, JHASH_GOLDEN_RATIO, initval)")
    case None
    then show ?thesis using n by (simp add: jhash_def jhash2_def jhash_loop_words)
  next
    case (Some r)
    obtain k l a b c where r: "r = (k, l, a, b, c)" by (cases r) auto
    have l: "l < 3" using jhash2_loop_small Some r by blast
    show ?thesis
    proof (cases "l \<le> length k")
      case True
      then show ?thesis
        using n Some r jhash_tail_words [OF l True, of a b "c + 4 * n"]
        by (simp add: jhash_def jhash2_def jhash_loop_words) (simp add: mult.commute)
    next
      case False
      then show ?thesis using n Some r by (simp add: jhash_def jhash2_def jhash_loop_words)
    qed
  qed
qed

section \<open>A table of two small numbers\<close>

definition ex_hash :: "nat hash" where
  "ex_hash = \<lparr>hs_index = [[\<lparr>hb_len = 1, hb_key = 4, hb_data = 4\<rparr>], [\<lparr>hb_len = 1, hb_key = 7, hb_data = 7\<rparr>]],
     hs_size = 2, hs_max_size = 0, hs_key = of_nat, hs_cmp = (=), hs_count = 2, hs_empty = 0, hs_ssq = 2\<rparr>"

lemma ex_hash_bag: "hbag ex_hash = {#4, 7#}"
  by (simp add: hbag_def tbag_def dbag_def ex_hash_def)

lemma ex_hash_fields: "hs_cmp ex_hash = (=)" "hs_size ex_hash = 2"
  by (simp_all add: ex_hash_def)

lemma ex_hash_wf: "hash_wf ex_hash"
proof -
  have "hashable (of_nat :: nat \<Rightarrow> u32) (=)" by unfold_locales auto
  moreover have "pow2_u32 2" unfolding pow2_u32_def by (intro exI [of _ 1]) simp
  then have "table_ok of_nat 2 (hs_index ex_hash) 0"
    by (auto simp: table_ok_def ex_hash_def chain_ok_def placed_def empties_def bucket_index_def less_Suc_eq)
  moreover have "uniq (=) {#4, 7 :: nat#}"
    by (auto simp: uniq_def insert_subset_eq_iff in_diff_count split: if_splits)
  ultimately show ?thesis
    unfolding hash_wf_def ex_hash_bag by (simp add: ex_hash_def)
qed

theorem hash_get_intern_lookup_witness:
  "\<exists>h'. hash_get ex_hash 9 (Some hash_alloc_intern) = Some (h', Some 9) \<and> hash_wf h'
     \<and> hash_lookup h' 9 = Some (Some 9) \<and> hash_lookup h' 4 = hash_lookup ex_hash 4"
proof -
  obtain h' where "hash_get ex_hash 9 (Some hash_alloc_intern) = Some (h', Some 9)" "hash_wf h'"
    and l: "\<forall>e. hash_lookup h' e = (if hs_cmp ex_hash 9 e then Some (Some 9) else hash_lookup ex_hash e)"
    using hash_get_intern_lookup [OF ex_hash_wf, of 9] by (auto simp: ex_hash_bag ex_hash_fields)
  then show ?thesis by (auto simp: ex_hash_fields)
qed

end
