(* ===== verification/C_Strings.thy ===== *)
theory C_Strings
  imports C_Prelude
begin

text \<open>
  C strings: bounded copying and concatenation as written in \<open>libvui/src/vui/lib/strlcpy.c\<close> and
  \<open>strlcat.c\<close>, and the parts of the C library's number conversions that the sources use.

  A character buffer is a list of characters; a string in it ends at the first NUL. Reading a string
  that has no terminator and writing past the end of a buffer are \<^term>\<open>None\<close>.
\<close>

definition NUL :: char where "NUL = CHR 0x00"

definition c_str :: "string \<Rightarrow> string" where
  "c_str b = takeWhile (\<lambda>ch. ch \<noteq> NUL) b"

definition strlen :: "string \<Rightarrow> nat option" where
  "strlen b = (if NUL \<in> set b then Some (length (c_str b)) else None)"

definition strnlen :: "string \<Rightarrow> nat \<Rightarrow> nat option" where
  "strnlen b n = (if NUL \<in> set (take n b) then Some (length (c_str b))
                  else if n \<le> length b then Some n else None)"

text \<open>\<open>memcpy\<close> of some characters into a buffer at an offset.\<close>

definition put_chars :: "string \<Rightarrow> nat \<Rightarrow> string \<Rightarrow> string option" where
  "put_chars b off cs =
     (if off + length cs \<le> length b then Some (take off b @ cs @ drop (off + length cs) b) else None)"

definition strlcpy :: "string \<Rightarrow> string \<Rightarrow> nat \<Rightarrow> (string \<times> nat) option" where
  "strlcpy dest src destsize =
     do { src_length \<leftarrow> strlen src;
          if src_length \<ge> destsize
          then (if destsize > 0
                then do { d1 \<leftarrow> put_chars dest 0 (take destsize src);
                          d2 \<leftarrow> wr d1 (destsize - 1) NUL;
                          Some (d2, src_length) }
                else Some (dest, src_length))
          else do { d1 \<leftarrow> put_chars dest 0 (take (src_length + 1) src); Some (d1, src_length) } }"

definition strlcat :: "string \<Rightarrow> string \<Rightarrow> nat \<Rightarrow> (string \<times> nat) option" where
  "strlcat dest src destsize =
     do { src_length \<leftarrow> strlen src;
          if destsize = 0 then Some (dest, src_length)
          else do { dest_length \<leftarrow> strnlen dest destsize;
                    d \<leftarrow> (if dest_length \<noteq> destsize
                          then (let to_copy = destsize - dest_length - 1;
                                    to_copy = (if to_copy > src_length then src_length else to_copy)
                                in do { d1 \<leftarrow> put_chars dest dest_length (take to_copy src);
                                        wr d1 (dest_length + to_copy) NUL })
                          else Some dest);
                    Some (d, dest_length + src_length) } }"

section \<open>Conversions\<close>

definition char_code :: "char \<Rightarrow> nat" where "char_code ch = of_char ch"

definition isdigit :: "char \<Rightarrow> bool" where
  "isdigit ch \<longleftrightarrow> 48 \<le> char_code ch \<and> char_code ch \<le> 57"

definition isspace :: "char \<Rightarrow> bool" where
  "isspace ch \<longleftrightarrow> char_code ch = 32 \<or> 9 \<le> char_code ch \<and> char_code ch \<le> 13"

definition digit_val :: "char \<Rightarrow> nat" where "digit_val ch = char_code ch - 48"

definition dec_val :: "string \<Rightarrow> nat" where
  "dec_val ds = foldl (\<lambda>n ch. 10 * n + digit_val ch) 0 ds"

text \<open>\<open>atoi\<close>; undefined when the value does not fit in an \<open>int\<close>.\<close>

definition atoi :: "string \<Rightarrow> int option" where
  "atoi s =
     (let s1 = dropWhile isspace s;
          (neg, s2) = (case s1 of [] \<Rightarrow> (False, s1)
                       | ch # r \<Rightarrow> if ch = CHR ''-'' then (True, r) else if ch = CHR ''+'' then (False, r) else (False, s1));
          n = int (dec_val (takeWhile isdigit s2));
          v = (if neg then - n else n)
      in if - (2 ^ 31) \<le> v \<and> v < 2 ^ 31 then Some v else None)"

definition hex_digit :: "nat \<Rightarrow> char" where
  "hex_digit n = char_of (if n < 10 then n + 48 else n + 87)"

definition hex_val :: "char \<Rightarrow> nat option" where
  "hex_val ch =
     (let c = char_code ch
      in if 48 \<le> c \<and> c \<le> 57 then Some (c - 48)
         else if 97 \<le> c \<and> c \<le> 102 then Some (c - 87)
         else if 65 \<le> c \<and> c \<le> 70 then Some (c - 55) else None)"

text \<open>\<open>%02x\<close> of a byte.\<close>

definition print_02x :: "u8 \<Rightarrow> string" where
  "print_02x b = [hex_digit (unat b div 16), hex_digit (unat b mod 16)]"

text \<open>
  \<open>%2x\<close> of \<open>sscanf\<close>: white space is skipped, then a sign or a first digit and a second digit make up at
  most two characters. \<open>0x\<close> alone has no digits and does not match.
\<close>

definition scan_2x :: "string \<Rightarrow> (u32 \<times> string) option" where
  "scan_2x s =
     (case dropWhile isspace s of
        [] \<Rightarrow> None
      | c1 # r \<Rightarrow>
          if c1 = CHR ''-'' \<or> c1 = CHR ''+''
          then (case r of
                  [] \<Rightarrow> None
                | c2 # r2 \<Rightarrow> (case hex_val c2 of
                               None \<Rightarrow> None
                             | Some v \<Rightarrow> Some (if c1 = CHR ''-'' then - of_nat v else of_nat v, r2)))
          else (case hex_val c1 of
                  None \<Rightarrow> None
                | Some v1 \<Rightarrow>
                    (case r of
                       [] \<Rightarrow> Some (of_nat v1, [])
                     | c2 # r2 \<Rightarrow>
                         if v1 = 0 \<and> (c2 = CHR ''x'' \<or> c2 = CHR ''X'') then None
                         else (case hex_val c2 of
                                 None \<Rightarrow> Some (of_nat v1, r)
                               | Some v2 \<Rightarrow> Some (of_nat (16 * v1 + v2), r2)))))"

text \<open>A format of \<open>n\<close> conversions \<open>%2x\<close> separated by colons; the number of conversions made is \<open>n\<close>.\<close>

fun scan_hex_colon :: "nat \<Rightarrow> string \<Rightarrow> u32 list option" where
  "scan_hex_colon 0 s = Some []"
| "scan_hex_colon (Suc 0) s = (case scan_2x s of None \<Rightarrow> None | Some (v, r) \<Rightarrow> Some [v])"
| "scan_hex_colon (Suc (Suc n)) s =
     (case scan_2x s of
        None \<Rightarrow> None
      | Some (v, r) \<Rightarrow>
          (case r of
             [] \<Rightarrow> None
           | ch # r' \<Rightarrow> if ch = CHR '':'' then map_option ((#) v) (scan_hex_colon (Suc n) r') else None))"

fun print_hex_colon :: "u8 list \<Rightarrow> string" where
  "print_hex_colon [] = []"
| "print_hex_colon [b] = print_02x b"
| "print_hex_colon (b # c # bs) = print_02x b @ CHR '':'' # print_hex_colon (c # bs)"

section \<open>Copying and concatenation\<close>

lemma c_str_append_NUL: "NUL \<notin> set cs \<Longrightarrow> c_str (cs @ NUL # r) = cs"
  unfolding c_str_def by (induction cs) auto

lemma c_str_split: "NUL \<in> set b \<Longrightarrow> \<exists>r. b = c_str b @ NUL # r"
  using split_list_first [of NUL b] c_str_append_NUL by fastforce

lemma c_str_terminated:
  assumes "NUL \<in> set b"
  shows "length (c_str b) < length b" "b ! length (c_str b) = NUL" "c_str b = take (length (c_str b)) b"
proof -
  obtain r where r: "b = c_str b @ NUL # r" using c_str_split [OF assms] by blast
  show "length (c_str b) < length b" using arg_cong [OF r, of length] by simp
  show "b ! length (c_str b) = NUL" using arg_cong [OF r, of "\<lambda>l. l ! length (c_str b)"] by simp
  show "c_str b = take (length (c_str b)) b" using arg_cong [OF r, of "take (length (c_str b))"] by simp
qed

lemma c_str_no_NUL: "NUL \<notin> set (c_str b)"
  unfolding c_str_def using set_takeWhileD by fastforce

lemma set_take_c_str: "NUL \<notin> set (take n (c_str b))"
  using c_str_no_NUL [of b] in_set_takeD by fastforce

lemma strlcpy_spec:
  assumes "NUL \<in> set src" "0 < destsize" "destsize \<le> length dest"
  shows "\<exists>d. strlcpy dest src destsize = Some (d, length (c_str src)) \<and> length d = length dest
           \<and> c_str d = take (destsize - 1) (c_str src) \<and> drop destsize d = drop destsize dest"
proof -
  note t = c_str_terminated [OF assms(1)]
  let ?n = "length (c_str src)"
  show ?thesis
  proof (cases "destsize \<le> ?n")
    case True
    let ?d = "take (destsize - 1) (c_str src) @ NUL # drop destsize dest"
    have "take (destsize - 1) src = take (destsize - 1) (c_str src)"
    proof -
      have "destsize - 1 \<le> ?n" using True by simp
      then show ?thesis using arg_cong [OF t(3), of "take (destsize - 1)"] by (simp add: min_absorb1)
    qed
    then have tk: "take destsize src = take (destsize - 1) (c_str src) @ [src ! (destsize - 1)]"
      using True assms(2) t(1) take_Suc_conv_app_nth [of "destsize - 1" src] by simp
    have "length (take (destsize - 1) (c_str src)) = destsize - 1" using True by simp
    then have "wr (take destsize src @ drop destsize dest) (destsize - 1) NUL = Some ?d"
      unfolding tk using assms(2,3) by (simp add: wr_def list_update_append)
    moreover have "put_chars dest 0 (take destsize src) = Some (take destsize src @ drop destsize dest)"
      using True t(1) assms(3) by (simp add: put_chars_def min_def)
    ultimately have "strlcpy dest src destsize = Some (?d, ?n)"
      using True assms by (simp add: strlcpy_def strlen_def)
    then show ?thesis
      using True assms c_str_append_NUL [OF set_take_c_str] by auto
  next
    case False
    let ?d = "c_str src @ NUL # drop (?n + 1) dest"
    have tk: "take (?n + 1) src = c_str src @ [NUL]"
      using t take_Suc_conv_app_nth [of ?n src] by simp
    have "strlcpy dest src destsize = Some (?d, ?n)"
      using False assms by (simp add: strlcpy_def strlen_def tk [simplified] put_chars_def)
    moreover obtain j where "destsize = Suc (?n + j)" using False less_imp_Suc_add not_le by blast
    then have "drop destsize ?d = drop destsize dest" by (simp add: add.commute)
    ultimately show ?thesis
      using False assms c_str_append_NUL [OF c_str_no_NUL] by auto
  qed
qed

lemma strlcat_spec:
  assumes "NUL \<in> set src" "NUL \<in> set (take destsize dest)" "destsize \<le> length dest"
  shows "\<exists>d. strlcat dest src destsize = Some (d, length (c_str dest) + length (c_str src))
           \<and> length d = length dest \<and> c_str d = take (destsize - 1) (c_str dest @ c_str src)
           \<and> drop destsize d = drop destsize dest"
proof -
  note t = c_str_terminated [OF assms(1)]
  let ?n = "length (c_str src)" and ?m = "length (c_str dest)"
  have nd: "NUL \<in> set dest" using assms(2) in_set_takeD by fast
  note u = c_str_terminated [OF nd]
  have "c_str (take destsize dest) = c_str dest"
  proof -
    obtain r where "take destsize dest = c_str (take destsize dest) @ NUL # r" using c_str_split [OF assms(2)] by blast
    then have "dest = c_str (take destsize dest) @ NUL # (r @ drop destsize dest)"
      by (metis append.assoc append_Cons append_take_drop_id)
    then show ?thesis using c_str_append_NUL [OF c_str_no_NUL] by metis
  qed
  then have md: "?m < destsize" using c_str_terminated(1) [OF assms(2)] assms(3) by simp
  define k where "k = min (destsize - ?m - 1) ?n"
  have k: "(if destsize - ?m - 1 > ?n then ?n else destsize - ?m - 1) = k" "k \<le> ?n" "?m + k < destsize"
    using md by (auto simp: k_def min_def)
  let ?d = "c_str dest @ take k (c_str src) @ NUL # drop (?m + k + 1) dest"
  have tk: "take k src = take k (c_str src)" using arg_cong [OF t(3), of "take k"] k(2) by (simp add: min_absorb1)
  have td: "take ?m dest = c_str dest" using u(3) by simp
  have lt: "length (take k (c_str src)) = k" using k(2) by simp
  have p: "put_chars dest ?m (take k src) = Some (c_str dest @ take k (c_str src) @ drop (?m + k) dest)"
    using k(2,3) assms(3) td tk lt by (simp add: put_chars_def)
  have "drop (?m + k) dest = dest ! (?m + k) # drop (?m + k + 1) dest"
    using k(3) assms(3) by (simp add: Cons_nth_drop_Suc)
  then have w: "wr (c_str dest @ take k (c_str src) @ drop (?m + k) dest) (?m + k) NUL = Some ?d"
    using k(3) assms(3) lt by (simp add: wr_def list_update_append)
  have "strlcat dest src destsize = Some (?d, ?m + ?n)"
  proof -
    have sl: "strlen src = Some ?n" "strnlen dest destsize = Some ?m" "destsize \<noteq> 0" "?m \<noteq> destsize"
      using assms md by (auto simp: strlen_def strnlen_def)
    show ?thesis
      unfolding strlcat_def Let_def
      by (simp only: sl bind.bind_lunit if_False if_True k(1) p w not_False_eq_True)
  qed
  moreover have "NUL \<notin> set (c_str dest @ take k (c_str src))"
    using c_str_no_NUL [of dest] set_take_c_str [of k src] by auto
  then have "c_str ?d = c_str dest @ take k (c_str src)"
    using c_str_append_NUL [of "c_str dest @ take k (c_str src)" "drop (?m + k + 1) dest"] by simp
  moreover have "c_str dest @ take k (c_str src) = take (destsize - 1) (c_str dest @ c_str src)"
    using md by (auto simp: k_def min_def)
  moreover obtain j where "destsize = Suc (?m + k + j)" using k(3) less_imp_Suc_add by blast
  then have "drop destsize ?d = drop destsize dest" using lt by (simp add: ac_simps)
  moreover have "length ?d = length dest" using lt k(3) assms(3) by simp
  ultimately show ?thesis by metis
qed

section \<open>Hexadecimal round trip\<close>

lemma char_code_of: "n < 256 \<Longrightarrow> char_code (char_of n) = n"
  by (simp add: char_code_def)

lemma hex_val_digit: "n < 16 \<Longrightarrow> hex_val (hex_digit n) = Some n"
  by (auto simp: hex_val_def hex_digit_def char_code_of Let_def)

lemma hex_digit_code: "n < 16 \<Longrightarrow> char_code (hex_digit n) = (if n < 10 then n + 48 else n + 87)"
  by (simp add: hex_digit_def char_code_of)

lemma hex_digit_other:
  assumes "n < 16"
  shows "\<not> isspace (hex_digit n)" "hex_digit n \<noteq> CHR ''-''" "hex_digit n \<noteq> CHR ''+''"
    "hex_digit n \<noteq> CHR ''x''" "hex_digit n \<noteq> CHR ''X''"
proof -
  have ne: "hex_digit n \<noteq> ch" if "char_code ch \<noteq> (if n < 10 then n + 48 else n + 87)" for ch
    using that hex_digit_code [OF assms] by auto
  show "\<not> isspace (hex_digit n)" using hex_digit_code [OF assms] by (simp add: isspace_def)
  show "hex_digit n \<noteq> CHR ''-''" "hex_digit n \<noteq> CHR ''+''" "hex_digit n \<noteq> CHR ''x''" "hex_digit n \<noteq> CHR ''X''"
    by (rule ne; use assms in \<open>simp add: char_code_def\<close>)+
qed

lemma scan_print_02x: "scan_2x (print_02x b @ r) = Some (ucast b, r)"
proof -
  have b: "unat b div 16 < 16" "unat b mod 16 < 16" using unat_u8_less [of b] by auto
  have "of_nat (16 * (unat b div 16) + unat b mod 16) = (ucast b :: u32)" by simp
  then show ?thesis
    using b hex_digit_other [OF b(1)] hex_digit_other [OF b(2)] hex_val_digit [OF b(1)] hex_val_digit [OF b(2)]
    by (simp add: scan_2x_def print_02x_def)
qed

lemma scan_print_hex_colon:
  "scan_hex_colon (length bs) (print_hex_colon bs) = Some (map ucast bs)"
proof (induction bs rule: print_hex_colon.induct)
  case (2 b)
  then show ?case using scan_print_02x [of b "[]"] by simp
next
  case (3 b c bs)
  then show ?case using scan_print_02x [of b "CHR '':'' # print_hex_colon (c # bs)"] by simp
qed simp

section \<open>Properties\<close>

text \<open>
  \<open>strlcpy\<close> and \<open>strlcat\<close> into a buffer with room for \<open>destsize > 0\<close> characters (for \<open>strlcat\<close>, holding
  a string that ends within them) never write past those characters, always leave a terminated
  string, which is the source, or the concatenation, cut off after \<open>destsize - 1\<close> characters, and
  return the length it would have had without the cut.
\<close>

theorem strlcpy_strlcat_truncate:
  assumes "NUL \<in> set src" "0 < destsize" "destsize \<le> length dest" "NUL \<in> set (take destsize dest)"
  shows "(\<exists>d. strlcpy dest src destsize = Some (d, length (c_str src)) \<and> length d = length dest
           \<and> c_str d = take (destsize - 1) (c_str src) \<and> drop destsize d = drop destsize dest)
       \<and> (\<exists>d. strlcat dest src destsize = Some (d, length (c_str dest) + length (c_str src))
           \<and> length d = length dest \<and> c_str d = take (destsize - 1) (c_str dest @ c_str src)
           \<and> drop destsize d = drop destsize dest)"
  using strlcpy_spec [OF assms(1-3)] strlcat_spec [OF assms(1,4,3)] by blast

end
