(* ===== verification/Prefix.thy ===== *)
theory Prefix
  imports C_Strings Hash
begin

text \<open>
  Network prefixes: \<open>libvui/src/vui/lib/prefix.c\<close> and \<open>prefix.h\<close>.

  The address union of \<open>struct prefix\<close> is its storage, a list of bytes in memory order; network byte
  order puts the first address bit in the top bit of byte 0. An \<open>in_addr\<close> is the list of its four
  bytes, with \<open>htonl\<close> and \<open>ntohl\<close> between it and a 32-bit value. Reads outside the storage and failed
  assertions are \<^term>\<open>None\<close>. The address families that come from the system headers are constructors
  of one type. The conversions between addresses and text of the system library (\<open>inet_pton\<close>,
  \<open>inet_aton\<close>, \<open>inet_ntop\<close>) are parameters.
\<close>

datatype family = AF_UNSPEC | AF_INET | AF_INET6 | AF_ETHERNET | AF_EVPN | AF_FLOWSPEC | AF_OTHER nat

record prefix =
  p_family :: family
  p_prefixlen :: nat
  p_u :: "u8 list"

section \<open>Tables\<close>

definition maskbit :: "u8 list" where
  "maskbit = [0x00, 0x80, 0xc0, 0xe0, 0xf0, 0xf8, 0xfc, 0xfe, 0xff]"

text \<open>The rows of \<open>maskbytes6\<close>, in three parts.\<close>

definition maskbytes6_lo :: "u8 list list" where
  "maskbytes6_lo =
    [[0, 0, 0, 0, 0, 0, 0, 0, 0, 0, 0, 0, 0, 0, 0, 0],
     [0x80, 0, 0, 0, 0, 0, 0, 0, 0, 0, 0, 0, 0, 0, 0, 0],
     [0xc0, 0, 0, 0, 0, 0, 0, 0, 0, 0, 0, 0, 0, 0, 0, 0],
     [0xe0, 0, 0, 0, 0, 0, 0, 0, 0, 0, 0, 0, 0, 0, 0, 0],
     [0xf0, 0, 0, 0, 0, 0, 0, 0, 0, 0, 0, 0, 0, 0, 0, 0],
     [0xf8, 0, 0, 0, 0, 0, 0, 0, 0, 0, 0, 0, 0, 0, 0, 0],
     [0xfc, 0, 0, 0, 0, 0, 0, 0, 0, 0, 0, 0, 0, 0, 0, 0],
     [0xfe, 0, 0, 0, 0, 0, 0, 0, 0, 0, 0, 0, 0, 0, 0, 0],
     [0xff, 0, 0, 0, 0, 0, 0, 0, 0, 0, 0, 0, 0, 0, 0, 0],
     [0xff, 0x80, 0, 0, 0, 0, 0, 0, 0, 0, 0, 0, 0, 0, 0, 0],
     [0xff, 0xc0, 0, 0, 0, 0, 0, 0, 0, 0, 0, 0, 0, 0, 0, 0],
     [0xff, 0xe0, 0, 0, 0, 0, 0, 0, 0, 0, 0, 0, 0, 0, 0, 0],
     [0xff, 0xf0, 0, 0, 0, 0, 0, 0, 0, 0, 0, 0, 0, 0, 0, 0],
     [0xff, 0xf8, 0, 0, 0, 0, 0, 0, 0, 0, 0, 0, 0, 0, 0, 0],
     [0xff, 0xfc, 0, 0, 0, 0, 0, 0, 0, 0, 0, 0, 0, 0, 0, 0],
     [0xff, 0xfe, 0, 0, 0, 0, 0, 0, 0, 0, 0, 0, 0, 0, 0, 0],
     [0xff, 0xff, 0, 0, 0, 0, 0, 0, 0, 0, 0, 0, 0, 0, 0, 0],
     [0xff, 0xff, 0x80, 0, 0, 0, 0, 0, 0, 0, 0, 0, 0, 0, 0, 0],
     [0xff, 0xff, 0xc0, 0, 0, 0, 0, 0, 0, 0, 0, 0, 0, 0, 0, 0],
     [0xff, 0xff, 0xe0, 0, 0, 0, 0, 0, 0, 0, 0, 0, 0, 0, 0, 0],
     [0xff, 0xff, 0xf0, 0, 0, 0, 0, 0, 0, 0, 0, 0, 0, 0, 0, 0],
     [0xff, 0xff, 0xf8, 0, 0, 0, 0, 0, 0, 0, 0, 0, 0, 0, 0, 0],
     [0xff, 0xff, 0xfc, 0, 0, 0, 0, 0, 0, 0, 0, 0, 0, 0, 0, 0],
     [0xff, 0xff, 0xfe, 0, 0, 0, 0, 0, 0, 0, 0, 0, 0, 0, 0, 0],
     [0xff, 0xff, 0xff, 0, 0, 0, 0, 0, 0, 0, 0, 0, 0, 0, 0, 0],
     [0xff, 0xff, 0xff, 0x80, 0, 0, 0, 0, 0, 0, 0, 0, 0, 0, 0, 0],
     [0xff, 0xff, 0xff, 0xc0, 0, 0, 0, 0, 0, 0, 0, 0, 0, 0, 0, 0],
     [0xff, 0xff, 0xff, 0xe0, 0, 0, 0, 0, 0, 0, 0, 0, 0, 0, 0, 0],
     [0xff, 0xff, 0xff, 0xf0, 0, 0, 0, 0, 0, 0, 0, 0, 0, 0, 0, 0],
     [0xff, 0xff, 0xff, 0xf8, 0, 0, 0, 0, 0, 0, 0, 0, 0, 0, 0, 0],
     [0xff, 0xff, 0xff, 0xfc, 0, 0, 0, 0, 0, 0, 0, 0, 0, 0, 0, 0],
     [0xff, 0xff, 0xff, 0xfe, 0, 0, 0, 0, 0, 0, 0, 0, 0, 0, 0, 0],
     [0xff, 0xff, 0xff, 0xff, 0, 0, 0, 0, 0, 0, 0, 0, 0, 0, 0, 0],
     [0xff, 0xff, 0xff, 0xff, 0x80, 0, 0, 0, 0, 0, 0, 0, 0, 0, 0, 0],
     [0xff, 0xff, 0xff, 0xff, 0xc0, 0, 0, 0, 0, 0, 0, 0, 0, 0, 0, 0],
     [0xff, 0xff, 0xff, 0xff, 0xe0, 0, 0, 0, 0, 0, 0, 0, 0, 0, 0, 0],
     [0xff, 0xff, 0xff, 0xff, 0xf0, 0, 0, 0, 0, 0, 0, 0, 0, 0, 0, 0],
     [0xff, 0xff, 0xff, 0xff, 0xf8, 0, 0, 0, 0, 0, 0, 0, 0, 0, 0, 0],
     [0xff, 0xff, 0xff, 0xff, 0xfc, 0, 0, 0, 0, 0, 0, 0, 0, 0, 0, 0],
     [0xff, 0xff, 0xff, 0xff, 0xfe, 0, 0, 0, 0, 0, 0, 0, 0, 0, 0, 0],
     [0xff, 0xff, 0xff, 0xff, 0xff, 0, 0, 0, 0, 0, 0, 0, 0, 0, 0, 0],
     [0xff, 0xff, 0xff, 0xff, 0xff, 0x80, 0, 0, 0, 0, 0, 0, 0, 0, 0, 0],
     [0xff, 0xff, 0xff, 0xff, 0xff, 0xc0, 0, 0, 0, 0, 0, 0, 0, 0, 0, 0]]"

definition maskbytes6_mid :: "u8 list list" where
  "maskbytes6_mid =
    [[0xff, 0xff, 0xff, 0xff, 0xff, 0xe0, 0, 0, 0, 0, 0, 0, 0, 0, 0, 0],
     [0xff, 0xff, 0xff, 0xff, 0xff, 0xf0, 0, 0, 0, 0, 0, 0, 0, 0, 0, 0],
     [0xff, 0xff, 0xff, 0xff, 0xff, 0xf8, 0, 0, 0, 0, 0, 0, 0, 0, 0, 0],
     [0xff, 0xff, 0xff, 0xff, 0xff, 0xfc, 0, 0, 0, 0, 0, 0, 0, 0, 0, 0],
     [0xff, 0xff, 0xff, 0xff, 0xff, 0xfe, 0, 0, 0, 0, 0, 0, 0, 0, 0, 0],
     [0xff, 0xff, 0xff, 0xff, 0xff, 0xff, 0, 0, 0, 0, 0, 0, 0, 0, 0, 0],
     [0xff, 0xff, 0xff, 0xff, 0xff, 0xff, 0x80, 0, 0, 0, 0, 0, 0, 0, 0, 0],
     [0xff, 0xff, 0xff, 0xff, 0xff, 0xff, 0xc0, 0, 0, 0, 0, 0, 0, 0, 0, 0],
     [0xff, 0xff, 0xff, 0xff, 0xff, 0xff, 0xe0, 0, 0, 0, 0, 0, 0, 0, 0, 0],
     [0xff, 0xff, 0xff, 0xff, 0xff, 0xff, 0xf0, 0, 0, 0, 0, 0, 0, 0, 0, 0],
     [0xff, 0xff, 0xff, 0xff, 0xff, 0xff, 0xf8, 0, 0, 0, 0, 0, 0, 0, 0, 0],
     [0xff, 0xff, 0xff, 0xff, 0xff, 0xff, 0xfc, 0, 0, 0, 0, 0, 0, 0, 0, 0],
     [0xff, 0xff, 0xff, 0xff, 0xff, 0xff, 0xfe, 0, 0, 0, 0, 0, 0, 0, 0, 0],
     [0xff, 0xff, 0xff, 0xff, 0xff, 0xff, 0xff, 0, 0, 0, 0, 0, 0, 0, 0, 0],
     [0xff, 0xff, 0xff, 0xff, 0xff, 0xff, 0xff, 0x80, 0, 0, 0, 0, 0, 0, 0, 0],
     [0xff, 0xff, 0xff, 0xff, 0xff, 0xff, 0xff, 0xc0, 0, 0, 0, 0, 0, 0, 0, 0],
     [0xff, 0xff, 0xff, 0xff, 0xff, 0xff, 0xff, 0xe0, 0, 0, 0, 0, 0, 0, 0, 0],
     [0xff, 0xff, 0xff, 0xff, 0xff, 0xff, 0xff, 0xf0, 0, 0, 0, 0, 0, 0, 0, 0],
     [0xff, 0xff, 0xff, 0xff, 0xff, 0xff, 0xff, 0xf8, 0, 0, 0, 0, 0, 0, 0, 0],
     [0xff, 0xff, 0xff, 0xff, 0xff, 0xff, 0xff, 0xfc, 0, 0, 0, 0, 0, 0, 0, 0],
     [0xff, 0xff, 0xff, 0xff, 0xff, 0xff, 0xff, 0xfe, 0, 0, 0, 0, 0, 0, 0, 0],
     [0xff, 0xff, 0xff, 0xff, 0xff, 0xff, 0xff, 0xff, 0, 0, 0, 0, 0, 0, 0, 0],
     [0xff, 0xff, 0xff, 0xff, 0xff, 0xff, 0xff, 0xff, 0x80, 0, 0, 0, 0, 0, 0, 0],
     [0xff, 0xff, 0xff, 0xff, 0xff, 0xff, 0xff, 0xff, 0xc0, 0, 0, 0, 0, 0, 0, 0],
     [0xff, 0xff, 0xff, 0xff, 0xff, 0xff, 0xff, 0xff, 0xe0, 0, 0, 0, 0, 0, 0, 0],
     [0xff, 0xff, 0xff, 0xff, 0xff, 0xff, 0xff, 0xff, 0xf0, 0, 0, 0, 0, 0, 0, 0],
     [0xff, 0xff, 0xff, 0xff, 0xff, 0xff, 0xff, 0xff, 0xf8, 0, 0, 0, 0, 0, 0, 0],
     [0xff, 0xff, 0xff, 0xff, 0xff, 0xff, 0xff, 0xff, 0xfc, 0, 0, 0, 0, 0, 0, 0],
     [0xff, 0xff, 0xff, 0xff, 0xff, 0xff, 0xff, 0xff, 0xfe, 0, 0, 0, 0, 0, 0, 0],
     [0xff, 0xff, 0xff, 0xff, 0xff, 0xff, 0xff, 0xff, 0xff, 0, 0, 0, 0, 0, 0, 0],
     [0xff, 0xff, 0xff, 0xff, 0xff, 0xff, 0xff, 0xff, 0xff, 0x80, 0, 0, 0, 0, 0, 0],
     [0xff, 0xff, 0xff, 0xff, 0xff, 0xff, 0xff, 0xff, 0xff, 0xc0, 0, 0, 0, 0, 0, 0],
     [0xff, 0xff, 0xff, 0xff, 0xff, 0xff, 0xff, 0xff, 0xff, 0xe0, 0, 0, 0, 0, 0, 0],
     [0xff, 0xff, 0xff, 0xff, 0xff, 0xff, 0xff, 0xff, 0xff, 0xf0, 0, 0, 0, 0, 0, 0],
     [0xff, 0xff, 0xff, 0xff, 0xff, 0xff, 0xff, 0xff, 0xff, 0xf8, 0, 0, 0, 0, 0, 0],
     [0xff, 0xff, 0xff, 0xff, 0xff, 0xff, 0xff, 0xff, 0xff, 0xfc, 0, 0, 0, 0, 0, 0],
     [0xff, 0xff, 0xff, 0xff, 0xff, 0xff, 0xff, 0xff, 0xff, 0xfe, 0, 0, 0, 0, 0, 0],
     [0xff, 0xff, 0xff, 0xff, 0xff, 0xff, 0xff, 0xff, 0xff, 0xff, 0, 0, 0, 0, 0, 0],
     [0xff, 0xff, 0xff, 0xff, 0xff, 0xff, 0xff, 0xff, 0xff, 0xff, 0x80, 0, 0, 0, 0, 0],
     [0xff, 0xff, 0xff, 0xff, 0xff, 0xff, 0xff, 0xff, 0xff, 0xff, 0xc0, 0, 0, 0, 0, 0],
     [0xff, 0xff, 0xff, 0xff, 0xff, 0xff, 0xff, 0xff, 0xff, 0xff, 0xe0, 0, 0, 0, 0, 0],
     [0xff, 0xff, 0xff, 0xff, 0xff, 0xff, 0xff, 0xff, 0xff, 0xff, 0xf0, 0, 0, 0, 0, 0],
     [0xff, 0xff, 0xff, 0xff, 0xff, 0xff, 0xff, 0xff, 0xff, 0xff, 0xf8, 0, 0, 0, 0, 0]]"

definition maskbytes6_hi :: "u8 list list" where
  "maskbytes6_hi =
    [[0xff, 0xff, 0xff, 0xff, 0xff, 0xff, 0xff, 0xff, 0xff, 0xff, 0xfc, 0, 0, 0, 0, 0],
     [0xff, 0xff, 0xff, 0xff, 0xff, 0xff, 0xff, 0xff, 0xff, 0xff, 0xfe, 0, 0, 0, 0, 0],
     [0xff, 0xff, 0xff, 0xff, 0xff, 0xff, 0xff, 0xff, 0xff, 0xff, 0xff, 0, 0, 0, 0, 0],
     [0xff, 0xff, 0xff, 0xff, 0xff, 0xff, 0xff, 0xff, 0xff, 0xff, 0xff, 0x80, 0, 0, 0, 0],
     [0xff, 0xff, 0xff, 0xff, 0xff, 0xff, 0xff, 0xff, 0xff, 0xff, 0xff, 0xc0, 0, 0, 0, 0],
     [0xff, 0xff, 0xff, 0xff, 0xff, 0xff, 0xff, 0xff, 0xff, 0xff, 0xff, 0xe0, 0, 0, 0, 0],
     [0xff, 0xff, 0xff, 0xff, 0xff, 0xff, 0xff, 0xff, 0xff, 0xff, 0xff, 0xf0, 0, 0, 0, 0],
     [0xff, 0xff, 0xff, 0xff, 0xff, 0xff, 0xff, 0xff, 0xff, 0xff, 0xff, 0xf8, 0, 0, 0, 0],
     [0xff, 0xff, 0xff, 0xff, 0xff, 0xff, 0xff, 0xff, 0xff, 0xff, 0xff, 0xfc, 0, 0, 0, 0],
     [0xff, 0xff, 0xff, 0xff, 0xff, 0xff, 0xff, 0xff, 0xff, 0xff, 0xff, 0xfe, 0, 0, 0, 0],
     [0xff, 0xff, 0xff, 0xff, 0xff, 0xff, 0xff, 0xff, 0xff, 0xff, 0xff, 0xff, 0, 0, 0, 0],
     [0xff, 0xff, 0xff, 0xff, 0xff, 0xff, 0xff, 0xff, 0xff, 0xff, 0xff, 0xff, 0x80, 0, 0, 0],
     [0xff, 0xff, 0xff, 0xff, 0xff, 0xff, 0xff, 0xff, 0xff, 0xff, 0xff, 0xff, 0xc0, 0, 0, 0],
     [0xff, 0xff, 0xff, 0xff, 0xff, 0xff, 0xff, 0xff, 0xff, 0xff, 0xff, 0xff, 0xe0, 0, 0, 0],
     [0xff, 0xff, 0xff, 0xff, 0xff, 0xff, 0xff, 0xff, 0xff, 0xff, 0xff, 0xff, 0xf0, 0, 0, 0],
     [0xff, 0xff, 0xff, 0xff, 0xff, 0xff, 0xff, 0xff, 0xff, 0xff, 0xff, 0xff, 0xf8, 0, 0, 0],
     [0xff, 0xff, 0xff, 0xff, 0xff, 0xff, 0xff, 0xff, 0xff, 0xff, 0xff, 0xff, 0xfc, 0, 0, 0],
     [0xff, 0xff, 0xff, 0xff, 0xff, 0xff, 0xff, 0xff, 0xff, 0xff, 0xff, 0xff, 0xfe, 0, 0, 0],
     [0xff, 0xff, 0xff, 0xff, 0xff, 0xff, 0xff, 0xff, 0xff, 0xff, 0xff, 0xff, 0xff, 0, 0, 0],
     [0xff, 0xff, 0xff, 0xff, 0xff, 0xff, 0xff, 0xff, 0xff, 0xff, 0xff, 0xff, 0xff, 0x80, 0, 0],
     [0xff, 0xff, 0xff, 0xff, 0xff, 0xff, 0xff, 0xff, 0xff, 0xff, 0xff, 0xff, 0xff, 0xc0, 0, 0],
     [0xff, 0xff, 0xff, 0xff, 0xff, 0xff, 0xff, 0xff, 0xff, 0xff, 0xff, 0xff, 0xff, 0xe0, 0, 0],
     [0xff, 0xff, 0xff, 0xff, 0xff, 0xff, 0xff, 0xff, 0xff, 0xff, 0xff, 0xff, 0xff, 0xf0, 0, 0],
     [0xff, 0xff, 0xff, 0xff, 0xff, 0xff, 0xff, 0xff, 0xff, 0xff, 0xff, 0xff, 0xff, 0xf8, 0, 0],
     [0xff, 0xff, 0xff, 0xff, 0xff, 0xff, 0xff, 0xff, 0xff, 0xff, 0xff, 0xff, 0xff, 0xfc, 0, 0],
     [0xff, 0xff, 0xff, 0xff, 0xff, 0xff, 0xff, 0xff, 0xff, 0xff, 0xff, 0xff, 0xff, 0xfe, 0, 0],
     [0xff, 0xff, 0xff, 0xff, 0xff, 0xff, 0xff, 0xff, 0xff, 0xff, 0xff, 0xff, 0xff, 0xff, 0, 0],
     [0xff, 0xff, 0xff, 0xff, 0xff, 0xff, 0xff, 0xff, 0xff, 0xff, 0xff, 0xff, 0xff, 0xff, 0x80, 0],
     [0xff, 0xff, 0xff, 0xff, 0xff, 0xff, 0xff, 0xff, 0xff, 0xff, 0xff, 0xff, 0xff, 0xff, 0xc0, 0],
     [0xff, 0xff, 0xff, 0xff, 0xff, 0xff, 0xff, 0xff, 0xff, 0xff, 0xff, 0xff, 0xff, 0xff, 0xe0, 0],
     [0xff, 0xff, 0xff, 0xff, 0xff, 0xff, 0xff, 0xff, 0xff, 0xff, 0xff, 0xff, 0xff, 0xff, 0xf0, 0],
     [0xff, 0xff, 0xff, 0xff, 0xff, 0xff, 0xff, 0xff, 0xff, 0xff, 0xff, 0xff, 0xff, 0xff, 0xf8, 0],
     [0xff, 0xff, 0xff, 0xff, 0xff, 0xff, 0xff, 0xff, 0xff, 0xff, 0xff, 0xff, 0xff, 0xff, 0xfc, 0],
     [0xff, 0xff, 0xff, 0xff, 0xff, 0xff, 0xff, 0xff, 0xff, 0xff, 0xff, 0xff, 0xff, 0xff, 0xfe, 0],
     [0xff, 0xff, 0xff, 0xff, 0xff, 0xff, 0xff, 0xff, 0xff, 0xff, 0xff, 0xff, 0xff, 0xff, 0xff, 0],
     [0xff, 0xff, 0xff, 0xff, 0xff, 0xff, 0xff, 0xff, 0xff, 0xff, 0xff, 0xff, 0xff, 0xff, 0xff, 0x80],
     [0xff, 0xff, 0xff, 0xff, 0xff, 0xff, 0xff, 0xff, 0xff, 0xff, 0xff, 0xff, 0xff, 0xff, 0xff, 0xc0],
     [0xff, 0xff, 0xff, 0xff, 0xff, 0xff, 0xff, 0xff, 0xff, 0xff, 0xff, 0xff, 0xff, 0xff, 0xff, 0xe0],
     [0xff, 0xff, 0xff, 0xff, 0xff, 0xff, 0xff, 0xff, 0xff, 0xff, 0xff, 0xff, 0xff, 0xff, 0xff, 0xf0],
     [0xff, 0xff, 0xff, 0xff, 0xff, 0xff, 0xff, 0xff, 0xff, 0xff, 0xff, 0xff, 0xff, 0xff, 0xff, 0xf8],
     [0xff, 0xff, 0xff, 0xff, 0xff, 0xff, 0xff, 0xff, 0xff, 0xff, 0xff, 0xff, 0xff, 0xff, 0xff, 0xfc],
     [0xff, 0xff, 0xff, 0xff, 0xff, 0xff, 0xff, 0xff, 0xff, 0xff, 0xff, 0xff, 0xff, 0xff, 0xff, 0xfe],
     [0xff, 0xff, 0xff, 0xff, 0xff, 0xff, 0xff, 0xff, 0xff, 0xff, 0xff, 0xff, 0xff, 0xff, 0xff, 0xff]]"

definition maskbytes6 :: "u8 list list" where
  "maskbytes6 = maskbytes6_lo @ maskbytes6_mid @ maskbytes6_hi"

definition PNBBY :: nat where "PNBBY = 8"
definition IPV4_MAX_BYTELEN :: nat where "IPV4_MAX_BYTELEN = 4"
definition IPV4_MAX_BITLEN :: nat where "IPV4_MAX_BITLEN = 32"
definition IPV4_MAX_PREFIXLEN :: nat where "IPV4_MAX_PREFIXLEN = 32"
definition IPV6_MAX_BYTELEN :: nat where "IPV6_MAX_BYTELEN = 16"
definition IPV6_MAX_BITLEN :: nat where "IPV6_MAX_BITLEN = 128"
definition ETH_ALEN :: nat where "ETH_ALEN = 6"
definition ESI_BYTES :: nat where "ESI_BYTES = 10"

text \<open>The size in bytes of \<open>struct evpn_addr\<close> and of the address union (LP64).\<close>

definition EVPN_ADDR_SIZE :: nat where "EVPN_ADDR_SIZE = 36"
definition PREFIX_U_SIZE :: nat where "PREFIX_U_SIZE = 40"

lemmas prefix_consts = PNBBY_def IPV4_MAX_BYTELEN_def IPV4_MAX_BITLEN_def IPV4_MAX_PREFIXLEN_def
  IPV6_MAX_BYTELEN_def IPV6_MAX_BITLEN_def ETH_ALEN_def ESI_BYTES_def EVPN_ADDR_SIZE_def PREFIX_U_SIZE_def

section \<open>Families\<close>

datatype afi = AFI_UNSPEC | AFI_IP | AFI_IP6 | AFI_L2VPN | AFI_MAX

definition str2family :: "string \<Rightarrow> family option" where
  "str2family s = (if s = ''ipv4'' then Some AF_INET else if s = ''ipv6'' then Some AF_INET6
     else if s = ''ethernet'' then Some AF_ETHERNET else if s = ''evpn'' then Some AF_EVPN else None)"

definition family2str :: "family \<Rightarrow> string" where
  "family2str f = (case f of AF_INET \<Rightarrow> ''IPv4'' | AF_INET6 \<Rightarrow> ''IPv6'' | AF_ETHERNET \<Rightarrow> ''Ethernet''
     | AF_EVPN \<Rightarrow> ''Evpn'' | _ \<Rightarrow> ''?'')"

definition afi2family :: "afi \<Rightarrow> family" where
  "afi2family a = (if a = AFI_IP then AF_INET else if a = AFI_IP6 then AF_INET6
     else if a = AFI_L2VPN then AF_ETHERNET else AF_UNSPEC)"

definition family2afi :: "family \<Rightarrow> afi" where
  "family2afi f = (if f = AF_INET then AFI_IP else if f = AF_INET6 then AFI_IP6
     else if f = AF_ETHERNET \<or> f = AF_EVPN then AFI_L2VPN else AFI_UNSPEC)"

definition afi2str :: "afi \<Rightarrow> string ptr" where
  "afi2str a = (case a of AFI_IP \<Rightarrow> Some ''IPv4'' | AFI_IP6 \<Rightarrow> Some ''IPv6'' | AFI_L2VPN \<Rightarrow> Some ''l2vpn''
     | AFI_MAX \<Rightarrow> Some ''bad-value'' | AFI_UNSPEC \<Rightarrow> None)"

definition prefix_family_str :: "prefix \<Rightarrow> string" where
  "prefix_family_str p = (if p_family p = AF_INET then ''inet'' else if p_family p = AF_INET6 then ''inet6''
     else if p_family p = AF_ETHERNET then ''ether'' else if p_family p = AF_EVPN then ''evpn'' else ''unspec'')"

definition prefix_blen :: "prefix \<Rightarrow> nat" where
  "prefix_blen p = (case p_family p of AF_INET \<Rightarrow> IPV4_MAX_BYTELEN | AF_INET6 \<Rightarrow> IPV6_MAX_BYTELEN
     | AF_ETHERNET \<Rightarrow> ETH_ALEN | _ \<Rightarrow> 0)"

section \<open>Bits and matching\<close>

definition is_zero_mac :: "u8 list \<Rightarrow> bool" where
  "is_zero_mac mac \<longleftrightarrow> (\<forall>b \<in> set (take ETH_ALEN mac). b = 0)"

definition prefix_bit :: "u8 list \<Rightarrow> nat \<Rightarrow> bool option" where
  "prefix_bit pfx prefixlen =
     (let offset = prefixlen div 8; shift = 7 - prefixlen mod 8
      in do { b \<leftarrow> rd pfx offset; Some (drop_bit shift b AND 1 \<noteq> 0) })"

text \<open>The loop \<open>while (offset--) if (np[offset] != pp[offset]) return 0;\<close>.\<close>

fun same_bytes :: "u8 list \<Rightarrow> u8 list \<Rightarrow> nat \<Rightarrow> bool option" where
  "same_bytes np pp 0 = Some True"
| "same_bytes np pp (Suc offset) =
     do { x \<leftarrow> rd np offset; y \<leftarrow> rd pp offset; if x \<noteq> y then Some False else same_bytes np pp offset }"

text \<open>The comparison of the first \<open>len\<close> bits that the matching routines share.\<close>

definition same_network :: "u8 list \<Rightarrow> u8 list \<Rightarrow> nat \<Rightarrow> bool option" where
  "same_network np pp len =
     (let offset = len div PNBBY; shift = len mod PNBBY
      in do { ok \<leftarrow> (if shift \<noteq> 0
                    then do { m \<leftarrow> rd maskbit shift; x \<leftarrow> rd np offset; y \<leftarrow> rd pp offset;
                              Some (m AND (x XOR y) = 0) }
                    else Some True);
              if ok then same_bytes np pp offset else Some False })"

text \<open>The \<open>prefixlen\<close> and \<open>ptr\<close> members of the flowspec variant of the union.\<close>

definition fs_prefixlen :: "prefix \<Rightarrow> nat" where
  "fs_prefixlen p = unat (p_u p ! 0) + 256 * unat (p_u p ! 1)"

definition fs_ptr :: "prefix \<Rightarrow> u8 list" where
  "fs_ptr p = take 8 (drop 8 (p_u p))"

definition prefix_match :: "prefix \<Rightarrow> prefix \<Rightarrow> bool option" where
  "prefix_match n p =
     (if p_prefixlen n > p_prefixlen p then Some False
      else if p_family n = AF_FLOWSPEC
      then (if fs_prefixlen n > fs_prefixlen p then Some False
            else same_bytes (drop 8 (p_u n)) (drop 8 (p_u p)) (fs_prefixlen n))
      else same_network (p_u n) (p_u p) (p_prefixlen n))"

definition prefix_match_network_statement :: "prefix \<Rightarrow> prefix \<Rightarrow> bool option" where
  "prefix_match_network_statement n p = same_network (p_u n) (p_u p) (p_prefixlen n)"

text \<open>\<open>deref\<close> gives the bytes behind the pointer of a flowspec prefix.\<close>

definition prefix_cmp :: "(u8 list \<Rightarrow> u8 list) \<Rightarrow> prefix \<Rightarrow> prefix \<Rightarrow> bool option" where
  "prefix_cmp deref p1 p2 =
     (if p_family p1 \<noteq> p_family p2 then Some True
      else if p_family p1 = AF_FLOWSPEC
      then (if fs_prefixlen p1 \<noteq> fs_prefixlen p2 then Some True
            else map_option Not (same_bytes (deref (fs_ptr p1)) (deref (fs_ptr p2)) (fs_prefixlen p1)))
      else if p_prefixlen p1 \<noteq> p_prefixlen p2 then Some True
      else map_option Not (same_network (p_u p1) (p_u p2) (p_prefixlen p1)))"

text \<open>\<open>memcmp\<close> for equality of the first \<open>n\<close> bytes.\<close>

definition mem_same :: "u8 list \<Rightarrow> u8 list \<Rightarrow> nat \<Rightarrow> bool option" where
  "mem_same a b n = (if n \<le> length a \<and> n \<le> length b then Some (take n a = take n b) else None)"

definition prefix_same :: "prefix ptr \<Rightarrow> prefix ptr \<Rightarrow> bool option" where
  "prefix_same q1 q2 =
     (case (q1, q2) of
        (None, None) \<Rightarrow> Some True
      | (Some p1, Some p2) \<Rightarrow>
          if p_family p1 = p_family p2 \<and> p_prefixlen p1 = p_prefixlen p2
          then (case p_family p1 of
                  AF_INET \<Rightarrow> mem_same (p_u p1) (p_u p2) IPV4_MAX_BYTELEN
                | AF_INET6 \<Rightarrow> mem_same (p_u p1) (p_u p2) IPV6_MAX_BYTELEN
                | AF_ETHERNET \<Rightarrow> mem_same (p_u p1) (p_u p2) ETH_ALEN
                | AF_EVPN \<Rightarrow> mem_same (p_u p1) (p_u p2) EVPN_ADDR_SIZE
                | AF_FLOWSPEC \<Rightarrow>
                    if fs_prefixlen p1 \<noteq> fs_prefixlen p2 then Some False
                    else mem_same (drop 8 (p_u p1)) (drop 8 (p_u p2)) (fs_prefixlen p2)
                | _ \<Rightarrow> Some False)
          else Some False
      | _ \<Rightarrow> Some False)"

fun common_bytes :: "u8 list \<Rightarrow> u8 list \<Rightarrow> nat \<Rightarrow> nat \<Rightarrow> nat option" where
  "common_bytes pp1 pp2 0 pos = Some pos"
| "common_bytes pp1 pp2 (Suc k) pos =
     do { x \<leftarrow> rd pp1 pos; y \<leftarrow> rd pp2 pos; if x \<noteq> y then Some pos else common_bytes pp1 pp2 k (pos + 1) }"

fun leading_zeros :: "u8 \<Rightarrow> nat \<Rightarrow> nat \<Rightarrow> nat" where
  "leading_zeros x 0 b = b"
| "leading_zeros x (Suc k) b = (if x AND push_bit (7 - b) 1 \<noteq> 0 then b else leading_zeros x k (b + 1))"

definition prefix_common_bits :: "prefix \<Rightarrow> prefix \<Rightarrow> int option" where
  "prefix_common_bits p1 p2 =
     (let len = (case p_family p1 of AF_INET \<Rightarrow> IPV4_MAX_BYTELEN | AF_INET6 \<Rightarrow> IPV6_MAX_BYTELEN
                 | AF_ETHERNET \<Rightarrow> ETH_ALEN | AF_EVPN \<Rightarrow> 8 * EVPN_ADDR_SIZE | _ \<Rightarrow> 0)
      in if p_family p1 \<noteq> p_family p2 \<or> len = 0 then Some (- 1)
         else do { pos \<leftarrow> common_bytes (p_u p1) (p_u p2) len 0;
                   if pos = len then Some (int (pos * 8))
                   else do { x \<leftarrow> rd (p_u p1) pos; y \<leftarrow> rd (p_u p2) pos;
                             Some (int (pos * 8 + leading_zeros (x XOR y) 8 0)) } })"

text \<open>
  The union members that \<open>prefix_copy\<close> assigns are the leading bytes of the storage. Copying a flowspec
  prefix allocates: \<open>alloc\<close> is the memory's answer to an allocation holding the given bytes, a
  pointer as 8 bytes.
\<close>

definition copy_bytes :: "nat \<Rightarrow> u8 list \<Rightarrow> u8 list \<Rightarrow> u8 list option" where
  "copy_bytes n dest src = (if n \<le> length src \<and> n \<le> length dest then Some (take n src @ drop n dest) else None)"

definition prefix_copy :: "(u8 list \<Rightarrow> u8 list) \<Rightarrow> (u8 list \<Rightarrow> u8 list) \<Rightarrow> prefix \<Rightarrow> prefix \<Rightarrow> prefix option" where
  "prefix_copy alloc deref dest src =
     (let d = dest\<lparr>p_family := p_family src, p_prefixlen := p_prefixlen src\<rparr>;
          with = (\<lambda>n. map_option (\<lambda>u. d\<lparr>p_u := u\<rparr>) (copy_bytes n (p_u dest) (p_u src)))
      in case p_family src of
           AF_INET \<Rightarrow> with IPV4_MAX_BYTELEN
         | AF_INET6 \<Rightarrow> with IPV6_MAX_BYTELEN
         | AF_ETHERNET \<Rightarrow> with ETH_ALEN
         | AF_EVPN \<Rightarrow> with EVPN_ADDR_SIZE
         | AF_UNSPEC \<Rightarrow> with (2 * IPV4_MAX_BYTELEN)
         | AF_FLOWSPEC \<Rightarrow>
             (let bytes = deref (fs_ptr src); len = fs_prefixlen src
              in do { c_assert (len \<le> length bytes \<and> 16 \<le> length (p_u dest) \<and> 2 \<le> length (p_u src));
                      Some (d\<lparr>p_u := take 2 (p_u src) @ take 6 (drop 2 (p_u dest))
                                     @ take 8 (alloc (take len bytes)) @ drop 16 (p_u dest)\<rparr>) })
         | AF_OTHER _ \<Rightarrow> None)"

section \<open>Masks\<close>

definition htonl :: "u32 \<Rightarrow> u8 list" where
  "htonl w = [ucast (drop_bit 24 w), ucast (drop_bit 16 w), ucast (drop_bit 8 w), ucast w]"

definition ntohl :: "u8 list \<Rightarrow> u32" where
  "ntohl bs = push_bit 24 (ucast (bs ! 0)) OR push_bit 16 (ucast (bs ! 1)) OR push_bit 8 (ucast (bs ! 2)) OR ucast (bs ! 3)"

definition masklen2ip :: "nat \<Rightarrow> u8 list option" where
  "masklen2ip masklen =
     do { c_assert (masklen \<le> IPV4_MAX_BITLEN);
          Some (htonl (ucast (push_bit (32 - masklen) (0xffffffff :: u64)))) }"

text \<open>\<open>__builtin_clz\<close>.\<close>

definition clz32 :: "u32 \<Rightarrow> nat" where
  "clz32 w = length (takeWhile (\<lambda>i. \<not> bit w i) (rev [0..<32]))"

definition ip_masklen :: "u8 list \<Rightarrow> nat" where
  "ip_masklen netmask = (let tmp = NOT (ntohl netmask) in if tmp \<noteq> 0 then clz32 tmp else 32)"

definition and_bytes :: "u8 list \<Rightarrow> u8 list \<Rightarrow> u8 list" where
  "and_bytes xs ys = map2 (AND) xs ys"

definition apply_mask_ipv4 :: "prefix \<Rightarrow> prefix option" where
  "apply_mask_ipv4 p =
     do { mask \<leftarrow> masklen2ip (p_prefixlen p);
          c_assert (4 \<le> length (p_u p));
          Some (p\<lparr>p_u := and_bytes (take 4 (p_u p)) mask @ drop 4 (p_u p)\<rparr>) }"

definition prefix_ipv4_any :: "prefix \<Rightarrow> bool" where
  "prefix_ipv4_any p \<longleftrightarrow> take 4 (p_u p) = [0, 0, 0, 0] \<and> p_prefixlen p = 0"

text \<open>The two loops of \<open>ip6_masklen\<close>; the first reads \<open>*pnt\<close> before it looks at \<open>len\<close>.\<close>

function masklen_bytes :: "u8 list \<Rightarrow> nat \<Rightarrow> nat \<Rightarrow> (nat \<times> nat) option" where
  "masklen_bytes netmask pnt len =
     (case rd netmask pnt of
        None \<Rightarrow> None
      | Some b \<Rightarrow> if b = 0xff \<and> len < IPV6_MAX_BITLEN then masklen_bytes netmask (pnt + 1) (len + 8)
                  else Some (pnt, len))"
  by pat_completeness auto
termination by (relation "measure (\<lambda>(netmask, pnt, len). length netmask - pnt)") (auto simp: rd_eq_Some_iff)

text \<open>\<open>while (val) { len++; val <<= 1; }\<close> on an \<open>unsigned char\<close>; eight rounds empty it.\<close>

fun masklen_bits :: "nat \<Rightarrow> u8 \<Rightarrow> nat \<Rightarrow> nat" where
  "masklen_bits 0 val len = len"
| "masklen_bits (Suc k) val len = (if val \<noteq> 0 then masklen_bits k (push_bit 1 val) (len + 1) else len)"

definition ip6_masklen :: "u8 list \<Rightarrow> nat option" where
  "ip6_masklen netmask =
     do { (pnt, len) \<leftarrow> masklen_bytes netmask 0 0;
          if len < IPV6_MAX_BITLEN then do { val \<leftarrow> rd netmask pnt; Some (masklen_bits 8 val len) }
          else Some len }"

definition masklen2ip6 :: "nat \<Rightarrow> u8 list option" where
  "masklen2ip6 masklen = do { c_assert (masklen \<le> IPV6_MAX_BITLEN); rd maskbytes6 masklen }"

definition apply_mask_ipv6 :: "prefix \<Rightarrow> prefix option" where
  "apply_mask_ipv6 p =
     (let ix = p_prefixlen p div 8
      in if ix < 16
         then do { b \<leftarrow> rd (p_u p) ix;
                   m \<leftarrow> rd maskbit (p_prefixlen p mod 8);
                   c_assert (16 \<le> length (p_u p));
                   Some (p\<lparr>p_u := take ix (p_u p) @ (b AND m) # replicate (15 - ix) 0 @ drop 16 (p_u p)\<rparr>) }
         else Some p)"

definition apply_mask :: "prefix \<Rightarrow> prefix option" where
  "apply_mask p = (case p_family p of AF_INET \<Rightarrow> apply_mask_ipv4 p | AF_INET6 \<Rightarrow> apply_mask_ipv6 p | _ \<Rightarrow> Some p)"

text \<open>\<open>IN_CLASSA\<close>, \<open>IN_CLASSB\<close> and \<open>IN_CLASSC\<close> of the system headers.\<close>

definition IN_CLASSA :: "u32 \<Rightarrow> bool" where "IN_CLASSA a \<longleftrightarrow> a AND 0x80000000 = 0"
definition IN_CLASSB :: "u32 \<Rightarrow> bool" where "IN_CLASSB a \<longleftrightarrow> a AND 0xc0000000 = 0x80000000"
definition IN_CLASSC :: "u32 \<Rightarrow> bool" where "IN_CLASSC a \<longleftrightarrow> a AND 0xe0000000 = 0xc0000000"

definition apply_classful_mask_ipv4 :: "prefix \<Rightarrow> prefix option" where
  "apply_classful_mask_ipv4 p =
     (let destination = ntohl (p_u p)
      in if p_prefixlen p = IPV4_MAX_PREFIXLEN then Some p
         else if IN_CLASSC destination then apply_mask_ipv4 (p\<lparr>p_prefixlen := 24\<rparr>)
         else if IN_CLASSB destination then apply_mask_ipv4 (p\<lparr>p_prefixlen := 16\<rparr>)
         else apply_mask_ipv4 (p\<lparr>p_prefixlen := 8\<rparr>))"

definition ipv4_network_addr :: "u8 list \<Rightarrow> nat \<Rightarrow> u8 list option" where
  "ipv4_network_addr hostaddr masklen = do { mask \<leftarrow> masklen2ip masklen; Some (and_bytes hostaddr mask) }"

definition ipv4_broadcast_addr :: "u8 list \<Rightarrow> nat \<Rightarrow> u8 list option" where
  "ipv4_broadcast_addr hostaddr masklen =
     do { mask \<leftarrow> masklen2ip masklen;
          Some (if masklen \<noteq> IPV4_MAX_PREFIXLEN - 1
                then map2 (\<lambda>a m. a OR NOT m) hostaddr mask
                else map2 (\<lambda>a m. a XOR NOT m) hostaddr mask) }"

section \<open>Text\<close>

text \<open>
  The text before the first slash and, when there is a slash, the text after it. Strings are without
  their terminator here.
\<close>

definition split_slash :: "string \<Rightarrow> string \<times> string ptr" where
  "split_slash str =
     (case dropWhile (\<lambda>ch. ch \<noteq> CHR ''/'') str of
        [] \<Rightarrow> (str, None)
      | _ # r \<Rightarrow> (takeWhile (\<lambda>ch. ch \<noteq> CHR ''/'') str, Some r))"

text \<open>\<open>plen = (uint8_t)atoi(...)\<close>.\<close>

definition plen_of :: "string \<Rightarrow> nat option" where
  "plen_of s = map_option (\<lambda>v. nat (v mod 256)) (atoi s)"

text \<open>
  \<open>str2prefix_ipv4\<close> and its siblings return the prefix they have written and the return value; the
  library functions give the address bytes or NULL for a string they do not accept.
\<close>

definition set_addr :: "prefix \<Rightarrow> u8 list \<Rightarrow> prefix" where
  "set_addr p bs = p\<lparr>p_u := bs @ drop (length bs) (p_u p)\<rparr>"

definition str2prefix_ipv4 ::
  "(string \<Rightarrow> u8 list ptr) \<Rightarrow> (string \<Rightarrow> u8 list ptr) \<Rightarrow> string \<Rightarrow> prefix \<Rightarrow> (prefix \<times> bool) option" where
  "str2prefix_ipv4 pton aton str p =
     (case split_slash str of
        (_, None) \<Rightarrow>
          (case pton str of
             None \<Rightarrow> Some (p, False)
           | Some bs \<Rightarrow> Some ((set_addr p bs)\<lparr>p_family := AF_INET, p_prefixlen := IPV4_MAX_BITLEN\<rparr>, True))
      | (cp, Some pnt) \<Rightarrow>
          (let (p1, ret) = (case aton cp of None \<Rightarrow> (p, False) | Some bs \<Rightarrow> (set_addr p bs, True))
           in do { plen \<leftarrow> plen_of pnt;
                   Some (if plen > IPV4_MAX_PREFIXLEN then (p1, False)
                         else (p1\<lparr>p_family := AF_INET, p_prefixlen := plen\<rparr>, ret)) }))"

definition str2prefix_ipv6 :: "(string \<Rightarrow> u8 list ptr) \<Rightarrow> string \<Rightarrow> prefix \<Rightarrow> (prefix \<times> bool) option" where
  "str2prefix_ipv6 pton6 str p =
     (case split_slash str of
        (_, None) \<Rightarrow>
          (case pton6 str of
             None \<Rightarrow> Some (p, False)
           | Some bs \<Rightarrow> Some ((set_addr p bs)\<lparr>p_prefixlen := IPV6_MAX_BITLEN, p_family := AF_INET6\<rparr>, True))
      | (cp, Some pnt) \<Rightarrow>
          (case pton6 cp of
             None \<Rightarrow> Some (p, False)
           | Some bs \<Rightarrow>
               do { plen \<leftarrow> plen_of pnt;
                    Some (if plen > IPV6_MAX_BITLEN then (set_addr p bs, False)
                          else ((set_addr p bs)\<lparr>p_prefixlen := plen, p_family := AF_INET6\<rparr>, True)) }))"

text \<open>The copy that \<open>str2prefix_eth\<close> scans ends with the slash, since \<open>pnt\<close> has moved past it.\<close>

definition str2prefix_eth :: "string \<Rightarrow> prefix \<Rightarrow> (prefix \<times> bool) option" where
  "str2prefix_eth str p =
     (if str = ''any''
      then Some (\<lparr>p_family = AF_ETHERNET, p_prefixlen = 0,
                  p_u = replicate (min 8 (length (p_u p))) 0 @ drop 8 (p_u p)\<rparr>, True)
      else do { (plen, str_addr, slash) \<leftarrow>
                  (case split_slash str of
                     (_, None) \<Rightarrow> Some (48, str, False)
                   | (cp, Some pnt) \<Rightarrow> do { plen \<leftarrow> plen_of pnt; Some (plen, cp @ ''/'', True) });
                if slash \<and> plen > 48 then Some (p, False)
                else (case scan_hex_colon ETH_ALEN str_addr of
                        None \<Rightarrow> Some (p, False)
                      | Some a \<Rightarrow>
                          (let p1 = (set_addr p (map (\<lambda>v. ucast (v AND 0xff)) a))\<lparr>p_prefixlen := plen, p_family := AF_ETHERNET\<rparr>
                           in Some (if \<not> slash \<and> is_zero_mac (p_u p1) then p1\<lparr>p_prefixlen := 0\<rparr> else p1, True))) })"

definition str2prefix ::
  "(string \<Rightarrow> u8 list ptr) \<Rightarrow> (string \<Rightarrow> u8 list ptr) \<Rightarrow> (string \<Rightarrow> u8 list ptr)
    \<Rightarrow> string ptr \<Rightarrow> prefix ptr \<Rightarrow> (prefix ptr \<times> bool) option" where
  "str2prefix pton aton pton6 sp pp =
     (case (sp, pp) of
        (Some str, Some p) \<Rightarrow>
          do { (p1, ret) \<leftarrow> str2prefix_ipv4 pton aton str p;
               if ret then Some (Some p1, ret)
               else do { (p2, ret) \<leftarrow> str2prefix_ipv6 pton6 str p1;
                         if ret then Some (Some p2, ret)
                         else do { (p3, ret) \<leftarrow> str2prefix_eth str p2; Some (Some p3, ret) } } }
      | _ \<Rightarrow> Some (pp, False))"

definition prefix_str2mac :: "string ptr \<Rightarrow> u8 list ptr" where
  "prefix_str2mac sp =
     (case sp of None \<Rightarrow> None
      | Some str \<Rightarrow> map_option (map (\<lambda>v. ucast (v AND 0xff))) (scan_hex_colon ETH_ALEN str))"

definition prefix_mac2str :: "u8 list \<Rightarrow> string option" where
  "prefix_mac2str mac = do { c_assert (ETH_ALEN \<le> length mac); Some (print_hex_colon (take ETH_ALEN mac)) }"

definition str_to_esi :: "string ptr \<Rightarrow> u8 list ptr" where
  "str_to_esi sp =
     (case sp of None \<Rightarrow> None
      | Some str \<Rightarrow> map_option (map (\<lambda>v. ucast (v AND 0xff))) (scan_hex_colon ESI_BYTES str))"

definition esi_to_str :: "u8 list \<Rightarrow> string option" where
  "esi_to_str esi = do { c_assert (ESI_BYTES \<le> length esi); Some (print_hex_colon (take ESI_BYTES esi)) }"

text \<open>The suffix \<open>/len\<close> that \<open>prefix2str\<close> writes digit by digit.\<close>

definition plen_digits :: "nat \<Rightarrow> string" where
  "plen_digits prefixlen =
     (let z = (prefixlen \<ge> 100); byte = (if z then prefixlen - 100 else prefixlen);
          b = byte mod 10; a = byte div 10
      in (if z then ''1'' else []) @ (if a \<noteq> 0 \<or> z then [char_of (48 + a)] else []) @ [char_of (48 + b)])"

definition prefix2str_ip :: "(family \<Rightarrow> u8 list \<Rightarrow> string) \<Rightarrow> prefix \<Rightarrow> string" where
  "prefix2str_ip ntop p = ntop (p_family p) (p_u p) @ ''/'' @ plen_digits (p_prefixlen p)"

definition PSIZE :: "nat \<Rightarrow> nat" where "PSIZE a = (a + 7) div 8"

text \<open>
  \<open>prefix_hash_key\<close> hashes the bytes of a zeroed copy: family, padding, length, padding, then the
  address bytes up to the prefix length. \<open>af\<close> gives the system's number of a family.
\<close>

definition prefix_hash_key :: "(family \<Rightarrow> u8) \<Rightarrow> (u8 list \<Rightarrow> u8 list) \<Rightarrow> (u8 list \<Rightarrow> u8 list) \<Rightarrow> prefix \<Rightarrow> u32 option" where
  "prefix_hash_key af alloc deref p =
     (if p_family p = AF_FLOWSPEC
      then jhash (deref (fs_ptr p)) (of_nat (fs_prefixlen p)) 0x55aa5a5a
      else do { copy \<leftarrow> prefix_copy alloc deref
                          \<lparr>p_family = AF_UNSPEC, p_prefixlen = 0, p_u = replicate PREFIX_U_SIZE 0\<rparr> p;
                jhash ([af (p_family copy), 0, of_nat (p_prefixlen copy), of_nat (p_prefixlen copy div 256), 0, 0, 0, 0] @ p_u copy)
                  (of_nat (8 + PSIZE (p_prefixlen copy))) 0x55aa5a5a })"

end
