(* ===== verification/Prefix_Laws.thy ===== *)
theory Prefix_Laws
  imports Prefix
begin

text \<open>
  What the routines of \<open>prefix.c\<close> compute, stated over the bits of an address: bit \<open>i\<close> of a byte
  string is counted from the most significant bit of its first byte, as network prefixes count.
\<close>

named_theorems bits \<open>addresses as bit strings\<close>

definition bit_at :: "u8 list \<Rightarrow> nat \<Rightarrow> bool" where
  "bit_at bs i = bit (bs ! (i div 8)) (7 - i mod 8)"

lemma byte_eq_bits: "(x :: u8) = y \<longleftrightarrow> (\<forall>k < 8. bit x (7 - k) = bit y (7 - k))"
proof
  assume r: "\<forall>k < 8. bit x (7 - k) = bit y (7 - k)"
  have "bit x n = bit y n" if "n < 8" for n
    using r [rule_format, of "7 - n"] that by simp
  then show "x = y" by (intro bit_word_eqI) simp
qed simp

text \<open>Quantifying over the first \<open>len\<close> bits is quantifying over whole bytes and the bits of one more.\<close>

lemma all_bits_split:
  fixes len :: nat
  shows "(\<forall>i < len. P (i div 8) (i mod 8)) \<longleftrightarrow>
     (\<forall>j < len div 8. \<forall>k < 8. P j k) \<and> (\<forall>k < len mod 8. P (len div 8) k)"
proof (intro iffI conjI allI impI)
  fix j k :: nat
  assume a: "\<forall>i < len. P (i div 8) (i mod 8)" and "j < len div 8" "k < 8"
  then have "8 * j + k < len" by linarith
  with a have "P ((8 * j + k) div 8) ((8 * j + k) mod 8)" by blast
  with \<open>k < 8\<close> show "P j k" by simp
next
  fix k :: nat
  assume a: "\<forall>i < len. P (i div 8) (i mod 8)" and "k < len mod 8"
  moreover have "8 * (len div 8) + len mod 8 = len" "len mod 8 < 8" by simp_all
  ultimately have "8 * (len div 8) + k < len" "k < 8" by linarith+
  with a have "P ((8 * (len div 8) + k) div 8) ((8 * (len div 8) + k) mod 8)" by blast
  with \<open>k < 8\<close> show "P (len div 8) k" by simp
next
  fix i :: nat
  assume a: "(\<forall>j < len div 8. \<forall>k < 8. P j k) \<and> (\<forall>k < len mod 8. P (len div 8) k)" and "i < len"
  moreover have "i div 8 \<le> len div 8" using \<open>i < len\<close> by (simp add: div_le_mono)
  moreover have "8 * (len div 8) + len mod 8 = len" "8 * (i div 8) + i mod 8 = i" by simp_all
  ultimately consider "i div 8 < len div 8" | "i div 8 = len div 8" "i mod 8 < len mod 8" by linarith
  then show "P (i div 8) (i mod 8)" using a by cases auto
qed

lemma same_bits_iff:
  "(\<forall>i < len. bit_at xs i = bit_at ys i) \<longleftrightarrow>
     (\<forall>j < len div 8. xs ! j = ys ! j)
     \<and> (\<forall>k < len mod 8. bit (xs ! (len div 8)) (7 - k) = bit (ys ! (len div 8)) (7 - k))"
  unfolding bit_at_def byte_eq_bits
  by (rule all_bits_split [of len "\<lambda>j k. bit (xs ! j) (7 - k) = bit (ys ! j) (7 - k)"])

lemma maskbit_bits_all: "list_all (\<lambda>s. list_all (\<lambda>k. bit (maskbit ! s) (7 - k) = (k < s)) [0..<8]) [0..<9]"
  unfolding maskbit_def by code_simp

lemma bit_maskbit: "s < 9 \<Longrightarrow> k < 8 \<Longrightarrow> bit (maskbit ! s) (7 - k) \<longleftrightarrow> k < s"
  using maskbit_bits_all by (simp add: list_all_iff)

lemma length_maskbit: "length maskbit = 9"
  by (simp add: maskbit_def)

lemma masked_same:
  assumes "s < 9"
  shows "maskbit ! s AND (x XOR y) = 0 \<longleftrightarrow> (\<forall>k < s. bit x (7 - k) = bit y (7 - k))"
  unfolding byte_eq_bits using assms
  by (auto simp: bit_and_iff bit_xor_iff bit_maskbit)

lemma same_bytes_iff:
  "n \<le> length xs \<Longrightarrow> n \<le> length ys \<Longrightarrow> same_bytes xs ys n = Some (\<forall>j < n. xs ! j = ys ! j)"
  by (induction n) (auto simp: c_simps less_Suc_eq)

lemma same_network_iff:
  assumes "len \<le> 8 * length xs" "len \<le> 8 * length ys"
  shows "same_network xs ys len = Some (\<forall>i < len. bit_at xs i = bit_at ys i)"
proof -
  have d: "len div 8 \<le> length xs" "len div 8 \<le> length ys" using assms by linarith+
  show ?thesis
  proof (cases "len mod 8 = 0")
    case True
    then show ?thesis using d by (simp add: same_network_def PNBBY_def same_bytes_iff same_bits_iff)
  next
    case False
    moreover have "8 * (len div 8) + len mod 8 = len" "len mod 8 < 8" by simp_all
    ultimately have "len div 8 < length xs" "len div 8 < length ys" "len mod 8 < 9" using assms by linarith+
    then show ?thesis
      using False d
      by (auto simp: same_network_def PNBBY_def Let_def same_bytes_iff same_bits_iff c_simps length_maskbit
          masked_same)
  qed
qed

lemma prefix_bit_at: "i < 8 * length bs \<Longrightarrow> prefix_bit bs i = Some (bit_at bs i)"
proof -
  assume "i < 8 * length bs"
  then have "i div 8 < length bs" by linarith
  moreover have "drop_bit s b AND 1 \<noteq> 0 \<longleftrightarrow> bit b s" for b :: u8 and s
    by (simp add: bit_iff_odd_drop_bit and_one_eq odd_iff_mod_2_eq_one)
  ultimately show ?thesis by (simp add: prefix_bit_def bit_at_def rd_Some)
qed


section \<open>Masks\<close>

text \<open>The mask of \<open>n\<close> ones in \<open>w\<close> bytes.\<close>

definition mask_row :: "nat \<Rightarrow> nat \<Rightarrow> u8 list" where
  "mask_row w n = take w (replicate (n div 8) 0xff @ maskbit ! (n mod 8) # replicate w 0)"

lemma length_mask_row [simp]: "length (mask_row w n) = w"
  by (simp add: mask_row_def)

lemma mask_row_nth:
  "j < w \<Longrightarrow> mask_row w n ! j = (if j < n div 8 then 0xff else if j = n div 8 then maskbit ! (n mod 8) else 0)"
  by (auto simp: mask_row_def nth_append nth_Cons')

lemma bit_ff: "k < 8 \<Longrightarrow> bit (0xff :: u8) (7 - k)"
  using bit_maskbit [of 8 k] by (simp add: maskbit_def)

lemma bit_mask_row:
  assumes "i < 8 * w"
  shows "bit_at (mask_row w n) i \<longleftrightarrow> i < n"
proof -
  have i: "i div 8 < w" "i mod 8 < 8" "8 * (i div 8) + i mod 8 = i" using assms by (simp_all add: less_mult_imp_div_less mult.commute)
  have n: "8 * (n div 8) + n mod 8 = n" "n mod 8 < 9" using mod_less_divisor [of 8 n] by simp_all
  consider "i div 8 < n div 8" | "i div 8 = n div 8" | "i div 8 > n div 8" by linarith
  then show ?thesis
  proof cases
    case 1
    then have "i < n" using i n by linarith
    moreover have "mask_row w n ! (i div 8) = 0xff" using 1 i by (simp add: mask_row_nth)
    ultimately show ?thesis unfolding bit_at_def using bit_ff [OF i(2)] by simp
  next
    case 2
    then have "mask_row w n ! (i div 8) = maskbit ! (n mod 8)" using i by (simp add: mask_row_nth)
    moreover have "i mod 8 < n mod 8 \<longleftrightarrow> i < n" using 2 i n by linarith
    ultimately show ?thesis unfolding bit_at_def using bit_maskbit [OF n(2) i(2)] by simp
  next
    case 3
    then have "\<not> i < n" using i n by linarith
    moreover have "mask_row w n ! (i div 8) = 0" using 3 i by (simp add: mask_row_nth)
    ultimately show ?thesis by (simp add: bit_at_def)
  qed
qed

lemma masklen2ip_row: "n \<le> 32 \<Longrightarrow> masklen2ip n = Some (mask_row 4 n)"
proof -
  assume "n \<le> 32"
  moreover have "list_all (\<lambda>n. masklen2ip n = Some (mask_row 4 n)) [0..<33]"
    by code_simp
  ultimately show ?thesis by (simp add: list_all_iff)
qed

lemma maskbytes6_rows: "maskbytes6 = map (mask_row 16) [0..<129]"
  by code_simp

lemma masklen2ip6_row: "n \<le> 128 \<Longrightarrow> masklen2ip6 n = Some (mask_row 16 n)"
  by (simp add: masklen2ip6_def prefix_consts maskbytes6_rows rd_def del: upt_Suc)

lemma bit_at_append_left: "i < 8 * length xs \<Longrightarrow> bit_at (xs @ ys) i = bit_at xs i"
  by (simp add: bit_at_def nth_append less_mult_imp_div_less mult.commute)

lemma bit_at_take: "i < 8 * k \<Longrightarrow> bit_at (take k xs) i = bit_at xs i"
  by (simp add: bit_at_def less_mult_imp_div_less mult.commute)

lemma bit_at_and_bytes:
  assumes "i < 8 * length xs" "length ys = length xs"
  shows "bit_at (and_bytes xs ys) i \<longleftrightarrow> bit_at xs i \<and> bit_at ys i"
proof -
  have "i div 8 < length xs" using assms(1) by (simp add: less_mult_imp_div_less mult.commute)
  then show ?thesis using assms(2) by (simp add: bit_at_def and_bytes_def bit_and_iff)
qed

lemma and_ff: "(x :: u8) AND 0xff = x"
  unfolding byte_eq_bits bit_and_iff using bit_ff by blast

lemma and_bytes_nth:
  "j < length xs \<Longrightarrow> j < length ys \<Longrightarrow> and_bytes xs ys ! j = xs ! j AND ys ! j"
  by (simp add: and_bytes_def)

lemma length_and_bytes [simp]: "length (and_bytes xs ys) = min (length xs) (length ys)"
  by (simp add: and_bytes_def)

lemma apply_mask_ipv6_and:
  assumes "p_prefixlen p \<le> 128" "16 \<le> length (p_u p)"
  shows "apply_mask_ipv6 p = Some (p\<lparr>p_u := and_bytes (take 16 (p_u p)) (mask_row 16 (p_prefixlen p)) @ drop 16 (p_u p)\<rparr>)"
proof (cases "p_prefixlen p div 8 < 16")
  case True
  let ?n = "p_prefixlen p" and ?j = "p_prefixlen p div 8"
  have "and_bytes (take 16 (p_u p)) (mask_row 16 ?n)
        = take ?j (p_u p) @ (p_u p ! ?j AND maskbit ! (?n mod 8)) # replicate (15 - ?j) 0"
    (is "?l = ?r")
  proof (rule nth_equalityI)
    fix i assume "i < length ?l"
    then have i: "i < 16" by simp
    then show "?l ! i = ?r ! i"
      using assms(2) True by (simp add: and_bytes_nth mask_row_nth nth_append nth_Cons' and_ff)
  qed (use assms(2) True in simp)
  then show ?thesis
    using True assms(2) by (simp add: apply_mask_ipv6_def rd_Some length_maskbit Let_def less_imp_le)
next
  case False
  then have n: "p_prefixlen p = 128" using assms(1) by linarith
  have "and_bytes xs (mask_row 16 128) = xs" if "length xs = 16" for xs
    using that by (intro nth_equalityI) (simp_all add: and_bytes_nth mask_row_nth and_ff)
  then show ?thesis using n assms(2) by (simp add: apply_mask_ipv6_def)
qed

lemma apply_mask_and:
  assumes "p_family p = AF_INET \<and> p_prefixlen p \<le> 32 \<or> p_family p = AF_INET6 \<and> p_prefixlen p \<le> 128"
    and "prefix_blen p \<le> length (p_u p)"
  shows "apply_mask p = Some (p\<lparr>p_u := and_bytes (take (prefix_blen p) (p_u p)) (mask_row (prefix_blen p) (p_prefixlen p))
           @ drop (prefix_blen p) (p_u p)\<rparr>)"
  using assms
  by (auto simp: apply_mask_def prefix_blen_def prefix_consts apply_mask_ipv4_def masklen2ip_row apply_mask_ipv6_and)

section \<open>Common bits\<close>

lemma common_bytes_spec:
  "pos + n \<le> length xs \<Longrightarrow> pos + n \<le> length ys \<Longrightarrow>
   \<exists>r. common_bytes xs ys n pos = Some r \<and> pos \<le> r \<and> r \<le> pos + n
     \<and> (\<forall>j. pos \<le> j \<and> j < r \<longrightarrow> xs ! j = ys ! j) \<and> (r < pos + n \<longrightarrow> xs ! r \<noteq> ys ! r)"
proof (induction n arbitrary: pos)
  case (Suc n)
  show ?case
  proof (cases "xs ! pos = ys ! pos")
    case True
    obtain r where r: "common_bytes xs ys n (pos + 1) = Some r" "pos + 1 \<le> r" "r \<le> pos + 1 + n"
      "\<forall>j. pos + 1 \<le> j \<and> j < r \<longrightarrow> xs ! j = ys ! j" "r < pos + 1 + n \<longrightarrow> xs ! r \<noteq> ys ! r"
      using Suc.IH [of "pos + 1"] Suc.prems by auto
    have "xs ! j = ys ! j" if "pos \<le> j" "j < r" for j
      using that True r(4) by (cases "j = pos") auto
    then show ?thesis using r True Suc.prems by (intro exI [of _ r]) (simp add: rd_Some)
  qed (use Suc.prems in \<open>auto simp: rd_Some\<close>)
qed auto

lemma leading_zeros_spec:
  fixes x :: u8
  assumes "b + k = 8"
  shows "b \<le> leading_zeros x k b \<and> leading_zeros x k b \<le> 8
    \<and> (\<forall>j. b \<le> j \<and> j < leading_zeros x k b \<longrightarrow> \<not> bit x (7 - j))
    \<and> (leading_zeros x k b < 8 \<longrightarrow> bit x (7 - leading_zeros x k b))"
  using assms
proof (induction k arbitrary: b)
  case (Suc k)
  show ?case
  proof (cases "bit x (7 - b)")
    case False
    have h: "\<not> bit x (7 - j)" if "b \<le> j" "j < leading_zeros x k (b + 1)" for j
      using that False Suc.IH [of "b + 1"] Suc.prems by (cases "j = b") auto
    show ?thesis using Suc.IH [of "b + 1"] Suc.prems False h by (simp add: and_exp_eq_0_iff_not_bit)
  qed (use Suc.prems in \<open>auto simp: and_exp_eq_0_iff_not_bit\<close>)
qed auto

lemma common_bits_spec:
  assumes "n \<le> length xs" "n \<le> length ys" "common_bytes xs ys n 0 = Some pos" "pos < n"
  defines "r \<equiv> pos * 8 + leading_zeros (xs ! pos XOR ys ! pos) 8 0"
  shows "r < 8 * n \<and> (\<forall>i < r. bit_at xs i = bit_at ys i) \<and> bit_at xs r \<noteq> bit_at ys r"
proof -
  let ?z = "leading_zeros (xs ! pos XOR ys ! pos) 8 0"
  have p: "\<forall>j < pos. xs ! j = ys ! j" "xs ! pos \<noteq> ys ! pos"
    using common_bytes_spec [of 0 n xs ys] assms by auto
  have z: "?z \<le> 8" "\<forall>j < ?z. \<not> bit (xs ! pos XOR ys ! pos) (7 - j)"
    "?z < 8 \<longrightarrow> bit (xs ! pos XOR ys ! pos) (7 - ?z)"
    using leading_zeros_spec [of 0 8 "xs ! pos XOR ys ! pos"] by auto
  have "?z \<noteq> 8" using z(2) p(2) byte_eq_bits [of "xs ! pos" "ys ! pos"] by (auto simp: bit_xor_iff)
  then have z8: "?z < 8" using z(1) by simp
  then have d: "r div 8 = pos" "r mod 8 = ?z" by (simp_all add: r_def)
  show ?thesis
  proof (intro conjI)
    show "r < 8 * n" using z8 assms(4) by (simp add: r_def)
    show "\<forall>i < r. bit_at xs i = bit_at ys i"
      unfolding same_bits_iff d using p(1) z(2) by (simp add: bit_xor_iff)
    show "bit_at xs r \<noteq> bit_at ys r"
      unfolding bit_at_def d using z(3) z8 by (simp add: bit_xor_iff)
  qed
qed

section \<open>Text\<close>

lemma scanned_bytes: "map (\<lambda>v. ucast (v AND 0xff) :: u8) (map (ucast :: u8 \<Rightarrow> u32) bs) = bs"
proof -
  have m: "(0xff :: u32) = mask 8" by (simp add: mask_eq_exp_minus_1)
  have "(ucast (ucast b AND (0xff :: u32)) :: u8) = b" for b :: u8
    unfolding m by (intro bit_word_eqI) (auto simp: bit_simps)
  then show ?thesis by (simp add: comp_def)
qed

lemma split_slash_append:
  assumes "CHR ''/'' \<notin> set a"
  shows "split_slash (a @ CHR ''/'' # r) = (a, Some r)"
proof -
  have "dropWhile (\<lambda>ch. ch \<noteq> CHR ''/'') (a @ CHR ''/'' # r) = CHR ''/'' # r"
    "takeWhile (\<lambda>ch. ch \<noteq> CHR ''/'') (a @ CHR ''/'' # r) = a"
    using assms by (induction a) auto
  then show ?thesis by (simp add: split_slash_def)
qed

lemma digit_char:
  assumes "d < 10"
  shows "isdigit (char_of (48 + d))" "digit_val (char_of (48 + d)) = d"
  using assms by (simp_all add: isdigit_def digit_val_def char_code_def)

lemma atoi_digits:
  assumes "ds \<noteq> []" "list_all isdigit ds" "dec_val ds < 2 ^ 31"
  shows "atoi ds = Some (int (dec_val ds))"
proof -
  obtain ch r where ds: "ds = ch # r" using assms(1) by (cases ds) auto
  then have "isdigit ch" using assms(2) by simp
  then have "\<not> isspace ch" "ch \<noteq> CHR ''-''" "ch \<noteq> CHR ''+''"
    by (auto simp: isdigit_def isspace_def char_code_def)
  moreover have "takeWhile isdigit ds = ds" using assms(2) by (simp add: list_all_iff)
  moreover have "int (dec_val ds) < 2 ^ 31" using assms(3) by simp
  ultimately show ?thesis using ds by (simp add: atoi_def Let_def)
qed

lemma plen_digits_dec:
  assumes "n \<le> 199"
  shows "plen_digits n \<noteq> []" "list_all isdigit (plen_digits n)" "dec_val (plen_digits n) = n"
proof -
  have "isdigit CHR ''1''" "digit_val CHR ''1'' = 1" by (simp_all add: isdigit_def digit_val_def char_code_def)
  moreover have "n mod 10 < 10" "n \<ge> 100 \<Longrightarrow> (n - 100) div 10 < 10" "(n - 100) mod 10 < 10" "\<not> n \<ge> 100 \<Longrightarrow> n div 10 < 10"
    using assms by auto
  ultimately show "plen_digits n \<noteq> []" "list_all isdigit (plen_digits n)" "dec_val (plen_digits n) = n"
    using assms by (auto simp: plen_digits_def Let_def digit_char dec_val_def)
qed

lemma plen_of_digits: "n \<le> 199 \<Longrightarrow> plen_of (plen_digits n) = Some n"
  using atoi_digits [of "plen_digits n"] plen_digits_dec [of n] by (simp add: plen_of_def)

lemma ip_masklen_row: "n \<le> 32 \<Longrightarrow> ip_masklen (mask_row 4 n) = n"
proof -
  assume "n \<le> 32"
  moreover have "list_all (\<lambda>n. ip_masklen (mask_row 4 n) = n) [0..<33]" by code_simp
  ultimately show ?thesis by (simp add: list_all_iff)
qed

lemma ip6_masklen_row: "n < 128 \<Longrightarrow> ip6_masklen (mask_row 16 n) = Some n"
proof -
  assume "n < 128"
  moreover have "list_all (\<lambda>n. ip6_masklen (mask_row 16 n) = Some n) [0..<128]" by code_simp
  ultimately show ?thesis by (simp add: list_all_iff)
qed

lemma ip6_masklen_ones: "ip6_masklen (mask_row 16 128) = None"
  by code_simp

section \<open>Properties\<close>

text \<open>
  C37: outside flowspec, \<open>prefix_match n p\<close> holds exactly when \<open>n\<close> is no longer than \<open>p\<close> and the
  first \<open>prefixlen\<close> bits of \<open>n\<close>, counted from the most significant bit of the first byte, are those
  of \<open>p\<close>; and \<open>prefix_cmp\<close> answers 0 exactly for prefixes of the same family and length with the
  same network bits, whatever their host bits.
\<close>

theorem prefix_match_cmp_bits:
  assumes "p_family n \<noteq> AF_FLOWSPEC" "p_prefixlen n \<le> 8 * length (p_u n)" "p_prefixlen p \<le> 8 * length (p_u p)"
  shows "prefix_match n p = Some (p_prefixlen n \<le> p_prefixlen p \<and> (\<forall>i < p_prefixlen n. bit_at (p_u n) i = bit_at (p_u p) i))
    \<and> prefix_cmp deref n p = Some (\<not> (p_family n = p_family p \<and> p_prefixlen n = p_prefixlen p
         \<and> (\<forall>i < p_prefixlen n. bit_at (p_u n) i = bit_at (p_u p) i)))"
  using assms same_network_iff [of "p_prefixlen n" "p_u n" "p_u p"]
  by (auto simp: prefix_match_def prefix_cmp_def not_less)

theorem prefix_match_cmp_bits_witness:
  defines "n \<equiv> \<lparr>p_family = AF_INET, p_prefixlen = 9, p_u = [10, 0x80, 0, 0]\<rparr>"
    and "p \<equiv> \<lparr>p_family = AF_INET, p_prefixlen = 16, p_u = [10, 0xff, 7, 7]\<rparr>"
  shows "prefix_match n p = Some True \<and> prefix_cmp (\<lambda>x. x) n p = Some True"
proof -
  have "\<forall>i < 9. bit_at [10, 0x80, 0, 0] i = bit_at [10, 0xff, 7, 7] i"
    unfolding same_bits_iff by (auto simp: less_Suc_eq)
  then show ?thesis using prefix_match_cmp_bits [of n p "\<lambda>x. x"] by (simp add: n_def p_def)
qed

text \<open>
  C38: masking an IPv4 or IPv6 prefix keeps exactly its network bits and clears every host bit, touches
  nothing beyond the address, gives a prefix that \<open>prefix_cmp\<close> considers the same, and masking it again
  changes nothing.
\<close>

theorem apply_mask_correct:
  assumes "p_family p = AF_INET \<and> p_prefixlen p \<le> 32 \<or> p_family p = AF_INET6 \<and> p_prefixlen p \<le> 128"
    and "prefix_blen p \<le> length (p_u p)"
  shows "\<exists>q. apply_mask p = Some q \<and> p_family q = p_family p \<and> p_prefixlen q = p_prefixlen p
     \<and> length (p_u q) = length (p_u p) \<and> drop (prefix_blen p) (p_u q) = drop (prefix_blen p) (p_u p)
     \<and> (\<forall>i < 8 * prefix_blen p. bit_at (p_u q) i \<longleftrightarrow> i < p_prefixlen p \<and> bit_at (p_u p) i)
     \<and> prefix_cmp deref p q = Some False \<and> apply_mask q = Some q"
proof -
  let ?k = "prefix_blen p" and ?m = "mask_row (prefix_blen p) (p_prefixlen p)"
  define q where "q = p\<lparr>p_u := and_bytes (take ?k (p_u p)) ?m @ drop ?k (p_u p)\<rparr>"
  have q: "p_family q = p_family p" "p_prefixlen q = p_prefixlen p" "prefix_blen q = ?k"
    "length (p_u q) = length (p_u p)" "drop ?k (p_u q) = drop ?k (p_u p)"
    using assms(2) by (simp_all add: q_def prefix_blen_def)
  have len: "p_prefixlen p \<le> 8 * ?k" using assms(1) by (auto simp: prefix_blen_def prefix_consts)
  have b: "bit_at (p_u q) i \<longleftrightarrow> i < p_prefixlen p \<and> bit_at (p_u p) i" if "i < 8 * ?k" for i
    using that assms(2)
    by (auto simp: q_def bit_at_append_left bit_at_and_bytes bit_at_take bit_mask_row)
  have "prefix_cmp deref p q = Some (\<not> (\<forall>i < p_prefixlen p. bit_at (p_u p) i = bit_at (p_u q) i))"
    using assms len q same_network_iff [of "p_prefixlen p" "p_u p" "p_u q"] by (auto simp: prefix_cmp_def)
  then have c: "prefix_cmp deref p q = Some False" using b len by auto
  have "and_bytes (take ?k (p_u q)) ?m = take ?k (p_u q)"
    using assms(2) by (intro nth_equalityI) (simp_all add: q_def and_bytes_nth and.assoc)
  moreover have "take ?k (p_u q) @ drop ?k (p_u p) = p_u q" using q(5) by (metis append_take_drop_id)
  ultimately have "apply_mask q = Some q"
    using apply_mask_and [of q] assms q by simp
  then show ?thesis
    using apply_mask_and [OF assms] b c q unfolding q_def [symmetric] by auto
qed

theorem apply_mask_correct_witness:
  "apply_mask \<lparr>p_family = AF_INET, p_prefixlen = 12, p_u = [10, 0xff, 7, 7]\<rparr>
     = Some \<lparr>p_family = AF_INET, p_prefixlen = 12, p_u = [10, 0xf0, 0, 0]\<rparr>
   \<and> apply_mask \<lparr>p_family = AF_INET, p_prefixlen = 12, p_u = [10, 0xf0, 0, 0]\<rparr>
     = Some \<lparr>p_family = AF_INET, p_prefixlen = 12, p_u = [10, 0xf0, 0, 0]\<rparr>"
proof -
  have "apply_mask \<lparr>p_family = AF_INET, p_prefixlen = 12, p_u = [10, 0xff, 7, 7]\<rparr>
     = Some \<lparr>p_family = AF_INET, p_prefixlen = 12, p_u = [10, 0xf0, 0, 0]\<rparr>" by code_simp
  then show ?thesis
    using apply_mask_correct [of "\<lparr>p_family = AF_INET, p_prefixlen = 12, p_u = [10, 0xff, 7, 7]\<rparr>"]
    by (simp add: prefix_blen_def prefix_consts)
qed

text \<open>
  \<open>ip_masklen\<close> recovers the length of every mask \<open>masklen2ip\<close> makes, and \<open>ip6_masklen\<close> that of
  every mask \<open>masklen2ip6\<close> makes except the mask of 128 ones, on which it reads past the address.
\<close>

theorem masklen_roundtrip:
  assumes "m \<le> 32" "n \<le> 128"
  shows "(\<exists>mask. masklen2ip m = Some mask \<and> ip_masklen mask = m)
     \<and> (\<exists>mask. masklen2ip6 n = Some mask \<and> ip6_masklen mask = (if n = 128 then None else Some n))"
  using assms by (simp add: masklen2ip_row masklen2ip6_row ip_masklen_row ip6_masklen_row ip6_masklen_ones)

text \<open>
  for two prefixes of the same IPv4, IPv6 or Ethernet family \<open>prefix_common_bits\<close> is the length of
  the longest common initial bit string of the two whole addresses.
\<close>

theorem prefix_common_bits_longest:
  assumes "p_family p1 \<in> {AF_INET, AF_INET6, AF_ETHERNET}" "p_family p2 = p_family p1"
    and "prefix_blen p1 \<le> length (p_u p1)" "prefix_blen p1 \<le> length (p_u p2)"
  shows "\<exists>r. prefix_common_bits p1 p2 = Some (int r) \<and> r \<le> 8 * prefix_blen p1
     \<and> (\<forall>i < r. bit_at (p_u p1) i = bit_at (p_u p2) i)
     \<and> (r < 8 * prefix_blen p1 \<longrightarrow> bit_at (p_u p1) r \<noteq> bit_at (p_u p2) r)"
proof -
  let ?n = "prefix_blen p1"
  obtain pos where pos: "common_bytes (p_u p1) (p_u p2) ?n 0 = Some pos" "pos \<le> ?n" "\<forall>j < pos. p_u p1 ! j = p_u p2 ! j"
    using common_bytes_spec [of 0 ?n "p_u p1" "p_u p2"] assms(3,4) by auto
  have e: "prefix_common_bits p1 p2 = (if pos = ?n then Some (int (pos * 8))
             else Some (int (pos * 8 + leading_zeros (p_u p1 ! pos XOR p_u p2 ! pos) 8 0)))"
    using assms pos(1,2) by (auto simp: prefix_common_bits_def prefix_blen_def prefix_consts Let_def rd_Some)
  show ?thesis
  proof (cases "pos = ?n")
    case True
    then show ?thesis using e pos(3) by (intro exI [of _ "pos * 8"]) (simp add: same_bits_iff)
  next
    case False
    then have "pos < ?n" using pos(2) by simp
    from common_bits_spec [OF assms(3,4) pos(1) this] False show ?thesis unfolding e
      by (intro exI [of _ "pos * 8 + leading_zeros (p_u p1 ! pos XOR p_u p2 ! pos) 8 0"]) auto
  qed
qed

text \<open>
  the text of a MAC address and of an Ethernet segment identifier, as printed by \<open>prefix_mac2str\<close>
  and \<open>esi_to_str\<close>, is read back by \<open>prefix_str2mac\<close> and \<open>str_to_esi\<close> as the same bytes.
\<close>

theorem mac_esi_text_roundtrip:
  assumes "length mac = ETH_ALEN" "length esi = ESI_BYTES"
  shows "(\<exists>s. prefix_mac2str mac = Some s \<and> prefix_str2mac (Some s) = Some mac)
     \<and> (\<exists>s. esi_to_str esi = Some s \<and> str_to_esi (Some s) = Some esi)"
  using assms scan_print_hex_colon [of mac] scan_print_hex_colon [of esi] scanned_bytes [of mac] scanned_bytes [of esi]
  by (simp add: prefix_mac2str_def prefix_str2mac_def esi_to_str_def str_to_esi_def)



text \<open>
  the length after the slash is cut to eight bits before it is checked, so \<open>str2prefix_ipv4\<close>
  accepts the length 256 and reads it as 0.
\<close>

theorem str2prefix_length_wraps:
  assumes "CHR ''/'' \<notin> set addr" "aton addr = Some bs"
  shows "str2prefix_ipv4 pton aton (addr @ ''/256'') p
         = Some (\<lparr>p_family = AF_INET, p_prefixlen = 0, p_u = bs @ drop (length bs) (p_u p)\<rparr>, True)"
proof -
  have "list_all isdigit ''256''" "dec_val ''256'' = 256"
    by (simp_all add: isdigit_def dec_val_def digit_val_def char_code_def)
  then have "plen_of ''256'' = Some 0" using atoi_digits [of "''256''"] by (simp add: plen_of_def)
  then show ?thesis
    using split_slash_append [OF assms(1), of "''256''"] assms(2) by (simp add: str2prefix_ipv4_def set_addr_def prefix_consts)
qed

end
