(* ===== verification/Thread.thy ===== *)
theory Thread
  imports Pqueue
begin

text \<open>
  The event loop of \<open>libvui/src/vui/lib/thread.c\<close>.

  Threads (tasks) live in a memory from addresses to \<open>struct thread\<close>; the references that clients pass
  when they schedule a task (\<open>struct thread **\<close>) are cells of a second memory. The intrusive lists
  \<open>event\<close>, \<open>ready\<close> and \<open>unuse\<close> are the lists of the addresses they link. The operations run with the
  master's mutex held, so each is one step. The clock, the answers of \<open>poll\<close> and the signal handlers
  are arguments. A failed assertion and an access to memory that is not there are \<^term>\<open>None\<close>.
\<close>

section \<open>Time\<close>

record timeval =
  tv_sec :: int
  tv_usec :: int

text \<open>\<open>timercmp\<close>, \<open>timeradd\<close> and \<open>timersub\<close> of the system headers.\<close>

definition timer_less :: "timeval \<Rightarrow> timeval \<Rightarrow> bool" where
  "timer_less a b \<longleftrightarrow> (if tv_sec a = tv_sec b then tv_usec a < tv_usec b else tv_sec a < tv_sec b)"

definition timeradd :: "timeval \<Rightarrow> timeval \<Rightarrow> timeval" where
  "timeradd a b =
     (let s = tv_sec a + tv_sec b; u = tv_usec a + tv_usec b
      in if u \<ge> 1000000 then \<lparr>tv_sec = s + 1, tv_usec = u - 1000000\<rparr> else \<lparr>tv_sec = s, tv_usec = u\<rparr>)"

definition timersub :: "timeval \<Rightarrow> timeval \<Rightarrow> timeval" where
  "timersub a b =
     (let s = tv_sec a - tv_sec b; u = tv_usec a - tv_usec b
      in if u < 0 then \<lparr>tv_sec = s - 1, tv_usec = u + 1000000\<rparr> else \<lparr>tv_sec = s, tv_usec = u\<rparr>)"

definition monotime_until :: "timeval \<Rightarrow> timeval \<Rightarrow> int" where
  "monotime_until now ref = (let tv = timersub ref now in tv_sec tv * 1000000 + tv_usec tv)"

definition monotime_since :: "timeval \<Rightarrow> timeval \<Rightarrow> int" where
  "monotime_since now ref = (let tv = timersub now ref in tv_sec tv * 1000000 + tv_usec tv)"

text \<open>
  A node of the timer queue is a thread's address together with the expiry time it was queued with,
  which does not change while it is queued.
\<close>

type_synonym tnode = "nat \<times> timeval"

definition thread_timer_cmp :: "tnode \<Rightarrow> tnode \<Rightarrow> int" where
  "thread_timer_cmp a b =
     (if timer_less (snd a) (snd b) then - 1 else if timer_less (snd b) (snd a) then 1 else 0)"

lemma timer_less_irrefl [simp]: "\<not> timer_less a a"
  by (simp add: timer_less_def)

lemma timer_less_asym: "timer_less a b \<Longrightarrow> \<not> timer_less b a"
  by (auto simp: timer_less_def split: if_splits)

lemma timer_not_less_trans: "\<not> timer_less b a \<Longrightarrow> \<not> timer_less c b \<Longrightarrow> \<not> timer_less c a"
  by (auto simp: timer_less_def split: if_splits)

lemma thread_timer_cmp_le: "thread_timer_cmp a b \<le> 0 \<longleftrightarrow> \<not> timer_less (snd b) (snd a)"
  using timer_less_asym by (auto simp: thread_timer_cmp_def)

interpretation timers: comparator thread_timer_cmp
proof unfold_locales
  fix x y z
  show "thread_timer_cmp x y < 0 \<longleftrightarrow> thread_timer_cmp y x > 0"
    using timer_less_asym by (auto simp: thread_timer_cmp_def)
  assume "thread_timer_cmp x y \<le> 0" "thread_timer_cmp y z \<le> 0"
  then show "thread_timer_cmp x z \<le> 0"
    unfolding thread_timer_cmp_le by (rule timer_not_less_trans)
qed

section \<open>Data\<close>

datatype ttype =
  THREAD_READ | THREAD_WRITE | THREAD_TIMER | THREAD_EVENT | THREAD_READY | THREAD_UNUSED | THREAD_EXECUTE

text \<open>The union \<open>u\<close> of a thread; reading another member than the one last written is not modelled.\<close>

datatype tunion = U_val int | U_fd int | U_sands timeval

definition u_fd :: "tunion \<Rightarrow> int option" where
  "u_fd u = (case u of U_fd fd \<Rightarrow> Some fd | _ \<Rightarrow> None)"

definition u_sands :: "tunion \<Rightarrow> timeval option" where
  "u_sands u = (case u of U_sands tv \<Rightarrow> Some tv | _ \<Rightarrow> None)"

record ('f, 'a) thread =
  th_type :: ttype
  th_add_type :: ttype
  th_ref :: "nat ptr"
  th_func :: "'f ptr"
  th_arg :: "'a ptr"
  th_u :: tunion
  th_real :: timeval
  th_hist :: "'f ptr"
  th_yield :: int

text \<open>
  \<open>struct cpu_thread_history\<close>. The hash table \<open>cpu_record\<close>, whose key is the function, is the map from
  functions to histories that a hash table implements; \<open>th_hist\<close> names the history it points to.
\<close>

record cpu_hist =
  ch_total_calls :: u64
  ch_total_active :: u64
  ch_real_total :: u64
  ch_real_max :: u64
  ch_cpu_total :: u64
  ch_cpu_max :: u64
  ch_types :: u64

record pollfd =
  pfd_fd :: int
  pfd_events :: u16
  pfd_revents :: u16

definition POLLIN :: u16 where "POLLIN = 0x01"
definition POLLOUT :: u16 where "POLLOUT = 0x04"
definition POLLHUP :: u16 where "POLLHUP = 0x10"
definition POLLNVAL :: u16 where "POLLNVAL = 0x20"

text \<open>A cancellation request names a thread, an event argument or a client's reference.\<close>

datatype 'a cancel_req = Cancel_thread nat | Cancel_event 'a | Cancel_ref nat

record ('f, 'a) master =
  tm_mem :: "nat \<Rightarrow> ('f, 'a) thread option"
  tm_fresh :: nat
  tm_refs :: "nat \<Rightarrow> nat ptr"
  tm_read :: "nat ptr list"
  tm_write :: "nat ptr list"
  tm_timer :: "(tnode, tnode \<Rightarrow> int) pqueue"
  tm_index :: "tnode \<Rightarrow> int"
  tm_event :: "nat list"
  tm_ready :: "nat list"
  tm_unuse :: "nat list"
  tm_cancel_req :: "'a cancel_req list"
  tm_canceled :: bool
  tm_hist :: "'f \<Rightarrow> cpu_hist option"
  tm_fd_limit :: nat
  tm_pfdsize :: nat
  tm_pfds :: "pollfd list"
  tm_pfdcount :: nat
  tm_copy :: "pollfd list"
  tm_copycount :: nat
  tm_alloc :: nat
  tm_selectpoll_timeout :: int
  tm_spin :: bool
  tm_handle_signals :: bool
  tm_io_pipe :: int

section \<open>Operations\<close>

subsection \<open>Creation\<close>

text \<open>The hook that stores a timer's position in its \<open>index\<close> member.\<close>

definition thread_timer_update :: "tnode \<Rightarrow> nat \<Rightarrow> (tnode \<Rightarrow> int) \<Rightarrow> tnode \<Rightarrow> int" where
  "thread_timer_update node actual_position ix = ix(node := int actual_position)"

definition zero_time :: timeval where "zero_time = \<lparr>tv_sec = 0, tv_usec = 0\<rparr>"

definition zero_pollfd :: pollfd where "zero_pollfd = \<lparr>pfd_fd = 0, pfd_events = 0, pfd_revents = 0\<rparr>"

definition zero_thread :: "('f, 'a) thread" where
  "zero_thread = \<lparr>th_type = THREAD_READ, th_add_type = THREAD_READ, th_ref = None, th_func = None, th_arg = None,
                  th_u = U_val 0, th_real = zero_time, th_hist = None, th_yield = 0\<rparr>"

text \<open>
  \<open>limit\<close> is the limit of open files, \<open>pipe0\<close> the reading end of the wake-up pipe.
\<close>

definition thread_master_create :: "nat \<Rightarrow> int \<Rightarrow> ('f, 'a) master" where
  "thread_master_create limit pipe0 =
     \<lparr>tm_mem = (\<lambda>_. None), tm_fresh = 0, tm_refs = (\<lambda>_. None),
      tm_read = replicate limit None, tm_write = replicate limit None,
      tm_timer = pqueue_create\<lparr>pq_cmp := Some thread_timer_cmp, pq_update := Some thread_timer_update\<rparr>,
      tm_index = (\<lambda>_. 0), tm_event = [], tm_ready = [], tm_unuse = [],
      tm_cancel_req = [], tm_canceled = True, tm_hist = (\<lambda>_. None),
      tm_fd_limit = limit, tm_pfdsize = limit, tm_pfds = replicate limit zero_pollfd, tm_pfdcount = 0,
      tm_copy = replicate limit zero_pollfd, tm_copycount = 0, tm_alloc = 0, tm_selectpoll_timeout = 0,
      tm_spin = True, tm_handle_signals = True, tm_io_pipe = pipe0\<rparr>"

subsection \<open>Allocation\<close>

definition THREAD_UNUSED_DEPTH :: nat where "THREAD_UNUSED_DEPTH = 10"
definition THREAD_YIELD_TIME_SLOT :: int where "THREAD_YIELD_TIME_SLOT = 10 * 1000"

definition put_thread :: "nat \<Rightarrow> ('f, 'a) thread \<Rightarrow> ('f, 'a) master \<Rightarrow> ('f, 'a) master" where
  "put_thread t th m = m\<lparr>tm_mem := (tm_mem m)(t \<mapsto> th)\<rparr>"

text \<open>Freeing a thread that is not allocated is a failure.\<close>

definition thread_free :: "('f, 'a) master \<Rightarrow> nat \<Rightarrow> ('f, 'a) master option" where
  "thread_free m t =
     do { c_assert (tm_alloc m > 0 \<and> tm_mem m t \<noteq> None);
          Some (m\<lparr>tm_alloc := tm_alloc m - 1, tm_mem := (tm_mem m)(t := None)\<rparr>) }"

definition thread_add_unuse :: "('f, 'a) master \<Rightarrow> nat \<Rightarrow> ('f, 'a) master option" where
  "thread_add_unuse m t =
     do { th \<leftarrow> tm_mem m t;
          f \<leftarrow> th_hist th;
          h \<leftarrow> tm_hist m f;
          let m1 = put_thread t (zero_thread\<lparr>th_type := THREAD_UNUSED\<rparr>)
                     (m\<lparr>tm_hist := (tm_hist m)(f \<mapsto> h\<lparr>ch_total_active := ch_total_active h - 1\<rparr>)\<rparr>);
          if length (tm_unuse m1) < THREAD_UNUSED_DEPTH
          then Some (m1\<lparr>tm_unuse := tm_unuse m1 @ [t]\<rparr>)
          else thread_free m1 t }"

definition zero_hist :: cpu_hist where
  "zero_hist = \<lparr>ch_total_calls = 0, ch_total_active = 0, ch_real_total = 0, ch_real_max = 0,
                ch_cpu_total = 0, ch_cpu_max = 0, ch_types = 0\<rparr>"

definition thread_get :: "('f, 'a) master \<Rightarrow> ttype \<Rightarrow> 'f \<Rightarrow> 'a ptr \<Rightarrow> (('f, 'a) master \<times> nat) option" where
  "thread_get m type func arg =
     do { (m1, t, old) \<leftarrow>
            (case tm_unuse m of
               [] \<Rightarrow> Some (m\<lparr>tm_fresh := tm_fresh m + 1, tm_alloc := tm_alloc m + 1\<rparr>, tm_fresh m, zero_thread)
             | t # r \<Rightarrow> do { old \<leftarrow> tm_mem m t; Some (m\<lparr>tm_unuse := r\<rparr>, t, old) });
          let hist = (if th_func old \<noteq> Some func then Some func else th_hist old);
          f \<leftarrow> hist;
          let h = (case tm_hist m1 f of None \<Rightarrow> zero_hist | Some h \<Rightarrow> h);
          Some (put_thread t (old\<lparr>th_type := type, th_add_type := type, th_arg := arg, th_ref := None,
                                  th_yield := THREAD_YIELD_TIME_SLOT, th_hist := hist, th_func := Some func\<rparr>)
                  (m1\<lparr>tm_index := (\<lambda>n. if fst n = t then - 1 else tm_index m1 n),
                      tm_hist := (tm_hist m1)(f \<mapsto> h\<lparr>ch_total_active := ch_total_active h + 1\<rparr>)\<rparr>), t) }"

subsection \<open>Scheduling\<close>

text \<open>A client's reference that already names a thread: the task is not scheduled again.\<close>

definition is_scheduled :: "('f, 'a) master \<Rightarrow> nat ptr \<Rightarrow> bool" where
  "is_scheduled m t_ptr \<longleftrightarrow> (case t_ptr of None \<Rightarrow> False | Some r \<Rightarrow> tm_refs m r \<noteq> None)"

definition set_ref :: "nat ptr \<Rightarrow> nat \<Rightarrow> ('f, 'a) master \<Rightarrow> ('f, 'a) master option" where
  "set_ref t_ptr t m =
     (case t_ptr of None \<Rightarrow> Some m
      | Some r \<Rightarrow> do { th \<leftarrow> tm_mem m t;
                       Some (put_thread t (th\<lparr>th_ref := Some r\<rparr>) (m\<lparr>tm_refs := (tm_refs m)(r \<mapsto> t)\<rparr>)) })"

definition find_pfd :: "pollfd list \<Rightarrow> nat \<Rightarrow> int \<Rightarrow> nat ptr" where
  "find_pfd pfds cnt fd = List.find (\<lambda>i. pfd_fd (pfds ! i) = fd) [0..<min cnt (length pfds)]"

definition funcname_thread_add_read_write ::
  "ttype \<Rightarrow> ('f, 'a) master \<Rightarrow> 'f \<Rightarrow> 'a ptr \<Rightarrow> int \<Rightarrow> nat ptr \<Rightarrow> (('f, 'a) master \<times> nat ptr) option" where
  "funcname_thread_add_read_write dir m func arg fd t_ptr =
     do { c_assert (fd \<ge> 0 \<and> fd < int (tm_fd_limit m));
          if is_scheduled m t_ptr then Some (m, None)
          else do {
            let queuepos = (case find_pfd (tm_pfds m) (tm_pfdcount m) fd of None \<Rightarrow> tm_pfdcount m | Some i \<Rightarrow> i);
            c_assert (queuepos + 1 < tm_pfdsize m);
            (m1, t) \<leftarrow> thread_get m dir func arg;
            pfd \<leftarrow> rd (tm_pfds m1) queuepos;
            pfds \<leftarrow> wr (tm_pfds m1) queuepos
                      (pfd\<lparr>pfd_fd := fd, pfd_events := pfd_events pfd OR (if dir = THREAD_READ then POLLIN else POLLOUT)\<rparr>);
            let m2 = m1\<lparr>tm_pfds := pfds,
                        tm_pfdcount := (if queuepos = tm_pfdcount m1 then tm_pfdcount m1 + 1 else tm_pfdcount m1)\<rparr>;
            th \<leftarrow> tm_mem m2 t;
            let m3 = put_thread t (th\<lparr>th_u := U_fd fd\<rparr>) m2;
            m4 \<leftarrow> (if dir = THREAD_READ
                   then do { a \<leftarrow> wr (tm_read m3) (nat fd) (Some t); Some (m3\<lparr>tm_read := a\<rparr>) }
                   else do { a \<leftarrow> wr (tm_write m3) (nat fd) (Some t); Some (m3\<lparr>tm_write := a\<rparr>) });
            m5 \<leftarrow> set_ref t_ptr t m4;
            Some (m5, Some t) } }"

definition funcname_thread_add_timer_timeval ::
  "timeval \<Rightarrow> ('f, 'a) master \<Rightarrow> 'f \<Rightarrow> 'a ptr \<Rightarrow> timeval \<Rightarrow> nat ptr \<Rightarrow> (('f, 'a) master \<times> nat ptr) option" where
  "funcname_thread_add_timer_timeval now m func arg time_relative t_ptr =
     (if is_scheduled m t_ptr then Some (m, None)
      else do {
        (m1, t) \<leftarrow> thread_get m THREAD_TIMER func arg;
        th \<leftarrow> tm_mem m1 t;
        let sands = timeradd now time_relative;
        let m2 = put_thread t (th\<lparr>th_u := U_sands sands\<rparr>) m1;
        (q, ix) \<leftarrow> pqueue_enqueue (t, sands) (tm_timer m2, tm_index m2);
        m3 \<leftarrow> set_ref t_ptr t (m2\<lparr>tm_timer := q, tm_index := ix\<rparr>);
        Some (m3, Some t) })"

definition funcname_thread_add_timer ::
  "timeval \<Rightarrow> ('f, 'a) master \<Rightarrow> 'f \<Rightarrow> 'a ptr \<Rightarrow> int \<Rightarrow> nat ptr \<Rightarrow> (('f, 'a) master \<times> nat ptr) option" where
  "funcname_thread_add_timer now m func arg timer t_ptr =
     funcname_thread_add_timer_timeval now m func arg \<lparr>tv_sec = timer, tv_usec = 0\<rparr> t_ptr"

text \<open>C division truncates towards zero.\<close>

definition funcname_thread_add_timer_msec ::
  "timeval \<Rightarrow> ('f, 'a) master \<Rightarrow> 'f \<Rightarrow> 'a ptr \<Rightarrow> int \<Rightarrow> nat ptr \<Rightarrow> (('f, 'a) master \<times> nat ptr) option" where
  "funcname_thread_add_timer_msec now m func arg timer t_ptr =
     (let q = (if timer < 0 then - (- timer div 1000) else timer div 1000); r = timer - 1000 * q
      in funcname_thread_add_timer_timeval now m func arg \<lparr>tv_sec = q, tv_usec = 1000 * r\<rparr> t_ptr)"

definition funcname_thread_add_event ::
  "('f, 'a) master \<Rightarrow> 'f \<Rightarrow> 'a ptr \<Rightarrow> int \<Rightarrow> nat ptr \<Rightarrow> (('f, 'a) master \<times> nat ptr) option" where
  "funcname_thread_add_event m func arg val t_ptr =
     (if is_scheduled m t_ptr then Some (m, None)
      else do {
        (m1, t) \<leftarrow> thread_get m THREAD_EVENT func arg;
        th \<leftarrow> tm_mem m1 t;
        let m2 = (put_thread t (th\<lparr>th_u := U_val val\<rparr>) m1);
        m3 \<leftarrow> set_ref t_ptr t (m2\<lparr>tm_event := tm_event m2 @ [t]\<rparr>);
        Some (m3, Some t) })"

subsection \<open>Cancellation\<close>

text \<open>Removing entry \<open>i\<close> of the first \<open>count\<close> with \<open>memmove\<close>; the last slot keeps its contents.\<close>

definition pfd_remove :: "pollfd list \<Rightarrow> nat \<Rightarrow> nat \<Rightarrow> pollfd list option" where
  "pfd_remove pfds cnt i =
     do { c_assert (i < cnt \<and> cnt \<le> length pfds);
          Some (take i pfds @ take (cnt - i - 1) (drop (i + 1) pfds) @ drop (cnt - 1) pfds) }"

definition clear_events :: "pollfd list \<Rightarrow> nat \<Rightarrow> nat \<Rightarrow> u16 \<Rightarrow> (pollfd list \<times> nat) option" where
  "clear_events pfds cnt i state =
     do { pfd \<leftarrow> rd pfds i;
          let pfd' = pfd\<lparr>pfd_events := pfd_events pfd AND NOT state\<rparr>;
          pfds1 \<leftarrow> wr pfds i pfd';
          if pfd_events pfd' = 0
          then do { pfds2 \<leftarrow> pfd_remove pfds1 cnt i; Some (pfds2, cnt - 1) }
          else Some (pfds1, cnt) }"

definition thread_cancel_rw :: "('f, 'a) master \<Rightarrow> int \<Rightarrow> u16 \<Rightarrow> ('f, 'a) master option" where
  "thread_cancel_rw m fd state =
     (let state = state OR POLLHUP
      in case find_pfd (tm_pfds m) (tm_pfdcount m) fd of
           None \<Rightarrow> Some m
         | Some i \<Rightarrow>
             do { (pfds, n) \<leftarrow> clear_events (tm_pfds m) (tm_pfdcount m) i state;
                  let m1 = m\<lparr>tm_pfds := pfds, tm_pfdcount := n\<rparr>;
                  if i \<ge> tm_copycount m1 then Some m1
                  else do { (copy, k) \<leftarrow> clear_events (tm_copy m1) (tm_copycount m1) i state;
                            Some (m1\<lparr>tm_copy := copy, tm_copycount := k\<rparr>) } })"

text \<open>
  The variables \<open>list\<close>, \<open>queue\<close> and \<open>thread_array\<close> of \<open>do_thread_cancel\<close> are declared outside its loop and
  keep their values from one request to the next.
\<close>

datatype which_list = Event_list | Ready_list
datatype which_array = Read_array | Write_array

record cancel_vars =
  cv_list :: "which_list ptr"
  cv_queue :: bool
  cv_array :: "which_array ptr"

definition clear_ref :: "('f, 'a) thread \<Rightarrow> ('f, 'a) master \<Rightarrow> ('f, 'a) master" where
  "clear_ref th m = (case th_ref th of None \<Rightarrow> m | Some r \<Rightarrow> m\<lparr>tm_refs := (tm_refs m)(r := None)\<rparr>)"

definition drop_matching ::
  "(nat \<Rightarrow> ('f, 'a) master \<Rightarrow> ('f, 'a) master) \<Rightarrow> 'a \<Rightarrow> nat \<Rightarrow> ('f, 'a) master \<Rightarrow> ('f, 'a) master option" where
  "drop_matching del eventobj t m =
     do { th \<leftarrow> tm_mem m t;
          if th_arg th \<noteq> Some eventobj then Some m
          else thread_add_unuse (clear_ref th (del t m)) t }"

definition event_del :: "nat \<Rightarrow> ('f, 'a) master \<Rightarrow> ('f, 'a) master" where
  "event_del t m = m\<lparr>tm_event := remove1 t (tm_event m)\<rparr>"

definition ready_del :: "nat \<Rightarrow> ('f, 'a) master \<Rightarrow> ('f, 'a) master" where
  "ready_del t m = m\<lparr>tm_ready := remove1 t (tm_ready m)\<rparr>"

definition cancel_event :: "'a \<Rightarrow> ('f, 'a) master \<Rightarrow> ('f, 'a) master option" where
  "cancel_event eventobj m =
     do { m1 \<leftarrow> fold_opt (drop_matching event_del eventobj) (tm_event m) m;
          fold_opt (drop_matching ready_del eventobj) (tm_ready m1) m1 }"

definition choose_queue ::
  "('f, 'a) thread \<Rightarrow> cancel_vars \<times> ('f, 'a) master \<Rightarrow> (cancel_vars \<times> ('f, 'a) master) ptr option" where
  "choose_queue th vm =
     (case vm of (v, m) \<Rightarrow>
        case th_type th of
          THREAD_READ \<Rightarrow> do { fd \<leftarrow> u_fd (th_u th); m1 \<leftarrow> thread_cancel_rw m fd POLLIN;
                             Some (Some (v\<lparr>cv_array := Some Read_array\<rparr>, m1)) }
        | THREAD_WRITE \<Rightarrow> do { fd \<leftarrow> u_fd (th_u th); m1 \<leftarrow> thread_cancel_rw m fd POLLOUT;
                              Some (Some (v\<lparr>cv_array := Some Write_array\<rparr>, m1)) }
        | THREAD_TIMER \<Rightarrow> Some (Some (v\<lparr>cv_queue := True\<rparr>, m))
        | THREAD_EVENT \<Rightarrow> Some (Some (v\<lparr>cv_list := Some Event_list\<rparr>, m))
        | THREAD_READY \<Rightarrow> Some (Some (v\<lparr>cv_list := Some Ready_list\<rparr>, m))
        | _ \<Rightarrow> Some None)"

definition remove_from_queue ::
  "nat \<Rightarrow> ('f, 'a) thread \<Rightarrow> cancel_vars \<Rightarrow> ('f, 'a) master \<Rightarrow> ('f, 'a) master option" where
  "remove_from_queue t th v m =
     (if cv_queue v
      then do { sands \<leftarrow> u_sands (th_u th);
                let ix = tm_index m (t, sands);
                c_assert (ix \<ge> 0);
                node \<leftarrow> pq_node (pq_array (tm_timer m)) (nat ix);
                c_assert (node = (t, sands));
                (q, s) \<leftarrow> pqueue_remove_at (nat ix) (tm_timer m, tm_index m);
                Some (m\<lparr>tm_timer := q, tm_index := s\<rparr>) }
      else (case cv_list v of
              Some Event_list \<Rightarrow> Some (event_del t m)
            | Some Ready_list \<Rightarrow> Some (ready_del t m)
            | None \<Rightarrow>
                do { fd \<leftarrow> u_fd (th_u th);
                     a \<leftarrow> cv_array v;
                     case a of
                       Read_array \<Rightarrow> do { xs \<leftarrow> wr (tm_read m) (nat fd) None; Some (m\<lparr>tm_read := xs\<rparr>) }
                     | Write_array \<Rightarrow> do { xs \<leftarrow> wr (tm_write m) (nat fd) None; Some (m\<lparr>tm_write := xs\<rparr>) } }))"

definition cancel_thread ::
  "nat ptr \<Rightarrow> cancel_vars \<times> ('f, 'a) master \<Rightarrow> (cancel_vars \<times> ('f, 'a) master) option" where
  "cancel_thread tp vm =
     (case tp of
        None \<Rightarrow> Some vm
      | Some t \<Rightarrow>
          do { th \<leftarrow> tm_mem (snd vm) t;
               r \<leftarrow> choose_queue th vm;
               case r of
                 None \<Rightarrow> Some vm
               | Some (v, m) \<Rightarrow>
                   do { m1 \<leftarrow> remove_from_queue t th v m;
                        m2 \<leftarrow> thread_add_unuse (clear_ref th m1) t;
                        Some (v, m2) } })"

definition cancel_one ::
  "'a cancel_req \<Rightarrow> cancel_vars \<times> ('f, 'a) master \<Rightarrow> (cancel_vars \<times> ('f, 'a) master) option" where
  "cancel_one cr vm =
     (case cr of
        Cancel_event obj \<Rightarrow> do { m \<leftarrow> cancel_event obj (snd vm); Some (fst vm, m) }
      | Cancel_thread t \<Rightarrow> cancel_thread (Some t) vm
      | Cancel_ref r \<Rightarrow> cancel_thread (tm_refs (snd vm) r) vm)"

definition do_thread_cancel :: "('f, 'a) master \<Rightarrow> ('f, 'a) master option" where
  "do_thread_cancel m =
     do { (_, m1) \<leftarrow> fold_opt cancel_one (tm_cancel_req m) (\<lparr>cv_list = None, cv_queue = False, cv_array = None\<rparr>, m);
          Some (m1\<lparr>tm_cancel_req := [], tm_canceled := True\<rparr>) }"

definition thread_cancel_event :: "('f, 'a) master \<Rightarrow> 'a \<Rightarrow> ('f, 'a) master option" where
  "thread_cancel_event m arg = do_thread_cancel (m\<lparr>tm_cancel_req := tm_cancel_req m @ [Cancel_event arg]\<rparr>)"

definition thread_cancel :: "('f, 'a) master \<Rightarrow> nat \<Rightarrow> ('f, 'a) master option" where
  "thread_cancel m t = do_thread_cancel (m\<lparr>tm_cancel_req := tm_cancel_req m @ [Cancel_thread t]\<rparr>)"

text \<open>Another pthread posts a request; it then waits until \<open>canceled\<close> is set.\<close>

definition thread_cancel_async :: "('f, 'a) master \<Rightarrow> 'a cancel_req \<Rightarrow> ('f, 'a) master" where
  "thread_cancel_async m cr = m\<lparr>tm_canceled := False, tm_cancel_req := tm_cancel_req m @ [cr]\<rparr>"

subsection \<open>Running\<close>

definition thread_timer_wait :: "timeval \<Rightarrow> ('f, 'a) master \<Rightarrow> timeval ptr option" where
  "thread_timer_wait now m =
     (if pq_size (tm_timer m) \<noteq> 0
      then do { node \<leftarrow> pq_node (pq_array (tm_timer m)) 0; Some (Some (timersub (snd node) now)) }
      else Some None)"

definition thread_run :: "('f, 'a) master \<Rightarrow> nat \<Rightarrow> (('f, 'a) thread \<times> ('f, 'a) master) option" where
  "thread_run m t = do { th \<leftarrow> tm_mem m t; m1 \<leftarrow> thread_add_unuse m t; Some (th, m1) }"

text \<open>Moving a thread to the tail of the ready list.\<close>

definition make_ready :: "nat \<Rightarrow> ('f, 'a) master \<Rightarrow> ('f, 'a) master option" where
  "make_ready t m =
     do { th \<leftarrow> tm_mem m t;
          Some (put_thread t (th\<lparr>th_type := THREAD_READY\<rparr>) (m\<lparr>tm_ready := tm_ready m @ [t]\<rparr>)) }"

definition thread_process_io_helper ::
  "('f, 'a) master \<Rightarrow> nat ptr \<Rightarrow> u16 \<Rightarrow> nat \<Rightarrow> ('f, 'a) master option" where
  "thread_process_io_helper m tp state pos =
     do { pfd \<leftarrow> rd (tm_pfds m) pos;
          pfds \<leftarrow> wr (tm_pfds m) pos (pfd\<lparr>pfd_events := pfd_events pfd AND NOT state\<rparr>);
          let m1 = m\<lparr>tm_pfds := pfds\<rparr>;
          case tp of
            None \<Rightarrow> Some m1
          | Some t \<Rightarrow>
              do { th \<leftarrow> tm_mem m1 t;
                   fd \<leftarrow> u_fd (th_u th);
                   m2 \<leftarrow> (if th_type th = THREAD_READ
                          then do { a \<leftarrow> wr (tm_read m1) (nat fd) None; Some (m1\<lparr>tm_read := a\<rparr>) }
                          else do { a \<leftarrow> wr (tm_write m1) (nat fd) None; Some (m1\<lparr>tm_write := a\<rparr>) });
                   make_ready t m2 } }"

definition io_entry :: "nat \<Rightarrow> ('f, 'a) master \<Rightarrow> ('f, 'a) master option" where
  "io_entry i m =
     do { p \<leftarrow> rd (tm_copy m) i;
          m1 \<leftarrow> (if pfd_revents p AND (POLLIN OR POLLHUP) \<noteq> 0
                 then do { tp \<leftarrow> rd (tm_read m) (nat (pfd_fd p)); thread_process_io_helper m tp POLLIN i }
                 else Some m);
          if pfd_revents p AND POLLOUT \<noteq> 0
          then do { tp \<leftarrow> rd (tm_write m1) (nat (pfd_fd p)); thread_process_io_helper m1 tp POLLOUT i }
          else Some m1 }"

text \<open>
  The loop of \<open>thread_process_io\<close> at index \<open>i\<close>, with \<open>left\<close> descriptors still to be found; an invalid
  descriptor is removed and the index not advanced. Every round advances the index or shortens the
  copy, so \<open>copycount\<close> rounds are enough.
\<close>

fun process_io_loop :: "nat \<Rightarrow> nat \<Rightarrow> nat \<Rightarrow> ('f, 'a) master \<Rightarrow> ('f, 'a) master option" where
  "process_io_loop 0 i left m = (if i < tm_copycount m \<and> left \<noteq> 0 then None else Some m)"
| "process_io_loop (Suc n) i left m =
     (if i < tm_copycount m \<and> left \<noteq> 0
      then do { p \<leftarrow> rd (tm_copy m) i;
                if pfd_revents p = 0 then process_io_loop n (i + 1) left m
                else do { m1 \<leftarrow> io_entry i m;
                          if pfd_revents p AND POLLNVAL \<noteq> 0
                          then do { pfds \<leftarrow> pfd_remove (tm_pfds m1) (tm_pfdcount m1) i;
                                    copy \<leftarrow> pfd_remove (tm_copy m1) (tm_copycount m1) i;
                                    process_io_loop n i (left - 1)
                                      (m1\<lparr>tm_pfds := pfds, tm_pfdcount := tm_pfdcount m1 - 1,
                                          tm_copy := copy, tm_copycount := tm_copycount m1 - 1\<rparr>) }
                          else process_io_loop n (i + 1) (left - 1) m1 } }
      else Some m)"

definition thread_process_io :: "('f, 'a) master \<Rightarrow> nat \<Rightarrow> ('f, 'a) master option" where
  "thread_process_io m num = process_io_loop (tm_copycount m) 0 num m"

text \<open>
  Every round of \<open>thread_process_timers\<close> takes one node off the queue, so \<open>size\<close> rounds are enough.
\<close>

fun process_timers_loop :: "nat \<Rightarrow> timeval \<Rightarrow> ('f, 'a) master \<Rightarrow> ('f, 'a) master option" where
  "process_timers_loop 0 now m = (if pq_size (tm_timer m) \<noteq> 0 then None else Some m)"
| "process_timers_loop (Suc n) now m =
     (if pq_size (tm_timer m) \<noteq> 0
      then do { (t, sands) \<leftarrow> pq_node (pq_array (tm_timer m)) 0;
                if timer_less now sands then Some m
                else do { (_, q, ix) \<leftarrow> pqueue_dequeue (tm_timer m, tm_index m);
                          m1 \<leftarrow> make_ready t (m\<lparr>tm_timer := q, tm_index := ix\<rparr>);
                          process_timers_loop n now m1 } }
      else Some m)"

definition thread_process_timers :: "timeval \<Rightarrow> ('f, 'a) master \<Rightarrow> ('f, 'a) master option" where
  "thread_process_timers now m = process_timers_loop (pq_size (tm_timer m)) now m"

definition thread_process_event :: "('f, 'a) master \<Rightarrow> ('f, 'a) master option" where
  "thread_process_event m = fold_opt make_ready (tm_event m) (m\<lparr>tm_event := []\<rparr>)"

text \<open>The timeout that \<open>fd_poll\<close> passes to \<open>poll\<close>, in milliseconds; \<open>timeout\<close> is an \<open>int\<close>, the sum a \<open>long\<close>.\<close>

definition poll_timeout :: "('f, 'a) master \<Rightarrow> timeval ptr \<Rightarrow> int" where
  "poll_timeout m timer_wait =
     (if timer_wait \<noteq> None \<and> tm_selectpoll_timeout m = 0
      then (case timer_wait of
              None \<Rightarrow> - 1
            | Some tv \<Rightarrow> sint (word_of_int (tv_sec tv * 1000 + tv_usec tv div 1000) :: 32 word))
      else if tm_selectpoll_timeout m > 0 then tm_selectpoll_timeout m
      else if tm_selectpoll_timeout m < 0 then 0
      else - 1)"

text \<open>
  What \<open>poll\<close> answers: an error, interrupted or other, or the number of descriptors with events and
  the \<open>revents\<close> of the entries it was given, that of the wake-up pipe last.
\<close>

datatype poll_answer = Poll_error bool | Poll_num nat "u16 list"

definition fd_poll :: "poll_answer \<Rightarrow> ('f, 'a) master \<Rightarrow> (('f, 'a) master \<times> nat ptr) option" where
  "fd_poll ans m =
     do { c_assert (tm_copycount m + 1 < tm_pfdsize m);
          copy \<leftarrow> wr (tm_copy m) (tm_copycount m) \<lparr>pfd_fd = tm_io_pipe m, pfd_events = POLLIN, pfd_revents = 0\<rparr>;
          case ans of
            Poll_error _ \<Rightarrow> Some (m\<lparr>tm_copy := copy\<rparr>, None)
          | Poll_num num revs \<Rightarrow>
              do { c_assert (length revs = tm_copycount m + 1);
                   let answered = map2 (\<lambda>p r. p\<lparr>pfd_revents := r\<rparr>) (take (tm_copycount m + 1) copy) revs;
                   Some (m\<lparr>tm_copy := answered @ drop (tm_copycount m + 1) copy\<rparr>,
                         Some (if num > 0 \<and> last revs \<noteq> 0 then num - 1 else num)) } }"

text \<open>
  The environment of one round of \<open>thread_fetch\<close>: what the signal handlers do, the clock when the
  timeout is computed, what other pthreads do while the mutex is free during \<open>poll\<close>, the answer of
  \<open>poll\<close>, and the clock after it.
\<close>

record ('f, 'a) fetch_env =
  fe_signals :: "('f, 'a) master \<Rightarrow> ('f, 'a) master"
  fe_clock :: timeval
  fe_others :: "('f, 'a) master \<Rightarrow> ('f, 'a) master"
  fe_poll :: poll_answer
  fe_now :: timeval

text \<open>
  What \<open>thread_fetch\<close> returns: a copy of the thread to run, NULL, or, when \<open>spin\<close> is off and no thread
  was ready, the caller's structure as it was. \<^term>\<open>None\<close> when the listed rounds do not suffice.
\<close>

datatype ('f, 'a) fetched = Fetched "('f, 'a) thread" | Fetch_null | Fetch_unset

definition choose_wait :: "timeval \<Rightarrow> ('f, 'a) master \<Rightarrow> timeval ptr option" where
  "choose_wait now m =
     do { tw \<leftarrow> (if tm_ready m = [] then thread_timer_wait now m else Some None);
          Some (if tm_ready m \<noteq> [] \<or> (case tw of None \<Rightarrow> False | Some tv \<Rightarrow> \<not> timer_less zero_time tv)
                then Some zero_time else tw) }"

text \<open>The copy of the poll array and of its count that is handed to \<open>poll\<close>.\<close>

definition snapshot :: "('f, 'a) master \<Rightarrow> ('f, 'a) master" where
  "snapshot m = m\<lparr>tm_copy := take (tm_pfdcount m) (tm_pfds m) @ drop (tm_pfdcount m) (tm_copy m), tm_copycount := tm_pfdcount m\<rparr>"

definition after_poll :: "('f, 'a) fetch_env \<Rightarrow> nat \<Rightarrow> ('f, 'a) master \<Rightarrow> ('f, 'a) master option" where
  "after_poll e num m =
     do { m1 \<leftarrow> thread_process_timers (fe_now e) m;
          if num > 0 then thread_process_io m1 num else Some m1 }"

fun thread_fetch ::
  "('f, 'a) fetch_env list \<Rightarrow> ('f, 'a) master \<Rightarrow> (('f, 'a) fetched \<times> ('f, 'a) master) option" where
  "thread_fetch [] m = None"
| "thread_fetch (e # es) m =
     do { m1 \<leftarrow> do_thread_cancel (if tm_handle_signals m then fe_signals e m else m);
          case tm_ready m1 of
            t # ts \<Rightarrow> do { (th, m2) \<leftarrow> thread_run (m1\<lparr>tm_ready := ts\<rparr>) t; Some (Fetched th, clear_ref th m2) }
          | [] \<Rightarrow>
              do { m2 \<leftarrow> thread_process_event m1;
                   tw \<leftarrow> choose_wait (fe_clock e) m2;
                   if tw = None \<and> tm_pfdcount m2 = 0 then Some (Fetch_null, m2)
                   else do {
                     c_assert (tm_pfdcount m2 \<le> length (tm_pfds m2) \<and> tm_pfdcount m2 \<le> length (tm_copy m2));
                     (m4, res) \<leftarrow> fd_poll (fe_poll e) (snapshot m2);
                     let m5 = fe_others e m4;
                     case res of
                       None \<Rightarrow> (if fe_poll e = Poll_error True
                                then if tm_spin m5 then thread_fetch es m5 else Some (Fetch_unset, m5)
                                else Some (Fetch_null, m5))
                     | Some num \<Rightarrow>
                         do { m6 \<leftarrow> after_poll e num m5;
                              if tm_spin m6 then thread_fetch es m6 else Some (Fetch_unset, m6) } } } }"

subsection \<open>Accounting\<close>

definition timeval_elapsed :: "timeval \<Rightarrow> timeval \<Rightarrow> u64" where
  "timeval_elapsed a b = word_of_int ((tv_sec a - tv_sec b) * 1000000 + (tv_usec a - tv_usec b))"

text \<open>The resource usage that \<open>thread_getrusage\<close> reads: user and system time, and the clock.\<close>

record rusage =
  ru_utime :: timeval
  ru_stime :: timeval
  ru_real :: timeval

text \<open>The elapsed time and the processor time between two readings.\<close>

definition thread_consumed_time :: "rusage \<Rightarrow> rusage \<Rightarrow> u64 \<times> u64" where
  "thread_consumed_time now start =
     (timeval_elapsed (ru_real now) (ru_real start),
      timeval_elapsed (ru_utime now) (ru_utime start) + timeval_elapsed (ru_stime now) (ru_stime start))"

definition thread_should_yield :: "timeval \<Rightarrow> ('f, 'a) thread \<Rightarrow> bool" where
  "thread_should_yield now th \<longleftrightarrow> monotime_since now (th_real th) > th_yield th"

definition thread_set_yield_time :: "int \<Rightarrow> ('f, 'a) thread \<Rightarrow> ('f, 'a) thread" where
  "thread_set_yield_time yield_time th = th\<lparr>th_yield := yield_time\<rparr>"

definition thread_timer_remain :: "timeval \<Rightarrow> ('f, 'a) thread \<Rightarrow> timeval option" where
  "thread_timer_remain now th = do { sands \<leftarrow> u_sands (th_u th); Some (timersub sands now) }"

definition thread_timer_remain_msec :: "timeval \<Rightarrow> ('f, 'a) thread \<Rightarrow> int option" where
  "thread_timer_remain_msec now th =
     do { sands \<leftarrow> u_sands (th_u th);
          let us = monotime_until now sands;
          let remain = (if us < 0 then - (- us div 1000) else us div 1000);
          Some (if remain < 0 then 0 else remain) }"

definition thread_timer_remain_second :: "timeval \<Rightarrow> ('f, 'a) thread \<Rightarrow> int option" where
  "thread_timer_remain_second now th = do { r \<leftarrow> thread_timer_remain_msec now th; Some (r div 1000) }"

definition ttype_code :: "ttype \<Rightarrow> nat" where
  "ttype_code ty = (case ty of THREAD_READ \<Rightarrow> 0 | THREAD_WRITE \<Rightarrow> 1 | THREAD_TIMER \<Rightarrow> 2 | THREAD_EVENT \<Rightarrow> 3
     | THREAD_READY \<Rightarrow> 4 | THREAD_UNUSED \<Rightarrow> 5 | THREAD_EXECUTE \<Rightarrow> 6)"

text \<open>
  The updates of the usage history after a call that took \<open>realtime\<close> and \<open>cputime\<close>; the
  compare-and-exchange loop without interference stores the maximum.
\<close>

definition record_call :: "u64 \<Rightarrow> u64 \<Rightarrow> ttype \<Rightarrow> cpu_hist \<Rightarrow> cpu_hist" where
  "record_call realtime cputime ty h =
     h\<lparr>ch_real_total := ch_real_total h + realtime, ch_real_max := max (ch_real_max h) realtime,
       ch_cpu_total := ch_cpu_total h + cputime, ch_cpu_max := max (ch_cpu_max h) cputime,
       ch_total_calls := ch_total_calls h + 1, ch_types := ch_types h OR push_bit (ttype_code ty) 1\<rparr>"

text \<open>
  Running a thread: \<open>run\<close> is what its function does to the scheduler, \<open>before\<close> and \<open>after\<close> the readings
  around the call.
\<close>

definition thread_call ::
  "(('f, 'a) thread \<Rightarrow> ('f, 'a) master \<Rightarrow> ('f, 'a) master option) \<Rightarrow> rusage \<Rightarrow> rusage \<Rightarrow> ('f, 'a) thread
    \<Rightarrow> ('f, 'a) master \<Rightarrow> ('f, 'a) master option" where
  "thread_call run before after th m =
     do { m1 \<leftarrow> run (th\<lparr>th_real := ru_real before\<rparr>) m;
          let (realtime, cputime) = thread_consumed_time after before;
          f \<leftarrow> th_hist th;
          h \<leftarrow> tm_hist m1 f;
          Some (m1\<lparr>tm_hist := (tm_hist m1)(f \<mapsto> record_call realtime cputime (th_add_type th) h)\<rparr>) }"

text \<open>\<open>r\<close> is the address of the local variable that refers to the thread while it runs.\<close>

definition funcname_thread_execute ::
  "(('f, 'a) thread \<Rightarrow> ('f, 'a) master \<Rightarrow> ('f, 'a) master option) \<Rightarrow> rusage \<Rightarrow> rusage \<Rightarrow> nat
    \<Rightarrow> ('f, 'a) master \<Rightarrow> 'f \<Rightarrow> 'a ptr \<Rightarrow> int \<Rightarrow> ('f, 'a) master option" where
  "funcname_thread_execute run before after r m func arg val =
     do { (m1, t) \<leftarrow> thread_get m THREAD_EVENT func arg;
          th \<leftarrow> tm_mem m1 t;
          let th' = th\<lparr>th_add_type := THREAD_EXECUTE, th_u := U_val val, th_ref := Some r\<rparr>;
          m2 \<leftarrow> thread_call run before after th' (put_thread t th' (m1\<lparr>tm_refs := (tm_refs m1)(r \<mapsto> t)\<rparr>));
          thread_add_unuse m2 t }"

subsection \<open>Shutting down\<close>

definition thread_list_free :: "nat list \<Rightarrow> ('f, 'a) master \<Rightarrow> ('f, 'a) master option" where
  "thread_list_free ts m = fold_opt (\<lambda>t s. thread_free s t) ts m"

definition thread_array_free :: "nat ptr list \<Rightarrow> ('f, 'a) master \<Rightarrow> ('f, 'a) master option" where
  "thread_array_free a m = fold_opt (\<lambda>p s. case p of None \<Rightarrow> Some s | Some t \<Rightarrow> thread_free s t) a m"

definition thread_queue_free :: "(tnode, tnode \<Rightarrow> int) pqueue \<Rightarrow> ('f, 'a) master \<Rightarrow> ('f, 'a) master option" where
  "thread_queue_free q m =
     fold_opt (\<lambda>i s. do { node \<leftarrow> pq_node (pq_array q) i; thread_free s (fst node) }) [0..<pq_size q] m"

definition thread_master_free_unused :: "('f, 'a) master \<Rightarrow> ('f, 'a) master option" where
  "thread_master_free_unused m = do { m1 \<leftarrow> thread_list_free (tm_unuse m) m; Some (m1\<lparr>tm_unuse := []\<rparr>) }"

text \<open>What is left of the master's threads when its own memory is about to be freed.\<close>

definition thread_master_free :: "('f, 'a) master \<Rightarrow> ('f, 'a) master option" where
  "thread_master_free m =
     do { m1 \<leftarrow> thread_array_free (tm_read m) m;
          m2 \<leftarrow> thread_array_free (tm_write m) m1;
          m3 \<leftarrow> thread_queue_free (tm_timer m) m2;
          m4 \<leftarrow> thread_list_free (tm_event m) m3;
          m5 \<leftarrow> thread_list_free (tm_ready m) m4;
          thread_list_free (tm_unuse m) m5 }"

end
