(* ===== verification/Thread_Laws.thy ===== *)
theory Thread_Laws
  imports Thread
begin

text \<open>
  The scheduler's invariant: every thread in memory is in exactly one of the queues, the one its type
  names; and that the operations of the event loop keep it.
\<close>

section \<open>Where threads are\<close>

definition entries :: "nat ptr list \<Rightarrow> nat list" where
  "entries a = map the (filter (\<lambda>p. p \<noteq> None) a)"

text \<open>All threads in queues; \<open>xs\<close> are the nodes of the timer queue in array order.\<close>

definition placed :: "('f, 'a) master \<Rightarrow> tnode list \<Rightarrow> nat multiset" where
  "placed m xs = mset (tm_event m) + mset (tm_ready m) + mset (tm_unuse m) + image_mset fst (mset xs)
     + mset (entries (tm_read m)) + mset (entries (tm_write m))"

text \<open>The position a timer stores; an index that was never set counts as out of range.\<close>

definition timer_pos :: "(tnode \<Rightarrow> int) \<Rightarrow> tnode \<Rightarrow> nat" where
  "timer_pos ix n = (if ix n < 0 then INT_MAX else nat (ix n))"

definition thread_is :: "('f, 'a) master \<Rightarrow> ttype \<Rightarrow> nat \<Rightarrow> bool" where
  "thread_is m ty t \<longleftrightarrow> (\<exists>th. tm_mem m t = Some th \<and> th_type th = ty)"

definition thread_has :: "('f, 'a) master \<Rightarrow> ttype \<Rightarrow> tunion \<Rightarrow> nat \<Rightarrow> bool" where
  "thread_has m ty u t \<longleftrightarrow> (\<exists>th. tm_mem m t = Some th \<and> th_type th = ty \<and> th_u th = u)"

abbreviation unused_thread :: "('f, 'a) thread" where
  "unused_thread \<equiv> zero_thread\<lparr>th_type := THREAD_UNUSED\<rparr>"

text \<open>\<open>L\<close> are the threads that are in memory and in no queue while an operation moves them.\<close>

definition counts_ok :: "nat multiset \<Rightarrow> ('f, 'a) master \<Rightarrow> tnode list \<Rightarrow> bool" where
  "counts_ok L m xs \<longleftrightarrow>
     (\<forall>t. count (placed m xs + L) t = (if tm_mem m t = None then 0 else 1)) \<and> tm_alloc m = size (placed m xs + L)"

definition homes_ok :: "('f, 'a) master \<Rightarrow> tnode list \<Rightarrow> bool" where
  "homes_ok m xs \<longleftrightarrow>
     (\<forall>t \<in> set (tm_event m). thread_is m THREAD_EVENT t) \<and> (\<forall>t \<in> set (tm_ready m). thread_is m THREAD_READY t)
     \<and> (\<forall>t \<in> set (tm_unuse m). tm_mem m t = Some unused_thread)
     \<and> (\<forall>n \<in> set xs. thread_has m THREAD_TIMER (U_sands (snd n)) (fst n))
     \<and> (\<forall>i < length (tm_read m). \<forall>t. tm_read m ! i = Some t \<longrightarrow> thread_has m THREAD_READ (U_fd (int i)) t)
     \<and> (\<forall>i < length (tm_write m). \<forall>t. tm_write m ! i = Some t \<longrightarrow> thread_has m THREAD_WRITE (U_fd (int i)) t)"

definition hists_ok :: "('f, 'a) master \<Rightarrow> bool" where
  "hists_ok m \<longleftrightarrow> (\<forall>t th. tm_mem m t = Some th \<longrightarrow> t \<notin> set (tm_unuse m) \<longrightarrow>
     th_hist th \<noteq> None \<and> the (th_hist th) \<in> dom (tm_hist m))"

definition refs_ok :: "nat multiset \<Rightarrow> ('f, 'a) master \<Rightarrow> bool" where
  "refs_ok L m \<longleftrightarrow> (\<forall>t th r. tm_mem m t = Some th \<longrightarrow> t \<notin># L \<longrightarrow> th_ref th = Some r \<longrightarrow> tm_refs m r = Some t)"

definition shape_ok :: "('f, 'a) master \<Rightarrow> bool" where
  "shape_ok m \<longleftrightarrow> length (tm_unuse m) \<le> THREAD_UNUSED_DEPTH \<and> (\<forall>t. tm_mem m t \<noteq> None \<longrightarrow> t < tm_fresh m)
     \<and> length (tm_read m) = tm_fd_limit m \<and> length (tm_write m) = tm_fd_limit m
     \<and> length (tm_pfds m) = tm_pfdsize m \<and> length (tm_copy m) = tm_pfdsize m
     \<and> tm_pfdcount m \<le> tm_pfdsize m \<and> tm_copycount m \<le> tm_pfdsize m"

definition timers_ok :: "('f, 'a) master \<Rightarrow> tnode list \<Rightarrow> bool" where
  "timers_ok m xs \<longleftrightarrow> pq_inv thread_timer_cmp (Some timer_pos) (tm_timer m, tm_index m) xs"

definition sched_ok :: "nat multiset \<Rightarrow> ('f, 'a) master \<Rightarrow> tnode list \<Rightarrow> bool" where
  "sched_ok L m xs \<longleftrightarrow>
     counts_ok L m xs \<and> homes_ok m xs \<and> hists_ok m \<and> refs_ok L m \<and> shape_ok m \<and> timers_ok m xs"

section \<open>Basic facts\<close>

lemma entries_update:
  assumes "i < length a"
  shows "mset (entries (a[i := p])) + (case a ! i of None \<Rightarrow> {#} | Some t \<Rightarrow> {#t#})
         = mset (entries a) + (case p of None \<Rightarrow> {#} | Some t \<Rightarrow> {#t#})"
  using assms
proof (induction a arbitrary: i)
  case (Cons x a)
  then show ?case by (cases i; cases x; cases p) (auto simp: entries_def)
qed simp

lemma in_entries_iff: "t \<in> set (entries a) \<longleftrightarrow> (\<exists>i < length a. a ! i = Some t)"
  by (force simp: entries_def in_set_conv_nth image_iff)

lemma entries_replicate_None [simp]: "entries (replicate n None) = []"
  by (simp add: entries_def)

lemma timer_pos_hook: "pos_hook (Some thread_timer_update) timer_pos"
  unfolding pos_hook_def
  by (intro exI [of _ thread_timer_update] conjI refl allI ext) (simp add: timer_pos_def thread_timer_update_def)

lemma sched_ok_create: "sched_ok {#} (thread_master_create limit pipe0) []"
  using pqueue_create_inv [of "Some timer_pos" "Some thread_timer_update" thread_timer_cmp] timer_pos_hook
  by (simp add: sched_ok_def counts_ok_def homes_ok_def hists_ok_def refs_ok_def shape_ok_def timers_ok_def
      thread_master_create_def placed_def)

lemma thread_is_put:
  "thread_is (put_thread t th m) ty u \<longleftrightarrow> (if u = t then th_type th = ty else thread_is m ty u)"
  by (simp add: thread_is_def put_thread_def)

lemma thread_has_put:
  "thread_has (put_thread t th m) ty w u \<longleftrightarrow> (if u = t then th_type th = ty \<and> th_u th = w else thread_has m ty w u)"
  by (simp add: thread_has_def put_thread_def)

text \<open>The fields that \<open>put_thread\<close> does not touch.\<close>

lemma put_thread_simps [simp]:
  "tm_mem (put_thread t th m) = (tm_mem m)(t \<mapsto> th)" "tm_refs (put_thread t th m) = tm_refs m"
  "tm_read (put_thread t th m) = tm_read m" "tm_write (put_thread t th m) = tm_write m"
  "tm_timer (put_thread t th m) = tm_timer m" "tm_index (put_thread t th m) = tm_index m"
  "tm_event (put_thread t th m) = tm_event m" "tm_ready (put_thread t th m) = tm_ready m"
  "tm_unuse (put_thread t th m) = tm_unuse m" "tm_hist (put_thread t th m) = tm_hist m"
  "tm_pfds (put_thread t th m) = tm_pfds m" "tm_pfdcount (put_thread t th m) = tm_pfdcount m"
  "tm_copy (put_thread t th m) = tm_copy m" "tm_copycount (put_thread t th m) = tm_copycount m"
  "tm_alloc (put_thread t th m) = tm_alloc m" "tm_fresh (put_thread t th m) = tm_fresh m"
  "tm_fd_limit (put_thread t th m) = tm_fd_limit m" "tm_pfdsize (put_thread t th m) = tm_pfdsize m"
  "tm_cancel_req (put_thread t th m) = tm_cancel_req m" "tm_spin (put_thread t th m) = tm_spin m"
  by (simp_all add: put_thread_def)

lemma placed_put [simp]: "placed (put_thread t th m) xs = placed m xs"
  by (simp add: placed_def)

text \<open>A thread that is in no queue is named by none of them.\<close>

lemma loose_not_placed:
  assumes "counts_ok L m xs" "t \<in># L"
  shows "t \<notin># placed m xs" "count L t = 1"
proof -
  have "count (placed m xs) t + count L t \<le> 1" using assms(1) by (simp add: counts_ok_def)
  moreover have "count L t \<ge> 1" using assms(2) by simp
  ultimately have "count (placed m xs) t = 0" "count L t = 1" by linarith+
  then show "t \<notin># placed m xs" "count L t = 1" by (simp_all add: not_in_iff)
qed

lemma not_placed_iff:
  "t \<notin># placed m xs \<longleftrightarrow> t \<notin> set (tm_event m) \<and> t \<notin> set (tm_ready m) \<and> t \<notin> set (tm_unuse m)
     \<and> t \<notin> fst ` set xs \<and> (\<forall>i < length (tm_read m). tm_read m ! i \<noteq> Some t)
     \<and> (\<forall>i < length (tm_write m). tm_write m ! i \<noteq> Some t)"
  by (auto simp: placed_def in_entries_iff)

lemma homes_put:
  assumes "homes_ok m xs" "t \<notin># placed m xs"
  shows "homes_ok (put_thread t th m) xs"
proof -
  have n: "\<And>u. u \<in> set (tm_event m) \<Longrightarrow> u \<noteq> t" "\<And>u. u \<in> set (tm_ready m) \<Longrightarrow> u \<noteq> t"
    "\<And>u. u \<in> set (tm_unuse m) \<Longrightarrow> u \<noteq> t" "\<And>k. k \<in> set xs \<Longrightarrow> fst k \<noteq> t"
    "\<And>i u. i < length (tm_read m) \<Longrightarrow> tm_read m ! i = Some u \<Longrightarrow> u \<noteq> t"
    "\<And>i u. i < length (tm_write m) \<Longrightarrow> tm_write m ! i = Some u \<Longrightarrow> u \<noteq> t"
    using assms(2) unfolding not_placed_iff by auto
  show ?thesis using assms(1) n
    by (auto simp: homes_ok_def thread_is_put thread_has_put)
qed

lemma sched_put_loose:
  assumes "sched_ok L m xs" "t \<in># L" "th_hist th = Some f" "tm_hist m f \<noteq> None"
  shows "sched_ok L (put_thread t th m) xs"
proof -
  note parts = assms(1) [unfolded sched_ok_def]
  have np: "t \<notin># placed m xs" and c: "count L t = 1" using loose_not_placed assms parts by auto
  have mt: "tm_mem m t \<noteq> None" using parts c np by (auto simp: counts_ok_def not_in_iff split: if_splits)
  have "counts_ok L (put_thread t th m) xs" using parts mt by (auto simp: counts_ok_def)
  moreover have "homes_ok (put_thread t th m) xs" using parts np by (simp add: homes_put)
  moreover have "hists_ok (put_thread t th m)" using parts assms(3,4) by (auto simp: hists_ok_def)
  moreover have "refs_ok L (put_thread t th m)" using parts assms(2) by (auto simp: refs_ok_def)
  moreover have "shape_ok (put_thread t th m)" using parts mt by (auto simp: shape_ok_def)
  ultimately show ?thesis using parts by (simp add: sched_ok_def timers_ok_def)
qed

lemma timers_index:
  assumes "timers_ok m xs" "\<And>n. n \<in> set xs \<Longrightarrow> ix n = tm_index m n"
  shows "timers_ok (m\<lparr>tm_index := ix\<rparr>) xs"
  using assms by (auto simp: timers_ok_def pq_inv_def pos_inv_def tracks_def timer_pos_def)

lemma timers_unset:
  assumes "timers_ok m xs" "t \<notin> fst ` set xs"
  shows "pq_inv thread_timer_cmp (Some timer_pos) (tm_timer m, \<lambda>n. if fst n = t then - 1 else tm_index m n) xs"
proof -
  have "timers_ok (m\<lparr>tm_index := (\<lambda>n. if fst n = t then - 1 else tm_index m n)\<rparr>) xs"
    by (rule timers_index [OF assms(1)]) (use assms(2) in force)
  then show ?thesis by (simp add: timers_ok_def)
qed

section \<open>Getting and releasing threads\<close>

text \<open>What \<open>thread_get\<close> leaves alone.\<close>

definition same_queues :: "('f, 'a) master \<Rightarrow> ('f, 'a) master \<Rightarrow> bool" where
  "same_queues m m' \<longleftrightarrow> tm_event m' = tm_event m \<and> tm_ready m' = tm_ready m \<and> tm_timer m' = tm_timer m
     \<and> tm_read m' = tm_read m \<and> tm_write m' = tm_write m \<and> tm_pfds m' = tm_pfds m \<and> tm_pfdcount m' = tm_pfdcount m
     \<and> tm_pfdsize m' = tm_pfdsize m \<and> tm_fd_limit m' = tm_fd_limit m \<and> tm_cancel_req m' = tm_cancel_req m
     \<and> tm_copy m' = tm_copy m \<and> tm_copycount m' = tm_copycount m"

definition new_thread :: "ttype \<Rightarrow> 'f \<Rightarrow> 'a ptr \<Rightarrow> ('f, 'a) thread \<Rightarrow> bool" where
  "new_thread ty f arg th \<longleftrightarrow> th_type th = ty \<and> th_ref th = None \<and> th_arg th = arg \<and> th_hist th = Some f \<and> th_func th = Some f"

lemma fresh_not_placed:
  "sched_ok L m xs \<Longrightarrow> tm_mem m t = None \<Longrightarrow> t \<notin># placed m xs \<and> t \<notin># L"
  by (auto simp: sched_ok_def counts_ok_def not_in_iff) (metis add_is_0)+

lemma sched_take_fresh:
  fixes m :: "('f, 'a) master" and hh :: cpu_hist
  assumes ok: "sched_ok {#} m xs" and t: "t = tm_fresh m" and h: "th_hist th = Some f"
  defines "m0 \<equiv> m\<lparr>tm_fresh := tm_fresh m + 1, tm_alloc := tm_alloc m + 1,
                   tm_index := (\<lambda>n. if fst n = t then - 1 else tm_index m n), tm_hist := (tm_hist m)(f \<mapsto> hh)\<rparr>"
  shows "sched_ok {#t#} (put_thread t th m0) xs"
proof -
  note parts = ok [unfolded sched_ok_def]
  have mt: "tm_mem m t = None" using parts t by (auto simp: shape_ok_def)
  have np: "t \<notin># placed m xs" using fresh_not_placed [OF ok mt] by simp
  have pl: "placed m0 xs = placed m xs" by (simp add: m0_def placed_def)
  have "counts_ok {#t#} (put_thread t th m0) xs"
    using parts np mt pl by (auto simp: counts_ok_def m0_def not_in_iff)
  moreover have "homes_ok m0 xs" using parts by (simp add: homes_ok_def m0_def thread_is_def thread_has_def)
  then have "homes_ok (put_thread t th m0) xs" using np pl by (intro homes_put) simp_all
  moreover have "hists_ok (put_thread t th m0)" using parts h by (auto simp: hists_ok_def m0_def)
  moreover have "refs_ok {#t#} (put_thread t th m0)" using parts by (auto simp: refs_ok_def m0_def)
  moreover have "shape_ok (put_thread t th m0)" using parts t by (auto simp: shape_ok_def m0_def less_Suc_eq)
  moreover have "timers_ok (put_thread t th m0) xs"
    using timers_unset [of m xs t] parts np by (simp add: timers_ok_def m0_def not_placed_iff)
  ultimately show ?thesis by (simp add: sched_ok_def)
qed

lemma sched_take_unused:
  fixes m :: "('f, 'a) master" and hh :: cpu_hist
  assumes ok: "sched_ok {#} m xs" and u: "tm_unuse m = t # r" and h: "th_hist th = Some f"
  defines "m0 \<equiv> m\<lparr>tm_unuse := r, tm_index := (\<lambda>n. if fst n = t then - 1 else tm_index m n),
                   tm_hist := (tm_hist m)(f \<mapsto> hh)\<rparr>"
  shows "sched_ok {#t#} (put_thread t th m0) xs"
proof -
  note parts = ok [unfolded sched_ok_def]
  have pl: "placed m xs = add_mset t (placed m0 xs)" using u by (simp add: m0_def placed_def)
  have mt: "tm_mem m t \<noteq> None" using parts u by (simp add: homes_ok_def)
  have np: "t \<notin># placed m0 xs"
  proof -
    have "count (placed m xs) t = 1" using parts mt by (auto simp: counts_ok_def)
    then show ?thesis using pl by (simp add: not_in_iff)
  qed
  have "counts_ok {#t#} (put_thread t th m0) xs"
    using parts mt pl by (auto simp: counts_ok_def m0_def)
  moreover have "homes_ok m0 xs" using parts u by (simp add: homes_ok_def m0_def thread_is_def thread_has_def)
  then have "homes_ok (put_thread t th m0) xs" using np by (rule homes_put)
  moreover have "hists_ok (put_thread t th m0)" using parts h u by (auto simp: hists_ok_def m0_def)
  moreover have "refs_ok {#t#} (put_thread t th m0)" using parts by (auto simp: refs_ok_def m0_def)
  moreover have "shape_ok (put_thread t th m0)" using parts u mt by (auto simp: shape_ok_def m0_def)
  moreover have "timers_ok (put_thread t th m0) xs"
    using timers_unset [of m xs t] parts np by (simp add: timers_ok_def m0_def not_placed_iff)
  ultimately show ?thesis by (simp add: sched_ok_def)
qed

lemma thread_get_spec:
  fixes m :: "('f, 'a) master"
  assumes ok: "sched_ok {#} m xs"
  obtains m1 t th where "thread_get m ty f arg = Some (m1, t)" "sched_ok {#t#} m1 xs" "tm_mem m1 t = Some th"
    "new_thread ty f arg th" "tm_hist m1 f \<noteq> None" "same_queues m m1" "tm_refs m1 = tm_refs m"
    "\<And>u. u \<noteq> t \<Longrightarrow> tm_mem m1 u = tm_mem m u"
proof -
  let ?set = "\<lambda>old :: ('f, 'a) thread. old\<lparr>th_type := ty, th_add_type := ty, th_arg := arg, th_ref := None,
                th_yield := THREAD_YIELD_TIME_SLOT, th_hist := Some f, th_func := Some f\<rparr>"
  have n: "new_thread ty f arg (?set old)" for old :: "('f, 'a) thread" by (simp add: new_thread_def)
  define hh where "hh = (case tm_hist m f of None \<Rightarrow> zero_hist | Some h \<Rightarrow> h)\<lparr>ch_total_active :=
    ch_total_active (case tm_hist m f of None \<Rightarrow> zero_hist | Some h \<Rightarrow> h) + 1\<rparr>"
  show thesis
  proof (cases "tm_unuse m")
    case Nil
    let ?m = "m\<lparr>tm_fresh := tm_fresh m + 1, tm_alloc := tm_alloc m + 1,
                tm_index := (\<lambda>n. if fst n = tm_fresh m then - 1 else tm_index m n), tm_hist := (tm_hist m)(f \<mapsto> hh)\<rparr>"
    have "thread_get m ty f arg = Some (put_thread (tm_fresh m) (?set zero_thread) ?m, tm_fresh m)"
      using Nil by (simp add: thread_get_def Let_def zero_thread_def hh_def cong: if_cong)
    then show thesis
      by (rule that [OF _ sched_take_fresh [OF ok refl, where f = f] _ n]) (simp_all add: same_queues_def)
  next
    case (Cons t r)
    let ?m = "m\<lparr>tm_unuse := r, tm_index := (\<lambda>n. if fst n = t then - 1 else tm_index m n), tm_hist := (tm_hist m)(f \<mapsto> hh)\<rparr>"
    have "tm_mem m t = Some unused_thread" using Cons ok by (simp add: sched_ok_def homes_ok_def)
    then have "thread_get m ty f arg = Some (put_thread t (?set unused_thread) ?m, t)"
      using Cons by (simp add: thread_get_def Let_def zero_thread_def hh_def cong: if_cong)
    then show thesis
      by (rule that [OF _ sched_take_unused [OF ok Cons, where f = f] _ n]) (simp_all add: same_queues_def)
  qed
qed

lemma thread_add_unuse_spec:
  fixes m :: "('f, 'a) master"
  assumes ok: "sched_ok {#t#} m xs"
  obtains m' where "thread_add_unuse m t = Some m'" "sched_ok {#} m' xs" "same_queues m m'" "tm_refs m' = tm_refs m"
    "\<And>u. u \<noteq> t \<Longrightarrow> tm_mem m' u = tm_mem m u" "tm_mem m' t \<in> {None, Some unused_thread}"
proof -
  note parts = ok [unfolded sched_ok_def]
  have np: "t \<notin># placed m xs" using loose_not_placed(1) [of "{#t#}" m xs t] parts by simp
  then have tu: "t \<notin> set (tm_unuse m)" by (simp add: not_placed_iff)
  have "tm_mem m t \<noteq> None" using parts by (auto simp: counts_ok_def split: if_splits)
  then obtain th where th: "tm_mem m t = Some th" by blast
  then have "th_hist th \<noteq> None \<and> the (th_hist th) \<in> dom (tm_hist m)" using parts tu by (simp add: hists_ok_def)
  then obtain f h where f: "th_hist th = Some f" "tm_hist m f = Some h" by auto
  define m1 where "m1 = m\<lparr>tm_hist := (tm_hist m)(f \<mapsto> h\<lparr>ch_total_active := ch_total_active h - 1\<rparr>)\<rparr>"
  have ok1: "counts_ok {#t#} m1 xs" "homes_ok m1 xs" "hists_ok m1" "refs_ok {#t#} m1" "shape_ok m1" "timers_ok m1 xs"
    using parts by (auto simp: m1_def counts_ok_def placed_def homes_ok_def thread_is_def thread_has_def hists_ok_def
        refs_ok_def shape_ok_def timers_ok_def)
  have m1t: "tm_mem m1 t = Some th" using th by (simp add: m1_def)
  have np1: "t \<notin># placed m1 xs" using np by (simp add: m1_def placed_def)
  show thesis
  proof (cases "length (tm_unuse m) < THREAD_UNUSED_DEPTH")
    case True
    let ?m = "put_thread t unused_thread m1\<lparr>tm_unuse := tm_unuse m @ [t]\<rparr>"
    have "thread_add_unuse m t = Some ?m"
      using th f True by (simp add: thread_add_unuse_def m1_def Let_def put_thread_def)
    moreover have "sched_ok {#} ?m xs"
    proof -
      have "placed ?m xs = add_mset t (placed m1 xs)" by (simp add: placed_def m1_def)
      then have "counts_ok {#} ?m xs" using ok1(1) np1 m1t by (auto simp: counts_ok_def)
      moreover have "homes_ok ?m xs"
        using homes_put [OF ok1(2) np1, of unused_thread] by (auto simp: homes_ok_def thread_is_def thread_has_def m1_def)
      moreover have "hists_ok ?m" using ok1(3) by (auto simp: hists_ok_def m1_def)
      moreover have "refs_ok {#} ?m" using ok1(4) by (auto simp: refs_ok_def zero_thread_def)
      moreover have "shape_ok ?m" using ok1(5) True th by (auto simp: shape_ok_def m1_def)
      ultimately show ?thesis using ok1(6) by (simp add: sched_ok_def timers_ok_def)
    qed
    ultimately show thesis by (rule that) (simp_all add: same_queues_def m1_def)
  next
    case False
    have al: "tm_alloc m > 0" using parts by (simp add: counts_ok_def)
    let ?m = "(put_thread t unused_thread m1)\<lparr>tm_alloc := tm_alloc m - 1, tm_mem := (tm_mem m)(t := None)\<rparr>"
    have "thread_add_unuse m t = Some ?m"
      using th f False al by (simp add: thread_add_unuse_def m1_def Let_def thread_free_def put_thread_def)
    moreover have "sched_ok {#} ?m xs"
    proof -
      have pl: "placed ?m xs = placed m1 xs" by (simp add: placed_def m1_def)
      have "counts_ok {#} ?m xs"
        using ok1(1) np1 unfolding counts_ok_def pl by (auto simp: m1_def not_in_iff split: if_splits)
      moreover have "homes_ok ?m xs"
        using homes_put [OF ok1(2) np1, of unused_thread] np1
        by (auto simp: homes_ok_def thread_is_def thread_has_def m1_def not_placed_iff)
      moreover have "hists_ok ?m" using ok1(3) by (auto simp: hists_ok_def m1_def)
      moreover have "refs_ok {#} ?m" using ok1(4) by (auto simp: refs_ok_def m1_def)
      moreover have "shape_ok ?m" using ok1(5) by (auto simp: shape_ok_def m1_def)
      ultimately show ?thesis using ok1(6) by (simp add: sched_ok_def timers_ok_def)
    qed
    ultimately show thesis by (rule that) (simp_all add: same_queues_def m1_def)
  qed
qed

section \<open>Moving threads between queues\<close>

text \<open>The reference that names a thread, if there is one, points back to it.\<close>

definition ref_back :: "('f, 'a) master \<Rightarrow> nat \<Rightarrow> bool" where
  "ref_back m t \<longleftrightarrow> (\<forall>th r. tm_mem m t = Some th \<longrightarrow> th_ref th = Some r \<longrightarrow> tm_refs m r = Some t)"

lemma refs_ok_loose_iff: "refs_ok {#} m \<longleftrightarrow> refs_ok {#t#} m \<and> ref_back m t"
proof
  assume a: "refs_ok {#t#} m \<and> ref_back m t"
  show "refs_ok {#} m" unfolding refs_ok_def
  proof (intro allI impI)
    fix u th r assume "tm_mem m u = Some th" "th_ref th = Some r"
    then show "tm_refs m r = Some u" using a by (cases "u = t") (simp_all add: refs_ok_def ref_back_def)
  qed
qed (simp add: refs_ok_def ref_back_def)

text \<open>A move leaves memory, references and the statistics alone.\<close>

lemma sched_move:
  assumes "sched_ok L m xs"
    and "tm_mem m' = tm_mem m" "tm_refs m' = tm_refs m" "tm_hist m' = tm_hist m" "tm_unuse m' = tm_unuse m"
    and "tm_alloc m' = tm_alloc m" "placed m' xs' + L' = placed m xs + L"
    and "homes_ok m' xs'" "refs_ok L' m'" "shape_ok m'" "timers_ok m' xs'"
  shows "sched_ok L' m' xs'"
  using assms by (simp add: sched_ok_def counts_ok_def hists_ok_def)

lemma thread_is_mem_cong: "tm_mem m' = tm_mem m \<Longrightarrow> thread_is m' = thread_is m" "tm_mem m' = tm_mem m \<Longrightarrow> thread_has m' = thread_has m"
  by (simp_all add: thread_is_def thread_has_def fun_eq_iff)

lemma place_event:
  assumes "sched_ok {#t#} m xs" "thread_is m THREAD_EVENT t" "ref_back m t"
  shows "sched_ok {#} (m\<lparr>tm_event := tm_event m @ [t]\<rparr>) xs"
proof (rule sched_move [OF assms(1)])
  note parts = assms(1) [unfolded sched_ok_def]
  show "homes_ok (m\<lparr>tm_event := tm_event m @ [t]\<rparr>) xs"
    using parts assms(2) by (auto simp: homes_ok_def thread_is_def thread_has_def)
  show "refs_ok {#} (m\<lparr>tm_event := tm_event m @ [t]\<rparr>)"
    using parts assms(3) unfolding refs_ok_loose_iff [where t = t] by (simp add: refs_ok_def ref_back_def)
  show "shape_ok (m\<lparr>tm_event := tm_event m @ [t]\<rparr>)" using parts by (auto simp: shape_ok_def)
  show "timers_ok (m\<lparr>tm_event := tm_event m @ [t]\<rparr>) xs" using parts by (simp add: timers_ok_def)
qed (simp_all add: placed_def)

lemma place_ready:
  assumes "sched_ok {#t#} m xs" "thread_is m THREAD_READY t" "ref_back m t"
  shows "sched_ok {#} (m\<lparr>tm_ready := tm_ready m @ [t]\<rparr>) xs"
proof (rule sched_move [OF assms(1)])
  note parts = assms(1) [unfolded sched_ok_def]
  show "homes_ok (m\<lparr>tm_ready := tm_ready m @ [t]\<rparr>) xs"
    using parts assms(2) by (auto simp: homes_ok_def thread_is_def thread_has_def)
  show "refs_ok {#} (m\<lparr>tm_ready := tm_ready m @ [t]\<rparr>)"
    using parts assms(3) unfolding refs_ok_loose_iff [where t = t] by (simp add: refs_ok_def ref_back_def)
  show "shape_ok (m\<lparr>tm_ready := tm_ready m @ [t]\<rparr>)" using parts by (auto simp: shape_ok_def)
  show "timers_ok (m\<lparr>tm_ready := tm_ready m @ [t]\<rparr>) xs" using parts by (simp add: timers_ok_def)
qed (simp_all add: placed_def)

lemma refs_ok_mono: "refs_ok L m \<Longrightarrow> set_mset L \<subseteq> set_mset L' \<Longrightarrow> refs_ok L' m"
  by (auto simp: refs_ok_def)

lemma unplace_event:
  assumes "sched_ok {#} m xs" "t \<in> set (tm_event m)"
  shows "sched_ok {#t#} (event_del t m) xs"
proof (rule sched_move [OF assms(1)])
  note parts = assms(1) [unfolded sched_ok_def]
  show "homes_ok (event_del t m) xs"
    using parts notin_set_remove1 [of _ "tm_event m" t]
    by (auto simp: event_del_def homes_ok_def thread_is_def thread_has_def dest: notin_set_remove1)
  show "placed (event_del t m) xs + {#t#} = placed m xs + {#}"
    using assms(2) by (simp add: placed_def event_del_def)
  show "refs_ok {#t#} (event_del t m)" using parts by (auto simp: refs_ok_def event_del_def)
  show "shape_ok (event_del t m)" using parts by (auto simp: shape_ok_def event_del_def)
  show "timers_ok (event_del t m) xs" using parts by (simp add: timers_ok_def event_del_def)
qed (simp_all add: event_del_def)

lemma unplace_ready:
  assumes "sched_ok {#} m xs" "t \<in> set (tm_ready m)"
  shows "sched_ok {#t#} (ready_del t m) xs"
proof (rule sched_move [OF assms(1)])
  note parts = assms(1) [unfolded sched_ok_def]
  show "homes_ok (ready_del t m) xs"
    using parts by (auto simp: ready_del_def homes_ok_def thread_is_def thread_has_def dest: notin_set_remove1)
  show "placed (ready_del t m) xs + {#t#} = placed m xs + {#}"
    using assms(2) by (simp add: placed_def ready_del_def)
  show "refs_ok {#t#} (ready_del t m)" using parts by (auto simp: refs_ok_def ready_del_def)
  show "shape_ok (ready_del t m)" using parts by (auto simp: shape_ok_def ready_del_def)
  show "timers_ok (ready_del t m) xs" using parts by (simp add: timers_ok_def ready_del_def)
qed (simp_all add: ready_del_def)

lemma place_timer:
  assumes ok: "sched_ok {#t#} m xs" and "thread_has m THREAD_TIMER (U_sands tv) t" "ref_back m t"
    and room: "2 * pq_array_size (tm_timer m) \<le> INT_MAX"
  obtains q ix ys where "pqueue_enqueue (t, tv) (tm_timer m, tm_index m) = Some (q, ix)"
    "sched_ok {#} (m\<lparr>tm_timer := q, tm_index := ix\<rparr>) ys" "mset ys = add_mset (t, tv) (mset xs)"
proof -
  note parts = ok [unfolded sched_ok_def]
  have np: "t \<notin># placed m xs" using loose_not_placed(1) [of "{#t#}" m xs t] parts by simp
  then have new: "(t, tv) \<notin> set xs" by (force simp: not_placed_iff)
  obtain q ix ys where q: "pqueue_enqueue (t, tv) (tm_timer m, tm_index m) = Some (q, ix)"
    "pq_inv thread_timer_cmp (Some timer_pos) (q, ix) ys" "mset ys = add_mset (t, tv) (mset xs)"
    using pqueue_enqueue_spec [OF timers.comparator_axioms, of "Some timer_pos" "tm_timer m" "tm_index m" xs "(t, tv)"]
      parts new room by (auto simp: timers_ok_def)
  have ys: "set ys = insert (t, tv) (set xs)" using q(3) by (metis set_mset_add_mset_insert set_mset_mset)
  let ?m = "m\<lparr>tm_timer := q, tm_index := ix\<rparr>"
  have "sched_ok {#} ?m ys"
  proof (rule sched_move [OF ok])
    show "homes_ok ?m ys" using parts assms(2) ys by (auto simp: homes_ok_def thread_is_def thread_has_def)
    show "refs_ok {#} ?m"
      using parts assms(3) unfolding refs_ok_loose_iff [where t = t] by (simp add: refs_ok_def ref_back_def)
    show "shape_ok ?m" using parts by (auto simp: shape_ok_def)
    show "timers_ok ?m ys" using q(2) by (simp add: timers_ok_def)
  qed (simp_all add: placed_def q(3))
  then show thesis using q that by blast
qed

lemma unplace_timer:
  assumes ok: "sched_ok {#} m xs" and t: "(t, tv) \<in> set xs"
  obtains q ix ys where "tm_index m (t, tv) \<ge> 0"
    "pq_node (pq_array (tm_timer m)) (nat (tm_index m (t, tv))) = Some (t, tv)"
    "pqueue_remove_at (nat (tm_index m (t, tv))) (tm_timer m, tm_index m) = Some (q, ix)"
    "sched_ok {#t#} (m\<lparr>tm_timer := q, tm_index := ix\<rparr>) ys" "mset ys = mset xs - {#(t, tv)#}"
proof -
  note parts = ok [unfolded sched_ok_def]
  have inv: "pq_inv thread_timer_cmp (Some timer_pos) (tm_timer m, tm_index m) xs" using parts by (simp add: timers_ok_def)
  obtain i where i: "i < length xs" "xs ! i = (t, tv)" using t by (auto simp: in_set_conv_nth)
  have "timer_pos (tm_index m) (t, tv) = i" using inv i by (auto simp: pq_inv_def pos_inv_def tracks_def)
  moreover have "i < INT_MAX" using inv i by (auto simp: pq_inv_def)
  ultimately have ix: "tm_index m (t, tv) \<ge> 0" "nat (tm_index m (t, tv)) = i"
    by (auto simp: timer_pos_def split: if_splits)
  have node: "pq_node (pq_array (tm_timer m)) i = Some (t, tv)"
    using pq_inv_rd [OF inv i(1)] i(2) by (simp add: pq_node_def)
  obtain q s ys where q: "pqueue_remove_at i (tm_timer m, tm_index m) = Some (q, s)"
    "pq_inv thread_timer_cmp (Some timer_pos) (q, s) ys" "mset ys = mset xs - {#(t, tv)#}"
    using pqueue_remove_at_spec [OF timers.comparator_axioms inv i(1)] i(2) by auto
  have ys: "set ys \<subseteq> set xs" using q(3) by (metis in_diffD set_mset_mset subsetI)
  let ?m = "m\<lparr>tm_timer := q, tm_index := s\<rparr>"
  have "sched_ok {#t#} ?m ys"
  proof (rule sched_move [OF ok])
    have "mset xs = add_mset (t, tv) (mset ys)" using q(3) t by simp
    then show "placed ?m ys + {#t#} = placed m xs + {#}" by (simp add: placed_def)
    show "homes_ok ?m ys" using parts ys by (auto simp: homes_ok_def thread_is_def thread_has_def)
    show "refs_ok {#t#} ?m" using parts by (auto simp: refs_ok_def)
    show "shape_ok ?m" using parts by (auto simp: shape_ok_def)
    show "timers_ok ?m ys" using q(2) by (simp add: timers_ok_def)
  qed simp_all
  then show thesis using that ix node q by metis
qed

text \<open>Array slots.\<close>

lemma place_read:
  assumes ok: "sched_ok {#t#} m xs" and "thread_has m THREAD_READ (U_fd (int i)) t" "ref_back m t"
    and i: "i < tm_fd_limit m" "tm_read m ! i = None"
  shows "sched_ok {#} (m\<lparr>tm_read := (tm_read m)[i := Some t]\<rparr>) xs"
proof (rule sched_move [OF ok])
  note parts = ok [unfolded sched_ok_def]
  let ?m = "m\<lparr>tm_read := (tm_read m)[i := Some t]\<rparr>"
  have l: "i < length (tm_read m)" using parts i by (simp add: shape_ok_def)
  show "homes_ok ?m xs" using parts assms(2) l by (auto simp: homes_ok_def thread_is_def thread_has_def nth_list_update)
  show "refs_ok {#} ?m"
    using parts assms(3) unfolding refs_ok_loose_iff [where t = t] by (simp add: refs_ok_def ref_back_def)
  show "shape_ok ?m" using parts by (auto simp: shape_ok_def)
  show "timers_ok ?m xs" using parts by (simp add: timers_ok_def)
  show "placed ?m xs + {#} = placed m xs + {#t#}"
    using entries_update [OF l, of "Some t"] i(2) by (simp add: placed_def)
qed simp_all

lemma place_write:
  assumes ok: "sched_ok {#t#} m xs" and "thread_has m THREAD_WRITE (U_fd (int i)) t" "ref_back m t"
    and i: "i < tm_fd_limit m" "tm_write m ! i = None"
  shows "sched_ok {#} (m\<lparr>tm_write := (tm_write m)[i := Some t]\<rparr>) xs"
proof (rule sched_move [OF ok])
  note parts = ok [unfolded sched_ok_def]
  let ?m = "m\<lparr>tm_write := (tm_write m)[i := Some t]\<rparr>"
  have l: "i < length (tm_write m)" using parts i by (simp add: shape_ok_def)
  show "homes_ok ?m xs" using parts assms(2) l by (auto simp: homes_ok_def thread_is_def thread_has_def nth_list_update)
  show "refs_ok {#} ?m"
    using parts assms(3) unfolding refs_ok_loose_iff [where t = t] by (simp add: refs_ok_def ref_back_def)
  show "shape_ok ?m" using parts by (auto simp: shape_ok_def)
  show "timers_ok ?m xs" using parts by (simp add: timers_ok_def)
  show "placed ?m xs + {#} = placed m xs + {#t#}"
    using entries_update [OF l, of "Some t"] i(2) by (simp add: placed_def)
qed simp_all

lemma unplace_read:
  assumes ok: "sched_ok {#} m xs" and i: "i < length (tm_read m)" "tm_read m ! i = Some t"
  shows "sched_ok {#t#} (m\<lparr>tm_read := (tm_read m)[i := None]\<rparr>) xs"
proof (rule sched_move [OF ok])
  note parts = ok [unfolded sched_ok_def]
  let ?m = "m\<lparr>tm_read := (tm_read m)[i := None]\<rparr>"
  show "homes_ok ?m xs" using parts i by (auto simp: homes_ok_def thread_is_def thread_has_def nth_list_update split: if_splits)
  show "refs_ok {#t#} ?m" using parts by (auto simp: refs_ok_def)
  show "shape_ok ?m" using parts by (auto simp: shape_ok_def)
  show "timers_ok ?m xs" using parts by (simp add: timers_ok_def)
  show "placed ?m xs + {#t#} = placed m xs + {#}"
    using entries_update [OF i(1), of None] i(2) by (simp add: placed_def)
qed simp_all

lemma unplace_write:
  assumes ok: "sched_ok {#} m xs" and i: "i < length (tm_write m)" "tm_write m ! i = Some t"
  shows "sched_ok {#t#} (m\<lparr>tm_write := (tm_write m)[i := None]\<rparr>) xs"
proof (rule sched_move [OF ok])
  note parts = ok [unfolded sched_ok_def]
  let ?m = "m\<lparr>tm_write := (tm_write m)[i := None]\<rparr>"
  show "homes_ok ?m xs" using parts i by (auto simp: homes_ok_def thread_is_def thread_has_def nth_list_update split: if_splits)
  show "refs_ok {#t#} ?m" using parts by (auto simp: refs_ok_def)
  show "shape_ok ?m" using parts by (auto simp: shape_ok_def)
  show "timers_ok ?m xs" using parts by (simp add: timers_ok_def)
  show "placed ?m xs + {#t#} = placed m xs + {#}"
    using entries_update [OF i(1), of None] i(2) by (simp add: placed_def)
qed simp_all

lemma homes_put_same:
  assumes "homes_ok m xs" "tm_mem m t = Some th" "th_type th' = th_type th" "th_u th' = th_u th" "t \<notin> set (tm_unuse m)"
  shows "homes_ok (put_thread t th' m) xs"
proof -
  have "thread_is (put_thread t th' m) = thread_is m" "thread_has (put_thread t th' m) = thread_has m"
    using assms(2-4) by (auto simp: fun_eq_iff thread_is_put thread_has_put thread_is_def thread_has_def)
  moreover have "\<And>u. u \<in> set (tm_unuse m) \<Longrightarrow> u \<noteq> t" using assms(5) by blast
  ultimately show ?thesis using assms(1) by (auto simp: homes_ok_def)
qed

lemma set_ref_spec:
  assumes ok: "sched_ok {#} m xs" and th: "tm_mem m t = Some th" "t \<notin> set (tm_unuse m)" "th_ref th = None"
    and free: "\<not> is_scheduled m t_ptr"
  obtains m' where "set_ref t_ptr t m = Some m'" "sched_ok {#} m' xs" "same_queues m m'"
    "tm_mem m' = (tm_mem m)(t \<mapsto> th\<lparr>th_ref := t_ptr\<rparr>)"
    "tm_refs m' = (case t_ptr of None \<Rightarrow> tm_refs m | Some r \<Rightarrow> (tm_refs m)(r \<mapsto> t))"
proof (cases t_ptr)
  case None
  have "th\<lparr>th_ref := None\<rparr> = th" using th(3) by simp
  then show thesis using None ok th by (intro that [of m]) (simp_all add: set_ref_def same_queues_def fun_upd_idem)
next
  case (Some r)
  note parts = ok [unfolded sched_ok_def]
  let ?th = "th\<lparr>th_ref := Some r\<rparr>"
  let ?base = "m\<lparr>tm_refs := (tm_refs m)(r \<mapsto> t)\<rparr>"
  let ?m = "put_thread t ?th ?base"
  have r: "tm_refs m r = None" using free Some by (simp add: is_scheduled_def)
  have pl: "placed ?m xs = placed m xs" by (simp add: placed_def)
  have "counts_ok {#} ?m xs" using parts th(1) unfolding counts_ok_def pl by auto
  moreover have "homes_ok ?base xs" using parts by (simp add: homes_ok_def thread_is_def thread_has_def)
  then have "homes_ok ?m xs" using th by (intro homes_put_same [where th = th]) simp_all
  moreover have "hists_ok ?m" using parts th by (auto simp: hists_ok_def)
  moreover have "refs_ok {#} ?m"
    unfolding refs_ok_def
  proof (intro allI impI)
    fix u uh k assume a: "tm_mem ?m u = Some uh" "th_ref uh = Some k"
    have "u \<noteq> t \<Longrightarrow> tm_refs m k = Some u" using a parts by (simp add: refs_ok_def)
    then show "tm_refs ?m k = Some u" using a r by (cases "u = t") auto
  qed
  moreover have "shape_ok ?m" using parts th by (auto simp: shape_ok_def)
  moreover have "timers_ok ?m xs" using parts by (simp add: timers_ok_def)
  ultimately have "sched_ok {#} ?m xs" by (simp add: sched_ok_def)
  then show thesis using Some th by (intro that [of ?m]) (simp_all add: set_ref_def same_queues_def)
qed

lemma put_thread_ready: "put_thread t th (m\<lparr>tm_ready := r\<rparr>) = (put_thread t th m)\<lparr>tm_ready := r\<rparr>"
  by (simp add: put_thread_def)

lemma make_ready_spec:
  assumes ok: "sched_ok {#t#} m xs" and th: "tm_mem m t = Some th" and rb: "ref_back m t"
  shows "make_ready t m = Some (put_thread t (th\<lparr>th_type := THREAD_READY\<rparr>) (m\<lparr>tm_ready := tm_ready m @ [t]\<rparr>))"
    and "sched_ok {#} (put_thread t (th\<lparr>th_type := THREAD_READY\<rparr>) (m\<lparr>tm_ready := tm_ready m @ [t]\<rparr>)) xs"
proof -
  note parts = ok [unfolded sched_ok_def]
  have "t \<notin># placed m xs" using loose_not_placed(1) [of "{#t#}" m xs t] parts by simp
  then have "t \<notin> set (tm_unuse m)" by (simp add: not_placed_iff)
  then have "th_hist th \<noteq> None \<and> the (th_hist th) \<in> dom (tm_hist m)" using parts th by (simp add: hists_ok_def)
  then obtain f where f: "th_hist th = Some f" "tm_hist m f \<noteq> None" by auto
  let ?m = "put_thread t (th\<lparr>th_type := THREAD_READY\<rparr>) m"
  have "sched_ok {#t#} ?m xs" using f by (intro sched_put_loose [OF ok]) simp_all
  moreover have "thread_is ?m THREAD_READY t" by (simp add: thread_is_put)
  moreover have "ref_back ?m t" using rb th by (simp add: ref_back_def)
  ultimately have "sched_ok {#} (?m\<lparr>tm_ready := tm_ready ?m @ [t]\<rparr>) xs" by (rule place_ready)
  then show "sched_ok {#} (put_thread t (th\<lparr>th_type := THREAD_READY\<rparr>) (m\<lparr>tm_ready := tm_ready m @ [t]\<rparr>)) xs"
    by (simp add: put_thread_ready)
  show "make_ready t m = Some (put_thread t (th\<lparr>th_type := THREAD_READY\<rparr>) (m\<lparr>tm_ready := tm_ready m @ [t]\<rparr>))"
    using th by (simp add: make_ready_def)
qed

section \<open>Scheduling\<close>

lemma new_loose:
  assumes ok: "sched_ok {#t#} m xs" and th: "tm_mem m t = Some th" "new_thread ty f arg th" "tm_hist m f \<noteq> None"
  shows "sched_ok {#t#} (put_thread t (th\<lparr>th_u := u\<rparr>) m) xs" "thread_has (put_thread t (th\<lparr>th_u := u\<rparr>) m) ty u t"
    "ref_back (put_thread t (th\<lparr>th_u := u\<rparr>) m) t" "t \<notin> set (tm_unuse m)"
proof -
  show "sched_ok {#t#} (put_thread t (th\<lparr>th_u := u\<rparr>) m) xs"
    using th by (intro sched_put_loose [OF ok, where f = f]) (simp_all add: new_thread_def)
  show "thread_has (put_thread t (th\<lparr>th_u := u\<rparr>) m) ty u t" "ref_back (put_thread t (th\<lparr>th_u := u\<rparr>) m) t"
    using th(2) by (simp_all add: thread_has_put ref_back_def new_thread_def)
  have "t \<notin># placed m xs" using loose_not_placed(1) [of "{#t#}" m xs t] ok by (simp add: sched_ok_def)
  then show "t \<notin> set (tm_unuse m)" by (simp add: not_placed_iff)
qed

lemma thread_has_is: "thread_has m ty u t \<Longrightarrow> thread_is m ty t"
  by (auto simp: thread_has_def thread_is_def)

lemma add_event_spec:
  assumes ok: "sched_ok {#} m xs" and free: "\<not> is_scheduled m t_ptr"
  obtains m' t th where "funcname_thread_add_event m f arg val t_ptr = Some (m', Some t)" "sched_ok {#} m' xs"
    "tm_event m' = tm_event m @ [t]" "tm_ready m' = tm_ready m" "tm_timer m' = tm_timer m" "tm_read m' = tm_read m"
    "tm_write m' = tm_write m" "tm_mem m' t = Some th" "th_func th = Some f" "th_arg th = arg" "th_u th = U_val val"
    "\<And>r. t_ptr = Some r \<Longrightarrow> tm_refs m' r = Some t"
proof -
  obtain m1 t th where g: "thread_get m THREAD_EVENT f arg = Some (m1, t)" "sched_ok {#t#} m1 xs" "tm_mem m1 t = Some th"
    "new_thread THREAD_EVENT f arg th" "tm_hist m1 f \<noteq> None" "same_queues m m1" "tm_refs m1 = tm_refs m"
    using thread_get_spec [OF ok] by metis
  define u where "u = th\<lparr>th_u := U_val val\<rparr>"
  note n = new_loose(1-3) [OF g(2-5), of "U_val val", folded u_def] new_loose(4) [OF g(2-5)]
  define mp where "mp = (put_thread t u m1)\<lparr>tm_event := tm_event m1 @ [t]\<rparr>"
  have p: "sched_ok {#} mp xs" using place_event [OF n(1) thread_has_is [OF n(2)] n(3)] by (simp add: mp_def)
  have f: "\<not> is_scheduled mp t_ptr" using free g(7) by (simp add: is_scheduled_def mp_def split: option.splits)
  have u: "tm_mem mp t = Some u" "t \<notin> set (tm_unuse mp)" "th_ref u = None" "th_func u = Some f" "th_arg u = arg" "th_u u = U_val val"
    using g(4) n(4) by (simp_all add: mp_def u_def new_thread_def)
  obtain m' where m': "set_ref t_ptr t mp = Some m'" "sched_ok {#} m' xs" "same_queues mp m'"
    "tm_mem m' = (tm_mem mp)(t \<mapsto> u\<lparr>th_ref := t_ptr\<rparr>)"
    "tm_refs m' = (case t_ptr of None \<Rightarrow> tm_refs mp | Some r \<Rightarrow> (tm_refs mp)(r \<mapsto> t))"
    by (rule set_ref_spec [OF p u(1-3) f])
  have "funcname_thread_add_event m f arg val t_ptr = Some (m', Some t)"
    using free g(1,3) m'(1) by (simp add: funcname_thread_add_event_def Let_def mp_def u_def)
  then show thesis
    by (rule that [of m' t "u\<lparr>th_ref := t_ptr\<rparr>"]) (use m'(2-5) u g(6) in \<open>simp_all add: same_queues_def mp_def\<close>)
qed

lemma add_timer_spec:
  assumes ok: "sched_ok {#} m xs" and free: "\<not> is_scheduled m t_ptr"
    and room: "2 * pq_array_size (tm_timer m) \<le> INT_MAX"
  obtains m' t th ys where "funcname_thread_add_timer_timeval now m f arg rel t_ptr = Some (m', Some t)" "sched_ok {#} m' ys"
    "mset ys = add_mset (t, timeradd now rel) (mset xs)" "tm_event m' = tm_event m" "tm_ready m' = tm_ready m"
    "tm_read m' = tm_read m" "tm_write m' = tm_write m" "tm_mem m' t = Some th" "th_func th = Some f" "th_arg th = arg"
    "\<And>r. t_ptr = Some r \<Longrightarrow> tm_refs m' r = Some t"
proof -
  obtain m1 t th where g: "thread_get m THREAD_TIMER f arg = Some (m1, t)" "sched_ok {#t#} m1 xs" "tm_mem m1 t = Some th"
    "new_thread THREAD_TIMER f arg th" "tm_hist m1 f \<noteq> None" "same_queues m m1" "tm_refs m1 = tm_refs m"
    using thread_get_spec [OF ok] by metis
  define sands where "sands = timeradd now rel"
  define u where "u = th\<lparr>th_u := U_sands sands\<rparr>"
  note n = new_loose(1-3) [OF g(2-5), of "U_sands sands", folded u_def] new_loose(4) [OF g(2-5)]
  have "2 * pq_array_size (tm_timer (put_thread t u m1)) \<le> INT_MAX" using room g(6) by (simp add: same_queues_def)
  then obtain q ix ys where q: "pqueue_enqueue (t, sands) (tm_timer (put_thread t u m1), tm_index (put_thread t u m1)) = Some (q, ix)"
    "sched_ok {#} ((put_thread t u m1)\<lparr>tm_timer := q, tm_index := ix\<rparr>) ys" "mset ys = add_mset (t, sands) (mset xs)"
    by (rule place_timer [OF n(1-3)])
  define mp where "mp = (put_thread t u m1)\<lparr>tm_timer := q, tm_index := ix\<rparr>"
  have f: "\<not> is_scheduled mp t_ptr" using free g(7) by (simp add: is_scheduled_def mp_def split: option.splits)
  have u: "tm_mem mp t = Some u" "t \<notin> set (tm_unuse mp)" "th_ref u = None" "th_func u = Some f" "th_arg u = arg"
    using g(4) n(4) by (simp_all add: mp_def u_def new_thread_def)
  obtain m' where m': "set_ref t_ptr t mp = Some m'" "sched_ok {#} m' ys" "same_queues mp m'"
    "tm_mem m' = (tm_mem mp)(t \<mapsto> u\<lparr>th_ref := t_ptr\<rparr>)"
    "tm_refs m' = (case t_ptr of None \<Rightarrow> tm_refs mp | Some r \<Rightarrow> (tm_refs mp)(r \<mapsto> t))"
    by (rule set_ref_spec [OF q(2) [folded mp_def] u(1-3) f])
  have "funcname_thread_add_timer_timeval now m f arg rel t_ptr = Some (m', Some t)"
    using free g(1,3) m'(1) q(1)
    by (simp add: funcname_thread_add_timer_timeval_def Let_def mp_def u_def sands_def)
  then show thesis
    by (rule that [of m' t ys "u\<lparr>th_ref := t_ptr\<rparr>"])
       (use m'(2-5) u g(6) q(3) in \<open>simp_all add: same_queues_def mp_def sands_def\<close>)
qed

lemma sched_pfds:
  assumes "sched_ok L m xs" "length pfds = tm_pfdsize m" "n \<le> tm_pfdsize m"
  shows "sched_ok L (m\<lparr>tm_pfds := pfds, tm_pfdcount := n\<rparr>) xs"
  using assms
  by (simp add: sched_ok_def counts_ok_def placed_def homes_ok_def thread_is_def thread_has_def hists_ok_def
      refs_ok_def shape_ok_def timers_ok_def)

lemma sched_copy:
  assumes "sched_ok L m xs" "length cp = tm_pfdsize m" "n \<le> tm_pfdsize m"
  shows "sched_ok L (m\<lparr>tm_copy := cp, tm_copycount := n\<rparr>) xs"
  using assms
  by (simp add: sched_ok_def counts_ok_def placed_def homes_ok_def thread_is_def thread_has_def hists_ok_def
      refs_ok_def shape_ok_def timers_ok_def)

text \<open>The slot for a descriptor in the poll array.\<close>

definition pfd_slot :: "('f, 'a) master \<Rightarrow> int \<Rightarrow> nat" where
  "pfd_slot m fd = (case find_pfd (tm_pfds m) (tm_pfdcount m) fd of None \<Rightarrow> tm_pfdcount m | Some i \<Rightarrow> i)"

lemma find_pfd_Some: "find_pfd pfds n fd = Some i \<Longrightarrow> i < n \<and> i < length pfds \<and> pfd_fd (pfds ! i) = fd"
  by (auto simp: find_pfd_def find_Some_iff)

lemma pfd_slot_le: "pfd_slot m fd \<le> tm_pfdcount m"
  using find_pfd_Some [of "tm_pfds m" "tm_pfdcount m" fd] by (auto simp: pfd_slot_def split: option.splits)

lemma add_rw_spec:
  assumes ok: "sched_ok {#} m xs" and free: "\<not> is_scheduled m t_ptr"
    and fd: "fd < tm_fd_limit m" and slot: "pfd_slot m (int fd) + 1 < tm_pfdsize m"
    and dir: "dir = THREAD_READ \<and> tm_read m ! fd = None \<or> dir = THREAD_WRITE \<and> tm_write m ! fd = None"
  obtains m' t th where "funcname_thread_add_read_write dir m f arg (int fd) t_ptr = Some (m', Some t)" "sched_ok {#} m' xs"
    "tm_event m' = tm_event m" "tm_ready m' = tm_ready m" "tm_timer m' = tm_timer m"
    "tm_read m' = (if dir = THREAD_READ then (tm_read m)[fd := Some t] else tm_read m)"
    "tm_write m' = (if dir = THREAD_READ then tm_write m else (tm_write m)[fd := Some t])"
    "map pfd_fd (tm_pfds m') = (map pfd_fd (tm_pfds m))[pfd_slot m (int fd) := int fd]" "tm_fd_limit m' = tm_fd_limit m"
    "tm_copy m' = tm_copy m" "tm_copycount m' = tm_copycount m" "tm_pfdsize m' = tm_pfdsize m"
    "tm_pfdcount m' = (if pfd_slot m (int fd) = tm_pfdcount m then tm_pfdcount m + 1 else tm_pfdcount m)"
    "pfd_events (tm_pfds m' ! pfd_slot m (int fd))
       = pfd_events (tm_pfds m ! pfd_slot m (int fd)) OR (if dir = THREAD_READ then POLLIN else POLLOUT)"
    "tm_mem m' t = Some th" "th_func th = Some f" "th_arg th = arg"
    "\<And>r. t_ptr = Some r \<Longrightarrow> tm_refs m' r = Some t"
proof -
  obtain m1 t th where g: "thread_get m dir f arg = Some (m1, t)" "sched_ok {#t#} m1 xs" "tm_mem m1 t = Some th"
    "new_thread dir f arg th" "tm_hist m1 f \<noteq> None" "same_queues m m1" "tm_refs m1 = tm_refs m"
    using thread_get_spec [OF ok] by metis
  have sq: "tm_event m1 = tm_event m" "tm_ready m1 = tm_ready m" "tm_timer m1 = tm_timer m" "tm_read m1 = tm_read m"
    "tm_write m1 = tm_write m" "tm_pfds m1 = tm_pfds m" "tm_pfdcount m1 = tm_pfdcount m" "tm_pfdsize m1 = tm_pfdsize m"
    "tm_fd_limit m1 = tm_fd_limit m" "tm_copy m1 = tm_copy m" "tm_copycount m1 = tm_copycount m"
    using g(6) by (simp_all add: same_queues_def)
  have shape: "length (tm_read m) = tm_fd_limit m" "length (tm_write m) = tm_fd_limit m" "length (tm_pfds m) = tm_pfdsize m"
    "tm_pfdcount m \<le> tm_pfdsize m"
    using ok by (auto simp: sched_ok_def shape_ok_def)
  let ?k = "pfd_slot m (int fd)"
  define e where "e = (tm_pfds m ! ?k)\<lparr>pfd_fd := int fd,
    pfd_events := pfd_events (tm_pfds m ! ?k) OR (if dir = THREAD_READ then POLLIN else POLLOUT)\<rparr>"
  define n where "n = (if ?k = tm_pfdcount m then tm_pfdcount m + 1 else tm_pfdcount m)"
  define m2 where "m2 = m1\<lparr>tm_pfds := (tm_pfds m)[?k := e], tm_pfdcount := n\<rparr>"
  have n: "n \<le> tm_pfdsize m" "?k < n" using slot shape pfd_slot_le [of m "int fd"] by (auto simp: n_def)
  have ok2: "sched_ok {#t#} m2 xs" unfolding m2_def using n shape sq by (intro sched_pfds [OF g(2)]) simp_all
  have m2: "tm_mem m2 t = Some th" "tm_hist m2 f \<noteq> None" using g by (simp_all add: m2_def)
  define u where "u = th\<lparr>th_u := U_fd (int fd)\<rparr>"
  note l = new_loose(1-3) [OF ok2 m2(1) g(4) m2(2), of "U_fd (int fd)", folded u_def] new_loose(4) [OF ok2 m2(1) g(4) m2(2)]
  define mp where "mp = (if dir = THREAD_READ then (put_thread t u m2)\<lparr>tm_read := (tm_read m)[fd := Some t]\<rparr>
                         else (put_thread t u m2)\<lparr>tm_write := (tm_write m)[fd := Some t]\<rparr>)"
  have p: "sched_ok {#} mp xs"
    using dir place_read [OF l(1) _ l(3), of fd] place_write [OF l(1) _ l(3), of fd] l(2) fd sq
    by (auto simp: mp_def m2_def)
  have f: "\<not> is_scheduled mp t_ptr" using free g(7) by (simp add: is_scheduled_def mp_def m2_def split: option.splits)
  have u: "tm_mem mp t = Some u" "t \<notin> set (tm_unuse mp)" "th_ref u = None" "th_func u = Some f" "th_arg u = arg"
    using g(4) l(4) by (simp_all add: mp_def u_def new_thread_def)
  obtain m' where m': "set_ref t_ptr t mp = Some m'" "sched_ok {#} m' xs" "same_queues mp m'"
    "tm_mem m' = (tm_mem mp)(t \<mapsto> u\<lparr>th_ref := t_ptr\<rparr>)"
    "tm_refs m' = (case t_ptr of None \<Rightarrow> tm_refs mp | Some r \<Rightarrow> (tm_refs mp)(r \<mapsto> t))"
    by (rule set_ref_spec [OF p u(1-3) f])
  have "funcname_thread_add_read_write dir m f arg (int fd) t_ptr = Some (m', Some t)"
    using free g(1,3) m'(1) fd slot shape sq
    by (cases "dir = THREAD_READ")
       (simp_all add: funcname_thread_add_read_write_def Let_def mp_def m2_def u_def n_def e_def rd_Some wr_Some
        pfd_slot_def [symmetric] split del: if_split cong: if_cong)
  then show thesis
    by (rule that [of m' t "u\<lparr>th_ref := t_ptr\<rparr>"])
       (use m'(2-5) u sq n slot shape in \<open>simp_all add: same_queues_def mp_def m2_def e_def n_def map_update split: if_splits\<close>)
qed

section \<open>Posting to the ready list\<close>

lemma ref_back_placed: "sched_ok {#} m xs \<Longrightarrow> tm_mem m' = tm_mem m \<Longrightarrow> tm_refs m' = tm_refs m \<Longrightarrow> ref_back m' t"
  by (simp add: sched_ok_def refs_ok_def ref_back_def)

lemma process_event_loop:
  "sched_ok {#} m xs \<Longrightarrow> tm_event m = ts \<Longrightarrow>
   \<exists>m'. fold_opt make_ready ts (m\<lparr>tm_event := []\<rparr>) = Some m' \<and> sched_ok {#} m' xs \<and> tm_event m' = []
     \<and> tm_ready m' = tm_ready m @ ts \<and> tm_timer m' = tm_timer m \<and> tm_read m' = tm_read m \<and> tm_write m' = tm_write m"
proof (induction ts arbitrary: m)
  case Nil
  then have e: "m\<lparr>tm_event := []\<rparr> = m" by simp
  show ?case unfolding e using Nil.prems by simp
next
  case (Cons t ts)
  have ok: "sched_ok {#t#} (m\<lparr>tm_event := ts\<rparr>) xs"
    using unplace_event [OF Cons.prems(1), of t] Cons.prems(2) by (simp add: event_del_def)
  obtain th where th: "tm_mem m t = Some th"
    using Cons.prems by (auto simp: sched_ok_def homes_ok_def thread_is_def)
  define m1 where "m1 = put_thread t (th\<lparr>th_type := THREAD_READY\<rparr>) (m\<lparr>tm_event := ts, tm_ready := tm_ready m @ [t]\<rparr>)"
  have ok1: "sched_ok {#} m1 xs"
    using make_ready_spec(2) [OF ok, of th] th ref_back_placed [OF Cons.prems(1)] by (simp add: m1_def)
  have "make_ready t (m\<lparr>tm_event := []\<rparr>) = Some (m1\<lparr>tm_event := []\<rparr>)"
    using th by (simp add: make_ready_def m1_def put_thread_def)
  moreover have "tm_event m1 = ts" "tm_ready m1 = tm_ready m @ [t]" "tm_timer m1 = tm_timer m"
    "tm_read m1 = tm_read m" "tm_write m1 = tm_write m"
    by (simp_all add: m1_def)
  ultimately show ?case using Cons.IH [OF ok1] by auto
qed

lemma timer_index:
  assumes "timers_ok m xs" "i < length xs"
  shows "tm_index m (xs ! i) = int i" "pq_node (pq_array (tm_timer m)) i = Some (xs ! i)"
proof -
  have inv: "pq_inv thread_timer_cmp (Some timer_pos) (tm_timer m, tm_index m) xs" using assms by (simp add: timers_ok_def)
  have "timer_pos (tm_index m) (xs ! i) = i" using inv assms by (auto simp: pq_inv_def pos_inv_def tracks_def)
  moreover have "i < INT_MAX" using inv assms by (auto simp: pq_inv_def)
  ultimately show "tm_index m (xs ! i) = int i" by (auto simp: timer_pos_def split: if_splits)
  show "pq_node (pq_array (tm_timer m)) i = Some (xs ! i)" using pq_inv_rd [OF inv assms(2)] by (simp add: pq_node_def)
qed

lemma first_timer_least:
  assumes "timers_ok m xs" "n \<in> set xs"
  shows "\<not> timer_less (snd n) (snd (xs ! 0))"
proof -
  have "heap_ok thread_timer_cmp xs" using assms by (simp add: timers_ok_def pq_inv_def)
  then have "thread_timer_cmp (xs ! 0) n \<le> 0"
    using heap_root_le [OF timers.comparator_axioms] assms(2) by (auto simp: in_set_conv_nth)
  then show ?thesis by (simp add: thread_timer_cmp_le)
qed

lemma timers_size: "timers_ok m xs \<Longrightarrow> pq_size (tm_timer m) = length xs"
  by (simp add: timers_ok_def pq_inv_def)

text \<open>What \<open>thread_process_timers\<close> has done: \<open>ps\<close> are the expired timers, in the order they were posted.\<close>

definition timers_posted ::
  "timeval \<Rightarrow> ('f, 'a) master \<Rightarrow> tnode list \<Rightarrow> ('f, 'a) master \<Rightarrow> tnode list \<Rightarrow> tnode list \<Rightarrow> bool" where
  "timers_posted now m xs m' ys ps \<longleftrightarrow>
     mset xs = mset ys + mset ps \<and> tm_ready m' = tm_ready m @ map fst ps \<and> sorted_wrt (\<lambda>p q. \<not> timer_less (snd q) (snd p)) ps
     \<and> (\<forall>p \<in> set ps. \<not> timer_less now (snd p)) \<and> (\<forall>y \<in> set ys. timer_less now (snd y))
     \<and> tm_event m' = tm_event m \<and> tm_read m' = tm_read m \<and> tm_write m' = tm_write m"

lemma process_timers_loop_spec:
  "sched_ok {#} m xs \<Longrightarrow> length xs = n \<Longrightarrow>
   \<exists>m' ys ps. process_timers_loop n now m = Some m' \<and> sched_ok {#} m' ys \<and> timers_posted now m xs m' ys ps"
proof (induction n arbitrary: m xs)
  case 0
  then show ?case
    using timers_size [of m xs] by (intro exI [of _ m] exI [of _ xs] exI [of _ "[]"]) (simp add: sched_ok_def timers_posted_def)
next
  case (Suc n)
  have tok: "timers_ok m xs" using Suc.prems by (simp add: sched_ok_def)
  obtain t tv where x0: "xs ! 0 = (t, tv)" by (cases "xs ! 0")
  have in0: "(t, tv) \<in> set xs" using x0 Suc.prems(2) nth_mem [of 0 xs] by simp
  have node: "pq_node (pq_array (tm_timer m)) 0 = Some (t, tv)" "tm_index m (t, tv) = 0"
    using timer_index [OF tok, of 0] Suc.prems(2) x0 by simp_all
  have sz: "pq_size (tm_timer m) \<noteq> 0" using timers_size [OF tok] Suc.prems(2) by simp
  show ?case
  proof (cases "timer_less now tv")
    case True
    have "timer_less now (snd y)" if "y \<in> set xs" for y
      using first_timer_least [OF tok that] True x0 timer_not_less_trans [of "snd y" now tv] timer_less_asym
      by (metis snd_conv timer_not_less_trans)
    then show ?thesis
      using True sz node Suc.prems
      by (intro exI [of _ m] exI [of _ xs] exI [of _ "[]"]) (simp add: timers_posted_def)
  next
    case False
    obtain q ix ys where q: "pqueue_remove_at 0 (tm_timer m, tm_index m) = Some (q, ix)"
      "sched_ok {#t#} (m\<lparr>tm_timer := q, tm_index := ix\<rparr>) ys" "mset ys = mset xs - {#(t, tv)#}"
      by (rule unplace_timer [OF Suc.prems(1) in0]) (simp add: node)
    let ?b = "m\<lparr>tm_timer := q, tm_index := ix\<rparr>"
    obtain th where th: "tm_mem m t = Some th"
      using Suc.prems in0 by (force simp: sched_ok_def homes_ok_def thread_has_def)
    define m1 where "m1 = put_thread t (th\<lparr>th_type := THREAD_READY\<rparr>) (?b\<lparr>tm_ready := tm_ready m @ [t]\<rparr>)"
    have r: "make_ready t ?b = Some m1" "sched_ok {#} m1 ys"
      using make_ready_spec [OF q(2), of th] th ref_back_placed [OF Suc.prems(1), of ?b t] by (simp_all add: m1_def)
    have xs: "mset xs = add_mset (t, tv) (mset ys)" using q(3) in0 by simp
    have "length ys = n" using arg_cong [OF xs, of size] Suc.prems(2) by simp
    from Suc.IH [OF r(2) this] obtain m' zs ps where
      ih: "process_timers_loop n now m1 = Some m'" "sched_ok {#} m' zs" "timers_posted now m1 ys m' zs ps" by blast
    have "process_timers_loop (Suc n) now m = Some m'"
      using sz node False q(1) r(1) ih(1) by (simp add: pqueue_dequeue_eq)
    moreover have "timers_posted now m xs m' zs ((t, tv) # ps)"
    proof -
      have "\<not> timer_less (snd p) tv" if "p \<in> set ps" for p
      proof -
        have "p \<in> set xs" using ih(3) xs that by (metis UnCI insertCI set_mset_add_mset_insert set_mset_mset set_mset_union timers_posted_def)
        then show ?thesis using first_timer_least [OF tok] x0 by simp
      qed
      then show ?thesis using ih(3) xs False by (auto simp: timers_posted_def m1_def)
    qed
    ultimately show ?thesis using ih(2) by blast
  qed
qed

end
