(* ===== verification/Event_Loop.thy ===== *)
theory Event_Loop
  imports Thread_Laws
begin

text \<open>
  Cancellation and the rounds of the event loop: that they keep the scheduler's invariant, what they
  do to the queues, and the states the loop can reach.
\<close>

section \<open>Cancellation\<close>

definition drop_ref :: "('f, 'a) thread \<Rightarrow> (nat \<Rightarrow> nat ptr) \<Rightarrow> nat \<Rightarrow> nat ptr" where
  "drop_ref th refs = (case th_ref th of None \<Rightarrow> refs | Some r \<Rightarrow> refs(r := None))"

lemma clear_ref_simps [simp]:
  "tm_mem (clear_ref th m) = tm_mem m" "tm_event (clear_ref th m) = tm_event m" "tm_ready (clear_ref th m) = tm_ready m"
  "tm_unuse (clear_ref th m) = tm_unuse m" "tm_timer (clear_ref th m) = tm_timer m" "tm_index (clear_ref th m) = tm_index m"
  "tm_read (clear_ref th m) = tm_read m" "tm_write (clear_ref th m) = tm_write m" "tm_hist (clear_ref th m) = tm_hist m"
  "tm_alloc (clear_ref th m) = tm_alloc m" "tm_pfds (clear_ref th m) = tm_pfds m" "tm_pfdcount (clear_ref th m) = tm_pfdcount m"
  "tm_pfdsize (clear_ref th m) = tm_pfdsize m" "tm_fd_limit (clear_ref th m) = tm_fd_limit m" "tm_fresh (clear_ref th m) = tm_fresh m"
  "tm_copy (clear_ref th m) = tm_copy m" "tm_copycount (clear_ref th m) = tm_copycount m"
  "tm_cancel_req (clear_ref th m) = tm_cancel_req m"
  "tm_refs (clear_ref th m) = drop_ref th (tm_refs m)"
  by (simp_all add: clear_ref_def drop_ref_def split: option.splits)

lemma clear_ref_ok:
  assumes ok: "sched_ok L m xs"
    and other: "\<And>u uh r. tm_mem m u = Some uh \<Longrightarrow> u \<notin># L \<Longrightarrow> th_ref uh = Some r \<Longrightarrow> th_ref th \<noteq> Some r"
  shows "sched_ok L (clear_ref th m) xs"
proof -
  note parts = ok [unfolded sched_ok_def]
  have "refs_ok L (clear_ref th m)"
    unfolding refs_ok_def
  proof (intro allI impI)
    fix u uh r assume "tm_mem (clear_ref th m) u = Some uh" "u \<notin># L" "th_ref uh = Some r"
    then have a: "tm_mem m u = Some uh" "u \<notin># L" "th_ref uh = Some r" by simp_all
    from other [OF this] show "tm_refs (clear_ref th m) r = Some u"
      using a parts by (auto simp: refs_ok_def drop_ref_def split: option.splits)
  qed
  then show ?thesis
    using parts by (simp add: sched_ok_def counts_ok_def placed_def homes_ok_def thread_is_def thread_has_def hists_ok_def
        shape_ok_def timers_ok_def)
qed

text \<open>Releasing a thread that has been taken out of its queue.\<close>

definition released :: "nat \<Rightarrow> ('f, 'a) thread \<Rightarrow> ('f, 'a) master \<Rightarrow> ('f, 'a) master \<Rightarrow> bool" where
  "released t th m m' \<longleftrightarrow> (\<forall>u. u \<noteq> t \<longrightarrow> tm_mem m' u = tm_mem m u) \<and> tm_mem m' t \<in> {None, Some unused_thread}
     \<and> tm_refs m' = drop_ref th (tm_refs m)"

lemma other_refs:
  assumes "sched_ok {#t#} m xs" "tm_mem m t = Some th" "ref_back m t"
  shows "tm_mem m u = Some uh \<Longrightarrow> u \<notin># {#t#} \<Longrightarrow> th_ref uh = Some r \<Longrightarrow> th_ref th \<noteq> Some r"
  using assms by (auto simp: sched_ok_def refs_ok_def ref_back_def)

lemma release_spec:
  fixes m :: "('f, 'a) master"
  assumes ok: "sched_ok {#t#} m xs" and th: "tm_mem m t = Some th" and rb: "ref_back m t"
  obtains m' where "thread_add_unuse (clear_ref th m) t = Some m'" "sched_ok {#} m' xs" "same_queues m m'" "released t th m m'"
proof -
  have "sched_ok {#t#} (clear_ref th m) xs" using other_refs [OF ok th rb] by (intro clear_ref_ok [OF ok])
  then obtain m' where "thread_add_unuse (clear_ref th m) t = Some m'" "sched_ok {#} m' xs" "same_queues (clear_ref th m) m'"
    "tm_refs m' = tm_refs (clear_ref th m)" "\<And>u. u \<noteq> t \<Longrightarrow> tm_mem m' u = tm_mem (clear_ref th m) u"
    "tm_mem m' t \<in> {None, Some unused_thread}"
    using thread_add_unuse_spec by metis
  then show thesis by (intro that [of m']) (simp_all add: same_queues_def released_def)
qed

text \<open>Clearing poll events changes nothing but the poll arrays.\<close>

definition same_but_polls :: "('f, 'a) master \<Rightarrow> ('f, 'a) master \<Rightarrow> bool" where
  "same_but_polls m m' \<longleftrightarrow> (\<exists>pfds n cp k. m' = m\<lparr>tm_pfds := pfds, tm_pfdcount := n, tm_copy := cp, tm_copycount := k\<rparr>)"

lemma same_but_polls_fields:
  "same_but_polls m m' \<Longrightarrow> tm_mem m' = tm_mem m \<and> tm_refs m' = tm_refs m \<and> tm_event m' = tm_event m \<and> tm_ready m' = tm_ready m
     \<and> tm_read m' = tm_read m \<and> tm_write m' = tm_write m \<and> tm_timer m' = tm_timer m \<and> tm_index m' = tm_index m
     \<and> tm_fd_limit m' = tm_fd_limit m \<and> tm_cancel_req m' = tm_cancel_req m \<and> tm_unuse m' = tm_unuse m"
  by (auto simp: same_but_polls_def)

lemma pfd_remove_length: "pfd_remove pfds n i = Some qs \<Longrightarrow> length qs = length pfds"
  by (auto simp: pfd_remove_def c_assert_def bind_Some_iff split: if_splits)

lemma clear_events_spec:
  assumes "i < n" "n \<le> length pfds"
  obtains qs k where "clear_events pfds n i st = Some (qs, k)" "length qs = length pfds" "k \<le> n"
proof -
  let ?p = "(pfds ! i)\<lparr>pfd_events := pfd_events (pfds ! i) AND NOT st\<rparr>"
  have l: "i < length pfds" using assms by simp
  obtain rs where rs: "pfd_remove (pfds[i := ?p]) n i = Some rs" using assms by (simp add: pfd_remove_def)
  have "length rs = length pfds" using pfd_remove_length [OF rs] by simp
  then show thesis
    using that l rs by (cases "pfd_events ?p = 0") (auto simp: clear_events_def rd_Some wr_Some Let_def)
qed

lemma cancel_rw_spec:
  assumes ok: "sched_ok L m xs"
  obtains m' where "thread_cancel_rw m fd st = Some m'" "sched_ok L m' xs" "same_but_polls m m'"
proof (cases "find_pfd (tm_pfds m) (tm_pfdcount m) fd")
  case None
  have "same_but_polls m m"
    unfolding same_but_polls_def
    by (intro exI [of _ "tm_pfds m"] exI [of _ "tm_pfdcount m"] exI [of _ "tm_copy m"] exI [of _ "tm_copycount m"]) simp
  with None ok show thesis by (intro that [of m]) (simp_all add: thread_cancel_rw_def)
next
  case (Some i)
  have sh: "length (tm_pfds m) = tm_pfdsize m" "length (tm_copy m) = tm_pfdsize m" "tm_pfdcount m \<le> tm_pfdsize m"
    "tm_copycount m \<le> tm_pfdsize m"
    using ok by (auto simp: sched_ok_def shape_ok_def)
  have "i < tm_pfdcount m" using find_pfd_Some [OF Some] by simp
  then obtain qs k where q: "clear_events (tm_pfds m) (tm_pfdcount m) i (st OR POLLHUP) = Some (qs, k)"
    "length qs = length (tm_pfds m)" "k \<le> tm_pfdcount m"
    using clear_events_spec sh by metis
  let ?m = "m\<lparr>tm_pfds := qs, tm_pfdcount := k\<rparr>"
  have ok1: "sched_ok L ?m xs" using q sh by (intro sched_pfds [OF ok]) simp_all
  show thesis
  proof (cases "i \<ge> tm_copycount m")
    case True
    have "same_but_polls m ?m"
      unfolding same_but_polls_def
      by (intro exI [of _ qs] exI [of _ k] exI [of _ "tm_copy m"] exI [of _ "tm_copycount m"]) simp
    then show thesis using True Some q ok1 by (intro that [of ?m]) (simp_all add: thread_cancel_rw_def Let_def)
  next
    case False
    then obtain cs c where c: "clear_events (tm_copy m) (tm_copycount m) i (st OR POLLHUP) = Some (cs, c)"
      "length cs = length (tm_copy m)" "c \<le> tm_copycount m"
      using clear_events_spec [of i "tm_copycount m" "tm_copy m"] sh by auto
    let ?n = "?m\<lparr>tm_copy := cs, tm_copycount := c\<rparr>"
    have "sched_ok L ?n xs" using c sh by (intro sched_copy [OF ok1]) simp_all
    moreover have "same_but_polls m ?n" unfolding same_but_polls_def by blast
    moreover have "thread_cancel_rw m fd st = Some ?n"
      using False Some q c by (simp add: thread_cancel_rw_def Let_def)
    ultimately show thesis using that by blast
  qed
qed

definition clear_slot :: "nat \<Rightarrow> nat ptr list \<Rightarrow> nat ptr list" where
  "clear_slot t a = map (\<lambda>p. if p = Some t then None else p) a"

lemma clear_slot_id: "\<forall>i < length a. a ! i \<noteq> Some t \<Longrightarrow> clear_slot t a = a"
  unfolding clear_slot_def by (intro map_idI) (auto simp: in_set_conv_nth)

lemma clear_slot_update:
  assumes "i < length a" "a ! i = Some t" "\<forall>j < length a. a[i := None] ! j \<noteq> Some t"
  shows "clear_slot t a = a[i := None]"
proof (rule nth_equalityI)
  fix j assume "j < length (clear_slot t a)"
  then have j: "j < length a" by (simp add: clear_slot_def)
  then show "clear_slot t a ! j = a[i := None] ! j"
    using assms by (cases "j = i") (auto simp: clear_slot_def)
qed (simp add: clear_slot_def)

text \<open>The queues of \<open>m'\<close> are those of \<open>m\<close> without \<open>t\<close>.\<close>

definition taken_out :: "nat \<Rightarrow> ('f, 'a) master \<Rightarrow> tnode list \<Rightarrow> ('f, 'a) master \<Rightarrow> tnode list \<Rightarrow> bool" where
  "taken_out t m xs m' ys \<longleftrightarrow> tm_event m' = remove1 t (tm_event m) \<and> tm_ready m' = remove1 t (tm_ready m)
     \<and> mset ys = filter_mset (\<lambda>n. fst n \<noteq> t) (mset xs)
     \<and> tm_read m' = clear_slot t (tm_read m) \<and> tm_write m' = clear_slot t (tm_write m)"

lemma filter_timers_id: "t \<notin> fst ` set xs \<Longrightarrow> filter_mset (\<lambda>n. fst n \<noteq> t) (mset xs) = mset xs"
  by (auto simp: filter_mset_eq_conv)

text \<open>The variables of \<open>do_thread_cancel\<close> before its first request.\<close>

abbreviation fresh_vars :: cancel_vars where
  "fresh_vars \<equiv> \<lparr>cv_list = None, cv_queue = False, cv_array = None\<rparr>"

lemma scheduled_cases:
  assumes "sched_ok {#} m xs" "tm_mem m t = Some th" "t \<notin> set (tm_unuse m)"
  obtains (Event) "t \<in> set (tm_event m)" "th_type th = THREAD_EVENT"
    | (Ready) "t \<in> set (tm_ready m)" "th_type th = THREAD_READY"
    | (Timer) tv where "(t, tv) \<in> set xs" "th_type th = THREAD_TIMER" "th_u th = U_sands tv"
    | (Read) i where "i < length (tm_read m)" "tm_read m ! i = Some t" "th_type th = THREAD_READ" "th_u th = U_fd (int i)"
    | (Write) i where "i < length (tm_write m)" "tm_write m ! i = Some t" "th_type th = THREAD_WRITE" "th_u th = U_fd (int i)"
proof -
  note parts = assms(1) [unfolded sched_ok_def]
  have "count (placed m xs) t = 1" using parts assms(2) by (simp add: counts_ok_def)
  then have "t \<in># placed m xs" by (simp flip: count_greater_zero_iff)
  then consider "t \<in> set (tm_event m)" | "t \<in> set (tm_ready m)" | "t \<in> fst ` set xs"
    | i where "i < length (tm_read m)" "tm_read m ! i = Some t" | i where "i < length (tm_write m)" "tm_write m ! i = Some t"
    using assms(3) not_placed_iff [of t m xs] by blast
  then show thesis
  proof cases
    case 1
    then show thesis using parts assms(2) by (intro Event) (auto simp: homes_ok_def thread_is_def)
  next
    case 2
    then show thesis using parts assms(2) by (intro Ready) (auto simp: homes_ok_def thread_is_def)
  next
    case 3
    then obtain tv where "(t, tv) \<in> set xs" by force
    then show thesis using parts assms(2) by (intro Timer [of tv]) (auto simp: homes_ok_def thread_has_def)
  next
    case (4 i)
    then show thesis using parts assms(2) by (intro Read [of i]) (auto simp: homes_ok_def thread_has_def)
  next
    case (5 i)
    then show thesis using parts assms(2) by (intro Write [of i]) (auto simp: homes_ok_def thread_has_def)
  qed
qed

lemma loose_none: "sched_ok {#t#} m xs \<Longrightarrow> t \<notin># placed m xs"
  using loose_not_placed(1) [of "{#t#}" m xs t] by (simp add: sched_ok_def)

text \<open>Taking a thread out of the queue it is in, for the first request.\<close>

lemma take_out_spec:
  assumes ok: "sched_ok {#} m xs" and th: "tm_mem m t = Some th" "t \<notin> set (tm_unuse m)"
  obtains v m1 m2 ys where "choose_queue th (fresh_vars, m) = Some (Some (v, m1))" "remove_from_queue t th v m1 = Some m2"
    "sched_ok {#t#} m2 ys" "tm_mem m2 = tm_mem m" "tm_refs m2 = tm_refs m" "taken_out t m xs m2 ys"
    "tm_cancel_req m2 = tm_cancel_req m" "th_type th = THREAD_TIMER \<longrightarrow> cv_queue v"
  using ok th
proof (cases rule: scheduled_cases)
  case Event
  note o = unplace_event [OF ok Event(1)]
  let ?v = "fresh_vars\<lparr>cv_list := Some Event_list\<rparr>"
  have "choose_queue th (fresh_vars, m) = Some (Some (?v, m))" using Event(2) by (simp add: choose_queue_def)
  moreover have "remove_from_queue t th ?v m = Some (event_del t m)" by (simp add: remove_from_queue_def)
  ultimately show thesis
    by (rule that [OF _ _ o])
       (use loose_none [OF o] Event(2) in \<open>simp_all add: taken_out_def event_del_def not_placed_iff remove1_idem clear_slot_id
          filter_timers_id\<close>)
next
  case Ready
  note o = unplace_ready [OF ok Ready(1)]
  let ?v = "fresh_vars\<lparr>cv_list := Some Ready_list\<rparr>"
  have "choose_queue th (fresh_vars, m) = Some (Some (?v, m))" using Ready(2) by (simp add: choose_queue_def)
  moreover have "remove_from_queue t th ?v m = Some (ready_del t m)" by (simp add: remove_from_queue_def)
  ultimately show thesis
    by (rule that [OF _ _ o])
       (use loose_none [OF o] Ready(2) in \<open>simp_all add: taken_out_def ready_del_def not_placed_iff remove1_idem clear_slot_id
          filter_timers_id\<close>)
next
  case (Timer tv)
  obtain q ix ys where q: "tm_index m (t, tv) \<ge> 0" "pq_node (pq_array (tm_timer m)) (nat (tm_index m (t, tv))) = Some (t, tv)"
    "pqueue_remove_at (nat (tm_index m (t, tv))) (tm_timer m, tm_index m) = Some (q, ix)"
    "sched_ok {#t#} (m\<lparr>tm_timer := q, tm_index := ix\<rparr>) ys" "mset ys = mset xs - {#(t, tv)#}"
    by (rule unplace_timer [OF ok Timer(1)])
  have n: "t \<notin># placed (m\<lparr>tm_timer := q, tm_index := ix\<rparr>) ys" by (rule loose_none [OF q(4)])
  have xs: "mset xs = add_mset (t, tv) (mset ys)" using q(5) Timer(1) by simp
  have f: "mset ys = filter_mset (\<lambda>n. fst n \<noteq> t) (mset xs)"
    unfolding xs using filter_timers_id [of t ys] n by (simp add: not_placed_iff)
  let ?v = "fresh_vars\<lparr>cv_queue := True\<rparr>"
  have "choose_queue th (fresh_vars, m) = Some (Some (?v, m))" using Timer(2) by (simp add: choose_queue_def)
  moreover have "remove_from_queue t th ?v m = Some (m\<lparr>tm_timer := q, tm_index := ix\<rparr>)"
    using Timer(3) q(1-3) by (simp add: remove_from_queue_def u_sands_def)
  ultimately show thesis
    by (rule that [OF _ _ q(4)])
       (use n f in \<open>simp_all add: taken_out_def not_placed_iff remove1_idem clear_slot_id\<close>)
next
  case (Read i)
  obtain m1 where m1: "thread_cancel_rw m (int i) POLLIN = Some m1" "sched_ok {#} m1 xs" "same_but_polls m m1"
    by (rule cancel_rw_spec [OF ok])
  note s = same_but_polls_fields [OF m1(3)]
  note o = unplace_read [OF m1(2), of i t]
  have o1: "sched_ok {#t#} (m1\<lparr>tm_read := (tm_read m)[i := None]\<rparr>) xs" using o Read s by simp
  let ?v = "fresh_vars\<lparr>cv_array := Some Read_array\<rparr>"
  have "choose_queue th (fresh_vars, m) = Some (Some (?v, m1))"
    using Read m1(1) by (simp add: choose_queue_def u_fd_def)
  moreover have "remove_from_queue t th ?v m1 = Some (m1\<lparr>tm_read := (tm_read m)[i := None]\<rparr>)"
    using Read s by (simp add: remove_from_queue_def u_fd_def wr_Some)
  ultimately show thesis
    by (rule that [OF _ _ o1])
       (use Read s loose_none [OF o1] in \<open>simp_all add: taken_out_def not_placed_iff remove1_idem clear_slot_id
          filter_timers_id clear_slot_update\<close>)
next
  case (Write i)
  obtain m1 where m1: "thread_cancel_rw m (int i) POLLOUT = Some m1" "sched_ok {#} m1 xs" "same_but_polls m m1"
    by (rule cancel_rw_spec [OF ok])
  note s = same_but_polls_fields [OF m1(3)]
  note o = unplace_write [OF m1(2), of i t]
  have o1: "sched_ok {#t#} (m1\<lparr>tm_write := (tm_write m)[i := None]\<rparr>) xs" using o Write s by simp
  let ?v = "fresh_vars\<lparr>cv_array := Some Write_array\<rparr>"
  have "choose_queue th (fresh_vars, m) = Some (Some (?v, m1))"
    using Write m1(1) by (simp add: choose_queue_def u_fd_def)
  moreover have "remove_from_queue t th ?v m1 = Some (m1\<lparr>tm_write := (tm_write m)[i := None]\<rparr>)"
    using Write s by (simp add: remove_from_queue_def u_fd_def wr_Some)
  ultimately show thesis
    by (rule that [OF _ _ o1])
       (use Write s loose_none [OF o1] in \<open>simp_all add: taken_out_def not_placed_iff remove1_idem clear_slot_id
          filter_timers_id clear_slot_update\<close>)
qed

lemma cancel_thread_spec:
  assumes ok: "sched_ok {#} m xs" and th: "tm_mem m t = Some th" "t \<notin> set (tm_unuse m)"
  obtains v m' ys where "cancel_thread (Some t) (fresh_vars, m) = Some (v, m')" "sched_ok {#} m' ys" "taken_out t m xs m' ys"
    "released t th m m'" "tm_cancel_req m' = tm_cancel_req m" "th_type th = THREAD_TIMER \<longrightarrow> cv_queue v"
proof -
  obtain v m1 m2 ys where o: "choose_queue th (fresh_vars, m) = Some (Some (v, m1))" "remove_from_queue t th v m1 = Some m2"
    "sched_ok {#t#} m2 ys" "tm_mem m2 = tm_mem m" "tm_refs m2 = tm_refs m" "taken_out t m xs m2 ys"
    "tm_cancel_req m2 = tm_cancel_req m" "th_type th = THREAD_TIMER \<longrightarrow> cv_queue v"
    by (rule take_out_spec [OF ok th])
  have "ref_back m2 t" using ref_back_placed [OF ok o(4,5)] .
  moreover have m2t: "tm_mem m2 t = Some th" using o(4) th(1) by simp
  ultimately obtain m' where m': "thread_add_unuse (clear_ref th m2) t = Some m'" "sched_ok {#} m' ys" "same_queues m2 m'"
    "released t th m2 m'"
    using release_spec [OF o(3)] by blast
  have "cancel_thread (Some t) (fresh_vars, m) = Some (v, m')"
    using th(1) o(1,2) m'(1) by (simp add: cancel_thread_def)
  then show thesis
    by (rule that [OF _ m'(2)]) (use m'(3,4) o(4-8) in \<open>simp_all add: taken_out_def released_def same_queues_def\<close>)
qed

lemma sched_req [simp]:
  "sched_ok L (m\<lparr>tm_cancel_req := c\<rparr>) xs = sched_ok L m xs" "sched_ok L (m\<lparr>tm_canceled := b\<rparr>) xs = sched_ok L m xs"
  by (simp_all add: sched_ok_def counts_ok_def placed_def homes_ok_def thread_is_def thread_has_def hists_ok_def
      refs_ok_def shape_ok_def timers_ok_def)

lemma sched_req_canceled [simp]:
  "sched_ok L (m\<lparr>tm_cancel_req := c, tm_canceled := b\<rparr>) xs = sched_ok L m xs"
  using sched_req(2) [where m = "m\<lparr>tm_cancel_req := c\<rparr>"] by simp

lemma thread_cancel_spec:
  assumes ok: "sched_ok {#} m xs" and th: "tm_mem m t = Some th" "t \<notin> set (tm_unuse m)" and none: "tm_cancel_req m = []"
  obtains m' ys where "thread_cancel m t = Some m'" "sched_ok {#} m' ys" "taken_out t m xs m' ys" "released t th m m'"
    "tm_cancel_req m' = []"
proof -
  let ?m = "m\<lparr>tm_cancel_req := [Cancel_thread t]\<rparr>"
  have "sched_ok {#} ?m xs" "tm_mem ?m t = Some th" "t \<notin> set (tm_unuse ?m)" using ok th by simp_all
  then obtain v m' ys where c: "cancel_thread (Some t) (fresh_vars, ?m) = Some (v, m')" "sched_ok {#} m' ys"
    "taken_out t ?m xs m' ys" "released t th ?m m'"
    by (rule cancel_thread_spec)
  have "thread_cancel m t = Some (m'\<lparr>tm_cancel_req := [], tm_canceled := True\<rparr>)"
    using none c(1) by (simp add: thread_cancel_def do_thread_cancel_def cancel_one_def)
  then show thesis
    by (rule that [of _ ys]) (use c in \<open>simp_all add: taken_out_def released_def\<close>)
qed

text \<open>Cancelling all events with an argument.\<close>

definition has_arg :: "('f, 'a) master \<Rightarrow> 'a \<Rightarrow> nat \<Rightarrow> bool" where
  "has_arg m obj t \<longleftrightarrow> (\<exists>th. tm_mem m t = Some th \<and> th_arg th = Some obj)"

lemma distinct_countI: "(\<And>a. count (mset xs) a \<le> 1) \<Longrightarrow> distinct xs"
proof (induction xs)
  case (Cons x xs)
  have "count (mset xs) a \<le> 1" for a
    using order_trans [OF _ Cons.prems [of a], of "count (mset xs) a"] by simp
  moreover have "count (mset xs) x = 0" using Cons.prems [of x] by simp
  ultimately show ?case using Cons.IH by (simp add: count_eq_zero_iff)
qed simp

lemma sched_distinct:
  assumes "sched_ok {#} m xs"
  shows "distinct (tm_event m)" "distinct (tm_ready m)"
proof -
  have c: "count (placed m xs) u \<le> 1" for u using assms by (simp add: sched_ok_def counts_ok_def)
  have "count (mset (tm_event m)) u \<le> 1" "count (mset (tm_ready m)) u \<le> 1" for u
    using c [of u] by (simp_all add: placed_def)
  then show "distinct (tm_event m)" "distinct (tm_ready m)" by (auto intro: distinct_countI)
qed

lemma queued_in_memory:
  "sched_ok L m xs \<Longrightarrow> t \<in> set (tm_event m) \<union> set (tm_ready m) \<Longrightarrow> \<exists>th. tm_mem m t = Some th"
  by (auto simp: sched_ok_def homes_ok_def thread_is_def)

lemma queues_disjoint:
  assumes "sched_ok {#} m xs"
  shows "set (tm_event m) \<inter> set (tm_ready m) = {}"
  using assms by (force simp: sched_ok_def homes_ok_def thread_is_def)

text \<open>
  The two lists of threads that \<open>do_thread_cancel\<close> searches for an event argument: \<open>lst\<close> is the one
  searched, \<open>oth\<close> the other, \<open>del\<close> the removal of one thread.
\<close>

locale thread_queue =
  fixes lst oth :: "('f, 'a) master \<Rightarrow> nat list" and del :: "nat \<Rightarrow> ('f, 'a) master \<Rightarrow> ('f, 'a) master"
  assumes unplace: "sched_ok {#} m xs \<Longrightarrow> t \<in> set (lst m) \<Longrightarrow> sched_ok {#t#} (del t m) xs"
    and in_memory: "sched_ok {#} m xs \<Longrightarrow> t \<in> set (lst m) \<Longrightarrow> \<exists>th. tm_mem m t = Some th"
    and lst_distinct: "sched_ok {#} m xs \<Longrightarrow> distinct (lst m)"
    and same_lists: "same_queues m m' \<Longrightarrow> lst m' = lst m \<and> oth m' = oth m"
    and del_frame: "lst (del t m) = remove1 t (lst m)" "oth (del t m) = oth m" "tm_mem (del t m) = tm_mem m"
      "tm_refs (del t m) = tm_refs m" "tm_timer (del t m) = tm_timer m" "tm_read (del t m) = tm_read m"
      "tm_write (del t m) = tm_write m"
begin

lemma drop_loop:
  "sched_ok {#} m xs \<Longrightarrow> distinct ts \<Longrightarrow> set ts \<subseteq> set (lst m) \<Longrightarrow>
   \<exists>m'. fold_opt (drop_matching del obj) ts m = Some m' \<and> sched_ok {#} m' xs
     \<and> lst m' = filter (\<lambda>t. \<not> (t \<in> set ts \<and> has_arg m obj t)) (lst m)
     \<and> oth m' = oth m \<and> tm_timer m' = tm_timer m \<and> tm_read m' = tm_read m \<and> tm_write m' = tm_write m
     \<and> (\<forall>u. u \<notin> set ts \<longrightarrow> tm_mem m' u = tm_mem m u)"
proof (induction ts arbitrary: m)
  case Nil
  then show ?case by simp
next
  case (Cons t ts)
  have te: "t \<in> set (lst m)" using Cons.prems by simp
  obtain th where th: "tm_mem m t = Some th"
    using in_memory [OF Cons.prems(1) te] by blast
  show ?case
  proof (cases "th_arg th = Some obj")
    case False
    then have "drop_matching del obj t m = Some m" "\<not> has_arg m obj t" using th by (simp_all add: drop_matching_def has_arg_def)
    moreover obtain m' where "fold_opt (drop_matching del obj) ts m = Some m'" "sched_ok {#} m' xs"
      "lst m' = filter (\<lambda>t. \<not> (t \<in> set ts \<and> has_arg m obj t)) (lst m)" "oth m' = oth m"
      "tm_timer m' = tm_timer m" "tm_read m' = tm_read m" "tm_write m' = tm_write m" "\<forall>u. u \<notin> set ts \<longrightarrow> tm_mem m' u = tm_mem m u"
      using Cons.IH [OF Cons.prems(1)] Cons.prems by auto
    moreover from calculation have "lst m' = filter (\<lambda>u. \<not> (u \<in> set (t # ts) \<and> has_arg m obj u)) (lst m)"
      by (auto intro: filter_cong)
    ultimately show ?thesis by simp
  next
    case True
    note o = unplace [OF Cons.prems(1) te]
    have "tm_mem (del t m) t = Some th" using th by (simp add: del_frame)
    moreover have "ref_back (del t m) t" using ref_back_placed [OF Cons.prems(1)] by (simp add: del_frame)
    ultimately obtain m1 where m1: "thread_add_unuse (clear_ref th (del t m)) t = Some m1" "sched_ok {#} m1 xs"
      "same_queues (del t m) m1" "released t th (del t m) m1"
      using release_spec [OF o] by blast
    have sq: "lst m1 = remove1 t (lst m)" "oth m1 = oth m" "tm_timer m1 = tm_timer m"
      "tm_read m1 = tm_read m" "tm_write m1 = tm_write m" "\<forall>u. u \<noteq> t \<longrightarrow> tm_mem m1 u = tm_mem m u"
      using m1(3,4) same_lists [OF m1(3)] by (simp_all add: same_queues_def released_def del_frame)
    have d: "distinct ts" "t \<notin> set ts" "set ts \<subseteq> set (lst m1)"
      using Cons.prems(2,3) sq(1) lst_distinct [OF Cons.prems(1)] by (auto simp: distinct_remove1_removeAll)
    from Cons.IH [OF m1(2) d(1,3)] obtain m' where
      ih: "fold_opt (drop_matching del obj) ts m1 = Some m'" "sched_ok {#} m' xs"
      "lst m' = filter (\<lambda>t. \<not> (t \<in> set ts \<and> has_arg m1 obj t)) (lst m1)" "oth m' = oth m1"
      "tm_timer m' = tm_timer m1" "tm_read m' = tm_read m1" "tm_write m' = tm_write m1" "\<forall>u. u \<notin> set ts \<longrightarrow> tm_mem m' u = tm_mem m1 u"
      by blast
    have "has_arg m1 obj u = has_arg m obj u" if "u \<noteq> t" for u using sq(6) that by (simp add: has_arg_def)
    moreover have "has_arg m obj t" using th True by (simp add: has_arg_def)
    moreover have "lst m1 = filter (\<lambda>u. u \<noteq> t) (lst m)"
      using sq(1) lst_distinct [OF Cons.prems(1)] by (simp add: distinct_remove1_removeAll removeAll_filter_not_eq neq_commute)
    ultimately have "lst m' = filter (\<lambda>u. \<not> (u \<in> set (t # ts) \<and> has_arg m obj u)) (lst m)"
      using ih(3) d(2) by (auto intro!: filter_cong) metis
    moreover have "drop_matching del obj t m = Some m1" using th True m1(1) by (simp add: drop_matching_def)
    ultimately show ?thesis using ih sq by simp
  qed
qed

text \<open>Searching the whole list removes exactly the threads with the argument.\<close>

lemma drop_all:
  assumes "sched_ok {#} m xs"
  obtains m' where "fold_opt (drop_matching del obj) (lst m) m = Some m'" "sched_ok {#} m' xs"
    "lst m' = filter (\<lambda>t. \<not> has_arg m obj t) (lst m)" "oth m' = oth m" "tm_timer m' = tm_timer m" "tm_read m' = tm_read m"
    "tm_write m' = tm_write m" "\<And>u. u \<notin> set (lst m) \<Longrightarrow> tm_mem m' u = tm_mem m u"
proof -
  obtain m' where m': "fold_opt (drop_matching del obj) (lst m) m = Some m'" "sched_ok {#} m' xs"
    "lst m' = filter (\<lambda>t. \<not> (t \<in> set (lst m) \<and> has_arg m obj t)) (lst m)" "oth m' = oth m" "tm_timer m' = tm_timer m"
    "tm_read m' = tm_read m" "tm_write m' = tm_write m" "\<forall>u. u \<notin> set (lst m) \<longrightarrow> tm_mem m' u = tm_mem m u"
    using drop_loop [OF assms lst_distinct [OF assms] order_refl] by blast
  moreover have "lst m' = filter (\<lambda>t. \<not> has_arg m obj t) (lst m)" unfolding m'(3) by (auto intro: filter_cong)
  ultimately show thesis using that by blast
qed

end

interpretation ev: thread_queue tm_event tm_ready event_del
  by unfold_locales
    (auto simp: unplace_event [unfolded event_del_def] sched_distinct same_queues_def event_del_def dest: queued_in_memory)

interpretation rdy: thread_queue tm_ready tm_event ready_del
  by unfold_locales
    (auto simp: unplace_ready [unfolded ready_del_def] sched_distinct same_queues_def ready_del_def dest: queued_in_memory)

lemma cancel_event_spec:
  assumes ok: "sched_ok {#} m xs"
  obtains m' where "cancel_event obj m = Some m'" "sched_ok {#} m' xs"
    "tm_event m' = filter (\<lambda>t. \<not> has_arg m obj t) (tm_event m)" "tm_ready m' = filter (\<lambda>t. \<not> has_arg m obj t) (tm_ready m)"
    "tm_timer m' = tm_timer m" "tm_read m' = tm_read m" "tm_write m' = tm_write m"
proof -
  obtain m1 where e: "fold_opt (drop_matching event_del obj) (tm_event m) m = Some m1" "sched_ok {#} m1 xs"
    "tm_event m1 = filter (\<lambda>t. \<not> has_arg m obj t) (tm_event m)" "tm_ready m1 = tm_ready m" "tm_timer m1 = tm_timer m"
    "tm_read m1 = tm_read m" "tm_write m1 = tm_write m" "\<And>u. u \<notin> set (tm_event m) \<Longrightarrow> tm_mem m1 u = tm_mem m u"
    by (rule ev.drop_all [OF ok]) blast
  obtain m' where r: "fold_opt (drop_matching ready_del obj) (tm_ready m1) m1 = Some m'" "sched_ok {#} m' xs"
    "tm_ready m' = filter (\<lambda>t. \<not> has_arg m1 obj t) (tm_ready m1)" "tm_event m' = tm_event m1" "tm_timer m' = tm_timer m1"
    "tm_read m' = tm_read m1" "tm_write m' = tm_write m1"
    by (rule rdy.drop_all [OF e(2)]) blast
  have "has_arg m1 obj t = has_arg m obj t" if "t \<in> set (tm_ready m)" for t
  proof -
    have "t \<notin> set (tm_event m)" using that queues_disjoint [OF ok] by blast
    then show ?thesis using e(8) by (simp add: has_arg_def)
  qed
  then have "tm_ready m' = filter (\<lambda>t. \<not> has_arg m obj t) (tm_ready m)" using r(3) e(4) by (auto intro: filter_cong)
  then show thesis using that [of m'] e r by (simp add: cancel_event_def)
qed

section \<open>Running threads\<close>

text \<open>Taking the head of the ready list to run it.\<close>

lemma run_spec:
  assumes ok: "sched_ok {#} m xs" and r: "tm_ready m = t # ts" and th: "tm_mem m t = Some th"
  obtains m' where "thread_run (m\<lparr>tm_ready := ts\<rparr>) t = Some (th, m')" "sched_ok {#} (clear_ref th m') xs" "tm_ready m' = ts"
    "released t th m (clear_ref th m')" "tm_event m' = tm_event m" "tm_timer m' = tm_timer m" "tm_read m' = tm_read m" "tm_write m' = tm_write m"
proof -
  let ?m = "m\<lparr>tm_ready := ts\<rparr>"
  have o: "sched_ok {#t#} ?m xs" using unplace_ready [OF ok, of t] r by (simp add: ready_del_def)
  have rb: "ref_back ?m t" using ref_back_placed [OF ok] by simp
  obtain m' where m': "thread_add_unuse ?m t = Some m'" "sched_ok {#} m' xs" "same_queues ?m m'" "tm_refs m' = tm_refs ?m"
    "\<And>u. u \<noteq> t \<Longrightarrow> tm_mem m' u = tm_mem ?m u" "tm_mem m' t \<in> {None, Some unused_thread}"
    by (rule thread_add_unuse_spec [OF o]) blast
  have "th_ref th \<noteq> Some r" if "tm_mem m' u = Some uh" "u \<notin># {#}" "th_ref uh = Some r" for u uh r
  proof (cases "u = t")
    case True
    then show ?thesis using that m'(6) by (auto simp: zero_thread_def)
  next
    case False
    then show ?thesis using other_refs [OF o, of th u uh r] th rb that m'(5) by simp
  qed
  then have "sched_ok {#} (clear_ref th m') xs" by (intro clear_ref_ok [OF m'(2)])
  moreover have "thread_run ?m t = Some (th, m')" using th m'(1) by (simp add: thread_run_def)
  ultimately show thesis
    by (intro that [of m']) (use m'(3-6) in \<open>simp_all add: same_queues_def released_def\<close>)
qed

section \<open>Ready descriptors\<close>

abbreviation here :: "nat ptr \<Rightarrow> nat list" where
  "here p \<equiv> (case p of None \<Rightarrow> [] | Some t \<Rightarrow> [t])"

text \<open>What the steps of a round leave alone: what threads were scheduled with, requests and settings.\<close>

definition static ::
  "('f, 'a) master \<Rightarrow> (nat \<Rightarrow> ('f option \<times> 'a option \<times> nat option) option) \<times> 'a cancel_req list \<times> bool \<times> bool" where
  "static m = (\<lambda>t. map_option (\<lambda>th. (th_func th, th_arg th, th_ref th)) (tm_mem m t),
               tm_cancel_req m, tm_spin m, tm_handle_signals m)"

lemma make_ready_static: "make_ready t m = Some m' \<Longrightarrow> static m' = static m"
  by (auto simp: make_ready_def static_def bind_Some_iff put_thread_def fun_eq_iff)

lemma static_upd [simp]:
  "static (m\<lparr>tm_event := a\<rparr>) = static m" "static (m\<lparr>tm_timer := b, tm_index := c\<rparr>) = static m" "static (m\<lparr>tm_pfds := d\<rparr>) = static m"
  "static (m\<lparr>tm_copy := d\<rparr>) = static m" "static (snapshot m) = static m" "static (m\<lparr>tm_read := g\<rparr>) = static m" "static (m\<lparr>tm_write := g\<rparr>) = static m"
  "static (m\<lparr>tm_pfds := d, tm_pfdcount := k, tm_copy := e, tm_copycount := l\<rparr>) = static m"
  "static (m\<lparr>tm_ready := a\<rparr>) = static m" "static (m\<lparr>tm_pfds := d, tm_read := g, tm_ready := a\<rparr>) = static m"
  "static (m\<lparr>tm_pfds := d, tm_write := g, tm_ready := a\<rparr>) = static m"
  by (simp_all add: static_def snapshot_def fun_eq_iff)

lemma static_put: "tm_mem m t = Some th \<Longrightarrow> static (put_thread t (th\<lparr>th_type := ty\<rparr>) m) = static m"
  by (auto simp: static_def put_thread_def fun_eq_iff)

text \<open>What serving descriptors leaves alone: all but the two thread arrays, the ready list and poll events.\<close>

definition io_frame :: "('f, 'a) master \<Rightarrow> ('f, 'a) master \<Rightarrow> bool" where
  "io_frame m m' \<longleftrightarrow> tm_event m' = tm_event m \<and> tm_timer m' = tm_timer m \<and> tm_copy m' = tm_copy m
     \<and> tm_copycount m' = tm_copycount m \<and> tm_pfdcount m' = tm_pfdcount m \<and> tm_pfdsize m' = tm_pfdsize m
     \<and> tm_fd_limit m' = tm_fd_limit m \<and> length (tm_pfds m') = length (tm_pfds m) \<and> static m' = static m"

lemma io_frame_trans: "io_frame a b \<Longrightarrow> io_frame b c \<Longrightarrow> io_frame a c"
  by (simp add: io_frame_def)

lemma sched_events:
  assumes "sched_ok L m xs" "length pfds = length (tm_pfds m)"
  shows "sched_ok L (m\<lparr>tm_pfds := pfds\<rparr>) xs"
  using sched_pfds [OF assms(1), of pfds "tm_pfdcount m"] assms by (simp add: sched_ok_def shape_ok_def)

lemma slot_home_read:
  "sched_ok L m xs \<Longrightarrow> i < length (tm_read m) \<Longrightarrow> tm_read m ! i = Some t \<Longrightarrow> thread_has m THREAD_READ (U_fd (int i)) t"
  by (simp add: sched_ok_def homes_ok_def)

lemma slot_home_write:
  "sched_ok L m xs \<Longrightarrow> i < length (tm_write m) \<Longrightarrow> tm_write m ! i = Some t \<Longrightarrow> thread_has m THREAD_WRITE (U_fd (int i)) t"
  by (simp add: sched_ok_def homes_ok_def)

lemma helper_read:
  assumes ok: "sched_ok {#} m xs" and fd: "fd < tm_fd_limit m" and pos: "pos < tm_pfdsize m"
  obtains m' where "thread_process_io_helper m (tm_read m ! fd) st pos = Some m'" "sched_ok {#} m' xs" "io_frame m m'"
    "tm_read m' = (tm_read m)[fd := None]" "tm_write m' = tm_write m" "tm_ready m' = tm_ready m @ here (tm_read m ! fd)"
proof -
  have sh: "length (tm_read m) = tm_fd_limit m" "length (tm_pfds m) = tm_pfdsize m" using ok by (auto simp: sched_ok_def shape_ok_def)
  define m1 where "m1 = m\<lparr>tm_pfds := (tm_pfds m)[pos := (tm_pfds m ! pos)\<lparr>pfd_events := pfd_events (tm_pfds m ! pos) AND NOT st\<rparr>]\<rparr>"
  have ok1: "sched_ok {#} m1 xs" unfolding m1_def by (rule sched_events [OF ok]) simp
  show thesis
  proof (cases "tm_read m ! fd")
    case None
    then have "(tm_read m)[fd := None] = tm_read m" by (metis list_update_id)
    then show thesis
      using None ok1 pos sh
      by (intro that [of m1]) (simp_all add: thread_process_io_helper_def rd_Some wr_Some m1_def io_frame_def)
  next
    case (Some t)
    obtain th where th: "tm_mem m t = Some th" "th_type th = THREAD_READ" "th_u th = U_fd (int fd)"
      using slot_home_read [OF ok _ Some] fd sh by (auto simp: thread_has_def)
    let ?m2 = "m1\<lparr>tm_read := (tm_read m)[fd := None]\<rparr>"
    have o: "sched_ok {#t#} ?m2 xs" using unplace_read [OF ok1, of fd t] Some fd sh by (simp add: m1_def)
    have rb: "ref_back ?m2 t" using ref_back_placed [OF ok] by (simp add: m1_def)
    define m' where "m' = put_thread t (th\<lparr>th_type := THREAD_READY\<rparr>) (?m2\<lparr>tm_ready := tm_ready ?m2 @ [t]\<rparr>)"
    have r: "make_ready t ?m2 = Some m'" "sched_ok {#} m' xs"
      using make_ready_spec [OF o, of th] rb th by (simp_all add: m'_def m1_def)
    have "thread_process_io_helper m (tm_read m ! fd) st pos = make_ready t ?m2"
      using Some th pos sh fd by (simp add: thread_process_io_helper_def rd_Some wr_Some m1_def u_fd_def)
    then show thesis
      using r Some th(1) by (intro that [of m']) (simp_all add: m'_def m1_def io_frame_def static_put)
  qed
qed

lemma helper_write:
  assumes ok: "sched_ok {#} m xs" and fd: "fd < tm_fd_limit m" and pos: "pos < tm_pfdsize m"
  obtains m' where "thread_process_io_helper m (tm_write m ! fd) st pos = Some m'" "sched_ok {#} m' xs" "io_frame m m'"
    "tm_write m' = (tm_write m)[fd := None]" "tm_read m' = tm_read m" "tm_ready m' = tm_ready m @ here (tm_write m ! fd)"
proof -
  have sh: "length (tm_write m) = tm_fd_limit m" "length (tm_pfds m) = tm_pfdsize m" using ok by (auto simp: sched_ok_def shape_ok_def)
  define m1 where "m1 = m\<lparr>tm_pfds := (tm_pfds m)[pos := (tm_pfds m ! pos)\<lparr>pfd_events := pfd_events (tm_pfds m ! pos) AND NOT st\<rparr>]\<rparr>"
  have ok1: "sched_ok {#} m1 xs" unfolding m1_def by (rule sched_events [OF ok]) simp
  show thesis
  proof (cases "tm_write m ! fd")
    case None
    then have "(tm_write m)[fd := None] = tm_write m" by (metis list_update_id)
    then show thesis
      using None ok1 pos sh
      by (intro that [of m1]) (simp_all add: thread_process_io_helper_def rd_Some wr_Some m1_def io_frame_def)
  next
    case (Some t)
    obtain th where th: "tm_mem m t = Some th" "th_type th = THREAD_WRITE" "th_u th = U_fd (int fd)"
      using slot_home_write [OF ok _ Some] fd sh by (auto simp: thread_has_def)
    let ?m2 = "m1\<lparr>tm_write := (tm_write m)[fd := None]\<rparr>"
    have o: "sched_ok {#t#} ?m2 xs" using unplace_write [OF ok1, of fd t] Some fd sh by (simp add: m1_def)
    have rb: "ref_back ?m2 t" using ref_back_placed [OF ok] by (simp add: m1_def)
    define m' where "m' = put_thread t (th\<lparr>th_type := THREAD_READY\<rparr>) (?m2\<lparr>tm_ready := tm_ready ?m2 @ [t]\<rparr>)"
    have r: "make_ready t ?m2 = Some m'" "sched_ok {#} m' xs"
      using make_ready_spec [OF o, of th] rb th by (simp_all add: m'_def m1_def)
    have "thread_process_io_helper m (tm_write m ! fd) st pos = make_ready t ?m2"
      using Some th pos sh fd by (simp add: thread_process_io_helper_def rd_Some wr_Some m1_def u_fd_def)
    then show thesis
      using r Some th(1) by (intro that [of m']) (simp_all add: m'_def m1_def io_frame_def static_put)
  qed
qed

end
