(* ===== verification/Event_Rounds.thy ===== *)
theory Event_Rounds
  imports Event_Loop
begin

text \<open>
  The rounds of the event loop: serving the descriptors that \<open>poll\<close> reported, the states the loop can
  reach, and the properties of the scheduler.
\<close>

section \<open>Serving descriptors\<close>

text \<open>The threads to post for one polled entry, and for a list of entries of which \<open>left\<close> have events.\<close>

definition posts_of :: "nat ptr list \<Rightarrow> nat ptr list \<Rightarrow> pollfd \<Rightarrow> nat list" where
  "posts_of rs ws p =
     (if pfd_revents p AND (POLLIN OR POLLHUP) \<noteq> 0 then here (rs ! nat (pfd_fd p)) else [])
     @ (if pfd_revents p AND POLLOUT \<noteq> 0 then here (ws ! nat (pfd_fd p)) else [])"

fun io_posts :: "nat ptr list \<Rightarrow> nat ptr list \<Rightarrow> nat \<Rightarrow> pollfd list \<Rightarrow> nat list" where
  "io_posts rs ws left [] = []"
| "io_posts rs ws left (p # ps) =
     (if left = 0 then []
      else if pfd_revents p = 0 then io_posts rs ws left ps
      else posts_of rs ws p @ io_posts rs ws (left - 1) ps)"

abbreviation polled :: "('f, 'a) master \<Rightarrow> pollfd list" where
  "polled m \<equiv> take (tm_copycount m) (tm_copy m)"

text \<open>The copy of the poll array is a snapshot: the array itself is at least as long, and every descriptor in range.\<close>

definition polled_ok :: "('f, 'a) master \<Rightarrow> bool" where
  "polled_ok m \<longleftrightarrow> tm_copycount m \<le> tm_pfdcount m \<and> (\<forall>p \<in> set (polled m). 0 \<le> pfd_fd p \<and> pfd_fd p < int (tm_fd_limit m))"

definition served :: "bool \<Rightarrow> int \<Rightarrow> nat ptr list \<Rightarrow> nat ptr list" where
  "served b fd a = (if b then a[nat fd := None] else a)"

lemma length_served [simp]: "length (served b fd a) = length a"
  by (simp add: served_def)

lemma served_other: "0 \<le> fd \<Longrightarrow> 0 \<le> fd' \<Longrightarrow> fd \<noteq> fd' \<Longrightarrow> served b fd a ! nat fd' = a ! nat fd'"
  by (simp add: served_def)

lemma io_entry_spec:
  assumes ok: "sched_ok {#} m xs" and i: "i < tm_copycount m" and fd: "0 \<le> pfd_fd p" "pfd_fd p < int (tm_fd_limit m)"
    and p: "tm_copy m ! i = p"
  obtains m' where "io_entry i m = Some m'" "sched_ok {#} m' xs" "io_frame m m'"
    "tm_read m' = served (pfd_revents p AND (POLLIN OR POLLHUP) \<noteq> 0) (pfd_fd p) (tm_read m)"
    "tm_write m' = served (pfd_revents p AND POLLOUT \<noteq> 0) (pfd_fd p) (tm_write m)"
    "tm_ready m' = tm_ready m @ posts_of (tm_read m) (tm_write m) p"
proof -
  have sh: "length (tm_read m) = tm_fd_limit m" "length (tm_write m) = tm_fd_limit m" "i < length (tm_copy m)" "i < tm_pfdsize m"
    using ok i by (auto simp: sched_ok_def shape_ok_def)
  define fd' where "fd' = nat (pfd_fd p)"
  have f: "fd' < tm_fd_limit m" using fd by (simp add: fd'_def nat_less_iff)
  obtain m1 where m1: "(if pfd_revents p AND (POLLIN OR POLLHUP) \<noteq> 0
      then do { tp \<leftarrow> rd (tm_read m) fd'; thread_process_io_helper m tp POLLIN i } else Some m) = Some m1"
    "sched_ok {#} m1 xs" "io_frame m m1" "tm_write m1 = tm_write m"
    "tm_read m1 = served (pfd_revents p AND (POLLIN OR POLLHUP) \<noteq> 0) (pfd_fd p) (tm_read m)"
    "tm_ready m1 = tm_ready m @ (if pfd_revents p AND (POLLIN OR POLLHUP) \<noteq> 0 then here (tm_read m ! fd') else [])"
  proof (cases "pfd_revents p AND (POLLIN OR POLLHUP) \<noteq> 0")
    case True
    then show thesis
      using that f sh by (rule_tac helper_read [OF ok f sh(4), of POLLIN]) (simp add: rd_Some served_def fd'_def)
  next
    case False
    then show thesis using ok by (intro that [of m]) (simp_all add: io_frame_def served_def)
  qed
  have sh1: "fd' < tm_fd_limit m1" "i < tm_pfdsize m1" "length (tm_write m1) = tm_fd_limit m"
    using m1(3,4) f sh by (simp_all add: io_frame_def)
  obtain m2 where m2: "(if pfd_revents p AND POLLOUT \<noteq> 0
      then do { tp \<leftarrow> rd (tm_write m1) fd'; thread_process_io_helper m1 tp POLLOUT i } else Some m1) = Some m2"
    "sched_ok {#} m2 xs" "io_frame m1 m2" "tm_read m2 = tm_read m1"
    "tm_write m2 = served (pfd_revents p AND POLLOUT \<noteq> 0) (pfd_fd p) (tm_write m1)"
    "tm_ready m2 = tm_ready m1 @ (if pfd_revents p AND POLLOUT \<noteq> 0 then here (tm_write m1 ! fd') else [])"
  proof (cases "pfd_revents p AND POLLOUT \<noteq> 0")
    case True
    then show thesis
      using that f sh1 by (rule_tac helper_write [OF m1(2) sh1(1,2), of POLLOUT]) (simp add: rd_Some served_def fd'_def)
  next
    case False
    then show thesis using m1(2) by (intro that [of m1]) (simp_all add: io_frame_def served_def)
  qed
  have "io_entry i m = Some m2"
    using m1(1) [unfolded fd'_def] m2(1) [unfolded fd'_def] sh(3) p by (simp add: io_entry_def rd_Some split del: if_split)
  then show thesis
    by (rule that [OF _ m2(2) io_frame_trans [OF m1(3) m2(3)]])
       (use m1(4-6) m2(4-6) in \<open>simp_all add: posts_of_def fd'_def\<close>)
qed

lemma pfd_remove_spec:
  assumes "i < n" "n \<le> length ps"
  obtains qs where "pfd_remove ps n i = Some qs" "length qs = length ps" "take (n - 1) qs = take i ps @ drop (i + 1) (take n ps)"
proof -
  let ?q = "take i ps @ take (n - i - 1) (drop (i + 1) ps) @ drop (n - 1) ps"
  have "take (n - 1) ?q = take i ps @ drop (i + 1) (take n ps)" using assms by (simp add: drop_take)
  moreover have "length ?q = length ps" using assms by simp
  ultimately show thesis using assms by (intro that [of ?q]) (simp_all add: pfd_remove_def)
qed

lemma posts_of_cong:
  "rs ! nat (pfd_fd p) = rs' ! nat (pfd_fd p) \<Longrightarrow> ws ! nat (pfd_fd p) = ws' ! nat (pfd_fd p) \<Longrightarrow> posts_of rs ws p = posts_of rs' ws' p"
  by (simp add: posts_of_def)

lemma io_posts_cong:
  "(\<And>p. p \<in> set ps \<Longrightarrow> posts_of rs ws p = posts_of rs' ws' p) \<Longrightarrow> io_posts rs ws left ps = io_posts rs' ws' left ps"
  by (induction rs ws left ps rule: io_posts.induct) (auto split: if_splits)

lemma sched_removed:
  assumes ok: "sched_ok L m xs" and len: "length pfds = length (tm_pfds m)" "length cp = length (tm_copy m)"
    and le: "n \<le> tm_pfdcount m" "k \<le> tm_copycount m"
  shows "sched_ok L (m\<lparr>tm_pfds := pfds, tm_pfdcount := n, tm_copy := cp, tm_copycount := k\<rparr>) xs"
proof -
  have sh: "length (tm_pfds m) = tm_pfdsize m" "length (tm_copy m) = tm_pfdsize m" "tm_pfdcount m \<le> tm_pfdsize m"
    "tm_copycount m \<le> tm_pfdsize m"
    using ok by (auto simp: sched_ok_def shape_ok_def)
  have "sched_ok L (m\<lparr>tm_pfds := pfds, tm_pfdcount := n\<rparr>) xs" using sh len le by (intro sched_pfds [OF ok]) simp_all
  from sched_copy [OF this, of cp k] show ?thesis using sh len le by simp
qed

lemma polled_split:
  assumes "sched_ok L m xs" "i < tm_copycount m"
  shows "drop i (polled m) = tm_copy m ! i # drop (i + 1) (polled m)" "rd (tm_copy m) i = Some (tm_copy m ! i)"
    "tm_copy m ! i \<in> set (polled m)" "set (drop (i + 1) (polled m)) \<subseteq> set (polled m)"
proof -
  have cc: "tm_copycount m \<le> length (tm_copy m)" using assms by (simp add: sched_ok_def shape_ok_def)
  then show dr: "drop i (polled m) = tm_copy m ! i # drop (i + 1) (polled m)"
    using assms(2) Cons_nth_drop_Suc [of i "polled m"] by simp
  show "rd (tm_copy m) i = Some (tm_copy m ! i)" using assms(2) cc by (simp add: rd_Some)
  show "tm_copy m ! i \<in> set (polled m)" using dr set_drop_subset [of i "polled m"] by simp
  show "set (drop (i + 1) (polled m)) \<subseteq> set (polled m)" by (rule set_drop_subset)
qed

text \<open>Serving an entry does not change what the later ones post: their descriptors differ.\<close>

lemma io_posts_served:
  assumes "\<forall>p \<in> set (q # qs). 0 \<le> pfd_fd p" "distinct (map pfd_fd (q # qs))"
  shows "io_posts (served b (pfd_fd q) rs) (served c (pfd_fd q) ws) l qs = io_posts rs ws l qs"
proof (rule io_posts_cong)
  fix p assume "p \<in> set qs"
  then have "pfd_fd q \<noteq> pfd_fd p" "0 \<le> pfd_fd q" "0 \<le> pfd_fd p" using assms by auto
  then show "posts_of (served b (pfd_fd q) rs) (served c (pfd_fd q) ws) p = posts_of rs ws p"
    by (intro posts_of_cong) (simp_all add: served_other)
qed

lemma io_round:
  assumes ok: "sched_ok {#} m xs" and pok: "polled_ok m" and d: "distinct (map pfd_fd (drop i (polled m)))"
    and i: "i < tm_copycount m" "left \<noteq> 0" "pfd_revents (tm_copy m ! i) \<noteq> 0" "tm_copycount m - i \<le> Suc n"
  obtains m2 j where "process_io_loop (Suc n) i left m = process_io_loop n j (left - 1) m2" "sched_ok {#} m2 xs" "polled_ok m2"
    "drop j (polled m2) = drop (i + 1) (polled m)" "tm_copycount m2 - j \<le> n" "tm_event m2 = tm_event m" "tm_timer m2 = tm_timer m" "static m2 = static m"
    "tm_ready m2 @ io_posts (tm_read m2) (tm_write m2) (left - 1) (drop j (polled m2))
       = tm_ready m @ io_posts (tm_read m) (tm_write m) left (drop i (polled m))"
proof -
  let ?p = "tm_copy m ! i"
  note sp = polled_split [OF ok i(1)]
  have fds: "0 \<le> pfd_fd q" "pfd_fd q < int (tm_fd_limit m)" if "q \<in> set (polled m)" for q
    using pok that by (auto simp: polled_ok_def)
  obtain m1 where m1: "io_entry i m = Some m1" "sched_ok {#} m1 xs" "io_frame m m1"
    "tm_read m1 = served (pfd_revents ?p AND (POLLIN OR POLLHUP) \<noteq> 0) (pfd_fd ?p) (tm_read m)"
    "tm_write m1 = served (pfd_revents ?p AND POLLOUT \<noteq> 0) (pfd_fd ?p) (tm_write m)"
    "tm_ready m1 = tm_ready m @ posts_of (tm_read m) (tm_write m) ?p"
    by (rule io_entry_spec [OF ok i(1) fds [OF sp(3)] refl])
  have fr: "polled m1 = polled m" "tm_copycount m1 = tm_copycount m" "tm_pfdcount m1 = tm_pfdcount m" "tm_fd_limit m1 = tm_fd_limit m"
    "tm_event m1 = tm_event m" "tm_timer m1 = tm_timer m" "tm_copy m1 = tm_copy m" "static m1 = static m"
    using m1(3) by (simp_all add: io_frame_def)
  have posts: "tm_ready m1 @ io_posts (tm_read m1) (tm_write m1) (left - 1) (drop (i + 1) (polled m))
      = tm_ready m @ io_posts (tm_read m) (tm_write m) left (drop i (polled m))"
    unfolding m1(4-6) sp(1) using i(2,3) io_posts_served [of ?p "drop (i + 1) (polled m)"] fds sp d
    by (simp add: subset_iff)
  show thesis
  proof (cases "pfd_revents ?p AND POLLNVAL \<noteq> 0")
    case False
    then have "process_io_loop (Suc n) i left m = process_io_loop n (i + 1) (left - 1) m1"
      using i sp(2) m1(1) by simp
    then show thesis
      by (rule that [OF _ m1(2)]) (use posts fr pok i(4) in \<open>simp_all add: polled_ok_def\<close>)
  next
    case True
    have le: "tm_copycount m \<le> length (tm_copy m)" "tm_pfdcount m \<le> length (tm_pfds m1)" "i < tm_pfdcount m"
      using m1(2) fr pok i(1) by (auto simp: sched_ok_def shape_ok_def polled_ok_def)
    obtain qs where q: "pfd_remove (tm_pfds m1) (tm_pfdcount m) i = Some qs" "length qs = length (tm_pfds m1)"
      by (rule pfd_remove_spec [OF le(3,2)])
    obtain cs where c: "pfd_remove (tm_copy m) (tm_copycount m) i = Some cs" "length cs = length (tm_copy m)"
      "take (tm_copycount m - 1) cs = take i (tm_copy m) @ drop (i + 1) (polled m)"
      by (rule pfd_remove_spec [OF i(1) le(1)])
    define m2 where "m2 = m1\<lparr>tm_pfds := qs, tm_pfdcount := tm_pfdcount m - 1, tm_copy := cs, tm_copycount := tm_copycount m - 1\<rparr>"
    have l: "process_io_loop (Suc n) i left m = process_io_loop n i (left - 1) m2"
      using True i sp(2) m1(1) q(1) c(1) fr by (simp add: m2_def)
    have ok2: "sched_ok {#} m2 xs" unfolding m2_def by (rule sched_removed [OF m1(2)]) (use q(2) c(2) fr in simp_all)
    have pm: "polled m2 = take i (polled m) @ drop (i + 1) (polled m)" using c(3) i(1) by (simp add: m2_def)
    then have dr: "drop i (polled m2) = drop (i + 1) (polled m)" using i(1) le(1) by simp
    have "set (polled m2) \<subseteq> set (polled m)" unfolding pm using sp(4) set_take_subset [of i "polled m"] by auto
    then have pok2: "polled_ok m2" using pok fr by (auto simp: polled_ok_def m2_def)
    have m2: "tm_read m2 = tm_read m1" "tm_write m2 = tm_write m1" "tm_ready m2 = tm_ready m1" "tm_event m2 = tm_event m"
      "tm_timer m2 = tm_timer m" "tm_copycount m2 - i \<le> n" "static m2 = static m"
      using fr i(4) by (simp_all add: m2_def)
    show thesis by (rule that [OF l ok2 pok2 dr m2(6,4,5,7)]) (simp only: m2 dr posts)
  qed
qed

text \<open>What the loop has done once it returns.\<close>

definition io_done :: "nat \<Rightarrow> nat \<Rightarrow> ('f, 'a) master \<Rightarrow> ('f, 'a) master \<Rightarrow> bool" where
  "io_done i left m m' \<longleftrightarrow> tm_ready m' = tm_ready m @ io_posts (tm_read m) (tm_write m) left (drop i (polled m))
     \<and> tm_event m' = tm_event m \<and> tm_timer m' = tm_timer m \<and> static m' = static m"

lemma process_io_loop_spec:
  "sched_ok {#} m xs \<Longrightarrow> polled_ok m \<Longrightarrow> distinct (map pfd_fd (drop i (polled m))) \<Longrightarrow> tm_copycount m - i \<le> n \<Longrightarrow>
   \<exists>m'. process_io_loop n i left m = Some m' \<and> sched_ok {#} m' xs \<and> io_done i left m m'"
proof (induction n arbitrary: i left m)
  case 0
  then show ?case by (auto simp: io_done_def)
next
  case (Suc n)
  note ok = Suc.prems(1)
  consider (stop) "\<not> (i < tm_copycount m \<and> left \<noteq> 0)" | (skip) "i < tm_copycount m" "left \<noteq> 0" "pfd_revents (tm_copy m ! i) = 0"
    | (serve) "i < tm_copycount m" "left \<noteq> 0" "pfd_revents (tm_copy m ! i) \<noteq> 0"
    by blast
  then show ?case
  proof cases
    case stop
    then have "io_posts (tm_read m) (tm_write m) left (drop i (polled m)) = []" by (cases "drop i (polled m)") auto
    then show ?thesis using stop ok by (auto simp: io_done_def)
  next
    case skip
    note sp = polled_split [OF ok skip(1)]
    have z: "process_io_loop (Suc n) i left m = process_io_loop n (i + 1) left m" using skip sp(2) by simp
    have "distinct (map pfd_fd (drop (i + 1) (polled m)))" using Suc.prems(3) sp(1) by simp
    moreover have "tm_copycount m - (i + 1) \<le> n" using Suc.prems(4) by simp
    ultimately obtain m' where "process_io_loop n (i + 1) left m = Some m'" "sched_ok {#} m' xs" "io_done (i + 1) left m m'"
      using Suc.IH [OF ok Suc.prems(2)] by blast
    then show ?thesis unfolding z using skip sp(1) by (intro exI [of _ m']) (simp add: io_done_def)
  next
    case serve
    obtain m2 j where m2: "process_io_loop (Suc n) i left m = process_io_loop n j (left - 1) m2" "sched_ok {#} m2 xs" "polled_ok m2"
      "drop j (polled m2) = drop (i + 1) (polled m)" "tm_copycount m2 - j \<le> n" "tm_event m2 = tm_event m" "tm_timer m2 = tm_timer m" "static m2 = static m"
      "tm_ready m2 @ io_posts (tm_read m2) (tm_write m2) (left - 1) (drop j (polled m2))
         = tm_ready m @ io_posts (tm_read m) (tm_write m) left (drop i (polled m))"
      by (rule io_round [OF Suc.prems(1-3) serve Suc.prems(4)])
    have "distinct (map pfd_fd (drop j (polled m2)))" using Suc.prems(3) polled_split(1) [OF ok serve(1)] m2(4) by simp
    then obtain m' where "process_io_loop n j (left - 1) m2 = Some m'" "sched_ok {#} m' xs" "io_done j (left - 1) m2 m'"
      using Suc.IH [OF m2(2,3) _ m2(5)] by blast
    then show ?thesis unfolding m2(1) using m2(6-9) by (intro exI [of _ m']) (simp add: io_done_def)
  qed
qed

end
