(* ===== verification/Event_Reach.thy ===== *)
theory Event_Reach
  imports Event_Rounds
begin

text \<open>
  The states the event loop can reach, and the properties of the scheduler as theorems over them.
\<close>

section \<open>The poll array\<close>

text \<open>The descriptors polled for are distinct and in range.\<close>

abbreviation polled_fds :: "('f, 'a) master \<Rightarrow> int list" where
  "polled_fds m \<equiv> map pfd_fd (take (tm_pfdcount m) (tm_pfds m))"

definition fds_ok :: "nat \<Rightarrow> int list \<Rightarrow> bool" where
  "fds_ok limit fds \<longleftrightarrow> distinct fds \<and> (\<forall>fd \<in> set fds. 0 \<le> fd \<and> fd < int limit)"

definition polls_ok :: "('f, 'a) master \<Rightarrow> bool" where
  "polls_ok m \<longleftrightarrow> fds_ok (tm_fd_limit m) (polled_fds m)"

definition same_polls :: "('f, 'a) master \<Rightarrow> ('f, 'a) master \<Rightarrow> bool" where
  "same_polls m m' \<longleftrightarrow> tm_pfds m' = tm_pfds m \<and> tm_pfdcount m' = tm_pfdcount m \<and> tm_fd_limit m' = tm_fd_limit m
     \<and> tm_copy m' = tm_copy m \<and> tm_copycount m' = tm_copycount m \<and> tm_pfdsize m' = tm_pfdsize m"

lemma same_polls_ok: "same_polls m m' \<Longrightarrow> polls_ok m' = polls_ok m"
  by (simp add: same_polls_def polls_ok_def)

lemma same_polls_trans: "same_polls a b \<Longrightarrow> same_polls b c \<Longrightarrow> same_polls a c"
  by (simp add: same_polls_def)

lemma fold_opt_polls:
  assumes "\<And>x s s'. f x s = Some s' \<Longrightarrow> same_polls s s'"
  shows "fold_opt f xs m = Some m' \<Longrightarrow> same_polls m m'"
proof (induction xs arbitrary: m)
  case Nil
  then show ?case by (simp add: same_polls_def)
next
  case (Cons x xs)
  then show ?case using assms same_polls_trans by (fastforce simp: bind_Some_iff)
qed

lemma thread_get_polls: "thread_get m ty f arg = Some (m1, t) \<Longrightarrow> same_polls m m1"
  by (auto simp: thread_get_def same_polls_def bind_Some_iff Let_def put_thread_def split: list.splits)

lemma set_ref_polls: "set_ref t_ptr t m = Some m1 \<Longrightarrow> same_polls m m1"
  by (auto simp: set_ref_def same_polls_def bind_Some_iff put_thread_def split: option.splits)

lemma thread_add_unuse_polls: "thread_add_unuse m t = Some m1 \<Longrightarrow> same_polls m m1"
  by (auto simp: thread_add_unuse_def thread_free_def same_polls_def bind_Some_iff Let_def put_thread_def c_assert_def
      split: if_splits)

lemma make_ready_polls: "make_ready t m = Some m1 \<Longrightarrow> same_polls m m1"
  by (auto simp: make_ready_def same_polls_def bind_Some_iff put_thread_def)

lemma clear_ref_polls: "same_polls m (clear_ref th m)"
  by (simp add: same_polls_def)

lemma same_polls_upd [simp]:
  "same_polls m (m\<lparr>tm_event := a\<rparr>)" "same_polls m (m\<lparr>tm_ready := b\<rparr>)" "same_polls m (m\<lparr>tm_timer := c, tm_index := d\<rparr>)"
  "same_polls m (m\<lparr>tm_read := g\<rparr>)" "same_polls m (m\<lparr>tm_write := g\<rparr>)" "same_polls m (put_thread t th m)"
  "same_polls m (m\<lparr>tm_cancel_req := h\<rparr>)" "same_polls m m"
  "same_polls m (m\<lparr>tm_cancel_req := h, tm_canceled := l\<rparr>)"
  by (simp_all add: same_polls_def put_thread_def)

lemma drop_matching_polls:
  assumes "drop_matching del obj t m = Some m'" "same_polls m (del t m)"
  shows "same_polls m m'"
proof (cases "tm_mem m t")
  case None
  then show ?thesis using assms(1) by (simp add: drop_matching_def)
next
  case (Some th)
  define r where "r = thread_add_unuse (clear_ref th (del t m)) t"
  have "(if th_arg th \<noteq> Some obj then Some m else r) = Some m'" using assms(1) Some by (simp add: drop_matching_def r_def split del: if_split cong: if_cong)
  then consider "m' = m" | "r = Some m'" by (cases "th_arg th \<noteq> Some obj") simp_all
  then show ?thesis
  proof cases
    case 2
    from same_polls_trans [OF same_polls_trans [OF assms(2) clear_ref_polls] thread_add_unuse_polls [OF 2 [unfolded r_def]]]
    show ?thesis .
  qed simp
qed

lemma cancel_event_polls:
  assumes "cancel_event obj m = Some m'"
  shows "same_polls m m'"
proof -
  obtain m1 where m1: "fold_opt (drop_matching event_del obj) (tm_event m) m = Some m1"
    "fold_opt (drop_matching ready_del obj) (tm_ready m1) m1 = Some m'"
    using assms by (auto simp: cancel_event_def bind_Some_iff)
  have "same_polls s s'" if "drop_matching event_del obj x s = Some s'" for x s s'
    using drop_matching_polls [OF that] by (simp add: event_del_def)
  moreover have "same_polls s s'" if "drop_matching ready_del obj x s = Some s'" for x s s'
    using drop_matching_polls [OF that] by (simp add: ready_del_def)
  ultimately show ?thesis using fold_opt_polls [OF _ m1(1)] fold_opt_polls [OF _ m1(2)] same_polls_trans by blast
qed

lemma add_event_polls:
  assumes "funcname_thread_add_event m f arg val t_ptr = Some (m', r)"
  shows "same_polls m m'"
proof (cases "is_scheduled m t_ptr")
  case False
  then obtain m1 t th where g: "thread_get m THREAD_EVENT f arg = Some (m1, t)"
    "set_ref t_ptr t ((put_thread t (th\<lparr>th_u := U_val val\<rparr>) m1)\<lparr>tm_event := tm_event m1 @ [t]\<rparr>) = Some m'"
    using assms by (auto simp: funcname_thread_add_event_def bind_Some_iff Let_def)
  have "same_polls m1 m'" using set_ref_polls [OF g(2)] by (simp add: same_polls_def put_thread_def)
  then show ?thesis using thread_get_polls [OF g(1)] same_polls_trans by blast
qed (use assms in \<open>simp add: funcname_thread_add_event_def\<close>)

lemma add_timer_polls:
  assumes "funcname_thread_add_timer_timeval now m f arg rel t_ptr = Some (m', r)"
  shows "same_polls m m'"
proof (cases "is_scheduled m t_ptr")
  case False
  then obtain m1 t th q ix where g: "thread_get m THREAD_TIMER f arg = Some (m1, t)"
    "set_ref t_ptr t ((put_thread t (th\<lparr>th_u := U_sands (timeradd now rel)\<rparr>) m1)\<lparr>tm_timer := q, tm_index := ix\<rparr>) = Some m'"
    using assms by (auto simp: funcname_thread_add_timer_timeval_def bind_Some_iff Let_def)
  have "same_polls m1 m'" using set_ref_polls [OF g(2)] by (simp add: same_polls_def put_thread_def)
  then show ?thesis using thread_get_polls [OF g(1)] same_polls_trans by blast
qed (use assms in \<open>simp add: funcname_thread_add_timer_timeval_def\<close>)

lemma process_timers_polls: "process_timers_loop n now m = Some m' \<Longrightarrow> same_polls m m'"
proof (induction n arbitrary: m)
  case (Suc n)
  show ?case
  proof (cases "m' = m")
    case False
    then obtain t q ix m1 where "make_ready t (m\<lparr>tm_timer := q, tm_index := ix\<rparr>) = Some m1" "process_timers_loop n now m1 = Some m'"
      using Suc.prems by (auto simp: bind_Some_iff split: if_splits)
    then show ?thesis using Suc.IH make_ready_polls same_polls_trans same_polls_upd(3) by blast
  qed simp
qed (auto split: if_splits)

lemma fds_ok_remove:
  assumes "fds_ok l (map pfd_fd (take n ps))" "pfd_remove ps n i = Some qs"
  shows "fds_ok l (map pfd_fd (take (n - 1) qs))"
proof -
  have "i < n \<and> n \<le> length ps" using assms(2) by (auto simp: pfd_remove_def c_assert_def split: if_splits)
  then have q: "take (n - 1) qs = take i (take n ps) @ drop (i + 1) (take n ps)"
    using pfd_remove_spec [of i n ps] assms(2) by (metis (no_types, lifting) min.absorb1 nat_less_le option.inject take_take)
  let ?f = "map pfd_fd (take n ps)"
  have "map pfd_fd (take (n - 1) qs) = take i ?f @ drop (i + 1) ?f" unfolding q by (simp add: take_map drop_map)
  moreover have "distinct (take i ?f @ drop (i + 1) ?f)"
    using assms(1) set_take_disj_set_drop_if_distinct [of ?f i "i + 1"] by (auto simp: fds_ok_def distinct_append)
  moreover have "set (take i ?f @ drop (i + 1) ?f) \<subseteq> set ?f"
    using set_take_subset [of i ?f] set_drop_subset [of "i + 1" ?f] by auto
  ultimately show ?thesis using assms(1) unfolding fds_ok_def by auto
qed

lemma clear_events_fds:
  assumes "clear_events ps n i st = Some (qs, k)" "fds_ok l (map pfd_fd (take n ps))"
  shows "fds_ok l (map pfd_fd (take k qs))"
proof -
  define p where "p = (ps ! i)\<lparr>pfd_events := pfd_events (ps ! i) AND NOT st\<rparr>"
  have i: "i < length ps" using assms(1) by (auto simp: clear_events_def rd_def split: if_splits)
  have "map pfd_fd (ps[i := p]) = map pfd_fd ps" by (simp add: p_def map_update list_update_same_conv i)
  then have f: "map pfd_fd (take n (ps[i := p])) = map pfd_fd (take n ps)" by (metis take_map)
  show ?thesis
  proof (cases "pfd_events p = 0")
    case True
    then have "pfd_remove (ps[i := p]) n i = Some qs" "k = n - 1"
      using assms(1) i by (auto simp: clear_events_def rd_Some wr_Some p_def bind_Some_iff)
    then show ?thesis using fds_ok_remove [of l n "ps[i := p]" i qs] assms(2) f by simp
  next
    case False
    then have "qs = ps[i := p]" "k = n" using assms(1) i by (auto simp: clear_events_def rd_Some wr_Some p_def)
    then show ?thesis using assms(2) f by simp
  qed
qed

lemma cancel_rw_polls:
  assumes "thread_cancel_rw m fd st = Some m'" "polls_ok m"
  shows "polls_ok m'"
proof (cases "find_pfd (tm_pfds m) (tm_pfdcount m) fd")
  case None
  then show ?thesis using assms by (simp add: thread_cancel_rw_def)
next
  case (Some i)
  let ?s = "st OR POLLHUP"
  show ?thesis
  proof (cases "clear_events (tm_pfds m) (tm_pfdcount m) i ?s")
    case None
    then show ?thesis using assms(1) Some by (simp add: thread_cancel_rw_def)
  next
    case q: (Some qk)
    obtain qs k where qk: "qk = (qs, k)" by (cases qk)
    define m1 where "m1 = m\<lparr>tm_pfds := qs, tm_pfdcount := k\<rparr>"
    have "fds_ok (tm_fd_limit m) (map pfd_fd (take k qs))"
      using clear_events_fds q qk assms(2) by (metis polls_ok_def)
    then have p1: "polls_ok m1" by (simp add: polls_ok_def m1_def)
    show ?thesis
    proof (cases "i \<ge> tm_copycount m")
      case True
      then have "m' = m1" using assms(1) Some q qk by (simp add: thread_cancel_rw_def m1_def)
      then show ?thesis using p1 by simp
    next
      case False
      then have "Option.bind (clear_events (tm_copy m1) (tm_copycount m1) i ?s) (\<lambda>(cp, n). Some (m1\<lparr>tm_copy := cp, tm_copycount := n\<rparr>)) = Some m'"
        using assms(1) Some q qk by (simp add: thread_cancel_rw_def m1_def)
      then obtain cp n where "m' = m1\<lparr>tm_copy := cp, tm_copycount := n\<rparr>" unfolding bind_Some_iff by force
      then show ?thesis using p1 by (simp add: polls_ok_def)
    qed
  qed
qed

lemma cancel_thread_polls:
  assumes "cancel_thread (Some t) (v0, m) = Some (v, m')" "polls_ok m"
  shows "polls_ok m'"
proof (cases "tm_mem m t")
  case (Some th)
  show ?thesis
  proof (cases "choose_queue th (v0, m)")
    case None
    then show ?thesis using assms(1) Some by (simp add: cancel_thread_def)
  next
    case c: (Some r)
    show ?thesis
    proof (cases r)
      case None
      then show ?thesis using assms Some c by (simp add: cancel_thread_def)
    next
      case (Some vm)
      obtain v1 m1 where vm: "vm = (v1, m1)" by (cases vm)
      obtain m2 where m2: "remove_from_queue t th v1 m1 = Some m2" "thread_add_unuse (clear_ref th m2) t = Some m'"
        using assms(1) \<open>tm_mem m t = Some th\<close> c Some vm by (auto simp: cancel_thread_def bind_Some_iff)
      have "polls_ok m1"
        using c assms(2) Some vm cancel_rw_polls by (auto simp: choose_queue_def bind_Some_iff split: ttype.splits)
      moreover have "same_polls m1 m2"
        using m2(1) by (auto simp: remove_from_queue_def bind_Some_iff same_polls_def Let_def event_del_def ready_del_def
            split: if_splits option.splits which_list.splits which_array.splits) (metis which_array.exhaust)+
      moreover have "same_polls m2 m'"
        using same_polls_trans [OF clear_ref_polls thread_add_unuse_polls [OF m2(2)]] .
      ultimately show ?thesis using same_polls_ok same_polls_trans by blast
    qed
  qed
qed (use assms(1) in \<open>simp add: cancel_thread_def\<close>)

lemma add_fd_ok:
  assumes ok: "fds_ok l (map pfd_fd (take n ps))" "k < length ps" "0 \<le> fd" "fd < int l"
    and k: "k = (case find_pfd ps n fd of None \<Rightarrow> n | Some i \<Rightarrow> i)"
    and qs: "map pfd_fd qs = (map pfd_fd ps)[k := fd]"
  shows "fds_ok l (map pfd_fd (take (if k = n then n + 1 else n) qs))"
proof (cases "find_pfd ps n fd")
  case None
  then have n: "k = n" "n < length ps" using k assms(2) by simp_all
  have "pfd_fd (ps ! i) \<noteq> fd" if "i < n" for i using None n that by (auto simp: find_pfd_def find_None_iff)
  then have "fd \<notin> set (map pfd_fd (take n ps))" using n(2) by (auto simp: in_set_conv_nth) blast
  moreover have "map pfd_fd (take (n + 1) qs) = map pfd_fd (take n ps) @ [fd]"
    using qs n by (simp flip: take_map add: take_Suc_conv_app_nth take_update_cancel)
  ultimately show ?thesis using ok None k by (auto simp: fds_ok_def)
next
  case (Some i)
  note f = find_pfd_Some [OF this]
  have "(map pfd_fd ps)[k := fd] = map pfd_fd ps" using Some k f by (auto simp: list_update_same_conv)
  then have "map pfd_fd (take n qs) = map pfd_fd (take n ps)" using qs by (metis take_map)
  then show ?thesis using ok Some k f by simp
qed

text \<open>What adding tasks leaves of the poll arrays.\<close>

definition more_polls :: "('f, 'a) master \<Rightarrow> ('f, 'a) master \<Rightarrow> bool" where
  "more_polls m m' \<longleftrightarrow> tm_copy m' = tm_copy m \<and> tm_copycount m' = tm_copycount m \<and> tm_pfdsize m' = tm_pfdsize m
     \<and> tm_fd_limit m' = tm_fd_limit m \<and> tm_pfdcount m \<le> tm_pfdcount m'"

lemma add_rw_ok:
  assumes ok: "sched_ok {#} m xs" "polls_ok m" and add: "funcname_thread_add_read_write dir m f arg fd t_ptr = Some (m', r)"
    and free: "dir = THREAD_READ \<and> tm_read m ! nat fd = None \<or> dir = THREAD_WRITE \<and> tm_write m ! nat fd = None"
  shows "sched_ok {#} m' xs \<and> polls_ok m' \<and> more_polls m m'"
proof (cases "is_scheduled m t_ptr")
  case True
  then show ?thesis using ok add by (simp add: funcname_thread_add_read_write_def c_assert_def more_polls_def split: if_splits)
next
  case False
  have fd: "0 \<le> fd" "fd < int (tm_fd_limit m)"
    using add by (simp_all add: funcname_thread_add_read_write_def c_assert_def split: if_splits)
  have slot: "pfd_slot m fd + 1 < tm_pfdsize m"
    using add False fd by (auto simp: funcname_thread_add_read_write_def c_assert_def pfd_slot_def Let_def split: if_splits)
  have n: "nat fd < tm_fd_limit m" "int (nat fd) = fd" using fd by auto
  obtain m2 t where "funcname_thread_add_read_write dir m f arg fd t_ptr = Some (m2, Some t)" and m2: "sched_ok {#} m2 xs"
    "map pfd_fd (tm_pfds m2) = (map pfd_fd (tm_pfds m))[pfd_slot m fd := fd]" "tm_fd_limit m2 = tm_fd_limit m"
    "tm_copy m2 = tm_copy m" "tm_copycount m2 = tm_copycount m" "tm_pfdsize m2 = tm_pfdsize m"
    "tm_pfdcount m2 = (if pfd_slot m fd = tm_pfdcount m then tm_pfdcount m + 1 else tm_pfdcount m)"
    using add_rw_spec [OF ok(1) False n(1), of dir f arg, unfolded n(2)] slot free by (metis (no_types, lifting))
  then have m': "m' = m2" using add by simp
  have len: "pfd_slot m fd < length (tm_pfds m)" using ok(1) slot by (auto simp: sched_ok_def shape_ok_def)
  have "fds_ok (tm_fd_limit m) (polled_fds m2)"
    unfolding m2(7) using add_fd_ok [OF _ len fd _ m2(2)] ok(2) by (simp add: polls_ok_def pfd_slot_def)
  then show ?thesis using m' m2 by (simp add: polls_ok_def more_polls_def)
qed

lemma helper_polls:
  assumes "thread_process_io_helper m tp st pos = Some m'" "polls_ok m"
  shows "polls_ok m'"
proof (cases "pos < length (tm_pfds m)")
  case True
  define m1 where "m1 = m\<lparr>tm_pfds := (tm_pfds m)[pos := (tm_pfds m ! pos)\<lparr>pfd_events := pfd_events (tm_pfds m ! pos) AND NOT st\<rparr>]\<rparr>"
  have f: "map pfd_fd (tm_pfds m1) = map pfd_fd (tm_pfds m)" using True by (simp add: m1_def map_update list_update_same_conv)
  have "polled_fds m1 = take (tm_pfdcount m) (map pfd_fd (tm_pfds m1))" by (simp add: take_map m1_def)
  then have "polled_fds m1 = polled_fds m" unfolding f by (simp add: take_map)
  then have p1: "polls_ok m1" using assms(2) by (simp add: polls_ok_def m1_def)
  show ?thesis
  proof (cases tp)
    case None
    then show ?thesis using assms(1) True p1 by (simp add: thread_process_io_helper_def rd_Some wr_Some m1_def)
  next
    case (Some t)
    define put where "put th fd = (if th_type th = THREAD_READ
      then Option.bind (wr (tm_read m1) (nat fd) None) (\<lambda>a. Some (m1\<lparr>tm_read := a\<rparr>))
      else Option.bind (wr (tm_write m1) (nat fd) None) (\<lambda>a. Some (m1\<lparr>tm_write := a\<rparr>)))" for th :: "('a, 'b) thread" and fd
    have "Option.bind (tm_mem m1 t) (\<lambda>th. Option.bind (u_fd (th_u th)) (\<lambda>fd. Option.bind (put th fd) (make_ready t))) = Some m'"
      using assms(1) True Some
      by (simp add: thread_process_io_helper_def rd_Some wr_Some m1_def put_def Let_def split del: if_split cong: if_cong)
    then obtain th fd m2 where "put th fd = Some m2" "make_ready t m2 = Some m'" unfolding bind_Some_iff by blast
    moreover from this(1) have "same_polls m1 m2" by (auto simp: put_def bind_Some_iff split: if_splits)
    ultimately show ?thesis using p1 same_polls_ok make_ready_polls by blast
  qed
qed (use assms(1) in \<open>simp add: thread_process_io_helper_def rd_def\<close>)

lemma io_entry_polls:
  fixes m :: "('f, 'a) master"
  assumes "io_entry i m = Some m'" "polls_ok m"
  shows "polls_ok m'"
proof -
  obtain p where p: "rd (tm_copy m) i = Some p" using assms(1) by (cases "rd (tm_copy m) i") (simp_all add: io_entry_def)
  define b where "b = (if pfd_revents p AND (POLLIN OR POLLHUP) \<noteq> 0
    then Option.bind (rd (tm_read m) (nat (pfd_fd p))) (\<lambda>tp. thread_process_io_helper m tp POLLIN i) else Some m)"
  define c where "c m1 = (if pfd_revents p AND POLLOUT \<noteq> 0
    then Option.bind (rd (tm_write m1) (nat (pfd_fd p))) (\<lambda>tp. thread_process_io_helper m1 tp POLLOUT i) else Some m1)" for m1 :: "('f, 'a) master"
  have "Option.bind b c = Some m'"
    using assms(1) p unfolding b_def c_def by (simp add: io_entry_def split del: if_split cong: if_cong)
  then obtain m1 where m1: "b = Some m1" "c m1 = Some m'" unfolding bind_Some_iff by blast
  from m1(1) have "polls_ok m1" using assms(2) helper_polls by (auto simp: b_def bind_Some_iff split: if_splits)
  then show ?thesis using m1(2) helper_polls by (auto simp: c_def bind_Some_iff split: if_splits)
qed

lemma process_io_polls: "process_io_loop n i left m = Some m' \<Longrightarrow> polls_ok m \<Longrightarrow> polls_ok m'"
proof (induction n arbitrary: i left m)
  case (Suc n)
  show ?case
  proof (cases "i < tm_copycount m \<and> left \<noteq> 0")
    case True
    then obtain p where p: "rd (tm_copy m) i = Some p" using Suc.prems(1) by (cases "rd (tm_copy m) i") simp_all
    show ?thesis
    proof (cases "pfd_revents p = 0")
      case True
      then show ?thesis using Suc.prems Suc.IH p \<open>i < tm_copycount m \<and> left \<noteq> 0\<close> by simp
    next
      case False
      then obtain m1 where m1: "io_entry i m = Some m1"
        using Suc.prems(1) p True by (cases "io_entry i m") simp_all
      have ok1: "polls_ok m1" using io_entry_polls [OF m1 Suc.prems(2)] .
      show ?thesis
      proof (cases "pfd_revents p AND POLLNVAL \<noteq> 0")
        case True
        obtain qs cs where q: "pfd_remove (tm_pfds m1) (tm_pfdcount m1) i = Some qs"
          "process_io_loop n i (left - 1) (m1\<lparr>tm_pfds := qs, tm_pfdcount := tm_pfdcount m1 - 1,
             tm_copy := cs, tm_copycount := tm_copycount m1 - 1\<rparr>) = Some m'"
          using Suc.prems(1) p m1 True False \<open>i < tm_copycount m \<and> left \<noteq> 0\<close> by (auto simp: bind_Some_iff)
        have "fds_ok (tm_fd_limit m1) (map pfd_fd (take (tm_pfdcount m1 - 1) qs))"
          using fds_ok_remove [OF _ q(1)] ok1 by (simp add: polls_ok_def)
        then show ?thesis using Suc.IH [OF q(2)] by (simp add: polls_ok_def)
      next
        case nv: False
        then show ?thesis using Suc.prems(1) Suc.IH p m1 ok1 False True by simp
      qed
    qed
  qed (use Suc.prems in auto)
qed (auto split: if_splits)

end
