(* ===== verification/Event_Props.thy ===== *)
theory Event_Props
  imports Event_Reach
begin

text \<open>
  The event loop as a transition system: adding tasks, cancelling them, and the rounds of
  \<open>thread_fetch\<close>; with the properties of its reachable states and of each round.
\<close>

section \<open>Steps\<close>

definition master_ok :: "('f, 'a) master \<Rightarrow> bool" where
  "master_ok m \<longleftrightarrow> (\<exists>xs. sched_ok {#} m xs) \<and> polls_ok m"

text \<open>
  Adding a task, which any pthread may do while the mutex is free. A descriptor has at most one task in
  each direction: the assertion for it is compiled into development builds only.
\<close>

inductive add_step :: "('f, 'a) master \<Rightarrow> ('f, 'a) master \<Rightarrow> bool" where
  event: "funcname_thread_add_event m f arg val t_ptr = Some (m', r) \<Longrightarrow> add_step m m'"
| timer: "funcname_thread_add_timer_timeval now m f arg rel t_ptr = Some (m', r) \<Longrightarrow>
    2 * pq_array_size (tm_timer m) \<le> INT_MAX \<Longrightarrow> add_step m m'"
| read: "funcname_thread_add_read_write THREAD_READ m f arg fd t_ptr = Some (m', r) \<Longrightarrow> tm_read m ! nat fd = None \<Longrightarrow> add_step m m'"
| wrt: "funcname_thread_add_read_write THREAD_WRITE m f arg fd t_ptr = Some (m', r) \<Longrightarrow> tm_write m ! nat fd = None \<Longrightarrow> add_step m m'"

text \<open>
  The steps of the loop's own pthread: cancelling a scheduled thread or the events with an argument,
  posting events, polling and serving what is due (other pthreads add tasks meanwhile), and running
  the head of the ready list.
\<close>

inductive loop_step :: "('f, 'a) master \<Rightarrow> ('f, 'a) master \<Rightarrow> bool" where
  add: "add_step m m' \<Longrightarrow> loop_step m m'"
| cancel: "thread_cancel m t = Some m' \<Longrightarrow> tm_mem m t \<noteq> None \<Longrightarrow> t \<notin> set (tm_unuse m) \<Longrightarrow> tm_cancel_req m = [] \<Longrightarrow> loop_step m m'"
| cancel_ev: "thread_cancel_event m obj = Some m' \<Longrightarrow> tm_cancel_req m = [] \<Longrightarrow> loop_step m m'"
| post: "thread_process_event m = Some m' \<Longrightarrow> loop_step m m'"
| poll: "fd_poll ans (snapshot m) = Some (m1, Some num) \<Longrightarrow> add_step\<^sup>*\<^sup>* m1 m2 \<Longrightarrow> after_poll e num m2 = Some m' \<Longrightarrow> loop_step m m'"
| run: "tm_ready m = t # ts \<Longrightarrow> thread_run (m\<lparr>tm_ready := ts\<rparr>) t = Some (th, m') \<Longrightarrow> loop_step m (clear_ref th m')"

definition reachable :: "nat \<Rightarrow> int \<Rightarrow> ('f, 'a) master \<Rightarrow> bool" where
  "reachable limit pipe0 m \<longleftrightarrow> loop_step\<^sup>*\<^sup>* (thread_master_create limit pipe0) m"

section \<open>Every step keeps the invariant\<close>

lemma master_okI: "sched_ok {#} m xs \<Longrightarrow> polls_ok m \<Longrightarrow> master_ok m"
  by (auto simp: master_ok_def)

lemma add_step_ok:
  assumes "add_step m m'" "master_ok m"
  shows "master_ok m' \<and> more_polls m m'"
  using assms(1)
proof cases
  case (event f arg val t_ptr r)
  obtain xs where xs: "sched_ok {#} m xs" "polls_ok m" using assms(2) by (auto simp: master_ok_def)
  have p: "same_polls m m'" using add_event_polls [OF event] .
  have "\<exists>ys. sched_ok {#} m' ys"
  proof (cases "is_scheduled m t_ptr")
    case True
    then show ?thesis using event xs by (auto simp: funcname_thread_add_event_def)
  next
    case False
    show ?thesis by (rule add_event_spec [OF xs(1) False, of f arg val]) (use event in auto)
  qed
  then show ?thesis using xs p same_polls_ok [OF p] by (auto simp: master_ok_def more_polls_def same_polls_def)
next
  case (timer now f arg rel t_ptr r)
  obtain xs where xs: "sched_ok {#} m xs" "polls_ok m" using assms(2) by (auto simp: master_ok_def)
  have p: "same_polls m m'" using add_timer_polls [OF timer(1)] .
  have "\<exists>ys. sched_ok {#} m' ys"
  proof (cases "is_scheduled m t_ptr")
    case True
    then show ?thesis using timer xs by (auto simp: funcname_thread_add_timer_timeval_def)
  next
    case False
    show ?thesis by (rule add_timer_spec [OF xs(1) False timer(2), of now f arg rel]) (use timer in auto)
  qed
  then show ?thesis using xs p same_polls_ok [OF p] by (auto simp: master_ok_def more_polls_def same_polls_def)
next
  case (read f arg fd t_ptr r)
  then show ?thesis using assms(2) add_rw_ok [OF _ _ read(1)] by (auto simp: master_ok_def)
next
  case (wrt f arg fd t_ptr r)
  then show ?thesis using assms(2) add_rw_ok [OF _ _ wrt(1)] by (auto simp: master_ok_def)
qed

lemma more_polls_trans: "more_polls a b \<Longrightarrow> more_polls b c \<Longrightarrow> more_polls a c"
  by (simp add: more_polls_def)

lemma add_steps_ok: "add_step\<^sup>*\<^sup>* m m' \<Longrightarrow> master_ok m \<Longrightarrow> master_ok m' \<and> more_polls m m'"
proof (induction rule: rtranclp_induct)
  case base
  then show ?case by (simp add: more_polls_def)
next
  case (step a b)
  then show ?case using add_step_ok more_polls_trans by blast
qed

lemma sched_shape:
  assumes "sched_ok L m xs"
  shows "length (tm_pfds m) = tm_pfdsize m" "length (tm_copy m) = tm_pfdsize m" "tm_pfdcount m \<le> tm_pfdsize m"
    "tm_copycount m \<le> tm_pfdsize m" "length (tm_read m) = tm_fd_limit m" "length (tm_write m) = tm_fd_limit m"
  using assms by (auto simp: sched_ok_def shape_ok_def)

lemma snapshot_ok:
  assumes "master_ok m"
  shows "master_ok (snapshot m)"
proof -
  obtain xs where xs: "sched_ok {#} m xs" "polls_ok m" using assms by (auto simp: master_ok_def)
  have "sched_ok {#} (snapshot m) xs"
    unfolding snapshot_def using sched_shape [OF xs(1)] by (intro sched_copy [OF xs(1)]) simp_all
  then show ?thesis using xs(2) by (auto simp: master_ok_def polls_ok_def snapshot_def)
qed

lemma process_event_static: "thread_process_event m = Some m' \<Longrightarrow> static m' = static m"
proof -
  have "fold_opt make_ready ts s = Some s' \<Longrightarrow> static s' = static s" for ts and s s' :: "('a, 'b) master"
    by (induction ts arbitrary: s) (auto simp: bind_Some_iff dest: make_ready_static)
  then show "thread_process_event m = Some m' \<Longrightarrow> static m' = static m" for m m' :: "('a, 'b) master"
    by (fastforce simp: thread_process_event_def)
qed

lemma process_timers_static: "process_timers_loop n now m = Some m' \<Longrightarrow> static m' = static m"
proof (induction n arbitrary: m)
  case (Suc n)
  show ?case
  proof (cases "m' = m")
    case False
    then obtain t q ix m1 where "make_ready t (m\<lparr>tm_timer := q, tm_index := ix\<rparr>) = Some m1" "process_timers_loop n now m1 = Some m'"
      using Suc.prems by (auto simp: bind_Some_iff split: if_splits)
    then show ?thesis using Suc.IH make_ready_static by (metis static_upd(2))
  qed simp
qed (auto split: if_splits)

text \<open>What the polled copy is good for: its descriptors are those of the array.\<close>

definition answered_ok :: "('f, 'a) master \<Rightarrow> bool" where
  "answered_ok m \<longleftrightarrow> polled_ok m \<and> distinct (map pfd_fd (polled m))"

lemma answered_fds:
  assumes "length revs = n + 1" "n + 1 \<le> length cp"
  shows "map pfd_fd (take n (map2 (\<lambda>p r. p\<lparr>pfd_revents := r\<rparr>) (take (n + 1) cp) revs @ drop (n + 1) cp)) = map pfd_fd (take n cp)"
  using assms by (intro nth_equalityI) (auto simp: nth_append)

lemma fd_poll_ok:
  assumes ok: "master_ok m" and p: "fd_poll ans (snapshot m) = Some (m1, r)"
  shows "master_ok m1" "r \<noteq> None \<Longrightarrow> answered_ok m1"
proof -
  obtain xs where xs: "sched_ok {#} (snapshot m) xs" "polls_ok (snapshot m)" using snapshot_ok [OF ok] by (auto simp: master_ok_def)
  define n where "n = tm_pfdcount m"
  define cp where "cp = (tm_copy (snapshot m))[n := \<lparr>pfd_fd = tm_io_pipe m, pfd_events = POLLIN, pfd_revents = 0\<rparr>]"
  have sh: "length (tm_copy (snapshot m)) = tm_pfdsize m" "length (tm_pfds m) = tm_pfdsize m" "n + 1 < tm_pfdsize m"
    using sched_shape [OF xs(1)] p by (auto simp: snapshot_def n_def fd_poll_def c_assert_def split: if_splits)
  have len: "length cp = tm_pfdsize m" "take n cp = take n (tm_pfds m)"
    using sh by (simp_all add: cp_def snapshot_def n_def)
  have fin: "master_ok (snapshot m\<lparr>tm_copy := c\<rparr>)" if "length c = tm_pfdsize m" for c
  proof -
    have "sched_ok {#} (snapshot m\<lparr>tm_copy := c, tm_copycount := n\<rparr>) xs"
      using that sh by (intro sched_copy [OF xs(1)]) (simp_all add: snapshot_def)
    moreover have "snapshot m\<lparr>tm_copy := c, tm_copycount := n\<rparr> = snapshot m\<lparr>tm_copy := c\<rparr>" by (simp add: snapshot_def n_def)
    ultimately show ?thesis using xs(2) by (auto simp: master_ok_def polls_ok_def)
  qed
  show "master_ok m1" "r \<noteq> None \<Longrightarrow> answered_ok m1"
  proof (atomize (full), cases ans)
    case (Poll_error b)
    then have "m1 = snapshot m\<lparr>tm_copy := cp\<rparr>" "r = None"
      using p sh by (auto simp: fd_poll_def wr_Some cp_def n_def snapshot_def)
    then show "master_ok m1 \<and> (r \<noteq> None \<longrightarrow> answered_ok m1)" using fin len by simp
  next
    case (Poll_num num revs)
    define c where "c = map2 (\<lambda>p r. p\<lparr>pfd_revents := r\<rparr>) (take (n + 1) cp) revs @ drop (n + 1) cp"
    have l: "length revs = n + 1"
      using p sh Poll_num by (auto simp: fd_poll_def wr_Some cp_def n_def snapshot_def c_assert_def split: if_splits)
    then have m1: "m1 = snapshot m\<lparr>tm_copy := c\<rparr>"
      using p sh Poll_num by (simp add: fd_poll_def wr_Some cp_def n_def snapshot_def c_def)
    have lc: "length c = tm_pfdsize m" using l len sh by (simp add: c_def)
    have "map pfd_fd (take n c) = map pfd_fd (take n cp)" unfolding c_def by (rule answered_fds) (use l len sh in simp_all)
    then have "map pfd_fd (polled m1) = polled_fds m" using len by (simp add: m1 snapshot_def n_def)
    moreover have "fds_ok (tm_fd_limit m) (polled_fds m)" using ok by (simp add: master_ok_def polls_ok_def)
    ultimately have "fds_ok (tm_fd_limit m) (map pfd_fd (polled m1))" by simp
    moreover have "tm_copycount m1 = tm_pfdcount m1" "tm_fd_limit m1 = tm_fd_limit m" by (simp_all add: m1 snapshot_def)
    ultimately have "answered_ok m1" by (simp add: answered_ok_def polled_ok_def fds_ok_def)
    then show "master_ok m1 \<and> (r \<noteq> None \<longrightarrow> answered_ok m1)" using fin [OF lc] m1 by simp
  qed
qed

lemma fd_poll_frame:
  assumes "fd_poll ans m = Some (m1, r)"
  shows "static m1 = static m" "tm_ready m1 = tm_ready m" "tm_timer m1 = tm_timer m" "(r = None) = (\<exists>b. ans = Poll_error b)"
proof -
  obtain cp where "m1 = m\<lparr>tm_copy := cp\<rparr>" "(r = None) = (\<exists>b. ans = Poll_error b)"
    using assms by (cases ans) (auto simp: fd_poll_def bind_Some_iff Let_def)
  then show "static m1 = static m" "tm_ready m1 = tm_ready m" "tm_timer m1 = tm_timer m" "(r = None) = (\<exists>b. ans = Poll_error b)"
    by simp_all
qed

lemma after_poll_ok:
  assumes ok: "master_ok m" "answered_ok m"
  obtains m' q where "after_poll e num m = Some m'" "master_ok m'" "static m' = static m" "tm_ready m' = tm_ready m @ q"
proof -
  obtain xs where xs: "sched_ok {#} m xs" "polls_ok m" using ok(1) by (auto simp: master_ok_def)
  have "length xs = pq_size (tm_timer m)" using timers_size [of m xs] xs(1) by (simp add: sched_ok_def)
  then obtain m1 ys ps where m1: "thread_process_timers (fe_now e) m = Some m1" "sched_ok {#} m1 ys"
    "timers_posted (fe_now e) m xs m1 ys ps"
    using process_timers_loop_spec [OF xs(1)] by (metis thread_process_timers_def)
  have st: "static m1 = static m" "tm_ready m1 = tm_ready m @ map fst ps"
    using process_timers_static m1(1,3) unfolding thread_process_timers_def by (blast, simp add: timers_posted_def)
  have p: "same_polls m m1" using process_timers_polls m1(1) unfolding thread_process_timers_def by blast
  have pok: "polled_ok m1" "distinct (map pfd_fd (drop 0 (polled m1)))" "polls_ok m1"
    using ok(2) p same_polls_ok [OF p] xs(2) by (auto simp: answered_ok_def polled_ok_def same_polls_def)
  show thesis
  proof (cases "num > 0")
    case False
    then show thesis using m1 pok st by (intro that [of m1]) (auto simp: after_poll_def master_ok_def)
  next
    case True
    obtain m' where m': "process_io_loop (tm_copycount m1) 0 num m1 = Some m'" "sched_ok {#} m' ys" "io_done 0 num m1 m'"
      using process_io_loop_spec [OF m1(2) pok(1,2), of "tm_copycount m1" num] by auto
    show thesis
      by (rule that [of m'])
         (use True m1 m' st process_io_polls [OF m'(1) pok(3)] in \<open>auto simp: after_poll_def thread_process_io_def master_ok_def io_done_def\<close>)
  qed
qed

lemma cancel_ok:
  assumes "master_ok m" "thread_cancel m t = Some m'" "tm_mem m t \<noteq> None" "t \<notin> set (tm_unuse m)" "tm_cancel_req m = []"
  shows "master_ok m'"
proof -
  obtain xs th where xs: "sched_ok {#} m xs" "polls_ok m" "tm_mem m t = Some th" using assms by (auto simp: master_ok_def)
  obtain m2 ys where m2: "thread_cancel m t = Some m2" "sched_ok {#} m2 ys"
    by (rule thread_cancel_spec [OF xs(1,3) assms(4,5)])
  obtain v m1 where v: "cancel_thread (Some t) (fresh_vars, m\<lparr>tm_cancel_req := [Cancel_thread t]\<rparr>) = Some (v, m1)"
    "m' = m1\<lparr>tm_cancel_req := [], tm_canceled := True\<rparr>"
    using assms(2,5) by (auto simp: thread_cancel_def do_thread_cancel_def cancel_one_def bind_Some_iff)
  have "polls_ok m1" using cancel_thread_polls [OF v(1)] xs(2) by (simp add: polls_ok_def)
  then show ?thesis using v(2) m2 assms(2) by (auto simp: master_ok_def polls_ok_def)
qed

lemma cancel_event_ok:
  assumes "master_ok m"
  obtains m1 where "cancel_event obj m = Some m1" "master_ok m1"
    "tm_ready m1 = filter (\<lambda>t. \<not> has_arg m obj t) (tm_ready m)" "tm_event m1 = filter (\<lambda>t. \<not> has_arg m obj t) (tm_event m)"
proof -
  obtain xs where xs: "sched_ok {#} m xs" "polls_ok m" using assms by (auto simp: master_ok_def)
  obtain m1 where m1: "cancel_event obj m = Some m1" "sched_ok {#} m1 xs"
    "tm_event m1 = filter (\<lambda>t. \<not> has_arg m obj t) (tm_event m)" "tm_ready m1 = filter (\<lambda>t. \<not> has_arg m obj t) (tm_ready m)"
    by (rule cancel_event_spec [OF xs(1), of obj])
  have "polls_ok m1" using same_polls_ok [OF cancel_event_polls [OF m1(1)]] xs(2) by simp
  then show thesis using that m1 by (auto simp: master_ok_def)
qed

lemma master_ok_req [simp]:
  "master_ok (m\<lparr>tm_cancel_req := c\<rparr>) = master_ok m" "master_ok (m\<lparr>tm_cancel_req := c, tm_canceled := b\<rparr>) = master_ok m"
  by (simp_all add: master_ok_def polls_ok_def)

lemma post_ok:
  assumes "master_ok m"
  obtains m' where "thread_process_event m = Some m'" "master_ok m'" "tm_ready m' = tm_ready m @ tm_event m" "same_polls m m'"
    "tm_timer m' = tm_timer m"
proof -
  obtain xs where xs: "sched_ok {#} m xs" "polls_ok m" using assms by (auto simp: master_ok_def)
  obtain m' where m': "thread_process_event m = Some m'" "sched_ok {#} m' xs" "tm_ready m' = tm_ready m @ tm_event m" "tm_timer m' = tm_timer m"
    using process_event_loop [OF xs(1) refl] by (auto simp: thread_process_event_def)
  have p: "same_polls m m'"
    using fold_opt_polls [of make_ready "tm_event m" "m\<lparr>tm_event := []\<rparr>" m'] make_ready_polls m'(1)
    by (auto simp: thread_process_event_def same_polls_def)
  show thesis using that m' p same_polls_ok [OF p] xs(2) by (auto simp: master_ok_def)
qed

lemma run_ok:
  assumes "master_ok m" "tm_ready m = t # ts"
  obtains th m' where "tm_mem m t = Some th" "thread_run (m\<lparr>tm_ready := ts\<rparr>) t = Some (th, m')" "master_ok (clear_ref th m')"
    "tm_ready m' = ts" "released t th m (clear_ref th m')" "same_polls m m'"
proof -
  obtain xs where xs: "sched_ok {#} m xs" "polls_ok m" using assms by (auto simp: master_ok_def)
  obtain th where th: "tm_mem m t = Some th" using queued_in_memory [OF xs(1), of t] assms(2) by auto
  obtain m' where m': "thread_run (m\<lparr>tm_ready := ts\<rparr>) t = Some (th, m')" "sched_ok {#} (clear_ref th m') xs" "tm_ready m' = ts"
    "released t th m (clear_ref th m')"
    by (rule run_spec [OF xs(1) assms(2) th])
  have "thread_add_unuse (m\<lparr>tm_ready := ts\<rparr>) t = Some m'" using m'(1) by (auto simp: thread_run_def bind_Some_iff)
  then have p: "same_polls m m'" by (rule same_polls_trans [OF same_polls_upd(2) thread_add_unuse_polls])
  have "polls_ok (clear_ref th m')" using same_polls_ok [OF p] xs(2) by (simp add: polls_ok_def)
  then show thesis using that [OF th m'(1) _ m'(3,4) p] m'(2) by (auto simp: master_ok_def)
qed

lemma polled_more: "answered_ok m \<Longrightarrow> more_polls m m' \<Longrightarrow> answered_ok m'"
  by (simp add: answered_ok_def polled_ok_def more_polls_def)

lemma loop_step_ok: "loop_step m m' \<Longrightarrow> master_ok m \<Longrightarrow> master_ok m'"
proof (induction rule: loop_step.induct)
  case (add m m')
  then show ?case using add_step_ok by blast
next
  case (cancel m t m')
  then show ?case using cancel_ok by blast
next
  case (cancel_ev m obj m')
  obtain m1 where "cancel_event obj (m\<lparr>tm_cancel_req := [Cancel_event obj]\<rparr>) = Some m1" "master_ok m1"
    by (rule cancel_event_ok [of "m\<lparr>tm_cancel_req := [Cancel_event obj]\<rparr>" obj]) (use cancel_ev in simp_all)
  then show ?case using cancel_ev by (auto simp: thread_cancel_event_def do_thread_cancel_def cancel_one_def)
next
  case (post m m')
  then show ?case using post_ok by (metis option.inject)
next
  case (poll ans m m1 num m2 e m')
  have "master_ok m1" "answered_ok m1" using fd_poll_ok [OF poll(4,1)] by simp_all
  then have "master_ok m2" "answered_ok m2" using add_steps_ok [OF poll(2)] polled_more by blast+
  then show ?case using after_poll_ok poll(3) by (metis option.inject)
next
  case (run m t ts th m')
  then show ?case using run_ok by (metis option.inject prod.inject)
qed

section \<open>A round of \<open>thread_fetch\<close>\<close>

text \<open>What is pending when a round starts: nothing, or one request to cancel the events with an argument.\<close>

definition calm :: "('f, 'a) master \<Rightarrow> bool" where
  "calm m \<longleftrightarrow> tm_cancel_req m = [] \<or> (\<exists>obj. tm_cancel_req m = [Cancel_event obj])"

abbreviation after_signals :: "('f, 'a) fetch_env \<Rightarrow> ('f, 'a) master \<Rightarrow> ('f, 'a) master" where
  "after_signals e m \<equiv> (if tm_handle_signals m then fe_signals e m else m)"

lemma cancel_none: "tm_cancel_req m = [] \<Longrightarrow> do_thread_cancel m = Some (m\<lparr>tm_cancel_req := [], tm_canceled := True\<rparr>)"
  by (simp add: do_thread_cancel_def)

lemma calm_cancel:
  assumes "master_ok m" "calm m"
  obtains m1 where "do_thread_cancel m = Some m1" "master_ok m1" "tm_pfdcount m1 = tm_pfdcount m" "tm_pfdsize m1 = tm_pfdsize m"
proof (cases "tm_cancel_req m = []")
  case True
  then show thesis using assms cancel_none [OF True] by (intro that [of "m\<lparr>tm_cancel_req := [], tm_canceled := True\<rparr>"]) simp_all
next
  case False
  then obtain obj where o: "tm_cancel_req m = [Cancel_event obj]" using assms by (auto simp: calm_def)
  obtain m1 where m1: "cancel_event obj m = Some m1" "master_ok m1" by (rule cancel_event_ok [OF assms(1), of obj])
  show thesis
    by (rule that [of "m1\<lparr>tm_cancel_req := [], tm_canceled := True\<rparr>"])
       (use o m1 cancel_event_polls [OF m1(1)] in \<open>simp_all add: do_thread_cancel_def cancel_one_def same_polls_def\<close>)
qed

lemma choose_wait_total:
  assumes "master_ok m"
  obtains tw where "choose_wait now m = Some tw"
proof -
  obtain xs where "sched_ok {#} m xs" using assms by (auto simp: master_ok_def)
  then have t: "timers_ok m xs" by (simp add: sched_ok_def)
  have "thread_timer_wait now m \<noteq> None"
  proof (cases "pq_size (tm_timer m) = 0")
    case False
    then have "0 < length xs" using timers_size [OF t] by simp
    then show ?thesis using timer_index(2) [OF t] False by (simp add: thread_timer_wait_def)
  qed (simp add: thread_timer_wait_def)
  then show thesis using that by (cases "tm_ready m = []") (auto simp: choose_wait_def)
qed

lemma fetch_polls:
  assumes "do_thread_cancel (after_signals e m) = Some m1" "tm_ready m1 = []" "thread_process_event m1 = Some m2"
    "choose_wait (fe_clock e) m2 = Some tw" "\<not> (tw = None \<and> tm_pfdcount m2 = 0)" "master_ok m2"
    "fd_poll (fe_poll e) (snapshot m2) = Some (m4, res)"
  shows "thread_fetch (e # es) m =
    (case res of
       None \<Rightarrow> (if fe_poll e = Poll_error True
                then if tm_spin (fe_others e m4) then thread_fetch es (fe_others e m4) else Some (Fetch_unset, fe_others e m4)
                else Some (Fetch_null, fe_others e m4))
     | Some num \<Rightarrow> do { m6 \<leftarrow> after_poll e num (fe_others e m4); if tm_spin m6 then thread_fetch es m6 else Some (Fetch_unset, m6) })"
proof -
  obtain xs where "sched_ok {#} m2 xs" using assms(6) by (auto simp: master_ok_def)
  then have "c_assert (tm_pfdcount m2 \<le> length (tm_pfds m2) \<and> tm_pfdcount m2 \<le> length (tm_copy m2)) = Some ()"
    using sched_shape by (fastforce simp: c_assert_def)
  moreover have "(tw = None \<and> tm_pfdcount m2 = 0) = False" using assms(5) by blast
  ultimately show ?thesis
    using assms(1-4,7) by (simp only: thread_fetch.simps bind.bind_lunit list.case prod.case if_False Let_def)
qed

lemma fd_poll_total:
  assumes "master_ok m" "tm_pfdcount m + 1 < tm_pfdsize m" "\<And>num revs. ans = Poll_num num revs \<Longrightarrow> length revs = tm_pfdcount m + 1"
  obtains m1 r where "fd_poll ans (snapshot m) = Some (m1, r)"
proof -
  obtain xs where xs: "sched_ok {#} (snapshot m) xs" using snapshot_ok [OF assms(1)] by (auto simp: master_ok_def)
  have n: "tm_copycount (snapshot m) = tm_pfdcount m" "tm_pfdsize (snapshot m) = tm_pfdsize m" by (simp_all add: snapshot_def)
  moreover from this have "tm_copycount (snapshot m) < length (tm_copy (snapshot m))" using sched_shape(2) [OF xs] assms(2) by simp
  ultimately show thesis using assms(2,3) that by (cases ans) (auto simp: fd_poll_def wr_Some)
qed

lemma fetch_ready:
  assumes ok: "master_ok m" "\<not> tm_handle_signals m" "tm_cancel_req m = []" and r: "tm_ready m = t # ts"
  obtains th m' where "tm_mem m t = Some th" "thread_fetch (e # es) m = Some (Fetched th, m')" "master_ok m'" "tm_ready m' = ts"
    "released t th (m\<lparr>tm_cancel_req := [], tm_canceled := True\<rparr>) m'"
proof -
  let ?m = "m\<lparr>tm_cancel_req := [], tm_canceled := True\<rparr>"
  have "master_ok ?m" "tm_ready ?m = t # ts" using ok r by simp_all
  then obtain th m' where m': "tm_mem ?m t = Some th" "thread_run (?m\<lparr>tm_ready := ts\<rparr>) t = Some (th, m')" "master_ok (clear_ref th m')"
    "tm_ready m' = ts" "released t th ?m (clear_ref th m')"
    by (rule run_ok)
  have "thread_fetch (e # es) m = Some (Fetched th, clear_ref th m')"
    using ok r m'(2) by (simp add: cancel_none)
  then show thesis using m' by (intro that) simp_all
qed

text \<open>A normalised time; the remaining time of a timer in microseconds orders the timers.\<close>

definition normal :: "timeval \<Rightarrow> bool" where
  "normal tv \<longleftrightarrow> 0 \<le> tv_usec tv \<and> tv_usec tv < 1000000"

lemma normal_until:
  "monotime_until now tv = (tv_sec tv - tv_sec now) * 1000000 + (tv_usec tv - tv_usec now)"
  by (simp add: monotime_until_def timersub_def Let_def)

lemma timer_less_until:
  "normal a \<Longrightarrow> normal b \<Longrightarrow> timer_less a b \<longleftrightarrow> monotime_until now a < monotime_until now b"
  by (auto simp: normal_until timer_less_def normal_def)

lemma timersub_normal: "normal a \<Longrightarrow> normal b \<Longrightarrow> normal (timersub a b)"
  by (auto simp: timersub_def normal_def Let_def)

lemma sint_small: "0 \<le> n \<Longrightarrow> n < 2 ^ 31 \<Longrightarrow> sint (word_of_int n :: 32 word) = n"
  by (simp add: sint_sbintrunc' signed_take_bit_int_eq_self)

text \<open>What freeing a list of threads leaves.\<close>

definition freed :: "nat list \<Rightarrow> ('f, 'a) master \<Rightarrow> ('f, 'a) master" where
  "freed ts m = m\<lparr>tm_alloc := tm_alloc m - length ts, tm_mem := (\<lambda>t. if t \<in> set ts then None else tm_mem m t)\<rparr>"

lemma list_free_eq:
  "distinct ts \<Longrightarrow> \<forall>t \<in> set ts. tm_mem m t \<noteq> None \<Longrightarrow> length ts \<le> tm_alloc m \<Longrightarrow> thread_list_free ts m = Some (freed ts m)"
proof (induction ts arbitrary: m)
  case Nil
  then show ?case by (simp add: thread_list_free_def freed_def)
next
  case (Cons t ts)
  let ?m = "m\<lparr>tm_alloc := tm_alloc m - 1, tm_mem := (tm_mem m)(t := None)\<rparr>"
  have "thread_free m t = Some ?m" using Cons.prems by (simp add: thread_free_def)
  moreover have "thread_list_free ts ?m = Some (freed ts ?m)" using Cons.prems by (intro Cons.IH) auto
  moreover have "freed ts ?m = freed (t # ts) m" using Cons.prems by (auto simp: freed_def fun_eq_iff)
  ultimately show ?case by (simp add: thread_list_free_def)
qed

lemma array_free_eq: "thread_array_free a m = thread_list_free (entries a) m"
  unfolding thread_array_free_def thread_list_free_def
proof (induction a arbitrary: m)
  case (Cons p a)
  then show ?case by (cases p; cases "thread_free m (the p)") (simp_all add: entries_def)
qed (simp add: entries_def)

lemma thread_list_free_append: "thread_list_free (xs @ ys) = (\<lambda>m. Option.bind (thread_list_free xs m) (thread_list_free ys))"
proof
  fix m show "thread_list_free (xs @ ys) m = Option.bind (thread_list_free xs m) (thread_list_free ys)"
    by (cases "thread_list_free xs m") (simp_all add: thread_list_free_def fold_opt_append)
qed

lemma queue_free_eq:
  assumes "timers_ok m xs"
  shows "thread_queue_free (tm_timer m) s = thread_list_free (map fst xs) s"
proof -
  have "fold_opt (\<lambda>i s. do { node \<leftarrow> pq_node (pq_array (tm_timer m)) i; thread_free s (fst node) }) is s
      = fold_opt (\<lambda>t s. thread_free s t) (map (\<lambda>i. fst (xs ! i)) is) s" if "\<forall>i \<in> set is. i < length xs" for "is"
    using that
  proof (induction "is" arbitrary: s)
    case (Cons i "is")
    then show ?case using timer_index(2) [OF assms, of i] by (cases "thread_free s (fst (xs ! i))") auto
  qed simp
  moreover have "map (\<lambda>i. fst (xs ! i)) [0..<length xs] = map fst xs" by (intro nth_equalityI) auto
  ultimately show ?thesis using timers_size [OF assms] by (simp add: thread_queue_free_def thread_list_free_def)
qed

section \<open>Example states\<close>

definition ex_start :: "(nat, nat) master" where
  "ex_start = (thread_master_create 4 9)\<lparr>tm_handle_signals := False\<rparr>"

definition ex_event :: "(nat, nat) master" where
  "ex_event = fst (the (funcname_thread_add_event ex_start 0 (Some 7) 5 (Some 1)))"

definition ex_timer :: "(nat, nat) master" where
  "ex_timer = fst (the (funcname_thread_add_timer_timeval zero_time ex_start 0 None \<lparr>tv_sec = 5, tv_usec = 0\<rparr> (Some 0)))"

definition ex_read :: "(nat, nat) master" where
  "ex_read = fst (the (funcname_thread_add_read_write THREAD_READ ex_start 0 None 2 None))"

definition ex_env :: "(nat, nat) fetch_env" where
  "ex_env = \<lparr>fe_signals = id, fe_clock = zero_time, fe_others = id, fe_poll = Poll_num 0 [0], fe_now = zero_time\<rparr>"

lemma sched_signals [simp]: "sched_ok L (m\<lparr>tm_handle_signals := b\<rparr>) xs = sched_ok L m xs"
  by (simp add: sched_ok_def counts_ok_def placed_def homes_ok_def thread_is_def thread_has_def hists_ok_def
      refs_ok_def shape_ok_def timers_ok_def)

lemma ex_start_ok: "sched_ok {#} ex_start []" "master_ok ex_start"
proof -
  show "sched_ok {#} ex_start []" by (simp add: ex_start_def sched_ok_create)
  then show "master_ok ex_start" by (rule master_okI) (simp add: polls_ok_def fds_ok_def ex_start_def thread_master_create_def)
qed

lemma the_fst: "f = Some (a, b) \<Longrightarrow> f = Some (fst (the f), b)"
  by simp

lemma ex_event_ok: "master_ok ex_event" "tm_event ex_event = [0]" "tm_mem ex_event 0 \<noteq> None" "tm_ready ex_event = []"
  "tm_spin ex_event" "\<not> tm_handle_signals ex_event" "tm_cancel_req ex_event = []" "tm_pfdcount ex_event = 0" "tm_pfdsize ex_event = 4"
proof -
  have "\<not> is_scheduled ex_start (Some 1)" by (simp add: is_scheduled_def ex_start_def thread_master_create_def)
  then obtain m t where "funcname_thread_add_event ex_start 0 (Some 7) 5 (Some 1) = Some (m, Some t)"
    by (rule add_event_spec [OF ex_start_ok(1)])
  from the_fst [OF this] have "add_step ex_start ex_event" unfolding ex_event_def by (rule add_step.event)
  then show "master_ok ex_event" using add_step_ok ex_start_ok(2) by blast
  show "tm_event ex_event = [0]" "tm_ready ex_event = []"  "tm_spin ex_event" "\<not> tm_handle_signals ex_event"
    "tm_cancel_req ex_event = []" "tm_pfdcount ex_event = 0" "tm_pfdsize ex_event = 4"
    by code_simp+
  have "(tm_mem ex_event 0 = None) = False" by code_simp
  then show "tm_mem ex_event 0 \<noteq> None" by simp
qed


abbreviation five :: timeval where
  "five \<equiv> \<lparr>tv_sec = 5, tv_usec = 0\<rparr>"

lemma ex_timer_ok: "sched_ok {#} ex_timer [(0, five)]" "tm_ready ex_timer = []" "tm_selectpoll_timeout ex_timer = 0"
  "tm_cancel_req ex_timer = []" "tm_refs ex_timer 0 = Some 0" "tm_refs ex_timer 1 = None"
proof -
  let ?add = "funcname_thread_add_timer_timeval zero_time ex_start 0 None five (Some 0)"
  have f: "\<not> is_scheduled ex_start (Some 0)" by (simp add: is_scheduled_def ex_start_def thread_master_create_def)
  have r: "2 * pq_array_size (tm_timer ex_start) \<le> INT_MAX"
    by (simp add: ex_start_def thread_master_create_def pqueue_create_def INT_MAX_def PQUEUE_INIT_ARRAYSIZE_def)
  obtain m t ys where a: "?add = Some (m, Some t)" "sched_ok {#} m ys" "mset ys = add_mset (t, timeradd zero_time five) (mset [])"
    by (rule add_timer_spec [OF ex_start_ok(1) f r])
  have "snd (the ?add) = Some 0" by code_simp
  then have "t = 0" using a(1) by simp
  moreover have "timeradd zero_time five = five" by code_simp
  ultimately have "ys = [(0, five)]" using a(3) by simp
  then show "sched_ok {#} ex_timer [(0, five)]" using a(1,2) by (simp add: ex_timer_def)
  show "tm_ready ex_timer = []" "tm_selectpoll_timeout ex_timer = 0" "tm_cancel_req ex_timer = []" "tm_refs ex_timer 0 = Some 0"
    "tm_refs ex_timer 1 = None"
    by code_simp+
qed

definition ex_both :: "(nat, nat) master" where
  "ex_both = fst (the (funcname_thread_add_event ex_timer 0 (Some 7) 5 (Some 1)))"

lemma ex_both_ok: "sched_ok {#} ex_both [(0, five)]" "tm_cancel_req ex_both = []" "tm_refs ex_both 0 = Some 0"
  "tm_refs ex_both 1 = Some 1" "tm_event ex_both = [1]" "map_option th_u (tm_mem ex_both 1) = Some (U_val 5)"
proof -
  have "\<not> is_scheduled ex_timer (Some 1)" using ex_timer_ok(6) by (simp add: is_scheduled_def)
  then obtain m t where "funcname_thread_add_event ex_timer 0 (Some 7) 5 (Some 1) = Some (m, Some t)" "sched_ok {#} m [(0, five)]"
    by (rule add_event_spec [OF ex_timer_ok(1)])
  then show "sched_ok {#} ex_both [(0, five)]" by (simp add: ex_both_def)
  show "tm_cancel_req ex_both = []" "tm_refs ex_both 0 = Some 0" "tm_refs ex_both 1 = Some 1" "tm_event ex_both = [1]"
    "map_option th_u (tm_mem ex_both 1) = Some (U_val 5)"
    by code_simp+
qed

definition ex_polled :: "(nat, nat) master" where
  "ex_polled = fst (the (fd_poll (Poll_num 1 [POLLIN, 0]) (snapshot ex_read)))"

lemma ex_read_ok: "sched_ok {#} ex_read []" "polls_ok ex_read"
proof -
  let ?add = "funcname_thread_add_read_write THREAD_READ ex_start 0 None 2 None"
  have f: "\<not> is_scheduled ex_start None" by (simp add: is_scheduled_def)
  have r: "(2::nat) < tm_fd_limit ex_start" "pfd_slot ex_start (int 2) + 1 < tm_pfdsize ex_start"
    "THREAD_READ = THREAD_READ \<and> tm_read ex_start ! 2 = None \<or> THREAD_READ = THREAD_WRITE \<and> tm_write ex_start ! 2 = None"
    by code_simp+
  obtain m t where a: "funcname_thread_add_read_write THREAD_READ ex_start 0 None (int 2) None = Some (m, Some t)"
    by (rule add_rw_spec [OF ex_start_ok(1) f r, of 0 None])
  then have "?add = Some (ex_read, Some t)" using the_fst [of ?add m "Some t"] by (simp add: ex_read_def)
  then have "sched_ok {#} ex_read [] \<and> polls_ok ex_read \<and> more_polls ex_start ex_read"
    using ex_start_ok r(3) by (intro add_rw_ok [OF ex_start_ok(1)]) (auto simp: master_ok_def)
  then show "sched_ok {#} ex_read []" "polls_ok ex_read" by simp_all
qed

lemma ex_polled_ok: "\<exists>xs. sched_ok {#} ex_polled xs" "tm_copycount ex_polled \<le> tm_pfdcount ex_polled"
  "distinct (map pfd_fd (polled ex_polled))" "\<forall>p \<in> set (polled ex_polled). 0 \<le> pfd_fd p \<and> pfd_fd p < int (tm_fd_limit ex_polled)"
proof -
  show "tm_copycount ex_polled \<le> tm_pfdcount ex_polled" "distinct (map pfd_fd (polled ex_polled))"
    "\<forall>p \<in> set (polled ex_polled). 0 \<le> pfd_fd p \<and> pfd_fd p < int (tm_fd_limit ex_polled)"
    by code_simp+
  have n: "tm_pfdcount ex_read = 1" "tm_pfdsize ex_read = 4" by code_simp+
  have ok: "master_ok ex_read" by (rule master_okI [OF ex_read_ok])
  obtain m1 r where "fd_poll (Poll_num 1 [POLLIN, 0]) (snapshot ex_read) = Some (m1, r)"
    by (rule fd_poll_total [OF ok, of "Poll_num 1 [POLLIN, 0]"]) (use n in auto)
  then show "\<exists>xs. sched_ok {#} ex_polled xs" using fd_poll_ok(1) [OF ok] by (force simp: ex_polled_def master_ok_def)
qed

definition ex_ready :: "(nat, nat) master" where
  "ex_ready = the (thread_process_event ex_event)"

section \<open>Properties\<close>









text \<open>
  C4: \<open>thread_process_timers\<close> posts exactly the timers that have expired, in the order of their expiry, at
  the tail of the ready list; those that stay in the queue have not expired, and nothing else moves.
\<close>

theorem thread_process_timers_exact:
  assumes "sched_ok {#} m xs"
  shows "\<exists>m' ys ps. thread_process_timers now m = Some m' \<and> sched_ok {#} m' ys
    \<and> mset xs = mset ys + mset ps \<and> tm_ready m' = tm_ready m @ map fst ps
    \<and> sorted_wrt (\<lambda>p q. \<not> timer_less (snd q) (snd p)) ps
    \<and> (\<forall>p \<in> set ps. \<not> timer_less now (snd p)) \<and> (\<forall>y \<in> set ys. timer_less now (snd y))
    \<and> tm_event m' = tm_event m \<and> tm_read m' = tm_read m \<and> tm_write m' = tm_write m"
proof -
  have "length xs = pq_size (tm_timer m)" using timers_size [of m xs] assms by (simp add: sched_ok_def)
  then show ?thesis
    using process_timers_loop_spec [OF assms, of _ now] unfolding thread_process_timers_def timers_posted_def by metis
qed

theorem thread_process_timers_exact_witness:
  "\<exists>m' ys ps. thread_process_timers five ex_timer = Some m' \<and> mset [(0, five)] = mset ys + mset ps
    \<and> tm_ready m' = tm_ready ex_timer @ map fst ps \<and> (\<forall>y \<in> set ys. timer_less five (snd y))"
  using thread_process_timers_exact [OF ex_timer_ok(1), of five] by blast

text \<open>
  C5: \<open>thread_process_io\<close>, which removes invalid descriptors from two arrays while it walks over one of
  them, posts the same threads as one pass over the polled entries: for each of the first \<open>num\<close> entries
  with events the descriptor's read task, then its write task. It always returns.
\<close>

theorem thread_process_io_posts:
  assumes "sched_ok {#} m xs" "tm_copycount m \<le> tm_pfdcount m" "distinct (map pfd_fd (polled m))"
    "\<forall>p \<in> set (polled m). 0 \<le> pfd_fd p \<and> pfd_fd p < int (tm_fd_limit m)"
  shows "\<exists>m'. thread_process_io m num = Some m' \<and> sched_ok {#} m' xs
    \<and> tm_ready m' = tm_ready m @ io_posts (tm_read m) (tm_write m) num (polled m)
    \<and> tm_event m' = tm_event m \<and> tm_timer m' = tm_timer m"
proof -
  have "polled_ok m" using assms by (simp add: polled_ok_def)
  then show ?thesis
    using process_io_loop_spec [OF assms(1), of 0 "tm_copycount m" num] assms(3)
    by (auto simp: thread_process_io_def io_done_def)
qed

theorem thread_process_io_posts_witness:
  "\<exists>m'. thread_process_io ex_polled 1 = Some m' \<and> tm_ready m' = [0]"
proof -
  obtain xs where xs: "sched_ok {#} ex_polled xs" using ex_polled_ok(1) by blast
  have "tm_ready ex_polled @ io_posts (tm_read ex_polled) (tm_write ex_polled) 1 (polled ex_polled) = [0]" by code_simp
  then show ?thesis using thread_process_io_posts [OF xs ex_polled_ok(2-4), of 1] by auto
qed

text \<open>
  C6: \<open>thread_cancel\<close> takes a scheduled thread out of the queue or array it is in, and out of no other,
  clears the reference to it and leaves every other thread as it was.
\<close>

theorem thread_cancel_removes:
  assumes "sched_ok {#} m xs" "tm_mem m t = Some th" "t \<notin> set (tm_unuse m)" "tm_cancel_req m = []"
  shows "\<exists>m' ys. thread_cancel m t = Some m' \<and> sched_ok {#} m' ys
    \<and> tm_event m' = remove1 t (tm_event m) \<and> tm_ready m' = remove1 t (tm_ready m)
    \<and> mset ys = filter_mset (\<lambda>n. fst n \<noteq> t) (mset xs)
    \<and> tm_read m' = clear_slot t (tm_read m) \<and> tm_write m' = clear_slot t (tm_write m)
    \<and> (\<forall>u. u \<noteq> t \<longrightarrow> tm_mem m' u = tm_mem m u) \<and> (\<forall>r. th_ref th = Some r \<longrightarrow> tm_refs m' r = None)"
  by (rule thread_cancel_spec [OF assms])
     (auto simp: taken_out_def released_def drop_ref_def intro!: exI)

theorem thread_cancel_removes_witness:
  "\<exists>m' ys. thread_cancel ex_both 0 = Some m' \<and> sched_ok {#} m' ys \<and> mset ys = {#} \<and> tm_event m' = [1]
    \<and> tm_refs m' 0 = None"
proof -
  have "map_option th_ref (tm_mem ex_both 0) = Some (Some 0)" "tm_unuse ex_both = []" by code_simp+
  then obtain th where "tm_mem ex_both 0 = Some th" "th_ref th = Some 0" "0 \<notin> set (tm_unuse ex_both)" by auto
  then show ?thesis using thread_cancel_removes [OF ex_both_ok(1) _ _ ex_both_ok(2), of 0 th] ex_both_ok(5) by auto
qed

text \<open>
  C9: \<open>thread_cancel_event\<close> removes exactly the events, pending or ready, with the argument, keeps the order
  of the others and touches no timer and no descriptor.
\<close>

theorem thread_cancel_event_removes:
  assumes "sched_ok {#} m xs" "tm_cancel_req m = []"
  shows "\<exists>m'. thread_cancel_event m obj = Some m' \<and> sched_ok {#} m' xs
    \<and> tm_event m' = filter (\<lambda>t. \<not> has_arg m obj t) (tm_event m) \<and> tm_ready m' = filter (\<lambda>t. \<not> has_arg m obj t) (tm_ready m)
    \<and> tm_timer m' = tm_timer m \<and> tm_read m' = tm_read m \<and> tm_write m' = tm_write m"
proof -
  let ?m = "m\<lparr>tm_cancel_req := [Cancel_event obj]\<rparr>"
  have "sched_ok {#} ?m xs" using assms by simp
  then obtain m1 where "cancel_event obj ?m = Some m1" "sched_ok {#} m1 xs"
    "tm_event m1 = filter (\<lambda>t. \<not> has_arg ?m obj t) (tm_event ?m)" "tm_ready m1 = filter (\<lambda>t. \<not> has_arg ?m obj t) (tm_ready ?m)"
    "tm_timer m1 = tm_timer ?m" "tm_read m1 = tm_read ?m" "tm_write m1 = tm_write ?m"
    by (rule cancel_event_spec)
  moreover have "has_arg ?m obj = has_arg m obj" by (simp add: has_arg_def fun_eq_iff)
  ultimately show ?thesis
    using assms(2)
    by (intro exI [of _ "m1\<lparr>tm_cancel_req := [], tm_canceled := True\<rparr>"])
       (simp add: thread_cancel_event_def do_thread_cancel_def cancel_one_def)
qed

theorem thread_cancel_event_removes_witness:
  "\<exists>m'. thread_cancel_event ex_both 7 = Some m' \<and> tm_event m' = [] \<and> tm_timer m' = tm_timer ex_both"
proof -
  have "map_option th_arg (tm_mem ex_both 1) = Some (Some 7)" by code_simp
  then have "has_arg ex_both 7 1" by (auto simp: has_arg_def)
  then show ?thesis using thread_cancel_event_removes [OF ex_both_ok(1,2), of 7] ex_both_ok(5) by auto
qed

text \<open>
  C26: Two pending asynchronous cancellations, of a timer and then of an event, abort the loop: the variable
  \<open>queue\<close> still points to the timer queue when the second request is served, so the event thread is taken
  for a timer.
\<close>

theorem async_cancel_pair_aborts:
  assumes ok: "sched_ok {#} m xs" "tm_cancel_req m = []"
    and t1: "tm_refs m r1 = Some t1" "(t1, tv) \<in> set xs"
    and t2: "tm_refs m r2 = Some t2" "t2 \<in> set (tm_event m)" "tm_mem m t2 = Some th2" "th_u th2 = U_val v"
  shows "do_thread_cancel (thread_cancel_async (thread_cancel_async m (Cancel_ref r1)) (Cancel_ref r2)) = None"
proof -
  let ?m = "m\<lparr>tm_canceled := False, tm_cancel_req := [Cancel_ref r1, Cancel_ref r2]\<rparr>"
  have e: "thread_cancel_async (thread_cancel_async m (Cancel_ref r1)) (Cancel_ref r2) = ?m"
    using ok(2) by (simp add: thread_cancel_async_def)
  obtain th1 where th1: "tm_mem m t1 = Some th1" "th_type th1 = THREAD_TIMER"
    using ok(1) t1(2) by (auto simp: sched_ok_def homes_ok_def thread_has_def)
  have th2: "th_type th2 = THREAD_EVENT" using ok(1) t2(2,3) by (auto simp: sched_ok_def homes_ok_def thread_is_def)
  have ne: "t1 \<noteq> t2" using th1 th2 t2(3) by auto
  have okm: "sched_ok {#} ?m xs" using ok(1) sched_req(1) [where m = "m\<lparr>tm_canceled := False\<rparr>"] by simp
  have u1: "t1 \<notin> set (tm_unuse ?m)" using ok(1) th1 by (auto simp: sched_ok_def homes_ok_def)
  obtain v' m1 ys where c: "cancel_thread (Some t1) (fresh_vars, ?m) = Some (v', m1)" "released t1 th1 ?m m1"
    "th_type th1 = THREAD_TIMER \<longrightarrow> cv_queue v'"
    by (rule cancel_thread_spec [OF okm _ u1, of th1]) (use th1 in auto)
  have "th_ref th1 \<noteq> Some r2"
    using ok(1) th1 t2(1) ne by (auto simp: sched_ok_def refs_ok_def)
  then have "tm_refs m1 r2 = Some t2" "tm_mem m1 t2 = Some th2"
    using c(2) t2 ne by (auto simp: released_def drop_ref_def split: option.splits)
  then have "cancel_one (Cancel_ref r2) (v', m1) = None"
    using c(3) th1(2) th2 t2(4) by (simp add: cancel_one_def cancel_thread_def choose_queue_def remove_from_queue_def u_sands_def)
  then show ?thesis unfolding e using c(1) t1(1) by (simp add: do_thread_cancel_def cancel_one_def)
qed

theorem async_cancel_pair_aborts_witness:
  "do_thread_cancel (thread_cancel_async (thread_cancel_async ex_both (Cancel_ref 0)) (Cancel_ref 1)) = None"
proof -
  obtain th where "tm_mem ex_both 1 = Some th" "th_u th = U_val 5" using ex_both_ok(6) by auto
  then show ?thesis
    using async_cancel_pair_aborts [OF ex_both_ok(1,2,3) _ ex_both_ok(4), of five th 5] ex_both_ok(5) by simp
qed

text \<open>
  C8: The timeout handed to \<open>poll\<close> when nothing is ready is the time to the first timer, rounded down to
  milliseconds and zero if it has expired: the loop never sleeps past a timer, and wakes less than a
  millisecond before one. This needs the first timer to be less than 2147483648 milliseconds ahead.
\<close>

theorem poll_timeout_timers:
  assumes ok: "sched_ok {#} m xs" and m: "tm_ready m = []" "tm_selectpoll_timeout m = 0" "xs \<noteq> []"
    and nrm: "normal now" "\<forall>n \<in> set xs. normal (snd n)"
    and near: "\<exists>n \<in> set xs. monotime_until now (snd n) < 2 ^ 31 * 1000"
  shows "\<exists>tw. choose_wait now m = Some tw \<and> 0 \<le> poll_timeout m tw
    \<and> (\<forall>n \<in> set xs. poll_timeout m tw * 1000 \<le> max 0 (monotime_until now (snd n)))
    \<and> (\<exists>n \<in> set xs. monotime_until now (snd n) < (poll_timeout m tw + 1) * 1000)"
proof -
  have tok: "timers_ok m xs" using ok by (simp add: sched_ok_def)
  have l: "0 < length xs" "pq_size (tm_timer m) \<noteq> 0" using m(3) timers_size [OF tok] by simp_all
  obtain t tv where x0: "xs ! 0 = (t, tv)" by (cases "xs ! 0")
  have in0: "(t, tv) \<in> set xs" using x0 l nth_mem [of 0 xs] by simp
  define w where "w = timersub tv now"
  have w: "normal w" "tv_sec w * 1000000 + tv_usec w = monotime_until now tv"
    using nrm in0 timersub_normal [of tv now] by (auto simp: w_def monotime_until_def Let_def)
  have least: "monotime_until now tv \<le> monotime_until now (snd n)" if "n \<in> set xs" for n
    using first_timer_least [OF tok that] timer_less_until [of "snd n" tv now] nrm that in0 x0 by force
  have "thread_timer_wait now m = Some (Some w)" using timer_index(2) [OF tok l(1)] x0 l(2) by (simp add: thread_timer_wait_def w_def)
  then have cw: "choose_wait now m = Some (Some (if timer_less zero_time w then w else zero_time))"
    using m(1) by (simp add: choose_wait_def)
  show ?thesis
  proof (cases "timer_less zero_time w")
    case True
    then have pos: "0 \<le> tv_sec w" using w(1) by (auto simp: timer_less_def zero_time_def normal_def split: if_splits)
    let ?k = "tv_sec w * 1000 + tv_usec w div 1000"
    have k: "?k * 1000 \<le> monotime_until now tv" "monotime_until now tv < (?k + 1) * 1000" "0 \<le> ?k"
      using w pos by (auto simp: normal_def)
    have "?k * 1000 < 2 ^ 31 * 1000" using near least k(1) by force
    then have "poll_timeout m (Some w) = ?k" using m(2) k(3) by (simp add: poll_timeout_def sint_small del: of_int_add of_int_mult)
    then show ?thesis using cw True k least in0 by (force intro!: exI [of _ "Some w"])
  next
    case False
    then have "monotime_until now tv \<le> 0" using w by (auto simp: timer_less_def zero_time_def normal_def split: if_splits)
    moreover have "poll_timeout m (Some zero_time) = 0" using m(2) by (simp add: poll_timeout_def zero_time_def)
    ultimately show ?thesis using cw False in0 by (force intro!: exI [of _ "Some zero_time"])
  qed
qed

theorem poll_timeout_timers_witness:
  "\<exists>tw. choose_wait zero_time ex_timer = Some tw \<and> 0 \<le> poll_timeout ex_timer tw \<and> poll_timeout ex_timer tw \<le> 5000
     \<and> 5000 < poll_timeout ex_timer tw + 1"
proof -
  have "monotime_until zero_time five = 5000000" by code_simp
  then show ?thesis
    using poll_timeout_timers [OF ex_timer_ok(1,2,3), of zero_time]
    by (auto simp: normal_def zero_time_def)
qed

text \<open>A timer a little less than 25 days ahead makes the \<open>int\<close> timeout negative: \<open>poll\<close> then waits without limit.\<close>

lemma poll_timeout_wraps:
  "tm_selectpoll_timeout m = 0 \<Longrightarrow> poll_timeout m (Some \<lparr>tv_sec = 2147484, tv_usec = 0\<rparr>) = - 2147483296"
  by (simp add: poll_timeout_def)

text \<open>
  The check for room in the poll array is off by one: in a state with two free slots adding a read task
  for a new descriptor passes its assertion, and the assertion of the next \<open>fd_poll\<close> fails.
\<close>

theorem poll_array_full:
  assumes ok: "sched_ok {#} m xs" "\<not> is_scheduled m t_ptr" and fd: "fd < tm_fd_limit m" "tm_read m ! fd = None"
    and new: "find_pfd (tm_pfds m) (tm_pfdcount m) (int fd) = None" and full: "tm_pfdcount m + 2 = tm_pfdsize m"
  shows "\<exists>m' t. funcname_thread_add_read_write THREAD_READ m f arg (int fd) t_ptr = Some (m', Some t)
    \<and> (\<forall>ans. fd_poll ans (snapshot m') = None)"
proof -
  have s: "pfd_slot m (int fd) = tm_pfdcount m" using new by (simp add: pfd_slot_def)
  then have r: "pfd_slot m (int fd) + 1 < tm_pfdsize m" using full by simp
  obtain m' t where a: "funcname_thread_add_read_write THREAD_READ m f arg (int fd) t_ptr = Some (m', Some t)"
    "tm_pfdsize m' = tm_pfdsize m" "tm_pfdcount m' = tm_pfdcount m + 1"
    by (rule add_rw_spec [OF ok fd(1) r, of THREAD_READ f arg]) (use fd(2) s in simp_all)
  then have "fd_poll ans (snapshot m') = None" for ans using full by (simp add: fd_poll_def snapshot_def)
  then show ?thesis using a by blast
qed

text \<open>
  C10: Shutting down frees every thread exactly once: \<open>thread_master_free\<close> never frees a thread that is not
  allocated, and leaves none behind.
\<close>

theorem thread_master_free_all:
  assumes ok: "sched_ok {#} m xs"
  shows "\<exists>m'. thread_master_free m = Some m' \<and> tm_alloc m' = 0 \<and> (\<forall>t. tm_mem m' t = None)"
proof -
  define ts where "ts = entries (tm_read m) @ entries (tm_write m) @ map fst xs @ tm_event m @ tm_ready m @ tm_unuse m"
  have ms: "mset ts = placed m xs" by (simp add: ts_def placed_def)
  have c: "count (mset ts) t = (if tm_mem m t = None then 0 else 1)" "tm_alloc m = length ts" for t
    using ok ms by (simp_all add: sched_ok_def counts_ok_def flip: size_mset)
  have "distinct ts" by (rule distinct_countI) (simp add: c)
  moreover have mem: "t \<in> set ts \<longleftrightarrow> tm_mem m t \<noteq> None" for t
    using c(1) [of t] by (metis count_mset_0_iff zero_neq_one)
  ultimately have "thread_list_free ts m = Some (freed ts m)" using c(2) by (intro list_free_eq) auto
  moreover have "thread_master_free m = thread_list_free ts m"
    using ok by (simp add: ts_def thread_master_free_def array_free_eq thread_list_free_append sched_ok_def queue_free_eq [of m xs])
  moreover have "tm_mem (freed ts m) t = None" for t using mem [of t] by (auto simp: freed_def)
  ultimately show ?thesis using c(2) by (auto simp: freed_def)
qed

theorem thread_master_free_all_witness:
  "\<exists>m'. thread_master_free ex_both = Some m' \<and> tm_alloc m' = 0 \<and> (\<forall>t. tm_mem m' t = None)"
  by (rule thread_master_free_all [OF ex_both_ok(1)])

text \<open>
  A run that reuses a slot of the poll array: the events of the descriptor that had the slot before stay
  set, so descriptor 7 is polled for output although no write task was added for it.
\<close>

definition stale_run :: "(nat, nat) master option" where
  "stale_run = do {
     (m1, _) \<leftarrow> funcname_thread_add_read_write THREAD_READ (thread_master_create 8 9) 0 None 3 None;
     (m2, _) \<leftarrow> funcname_thread_add_read_write THREAD_WRITE m1 0 None 5 None;
     m3 \<leftarrow> thread_cancel m2 0;
     (m4, _) \<leftarrow> funcname_thread_add_read_write THREAD_READ m3 0 None 7 None;
     Some m4 }"

lemma stale_poll_events:
  "map_option (\<lambda>m. (pfd_fd (tm_pfds m ! 1), pfd_events (tm_pfds m ! 1), tm_write m ! 7)) stale_run
     = Some (7, POLLIN OR POLLOUT, None)"
  by code_simp

end
