(* ===== verification/Buffers.thy ===== *)
theory Buffers
  imports C_Prelude
begin

text \<open>
  The output buffers of \<open>buffer.c\<close>: a queue of byte chunks that is filled at the tail and written to a
  descriptor from the head. The list of chunks is the linked list from \<open>head\<close> to \<open>tail\<close>. The theory
  shows that no byte is lost, duplicated or reordered on the way from the writers to the descriptor.
\<close>

section \<open>Data\<close>

text \<open>\<open>bd_data\<close> are the first \<open>cp\<close> bytes of a chunk, those that have been written; \<open>bd_sp\<close> is its \<open>sp\<close>.\<close>

record buffer_data =
  bd_data :: "u8 list"
  bd_sp :: nat

record buffer =
  bf_list :: "buffer_data list"
  bf_size :: nat

abbreviation bd_cp :: "buffer_data \<Rightarrow> nat" where
  "bd_cp d \<equiv> length (bd_data d)"

definition unsent :: "buffer_data \<Rightarrow> u8 list" where
  "unsent d = drop (bd_sp d) (bd_data d)"

datatype buffer_status = BUFFER_ERROR | BUFFER_EMPTY | BUFFER_PENDING

definition BUFFER_SIZE_DEFAULT :: nat where "BUFFER_SIZE_DEFAULT = 4096"

section \<open>Operations\<close>

text \<open>\<open>pgsz\<close> is the page size of the system.\<close>

definition buffer_new :: "nat \<Rightarrow> nat \<Rightarrow> buffer" where
  "buffer_new pgsz sz =
     \<lparr>bf_list = [], bf_size = (if sz \<noteq> 0 then sz else ((BUFFER_SIZE_DEFAULT - 1) div pgsz + 1) * pgsz)\<rparr>"

definition buffer_getstr :: "buffer \<Rightarrow> u8 list" where
  "buffer_getstr b = concat (map unsent (bf_list b)) @ [0]"

definition buffer_empty :: "buffer \<Rightarrow> bool" where
  "buffer_empty b \<longleftrightarrow> bf_list b = []"

definition buffer_reset :: "buffer \<Rightarrow> buffer" where
  "buffer_reset b = b\<lparr>bf_list := []\<rparr>"

definition buffer_add :: "buffer \<Rightarrow> buffer" where
  "buffer_add b = b\<lparr>bf_list := bf_list b @ [\<lparr>bd_data = [], bd_sp = 0\<rparr>]\<rparr>"

definition tail_cp :: "buffer \<Rightarrow> nat" where
  "tail_cp b = bd_cp (last (bf_list b))"

text \<open>A new chunk, when there is none or the last one is full.\<close>

definition buffer_room :: "buffer \<Rightarrow> buffer" where
  "buffer_room b = (if bf_list b = [] \<or> tail_cp b = bf_size b then buffer_add b else b)"

text \<open>Copying bytes to the end of the last chunk, which must have room for them.\<close>

definition tail_copy :: "u8 list \<Rightarrow> buffer \<Rightarrow> buffer option" where
  "tail_copy p b =
     do { c_assert (bf_list b \<noteq> [] \<and> tail_cp b + length p \<le> bf_size b);
          let d = last (bf_list b);
          Some (b\<lparr>bf_list := butlast (bf_list b) @ [d\<lparr>bd_data := bd_data d @ p\<rparr>]\<rparr>) }"

text \<open>A round that copies nothing would be repeated for ever.\<close>

function buffer_put :: "buffer \<Rightarrow> u8 list \<Rightarrow> buffer option" where
  "buffer_put b p =
     (if p = [] then Some b
      else let b1 = buffer_room b; chunk = min (length p) (bf_size b1 - tail_cp b1)
           in if chunk = 0 then None
              else case tail_copy (take chunk p) b1 of
                     None \<Rightarrow> None
                   | Some b2 \<Rightarrow> buffer_put b2 (drop chunk p))"
  by pat_completeness auto
termination
  by (relation "measure (\<lambda>(b, p). length p)") (auto simp: Let_def)

declare buffer_put.simps [simp del]

definition buffer_putc :: "buffer \<Rightarrow> u8 \<Rightarrow> buffer option" where
  "buffer_putc b c = buffer_put b [c]"

text \<open>The string is the bytes before its terminating zero.\<close>

definition buffer_putstr :: "buffer \<Rightarrow> u8 list \<Rightarrow> buffer option" where
  "buffer_putstr b c = buffer_put b (takeWhile (\<lambda>x. x \<noteq> 0) c)"

abbreviation CR :: u8 where "CR \<equiv> 13"
abbreviation LF :: u8 where "LF \<equiv> 10"

text \<open>
  \<open>buffer_put_crlf\<close>: the pointer \<open>lf\<close> always is the first line feed at or after \<open>p\<close>, or NULL; \<open>line\<close> is
  the distance from \<open>p\<close> to it, or to the end.
\<close>

function buffer_put_crlf :: "buffer \<Rightarrow> u8 list \<Rightarrow> buffer option" where
  "buffer_put_crlf b p =
     (if p = [] then Some b
      else let b1 = buffer_room b;
               lf = (LF \<in> set p);
               line = length (takeWhile (\<lambda>x. x \<noteq> LF) p);
               avail = bf_size b1 - tail_cp b1;
               chunk = min line avail
           in case tail_copy (take chunk p) b1 of
                None \<Rightarrow> None
              | Some b2 \<Rightarrow>
                  if lf \<and> line \<le> avail
                  then (case tail_copy [CR] (buffer_room b2) of
                          None \<Rightarrow> None
                        | Some b3 \<Rightarrow>
                            (case tail_copy [LF] (buffer_room b3) of
                               None \<Rightarrow> None
                             | Some b4 \<Rightarrow> buffer_put_crlf b4 (drop (chunk + 1) p)))
                  else if chunk = 0 then None
                  else buffer_put_crlf b2 (drop chunk p))"
  by pat_completeness auto
termination
  by (relation "measure (\<lambda>(b, p). length p)") (auto simp: Let_def)

declare buffer_put_crlf.simps [simp del]

subsection \<open>Writing to the descriptor\<close>

text \<open>What a system call for writing answers: an error, retriable or not, or the number of bytes taken.\<close>

datatype write_result = Write_error bool | Written nat

definition MAX_CHUNKS :: nat where "MAX_CHUNKS = 16"
definition MAX_FLUSH :: nat where "MAX_FLUSH = 131072"

text \<open>The vector of chunks handed to \<open>writev\<close>.\<close>

fun gather :: "nat \<Rightarrow> nat \<Rightarrow> buffer_data list \<Rightarrow> u8 list list" where
  "gather iovcnt nbyte [] = []"
| "gather iovcnt nbyte (d # ds) =
     (if iovcnt < MAX_CHUNKS \<and> nbyte < MAX_FLUSH
      then unsent d # gather (iovcnt + 1) (nbyte + length (unsent d)) ds else [])"

text \<open>Freeing what was written; the flag says that the function returns inside the loop.\<close>

fun free_written :: "nat \<Rightarrow> buffer_data list \<Rightarrow> bool \<times> buffer_data list" where
  "free_written written [] = (False, [])"
| "free_written written (d # ds) =
     (if written = 0 then (False, d # ds)
      else if written < length (unsent d) then (True, d\<lparr>bd_sp := bd_sp d + written\<rparr> # ds)
      else free_written (written - length (unsent d)) ds)"

text \<open>The result is the status, the buffer, and the bytes handed over.\<close>

definition buffer_flush_available :: "write_result \<Rightarrow> int \<Rightarrow> buffer \<Rightarrow> buffer_status \<times> buffer \<times> u8 list" where
  "buffer_flush_available res fd b =
     (let iov = concat (gather 0 0 (bf_list b))
      in if fd < 0 then (BUFFER_ERROR, b, [])
         else if iov = [] then (BUFFER_EMPTY, b, [])
         else case res of
                Write_error retry \<Rightarrow> (if retry then BUFFER_PENDING else BUFFER_ERROR, b, [])
              | Written n \<Rightarrow>
                  let (inside, ds) = free_written n (bf_list b)
                  in (if inside \<or> ds \<noteq> [] then BUFFER_PENDING else BUFFER_EMPTY, b\<lparr>bf_list := ds\<rparr>, take n iov))"

text \<open>
  \<open>buffer_flush_all\<close>, for a list of answers with the flag that \<open>errno\<close> is \<open>EINTR\<close> afterwards; \<^term>\<open>None\<close>
  when the answers do not suffice. The head is the same as before exactly if no chunk was freed.
\<close>

fun flush_all_loop :: "(write_result \<times> bool) list \<Rightarrow> int \<Rightarrow> buffer \<Rightarrow> (buffer_status \<times> buffer \<times> u8 list) option" where
  "flush_all_loop [] fd b = None"
| "flush_all_loop ((res, eintr) # rs) fd b =
     (case buffer_flush_available res fd b of
        (ret, b1, out) \<Rightarrow>
          if ret \<noteq> BUFFER_PENDING then Some (ret, b1, out)
          else if length (bf_list b1) = length (bf_list b) \<and> bd_sp (hd (bf_list b1)) = bd_sp (hd (bf_list b)) \<and> \<not> eintr
          then Some (ret, b1, out)
          else (case flush_all_loop rs fd b1 of None \<Rightarrow> None | Some (ret', b2, out') \<Rightarrow> Some (ret', b2, out @ out')))"

definition buffer_flush_all :: "(write_result \<times> bool) list \<Rightarrow> int \<Rightarrow> buffer \<Rightarrow> (buffer_status \<times> buffer \<times> u8 list) option" where
  "buffer_flush_all rs fd b = (if bf_list b = [] then Some (BUFFER_EMPTY, b, []) else flush_all_loop rs fd b)"

definition buffer_write :: "write_result \<Rightarrow> buffer \<Rightarrow> u8 list \<Rightarrow> (buffer_status \<times> buffer \<times> u8 list) option" where
  "buffer_write res b p =
     (let put = (\<lambda>n. do { b1 \<leftarrow> (if n < length p then buffer_put b (drop n p) else Some b);
                          Some (if bf_list b1 \<noteq> [] then BUFFER_PENDING else BUFFER_EMPTY, b1, take n p) })
      in if bf_list b \<noteq> [] then put 0
         else case res of
                Write_error True \<Rightarrow> put 0
              | Write_error False \<Rightarrow> Some (BUFFER_ERROR, b, [])
              | Written n \<Rightarrow> put n)"

subsection \<open>A terminal window\<close>

text \<open>
  The number of bytes of one chunk to display, with the rows that are left and the column afterwards.
\<close>

fun scan_chunk :: "int \<Rightarrow> u8 list \<Rightarrow> int \<times> int \<Rightarrow> nat \<times> int \<times> int" where
  "scan_chunk width [] (height, column) = (0, height, column)"
| "scan_chunk width (c # cs) (height, column) =
     (if height > 0
      then let hc = (if c = CR then (height, 1)
                     else if c = LF \<or> column = width then (height - 1, 1)
                     else (height, column + 1));
               (n, hc') = scan_chunk width cs hc
           in (n + 1, hc')
      else (0, height, column))"

fun scan_window :: "int \<Rightarrow> buffer_data list \<Rightarrow> int \<times> int \<Rightarrow> buffer_data list \<times> u8 list" where
  "scan_window width [] hc = ([], [])"
| "scan_window width (d # ds) hc =
     (if fst hc > 0
      then let (n, hc') = scan_chunk width (unsent d) hc;
               (ds', out) = scan_window width ds hc'
           in (d\<lparr>bd_sp := bd_sp d + n\<rparr> # ds', take n (unsent d) @ out)
      else (d # ds, []))"

definition erase_bytes :: "u8 list" where
  "erase_bytes = replicate 10 8 @ replicate 10 32 @ replicate 10 8"

text \<open>The array \<open>more\<close> is sent with its terminating zero.\<close>

definition more_bytes :: "u8 list" where
  "more_bytes = [32, 45, 45, 77, 111, 114, 101, 45, 45, 32, 0]"

text \<open>\<open>fails\<close> says that \<open>writev\<close> fails; the displayed chunks are freed all the same.\<close>

definition buffer_flush_window :: "bool \<Rightarrow> int \<Rightarrow> int \<Rightarrow> bool \<Rightarrow> bool \<Rightarrow> buffer \<Rightarrow> buffer_status \<times> buffer \<times> u8 list" where
  "buffer_flush_window fails width height erase_flag no_more_flag b =
     (if bf_list b = [] then (BUFFER_EMPTY, b, [])
      else let h = (if height < 1 then 1 else if height \<ge> 2 then height - 1 else height);
               w = (if width < 1 then 1 else width);
               (ds, out) = scan_window w (bf_list b) (h, 1);
               more = (bd_sp (last ds) < bd_cp (last ds) \<and> \<not> no_more_flag);
               ds' = dropWhile (\<lambda>d. bd_sp d = bd_cp d) ds
           in (if fails then BUFFER_ERROR else if ds' \<noteq> [] then BUFFER_PENDING else BUFFER_EMPTY, b\<lparr>bf_list := ds'\<rparr>,
               if fails then [] else (if erase_flag then erase_bytes else []) @ out @ (if more then more_bytes else [])))"

section \<open>The buffer as a queue of bytes\<close>

text \<open>The bytes still to be sent, and the invariant that the comment in \<open>buffer.c\<close> states.\<close>

definition contents :: "buffer \<Rightarrow> u8 list" where
  "contents b = concat (map unsent (bf_list b))"

definition chunk_ok :: "nat \<Rightarrow> buffer_data \<Rightarrow> bool" where
  "chunk_ok sz d \<longleftrightarrow> bd_sp d < bd_cp d \<and> bd_cp d \<le> sz"

definition buf_ok :: "buffer \<Rightarrow> bool" where
  "buf_ok b \<longleftrightarrow> 0 < bf_size b \<and> (\<forall>d \<in> set (bf_list b). chunk_ok (bf_size b) d)"

lemma buffer_new_ok: "0 < pgsz \<Longrightarrow> buf_ok (buffer_new pgsz sz) \<and> contents (buffer_new pgsz sz) = []"
  by (simp add: buf_ok_def contents_def buffer_new_def)

lemma unsent_Nil: "chunk_ok sz d \<Longrightarrow> unsent d \<noteq> []"
  by (simp add: unsent_def chunk_ok_def)

lemma contents_empty: "buf_ok b \<Longrightarrow> contents b = [] \<longleftrightarrow> bf_list b = []"
  by (cases "bf_list b") (auto simp: contents_def buf_ok_def dest: unsent_Nil)

text \<open>After \<open>buffer_room\<close> the last chunk has room, and may be empty.\<close>

definition roomy :: "buffer \<Rightarrow> bool" where
  "roomy b \<longleftrightarrow> bf_list b \<noteq> [] \<and> tail_cp b < bf_size b \<and> (\<forall>d \<in> set (butlast (bf_list b)). chunk_ok (bf_size b) d)
     \<and> (let d = last (bf_list b) in bd_sp d < bd_cp d \<or> d = \<lparr>bd_data = [], bd_sp = 0\<rparr>)"

lemma buffer_room_ok:
  assumes "buf_ok b"
  shows "roomy (buffer_room b)" "contents (buffer_room b) = contents b" "bf_size (buffer_room b) = bf_size b"
proof -
  show "contents (buffer_room b) = contents b" "bf_size (buffer_room b) = bf_size b"
    by (simp_all add: buffer_room_def buffer_add_def contents_def unsent_def)
  show "roomy (buffer_room b)"
  proof (cases "bf_list b = [] \<or> tail_cp b = bf_size b")
    case True
    then show ?thesis
      using assms by (auto simp: roomy_def buffer_room_def buffer_add_def tail_cp_def buf_ok_def)
  next
    case False
    then have "chunk_ok (bf_size b) (last (bf_list b))" using assms by (simp add: buf_ok_def)
    moreover from this False have "tail_cp b < bf_size b" by (simp add: tail_cp_def chunk_ok_def)
    ultimately show ?thesis
      using False assms by (auto simp: roomy_def buffer_room_def buf_ok_def chunk_ok_def Let_def dest: in_set_butlastD)
  qed
qed

lemma tail_copy_ok:
  assumes "roomy b" "p \<noteq> []" "tail_cp b + length p \<le> bf_size b"
  obtains b' where "tail_copy p b = Some b'" "buf_ok b'" "contents b' = contents b @ p" "bf_size b' = bf_size b"
proof -
  define d where "d = last (bf_list b)"
  define e where "e = d\<lparr>bd_data := bd_data d @ p\<rparr>"
  define b' where "b' = b\<lparr>bf_list := butlast (bf_list b) @ [e]\<rparr>"
  have ne: "bf_list b = butlast (bf_list b) @ [d]" using assms(1) by (simp add: roomy_def d_def)
  have d: "bd_sp d < bd_cp d \<or> d = \<lparr>bd_data = [], bd_sp = 0\<rparr>" using assms(1) by (simp add: roomy_def d_def Let_def)
  then have e: "unsent e = unsent d @ p" "bd_sp e < bd_cp e" using assms(2) by (auto simp: unsent_def e_def)
  have "tail_copy p b = Some b'" using assms by (simp add: tail_copy_def roomy_def b'_def e_def d_def Let_def)
  moreover have "contents b' = contents b @ p"
    unfolding contents_def b'_def by (subst (2) ne) (simp add: e(1))
  moreover have "bd_cp e \<le> bf_size b" using assms(3) by (simp add: tail_cp_def e_def d_def)
  then have "buf_ok b'"
    using assms(1) e(2) by (auto simp: buf_ok_def b'_def roomy_def chunk_ok_def)
  ultimately show thesis using that by (simp add: b'_def)
qed

lemma buffer_put_ok:
  "buf_ok b \<Longrightarrow> \<exists>b'. buffer_put b p = Some b' \<and> buf_ok b' \<and> contents b' = contents b @ p \<and> bf_size b' = bf_size b"
proof (induction b p rule: buffer_put.induct)
  case (1 b p)
  show ?case
  proof (cases "p = []")
    case True
    then show ?thesis using 1(2) by (simp add: buffer_put.simps)
  next
    case False
    define b1 where "b1 = buffer_room b"
    define k where "k = min (length p) (bf_size b1 - tail_cp b1)"
    note r = buffer_room_ok [OF 1(2), folded b1_def]
    have k: "k \<noteq> 0" "take k p \<noteq> []" "tail_cp b1 + length (take k p) \<le> bf_size b1"
      using r(1) False by (auto simp: roomy_def k_def)
    obtain b2 where b2: "tail_copy (take k p) b1 = Some b2" "buf_ok b2" "contents b2 = contents b1 @ take k p" "bf_size b2 = bf_size b1"
      by (rule tail_copy_ok [OF r(1) k(2,3)])
    have "\<exists>b'. buffer_put b2 (drop k p) = Some b' \<and> buf_ok b' \<and> contents b' = contents b2 @ drop k p \<and> bf_size b' = bf_size b2"
      using 1(1) [OF False refl refl, folded b1_def, folded k_def, OF k(1) b2(1) b2(2)] .
    moreover have "buffer_put b p = buffer_put b2 (drop k p)"
      using False k(1) b2(1) by (simp add: buffer_put.simps [of b p] b1_def [symmetric] k_def [symmetric] Let_def)
    ultimately show ?thesis using b2 r by auto
  qed
qed

text \<open>Every line feed is preceded by a carriage return on the terminal.\<close>

definition crlf :: "u8 list \<Rightarrow> u8 list" where
  "crlf p = concat (map (\<lambda>c. if c = LF then [CR, LF] else [c]) p)"

lemma crlf_append: "crlf (xs @ ys) = crlf xs @ crlf ys"
  by (simp add: crlf_def)

lemma crlf_no_lf: "LF \<notin> set p \<Longrightarrow> crlf p = p"
  unfolding crlf_def by (induction p) auto

lemma take_line_no_lf: "n \<le> length (takeWhile (\<lambda>x. x \<noteq> LF) p) \<Longrightarrow> crlf (take n p) = take n p"
proof (rule crlf_no_lf)
  assume n: "n \<le> length (takeWhile (\<lambda>x. x \<noteq> LF) p)"
  show "LF \<notin> set (take n p)"
  proof
    assume "LF \<in> set (take n p)"
    then obtain i where "i < n" "p ! i = LF" "i < length p" by (auto simp: in_set_conv_nth)
    then show False using n nth_length_takeWhile [of "\<lambda>x. x \<noteq> LF" p] takeWhile_nth [of i "\<lambda>x. x \<noteq> LF" p]
      by (metis (mono_tags, lifting) nth_mem order_less_le_trans set_takeWhileD)
  qed
qed

lemma room_id: "roomy b \<Longrightarrow> buffer_room b = b"
  by (simp add: roomy_def buffer_room_def)

lemma copy_one:
  assumes "buf_ok b \<or> roomy b"
  obtains b' where "tail_copy [c] (buffer_room b) = Some b'" "buf_ok b'" "contents b' = contents b @ [c]" "bf_size b' = bf_size b"
proof -
  have r: "roomy (buffer_room b)" "contents (buffer_room b) = contents b" "bf_size (buffer_room b) = bf_size b"
    using assms buffer_room_ok room_id by metis+
  then have "tail_cp (buffer_room b) + length [c] \<le> bf_size (buffer_room b)" by (simp add: roomy_def)
  then show thesis using tail_copy_ok [OF r(1), of "[c]"] that r by auto
qed

lemma split_at_lf:
  assumes "LF \<in> set p"
  shows "p = takeWhile (\<lambda>x. x \<noteq> LF) p @ LF # drop (length (takeWhile (\<lambda>x. x \<noteq> LF) p) + 1) p"
  using assms
proof (induction p)
  case (Cons c p)
  then show ?case by (cases "c = LF") auto
qed simp

lemma copy_some:
  assumes "roomy b" "tail_cp b + length p \<le> bf_size b"
  obtains b' where "tail_copy p b = Some b'" "buf_ok b' \<or> roomy b'" "p \<noteq> [] \<Longrightarrow> buf_ok b'" "contents b' = contents b @ p"
    "bf_size b' = bf_size b"
proof (cases "p = []")
  case True
  then have "tail_copy p b = Some b" using assms by (simp add: tail_copy_def roomy_def Let_def)
  then show thesis using that [of b] True assms(1) by simp
next
  case False
  then show thesis using tail_copy_ok [OF assms(1) False assms(2)] that by metis
qed

lemma buffer_put_crlf_ok:
  "buf_ok b \<Longrightarrow> \<exists>b'. buffer_put_crlf b p = Some b' \<and> buf_ok b' \<and> contents b' = contents b @ crlf p \<and> bf_size b' = bf_size b"
proof (induction b p rule: buffer_put_crlf.induct)
  case (1 b p)
  show ?case
  proof (cases "p = []")
    case True
    then show ?thesis using 1(3) by (simp add: buffer_put_crlf.simps crlf_def)
  next
    case False
    define b1 where "b1 = buffer_room b"
    define line where "line = length (takeWhile (\<lambda>x. x \<noteq> LF) p)"
    define avail where "avail = bf_size b1 - tail_cp b1"
    define k where "k = min line avail"
    note r = buffer_room_ok [OF 1(3), folded b1_def]
    have av: "0 < avail" using r(1) by (simp add: avail_def roomy_def)
    have "tail_cp b1 + length (take k p) \<le> bf_size b1" using r(1) by (auto simp: k_def avail_def roomy_def)
    then obtain b2 where b2: "tail_copy (take k p) b1 = Some b2" "buf_ok b2 \<or> roomy b2" "take k p \<noteq> [] \<Longrightarrow> buf_ok b2"
      "contents b2 = contents b1 @ take k p" "bf_size b2 = bf_size b1"
      by (rule copy_some [OF r(1)]) blast
    have ck: "crlf (take k p) = take k p" by (rule take_line_no_lf) (simp add: k_def line_def)
    have unf: "buffer_put_crlf b p = (if LF \<in> set p \<and> line \<le> avail
        then (case tail_copy [CR] (buffer_room b2) of None \<Rightarrow> None | Some b3 \<Rightarrow>
               (case tail_copy [LF] (buffer_room b3) of None \<Rightarrow> None | Some b4 \<Rightarrow> buffer_put_crlf b4 (drop (k + 1) p)))
        else if k = 0 then None else buffer_put_crlf b2 (drop k p))"
      using False b2(1) unfolding k_def avail_def line_def b1_def by (subst buffer_put_crlf.simps) (simp add: Let_def cong: if_cong option.case_cong)
    show ?thesis
    proof (cases "LF \<in> set p \<and> line \<le> avail")
      case True
      then have kl: "k = line" by (simp add: k_def)
      obtain b3 where b3: "tail_copy [CR] (buffer_room b2) = Some b3" "buf_ok b3" "contents b3 = contents b2 @ [CR]" "bf_size b3 = bf_size b2"
        by (rule copy_one [OF b2(2)])
      obtain b4 where b4: "tail_copy [LF] (buffer_room b3) = Some b4" "buf_ok b4" "contents b4 = contents b3 @ [LF]" "bf_size b4 = bf_size b3"
        by (rule copy_one [OF disjI1 [OF b3(2)]])
      have "\<exists>b'. buffer_put_crlf b4 (drop (k + 1) p) = Some b' \<and> buf_ok b' \<and> contents b' = contents b4 @ crlf (drop (k + 1) p)
        \<and> bf_size b' = bf_size b4"
        using 1(1) [OF False refl refl refl refl refl, folded b1_def, folded line_def avail_def, folded k_def, OF b2(1) True b3(1) b4(1) b4(2)] by simp
      moreover have pk: "p = take k p @ LF # drop (k + 1) p"
        using split_at_lf [of p] True kl takeWhile_eq_take [of "\<lambda>x. x \<noteq> LF" p] by (simp add: line_def)
      moreover from arg_cong [OF pk, of crlf] have "crlf p = take k p @ [CR, LF] @ crlf (drop (k + 1) p)"
        unfolding crlf_append ck by (simp add: crlf_def)
      ultimately show ?thesis using unf True b2 b3 b4 r by auto
    next
      case f: False
      have k0: "k \<noteq> 0"
      proof (cases "LF \<in> set p")
        case True
        then show ?thesis using f av by (simp add: k_def)
      next
        case no: False
        then have t: "takeWhile (\<lambda>x. x \<noteq> LF) p = p" by (auto simp: takeWhile_eq_all_conv)
        have "line = length p" unfolding line_def t ..
        then show ?thesis using False av by (simp add: k_def)
      qed
      then have ok2: "buf_ok b2" using b2(3) False by simp
      have "\<exists>b'. buffer_put_crlf b2 (drop k p) = Some b' \<and> buf_ok b' \<and> contents b' = contents b2 @ crlf (drop k p)
        \<and> bf_size b' = bf_size b2"
        using 1(2) [OF False refl refl refl refl refl, folded b1_def, folded line_def avail_def, folded k_def, OF b2(1) f k0 ok2] .
      moreover have "crlf p = take k p @ crlf (drop k p)" using ck by (metis append_take_drop_id crlf_append)
      ultimately show ?thesis using unf f k0 b2 r by auto
    qed
  qed
qed

section \<open>Flushing\<close>

lemma gather_prefix: "\<exists>rest. concat (map unsent ds) = concat (gather i n ds) @ rest"
proof (induction ds arbitrary: i n)
  case (Cons d ds)
  then show ?case by (cases "i < MAX_CHUNKS \<and> n < MAX_FLUSH") force+
qed simp

lemma gather_Nil: "chunk_ok sz d \<Longrightarrow> concat (gather 0 0 (d # ds)) \<noteq> []"
  by (simp add: unsent_Nil MAX_CHUNKS_def MAX_FLUSH_def)

text \<open>\<open>writev\<close> takes at most the bytes it is given.\<close>

definition takes_at_most :: "nat \<Rightarrow> write_result \<Rightarrow> bool" where
  "takes_at_most n res \<longleftrightarrow> (case res of Write_error _ \<Rightarrow> True | Written k \<Rightarrow> k \<le> n)"

lemma free_written_ok:
  assumes "\<forall>d \<in> set ds. chunk_ok sz d" "n \<le> length (concat (map unsent ds))"
  shows "\<exists>ins es. free_written n ds = (ins, es) \<and> concat (map unsent es) = drop n (concat (map unsent ds))
    \<and> (\<forall>d \<in> set es. chunk_ok sz d) \<and> (ins \<longrightarrow> es \<noteq> [])"
  using assms
proof (induction ds arbitrary: n)
  case (Cons d ds)
  consider "n = 0" | "0 < n" "n < length (unsent d)" | "0 < n" "length (unsent d) \<le> n" by linarith
  then show ?case
  proof cases
    case 2
    then have "unsent (d\<lparr>bd_sp := bd_sp d + n\<rparr>) = drop n (unsent d)" "chunk_ok sz (d\<lparr>bd_sp := bd_sp d + n\<rparr>)"
      using Cons.prems(1) by (auto simp: unsent_def chunk_ok_def add.commute)
    then show ?thesis using 2 Cons.prems by (intro exI [of _ True]) simp
  next
    case 3
    then have "n - length (unsent d) \<le> length (concat (map unsent ds))" using Cons.prems(2) by simp
    then show ?thesis using Cons.IH [of "n - length (unsent d)"] Cons.prems(1) 3 by auto
  qed (use Cons.prems in \<open>auto intro: exI [of _ False]\<close>)
qed (auto intro: exI [of _ False])

lemma flush_available_ok:
  assumes ok: "buf_ok b" and res: "takes_at_most (length (concat (gather 0 0 (bf_list b)))) res"
    and f: "buffer_flush_available res fd b = (st, b', out)"
  shows "buf_ok b'" "out @ contents b' = contents b" "bf_size b' = bf_size b" "st = BUFFER_EMPTY \<Longrightarrow> contents b' = []"
    "st = BUFFER_PENDING \<Longrightarrow> contents b' \<noteq> []"
proof -
  define iov where "iov = concat (gather 0 0 (bf_list b))"
  obtain rest where rest: "contents b = iov @ rest" using gather_prefix [of "bf_list b" 0 0] by (auto simp: contents_def iov_def)
  have e: "iov = [] \<longleftrightarrow> contents b = []"
  proof (cases "bf_list b")
    case (Cons d ds)
    then show ?thesis using gather_Nil [of "bf_size b" d ds] contents_empty [OF ok] ok by (simp add: iov_def buf_ok_def del: gather.simps)
  qed (simp add: iov_def contents_def)
  have "buf_ok b' \<and> out @ contents b' = contents b \<and> bf_size b' = bf_size b \<and> (st = BUFFER_EMPTY \<longrightarrow> contents b' = [])
    \<and> (st = BUFFER_PENDING \<longrightarrow> contents b' \<noteq> [])"
  proof (cases "fd < 0 \<or> iov = [] \<or> (\<exists>r. res = Write_error r)")
    case True
    then show ?thesis
      using f ok e by (auto simp: buffer_flush_available_def iov_def [symmetric] Let_def split: if_splits)
  next
    case False
    then obtain n where n: "res = Written n" by (cases res) auto
    then have le: "n \<le> length iov" using res by (simp add: takes_at_most_def iov_def)
    then have "n \<le> length (concat (map unsent (bf_list b)))" using rest by (simp add: contents_def)
    then obtain ins es where es: "free_written n (bf_list b) = (ins, es)" "concat (map unsent es) = drop n (contents b)"
      "\<forall>d \<in> set es. chunk_ok (bf_size b) d" "ins \<longrightarrow> es \<noteq> []"
      using free_written_ok [of "bf_list b" "bf_size b" n] ok by (auto simp: buf_ok_def contents_def)
    have r: "st = (if ins \<or> es \<noteq> [] then BUFFER_PENDING else BUFFER_EMPTY)" "b' = b\<lparr>bf_list := es\<rparr>" "out = take n iov"
      using f False n es(1) by (auto simp: buffer_flush_available_def iov_def [symmetric] Let_def)
    have ok': "buf_ok b'" using ok es(3) r(2) by (simp add: buf_ok_def)
    have c: "contents b' = drop n (contents b)" using es(2) r(2) by (simp add: contents_def)
    have "take n iov = take n (contents b)" using rest le by simp
    then show ?thesis using c r ok' es(4) contents_empty [OF ok'] by auto
  qed
  then show "buf_ok b'" "out @ contents b' = contents b" "bf_size b' = bf_size b" "st = BUFFER_EMPTY \<Longrightarrow> contents b' = []"
    "st = BUFFER_PENDING \<Longrightarrow> contents b' \<noteq> []"
    by auto
qed

lemma buffer_write_ok:
  assumes ok: "buf_ok b" and res: "takes_at_most (length p) res"
  obtains st b' out where "buffer_write res b p = Some (st, b', out)" "buf_ok b'" "bf_size b' = bf_size b"
    "st \<noteq> BUFFER_ERROR \<Longrightarrow> out @ contents b' = contents b @ p" "st = BUFFER_ERROR \<Longrightarrow> b' = b \<and> out = []"
    "st = BUFFER_EMPTY \<Longrightarrow> contents b' = []" "st = BUFFER_PENDING \<Longrightarrow> contents b' \<noteq> []"
proof -
  define put where "put = (\<lambda>n. do { b1 \<leftarrow> (if n < length p then buffer_put b (drop n p) else Some b);
    Some (if bf_list b1 \<noteq> [] then BUFFER_PENDING else BUFFER_EMPTY, b1, take n p) })"
  note result = that
  have put: thesis if n: "n \<le> length p" "contents b = [] \<or> n = 0" "buffer_write res b p = put n" for n
  proof -
    have "drop n p = []" if "\<not> n < length p" using that by simp
    then obtain b1 where b1: "(if n < length p then buffer_put b (drop n p) else Some b) = Some b1" "buf_ok b1"
      "contents b1 = contents b @ drop n p" "bf_size b1 = bf_size b"
      using buffer_put_ok [OF ok, of "drop n p"] ok by (cases "n < length p") auto
    then have "put n = Some (if bf_list b1 \<noteq> [] then BUFFER_PENDING else BUFFER_EMPTY, b1, take n p)" by (simp add: put_def)
    then show thesis
      using n b1 contents_empty [OF b1(2)]
      by (intro result [of "if bf_list b1 \<noteq> [] then BUFFER_PENDING else BUFFER_EMPTY" b1 "take n p"]) (auto split: if_splits)
  qed
  show thesis
  proof (cases "bf_list b \<noteq> [] \<or> res = Write_error True")
    case True
    then have "buffer_write res b p = put 0" by (auto simp: buffer_write_def put_def)
    then show thesis using put [of 0] by simp
  next
    case False
    show thesis
    proof (cases res)
      case (Write_error r)
      then have "buffer_write res b p = Some (BUFFER_ERROR, b, [])" using False by (cases r) (simp_all add: buffer_write_def)
      then show thesis using ok by (intro result [of BUFFER_ERROR b "[]"]) simp_all
    next
      case (Written n)
      then have "buffer_write res b p = put n" "contents b = []" using False by (simp_all add: buffer_write_def put_def contents_def)
      then show thesis using put [of n] res Written by (simp add: takes_at_most_def)
    qed
  qed
qed

lemma scan_chunk_le: "fst (scan_chunk w cs hc) \<le> length cs"
  by (induction w cs hc rule: scan_chunk.induct) (auto simp: Let_def split: prod.splits)

text \<open>How many rows of a terminal some bytes take from a column on, and the column after them.\<close>

fun rows :: "int \<Rightarrow> int \<Rightarrow> u8 list \<Rightarrow> int \<times> int" where
  "rows w col [] = (0, col)"
| "rows w col (c # cs) =
     (if c = CR then rows w 1 cs
      else if c = LF \<or> col = w then (let (n, k) = rows w 1 cs in (n + 1, k))
      else rows w (col + 1) cs)"

lemma rows_append: "rows w col (xs @ ys) = (let (n, k) = rows w col xs; (n', k') = rows w k ys in (n + n', k'))"
  by (induction xs arbitrary: col) (auto simp: Let_def split: prod.splits)

text \<open>A chunk is displayed until the rows are used up.\<close>

lemma scan_chunk_rows:
  assumes "scan_chunk w cs (h, col) = (n, h', col')" "0 \<le> h"
  shows "rows w col (take n cs) = (h - h', col')" "0 \<le> h'" "n < length cs \<Longrightarrow> h' = 0"
proof -
  have "rows w col (take n cs) = (h - h', col') \<and> 0 \<le> h' \<and> (n < length cs \<longrightarrow> h' = 0)"
    using assms
  proof (induction cs arbitrary: h col n)
    case (Cons c cs)
    show ?case
    proof (cases "h > 0")
      case True
      define hc where "hc = (if c = CR then (h, 1) else if c = LF \<or> col = w then (h - 1, 1) else (h, col + 1))"
      obtain k where k: "scan_chunk w cs hc = (k, h', col')" "n = k + 1"
        using Cons.prems(1) True by (auto simp: hc_def [symmetric] Let_def split: prod.splits)
      obtain h1 c1 where h1: "hc = (h1, c1)" by (cases hc)
      have "0 \<le> h1" using h1 True by (auto simp: hc_def split: if_splits)
      with Cons.IH [of h1 c1 k] k(1) h1 have "rows w c1 (take k cs) = (h1 - h', col') \<and> 0 \<le> h' \<and> (k < length cs \<longrightarrow> h' = 0)" by simp
      then show ?thesis using h1 k(2) by (auto simp: hc_def split: if_splits)
    next
      case False
      then show ?thesis using Cons.prems by auto
    qed
  qed auto
  then show "rows w col (take n cs) = (h - h', col')" "0 \<le> h'" "n < length cs \<Longrightarrow> h' = 0" by auto
qed

lemma scan_window_ok:
  assumes "\<forall>d \<in> set ds. chunk_ok sz d" "scan_window w ds (h, col) = (es, out)" "0 \<le> h"
  shows "concat (map unsent ds) = out @ concat (map unsent es) \<and> length es = length ds
    \<and> (\<forall>d \<in> set (dropWhile (\<lambda>d. bd_sp d = bd_cp d) es). chunk_ok sz d)
    \<and> concat (map unsent (dropWhile (\<lambda>d. bd_sp d = bd_cp d) es)) = concat (map unsent es)
    \<and> fst (rows w col out) \<le> h \<and> (concat (map unsent es) \<noteq> [] \<longrightarrow> fst (rows w col out) = h)"
  using assms
proof (induction ds arbitrary: h col es out)
  case Nil
  then show ?case by simp
next
  case (Cons d ds)
  have d: "chunk_ok sz d" using Cons.prems(1) by simp
  show ?case
  proof (cases "h > 0")
    case True
    obtain n h' c' where n: "scan_chunk w (unsent d) (h, col) = (n, h', c')" by (cases "scan_chunk w (unsent d) (h, col)") auto
    obtain es' out' where e: "scan_window w ds (h', c') = (es', out')" by (cases "scan_window w ds (h', c')")
    have eo: "es = d\<lparr>bd_sp := bd_sp d + n\<rparr> # es'" "out = take n (unsent d) @ out'"
      using Cons.prems(2) True n e by auto
    note r = scan_chunk_rows [OF n Cons.prems(3)]
    have ih: "concat (map unsent ds) = out' @ concat (map unsent es')" "length es' = length ds"
      "\<forall>d \<in> set (dropWhile (\<lambda>d. bd_sp d = bd_cp d) es'). chunk_ok sz d"
      "concat (map unsent (dropWhile (\<lambda>d. bd_sp d = bd_cp d) es')) = concat (map unsent es')"
      "fst (rows w c' out') \<le> h'" "concat (map unsent es') \<noteq> [] \<longrightarrow> fst (rows w c' out') = h'"
      using Cons.IH [OF _ e r(2)] Cons.prems(1) by auto
    have le: "n \<le> length (unsent d)" using scan_chunk_le [of w "unsent d" "(h, col)"] n by simp
    have u: "unsent (d\<lparr>bd_sp := bd_sp d + n\<rparr>) = drop n (unsent d)" by (simp add: unsent_def add.commute)
    have rw: "fst (rows w col out) = h - h' + fst (rows w c' out')"
      using r(1) by (simp add: eo rows_append split: prod.splits)
    show ?thesis
    proof (cases "n < length (unsent d)")
      case full: True
      have "h' = 0" using r(3) full by simp
      then have o: "es' = ds" "out' = []" using e by (cases ds; simp)+
      have "bd_sp d + n < bd_cp d" using full by (simp add: unsent_def)
      then show ?thesis using eo u o Cons.prems(1) d \<open>h' = 0\<close> r(1) by (simp add: chunk_ok_def)
    next
      case False
      then have "n = length (unsent d)" using le by simp
      moreover have "bd_sp d + length (unsent d) = bd_cp d" using d by (simp add: unsent_def chunk_ok_def)
      ultimately show ?thesis using eo u ih rw by simp
    qed
  next
    case False
    then show ?thesis using Cons.prems d by (auto simp: chunk_ok_def)
  qed
qed

section \<open>Properties\<close>

text \<open>
  The operations on a buffer between its writers and its descriptor: \<open>inp\<close> are the bytes given to it
  and \<open>out\<close> those handed over. A failed write that is not retried ends the use of the buffer.
\<close>

inductive buf_step :: "u8 list \<Rightarrow> u8 list \<Rightarrow> buffer \<Rightarrow> buffer \<Rightarrow> bool" where
  put: "buffer_put b p = Some b' \<Longrightarrow> buf_step p [] b b'"
| put_crlf: "buffer_put_crlf b p = Some b' \<Longrightarrow> buf_step (crlf p) [] b b'"
| wrt: "buffer_write res b p = Some (st, b', out) \<Longrightarrow> takes_at_most (length p) res \<Longrightarrow> st \<noteq> BUFFER_ERROR \<Longrightarrow> buf_step p out b b'"
| flush: "buffer_flush_available res fd b = (st, b', out) \<Longrightarrow>
    takes_at_most (length (concat (gather 0 0 (bf_list b)))) res \<Longrightarrow> buf_step [] out b b'"

inductive buf_run :: "u8 list \<Rightarrow> u8 list \<Rightarrow> buffer \<Rightarrow> buffer \<Rightarrow> bool" where
  start: "buf_run [] [] b b"
| step: "buf_run inp out b b1 \<Longrightarrow> buf_step i o1 b1 b2 \<Longrightarrow> buf_run (inp @ i) (out @ o1) b b2"

lemma buf_step_ok:
  assumes "buf_step inp out b b'" "buf_ok b"
  shows "buf_ok b' \<and> out @ contents b' = contents b @ inp"
  using assms(1)
proof cases
  case put
  then show ?thesis using buffer_put_ok [OF assms(2), of inp] by auto
next
  case (put_crlf p)
  then show ?thesis using buffer_put_crlf_ok [OF assms(2), of p] by auto
next
  case (wrt res st)
  show ?thesis by (rule buffer_write_ok [OF assms(2) wrt(2)]) (use wrt in auto)
next
  case (flush res fd st)
  then show ?thesis using flush_available_ok [OF assms(2) flush(3,2)] by simp
qed

text \<open>
  C34: A buffer is a queue of bytes: in every run, whatever the sizes of the writes and however much the
  descriptor takes at a time, the bytes handed over followed by those still buffered are the bytes put
  in, in order. None is lost, duplicated or reordered.
\<close>

theorem buffer_fifo:
  assumes "buf_run inp out b b'" "buf_ok b"
  shows "buf_ok b' \<and> out @ contents b' = contents b @ inp"
  using assms
proof (induction rule: buf_run.induct)
  case (step inp out b b1 i o1 b2)
  then show ?case using buf_step_ok [of i o1 b1 b2] by (metis append.assoc)
qed simp

theorem buffer_fifo_witness:
  "\<exists>b'. buf_run [1, 2, 3] [1, 2] (buffer_new 4096 2) b' \<and> buf_ok b' \<and> [1, 2] @ contents b' = contents (buffer_new 4096 2) @ [1, 2, 3]"
proof -
  let ?b = "buffer_new 4096 2"
  have ok: "buf_ok ?b" using buffer_new_ok [of 4096 2] by simp
  obtain b1 where b1: "buffer_put ?b [1, 2, 3] = Some b1" "buf_ok b1" "contents b1 = contents ?b @ [1, 2, 3]"
    using buffer_put_ok [OF ok] by blast
  obtain st b2 out where f: "buffer_flush_available (Written 2) 5 b1 = (st, b2, out)" by (cases "buffer_flush_available (Written 2) 5 b1")
  have "b1 = the (buffer_put ?b [1, 2, 3])" using b1(1) by simp
  then have g: "length (concat (gather 0 0 (bf_list b1))) = 3" "snd (snd (buffer_flush_available (Written 2) 5 b1)) = [1, 2]"
    by (simp_all add: buffer_new_def buffer_put.simps buffer_room_def buffer_add_def tail_cp_def tail_copy_def Let_def unsent_def
        MAX_CHUNKS_def MAX_FLUSH_def buffer_flush_available_def)
  have "buf_run ([] @ [1, 2, 3]) ([] @ []) ?b b1" by (rule buf_run.step [OF buf_run.start buf_step.put [OF b1(1)]])
  moreover have "buf_step [] [1, 2] b1 b2" using buf_step.flush [OF f] g f by (simp add: takes_at_most_def)
  ultimately have "buf_run [1, 2, 3] [1, 2] ?b b2" using buf_run.step by fastforce
  then show ?thesis using buffer_fifo [OF _ ok] by blast
qed

text \<open>
  \<open>buffer_put_crlf\<close> always returns and appends the bytes with every line feed expanded to carriage return
  and line feed, also where a chunk ends inside a line or between the two.
\<close>

theorem buffer_put_crlf_expands:
  assumes "buf_ok b"
  shows "\<exists>b'. buffer_put_crlf b p = Some b' \<and> buf_ok b' \<and> contents b' = contents b @ crlf p"
  using buffer_put_crlf_ok [OF assms, of p] by blast

text \<open>
  A terminal window of width \<open>w\<close> and height \<open>h\<close> shows a prefix of the buffered bytes that takes at most
  \<open>h - 1\<close> rows, exactly so many if something is left for the next window, and the rest stays buffered.
\<close>

theorem buffer_flush_window_rows:
  assumes ok: "buf_ok b" and wh: "1 \<le> w" "2 \<le> h"
    and f: "buffer_flush_window False w h False True b = (st, b', out)"
  shows "buf_ok b' \<and> contents b = out @ contents b' \<and> fst (rows w 1 out) \<le> h - 1
    \<and> (contents b' \<noteq> [] \<longrightarrow> fst (rows w 1 out) = h - 1) \<and> (st = BUFFER_EMPTY \<longleftrightarrow> contents b' = [])"
proof (cases "bf_list b = []")
  case True
  then have "st = BUFFER_EMPTY" "b' = b" "out = []" using f by (simp_all add: buffer_flush_window_def)
  then show ?thesis using True wh ok by (simp add: contents_def)
next
  case False
  obtain es o1 where e: "scan_window w (bf_list b) (h - 1, 1) = (es, o1)" by (cases "scan_window w (bf_list b) (h - 1, 1)")
  define es' where "es' = dropWhile (\<lambda>d. bd_sp d = bd_cp d) es"
  have r: "b' = b\<lparr>bf_list := es'\<rparr>" "out = o1" "st = (if es' \<noteq> [] then BUFFER_PENDING else BUFFER_EMPTY)"
    using f False wh e by (auto simp: buffer_flush_window_def Let_def es'_def)
  have s: "concat (map unsent (bf_list b)) = o1 @ concat (map unsent es)" "\<forall>d \<in> set es'. chunk_ok (bf_size b) d"
    "concat (map unsent es') = concat (map unsent es)" "fst (rows w 1 o1) \<le> h - 1"
    "concat (map unsent es) \<noteq> [] \<longrightarrow> fst (rows w 1 o1) = h - 1"
    using scan_window_ok [OF _ e, of "bf_size b"] ok wh unfolding es'_def buf_ok_def by auto
  have ok': "buf_ok b'" using ok s(2) r(1) by (simp add: buf_ok_def)
  have "contents b' = concat (map unsent es)" using r(1) s(3) by (simp add: contents_def)
  moreover have "es' = [] \<longleftrightarrow> contents b' = []" using contents_empty [OF ok'] r(1) by simp
  ultimately show ?thesis using s r ok' by (auto simp: contents_def)
qed

end
