(* ===== verification/Command_Tokens.thy ===== *)
theory Command_Tokens
  imports C_Strings
begin

text \<open>
  The tokens of the command language (\<open>command_graph.h\<close>, \<open>command_graph.c\<close>) and how a word of input matches
  one token (the second half of \<open>command_match.c\<close>). Input words are strings without their terminating
  zero; the routines of the system library used for IPv6 addresses are a parameter.
\<close>

section \<open>Data\<close>

datatype cmd_token_type =
  WORD_TKN | VARIABLE_TKN | RANGE_TKN | IPV4_TKN | IPV4_PREFIX_TKN | IPV6_TKN | IPV6_PREFIX_TKN | MAC_TKN | MAC_PREFIX_TKN
| FORK_TKN | JOIN_TKN | START_TKN | END_TKN

text \<open>\<open>type >= SPECIAL_TKN\<close>.\<close>

definition special :: "cmd_token_type \<Rightarrow> bool" where
  "special t \<longleftrightarrow> t \<in> {FORK_TKN, JOIN_TKN, START_TKN, END_TKN}"

datatype cmd_attr = CMD_ATTR_NORMAL | CMD_ATTR_DEPRECATED | CMD_ATTR_HIDDEN

record cmd_token =
  ct_type :: cmd_token_type
  ct_attr :: cmd_attr
  ct_allowrepeat :: bool
  ct_refcnt :: u32
  ct_text :: "string ptr"
  ct_desc :: "string ptr"
  ct_min :: int
  ct_max :: int
  ct_arg :: "string ptr"
  ct_varname :: "string ptr"
  ct_forkjoin :: "nat ptr"

text \<open>The results of matching are ordered as the enumerations are.\<close>

datatype match_type = trivial_match | no_match | partly_match | exact_match

definition match_level :: "match_type \<Rightarrow> nat" where
  "match_level t = (case t of trivial_match \<Rightarrow> 0 | no_match \<Rightarrow> 1 | partly_match \<Rightarrow> 2 | exact_match \<Rightarrow> 3)"

instantiation match_type :: linorder
begin

definition less_eq_match_type :: "match_type \<Rightarrow> match_type \<Rightarrow> bool" where
  "s \<le> t \<longleftrightarrow> match_level s \<le> match_level t"

definition less_match_type :: "match_type \<Rightarrow> match_type \<Rightarrow> bool" where
  "s < t \<longleftrightarrow> match_level s < match_level t"

instance
  by standard (auto simp: less_eq_match_type_def less_match_type_def match_level_def split: match_type.splits)

end

section \<open>Tokens\<close>

definition cmd_token_new :: "cmd_token_type \<Rightarrow> cmd_attr \<Rightarrow> string ptr \<Rightarrow> string ptr \<Rightarrow> cmd_token" where
  "cmd_token_new type attr text desc =
     \<lparr>ct_type = type, ct_attr = attr, ct_allowrepeat = False, ct_refcnt = 1, ct_text = text, ct_desc = desc,
      ct_min = 0, ct_max = 0, ct_arg = None, ct_varname = None, ct_forkjoin = None\<rparr>"

definition cmd_token_dup :: "cmd_token \<Rightarrow> cmd_token" where
  "cmd_token_dup token =
     (cmd_token_new (ct_type token) (ct_attr token) None None)
       \<lparr>ct_max := ct_max token, ct_min := ct_min token, ct_text := ct_text token, ct_desc := ct_desc token,
        ct_arg := ct_arg token, ct_varname := ct_varname token\<rparr>"

definition tolower :: "char \<Rightarrow> char" where
  "tolower ch = (if 65 \<le> char_code ch \<and> char_code ch \<le> 90 then char_of (char_code ch + 32) else ch)"

definition varname_char :: "char \<Rightarrow> char" where
  "varname_char ch = (if ch \<in> set ''-+*:'' then CHR ''_'' else tolower ch)"

definition cmd_token_varname_set :: "cmd_token \<Rightarrow> string ptr \<Rightarrow> cmd_token" where
  "cmd_token_varname_set token varname = token\<lparr>ct_varname := map_option (map varname_char) varname\<rparr>"

definition min_match_level :: "cmd_token_type \<Rightarrow> match_type" where
  "min_match_level type = (case type of START_TKN \<Rightarrow> no_match | WORD_TKN \<Rightarrow> partly_match | _ \<Rightarrow> exact_match)"

definition score_precedence :: "cmd_token_type \<Rightarrow> nat" where
  "score_precedence type =
     (case type of
        IPV4_TKN \<Rightarrow> 2 | IPV4_PREFIX_TKN \<Rightarrow> 2 | IPV6_TKN \<Rightarrow> 2 | IPV6_PREFIX_TKN \<Rightarrow> 2 | MAC_TKN \<Rightarrow> 2 | MAC_PREFIX_TKN \<Rightarrow> 2
      | RANGE_TKN \<Rightarrow> 2 | WORD_TKN \<Rightarrow> 3 | VARIABLE_TKN \<Rightarrow> 4 | _ \<Rightarrow> 10)"

section \<open>Matching a word\<close>

definition match_word :: "cmd_token \<Rightarrow> string \<Rightarrow> match_type option" where
  "match_word token word =
     do { c_assert (ct_type token = WORD_TKN);
          if length word = 0 then Some partly_match
          else do { text \<leftarrow> ct_text token;
                    Some (if length word < length text
                          then (if take (length word) text = word then partly_match else no_match)
                          else if length word = length text
                          then (if take (length word) text = word then exact_match else no_match)
                          else no_match) } }"

text \<open>
  The inner loop of \<open>match_ipv4\<close> from the start \<open>sp\<close> of an octet: an early result, or the digits of the
  octet, the input from the dot or the end on, and the number of dots.
\<close>

fun scan_octet :: "nat \<Rightarrow> string \<Rightarrow> string \<Rightarrow> match_type + (string \<times> string \<times> nat)" where
  "scan_octet dots sp [] = Inr (sp, [], dots)"
| "scan_octet dots sp (c # cs) =
     (if c = CHR ''.''
      then if dots \<ge> 3 then Inl no_match
           else if cs \<noteq> [] \<and> hd cs = CHR ''.'' then Inl no_match
           else if cs = [] then Inl partly_match
           else Inr (sp, c # cs, dots + 1)
      else if \<not> isdigit c then Inl no_match
      else scan_octet dots (sp @ [c]) cs)"

lemma scan_octet_suffix: "scan_octet dots sp str = Inr (oct, rest, dots') \<Longrightarrow> length rest \<le> length str"
  by (induction dots sp str rule: scan_octet.induct) (auto split: if_splits)

text \<open>\<open>atoi\<close> of at most three digits, which cannot overflow.\<close>

definition octet_ok :: "string \<Rightarrow> bool" where
  "octet_ok oct \<longleftrightarrow> length oct \<le> 3 \<and> dec_val oct \<le> 255"

function match_ipv4_from :: "nat \<Rightarrow> nat \<Rightarrow> string \<Rightarrow> match_type" where
  "match_ipv4_from dots nums str =
     (case scan_octet dots [] str of
        Inl r \<Rightarrow> r
      | Inr (oct, rest, dots') \<Rightarrow>
          if \<not> octet_ok oct then no_match
          else (case rest of
                  [] \<Rightarrow> if nums + 1 < 4 then partly_match else exact_match
                | _ # rest' \<Rightarrow> match_ipv4_from dots' (nums + 1) rest'))"
  by pat_completeness auto
termination
  by (relation "measure (\<lambda>(dots, nums, str). length str)") (auto dest: scan_octet_suffix)

declare match_ipv4_from.simps [simp del]

definition match_ipv4 :: "string \<Rightarrow> match_type" where
  "match_ipv4 str = match_ipv4_from 0 0 str"

text \<open>The inner loop of \<open>match_ipv4_prefix\<close>, which a slash ends as well.\<close>

fun scan_octet_pfx :: "nat \<Rightarrow> string \<Rightarrow> string \<Rightarrow> match_type + (string \<times> string \<times> nat)" where
  "scan_octet_pfx dots sp [] = Inr (sp, [], dots)"
| "scan_octet_pfx dots sp (c # cs) =
     (if c = CHR ''/'' then Inr (sp, c # cs, dots)
      else if c = CHR ''.''
      then if dots = 3 then Inl no_match
           else if cs \<noteq> [] \<and> (hd cs = CHR ''.'' \<or> hd cs = CHR ''/'') then Inl no_match
           else if cs = [] then Inl partly_match
           else Inr (sp, c # cs, dots + 1)
      else if \<not> isdigit c then Inl no_match
      else scan_octet_pfx dots (sp @ [c]) cs)"

lemma scan_octet_pfx_suffix: "scan_octet_pfx dots sp str = Inr (oct, rest, dots') \<Longrightarrow> length rest \<le> length str"
  by (induction dots sp str rule: scan_octet_pfx.induct) (auto split: if_splits)

definition match_mask :: "string \<Rightarrow> match_type option" where
  "match_mask sp =
     (if \<exists>c \<in> set sp. \<not> isdigit c then Some no_match
      else do { v \<leftarrow> atoi sp; Some (if v > 32 then no_match else exact_match) })"

function match_ipv4_prefix_from :: "nat \<Rightarrow> string \<Rightarrow> match_type option" where
  "match_ipv4_prefix_from dots str =
     (case scan_octet_pfx dots [] str of
        Inl r \<Rightarrow> Some r
      | Inr (oct, rest, dots') \<Rightarrow>
          if \<not> octet_ok oct then Some no_match
          else (case rest of
                  [] \<Rightarrow> Some partly_match
                | c # rest' \<Rightarrow>
                    if dots' = 3 \<and> c = CHR ''/''
                    then if rest' = [] then Some partly_match else match_mask rest'
                    else match_ipv4_prefix_from dots' rest'))"
  by pat_completeness auto
termination
  by (relation "measure (\<lambda>(dots, str). length str)") (auto dest: scan_octet_pfx_suffix)

declare match_ipv4_prefix_from.simps [simp del]

definition match_ipv4_prefix :: "string \<Rightarrow> match_type option" where
  "match_ipv4_prefix str = match_ipv4_prefix_from 0 str"

text \<open>
  \<open>strtol\<close> and its relatives in base ten: the sign, the digits and where the number ends; without digits the end
  is the start. A value out of range becomes the nearest bound; \<open>strtoul\<close> negates modulo \<open>2 ^ 64\<close>.
\<close>

definition scan_number :: "string \<Rightarrow> bool \<times> string \<times> string" where
  "scan_number s =
     (let s1 = dropWhile isspace s;
          (neg, s2) = (case s1 of [] \<Rightarrow> (False, s1)
                       | ch # r \<Rightarrow> if ch = CHR ''-'' then (True, r) else if ch = CHR ''+'' then (False, r) else (False, s1));
          ds = takeWhile isdigit s2
      in if ds = [] then (False, [], s) else (neg, ds, dropWhile isdigit s2))"

definition strtoll :: "string \<Rightarrow> int \<times> string" where
  "strtoll s =
     (let (neg, ds, rest) = scan_number s;
          v = (if neg then - int (dec_val ds) else int (dec_val ds))
      in (max (- (2 ^ 63)) (min (2 ^ 63 - 1) v), rest))"

definition strtoul :: "string \<Rightarrow> u64 \<times> string" where
  "strtoul s =
     (let (neg, ds, rest) = scan_number s; v = dec_val ds
      in (if v \<ge> 2 ^ 64 then - 1 else if neg then - of_nat v else of_nat v, rest))"

definition match_range :: "cmd_token \<Rightarrow> string \<Rightarrow> match_type option" where
  "match_range token str =
     do { c_assert (ct_type token = RANGE_TKN);
          let (val, endptr) = strtoll str;
          Some (if endptr \<noteq> [] then no_match
                else if val < ct_min token \<or> val > ct_max token then no_match else exact_match) }"

definition match_variable :: "cmd_token \<Rightarrow> string \<Rightarrow> match_type option" where
  "match_variable token word = do { c_assert (ct_type token = VARIABLE_TKN); Some exact_match }"

definition MAC_CHARS :: string where
  "MAC_CHARS = ''ABCDEFabcdef0123456789:''"

text \<open>The address check of \<open>match_mac\<close>: an early result, or the index reached and the input from there on.\<close>

fun mac_scan :: "nat \<Rightarrow> string \<Rightarrow> match_type + (nat \<times> string)" where
  "mac_scan i [] = Inr (i, [])"
| "mac_scan i (c # cs) =
     (if i \<ge> 17 \<or> c \<notin> set MAC_CHARS then Inr (i, c # cs)
      else if ((i + 1) mod 3 = 0) \<noteq> (c = CHR '':'') then Inl no_match
      else mac_scan (i + 1) cs)"

definition match_mac :: "string \<Rightarrow> bool \<Rightarrow> match_type" where
  "match_mac word prefix =
     (if length word > 17 + (if prefix then 3 else 0) then no_match
      else case mac_scan 0 word of
             Inl r \<Rightarrow> r
           | Inr (i, rest) \<Rightarrow>
               if i < 17 then (if rest = [] then partly_match else no_match)
               else if \<not> prefix then exact_match
               else (case rest of
                       [] \<Rightarrow> partly_match
                     | c # msk \<Rightarrow>
                         if c \<noteq> CHR ''/'' then no_match
                         else if msk = [] then partly_match
                         else (let (v, eptr) = strtoul msk; maskval = (ucast v :: u32)
                               in if eptr \<noteq> [] \<or> maskval > 48 then no_match else exact_match)))"

subsection \<open>The state machine for IPv6\<close>

datatype v6_state = STATE_START | STATE_COLON | STATE_DOUBLE | STATE_ADDR | STATE_DOT | STATE_SLASH | STATE_MASK

record v6 =
  v6_state :: v6_state
  v6_colons :: int
  v6_nums :: int
  v6_double :: int
  v6_sp :: "nat ptr"
  v6_pos :: nat

definition char_at :: "string \<Rightarrow> nat \<Rightarrow> char" where
  "char_at s i = (if i < length s then s ! i else NUL)"

definition v6_start :: "string \<Rightarrow> v6 \<Rightarrow> match_type + v6" where
  "v6_start s v =
     (let i = v6_pos v
      in if char_at s i = CHR '':''
         then if char_at s (i + 1) \<noteq> CHR '':'' \<and> char_at s (i + 1) \<noteq> NUL then Inl no_match
              else Inr (v\<lparr>v6_colons := v6_colons v - 1, v6_state := STATE_COLON\<rparr>)
         else Inr (v\<lparr>v6_sp := Some i, v6_state := STATE_ADDR\<rparr>))"

definition v6_colon :: "string \<Rightarrow> v6 \<Rightarrow> match_type + v6" where
  "v6_colon s v =
     (let c = char_at s (v6_pos v + 1); v1 = v\<lparr>v6_colons := v6_colons v + 1\<rparr>
      in if c = CHR ''/'' then Inl no_match
         else if c = CHR '':'' then Inr (v1\<lparr>v6_state := STATE_DOUBLE\<rparr>)
         else Inr (v1\<lparr>v6_sp := Some (v6_pos v + 1), v6_state := STATE_ADDR\<rparr>))"

definition v6_double_colon :: "string \<Rightarrow> v6 \<Rightarrow> match_type + v6" where
  "v6_double_colon s v =
     (let c = char_at s (v6_pos v + 1)
      in if v6_double v \<noteq> 0 then Inl no_match
         else if c = CHR '':'' then Inl no_match
         else Inr (v\<lparr>v6_colons := (if c \<noteq> NUL \<and> c \<noteq> CHR ''/'' then v6_colons v + 1 else v6_colons v),
                     v6_sp := Some (v6_pos v + 1),
                     v6_state := (if c = CHR ''/'' then STATE_SLASH else STATE_ADDR),
                     v6_double := v6_double v + 1,
                     v6_nums := v6_nums v + 1\<rparr>))"

definition v6_addr :: "string \<Rightarrow> v6 \<Rightarrow> (match_type + v6) option" where
  "v6_addr s v =
     (let i = v6_pos v; c = char_at s (i + 1)
      in if c = CHR '':'' \<or> c = CHR ''.'' \<or> c = NUL \<or> c = CHR ''/''
         then do { sp \<leftarrow> v6_sp v;
                   if int i - int sp > 3 then Some (Inl no_match)
                   else if \<exists>j \<in> set [sp ..< i + 1]. char_at s j = CHR ''/'' then Some (Inl no_match)
                   else let v1 = v\<lparr>v6_sp := Some (max sp (i + 1)), v6_nums := v6_nums v + 1\<rparr>
                        in Some (if c = CHR '':'' then Inr (v1\<lparr>v6_state := STATE_COLON\<rparr>)
                                 else if c = CHR ''.''
                                 then if v6_colons v \<noteq> 0 \<or> v6_double v \<noteq> 0 then Inr (v1\<lparr>v6_state := STATE_DOT\<rparr>)
                                      else Inl no_match
                                 else if c = CHR ''/'' then Inr (v1\<lparr>v6_state := STATE_SLASH\<rparr>)
                                 else Inr v1) }
         else Some (Inr v))"

definition v6_slash :: "string \<Rightarrow> v6 \<Rightarrow> match_type + v6" where
  "v6_slash s v = (if char_at s (v6_pos v + 1) = NUL then Inl partly_match else Inr (v\<lparr>v6_state := STATE_MASK\<rparr>))"

text \<open>The switch of one round of the loop, for the states that do not \<open>continue\<close>.\<close>

definition v6_switch :: "string \<Rightarrow> v6 \<Rightarrow> (match_type + v6) option" where
  "v6_switch s v =
     (case v6_state v of
        STATE_COLON \<Rightarrow> Some (v6_colon s v)
      | STATE_DOUBLE \<Rightarrow> Some (v6_double_colon s v)
      | STATE_ADDR \<Rightarrow> v6_addr s v
      | STATE_DOT \<Rightarrow> Some (Inr (v\<lparr>v6_state := STATE_ADDR\<rparr>))
      | STATE_SLASH \<Rightarrow> Some (v6_slash s v)
      | _ \<Rightarrow> Some (Inr v))"

definition v6_round :: "string \<Rightarrow> v6 \<Rightarrow> (match_type + v6) option" where
  "v6_round s v =
     (if v6_state v = STATE_START then Some (v6_start s v)
      else do { r \<leftarrow> v6_switch s v;
                case r of
                  Inl t \<Rightarrow> Some (Inl t)
                | Inr v1 \<Rightarrow>
                    if v6_nums v1 > 11 then Some (Inl no_match)
                    else if v6_colons v1 > 7 then Some (Inl no_match)
                    else Some (Inr (v1\<lparr>v6_pos := v6_pos v1 + 1\<rparr>)) })"

lemmas v6_defs =
  v6_start_def v6_colon_def v6_double_colon_def v6_addr_def v6_slash_def v6_switch_def v6_round_def

lemma v6_round_start:
  "v6_round s v = Some (Inr v') \<Longrightarrow> v6_state v = STATE_START \<Longrightarrow> v6_pos v' = v6_pos v \<and> v6_state v' \<noteq> STATE_START"
  by (auto simp: v6_round_def v6_start_def Let_def split: if_splits)

lemma v6_switch_step:
  "v6_switch s v = Some (Inr v') \<Longrightarrow> v6_state v \<noteq> STATE_START \<Longrightarrow> v6_pos v' = v6_pos v \<and> v6_state v' \<noteq> STATE_START"
  by (auto simp: v6_defs Let_def bind_Some_iff split: if_splits v6_state.splits)

lemma v6_round_step:
  assumes "v6_round s v = Some (Inr v')" "v6_state v \<noteq> STATE_START"
  shows "v6_pos v' = v6_pos v + 1 \<and> v6_state v' \<noteq> STATE_START"
proof -
  from assms obtain r where "v6_switch s v = Some r" by (auto simp: v6_round_def bind_Some_iff)
  with assms show ?thesis
    using v6_switch_step [of s v] by (cases r) (auto simp: v6_round_def split: if_splits)
qed

function v6_loop :: "string \<Rightarrow> v6 \<Rightarrow> (match_type + v6) option" where
  "v6_loop s v =
     (if v6_pos v < length s \<and> v6_state v \<noteq> STATE_MASK
      then do { r \<leftarrow> v6_round s v;
                case r of Inl t \<Rightarrow> Some (Inl t) | Inr v1 \<Rightarrow> v6_loop s v1 }
      else Some (Inr v))"
  by pat_completeness auto
termination
proof (relation "measure (\<lambda>(s, v). 2 * (length s - v6_pos v) + (if v6_state v = STATE_START then 1 else 0))")
  fix s v r v1
  assume "v6_pos v < length s \<and> v6_state v \<noteq> STATE_MASK" "v6_round s v = Some r" "r = Inr v1"
  with v6_round_start [of s v v1] v6_round_step [of s v v1]
  show "((s, v1), (s, v)) \<in> measure (\<lambda>(s, v). 2 * (length s - v6_pos v) + (if v6_state v = STATE_START then 1 else 0))"
    by (cases "v6_state v = STATE_START") auto
qed simp

declare v6_loop.simps [simp del]

definition IPV6_ADDR_STR :: string where
  "IPV6_ADDR_STR = ''0123456789abcdefABCDEF:.''"

definition IPV6_PREFIX_STR :: string where
  "IPV6_PREFIX_STR = ''0123456789abcdefABCDEF:./''"

text \<open>\<open>inet_pton(AF_INET6, s, ..) == 1\<close> is the parameter \<open>pton6\<close>; \<open>int mask = strtol(..)\<close> keeps the low 32 bits.\<close>

definition match_ipv6_prefix :: "(string \<Rightarrow> bool) \<Rightarrow> string \<Rightarrow> bool \<Rightarrow> match_type option" where
  "match_ipv6_prefix pton6 str prefix =
     (if \<not> set str \<subseteq> set (if prefix then IPV6_PREFIX_STR else IPV6_ADDR_STR) then Some no_match
      else do { r \<leftarrow> v6_loop str \<lparr>v6_state = STATE_START, v6_colons = 0, v6_nums = 0, v6_double = 0, v6_sp = None, v6_pos = 0\<rparr>;
                case r of
                  Inl t \<Rightarrow> Some t
                | Inr v \<Rightarrow>
                    if \<not> prefix then Some (if pton6 str then exact_match else partly_match)
                    else if v6_state v \<noteq> STATE_MASK then Some partly_match
                    else (let (val, endptr) = strtoll (drop (v6_pos v) str); msk = signed_take_bit 31 val
                          in Some (if endptr \<noteq> [] then no_match
                                   else if msk < 0 \<or> msk > 128 then no_match else exact_match)) })"

section \<open>Matching a token\<close>

definition match_token :: "(string \<Rightarrow> bool) \<Rightarrow> cmd_token \<Rightarrow> string ptr \<Rightarrow> match_type option" where
  "match_token pton6 token input_token =
     (case input_token of
        None \<Rightarrow> Some trivial_match
      | Some w \<Rightarrow>
          (case ct_type token of
             WORD_TKN \<Rightarrow> match_word token w
           | IPV4_TKN \<Rightarrow> Some (match_ipv4 w)
           | IPV4_PREFIX_TKN \<Rightarrow> match_ipv4_prefix w
           | IPV6_TKN \<Rightarrow> match_ipv6_prefix pton6 w False
           | IPV6_PREFIX_TKN \<Rightarrow> match_ipv6_prefix pton6 w True
           | RANGE_TKN \<Rightarrow> match_range token w
           | VARIABLE_TKN \<Rightarrow> match_variable token w
           | MAC_TKN \<Rightarrow> Some (match_mac w False)
           | MAC_PREFIX_TKN \<Rightarrow> Some (match_mac w True)
           | _ \<Rightarrow> Some no_match))"

end
