(* ===== verification/Command_Tokens_Laws.thy ===== *)
theory Command_Tokens_Laws
  imports Command_Tokens
begin

text \<open>
  What the token matchers accept: dotted quads and MAC addresses exactly, every beginning of a complete
  word, and for which inputs matching returns at all.
\<close>

section \<open>IPv4 addresses\<close>

lemma dot_not_digit [simp]: "\<not> isdigit CHR ''.''"
  by (simp add: isdigit_def char_code_def)

lemma slash_not_digit [simp]: "\<not> isdigit CHR ''/''"
  by (simp add: isdigit_def char_code_def)

lemma scan_octet_eq:
  "scan_octet dots sp str =
     (case dropWhile isdigit str of
        [] \<Rightarrow> Inr (sp @ takeWhile isdigit str, [], dots)
      | c # cs \<Rightarrow>
          if c \<noteq> CHR ''.'' \<or> dots \<ge> 3 \<or> cs \<noteq> [] \<and> hd cs = CHR ''.'' then Inl no_match
          else if cs = [] then Inl partly_match
          else Inr (sp @ takeWhile isdigit str, c # cs, dots + 1))"
proof (induction str arbitrary: sp)
  case (Cons c cs)
  show ?case
  proof (cases "isdigit c")
    case True
    then have "c \<noteq> CHR ''.''" "c \<noteq> CHR ''/''" by auto
    with True Cons show ?thesis by (cases "dropWhile isdigit cs") (simp_all del: dropWhile_eq_Nil_conv)
  qed auto
qed simp

lemma scan_octet_pfx_eq:
  "scan_octet_pfx dots sp str =
     (case dropWhile isdigit str of
        [] \<Rightarrow> Inr (sp @ takeWhile isdigit str, [], dots)
      | c # cs \<Rightarrow>
          if c = CHR ''/'' then Inr (sp @ takeWhile isdigit str, c # cs, dots)
          else if c \<noteq> CHR ''.'' \<or> dots = 3 \<or> cs \<noteq> [] \<and> (hd cs = CHR ''.'' \<or> hd cs = CHR ''/'') then Inl no_match
          else if cs = [] then Inl partly_match
          else Inr (sp @ takeWhile isdigit str, c # cs, dots + 1))"
proof (induction str arbitrary: sp)
  case (Cons c cs)
  show ?case
  proof (cases "isdigit c")
    case True
    then have "c \<noteq> CHR ''.''" "c \<noteq> CHR ''/''" by auto
    with True Cons show ?thesis by (cases "dropWhile isdigit cs") (simp_all del: dropWhile_eq_Nil_conv)
  qed auto
qed simp

text \<open>An octet as it is written: one to three digits, at most 255.\<close>

definition octet :: "string \<Rightarrow> bool" where
  "octet s \<longleftrightarrow> s \<noteq> [] \<and> list_all isdigit s \<and> octet_ok s"

lemma octet_Nil [simp]: "\<not> octet []"
  by (simp add: octet_def)

lemma octet_ok_Nil [simp]: "octet_ok []"
  by (simp add: octet_ok_def dec_val_def)

lemma split_digits:
  assumes "list_all isdigit ds" "\<not> isdigit c"
  shows "takeWhile isdigit (ds @ c # cs) = ds" "dropWhile isdigit (ds @ c # cs) = c # cs"
  using assms by (induction ds) auto

lemma all_digits:
  assumes "list_all isdigit ds"
  shows "takeWhile isdigit ds = ds" "dropWhile isdigit ds = []"
  using assms by (induction ds) auto

lemma dropWhile_digits_split:
  assumes "dropWhile isdigit s = c # cs"
  obtains ds where "list_all isdigit ds" "\<not> isdigit c" "s = ds @ c # cs"
proof
  show "list_all isdigit (takeWhile isdigit s)" by (auto simp: list_all_iff dest: set_takeWhileD)
  show "\<not> isdigit c" using assms by (metis hd_dropWhile list.sel(1) list.distinct(1))
  show "s = takeWhile isdigit s @ c # cs" by (metis assms takeWhile_dropWhile_id)
qed

lemma dropWhile_digits_Nil: "dropWhile isdigit s = [] \<Longrightarrow> list_all isdigit s"
  by (simp add: list_all_iff)

text \<open>The two ways an octet of a complete address ends.\<close>

lemma match_ipv4_last:
  "match_ipv4_from 3 3 s = exact_match \<longleftrightarrow> list_all isdigit s \<and> octet_ok s"
proof (cases "dropWhile isdigit s")
  case Nil
  then have "list_all isdigit s" by (rule dropWhile_digits_Nil)
  then show ?thesis by (subst match_ipv4_from.simps) (simp add: scan_octet_eq all_digits)
next
  case (Cons c cs)
  then have "\<not> list_all isdigit s" by (metis all_digits(2) list.distinct(1))
  with Cons show ?thesis by (subst match_ipv4_from.simps) (simp add: scan_octet_eq)
qed

lemma match_ipv4_more:
  assumes "k < 3"
  shows "match_ipv4_from k k s = exact_match \<longleftrightarrow>
    (\<exists>ds cs. s = ds @ CHR ''.'' # cs \<and> list_all isdigit ds \<and> octet_ok ds \<and> cs \<noteq> [] \<and> hd cs \<noteq> CHR ''.'' \<and>
       match_ipv4_from (k + 1) (k + 1) cs = exact_match)" (is "_ \<longleftrightarrow> ?R")
proof (cases "dropWhile isdigit s")
  case Nil
  then have d: "list_all isdigit s" by (rule dropWhile_digits_Nil)
  then have "CHR ''.'' \<notin> set s" by (auto simp: list_all_iff)
  with d assms show ?thesis by (subst match_ipv4_from.simps) (auto simp: scan_octet_eq all_digits)
next
  case (Cons c cs)
  then obtain ds where ds: "list_all isdigit ds" "\<not> isdigit c" "s = ds @ c # cs"
    by (rule dropWhile_digits_split)
  have "match_ipv4_from k k s = exact_match \<longleftrightarrow>
    c = CHR ''.'' \<and> octet_ok ds \<and> cs \<noteq> [] \<and> hd cs \<noteq> CHR ''.'' \<and> match_ipv4_from (k + 1) (k + 1) cs = exact_match"
    using assms ds by (subst match_ipv4_from.simps) (auto simp: scan_octet_eq split_digits)
  moreover have "ds' = ds \<and> cs' = cs \<and> c = CHR ''.''" if "s = ds' @ CHR ''.'' # cs'" "list_all isdigit ds'" for ds' cs'
    using that split_digits [of ds' "CHR ''.''" cs'] split_digits [OF ds(1,2), of cs] ds(3) by (metis dot_not_digit list.inject)
  ultimately show ?thesis using ds by blast
qed

lemma match_ipv4_moreI:
  assumes "k < 3" "list_all isdigit ds" "octet_ok ds" "cs \<noteq> [] \<and> hd cs \<noteq> CHR ''.''"
    and "match_ipv4_from (Suc k) (Suc k) cs = exact_match"
  shows "match_ipv4_from k k (ds @ CHR ''.'' # cs) = exact_match"
  unfolding match_ipv4_more [OF assms(1)] using assms by auto

text \<open>Past the first dot an octet is not empty.\<close>

lemma match_ipv4_more_octet:
  assumes "k < 3" "s \<noteq> []" "hd s \<noteq> CHR ''.''"
  shows "match_ipv4_from k k s = exact_match \<longleftrightarrow>
    (\<exists>ds cs. s = ds @ CHR ''.'' # cs \<and> octet ds \<and> cs \<noteq> [] \<and> hd cs \<noteq> CHR ''.'' \<and>
       match_ipv4_from (k + 1) (k + 1) cs = exact_match)"
  unfolding match_ipv4_more [OF assms(1)] octet_def using assms(2,3) by (metis append_Nil list.sel(1))

lemma octet_hd: "octet s \<Longrightarrow> s \<noteq> [] \<and> hd s \<noteq> CHR ''.''"
  by (cases s) (auto simp: octet_def)

lemma hd_octet_append: "octet a \<Longrightarrow> a @ t \<noteq> [] \<and> hd (a @ t) \<noteq> CHR ''.''"
  using octet_hd [of a] by auto

text \<open>
  \<open>match_ipv4\<close> reports an exact match for precisely four decimal octets separated by dots, each of one to three
  digits and at most 255, except that it also accepts an empty first octet, so that \<open>.1.2.3\<close> counts as a
  complete address.
\<close>

theorem match_ipv4_dotted_quad:
  "match_ipv4 s = exact_match \<longleftrightarrow>
     (\<exists>a b c d. s = a @ ''.'' @ b @ ''.'' @ c @ ''.'' @ d \<and> (a = [] \<or> octet a) \<and> octet b \<and> octet c \<and> octet d)"
  (is "_ \<longleftrightarrow> ?R")
proof
  assume "match_ipv4 s = exact_match"
  then obtain a r1 where 1: "s = a @ CHR ''.'' # r1" "list_all isdigit a" "octet_ok a" "r1 \<noteq> []" "hd r1 \<noteq> CHR ''.''"
      "match_ipv4_from 1 1 r1 = exact_match"
    unfolding match_ipv4_def using match_ipv4_more [of 0 s] by auto
  then obtain b r2 where 2: "r1 = b @ CHR ''.'' # r2" "octet b" "r2 \<noteq> []" "hd r2 \<noteq> CHR ''.''"
      "match_ipv4_from 2 2 r2 = exact_match"
    using match_ipv4_more_octet [of 1 r1] by (auto simp: numeral_2_eq_2)
  then obtain c d where 3: "r2 = c @ CHR ''.'' # d" "octet c" "d \<noteq> []" "match_ipv4_from 3 3 d = exact_match"
    using match_ipv4_more_octet [of 2 r2] by (auto simp: eval_nat_numeral)
  then have "octet d" by (simp add: match_ipv4_last octet_def)
  moreover have "a = [] \<or> octet a" using 1 by (simp add: octet_def)
  ultimately show ?R using 1(1) 2(1,2) 3(1,2) by auto
next
  assume ?R
  then obtain a b c d where s: "s = a @ CHR ''.'' # b @ CHR ''.'' # c @ CHR ''.'' # d"
      and o: "a = [] \<or> octet a" "octet b" "octet c" "octet d" by auto
  have 3: "match_ipv4_from 3 3 d = exact_match" using o(4) by (simp add: match_ipv4_last octet_def)
  have 2: "match_ipv4_from 2 2 (c @ CHR ''.'' # d) = exact_match"
    by (rule match_ipv4_moreI) (use 3 o octet_hd in \<open>auto simp: octet_def eval_nat_numeral\<close>)
  have 1: "match_ipv4_from 1 1 (b @ CHR ''.'' # c @ CHR ''.'' # d) = exact_match"
    by (rule match_ipv4_moreI) (use 2 o hd_octet_append [OF o(3)] in \<open>auto simp: octet_def numeral_2_eq_2\<close>)
  have "list_all isdigit a" "octet_ok a" using o(1) by (auto simp: octet_def)
  note first = this
  show "match_ipv4 s = exact_match"
    unfolding match_ipv4_def s
    by (rule match_ipv4_moreI) (use 1 first hd_octet_append [OF o(2)] in auto)
qed

section \<open>Beginnings of a complete word\<close>

lemma dec_val_append: "dec_val (p @ [c]) = 10 * dec_val p + digit_val c"
  by (simp add: dec_val_def)

lemma dec_val_mono: "dec_val p \<le> dec_val (p @ q)"
proof (induction q rule: rev_induct)
  case (snoc c q)
  then show ?case using dec_val_append [of "p @ q" c] by simp
qed simp

lemma octet_ok_prefix: "octet_ok (p @ q) \<Longrightarrow> octet_ok p"
  using dec_val_mono [of p q] by (auto simp: octet_ok_def)

text \<open>A beginning of \<open>ds @ c # cs\<close> ends inside \<open>ds\<close> or goes on past \<open>c\<close>.\<close>

lemma prefix_split:
  assumes "p @ q = ds @ c # cs"
  obtains r where "ds = p @ r" | cs' where "p = ds @ c # cs'" "cs = cs' @ q"
proof -
  from assms consider r where "p @ r = ds" | r where "p = ds @ r" "r @ q = c # cs"
    by (auto simp: append_eq_append_conv2)
  then show thesis
  proof cases
    case (2 r)
    then show thesis using that by (cases r) auto
  qed (use that in auto)
qed

lemma match_ipv4_digits:
  "list_all isdigit p \<Longrightarrow> octet_ok p \<Longrightarrow> match_ipv4_from k n p = (if n + 1 < 4 then partly_match else exact_match)"
  by (subst match_ipv4_from.simps) (simp add: scan_octet_eq all_digits)

lemma match_ipv4_prefix_of:
  assumes "k \<le> 3" "match_ipv4_from k k (p @ q) = exact_match"
  shows "match_ipv4_from k k p \<in> {partly_match, exact_match}"
  using assms
proof (induction "3 - k" arbitrary: k p)
  case 0
  then have "list_all isdigit p \<and> octet_ok p"
    using match_ipv4_last [of "p @ q"] octet_ok_prefix by auto
  then show ?case by (simp add: match_ipv4_digits)
next
  case (Suc j)
  then have k: "k < 3" by simp
  with Suc.prems(2) obtain ds cs where s: "p @ q = ds @ CHR ''.'' # cs"
    and ds: "list_all isdigit ds" "octet_ok ds" "cs \<noteq> []" "hd cs \<noteq> CHR ''.''"
    and more: "match_ipv4_from (k + 1) (k + 1) cs = exact_match"
    using match_ipv4_more by blast
  from s show ?case
  proof (cases rule: prefix_split)
    case (1 r)
    with ds octet_ok_prefix show ?thesis by (auto simp: match_ipv4_digits)
  next
    case (2 cs')
    have "match_ipv4_from (k + 1) (k + 1) cs' \<in> {partly_match, exact_match}"
      using Suc.hyps(1) [of "k + 1" cs'] Suc.hyps(2) k more 2(2) by simp
    then show ?thesis
      using 2 ds k by (subst match_ipv4_from.simps) (auto simp: scan_octet_eq split_digits)
  qed
qed

lemma atoi_all_digits:
  assumes "list_all isdigit s" "s \<noteq> []"
  shows "atoi s = (if dec_val s < 2 ^ 31 then Some (int (dec_val s)) else None)"
proof -
  from assms obtain c cs where s: "s = c # cs" "isdigit c" by (cases s) auto
  then have "\<not> isspace c" "c \<noteq> CHR ''-''" "c \<noteq> CHR ''+''"
    by (auto simp: isdigit_def isspace_def char_code_def)
  with s assms(1) show ?thesis by (auto simp: atoi_def all_digits)
qed

lemma match_mask_exact:
  "sp \<noteq> [] \<Longrightarrow> match_mask sp = Some exact_match \<longleftrightarrow> list_all isdigit sp \<and> dec_val sp \<le> 32"
  by (auto simp: match_mask_def atoi_all_digits list_all_iff bind_Some_iff split: if_splits)

text \<open>How a complete prefix begins.\<close>

lemma match_ipv4_prefix_more:
  assumes "match_ipv4_prefix_from k s = Some exact_match"
  obtains ds c cs where "s = ds @ c # cs" "list_all isdigit ds" "octet_ok ds" "\<not> isdigit c"
    "c = CHR ''/'' \<and> k = 3 \<and> cs \<noteq> [] \<and> match_mask cs = Some exact_match \<or>
     c = CHR ''/'' \<and> k \<noteq> 3 \<and> match_ipv4_prefix_from k cs = Some exact_match \<or>
     c = CHR ''.'' \<and> k \<noteq> 3 \<and> cs \<noteq> [] \<and> hd cs \<noteq> CHR ''.'' \<and> hd cs \<noteq> CHR ''/'' \<and>
       match_ipv4_prefix_from (k + 1) cs = Some exact_match"
proof (cases "dropWhile isdigit s")
  case Nil
  with assms show thesis by (subst (asm) match_ipv4_prefix_from.simps) (simp add: scan_octet_pfx_eq split: if_splits)
next
  case (Cons c cs)
  then obtain ds where ds: "list_all isdigit ds" "\<not> isdigit c" "s = ds @ c # cs"
    by (rule dropWhile_digits_split)
  show thesis
  proof (rule that [OF ds(3,1) _ ds(2)])
    show "octet_ok ds" using assms ds
      by (subst (asm) match_ipv4_prefix_from.simps) (auto simp: scan_octet_pfx_eq split_digits split: if_splits)
  qed (use assms ds in \<open>subst (asm) match_ipv4_prefix_from.simps, auto simp: scan_octet_pfx_eq split_digits split: if_splits\<close>)
qed

lemma match_ipv4_prefix_digits:
  "list_all isdigit p \<Longrightarrow> octet_ok p \<Longrightarrow> match_ipv4_prefix_from k p = Some partly_match"
  by (subst match_ipv4_prefix_from.simps) (simp add: scan_octet_pfx_eq all_digits)

lemma match_mask_prefix:
  assumes "match_mask (p @ q) = Some exact_match" "p \<noteq> []"
  shows "match_mask p = Some exact_match"
  using assms dec_val_mono [of p q] by (simp add: match_mask_exact)

lemma match_ipv4_prefix_prefix_of:
  assumes "match_ipv4_prefix_from k (p @ q) = Some exact_match"
  shows "match_ipv4_prefix_from k p \<in> {Some partly_match, Some exact_match}"
  using assms
proof (induction "length p" arbitrary: k p rule: less_induct)
  case less
  from less.prems obtain ds c cs where s: "p @ q = ds @ c # cs" and ds: "list_all isdigit ds" "octet_ok ds" "\<not> isdigit c"
    and alt: "c = CHR ''/'' \<and> k = 3 \<and> cs \<noteq> [] \<and> match_mask cs = Some exact_match \<or>
      c = CHR ''/'' \<and> k \<noteq> 3 \<and> match_ipv4_prefix_from k cs = Some exact_match \<or>
      c = CHR ''.'' \<and> k \<noteq> 3 \<and> cs \<noteq> [] \<and> hd cs \<noteq> CHR ''.'' \<and> hd cs \<noteq> CHR ''/'' \<and>
        match_ipv4_prefix_from (k + 1) cs = Some exact_match"
    by (rule match_ipv4_prefix_more)
  from s show ?case
  proof (cases rule: prefix_split)
    case (1 r)
    with ds octet_ok_prefix show ?thesis by (auto simp: match_ipv4_prefix_digits)
  next
    case (2 cs')
    have "length cs' < length p" using 2(1) by simp
    note IH = less.hyps [OF this]
    from alt show ?thesis
    proof (elim disjE)
      assume a: "c = CHR ''/'' \<and> k = 3 \<and> cs \<noteq> [] \<and> match_mask cs = Some exact_match"
      then have "cs' \<noteq> [] \<Longrightarrow> match_mask cs' = Some exact_match" using 2(2) match_mask_prefix by blast
      with a 2 ds show ?thesis
        by (subst match_ipv4_prefix_from.simps) (auto simp: scan_octet_pfx_eq split_digits)
    next
      assume a: "c = CHR ''/'' \<and> k \<noteq> 3 \<and> match_ipv4_prefix_from k cs = Some exact_match"
      then have "match_ipv4_prefix_from k cs' \<in> {Some partly_match, Some exact_match}" using IH 2(2) by blast
      with a 2 ds show ?thesis
        by (subst match_ipv4_prefix_from.simps) (auto simp: scan_octet_pfx_eq split_digits)
    next
      assume a: "c = CHR ''.'' \<and> k \<noteq> 3 \<and> cs \<noteq> [] \<and> hd cs \<noteq> CHR ''.'' \<and> hd cs \<noteq> CHR ''/'' \<and>
        match_ipv4_prefix_from (k + 1) cs = Some exact_match"
      then have "match_ipv4_prefix_from (k + 1) cs' \<in> {Some partly_match, Some exact_match}" using IH 2(2) by blast
      with a 2 ds show ?thesis
        by (subst match_ipv4_prefix_from.simps) (auto simp: scan_octet_pfx_eq split_digits)
    qed
  qed
qed

section \<open>MAC addresses\<close>

definition mac_pos_ok :: "nat \<Rightarrow> char \<Rightarrow> bool" where
  "mac_pos_ok i c \<longleftrightarrow> c \<in> set MAC_CHARS \<and> ((i + 1) mod 3 = 0) = (c = CHR '':'')"

lemma mac_scan_ok:
  "(\<And>k. k < length w \<Longrightarrow> mac_pos_ok (i + k) (w ! k)) \<Longrightarrow> i + length w \<le> 17 \<Longrightarrow> mac_scan i w = Inr (i + length w, [])"
proof (induction w arbitrary: i)
  case (Cons c cs)
  have "mac_scan (i + 1) cs = Inr (i + 1 + length cs, [])"
    using Cons.prems Cons.prems(1) [of "Suc _"] by (intro Cons.IH) fastforce+
  with Cons.prems(1) [of 0] Cons.prems(2) show ?case by (simp add: mac_pos_ok_def)
qed simp

lemma mac_scan_full:
  "mac_scan i w = Inr (17, rest) \<Longrightarrow> i \<le> 17 \<Longrightarrow>
     i + length w = 17 + length rest \<and> (\<forall>k < 17 - i. mac_pos_ok (i + k) (w ! k))"
proof (induction w arbitrary: i)
  case (Cons c cs)
  show ?case
  proof (cases "i = 17")
    case False
    with Cons.prems have ok: "mac_pos_ok i c" and rec: "mac_scan (i + 1) cs = Inr (17, rest)" and i: "i + 1 \<le> 17"
      by (auto simp: mac_pos_ok_def split: if_splits)
    have "mac_pos_ok (i + k) ((c # cs) ! k)" if "k < 17 - i" for k
      using ok Cons.IH [OF rec i] that by (cases k) auto
    with Cons.IH [OF rec i] show ?thesis by auto
  qed (use Cons.prems in auto)
qed simp

lemma mac_scan_index: "mac_scan i w = Inr (j, rest) \<Longrightarrow> i \<le> 17 \<Longrightarrow> j \<le> 17"
  by (induction i w rule: mac_scan.induct) (auto split: if_splits)

lemma mac_scan_result: "mac_scan i w = Inl r \<Longrightarrow> r = no_match"
  by (induction i w rule: mac_scan.induct) (auto split: if_splits)

lemma match_mac_exact:
  "match_mac w False = exact_match \<longleftrightarrow> length w = 17 \<and> (\<forall>i < 17. mac_pos_ok i (w ! i))"
proof
  assume e: "match_mac w False = exact_match"
  then obtain i rest where r: "mac_scan 0 w = Inr (i, rest)" "\<not> i < 17" "length w \<le> 17"
    by (auto simp: match_mac_def split: sum.splits if_splits dest: mac_scan_result)
  then have "i = 17" using mac_scan_index [OF r(1)] by simp
  with r mac_scan_full [of 0 w rest] show "length w = 17 \<and> (\<forall>i < 17. mac_pos_ok i (w ! i))" by simp
next
  assume a: "length w = 17 \<and> (\<forall>i < 17. mac_pos_ok i (w ! i))"
  then have "mac_scan 0 w = Inr (0 + length w, [])" by (intro mac_scan_ok) auto
  with a show "match_mac w False = exact_match" by (simp add: match_mac_def)
qed



section \<open>Matching returns\<close>

definition v6_ok :: "v6 \<Rightarrow> bool" where
  "v6_ok v \<longleftrightarrow> v6_state v \<in> {STATE_ADDR, STATE_DOT} \<longrightarrow> v6_sp v \<noteq> None"

lemma v6_switch_ok:
  assumes "v6_ok v"
  shows "\<exists>r. v6_switch s v = Some r \<and> (\<forall>v'. r = Inr v' \<longrightarrow> v6_ok v')"
proof (cases "v6_state v")
  case STATE_ADDR
  with assms obtain sp where "v6_sp v = Some sp" by (auto simp: v6_ok_def)
  with STATE_ADDR show ?thesis by (simp add: v6_switch_def v6_addr_def v6_ok_def Let_def)
qed (use assms in \<open>auto simp: v6_defs v6_ok_def Let_def\<close>)

lemma v6_round_ok:
  assumes "v6_ok v"
  shows "\<exists>r. v6_round s v = Some r \<and> (\<forall>v'. r = Inr v' \<longrightarrow> v6_ok v')"
proof (cases "v6_state v = STATE_START")
  case True
  then show ?thesis by (auto simp: v6_round_def v6_start_def v6_ok_def Let_def)
next
  case False
  from v6_switch_ok [OF assms] obtain r where r: "v6_switch s v = Some r" "\<forall>v'. r = Inr v' \<longrightarrow> v6_ok v'" by blast
  with False show ?thesis by (cases r) (auto simp: v6_round_def v6_ok_def)
qed

lemma v6_loop_total: "v6_ok v \<Longrightarrow> \<exists>r. v6_loop s v = Some r"
proof (induction s v rule: v6_loop.induct)
  case (1 s v)
  show ?case
  proof (cases "v6_pos v < length s \<and> v6_state v \<noteq> STATE_MASK")
    case True
    from v6_round_ok [OF "1.prems"] obtain r where r: "v6_round s v = Some r" "\<forall>v'. r = Inr v' \<longrightarrow> v6_ok v'" by blast
    show ?thesis
    proof (cases r)
      case (Inr v')
      with "1.IH" [OF True r(1)] r True show ?thesis by (subst v6_loop.simps) simp
    qed (use r True in \<open>subst v6_loop.simps, simp\<close>)
  qed (subst v6_loop.simps, auto)
qed

lemma match_ipv6_prefix_total: "\<exists>r. match_ipv6_prefix pton6 w b = Some r"
proof -
  let ?v = "\<lparr>v6_state = STATE_START, v6_colons = 0, v6_nums = 0, v6_double = 0, v6_sp = None, v6_pos = 0\<rparr>"
  obtain r where "v6_loop w ?v = Some r" using v6_loop_total [of ?v w] by (auto simp: v6_ok_def)
  then show ?thesis by (cases r) (auto simp: match_ipv6_prefix_def Let_def split: prod.split)
qed

text \<open>A token that matching can read, and an input whose digits never overflow \<open>atoi\<close>.\<close>

definition token_ok :: "cmd_token \<Rightarrow> bool" where
  "token_ok token \<longleftrightarrow> (ct_type token = WORD_TKN \<longrightarrow> ct_text token \<noteq> None)"

definition word_ok :: "string \<Rightarrow> bool" where
  "word_ok w \<longleftrightarrow> match_ipv4_prefix w \<noteq> None"

lemma match_token_total:
  assumes "token_ok token" "\<And>w. input_token = Some w \<Longrightarrow> word_ok w"
  shows "\<exists>r. match_token pton6 token input_token = Some r"
  using assms match_ipv6_prefix_total
  by (cases "ct_type token")
    (auto simp: match_token_def token_ok_def word_ok_def match_word_def match_range_def match_variable_def
      split: option.split prod.split)

text \<open>Every word without an overlong number is such an input.\<close>

lemma match_mask_total:
  assumes "length sp \<le> 9" "sp \<noteq> []"
  shows "match_mask sp \<noteq> None"
proof (cases "list_all isdigit sp")
  case True
  have "dec_val ds < 10 ^ length ds" if "list_all isdigit ds" for ds
    using that
  proof (induction ds rule: rev_induct)
    case (snoc c ds)
    then have "digit_val c \<le> 9" by (auto simp: isdigit_def digit_val_def)
    with snoc show ?case by (simp add: dec_val_append)
  qed (simp add: dec_val_def)
  from this [OF True] have "dec_val sp < 10 ^ length sp" .
  also have "(10 :: nat) ^ length sp \<le> 10 ^ 9" using assms(1) by (rule power_increasing) simp
  finally have "dec_val sp < 2 ^ 31" by simp
  with True assms(2) show ?thesis by (simp add: match_mask_def atoi_all_digits list_all_iff)
qed (auto simp: match_mask_def list_all_iff)

lemma word_ok_short:
  assumes "length w \<le> 9"
  shows "word_ok w"
proof -
  have "match_ipv4_prefix_from k w \<noteq> None" if "length w \<le> 9" for k
    using that
  proof (induction k w rule: match_ipv4_prefix_from.induct)
    case (1 k w)
    show ?case
    proof (cases "scan_octet_pfx k [] w")
      case (Inr b)
      obtain oct rest k' where b: "b = (oct, rest, k')" by (cases b)
      have len: "length rest \<le> length w" using scan_octet_pfx_suffix Inr b by blast
      show ?thesis
      proof (cases rest)
        case (Cons c cs)
        with len 1 Inr b match_mask_total [of cs] show ?thesis
          by (subst match_ipv4_prefix_from.simps) (auto split: if_splits)
      qed (use Inr b in \<open>subst match_ipv4_prefix_from.simps, simp\<close>)
    qed (subst match_ipv4_prefix_from.simps, simp)
  qed
  with assms show ?thesis by (simp add: word_ok_def match_ipv4_prefix_def)
qed

text \<open>A token other than a keyword and the start node is matched exactly or not at all.\<close>

lemma min_match_exact:
  "type \<noteq> WORD_TKN \<Longrightarrow> type \<noteq> START_TKN \<Longrightarrow> min_match_level type \<le> r \<Longrightarrow> r = exact_match"
  by (cases r; cases type) (auto simp: min_match_level_def less_eq_match_type_def match_level_def)

end
