(* ===== verification/Command_Match.thy ===== *)
theory Command_Match
  imports Graphs Command_Tokens_Laws
begin

text \<open>
  Matching a line of input against the command graph: \<open>command_match\<close> and \<open>command_complete\<close> of
  \<open>libvui/src/vui/lib/command_match.c\<close>.

  The data of a graph node is a token, or, in the node behind an \<open>END_TKN\<close>, the command itself; reading one as
  the other is \<^term>\<open>None\<close>. The lists of the source are HOL lists in the order of their nodes. Lists of
  arguments are never shared and their release is not modelled.
\<close>

datatype 'e node_data = Token cmd_token | Element 'e

type_synonym 'e cmem = "'e node_data gmem"
type_synonym 'e arglist = "'e node_data list"

fun as_token :: "'e node_data \<Rightarrow> cmd_token option" where
  "as_token (Token t) = Some t"
| "as_token (Element e) = None"

fun as_element :: "'e node_data \<Rightarrow> 'e option" where
  "as_element (Token t) = None"
| "as_element (Element e) = Some e"

definition node_token :: "'e cmem \<Rightarrow> nat \<Rightarrow> cmd_token option" where
  "node_token m a = do { n \<leftarrow> g_cells m a; d \<leftarrow> g_data n; as_token d }"

datatype matcher_rv = MATCHER_NO_MATCH | MATCHER_INCOMPLETE | MATCHER_AMBIGUOUS | MATCHER_OK

definition rv_level :: "matcher_rv \<Rightarrow> nat" where
  "rv_level r = (case r of MATCHER_NO_MATCH \<Rightarrow> 0 | MATCHER_INCOMPLETE \<Rightarrow> 1 | MATCHER_AMBIGUOUS \<Rightarrow> 2 | MATCHER_OK \<Rightarrow> 3)"

instantiation matcher_rv :: linorder
begin

definition less_eq_matcher_rv :: "matcher_rv \<Rightarrow> matcher_rv \<Rightarrow> bool" where
  "s \<le> t \<longleftrightarrow> rv_level s \<le> rv_level t"

definition less_matcher_rv :: "matcher_rv \<Rightarrow> matcher_rv \<Rightarrow> bool" where
  "s < t \<longleftrightarrow> rv_level s < rv_level t"

instance
  by standard (auto simp: less_eq_matcher_rv_def less_matcher_rv_def rv_level_def split: matcher_rv.splits)

end

definition MATCHER_ERROR :: "matcher_rv \<Rightarrow> bool" where
  "MATCHER_ERROR r \<longleftrightarrow> r = MATCHER_INCOMPLETE \<or> r = MATCHER_NO_MATCH \<or> r = MATCHER_AMBIGUOUS"

definition CMD_ARGC_MAX :: nat where "CMD_ARGC_MAX = 256"

section \<open>Next hops\<close>

text \<open>A loop that appends to a list; its body may fail to return normally.\<close>

fun collect :: "('a \<Rightarrow> 'b list option) \<Rightarrow> 'a list \<Rightarrow> 'b list option" where
  "collect f [] = Some []"
| "collect f (x # xs) = do { a \<leftarrow> f x; b \<leftarrow> collect f xs; Some (a @ b) }"

definition on_stack :: "nat list ptr \<Rightarrow> nat \<Rightarrow> bool" where
  "on_stack stack child = (case stack of None \<Rightarrow> False | Some s \<Rightarrow> child \<in> set s)"

text \<open>
  With a stack the entries added are new stacks, the child followed by the old stack; without one they are the
  children alone, here as lists of one element. The first argument bounds the depth of the recursion
  through special tokens; \<open>add_nexthops_total\<close> shows that one more than the number of addresses is enough
  unless a cycle of special tokens makes the recursion endless.
\<close>

fun add_nexthops :: "nat \<Rightarrow> 'e cmem \<Rightarrow> nat \<Rightarrow> nat list ptr \<Rightarrow> nat list list option" where
  "add_nexthops 0 m node stack = None"
| "add_nexthops (Suc fuel) m node stack =
     do { n \<leftarrow> g_cells m node;
          collect (\<lambda>i. do { p \<leftarrow> rd (index (g_to n)) i;
                            child \<leftarrow> p;
                            token \<leftarrow> node_token m child;
                            if \<not> ct_allowrepeat token \<and> on_stack stack child then Some []
                            else if special (ct_type token) \<and> ct_type token \<noteq> END_TKN
                            then add_nexthops fuel m child stack
                            else Some [child # (case stack of None \<Rightarrow> [] | Some s \<Rightarrow> s)] })
            [0 ..< active (g_to n)] }"

definition nexthops :: "'e cmem \<Rightarrow> nat \<Rightarrow> nat list ptr \<Rightarrow> nat list list option" where
  "nexthops m = add_nexthops (Suc (g_next m)) m"

section \<open>The better of two matches\<close>

datatype pick = Neither | First | Second

definition disambiguate_tokens :: "(string \<Rightarrow> bool) \<Rightarrow> cmd_token \<Rightarrow> cmd_token \<Rightarrow> string ptr \<Rightarrow> pick option" where
  "disambiguate_tokens pton6 first second input_token =
     (if ct_type first \<noteq> ct_type second
      then let firstprec = score_precedence (ct_type first); secndprec = score_precedence (ct_type second)
           in Some (if firstprec \<noteq> secndprec then (if firstprec < secndprec then First else Second) else Neither)
      else do { fmtype \<leftarrow> match_token pton6 first input_token;
                smtype \<leftarrow> match_token pton6 second input_token;
                Some (if fmtype \<noteq> smtype then (if fmtype > smtype then First else Second) else Neither) })"

fun list_data :: "'a list \<Rightarrow> 'a option" where
  "list_data [] = None"
| "list_data (x # xs) = Some x"

fun disambiguate_from :: "(string \<Rightarrow> bool) \<Rightarrow> string ptr list \<Rightarrow> 'e arglist \<Rightarrow> 'e arglist \<Rightarrow> pick option" where
  "disambiguate_from pton6 [] fs ss = do { list_data fs; list_data ss; Some Neither }"
| "disambiguate_from pton6 (token # toks) fs ss =
     do { fd \<leftarrow> list_data fs;
          sd \<leftarrow> list_data ss;
          ftok \<leftarrow> as_token fd;
          stok \<leftarrow> as_token sd;
          best \<leftarrow> disambiguate_tokens pton6 ftok stok token;
          if best \<noteq> Neither then Some best else disambiguate_from pton6 toks (tl fs) (tl ss) }"

definition disambiguate :: "(string \<Rightarrow> bool) \<Rightarrow> 'e arglist \<Rightarrow> 'e arglist \<Rightarrow> string ptr list \<Rightarrow> pick option" where
  "disambiguate pton6 first second toks =
     do { c_assert (length first = length second);
          c_assert (length first = length toks + 1);
          disambiguate_from pton6 toks first second }"

section \<open>Matching\<close>

text \<open>
  One step of the loop of \<open>command_match_r\<close> with a best match so far and the match of a child; the status
  and best match after it.
\<close>

definition save_best ::
  "(string \<Rightarrow> bool) \<Rightarrow> string ptr list \<Rightarrow> matcher_rv \<Rightarrow> 'e arglist ptr \<Rightarrow> matcher_rv \<Rightarrow> 'e arglist ptr \<Rightarrow>
     (matcher_rv \<times> 'e arglist ptr) option" where
  "save_best pton6 rest status currbest rstat result =
     (case (result, currbest) of
        (Some r, Some b) \<Rightarrow>
          do { newbest \<leftarrow> disambiguate pton6 b r rest;
               Some (if newbest = Neither then MATCHER_AMBIGUOUS
                     else if newbest = First \<and> status = MATCHER_AMBIGUOUS then MATCHER_AMBIGUOUS
                     else if newbest = Second \<and> rstat = MATCHER_AMBIGUOUS then MATCHER_AMBIGUOUS
                     else MATCHER_OK,
                     Some (if newbest = Second then r else b)) }
      | (Some r, None) \<Rightarrow> Some (rstat, Some r)
      | (None, Some b) \<Rightarrow> Some (status, Some b)
      | (None, None) \<Rightarrow> Some (max rstat status, None))"

text \<open>
  \<open>command_match_r\<close> and its loop over the next hops. The input is the part of \<open>vline\<close> from \<open>n\<close> on, and
  \<open>stack\<close> holds the \<open>n\<close> entries that are valid, so that \<open>n + 1 == vector_active(vline)\<close> says that nothing
  is left after the current word.
\<close>

function command_match_r ::
    "(string \<Rightarrow> bool) \<Rightarrow> 'e cmem \<Rightarrow> string ptr list \<Rightarrow> nat \<Rightarrow> nat list \<Rightarrow> (matcher_rv \<times> 'e arglist ptr) option"
  and match_children ::
    "(string \<Rightarrow> bool) \<Rightarrow> 'e cmem \<Rightarrow> string ptr list \<Rightarrow> nat list \<Rightarrow> nat list \<Rightarrow> matcher_rv \<Rightarrow> 'e arglist ptr \<Rightarrow>
       (matcher_rv \<times> 'e arglist ptr) option" where
  "command_match_r pton6 m [] start stack = None"
| "command_match_r pton6 m (input_token # rest) start stack =
     do { token \<leftarrow> node_token m start;
          if length stack = CMD_ARGC_MAX then Some (MATCHER_NO_MATCH, None)
          else if \<not> ct_allowrepeat token \<and> start \<in> set stack then Some (MATCHER_NO_MATCH, None)
          else do { mt \<leftarrow> match_token pton6 token input_token;
                    if mt < min_match_level (ct_type token) then Some (MATCHER_NO_MATCH, None)
                    else do { next \<leftarrow> nexthops m start None;
                              (status, currbest) \<leftarrow>
                                match_children pton6 m rest (map hd next) (stack @ [start]) MATCHER_NO_MATCH None;
                              case currbest of
                                Some b \<Rightarrow> do { arg \<leftarrow> input_token;
                                              Some (status, Some (Token ((cmd_token_dup token)\<lparr>ct_arg := Some arg\<rparr>) # b)) }
                              | None \<Rightarrow> Some (if rest = [] \<and> status = MATCHER_NO_MATCH then MATCHER_INCOMPLETE else status,
                                             None) } } }"
| "match_children pton6 m rest [] stack status currbest = Some (status, currbest)"
| "match_children pton6 m rest (gn # gns) stack status currbest =
     (if rest = []
      then do { tok \<leftarrow> node_token m gn;
                if ct_type tok = END_TKN
                then (case currbest of
                        Some b \<Rightarrow> Some (MATCHER_AMBIGUOUS, currbest)
                      | None \<Rightarrow> do { n \<leftarrow> g_cells m gn;
                                    p \<leftarrow> rd (index (g_to n)) 0;
                                    leaf \<leftarrow> p;
                                    l \<leftarrow> g_cells m leaf;
                                    el \<leftarrow> g_data l;
                                    match_children pton6 m rest gns stack MATCHER_OK (Some [el]) })
                else match_children pton6 m rest gns stack status currbest }
      else do { (rstat, result) \<leftarrow> command_match_r pton6 m rest gn stack;
                (status', currbest') \<leftarrow> save_best pton6 rest status currbest rstat result;
                match_children pton6 m rest gns stack status' currbest' })"
  by pat_completeness auto
termination
  by (relation "inv_image (less_than <*lex*> less_than)
        (\<lambda>x. case x of Inl (pton6, m, toks, start, stack) \<Rightarrow> (2 * length toks, 0)
                      | Inr (pton6, m, rest, gns, stack, status, best) \<Rightarrow> (2 * length rest + 1, length gns))")
    auto

declare command_match_r.simps [simp del] match_children.simps [simp del]

text \<open>The copy of the input with a dummy word for the start node.\<close>

definition prepend_dummy :: "string vector \<Rightarrow> string vector option" where
  "prepend_dummy vline =
     do { (v, _) \<leftarrow> vector_set_index (vector_init (alloced vline + 1)) 0 (Some ''dummy'');
          c_assert (alloced vline \<le> length (index vline) \<and> alloced vline + 1 \<le> length (index v));
          Some (v\<lparr>index := take 1 (index v) @ take (alloced vline) (index vline) @ drop (alloced vline + 1) (index v),
                  active := active vline + 1\<rparr>) }"

text \<open>The result: the status, the list of arguments and the command; \<open>el\<close> is what the caller had there before.\<close>

definition command_match ::
  "(string \<Rightarrow> bool) \<Rightarrow> 'e cmem \<Rightarrow> graph \<Rightarrow> string vector \<Rightarrow> 'e ptr \<Rightarrow> (matcher_rv \<times> 'e arglist ptr \<times> 'e ptr) option" where
  "command_match pton6 m cmdgraph vline el =
     do { vvline \<leftarrow> prepend_dummy vline;
          c_assert (active vvline \<le> length (index vvline));
          p \<leftarrow> rd (index (nodes cmdgraph)) 0;
          start \<leftarrow> p;
          (status, argv) \<leftarrow> command_match_r pton6 m (vec_slots vvline) start [];
          if status = MATCHER_OK
          then do { b \<leftarrow> argv;
                    c_assert (length b \<ge> 2);
                    e \<leftarrow> as_element (last b);
                    Some (status, Some (butlast (tl b)), Some e) }
          else Some (status, None, el) }"

section \<open>Completion\<close>

text \<open>The search for an exact match among the current nodes, which stops at the first.\<close>

fun exact_match_exists :: "(string \<Rightarrow> bool) \<Rightarrow> 'e cmem \<Rightarrow> string ptr \<Rightarrow> nat list list \<Rightarrow> bool option" where
  "exact_match_exists pton6 m input_token [] = Some False"
| "exact_match_exists pton6 m input_token (gstack # current) =
     do { a \<leftarrow> list_data gstack;
          token \<leftarrow> node_token m a;
          mt \<leftarrow> match_token pton6 token input_token;
          if mt = exact_match then Some True else exact_match_exists pton6 m input_token current }"

definition complete_one ::
  "(string \<Rightarrow> bool) \<Rightarrow> 'e cmem \<Rightarrow> string ptr \<Rightarrow> bool \<Rightarrow> bool \<Rightarrow> nat list \<Rightarrow> nat list list option" where
  "complete_one pton6 m input_token last_token exact gstack =
     do { a \<leftarrow> list_data gstack;
          token \<leftarrow> node_token m a;
          if ct_attr token = CMD_ATTR_HIDDEN \<or> ct_attr token = CMD_ATTR_DEPRECATED then Some []
          else do { matchtype \<leftarrow> match_token pton6 token input_token;
                    if matchtype = trivial_match then do { c_assert last_token; Some [[a]] }
                    else if matchtype = no_match then Some []
                    else if matchtype = partly_match \<and> exact \<and> \<not> last_token then Some []
                    else if last_token then Some [[a]]
                    else if matchtype \<ge> min_match_level (ct_type token) then nexthops m a (Some gstack)
                    else Some [] } }"

fun complete_loop :: "(string \<Rightarrow> bool) \<Rightarrow> 'e cmem \<Rightarrow> string ptr list \<Rightarrow> nat list list \<Rightarrow> nat list list option" where
  "complete_loop pton6 m [] next = Some next"
| "complete_loop pton6 m (input_token # rest) next =
     (if next = [] then Some next
      else do { exact \<leftarrow> exact_match_exists pton6 m input_token next;
                next' \<leftarrow> collect (complete_one pton6 m input_token (rest = []) exact) next;
                complete_loop pton6 m rest next' })"

text \<open>The loop ends with entries left only when it has seen all the input.\<close>

definition command_complete ::
  "(string \<Rightarrow> bool) \<Rightarrow> 'e cmem \<Rightarrow> graph \<Rightarrow> string vector \<Rightarrow> (matcher_rv \<times> cmd_token list ptr) option" where
  "command_complete pton6 m graph vline =
     do { p \<leftarrow> rd (index (nodes graph)) 0;
          start \<leftarrow> p;
          next \<leftarrow> nexthops m start (Some []);
          c_assert (active vline \<le> length (index vline));
          next' \<leftarrow> complete_loop pton6 m (vec_slots vline) next;
          let mrv = (if next' \<noteq> [] then MATCHER_OK else MATCHER_NO_MATCH);
          completions \<leftarrow> (if MATCHER_ERROR mrv then Some None
                          else map_option Some
                            (collect (\<lambda>gstack. do { a \<leftarrow> list_data gstack; t \<leftarrow> node_token m a; Some [t] }) next'));
          Some (mrv, completions) }"

end
