(* ===== verification/Command_Match_Laws.thy ===== *)
theory Command_Match_Laws
  imports Command_Match "HOL-Library.List_Lexorder"
begin

text \<open>
  The matcher against its specification: the next hops of a node are the nodes reached through special tokens,
  matching selects the best of all paths of the graph that accept the input, and completion only offers
  tokens that can continue it.
\<close>

section \<open>Loops that collect\<close>

lemma collect_total:
  assumes "\<And>x. x \<in> set xs \<Longrightarrow> \<exists>r. f x = Some r \<and> (\<forall>y \<in> set r. P y)"
  shows "\<exists>r. collect f xs = Some r \<and> (\<forall>y \<in> set r. P y)"
  using assms
proof (induction xs)
  case (Cons x xs)
  from Cons.prems [of x] Cons.IH Cons.prems show ?case by fastforce
qed simp

lemma collect_set:
  assumes "collect f xs = Some r"
  shows "y \<in> set r \<longleftrightarrow> (\<exists>x \<in> set xs. \<exists>l. f x = Some l \<and> y \<in> set l)"
  using assms by (induction xs arbitrary: r) (auto simp: bind_Some_iff)

lemma collect_defined: "collect f xs = Some r \<Longrightarrow> x \<in> set xs \<Longrightarrow> \<exists>l. f x = Some l"
  by (induction xs arbitrary: r) (auto simp: bind_Some_iff)

section \<open>Command graphs\<close>

definition transparent :: "cmd_token \<Rightarrow> bool" where
  "transparent t \<longleftrightarrow> special (ct_type t) \<and> ct_type t \<noteq> END_TKN"

definition edge :: "'e cmem \<Rightarrow> nat \<Rightarrow> nat \<Rightarrow> bool" where
  "edge m a b \<longleftrightarrow> (\<exists>n. g_cells m a = Some n \<and> Some b \<in> set (vec_slots (g_to n)))"

definition special_edges :: "'e cmem \<Rightarrow> (nat \<times> nat) set" where
  "special_edges m = {(b, a). edge m a b \<and> (\<exists>t. node_token m b = Some t \<and> transparent t)}"

definition end_element :: "'e cmem \<Rightarrow> nat \<Rightarrow> 'e option" where
  "end_element m a =
     do { n \<leftarrow> g_cells m a; p \<leftarrow> rd (index (g_to n)) 0; leaf \<leftarrow> p; l \<leftarrow> g_cells m leaf; d \<leftarrow> g_data l; as_element d }"

text \<open>
  A well-formed command graph: the children of a token other than an end are tokens, an end has the command
  behind it, keywords have a text, and no cycle consists of special tokens alone.
\<close>

definition token_node_ok :: "'e cmem \<Rightarrow> nat \<Rightarrow> 'e node_data gnode \<Rightarrow> cmd_token \<Rightarrow> bool" where
  "token_node_ok m a n t \<longleftrightarrow>
     token_ok t \<and> active (g_to n) \<le> length (index (g_to n)) \<and>
     (if ct_type t = END_TKN then end_element m a \<noteq> None
      else \<forall>p \<in> set (vec_slots (g_to n)). \<exists>b t'. p = Some b \<and> node_token m b = Some t')"

definition cg_wf :: "'e cmem \<Rightarrow> bool" where
  "cg_wf m \<longleftrightarrow>
     (\<forall>a n. g_cells m a = Some n \<longrightarrow> a < g_next m \<and> (\<forall>t. node_token m a = Some t \<longrightarrow> token_node_ok m a n t)) \<and>
     acyclic (special_edges m)"

lemma node_token_cell: "node_token m a = Some t \<Longrightarrow> \<exists>n. g_cells m a = Some n \<and> g_data n = Some (Token t)"
  by (auto simp: node_token_def bind_Some_iff elim: as_token.elims)

lemma cg_wf_token:
  assumes "cg_wf m" "node_token m a = Some t"
  obtains n where "g_cells m a = Some n" "a < g_next m" "token_node_ok m a n t"
proof -
  from node_token_cell [OF assms(2)] obtain n where "g_cells m a = Some n" by blast
  moreover with assms have "a < g_next m \<and> token_node_ok m a n t" unfolding cg_wf_def by blast
  ultimately show thesis using that by blast
qed

section \<open>Next hops\<close>

lemma special_edges_below:
  assumes "cg_wf m" "(b, a) \<in> (special_edges m)\<^sup>+"
  shows "b < g_next m"
  using assms(2)
proof (induction rule: converse_trancl_induct)
  case (base b)
  then show ?case using cg_wf_token [OF assms(1), of b] by (auto simp: special_edges_def)
next
  case (step b c)
  then show ?case using cg_wf_token [OF assms(1), of b] by (auto simp: special_edges_def)
qed

definition special_below :: "'e cmem \<Rightarrow> nat \<Rightarrow> nat set" where
  "special_below m a = {b. (b, a) \<in> (special_edges m)\<^sup>+}"

lemma special_below_finite:
  assumes "cg_wf m"
  shows "finite (special_below m a)" "card (special_below m a) \<le> g_next m"
proof -
  have sub: "special_below m a \<subseteq> {..<g_next m}"
    using special_edges_below [OF assms] by (auto simp: special_below_def)
  then show "finite (special_below m a)" by (rule finite_subset) simp
  show "card (special_below m a) \<le> g_next m" using card_mono [OF _ sub] by simp
qed

lemma special_below_less:
  assumes "cg_wf m" "(b, a) \<in> special_edges m"
  shows "card (special_below m b) < card (special_below m a)"
proof (rule psubset_card_mono)
  show "finite (special_below m a)" by (rule special_below_finite [OF assms(1)])
  have "b \<notin> special_below m b" using assms(1) by (auto simp: cg_wf_def special_below_def acyclic_def)
  moreover have "b \<in> special_below m a" using assms(2) by (auto simp: special_below_def)
  moreover have "special_below m b \<subseteq> special_below m a"
    using assms(2) by (auto simp: special_below_def intro: trancl_into_trancl)
  ultimately show "special_below m b \<subset> special_below m a" by blast
qed

text \<open>The nodes one hop away: special tokens are transparent.\<close>

inductive hop :: "'e cmem \<Rightarrow> nat \<Rightarrow> nat \<Rightarrow> bool" for m where
  direct: "edge m a b \<Longrightarrow> node_token m b = Some t \<Longrightarrow> \<not> transparent t \<Longrightarrow> hop m a b"
| through: "edge m a c \<Longrightarrow> node_token m c = Some t \<Longrightarrow> transparent t \<Longrightarrow> hop m c b \<Longrightarrow> hop m a b"

lemma hop_token: "hop m a b \<Longrightarrow> \<exists>t. node_token m b = Some t \<and> \<not> transparent t"
  by (induction rule: hop.induct) auto

definition stack_of :: "nat list ptr \<Rightarrow> nat list" where
  "stack_of stack = (case stack of None \<Rightarrow> [] | Some s \<Rightarrow> s)"

lemma on_stack_iff: "on_stack stack b \<longleftrightarrow> b \<in> set (stack_of stack)"
  by (simp add: on_stack_def stack_of_def split: option.split)

text \<open>Enough fuel: the recursion ends, and every entry is a hop that the stack does not exclude.\<close>

lemma add_nexthops_total:
  assumes "cg_wf m" "node_token m a = Some t" "ct_type t \<noteq> END_TKN" "card (special_below m a) < fuel"
  shows "\<exists>r. add_nexthops fuel m a stack = Some r \<and>
    (\<forall>s \<in> set r. \<exists>b t'. s = b # stack_of stack \<and> hop m a b \<and> node_token m b = Some t' \<and>
       (ct_allowrepeat t' \<or> b \<notin> set (stack_of stack)))"
  using assms(2-4)
proof (induction fuel arbitrary: a t)
  case (Suc fuel)
  from cg_wf_token [OF assms(1) Suc.prems(1)] obtain n where n: "g_cells m a = Some n" "token_node_ok m a n t" by metis
  let ?P = "\<lambda>a s. \<exists>b t'. s = b # stack_of stack \<and> hop m a b \<and> node_token m b = Some t' \<and>
       (ct_allowrepeat t' \<or> b \<notin> set (stack_of stack))"
  let ?f = "\<lambda>i. do { p \<leftarrow> rd (index (g_to n)) i; child \<leftarrow> p; token \<leftarrow> node_token m child;
                    if \<not> ct_allowrepeat token \<and> on_stack stack child then Some []
                    else if special (ct_type token) \<and> ct_type token \<noteq> END_TKN then add_nexthops fuel m child stack
                    else Some [child # (case stack of None \<Rightarrow> [] | Some s \<Rightarrow> s)] }"
  have "\<exists>r. ?f i = Some r \<and> (\<forall>s \<in> set r. ?P a s)" if "i \<in> set [0 ..< active (g_to n)]" for i
  proof -
    from that n(2) have i: "i < length (index (g_to n))" "i < active (g_to n)" by (auto simp: token_node_ok_def)
    then have mem: "index (g_to n) ! i \<in> set (vec_slots (g_to n))" by (auto simp: vec_slots_def in_set_conv_nth)
    with n(2) Suc.prems(2) obtain b t' where b: "index (g_to n) ! i = Some b" "node_token m b = Some t'"
      unfolding token_node_ok_def by metis
    have e: "edge m a b" unfolding edge_def using n(1) mem b(1) by metis
    have f: "?f i = (if \<not> ct_allowrepeat t' \<and> on_stack stack b then Some []
       else if transparent t' then add_nexthops fuel m b stack else Some [b # stack_of stack])"
      using i(1) b by (simp add: rd_Some transparent_def stack_of_def split del: if_split cong: if_cong)
    show ?thesis
    proof (cases "transparent t' \<and> (ct_allowrepeat t' \<or> b \<notin> set (stack_of stack))")
      case True
      then have "(b, a) \<in> special_edges m" using e b(2) by (auto simp: special_edges_def)
      with special_below_less [OF assms(1)] Suc.prems(3) have "card (special_below m b) < fuel" by fastforce
      moreover have "ct_type t' \<noteq> END_TKN" using True by (simp add: transparent_def)
      ultimately obtain r where r: "add_nexthops fuel m b stack = Some r" "\<forall>s \<in> set r. ?P b s"
        using Suc.IH [OF b(2)] by blast
      have "?P a s" if "s \<in> set r" for s using r(2) that hop.through [OF e b(2)] True by metis
      moreover have "?f i = Some r" unfolding f using True r(1) by (auto simp: on_stack_iff)
      ultimately show ?thesis by blast
    qed (use f hop.direct [OF e b(2)] b(2) in \<open>auto simp: on_stack_iff split: if_splits\<close>)
  qed
  then have "\<exists>r. collect ?f [0 ..< active (g_to n)] = Some r \<and> (\<forall>s \<in> set r. ?P a s)" by (rule collect_total)
  then show ?case using n(1) by simp
qed simp

lemma edge_slot:
  assumes "edge m a b" "g_cells m a = Some n"
  obtains i where "i < active (g_to n)" "i < length (index (g_to n))" "index (g_to n) ! i = Some b"
proof -
  from assms have "Some b \<in> set (take (active (g_to n)) (index (g_to n)))" by (auto simp: edge_def vec_slots_def)
  then show thesis using that by (auto simp: in_set_conv_nth)
qed

lemma add_nexthops_edge:
  assumes "add_nexthops (Suc fuel) m a stack = Some r" "edge m a b" "node_token m b = Some t"
    and "ct_allowrepeat t \<or> b \<notin> set (stack_of stack)"
  shows "if transparent t then \<exists>l. add_nexthops fuel m b stack = Some l \<and> set l \<subseteq> set r else b # stack_of stack \<in> set r"
proof -
  from assms(1) obtain n where n: "g_cells m a = Some n" by (auto simp: bind_Some_iff)
  let ?f = "\<lambda>i. do { p \<leftarrow> rd (index (g_to n)) i; child \<leftarrow> p; token \<leftarrow> node_token m child;
                    if \<not> ct_allowrepeat token \<and> on_stack stack child then Some []
                    else if special (ct_type token) \<and> ct_type token \<noteq> END_TKN then add_nexthops fuel m child stack
                    else Some [child # (case stack of None \<Rightarrow> [] | Some s \<Rightarrow> s)] }"
  have r: "collect ?f [0 ..< active (g_to n)] = Some r" using assms(1) unfolding add_nexthops.simps n by simp
  from edge_slot [OF assms(2) n] obtain i where i: "i < active (g_to n)" "i < length (index (g_to n))"
    "index (g_to n) ! i = Some b" .
  from i(1) have iset: "i \<in> set [0 ..< active (g_to n)]" by simp
  from collect_defined [OF r iset] obtain l where l: "?f i = Some l" by blast
  have sub: "set l \<subseteq> set r" using collect_set [OF r] iset l by blast
  have keep: "(\<not> ct_allowrepeat t \<and> on_stack stack b) = False"
    using assms(4) by (auto simp: on_stack_iff)
  have "?f i = (if transparent t then add_nexthops fuel m b stack else Some [b # stack_of stack])"
    unfolding rd_Some [OF i(2)] i(3) Option.bind.bind_lunit assms(3) keep transparent_def stack_of_def by simp
  with l sub show ?thesis by (auto split: if_splits)
qed

text \<open>A stack never holds transparent nodes, so it excludes only the hop itself.\<close>

lemma add_nexthops_complete:
  assumes "\<forall>x \<in> set (stack_of stack). \<exists>t. node_token m x = Some t \<and> \<not> transparent t"
  shows "hop m a b \<Longrightarrow> add_nexthops fuel m a stack = Some r \<Longrightarrow>
    \<forall>t. node_token m b = Some t \<longrightarrow> ct_allowrepeat t \<or> b \<notin> set (stack_of stack) \<Longrightarrow> b # stack_of stack \<in> set r"
proof (induction arbitrary: fuel r rule: hop.induct)
  case (direct a b t)
  from direct.prems obtain f where "fuel = Suc f" by (cases fuel) auto
  with add_nexthops_edge [of f m a stack r b t] direct show ?case by auto
next
  case (through a c t b)
  from through.prems obtain f where f: "fuel = Suc f" by (cases fuel) auto
  have "c \<notin> set (stack_of stack)" using assms through.hyps by fastforce
  with f add_nexthops_edge [of f m a stack r c t] through obtain l where "add_nexthops f m c stack = Some l" "set l \<subseteq> set r"
    by auto
  with through show ?case by blast
qed

lemma nexthops_total:
  assumes "cg_wf m" "node_token m a = Some t" "ct_type t \<noteq> END_TKN"
  shows "\<exists>r. nexthops m a stack = Some r \<and>
    (\<forall>s \<in> set r. \<exists>b t'. s = b # stack_of stack \<and> hop m a b \<and> node_token m b = Some t' \<and>
       (ct_allowrepeat t' \<or> b \<notin> set (stack_of stack)))"
proof -
  have "card (special_below m a) < Suc (g_next m)" using special_below_finite [OF assms(1), of a] by simp
  then show ?thesis unfolding nexthops_def by (rule add_nexthops_total [OF assms])
qed

end
