(* ===== verification/Command_Select.thy ===== *)
theory Command_Select
  imports Command_Match_Laws
begin

text \<open>
  The specification of \<open>command_match\<close>, which knows nothing of its recursion: list all paths of the command
  graph that accept the input, order them lexicographically by the precedence and exactness of their tokens,
  and take the best one if it is unique.
\<close>

section \<open>The best elements of a list\<close>

definition best :: "('a \<Rightarrow> 'k::linorder) \<Rightarrow> 'a list \<Rightarrow> 'a list" where
  "best key xs = filter (\<lambda>x. \<forall>y \<in> set xs. key x \<le> key y) xs"

lemma best_Nil [simp]: "best key [] = []"
  by (simp add: best_def)

lemma best_nonempty:
  assumes "xs \<noteq> []"
  shows "best key xs \<noteq> []"
proof -
  have "Min (key ` set xs) \<in> key ` set xs" using assms by (intro Min_in) auto
  then obtain x where "x \<in> set xs" "key x = Min (key ` set xs)" by auto
  then have "x \<in> set (best key xs)" by (auto simp: best_def)
  then show ?thesis by auto
qed

lemma best_subset: "set (best key xs) \<subseteq> set xs"
  by (auto simp: best_def)

lemma best_key: "x \<in> set (best key xs) \<Longrightarrow> y \<in> set (best key xs) \<Longrightarrow> key x = key y"
  by (auto simp: best_def intro: order_antisym)

lemma best_eq_filter:
  assumes "b \<in> set (best key xs)"
  shows "best key xs = filter (\<lambda>x. key x \<le> key b) xs"
  unfolding best_def
proof (rule filter_cong [OF refl])
  fix x assume "x \<in> set xs"
  with assms show "(\<forall>y \<in> set xs. key x \<le> key y) = (key x \<le> key b)" by (auto simp: best_def intro: order_trans)
qed

text \<open>The best of two lists together is decided by comparing their best elements.\<close>

lemma best_append:
  assumes "b \<in> set (best key xs)" "c \<in> set (best key ys)"
  shows "best key (xs @ ys) =
    (if key b < key c then best key xs else if key c < key b then best key ys else best key xs @ best key ys)"
proof -
  have le: "\<forall>x \<in> set xs. key b \<le> key x" "\<forall>y \<in> set ys. key c \<le> key y" using assms by (auto simp: best_def)
  have mem: "b \<in> set xs" "c \<in> set ys" using assms by (auto dest: subsetD [OF best_subset])
  have *: "best key (xs @ ys) = filter (\<lambda>x. key x \<le> key d) (xs @ ys)"
    if "d \<in> {b, c}" "key d = min (key b) (key c)" for d
    by (rule best_eq_filter) (use that le mem in \<open>auto simp: best_def min_le_iff_disj\<close>)
  consider "key b < key c" | "key c < key b" | "key b = key c" by (rule linorder_cases)
  then show ?thesis
  proof cases
    case 1
    then have "filter (\<lambda>x. key x \<le> key b) ys = []" using le(2) by (auto simp: filter_empty_conv)
    with 1 * [of b] best_eq_filter [OF assms(1)] show ?thesis by simp
  next
    case 2
    then have "filter (\<lambda>x. key x \<le> key c) xs = []" using le(1) by (auto simp: filter_empty_conv)
    with 2 * [of c] best_eq_filter [OF assms(2)] show ?thesis by (simp add: order_less_not_sym)
  next
    case 3
    with * [of b] best_eq_filter [OF assms(1)] best_eq_filter [OF assms(2)] show ?thesis by simp
  qed
qed

lemma best_map: "best key (map f xs) = map f (best (key \<circ> f) xs)"
  by (simp add: best_def filter_map comp_def)

lemma best_cong:
  assumes "\<And>x y. x \<in> set xs \<Longrightarrow> y \<in> set xs \<Longrightarrow> key x \<le> key y \<longleftrightarrow> key' x \<le> key' y"
  shows "best key xs = best key' xs"
  unfolding best_def using assms by (intro filter_cong) auto

section \<open>Paths\<close>

definition tok_of :: "'e cmem \<Rightarrow> nat \<Rightarrow> cmd_token" where
  "tok_of m a = the (node_token m a)"

definition hops :: "'e cmem \<Rightarrow> nat \<Rightarrow> nat list" where
  "hops m a = map hd (the (nexthops m a None))"

definition accepts :: "(string \<Rightarrow> bool) \<Rightarrow> 'e cmem \<Rightarrow> string ptr \<Rightarrow> nat list \<Rightarrow> nat \<Rightarrow> bool" where
  "accepts pton6 m w stack a \<longleftrightarrow>
     length stack \<noteq> CMD_ARGC_MAX \<and> (ct_allowrepeat (tok_of m a) \<or> a \<notin> set stack) \<and>
     min_match_level (ct_type (tok_of m a)) \<le> the (match_token pton6 (tok_of m a) w)"

definition is_end :: "'e cmem \<Rightarrow> nat \<Rightarrow> bool" where
  "is_end m a \<longleftrightarrow> ct_type (tok_of m a) = END_TKN"

text \<open>
  All paths from a node that accept the input word by word and stop before an end token, each with the command
  there; and whether the input is accepted at all, with or without an end behind it.
\<close>

fun match_paths :: "(string \<Rightarrow> bool) \<Rightarrow> 'e cmem \<Rightarrow> string ptr list \<Rightarrow> nat list \<Rightarrow> nat \<Rightarrow> (nat list \<times> 'e) list" where
  "match_paths pton6 m [] stack a = []"
| "match_paths pton6 m (w # rest) stack a =
     (if \<not> accepts pton6 m w stack a then []
      else if rest = [] then map (\<lambda>b. ([a], the (end_element m b))) (filter (is_end m) (hops m a))
      else map (\<lambda>(p, e). (a # p, e)) (concat (map (match_paths pton6 m rest (stack @ [a])) (hops m a))))"

fun covers :: "(string \<Rightarrow> bool) \<Rightarrow> 'e cmem \<Rightarrow> string ptr list \<Rightarrow> nat list \<Rightarrow> nat \<Rightarrow> bool" where
  "covers pton6 m [] stack a = False"
| "covers pton6 m (w # rest) stack a =
     (accepts pton6 m w stack a \<and> (rest = [] \<or> (\<exists>b \<in> set (hops m a). covers pton6 m rest (stack @ [a]) b)))"

text \<open>The smaller the better: first the precedence of the token, then how exactly the word matches it.\<close>

definition tok_key :: "(string \<Rightarrow> bool) \<Rightarrow> cmd_token \<Rightarrow> string ptr \<Rightarrow> nat" where
  "tok_key pton6 t w = 4 * score_precedence (ct_type t) + (3 - match_level (the (match_token pton6 t w)))"

definition path_key :: "(string \<Rightarrow> bool) \<Rightarrow> 'e cmem \<Rightarrow> string ptr list \<Rightarrow> nat list \<times> 'e \<Rightarrow> nat list" where
  "path_key pton6 m toks pe = map2 (\<lambda>a w. tok_key pton6 (tok_of m a) w) (fst pe) toks"

definition arg_token :: "cmd_token \<Rightarrow> string ptr \<Rightarrow> cmd_token" where
  "arg_token t w = (cmd_token_dup t)\<lparr>ct_arg := w\<rparr>"

definition path_args :: "'e cmem \<Rightarrow> string ptr list \<Rightarrow> nat list \<Rightarrow> 'e arglist" where
  "path_args m toks p = map2 (\<lambda>a w. Token (arg_token (tok_of m a) w)) p toks"

definition path_list :: "'e cmem \<Rightarrow> string ptr list \<Rightarrow> nat list \<times> 'e \<Rightarrow> 'e arglist" where
  "path_list m toks pe = path_args m toks (fst pe) @ [Element (snd pe)]"

text \<open>The outcome for a list of paths, given whether the input is accepted at all.\<close>

definition outcome ::
  "(string \<Rightarrow> bool) \<Rightarrow> 'e cmem \<Rightarrow> string ptr list \<Rightarrow> bool \<Rightarrow> (nat list \<times> 'e) list \<Rightarrow> matcher_rv \<times> 'e arglist ptr" where
  "outcome pton6 m toks covered ps =
     (case best (path_key pton6 m toks) ps of
        [] \<Rightarrow> (if covered then MATCHER_INCOMPLETE else MATCHER_NO_MATCH, None)
      | b # bs \<Rightarrow> (if bs = [] then MATCHER_OK else MATCHER_AMBIGUOUS, Some (path_list m toks b)))"

section \<open>Comparing two paths\<close>

lemma tok_of_Some [simp]: "node_token m a = Some t \<Longrightarrow> tok_of m a = t"
  by (simp add: tok_of_def)

lemma arg_token_type [simp]: "ct_type (arg_token t w) = ct_type t"
  by (simp add: arg_token_def cmd_token_dup_def cmd_token_new_def)

lemma match_arg_token [simp]: "match_token pton6 (arg_token t x) w = match_token pton6 t w"
proof -
  have "ct_text (arg_token t x) = ct_text t" "ct_min (arg_token t x) = ct_min t" "ct_max (arg_token t x) = ct_max t"
    by (simp_all add: arg_token_def cmd_token_dup_def cmd_token_new_def)
  then show ?thesis
    by (cases "ct_type t") (simp_all add: match_token_def match_word_def match_range_def match_variable_def split: option.split prod.split)
qed

text \<open>A node on a path: an ordinary token that the word matches well enough.\<close>

definition matched :: "(string \<Rightarrow> bool) \<Rightarrow> 'e cmem \<Rightarrow> nat \<Rightarrow> string ptr \<Rightarrow> bool" where
  "matched pton6 m a w \<longleftrightarrow>
     (\<exists>t r. node_token m a = Some t \<and> \<not> special (ct_type t) \<and> match_token pton6 t w = Some r \<and>
            min_match_level (ct_type t) \<le> r)"

lemma match_level_le: "match_level r \<le> 3"
  by (cases r) (simp_all add: match_level_def)

lemma match_level_inject: "match_level r = match_level s \<longleftrightarrow> r = s"
  by (cases r; cases s) (simp_all add: match_level_def)

lemma same_precedence:
  assumes "score_precedence s = score_precedence t" "s \<noteq> t" "\<not> special s" "\<not> special t"
  shows "s \<notin> {WORD_TKN, START_TKN} \<and> t \<notin> {WORD_TKN, START_TKN}"
  using assms by (cases s; cases t) (simp_all add: score_precedence_def special_def)

definition by_key :: "'k::linorder \<Rightarrow> 'k \<Rightarrow> pick" where
  "by_key k l = (if k < l then First else if l < k then Second else Neither)"

lemma disambiguate_tokens_key:
  assumes "matched pton6 m a w" "matched pton6 m b w"
  shows "disambiguate_tokens pton6 (arg_token (tok_of m a) x) (arg_token (tok_of m b) y) w =
    Some (by_key (tok_key pton6 (tok_of m a) w) (tok_key pton6 (tok_of m b) w))"
proof -
  from assms obtain s r t q where
    s: "node_token m a = Some s" "\<not> special (ct_type s)" "match_token pton6 s w = Some r" "min_match_level (ct_type s) \<le> r"
    and t: "node_token m b = Some t" "\<not> special (ct_type t)" "match_token pton6 t w = Some q" "min_match_level (ct_type t) \<le> q"
    unfolding matched_def by blast
  show ?thesis
  proof (cases "ct_type s = ct_type t")
    case True
    with s t match_level_le [of r] match_level_le [of q] match_level_inject [of r q] show ?thesis
      by (auto simp: disambiguate_tokens_def by_key_def tok_key_def less_match_type_def)
  next
    case False
    have "r = q" if "score_precedence (ct_type s) = score_precedence (ct_type t)"
      using same_precedence [OF that False s(2) t(2)] min_match_exact [OF _ _ s(4)] min_match_exact [OF _ _ t(4)] by auto
    with False s t match_level_le [of r] match_level_le [of q] show ?thesis
      by (cases "score_precedence (ct_type s)" "score_precedence (ct_type t)" rule: linorder_cases)
        (auto simp: disambiguate_tokens_def by_key_def tok_key_def Let_def)
  qed
qed

definition valid_path :: "(string \<Rightarrow> bool) \<Rightarrow> 'e cmem \<Rightarrow> string ptr list \<Rightarrow> nat list \<times> 'e \<Rightarrow> bool" where
  "valid_path pton6 m toks pe \<longleftrightarrow> list_all2 (matched pton6 m) (fst pe) toks"

lemma path_list_length: "valid_path pton6 m toks pe \<Longrightarrow> length (path_list m toks pe) = length toks + 1"
  by (auto simp: valid_path_def path_list_def path_args_def dest: list_all2_lengthD)

lemma path_Cons [simp]:
  "path_list m (w # toks) (a # p, e) = Token (arg_token (tok_of m a) w) # path_list m toks (p, e)"
  "path_key pton6 m (w # toks) (a # p, e) = tok_key pton6 (tok_of m a) w # path_key pton6 m toks (p, e)"
  by (simp_all add: path_list_def path_args_def path_key_def)

lemma path_Nil [simp]: "path_list m [] ([], e) = [Element e]" "path_key pton6 m [] ([], e) = []"
  by (simp_all add: path_list_def path_args_def path_key_def)

lemma disambiguate_from_key:
  assumes "valid_path pton6 m toks (p, e)" "valid_path pton6 m toks (q, f)"
  shows "disambiguate_from pton6 toks (path_list m toks (p, e)) (path_list m toks (q, f)) =
    Some (by_key (path_key pton6 m toks (p, e)) (path_key pton6 m toks (q, f)))"
  using assms
proof (induction toks arbitrary: p q)
  case Nil
  then show ?case by (simp add: valid_path_def by_key_def)
next
  case (Cons w toks)
  then obtain a p' b q' where pq: "p = a # p'" "q = b # q'" "matched pton6 m a w" "matched pton6 m b w"
    and tl: "valid_path pton6 m toks (p', e)" "valid_path pton6 m toks (q', f)"
    by (auto simp: valid_path_def list_all2_Cons2)
  show ?case
    using pq(1,2) Cons.IH [OF tl] disambiguate_tokens_key [OF pq(3,4)] by (auto simp: by_key_def)
qed

lemma disambiguate_key:
  assumes "valid_path pton6 m toks pe" "valid_path pton6 m toks qf"
  shows "disambiguate pton6 (path_list m toks pe) (path_list m toks qf) toks =
    Some (by_key (path_key pton6 m toks pe) (path_key pton6 m toks qf))"
  using assms disambiguate_from_key [of pton6 m toks "fst pe" "snd pe" "fst qf" "snd qf"]
    path_list_length [OF assms(1)] path_list_length [OF assms(2)]
  by (simp add: disambiguate_def)

lemma save_best_outcome:
  assumes "\<forall>pe \<in> set qs. valid_path pton6 m toks pe" "\<forall>pe \<in> set rs. valid_path pton6 m toks pe"
    and "outcome pton6 m toks c qs = (status, currbest)" "outcome pton6 m toks d rs = (rstat, result)"
  shows "save_best pton6 toks status currbest rstat result = Some (outcome pton6 m toks (c \<or> d) (qs @ rs))"
proof (cases "qs = [] \<or> rs = []")
  case True
  then show ?thesis
  proof
    assume "qs = []"
    with assms(3,4) show ?thesis
      by (auto simp: outcome_def save_best_def less_eq_matcher_rv_def rv_level_def max_def split: list.splits if_splits)
  next
    assume "rs = []"
    with assms(3,4) show ?thesis
      by (auto simp: outcome_def save_best_def less_eq_matcher_rv_def rv_level_def max_def split: list.splits if_splits)
  qed
next
  case False
  let ?k = "path_key pton6 m toks"
  obtain b bs where b: "best ?k qs = b # bs" using best_nonempty [of qs ?k] False by (cases "best ?k qs") auto
  obtain r rss where r: "best ?k rs = r # rss" using best_nonempty [of rs ?k] False by (cases "best ?k rs") auto
  have "b \<in> set qs" "r \<in> set rs" using b r best_subset [of ?k] by (metis list.set_intros(1) subsetD)+
  then have d: "disambiguate pton6 (path_list m toks b) (path_list m toks r) toks = Some (by_key (?k b) (?k r))"
    using assms(1,2) by (intro disambiguate_key) auto
  have "best ?k (qs @ rs) = (if ?k b < ?k r then b # bs else if ?k r < ?k b then r # rss else b # bs @ r # rss)"
    using best_append [of b ?k qs r rs] b r by simp
  with b r d assms(3,4) show ?thesis by (auto simp: outcome_def save_best_def by_key_def)
qed

section \<open>The recursion of the matcher\<close>

definition line_ok :: "string ptr list \<Rightarrow> bool" where
  "line_ok toks \<longleftrightarrow> (\<forall>w. Some w \<in> set toks \<longrightarrow> word_ok w)"

lemma line_ok_Cons [simp]: "line_ok (w # toks) \<longleftrightarrow> (\<forall>x. w = Some x \<longrightarrow> word_ok x) \<and> line_ok toks"
  by (auto simp: line_ok_def)

lemma match_token_Some:
  assumes "cg_wf m" "node_token m a = Some t" "\<forall>x. w = Some x \<longrightarrow> word_ok x"
  shows "\<exists>r. match_token pton6 t w = Some r"
proof -
  from cg_wf_token [OF assms(1,2)] have "token_ok t" by (metis token_node_ok_def)
  then show ?thesis using assms(3) by (intro match_token_total) auto
qed

lemma hops_eq:
  assumes "cg_wf m" "node_token m a = Some t" "ct_type t \<noteq> END_TKN"
  shows "\<exists>r. nexthops m a None = Some r \<and> map hd r = hops m a \<and>
    (\<forall>b \<in> set (hops m a). \<exists>t'. node_token m b = Some t' \<and> \<not> transparent t')"
proof -
  from nexthops_total [OF assms, of None] obtain r where r: "nexthops m a None = Some r"
    "\<forall>s \<in> set r. \<exists>b. s = [b] \<and> hop m a b" unfolding stack_of_def option.case by metis
  have "\<exists>t'. node_token m b = Some t' \<and> \<not> transparent t'" if b: "b \<in> set (map hd r)" for b
  proof -
    from b obtain s where "s \<in> set r" "b = hd s" by auto
    with r(2) have "hop m a b" by fastforce
    then show ?thesis by (rule hop_token)
  qed
  then show ?thesis using r(1) by (simp add: hops_def)
qed

lemma end_never_matches: "ct_type t = END_TKN \<Longrightarrow> match_token pton6 t w = Some r \<Longrightarrow> r < exact_match"
  by (auto simp: match_token_def less_match_type_def match_level_def split: option.splits)

lemma accepts_iff:
  assumes "cg_wf m" "node_token m a = Some t" "\<forall>x. w = Some x \<longrightarrow> word_ok x" "accepts pton6 m w stack a"
  obtains r where "match_token pton6 t w = Some r" "min_match_level (ct_type t) \<le> r" "ct_type t \<noteq> END_TKN"
proof -
  from match_token_Some [OF assms(1-3)] obtain r where r: "match_token pton6 t w = Some r" by blast
  with assms(2,4) have "min_match_level (ct_type t) \<le> r" by (simp add: accepts_def)
  moreover from this r have "ct_type t \<noteq> END_TKN"
    using end_never_matches [of t pton6 w r] by (auto simp: min_match_level_def)
  ultimately show thesis using r that by blast
qed

lemma match_paths_valid:
  assumes "cg_wf m" "line_ok toks" "node_token m a = Some t" "\<not> transparent t"
  shows "\<forall>pe \<in> set (match_paths pton6 m toks stack a). valid_path pton6 m toks pe"
  using assms(2-4)
proof (induction toks arbitrary: a t stack)
  case (Cons w rest)
  show ?case
  proof (cases "accepts pton6 m w stack a")
    case True
    then obtain r where r: "match_token pton6 t w = Some r" "min_match_level (ct_type t) \<le> r" "ct_type t \<noteq> END_TKN"
      using accepts_iff [OF assms(1) Cons.prems(2)] Cons.prems(1) by (metis line_ok_Cons)
    then have a: "matched pton6 m a w" using Cons.prems(2,3) by (auto simp: matched_def transparent_def)
    from hops_eq [OF assms(1) Cons.prems(2) r(3)] have h: "\<forall>b \<in> set (hops m a). \<exists>t'. node_token m b = Some t' \<and> \<not> transparent t'"
      by blast
    have "valid_path pton6 m rest pe" if "b \<in> set (hops m a)" "pe \<in> set (match_paths pton6 m rest (stack @ [a]) b)" for b pe
      using h that Cons.IH [of b _ "stack @ [a]"] Cons.prems(1) by auto
    note tails = this
    show ?thesis
    proof (cases "rest = []")
      case False
      with True a tails show ?thesis by (force simp: valid_path_def)
    qed (use True a in \<open>simp add: valid_path_def\<close>)
  qed simp
qed simp

lemma is_end_token: "node_token m b = Some t \<Longrightarrow> is_end m b \<longleftrightarrow> ct_type t = END_TKN"
  by (simp add: is_end_def)

lemma match_children_end_more:
  assumes "\<forall>b \<in> set gns. \<exists>t. node_token m b = Some t"
  shows "match_children pton6 m [] gns stack MATCHER_OK (Some x) =
    Some (if filter (is_end m) gns = [] then MATCHER_OK else MATCHER_AMBIGUOUS, Some x)"
  using assms by (induction gns) (auto simp: match_children.simps is_end_token)

lemma match_children_end:
  assumes "cg_wf m" "\<forall>b \<in> set gns. \<exists>t. node_token m b = Some t"
  shows "match_children pton6 m [] gns stack MATCHER_NO_MATCH None =
    Some (case filter (is_end m) gns of
            [] \<Rightarrow> (MATCHER_NO_MATCH, None)
          | b # bs \<Rightarrow> (if bs = [] then MATCHER_OK else MATCHER_AMBIGUOUS, Some [Element (the (end_element m b))]))"
  using assms(2)
proof (induction gns)
  case (Cons b gns)
  then obtain t where t: "node_token m b = Some t" by auto
  show ?case
  proof (cases "ct_type t = END_TKN")
    case True
    with cg_wf_token [OF assms(1) t] have "end_element m b \<noteq> None" by (metis token_node_ok_def)
    then obtain n p leaf l d e where e: "g_cells m b = Some n" "rd (index (g_to n)) 0 = Some p" "p = Some leaf"
        "g_cells m leaf = Some l" "g_data l = Some d" "as_element d = Some e" "end_element m b = Some e"
      by (auto simp: end_element_def bind_Some_iff)
    from e(6) have "d = Element e" by (cases d) auto
    with True t e Cons.prems show ?thesis by (simp add: match_children.simps is_end_token match_children_end_more)
  qed (use t Cons in \<open>simp add: match_children.simps is_end_token\<close>)
qed (simp add: match_children.simps)

lemma match_children_rest:
  assumes "rest \<noteq> []"
    and "\<forall>b \<in> set gns. command_match_r pton6 m rest b stack =
           Some (outcome pton6 m rest (covers pton6 m rest stack b) (match_paths pton6 m rest stack b))"
    and "\<forall>b \<in> set gns. \<forall>pe \<in> set (match_paths pton6 m rest stack b). valid_path pton6 m rest pe"
    and "\<forall>pe \<in> set qs. valid_path pton6 m rest pe"
    and "outcome pton6 m rest c qs = (status, currbest)"
  shows "match_children pton6 m rest gns stack status currbest =
    Some (outcome pton6 m rest (c \<or> (\<exists>b \<in> set gns. covers pton6 m rest stack b))
            (qs @ concat (map (match_paths pton6 m rest stack) gns)))"
  using assms(2-)
proof (induction gns arbitrary: qs c status currbest)
  case (Cons b gns)
  obtain rstat result where r: "outcome pton6 m rest (covers pton6 m rest stack b) (match_paths pton6 m rest stack b) = (rstat, result)"
    by fastforce
  obtain st cb where sb: "outcome pton6 m rest (c \<or> covers pton6 m rest stack b) (qs @ match_paths pton6 m rest stack b) = (st, cb)"
    by fastforce
  have "save_best pton6 rest status currbest rstat result = Some (st, cb)"
    using save_best_outcome [OF _ _ Cons.prems(4) r] Cons.prems(2,3) sb by simp
  moreover have "match_children pton6 m rest gns stack st cb =
    Some (outcome pton6 m rest ((c \<or> covers pton6 m rest stack b) \<or> (\<exists>b \<in> set gns. covers pton6 m rest stack b))
            ((qs @ match_paths pton6 m rest stack b) @ concat (map (match_paths pton6 m rest stack) gns)))"
    by (rule Cons.IH) (use Cons.prems sb in auto)
  ultimately show ?case using Cons.prems(1) r assms(1) by (simp add: match_children.simps disj_assoc)
qed (simp add: match_children.simps)

lemma best_const: "\<forall>x \<in> set xs. key x = k \<Longrightarrow> best key xs = xs"
  by (simp add: best_def)

lemma outcome_Cons:
  "outcome pton6 m (w # toks) c (map (\<lambda>(p, e). (a # p, e)) ps) =
     map_prod id (map_option ((#) (Token (arg_token (tok_of m a) w)))) (outcome pton6 m toks c ps)"
proof -
  have "best (path_key pton6 m (w # toks) \<circ> (\<lambda>(p, e). (a # p, e))) ps = best (path_key pton6 m toks) ps"
    by (rule best_cong) auto
  then have "best (path_key pton6 m (w # toks)) (map (\<lambda>(p, e). (a # p, e)) ps) =
    map (\<lambda>(p, e). (a # p, e)) (best (path_key pton6 m toks) ps)" by (simp add: best_map)
  then show ?thesis by (auto simp: outcome_def split: list.split prod.split)
qed

lemma outcome_end:
  "outcome pton6 m [w] True (map (\<lambda>b. ([a], f b)) bs) =
     (case bs of
        [] \<Rightarrow> (MATCHER_INCOMPLETE, None)
      | b # bs' \<Rightarrow> (if bs' = [] then MATCHER_OK else MATCHER_AMBIGUOUS,
                    Some [Token (arg_token (tok_of m a) w), Element (f b)]))"
proof -
  have "best (path_key pton6 m [w]) (map (\<lambda>b. ([a], f b)) bs) = map (\<lambda>b. ([a], f b)) bs"
    by (rule best_const) auto
  then show ?thesis by (auto simp: outcome_def split: list.split)
qed

lemma accepts_input:
  assumes "match_token pton6 t w = Some r" "min_match_level (ct_type t) \<le> r"
  obtains x where "w = Some x"
proof (cases w)
  case None
  with assms show thesis
    by (auto simp: match_token_def min_match_level_def less_eq_match_type_def match_level_def split: cmd_token_type.splits)
qed (use that in auto)

lemma command_match_r_outcome:
  assumes "cg_wf m" "toks \<noteq> []" "line_ok toks" "node_token m a = Some t"
  shows "command_match_r pton6 m toks a stack =
    Some (outcome pton6 m toks (covers pton6 m toks stack a) (match_paths pton6 m toks stack a))"
  using assms(2-)
proof (induction toks arbitrary: a t stack)
  case (Cons w rest)
  obtain r where r: "match_token pton6 t w = Some r"
    using match_token_Some [OF assms(1) Cons.prems(3), of w pton6] Cons.prems(2) by auto
  show ?case
  proof (cases "accepts pton6 m w stack a")
    case False
    with r Cons.prems(3) show ?thesis
      by (auto simp: command_match_r.simps accepts_def outcome_def not_le)
  next
    case True
    with r Cons.prems(3) have min: "min_match_level (ct_type t) \<le> r" by (simp add: accepts_def)
    from accepts_input [OF r min] obtain x where w: "w = Some x" .
    have ne: "ct_type t \<noteq> END_TKN" using accepts_iff [OF assms(1) Cons.prems(3) _ True] Cons.prems(2) by (metis line_ok_Cons)
    from hops_eq [OF assms(1) Cons.prems(3) ne] obtain hs where hs: "nexthops m a None = Some hs" "map hd hs = hops m a"
      "\<forall>b \<in> set (hops m a). \<exists>t'. node_token m b = Some t' \<and> \<not> transparent t'" by blast
    have head: "Token ((cmd_token_dup t)\<lparr>ct_arg := Some x\<rparr>) = Token (arg_token (tok_of m a) w)"
      using Cons.prems(3) w by (simp add: arg_token_def)
    have step: "command_match_r pton6 m (w # rest) a stack =
      do { (status, currbest) \<leftarrow> match_children pton6 m rest (hops m a) (stack @ [a]) MATCHER_NO_MATCH None;
           case currbest of
             Some b \<Rightarrow> Some (status, Some (Token (arg_token (tok_of m a) w) # b))
           | None \<Rightarrow> Some (if rest = [] \<and> status = MATCHER_NO_MATCH then MATCHER_INCOMPLETE else status, None) }"
    proof -
      have "(length stack = CMD_ARGC_MAX) = False" "(\<not> ct_allowrepeat t \<and> a \<in> set stack) = False"
        "(r < min_match_level (ct_type t)) = False"
        using True min Cons.prems(3) by (auto simp: accepts_def)
      note guards = this
      show ?thesis
        unfolding command_match_r.simps Cons.prems(3) w r [unfolded w] hs(1) Option.bind.bind_lunit guards if_False hs(2) head [unfolded w]
        by (rule refl)
    qed
    show ?thesis
    proof (cases "rest = []")
      case True': True
      have "match_children pton6 m [] (hops m a) (stack @ [a]) MATCHER_NO_MATCH None =
        Some (case filter (is_end m) (hops m a) of [] \<Rightarrow> (MATCHER_NO_MATCH, None)
          | b # bs \<Rightarrow> (if bs = [] then MATCHER_OK else MATCHER_AMBIGUOUS, Some [Element (the (end_element m b))]))"
        using hs(3) by (intro match_children_end [OF assms(1)]) blast
      with True True' show ?thesis unfolding step by (simp add: outcome_end split: list.split)
    next
      case False
      let ?c = "\<exists>b \<in> set (hops m a). covers pton6 m rest (stack @ [a]) b"
      let ?ps = "concat (map (match_paths pton6 m rest (stack @ [a])) (hops m a))"
      have "match_children pton6 m rest (hops m a) (stack @ [a]) MATCHER_NO_MATCH None =
        Some (outcome pton6 m rest (False \<or> ?c) ([] @ ?ps))"
      proof (rule match_children_rest [OF False])
        show "\<forall>b \<in> set (hops m a). command_match_r pton6 m rest b (stack @ [a]) = Some (outcome pton6 m rest
            (covers pton6 m rest (stack @ [a]) b) (match_paths pton6 m rest (stack @ [a]) b))"
          using hs(3) Cons.IH False Cons.prems(2) by (metis line_ok_Cons)
        show "\<forall>b \<in> set (hops m a). \<forall>pe \<in> set (match_paths pton6 m rest (stack @ [a]) b). valid_path pton6 m rest pe"
          using hs(3) match_paths_valid [OF assms(1)] Cons.prems(2) by (metis line_ok_Cons)
      qed (simp_all add: outcome_def)
      moreover have "outcome pton6 m (w # rest) ?c (map (\<lambda>(p, e). (a # p, e)) ?ps) =
        map_prod id (map_option ((#) (Token (arg_token (tok_of m a) w)))) (outcome pton6 m rest ?c ?ps)"
        by (rule outcome_Cons)
      ultimately show ?thesis
        unfolding step using True False by (simp split: prod.split option.split)
    qed
  qed
qed simp

section \<open>Matching a line\<close>

lemma prepend_dummy_slots:
  assumes "vec_wf vline"
  shows "\<exists>v. prepend_dummy vline = Some v \<and> active v \<le> length (index v) \<and> vec_slots v = Some ''dummy'' # vec_slots vline"
proof -
  let ?v = "vector_init (alloced vline + 1)"
  have e: "vector_ensure ?v 0 = Some ?v" by (subst vector_ensure.simps) (simp add: vector_init_def)
  have "vector_set_index ?v 0 (Some ''dummy'') =
      Some (\<lparr>active = 1, alloced = alloced vline + 1, index = Some ''dummy'' # replicate (alloced vline) None\<rparr>, 0)"
    unfolding vector_set_index_def e by (simp add: vector_init_def wr_def)
  then show ?thesis using assms by (simp add: prepend_dummy_def vec_slots_def vec_wf_def)
qed

lemma match_paths_tail:
  assumes "cg_wf m" "line_ok (w # rest)" "node_token m a = Some t" "(p, e) \<in> set (match_paths pton6 m (w # rest) stack a)"
  shows "\<exists>q. p = a # q \<and> valid_path pton6 m rest (q, e)"
proof -
  from assms(4) have acc: "accepts pton6 m w stack a" by (auto split: if_splits)
  with accepts_iff [OF assms(1,3)] assms(2) have "ct_type t \<noteq> END_TKN" by (metis line_ok_Cons)
  from hops_eq [OF assms(1,3) this] have h: "\<forall>b \<in> set (hops m a). \<exists>t'. node_token m b = Some t' \<and> \<not> transparent t'"
    by blast
  show ?thesis
  proof (cases "rest = []")
    case False
    with assms(4) acc obtain b q where "b \<in> set (hops m a)" "(q, e) \<in> set (match_paths pton6 m rest (stack @ [a]) b)" "p = a # q"
      by auto
    moreover with h match_paths_valid [OF assms(1)] assms(2) have "valid_path pton6 m rest (q, e)"
      by (metis line_ok_Cons)
    ultimately show ?thesis by blast
  qed (use assms(4) acc in \<open>auto simp: valid_path_def\<close>)
qed

definition arg_ok :: "(string \<Rightarrow> bool) \<Rightarrow> 'e node_data \<Rightarrow> string ptr \<Rightarrow> bool" where
  "arg_ok pton6 d w \<longleftrightarrow>
     (\<exists>tok r. d = Token tok \<and> w \<noteq> None \<and> ct_arg tok = w \<and> \<not> special (ct_type tok) \<and>
              match_token pton6 tok w = Some r \<and> min_match_level (ct_type tok) \<le> r)"

lemma matched_arg_ok: "matched pton6 m a w \<Longrightarrow> arg_ok pton6 (Token (arg_token (tok_of m a) w)) w"
  by (auto simp: matched_def arg_ok_def elim: accepts_input) (simp add: arg_token_def)

end
