(* ===== verification/Command_Complete.thy ===== *)
theory Command_Complete
  imports Command_Select
begin

text \<open>
  Completion walks the graph with one stack per candidate. A stack in hand after some words is the trail of a
  path that accepts them; a path that accepts them exactly is never dropped.
\<close>

section \<open>Trails\<close>

inductive trail :: "(string \<Rightarrow> bool) \<Rightarrow> 'e cmem \<Rightarrow> nat \<Rightarrow> bool \<Rightarrow> string ptr list \<Rightarrow> nat list \<Rightarrow> bool"
  for pton6 m start exact where
  first: "hop m start b \<Longrightarrow> trail pton6 m start exact [] [b]"
| "next": "trail pton6 m start exact ws (a # s) \<Longrightarrow> node_token m a = Some t \<Longrightarrow> ct_attr t = CMD_ATTR_NORMAL \<Longrightarrow>
     match_token pton6 t w = Some r \<Longrightarrow> min_match_level (ct_type t) \<le> r \<Longrightarrow> (exact \<longrightarrow> r = exact_match) \<Longrightarrow>
     hop m a b \<Longrightarrow> node_token m b = Some t' \<Longrightarrow> ct_allowrepeat t' \<or> b \<notin> set (a # s) \<Longrightarrow>
     trail pton6 m start exact (ws @ [w]) (b # a # s)"

inductive_cases trailE: "trail pton6 m start exact ws s"

lemma trail_snocE:
  assumes "trail pton6 m start exact (ws @ [w]) g"
  obtains a s t r b t' where "g = b # a # s" "trail pton6 m start exact ws (a # s)" "node_token m a = Some t"
    "ct_attr t = CMD_ATTR_NORMAL" "match_token pton6 t w = Some r" "min_match_level (ct_type t) \<le> r"
    "exact \<longrightarrow> r = exact_match" "hop m a b" "node_token m b = Some t'" "ct_allowrepeat t' \<or> b \<notin> set (a # s)"
  using assms by (rule trailE) auto

lemma trail_stack:
  "trail pton6 m start exact ws s \<Longrightarrow> s \<noteq> [] \<and> (\<forall>x \<in> set s. \<exists>t. node_token m x = Some t \<and> \<not> transparent t)"
  by (induction rule: trail.induct) (auto dest: hop_token)

lemma trail_shorter: "trail pton6 m start exact (ws @ vs) s \<Longrightarrow> \<exists>s'. trail pton6 m start exact ws s'"
proof (induction vs arbitrary: s rule: rev_induct)
  case (snoc w vs)
  from snoc.prems have "trail pton6 m start exact ((ws @ vs) @ [w]) s" by simp
  then show ?case using snoc.IH by (elim trail_snocE) auto
qed auto

lemma attr_cases: "\<not> (a = CMD_ATTR_HIDDEN \<or> a = CMD_ATTR_DEPRECATED) \<longleftrightarrow> a = CMD_ATTR_NORMAL"
  by (cases a) auto

section \<open>One word\<close>

text \<open>Only the absent word matches trivially.\<close>

lemma octet_trivial: "scan_octet dots sp str \<noteq> Inl trivial_match" "scan_octet_pfx dots sp str \<noteq> Inl trivial_match"
  by (auto simp: scan_octet_eq scan_octet_pfx_eq split: list.split)

lemma match_ipv4_trivial: "match_ipv4_from dots nums str \<noteq> trivial_match"
proof (induction dots nums str rule: match_ipv4_from.induct)
  case (1 dots nums str)
  then show ?case using octet_trivial(1) [of dots "[]" str]
    by (subst match_ipv4_from.simps) (auto split: sum.split list.split)
qed


lemma match_mask_trivial: "match_mask sp \<noteq> Some trivial_match"
  by (auto simp: match_mask_def bind_Some_iff)

lemma match_ipv4_prefix_trivial: "match_ipv4_prefix_from dots str \<noteq> Some trivial_match"
proof (induction dots str rule: match_ipv4_prefix_from.induct)
  case (1 dots str)
  then show ?case using octet_trivial(2) [of dots "[]" str] match_mask_trivial
    by (subst match_ipv4_prefix_from.simps) (auto split: sum.split list.split)
qed

lemma v6_switch_trivial: "v6_switch s v \<noteq> Some (Inl trivial_match)"
proof (cases "v6_state v")
  case STATE_ADDR
  then show ?thesis by (cases "v6_sp v") (simp_all add: v6_switch_def v6_addr_def Let_def)
qed (simp_all add: v6_switch_def v6_colon_def v6_double_colon_def v6_slash_def Let_def)

lemma v6_round_trivial: "v6_round s v \<noteq> Some (Inl trivial_match)"
proof (cases "v6_state v = STATE_START")
  case False
  then show ?thesis
    using v6_switch_trivial [of s v] by (cases "v6_switch s v") (auto simp: v6_round_def split: sum.splits)
qed (simp add: v6_round_def v6_start_def Let_def)

lemma v6_loop_trivial: "v6_loop s v \<noteq> Some (Inl trivial_match)"
proof (induction s v rule: v6_loop.induct)
  case (1 s v)
  then show ?case using v6_round_trivial [of s v]
    by (subst v6_loop.simps) (auto simp: bind_Some_iff split: sum.splits)
qed

lemma match_ipv6_trivial: "match_ipv6_prefix pton6 w b \<noteq> Some trivial_match"
proof -
  let ?v = "\<lparr>v6_state = STATE_START, v6_colons = 0, v6_nums = 0, v6_double = 0, v6_sp = None, v6_pos = 0\<rparr>"
  obtain r where r: "v6_loop w ?v = Some r" using v6_loop_total [of ?v w] by (auto simp: v6_ok_def)
  then have "r \<noteq> Inl trivial_match" using v6_loop_trivial by auto
  with r show ?thesis by (cases r) (auto simp: match_ipv6_prefix_def Let_def split: prod.split)
qed

lemma match_nontrivial:
  assumes "match_token pton6 t (Some x) = Some r"
  shows "r \<noteq> trivial_match"
proof (cases "ct_type t")
  case MAC_TKN
  with assms show ?thesis
    by (auto simp: match_token_def match_mac_def split: if_splits sum.splits dest: mac_scan_result)
next
  case MAC_PREFIX_TKN
  with assms show ?thesis
    by (auto simp: match_token_def match_mac_def Let_def split: if_splits sum.splits list.splits prod.splits dest: mac_scan_result)
qed (use assms match_ipv4_trivial match_ipv4_prefix_trivial match_ipv6_trivial in
  \<open>auto simp: match_token_def match_word_def match_range_def match_variable_def match_ipv4_def match_ipv4_prefix_def
     bind_Some_iff split: if_splits prod.splits\<close>)

definition offered :: "(string \<Rightarrow> bool) \<Rightarrow> 'e cmem \<Rightarrow> string ptr \<Rightarrow> nat \<Rightarrow> bool" where
  "offered pton6 m w a \<longleftrightarrow>
     (\<exists>t r. node_token m a = Some t \<and> ct_attr t = CMD_ATTR_NORMAL \<and> match_token pton6 t w = Some r \<and> r \<noteq> no_match)"

text \<open>The last word: the candidates themselves.\<close>

lemma complete_one_last:
  assumes "cg_wf m" "\<forall>x. w = Some x \<longrightarrow> word_ok x" "node_token m a = Some t"
  shows "complete_one pton6 m w True ex (a # s) = Some (if offered pton6 m w a then [[a]] else [])"
proof -
  obtain r where r: "match_token pton6 t w = Some r" using match_token_Some [OF assms(1,3,2), of pton6] by blast
  show ?thesis
  proof (cases "ct_attr t = CMD_ATTR_NORMAL")
    case True
    with r assms(3) show ?thesis by (auto simp: complete_one_def offered_def)
  next
    case False
    with attr_cases [of "ct_attr t"] assms(3) show ?thesis by (auto simp: complete_one_def offered_def)
  qed
qed

text \<open>Any other word: the trails go on.\<close>

lemma complete_one_sound:
  assumes "cg_wf m" "\<forall>x. w = Some x \<longrightarrow> word_ok x" "w \<noteq> None" "trail pton6 m start False ws (a # s)"
  shows "\<exists>l. complete_one pton6 m w False ex (a # s) = Some l \<and> (\<forall>g \<in> set l. trail pton6 m start False (ws @ [w]) g)"
proof -
  from trail_stack [OF assms(4)] obtain t where t: "node_token m a = Some t" "\<not> transparent t" by auto
  obtain r where r: "match_token pton6 t w = Some r" using match_token_Some [OF assms(1) t(1) assms(2), of pton6] by blast
  show ?thesis
  proof (cases "ct_attr t = CMD_ATTR_NORMAL \<and> min_match_level (ct_type t) \<le> r \<and> r \<noteq> no_match \<and> \<not> (r = partly_match \<and> ex)")
    case True
    then have "ct_type t \<noteq> END_TKN" using end_never_matches [OF _ r] by (auto simp: min_match_level_def)
    from nexthops_total [OF assms(1) t(1) this, of "Some (a # s)"] obtain l where
      l: "nexthops m a (Some (a # s)) = Some l"
        "\<forall>g \<in> set l. \<exists>b t'. g = b # a # s \<and> hop m a b \<and> node_token m b = Some t' \<and> (ct_allowrepeat t' \<or> b \<notin> set (a # s))"
      unfolding stack_of_def option.case by blast
    have "r \<noteq> trivial_match" using True by (auto simp: min_match_level_def less_eq_match_type_def match_level_def split: cmd_token_type.splits)
    with True l(1) r t(1) have "complete_one pton6 m w False ex (a # s) = Some l"
      by (cases "r = partly_match") (auto simp: complete_one_def)
    moreover have "trail pton6 m start False (ws @ [w]) g" if "g \<in> set l" for g
    proof -
      from l(2) that obtain b t' where "g = b # a # s" "hop m a b" "node_token m b = Some t'"
        "ct_allowrepeat t' \<or> b \<notin> set (a # s)" by blast
      with trail.next [OF assms(4) t(1) _ r, of b t'] True show ?thesis by simp
    qed
    ultimately show ?thesis by blast
  next
    case False
    have "r \<noteq> trivial_match" using r assms(3) match_nontrivial by (cases w) auto
    with False r t(1) attr_cases [of "ct_attr t"] show ?thesis by (auto simp: complete_one_def)
  qed
qed

text \<open>A trail of exact matches goes on as well.\<close>

lemma complete_one_exact:
  assumes "cg_wf m" "trail pton6 m start True (ws @ [w]) g" "complete_one pton6 m w False ex (tl g) = Some l"
  shows "g \<in> set l"
  using assms(2)
proof (cases rule: trail_snocE)
  case (1 a s t r b t')
  then have r: "r = exact_match" by simp
  have st: "\<forall>x \<in> set (stack_of (Some (a # s))). \<exists>t. node_token m x = Some t \<and> \<not> transparent t"
    using trail_stack [OF 1(2)] by (simp add: stack_of_def)
  have "complete_one pton6 m w False ex (a # s) = nexthops m a (Some (a # s))"
    using 1 r by (simp add: complete_one_def)
  with assms(3) 1(1) have l: "add_nexthops (Suc (g_next m)) m a (Some (a # s)) = Some l" by (simp add: nexthops_def)
  have "b # stack_of (Some (a # s)) \<in> set l"
    by (rule add_nexthops_complete [OF st 1(8) l]) (use 1 in \<open>auto simp: stack_of_def\<close>)
  with 1(1) show ?thesis by (simp add: stack_of_def)
qed

lemma exact_match_exists_total:
  assumes "cg_wf m" "\<forall>x. w = Some x \<longrightarrow> word_ok x" "\<forall>g \<in> set gs. \<exists>a s t. g = a # s \<and> node_token m a = Some t"
  shows "\<exists>ex. exact_match_exists pton6 m w gs = Some ex"
  using assms(3)
proof (induction gs)
  case (Cons g gs)
  from Cons.prems obtain a s t where g: "g = a # s" "node_token m a = Some t" by auto
  obtain r where "match_token pton6 t w = Some r" using match_token_Some [OF assms(1) g(2) assms(2), of pton6] by blast
  with g Cons show ?case by auto
qed (auto intro: exI [of _ False])

section \<open>The line\<close>

lemma trails_tokens:
  "\<forall>g \<in> set gs. trail pton6 m start exact ws g \<Longrightarrow> \<forall>g \<in> set gs. \<exists>a s t. g = a # s \<and> node_token m a = Some t"
proof
  fix g assume "\<forall>g \<in> set gs. trail pton6 m start exact ws g" "g \<in> set gs"
  with trail_stack [of pton6 m start exact ws g] show "\<exists>a s t. g = a # s \<and> node_token m a = Some t" by (cases g) auto
qed

lemma complete_last_word:
  assumes "cg_wf m" "\<forall>x. w = Some x \<longrightarrow> word_ok x" "\<forall>g \<in> set gs. \<exists>a s t. g = a # s \<and> node_token m a = Some t"
  shows "complete_loop pton6 m [w] gs = Some (map (\<lambda>g. [hd g]) (filter (offered pton6 m w \<circ> hd) gs))"
proof -
  from exact_match_exists_total [OF assms, of pton6] obtain ex where ex: "exact_match_exists pton6 m w gs = Some ex" by blast
  have "collect (complete_one pton6 m w True ex) gs = Some (map (\<lambda>g. [hd g]) (filter (offered pton6 m w \<circ> hd) gs))"
    using assms(3)
  proof (induction gs)
    case (Cons g gs)
    then obtain a s t where "g = a # s" "node_token m a = Some t" by auto
    with Cons complete_one_last [OF assms(1,2), of a t pton6 ex s] show ?case by simp
  qed simp
  with ex show ?thesis by simp
qed

lemma complete_word:
  assumes "cg_wf m" "\<forall>x. w = Some x \<longrightarrow> word_ok x" "w \<noteq> None" "vs \<noteq> []" "gs \<noteq> []"
    and "\<forall>g \<in> set gs. trail pton6 m start False ws g" "\<forall>g. trail pton6 m start True ws g \<longrightarrow> g \<in> set gs"
  obtains hs where "complete_loop pton6 m (w # vs) gs = complete_loop pton6 m vs hs"
    "\<forall>g \<in> set hs. trail pton6 m start False (ws @ [w]) g" "\<forall>g. trail pton6 m start True (ws @ [w]) g \<longrightarrow> g \<in> set hs"
proof -
  from exact_match_exists_total [OF assms(1,2) trails_tokens [OF assms(6)], of pton6] obtain ex where
    ex: "exact_match_exists pton6 m w gs = Some ex" by blast
  have "\<exists>l. complete_one pton6 m w False ex g = Some l \<and> (\<forall>h \<in> set l. trail pton6 m start False (ws @ [w]) h)" if "g \<in> set gs" for g
  proof -
    from that assms(6) have "trail pton6 m start False ws g" by blast
    moreover from trail_stack [OF this] obtain a s where "g = a # s" by (cases g) auto
    ultimately show ?thesis using complete_one_sound [OF assms(1-3)] by blast
  qed
  then have "\<exists>hs. collect (complete_one pton6 m w False ex) gs = Some hs \<and> (\<forall>h \<in> set hs. trail pton6 m start False (ws @ [w]) h)"
    by (rule collect_total)
  then obtain hs where
    hs: "collect (complete_one pton6 m w False ex) gs = Some hs" "\<forall>h \<in> set hs. trail pton6 m start False (ws @ [w]) h" by blast
  show thesis
  proof (rule that)
    show "complete_loop pton6 m (w # vs) gs = complete_loop pton6 m vs hs"
      using ex hs(1) assms(4,5) by simp
    show "\<forall>g \<in> set hs. trail pton6 m start False (ws @ [w]) g" by (rule hs(2))
    show "\<forall>g. trail pton6 m start True (ws @ [w]) g \<longrightarrow> g \<in> set hs"
    proof (intro allI impI)
      fix g assume g: "trail pton6 m start True (ws @ [w]) g"
      then obtain a s b where "g = b # a # s" "trail pton6 m start True ws (a # s)" by (rule trail_snocE) blast
      then have mem: "tl g \<in> set gs" using assms(7) by simp
      from collect_defined [OF hs(1) mem] obtain l where l: "complete_one pton6 m w False ex (tl g) = Some l" by blast
      with complete_one_exact [OF assms(1) g l] collect_set [OF hs(1), of g] mem show "g \<in> set hs" by blast
    qed
  qed
qed

lemma complete_loop_spec:
  assumes "cg_wf m" "line_ok (vs @ [w])" "None \<notin> set vs"
    and "\<forall>g \<in> set gs. trail pton6 m start False ws g" "\<forall>g. trail pton6 m start True ws g \<longrightarrow> g \<in> set gs"
  shows "\<exists>l. complete_loop pton6 m (vs @ [w]) gs = Some l \<and>
    (\<forall>g \<in> set l. \<exists>a s. g = [a] \<and> trail pton6 m start False (ws @ vs) (a # s) \<and> offered pton6 m w a) \<and>
    (\<forall>a s. trail pton6 m start True (ws @ vs) (a # s) \<and> offered pton6 m w a \<longrightarrow> [a] \<in> set l)"
  using assms(2-)
proof (induction vs arbitrary: gs ws)
  case Nil
  let ?l = "map (\<lambda>g. [hd g]) (filter (offered pton6 m w \<circ> hd) gs)"
  have "complete_loop pton6 m [w] gs = Some ?l"
    using Nil.prems by (intro complete_last_word [OF assms(1) _ trails_tokens [OF Nil.prems(3)]]) auto
  moreover have "\<exists>a s. g = [a] \<and> trail pton6 m start False ws (a # s) \<and> offered pton6 m w a" if "g \<in> set ?l" for g
  proof -
    from that obtain h where h: "h \<in> set gs" "g = [hd h]" "offered pton6 m w (hd h)" by auto
    moreover from h(1) Nil.prems(3) have "trail pton6 m start False ws h" by blast
    moreover from trail_stack [OF this] have "h = hd h # tl h" by (cases h) auto
    ultimately show ?thesis by metis
  qed
  moreover have "[a] \<in> set ?l" if "trail pton6 m start True ws (a # s)" "offered pton6 m w a" for a s
    using Nil.prems(4) that by force
  ultimately show ?case by (intro exI [of _ ?l]) (simp only: append_Nil append_Nil2, blast)
next
  case (Cons v vs)
  show ?case
  proof (cases "gs = []")
    case True
    then have none: "\<not> trail pton6 m start True ws g" for g using Cons.prems(4) by auto
    have "\<not> trail pton6 m start True (ws @ v # vs) g" for g
      using trail_shorter [of pton6 m start True ws "v # vs" g] none by blast
    with True show ?thesis by simp
  next
    case False
    have v: "\<forall>x. v = Some x \<longrightarrow> word_ok x" "v \<noteq> None" "vs @ [w] \<noteq> []" using Cons.prems(1,2) by (cases v; simp)+
    obtain hs where "complete_loop pton6 m (v # vs @ [w]) gs = complete_loop pton6 m (vs @ [w]) hs"
      "\<forall>g \<in> set hs. trail pton6 m start False (ws @ [v]) g" "\<forall>g. trail pton6 m start True (ws @ [v]) g \<longrightarrow> g \<in> set hs"
      by (rule complete_word [OF assms(1) v False Cons.prems(3,4)])
    with Cons.IH [of hs "ws @ [v]"] Cons.prems(1,2) show ?thesis by simp
  qed
qed

end
