(* ===== verification/Command_Props.thy ===== *)
theory Command_Props
  imports Command_Complete
begin

text \<open>
  The properties of the command matcher, with a small command graph on which each of them applies.
\<close>

section \<open>A command graph\<close>

text \<open>The graph of \<open><show|NAME>\<close>: the start, a fork, a keyword and a variable, a join, the end and the command.\<close>

definition sample_node :: "'e node_data \<Rightarrow> nat list \<Rightarrow> 'e node_data gnode" where
  "sample_node d tos =
     \<lparr>g_from = vector_init 1, g_to = \<lparr>active = length tos, alloced = length tos, index = map Some tos\<rparr>,
      g_data = Some d, g_del = True\<rparr>"

definition sample_token :: "cmd_token_type \<Rightarrow> string \<Rightarrow> 'e node_data" where
  "sample_token type text = Token (cmd_token_new type CMD_ATTR_NORMAL (Some text) None)"

definition sample_cells :: "(nat \<times> string node_data gnode) list" where
  "sample_cells =
     [(0, sample_node (sample_token START_TKN ''start'') [1]),
      (1, sample_node (sample_token FORK_TKN ''fork'') [2, 3]),
      (2, sample_node (sample_token WORD_TKN ''show'') [4]),
      (3, sample_node (sample_token VARIABLE_TKN ''NAME'') [4]),
      (4, sample_node (sample_token JOIN_TKN ''join'') [5]),
      (5, sample_node (sample_token END_TKN ''end'') [6]),
      (6, sample_node (Element ''show_command'') [])]"

definition sample_mem :: "string cmem" where
  "sample_mem = \<lparr>g_next = 7, g_cells = map_of sample_cells, g_log = []\<rparr>"

definition sample_graph :: graph where
  "sample_graph = \<lparr>nodes = \<lparr>active = 7, alloced = 8, index = map Some [0 ..< 7] @ [None]\<rparr>\<rparr>"

lemma sample_cell: "g_cells sample_mem a = Some n \<Longrightarrow> (a, n) \<in> set sample_cells"
  by (simp add: sample_mem_def map_of_SomeD)

lemma sample_edges: "edge sample_mem a b \<Longrightarrow> a < b"
  by (auto simp: edge_def sample_cells_def sample_node_def vec_slots_def dest!: sample_cell)

lemma sample_acyclic: "acyclic (special_edges sample_mem)"
proof -
  have "special_edges sample_mem \<subseteq> less_than\<inverse>" by (auto simp: special_edges_def dest: sample_edges)
  moreover have "acyclic (less_than\<inverse>)" by (simp add: acyclic_converse wf_acyclic)
  ultimately show ?thesis by (rule acyclic_subset [rotated])
qed

lemma sample_tokens:
  "list_all (\<lambda>(a, n). a < g_next sample_mem \<and> (case node_token sample_mem a of None \<Rightarrow> True | Some t \<Rightarrow>
     (ct_type t = WORD_TKN \<longrightarrow> ct_text t \<noteq> None) \<and> active (g_to n) \<le> length (index (g_to n)) \<and>
     (if ct_type t = END_TKN then end_element sample_mem a \<noteq> None
      else list_all (\<lambda>p. case p of None \<Rightarrow> False | Some b \<Rightarrow> node_token sample_mem b \<noteq> None) (vec_slots (g_to n))))) sample_cells"
  by code_simp

lemma sample_wf: "cg_wf sample_mem"
proof -
  have "a < g_next sample_mem \<and> token_node_ok sample_mem a n t"
    if "g_cells sample_mem a = Some n" "node_token sample_mem a = Some t" for a n t
    using sample_tokens sample_cell [OF that(1)] that(2)
    by (fastforce simp: list_all_iff token_node_ok_def token_ok_def split: option.splits if_splits)
  moreover have "a < g_next sample_mem" if "g_cells sample_mem a = Some n" for a n
    using sample_tokens sample_cell [OF that] by (auto simp: list_all_iff)
  ultimately show ?thesis using sample_acyclic by (auto simp: cg_wf_def)
qed

lemma sample_start:
  "rd (index (nodes sample_graph)) 0 = Some (Some 0)"
  "node_token sample_mem 0 = Some (cmd_token_new START_TKN CMD_ATTR_NORMAL (Some ''start'') None)"
  by (simp_all add: rd_def nth_append sample_graph_def node_token_def sample_mem_def sample_cells_def sample_node_def sample_token_def)

definition sample_line :: "string list \<Rightarrow> string vector" where
  "sample_line ws = \<lparr>active = length ws, alloced = length ws, index = map Some ws\<rparr>"

lemma sample_line_ok:
  assumes "ws \<noteq> []" "length ws \<le> UINT_MAX" "\<forall>w \<in> set ws. length w \<le> 9"
  shows "vec_wf (sample_line ws)" "vec_slots (sample_line ws) = map Some ws" "line_ok (vec_slots (sample_line ws))"
  using assms word_ok_short by (auto simp: sample_line_def vec_wf_def vec_slots_def line_ok_def)

section \<open>Next hops\<close>

text \<open>
  Unless special tokens form a cycle, \<open>add_nexthops\<close> returns, and the nodes it lists are exactly those that an
  edge reaches from the given node after any number of fork, join and start tokens, which are transparent.
\<close>

theorem add_nexthops_exact:
  assumes "cg_wf m" "node_token m a = Some t" "ct_type t \<noteq> END_TKN"
  shows "\<exists>r. nexthops m a None = Some (map (\<lambda>b. [b]) r) \<and> set r = {b. hop m a b}"
proof -
  from nexthops_total [OF assms, of None] obtain r where r: "nexthops m a None = Some r"
    "\<forall>s \<in> set r. \<exists>b. s = [b] \<and> hop m a b" unfolding stack_of_def option.case by metis
  have "map (\<lambda>b. [b]) (map hd r) = r" using r(2) by (induction r) auto
  moreover have "b \<in> set (map hd r)" if "hop m a b" for b
  proof -
    have "[b] \<in> set r"
      using add_nexthops_complete [OF _ that r(1) [unfolded nexthops_def]] by (simp add: stack_of_def)
    then show ?thesis by force
  qed
  then have "set (map hd r) = {b. hop m a b}" using r(2) by fastforce
  ultimately show ?thesis using r(1) by metis
qed

section \<open>Matching\<close>



text \<open>
  C28: When \<open>command_match\<close> succeeds, the list of arguments has one token for each word of the line. Each is an
  ordinary token, its \<open>arg\<close> is the word, and the word matches it at least as well as its type demands, so that a
  handler may rely on the form of its arguments.
\<close>

theorem command_match_args:
  assumes "cg_wf m" "vec_wf vline" "line_ok (vec_slots vline)"
    and "rd (index (nodes g)) 0 = Some (Some start)" "node_token m start = Some t"
    and "command_match pton6 m g vline el = Some (MATCHER_OK, Some argv, el')"
  shows "list_all2 (arg_ok pton6) argv (vec_slots vline)"
proof -
  let ?line = "Some ''dummy'' # vec_slots vline"
  have ok: "line_ok ?line" using assms(3) word_ok_short [of "''dummy''"] by simp
  have outcome: "command_match_r pton6 m ?line start [] =
      Some (outcome pton6 m ?line (covers pton6 m ?line [] start) (match_paths pton6 m ?line [] start))"
    by (rule command_match_r_outcome [OF assms(1) _ ok assms(5)]) simp
  from prepend_dummy_slots [OF assms(2)] obtain v where
    v: "prepend_dummy vline = Some v" "active v \<le> length (index v)" "vec_slots v = ?line" by blast
  obtain b bs where b: "best (path_key pton6 m ?line) (match_paths pton6 m ?line [] start) = b # bs"
      "argv = butlast (tl (path_list m ?line b))"
    using assms(4,6) v outcome by (auto simp: command_match_def outcome_def bind_Some_iff split: list.splits if_splits)
  obtain p e where pe: "b = (p, e)" by (cases b)
  with b(1) have "(p, e) \<in> set (match_paths pton6 m ?line [] start)"
    using subsetD [OF best_subset] by (metis list.set_intros(1))
  from match_paths_tail [OF assms(1) ok assms(5) this] obtain q where
    q: "p = start # q" "list_all2 (matched pton6 m) q (vec_slots vline)" by (auto simp: valid_path_def)
  have "argv = path_args m (vec_slots vline) q"
    using b(2) pe q(1) by (simp add: path_list_def path_args_def)
  then show ?thesis using q(2) by (simp add: path_args_def list_all2_conv_all_nth matched_arg_ok)
qed

theorem command_match_args_witness:
  "list_all2 (arg_ok (\<lambda>_. False))
     [Token (arg_token (cmd_token_new WORD_TKN CMD_ATTR_NORMAL (Some ''show'') None) (Some ''sh'')) :: string node_data]
     (vec_slots (sample_line [''sh'']))"
proof -
  note line = sample_line_ok [of "[''sh'']", simplified UINT_MAX_def, simplified]
  have "command_match (\<lambda>_. False) sample_mem sample_graph (sample_line [''sh'']) None =
      Some (MATCHER_OK, Some [Token (arg_token (cmd_token_new WORD_TKN CMD_ATTR_NORMAL (Some ''show'') None) (Some ''sh''))],
            Some ''show_command'')" by code_simp
  then show ?thesis by (rule command_match_args [OF sample_wf line(1,3) sample_start])
qed

section \<open>Completion\<close>

lemma first_trails:
  assumes "cg_wf m" "node_token m start = Some t" "ct_type t \<noteq> END_TKN"
  obtains gs where "nexthops m start (Some []) = Some gs" "\<forall>g \<in> set gs. trail pton6 m start False [] g"
    "\<forall>g. trail pton6 m start True [] g \<longrightarrow> g \<in> set gs"
proof -
  from nexthops_total [OF assms, of "Some []"] obtain gs where gs: "nexthops m start (Some []) = Some gs"
    "\<forall>g \<in> set gs. \<exists>b. g = [b] \<and> hop m start b" unfolding stack_of_def option.case by metis
  have "\<forall>g \<in> set gs. trail pton6 m start False [] g" using gs(2) trail.first by metis
  moreover have "g \<in> set gs" if "trail pton6 m start True [] g" for g
  proof -
    from that obtain b where b: "g = [b]" "hop m start b" by (rule trailE) auto
    have "b # stack_of (Some []) \<in> set gs"
      by (rule add_nexthops_complete [OF _ b(2) gs(1) [unfolded nexthops_def]]) (simp_all add: stack_of_def)
    with b(1) show ?thesis by (simp add: stack_of_def)
  qed
  ultimately show thesis using that gs(1) by blast
qed

lemma collect_tokens:
  assumes "\<forall>g \<in> set gs. \<exists>a t. g = [a] \<and> node_token m a = Some t"
  shows "collect (\<lambda>g. do { a \<leftarrow> list_data g; t \<leftarrow> node_token m a; Some [t] }) gs = Some (map (tok_of m \<circ> hd) gs)"
  using assms by (induction gs) auto



end
