(* ===== verification/Frrstr.thy ===== *)
theory Frrstr
  imports Vectors C_Strings "HOL-Library.Sublist"
begin

text \<open>
  The string utilities of \<open>libvui/src/vui/lib/frrstr.c\<close> and the splitting of a command line into words by
  \<open>cmd_make_strvec\<close> of \<open>command.c\<close>. Strings are lists of characters without the terminating zero.
\<close>

section \<open>Splitting and joining\<close>

text \<open>\<open>strsep\<close>: the token and the rest, which is \<open>NULL\<close> after the last token.\<close>

definition strsep :: "string \<Rightarrow> string \<Rightarrow> string \<times> string ptr" where
  "strsep s delim =
     (takeWhile (\<lambda>c. c \<notin> set delim) s,
      case dropWhile (\<lambda>c. c \<notin> set delim) s of [] \<Rightarrow> None | c # rest \<Rightarrow> Some rest)"

lemma strsep_shorter: "strsep s delim = (tok, Some rest) \<Longrightarrow> length rest < length s"
  using length_dropWhile_le [of "\<lambda>c. c \<notin> set delim" s] by (auto simp: strsep_def split: list.splits)

text \<open>
  The loop of \<open>frrstr_split\<close>: the string still to be split, the array of \<open>sz\<close> entries and the next index. The
  array is doubled as soon as it is full.
\<close>

function split_from :: "string \<Rightarrow> string ptr \<Rightarrow> string ptr list \<Rightarrow> nat \<Rightarrow> (string ptr list \<times> nat) option" where
  "split_from delim None result idx = Some (result, idx)"
| "split_from delim (Some copy) result idx =
     (case strsep copy delim of
        (tok, copy') \<Rightarrow>
          do { result' \<leftarrow> wr result idx (Some tok);
               split_from delim copy' (if idx + 1 = length result then result' @ replicate (length result) None else result')
                 (idx + 1) })"
  by pat_completeness auto
termination
  by (relation "measure (\<lambda>(delim, copy, result, idx). case copy of None \<Rightarrow> 0 | Some s \<Rightarrow> Suc (length s))")
    (auto split: option.split dest: strsep_shorter [OF sym])

definition frrstr_split :: "string \<Rightarrow> string \<Rightarrow> (string ptr list \<times> nat) option" where
  "frrstr_split string delimiter = split_from delimiter (Some string) (replicate 4 None) 0"

definition frrstr_split_vec :: "string ptr \<Rightarrow> string \<Rightarrow> string vector ptr option" where
  "frrstr_split_vec string delimiter =
     (case string of
        None \<Rightarrow> Some None
      | Some s \<Rightarrow> do { (result, argc) \<leftarrow> frrstr_split s delimiter;
                      v \<leftarrow> array_to_vector (take argc result);
                      Some (Some v) })"

text \<open>
  \<open>frrstr_join\<close>: the result is \<open>NULL\<close> without parts; the copy has to fit the \<open>len\<close> bytes allocated, with the
  terminating zero.
\<close>

fun join_copy :: "string ptr \<Rightarrow> string list \<Rightarrow> string" where
  "join_copy join [] = []"
| "join_copy join [p] = p"
| "join_copy join (p # q # ps) = p @ (case join of None \<Rightarrow> [] | Some j \<Rightarrow> j) @ join_copy join (q # ps)"

definition frrstr_join :: "string list \<Rightarrow> string ptr \<Rightarrow> string ptr option" where
  "frrstr_join parts join =
     (let joinlen = (case join of None \<Rightarrow> 0 | Some j \<Rightarrow> length j);
          len = sum_list (map length parts) + length parts * joinlen + 1
      in if parts = [] then Some None
         else do { c_assert (length (join_copy join parts) + 1 \<le> len); Some (Some (join_copy join parts)) })"

definition frrstr_join_vec :: "string vector \<Rightarrow> string ptr \<Rightarrow> string ptr option" where
  "frrstr_join_vec v join =
     do { argv \<leftarrow> vector_to_array v;
          c_assert (None \<notin> set argv);
          frrstr_join (map the argv) join }"

section \<open>Dropping entries\<close>

lemma unset_trim_le: "unset_trim ix i act = Some act' \<Longrightarrow> i \<le> act \<Longrightarrow> act' \<le> act"
  by (induction ix i act rule: unset_trim.induct) (force simp: bind_eq_Some_conv split: if_splits)+

lemma vector_unset_active_le: "vector_unset v i = Some v' \<Longrightarrow> active v' \<le> active v"
  by (auto simp: vector_unset_def bind_eq_Some_conv split: if_splits dest!: unset_trim_le)

text \<open>The loop that frees and unsets the entries that are not kept.\<close>

function drop_from :: "(string \<Rightarrow> bool) \<Rightarrow> nat \<Rightarrow> string vector \<Rightarrow> string vector option" where
  "drop_from keep i v =
     (if i < active v
      then (case rd (index v) i of
              Some (Some s) \<Rightarrow>
                if keep s then drop_from keep (Suc i) v
                else (case vector_unset v i of None \<Rightarrow> None | Some v' \<Rightarrow> drop_from keep (Suc i) v')
            | _ \<Rightarrow> None)
      else Some v)"
  by pat_completeness auto
termination
proof (relation "measure (\<lambda>(keep, i, v). active v - i)")
  fix keep i v x2 x2a x2b and x2c :: "string vector"
  assume "i < active v" "vector_unset v i = Some x2c"
  then show "((keep, Suc i, x2c), (keep, i, v)) \<in> measure (\<lambda>(keep, i, v). active v - i)"
    using vector_unset_active_le [of v i x2c] by simp
qed auto

declare drop_from.simps [simp del]

text \<open>\<open>regexec\<close> of the compiled filter is a parameter; it matches when it returns zero.\<close>

definition frrstr_filter_vec :: "(string \<Rightarrow> bool) \<Rightarrow> string vector \<Rightarrow> string vector option" where
  "frrstr_filter_vec regexec v = drop_from regexec 0 v"

definition cmd_make_strvec :: "string ptr \<Rightarrow> string vector ptr option" where
  "cmd_make_strvec string =
     (case string of
        None \<Rightarrow> Some None
      | Some s \<Rightarrow>
          (case dropWhile isspace s of
             [] \<Rightarrow> Some None
           | c # cs \<Rightarrow>
               if c = CHR ''!'' \<or> c = CHR ''#'' then Some None
               else do { r \<leftarrow> frrstr_split_vec (Some (c # cs)) [CHR 0x0A, CHR 0x0D, CHR 0x09, CHR 0x20];
                         v \<leftarrow> r;
                         v1 \<leftarrow> drop_from (\<lambda>w. length w \<noteq> 0) 0 v;
                         v2 \<leftarrow> vector_compact v1;
                         Some (Some v2) }))"

section \<open>Searching\<close>

text \<open>\<open>strstr\<close>: the position of the first occurrence.\<close>

fun strstr :: "string \<Rightarrow> string \<Rightarrow> nat option" where
  "strstr [] needle = (if needle = [] then Some 0 else None)"
| "strstr (c # cs) needle = (if prefix needle (c # cs) then Some 0 else map_option Suc (strstr cs needle))"

text \<open>\<open>frrstr_replace\<close> searches again from the start after each replacement; not returning is \<^term>\<open>None\<close>.\<close>

partial_function (option) frrstr_replace :: "string \<Rightarrow> string \<Rightarrow> string \<Rightarrow> string option" where
  "frrstr_replace str needle repl =
     (case strstr str needle of
        None \<Rightarrow> Some str
      | Some ch \<Rightarrow> frrstr_replace (take ch str @ repl @ drop (ch + length needle) str) needle repl)"

definition frrstr_startswith :: "string ptr \<Rightarrow> string ptr \<Rightarrow> bool" where
  "frrstr_startswith str pre =
     (case (str, pre) of
        (Some s, Some p) \<Rightarrow> if length p > length s then False else take (length p) s = p
      | _ \<Rightarrow> False)"

definition frrstr_endswith :: "string ptr \<Rightarrow> string ptr \<Rightarrow> bool" where
  "frrstr_endswith str post =
     (case (str, post) of
        (Some s, Some x) \<Rightarrow> if length x > length s then False else drop (length s - length x) s = x
      | _ \<Rightarrow> False)"

fun all_digit :: "string \<Rightarrow> bool" where
  "all_digit [] = True"
| "all_digit (c # cs) = (if \<not> isdigit c then False else all_digit cs)"

section \<open>Laws\<close>

subsection \<open>Splitting\<close>

text \<open>The fields between delimiters, empty ones included.\<close>

fun delimited :: "string \<Rightarrow> string \<Rightarrow> string list" where
  "delimited delim [] = [[]]"
| "delimited delim (c # cs) =
     (if c \<in> set delim then [] # delimited delim cs
      else (case delimited delim cs of [] \<Rightarrow> [] | f # fs \<Rightarrow> (c # f) # fs))"

lemma fields_not_Nil [simp]: "delimited delim s \<noteq> []"
  by (induction s) (auto split: list.split)

lemma fields_strsep:
  "delimited delim s = fst (strsep s delim) # (case snd (strsep s delim) of None \<Rightarrow> [] | Some r \<Rightarrow> delimited delim r)"
  by (induction s) (auto simp: strsep_def split: list.splits)

lemma split_from_fields:
  assumes "idx < length result" "take idx result = map Some acc"
  shows "\<exists>r n. split_from delim (Some s) result idx = Some (r, n) \<and> n < length r
    \<and> take n r = map Some (acc @ delimited delim s)"
  using assms
proof (induction "length s" arbitrary: s result idx acc rule: less_induct)
  case less
  obtain tok rest where sep: "strsep s delim = (tok, rest)" by fastforce
  let ?r = "if Suc idx = length result then result[idx := Some tok] @ replicate (length result) None
            else result[idx := Some tok]"
  have wr: "wr result idx (Some tok) = Some (result[idx := Some tok])"
    using less.prems(1) by (simp add: wr_Some)
  have lt: "Suc idx < length ?r"
    using less.prems(1) by auto
  have tk: "take (Suc idx) ?r = map Some (acc @ [tok])"
    using less.prems by (simp add: take_Suc_conv_app_nth nth_append)
  have step: "split_from delim (Some s) result idx = split_from delim rest ?r (Suc idx)"
    by (simp add: sep wr)
  show ?case
  proof (cases rest)
    case None
    with step lt tk sep show ?thesis by (simp add: fields_strsep [of delim s])
  next
    case (Some s')
    with sep have "length s' < length s" by (simp add: strsep_shorter)
    from less.hyps [OF this lt tk] show ?thesis
      using step Some sep by (simp add: fields_strsep [of delim s])
  qed
qed

lemma frrstr_split_fields:
  "\<exists>r n. frrstr_split s delim = Some (r, n) \<and> n < length r \<and> take n r = map Some (delimited delim s)"
  using split_from_fields [of 0 "replicate 4 None" "[]" delim s] by (simp add: frrstr_split_def)

lemma length_fields_le: "length (delimited delim s) \<le> Suc (length s)"
  by (induction s) (auto split: list.splits)

lemma frrstr_split_vec_fields:
  assumes "length s < INT_MAX"
  obtains v where "frrstr_split_vec (Some s) delim = Some (Some v)" "vec_wf v" "vec_slots v = map Some (delimited delim s)"
proof -
  obtain r n where r: "frrstr_split s delim = Some (r, n)" "take n r = map Some (delimited delim s)"
    using frrstr_split_fields by blast
  obtain v where "array_to_vector (map Some (delimited delim s)) = Some v" "vec_wf v"
      "vec_slots v = map Some (delimited delim s)"
    using array_to_vector_from_spec [OF vector_init_wf, of VECTOR_MIN_SIZE 0 "map Some (delimited delim s)"]
      length_fields_le [of delim s] assms
    by (auto simp: array_to_vector_def VECTOR_MIN_SIZE_def INT_MAX_def UINT_MAX_def)
  with r show thesis
    using that by (simp add: frrstr_split_vec_def)
qed

subsection \<open>Joining\<close>

lemma length_join_copy:
  "length (join_copy join ps) \<le> sum_list (map length ps) + length ps * (case join of None \<Rightarrow> 0 | Some j \<Rightarrow> length j)"
  by (induction join ps rule: join_copy.induct) (auto split: option.splits)

lemma frrstr_join_eq:
  "frrstr_join parts join = Some (if parts = [] then None else Some (join_copy join parts))"
  using length_join_copy [of join parts] by (simp add: frrstr_join_def Let_def c_assert_def)

lemma fields_append_delim: "d \<in> set delim \<Longrightarrow> delimited delim (s @ d # t) = delimited delim s @ delimited delim t"
  by (induction s) (auto split: list.splits)

lemma fields_no_delim: "set s \<inter> set delim = {} \<Longrightarrow> delimited delim s = [s]"
  by (induction s) auto

lemma fields_join_copy:
  "\<forall>p\<in>set ps. set p \<inter> set delim = {} \<Longrightarrow> d \<in> set delim \<Longrightarrow> ps \<noteq> [] \<Longrightarrow>
    delimited delim (join_copy (Some [d]) ps) = ps"
  by (induction "Some [d]" ps rule: join_copy.induct) (auto simp: fields_no_delim fields_append_delim)

lemma join_copy_fields: "join_copy (Some [d]) (delimited [d] s) = s"
proof (induction s)
  case (Cons c s)
  obtain f fs where fs: "delimited [d] s = f # fs" by (cases "delimited [d] s") auto
  with Cons show ?case by (cases fs) auto
qed simp

subsection \<open>Dropping entries\<close>

abbreviation held :: "'a ptr list \<Rightarrow> 'a ptr list" where
  "held \<equiv> filter (\<lambda>p. p \<noteq> None)"

lemma held_trim_nulls [simp]: "held (trim_nulls ps) = held ps"
  by (induction ps rule: rev_induct) auto

lemma drop_from_held:
  assumes "vec_wf v" "None \<notin> set (drop i (vec_slots v))"
  shows "\<exists>w. drop_from keep i v = Some w \<and> vec_wf w \<and> active w \<le> active v
    \<and> held (vec_slots w) = held (take i (vec_slots v)) @ filter (\<lambda>p. keep (the p)) (drop i (vec_slots v))"
  using assms
proof (induction keep i v rule: drop_from.induct)
  case (1 keep i v)
  let ?ps = "vec_slots v"
  show ?case
  proof (cases "i < active v")
    case False
    with "1.prems" show ?thesis by (simp add: drop_from.simps [of keep i v])
  next
    case lt: True
    have len: "i < length ?ps" using lt "1.prems"(1) by simp
    have dr: "drop i ?ps = ?ps ! i # drop (Suc i) ?ps"
      by (rule Cons_nth_drop_Suc [OF len, symmetric])
    then obtain s where s: "?ps ! i = Some s" and nn: "None \<notin> set (drop (Suc i) ?ps)"
      using "1.prems"(2) by (cases "?ps ! i") auto
    have rd: "rd (index v) i = Some (Some s)"
      using lt s "1.prems"(1) vec_wfD(3,4) [OF "1.prems"(1)] by (simp add: rd_Some)
    have tk: "take (Suc i) ?ps = take i ?ps @ [Some s]"
      using take_Suc_conv_app_nth [OF len] s by simp
    show ?thesis
    proof (cases "keep s")
      case True
      with lt rd "1.IH"(1) [OF lt rd _ True "1.prems"(1) nn] show ?thesis
        by (auto simp: drop_from.simps [of keep i v] dr s tk)
    next
      case False
      obtain u where u: "vector_unset v i = Some u" "vec_wf u"
        "vec_slots u = (if Suc i = active v then trim_nulls (take i ?ps) else ?ps[i := None])"
        by (rule vector_unset_spec [OF "1.prems"(1)])
      have le: "active u \<le> active v" by (rule vector_unset_active_le [OF u(1)])
      have step: "drop_from keep i v = drop_from keep (Suc i) u"
        using lt rd False u(1) by (simp add: drop_from.simps [of keep i v])
      have short: "length (trim_nulls (take i ?ps)) \<le> i"
        using trim_nulls_split [of "take i ?ps"] len by (metis length_append le_add1 length_take min.absorb2 min_le_iff_disj nat_less_le)
      have rest: "drop (Suc i) (vec_slots u) = drop (Suc i) ?ps"
        using u(3) short len "1.prems"(1) by simp
      have front: "held (take (Suc i) (vec_slots u)) = held (take i ?ps)"
        using u(3) short len "1.prems"(1)
        by (simp add: take_Suc_conv_app_nth del: not_None_eq)
      show ?thesis
        using "1.IH"(2) [OF lt rd _ False u(1,2)] nn rest front le step False by (auto simp: dr s)
    qed
  qed
qed

lemma held_map_Some [simp]: "held (map Some xs) = map Some xs"
  by (induction xs) auto

text \<open>Dropping and compacting the split line leaves the fields that are kept.\<close>

lemma drop_compact_fields:
  assumes "vec_wf v" "active v \<le> INT_MAX" "vec_slots v = map Some xs"
  obtains v1 v2 where "drop_from keep 0 v = Some v1" "vector_compact v1 = Some v2" "vec_wf v2"
    "vec_slots v2 = map Some (filter keep xs)"
proof -
  have "None \<notin> set (drop 0 (vec_slots v))" using assms(3) by auto
  from drop_from_held [OF assms(1) this, of keep]
  obtain v1 where v1: "drop_from keep 0 v = Some v1" "vec_wf v1" "active v1 \<le> active v"
    "held (vec_slots v1) = filter (\<lambda>p. keep (the p)) (map Some xs)"
    using assms(3) by auto
  have "\<exists>w. vector_compact_from 0 v1 = Some w \<and> vec_wf w \<and> vec_slots w = held (vec_slots v1)"
    by (rule vector_compact_from_spec) (use v1(2,3) assms(2) in simp_all)
  then show thesis
    using that v1 by (auto simp: vector_compact_def filter_map o_def)
qed

subsection \<open>The words of a command line\<close>

abbreviation blanks :: string where
  "blanks \<equiv> [CHR 0x0A, CHR 0x0D, CHR 0x09, CHR 0x20]"

text \<open>The maximal runs of characters that are not delimiters.\<close>

function words_of :: "string \<Rightarrow> string \<Rightarrow> string list" where
  "words_of delim [] = []"
| "words_of delim (c # cs) =
     (if c \<in> set delim then words_of delim cs
      else (c # takeWhile (\<lambda>x. x \<notin> set delim) cs) # words_of delim (dropWhile (\<lambda>x. x \<notin> set delim) cs))"
  by pat_completeness auto
termination
  by (relation "measure (\<lambda>(delim, s). length s)") (auto simp: less_Suc_eq_le length_dropWhile_le)

lemma words_of_fields: "filter (\<lambda>w. length w \<noteq> 0) (delimited delim s) = words_of delim s"
proof (induction delim s rule: words_of.induct)
  case (2 delim c cs)
  show ?case
  proof (cases "c \<in> set delim")
    case False
    let ?r = "dropWhile (\<lambda>x. x \<notin> set delim) cs"
    have "delimited delim (c # cs) = (c # takeWhile (\<lambda>x. x \<notin> set delim) cs)
        # (case ?r of [] \<Rightarrow> [] | d # r \<Rightarrow> delimited delim r)"
      using False by (subst fields_strsep) (cases ?r; simp add: strsep_def del: dropWhile_eq_Nil_conv)
    moreover have "filter (\<lambda>w. length w \<noteq> 0) (case ?r of [] \<Rightarrow> [] | d # r \<Rightarrow> delimited delim r) = words_of delim ?r"
    proof (cases ?r)
      case (Cons d r)
      then have "d \<in> set delim" using dropWhile_eq_Cons_conv [of "\<lambda>x. x \<notin> set delim" cs d r] by blast
      with "2.IH"(2) [OF False] Cons show ?thesis by simp
    qed (simp del: dropWhile_eq_Nil_conv)
    ultimately show ?thesis using False by simp
  qed (use "2.IH"(1) in simp)
qed simp

section \<open>Properties\<close>

text \<open>
  C32: A command line becomes the vector of its words, the maximal runs of characters that are not blank, without
  empty entries and in order; a line that is only blanks or a comment becomes \<open>NULL\<close>.
\<close>

theorem cmd_make_strvec_words:
  assumes "length s < INT_MAX"
  shows "\<exists>r. cmd_make_strvec (Some s) = Some r
    \<and> (if dropWhile isspace s = [] \<or> hd (dropWhile isspace s) \<in> {CHR ''!'', CHR ''#''} then r = None
       else \<exists>v. r = Some v \<and> vec_wf v \<and> vec_slots v = map Some (words_of blanks (dropWhile isspace s)))"
proof (cases "dropWhile isspace s = [] \<or> hd (dropWhile isspace s) \<in> {CHR ''!'', CHR ''#''}")
  case True
  then show ?thesis by (cases "dropWhile isspace s") (auto simp: cmd_make_strvec_def simp del: dropWhile_eq_Nil_conv)
next
  case False
  let ?l = "dropWhile isspace s"
  have len: "length ?l < INT_MAX" using assms length_dropWhile_le [of isspace s] by simp
  obtain v where v: "frrstr_split_vec (Some ?l) blanks = Some (Some v)" "vec_wf v"
    "vec_slots v = map Some (delimited blanks ?l)"
    by (rule frrstr_split_vec_fields [OF len])
  have "active v \<le> INT_MAX"
    using v(2,3) len length_fields_le [of blanks ?l] by (simp flip: length_vec_slots)
  then obtain v1 v2 where w: "drop_from (\<lambda>w. length w \<noteq> 0) 0 v = Some v1" "vector_compact v1 = Some v2" "vec_wf v2"
    "vec_slots v2 = map Some (words_of blanks ?l)"
    using drop_compact_fields [OF v(2) _ v(3), of "\<lambda>w. length w \<noteq> 0"] unfolding words_of_fields by metis
  obtain c cs where "?l = c # cs" using False by (cases ?l) auto
  with False v(1) w have "cmd_make_strvec (Some s) = Some (Some v2)"
    by (simp add: cmd_make_strvec_def)
  then show ?thesis using False w(3,4) by auto
qed

theorem cmd_make_strvec_words_witness:
  "\<exists>r. cmd_make_strvec (Some ''  show  version '') = Some r
    \<and> (\<exists>v. r = Some v \<and> vec_wf v \<and> vec_slots v = [Some ''show'', Some ''version''])"
proof -
  have l: "dropWhile isspace ''  show  version '' = ''show  version ''"
    "words_of blanks ''show  version '' = [''show'', ''version'']"
    by code_simp+
  then show ?thesis
    using cmd_make_strvec_words [of "''  show  version ''"] by (simp add: INT_MAX_def)
qed

text \<open>
  Joining parts with a delimiter character and splitting at it again gives the parts back, and splitting a
  string at a character and joining the fields with it gives the string back.
\<close>

theorem frrstr_split_join:
  assumes "length s < INT_MAX" "ps \<noteq> []" "\<forall>p\<in>set ps. d \<notin> set p"
  shows "(\<exists>v. frrstr_split_vec (Some s) [d] = Some (Some v) \<and> frrstr_join_vec v (Some [d]) = Some (Some s))
    \<and> (\<exists>str r n. frrstr_join ps (Some [d]) = Some (Some str) \<and> frrstr_split str [d] = Some (r, n)
       \<and> take n r = map Some ps)"
proof
  obtain v where "frrstr_split_vec (Some s) [d] = Some (Some v)" "vec_wf v" "vec_slots v = map Some (delimited [d] s)"
    by (rule frrstr_split_vec_fields [OF assms(1)])
  then show "\<exists>v. frrstr_split_vec (Some s) [d] = Some (Some v) \<and> frrstr_join_vec v (Some [d]) = Some (Some s)"
    by (auto simp: frrstr_join_vec_def vector_to_array_eq c_assert_def frrstr_join_eq join_copy_fields o_def)
  have "delimited [d] (join_copy (Some [d]) ps) = ps"
    by (rule fields_join_copy) (use assms in auto)
  then show "\<exists>str r n. frrstr_join ps (Some [d]) = Some (Some str) \<and> frrstr_split str [d] = Some (r, n)
       \<and> take n r = map Some ps"
    using frrstr_split_fields [of "join_copy (Some [d]) ps" "[d]"] assms(2) by (auto simp: frrstr_join_eq)
qed

end
