(* ===== verification/Vty_State.thy ===== *)
theory Vty_State
  imports Frrstr Buffers
begin

text \<open>
  The terminal session \<open>struct vty\<close> of \<open>vty.h\<close> and \<open>vty.c\<close>, the host settings of \<open>command.h\<close>, and the output
  routines. A pending event (\<open>t_read\<close>, \<open>t_write\<close>, \<open>t_timeout\<close>) is a flag; the output filter is the
  predicate that \<open>regexec\<close> of its compiled expression computes.
\<close>

section \<open>Data\<close>

definition AUTH_NODE :: int where "AUTH_NODE = 0"
definition VIEW_NODE :: int where "VIEW_NODE = 1"
definition AUTH_ENABLE_NODE :: int where "AUTH_ENABLE_NODE = 2"
definition ENABLE_NODE :: int where "ENABLE_NODE = 3"
definition CONFIG_NODE :: int where "CONFIG_NODE = 4"
definition DEBUG_NODE :: int where "DEBUG_NODE = 5"
definition VTY_NODE :: int where "VTY_NODE = 6"

lemmas node_defs = AUTH_NODE_def VIEW_NODE_def AUTH_ENABLE_NODE_def ENABLE_NODE_def CONFIG_NODE_def DEBUG_NODE_def
  VTY_NODE_def

definition VTY_BUFSIZ :: nat where "VTY_BUFSIZ = 4096"
definition VTY_MAXHIST :: nat where "VTY_MAXHIST = 20"
definition TELNET_NAWS_SB_LEN :: nat where "TELNET_NAWS_SB_LEN = 5"

datatype vty_type = VTY_TERM | VTY_FILE | VTY_SHELL | VTY_SHELL_SERV

datatype vty_status = VTY_NORMAL | VTY_CLOSE | VTY_MORE | VTY_MORELINE

text \<open>The values of \<open>escape\<close>; the first is the macro \<open>VTY_NORMAL\<close>.\<close>

datatype vty_escape = VTY_UNESCAPED | VTY_PRE_ESCAPE | VTY_ESCAPE

record vty =
  v_fd :: int
  v_wfd :: int
  v_type :: vty_type
  v_node :: int
  v_fail :: int
  v_filter :: "(string \<Rightarrow> bool) ptr"
  v_lbuf :: buffer
  v_obuf :: buffer
  v_of :: "u8 list"
  v_buf :: string
  v_error :: "(string \<times> nat) list"
  v_cp :: nat
  v_length :: nat
  v_hist :: "string ptr list"
  v_hp :: nat
  v_hindex :: nat
  v_num_cfg_changes :: nat
  v_xpath_index :: int
  v_config :: bool
  v_private_config :: bool
  v_escape :: vty_escape
  v_status :: vty_status
  v_iac :: bool
  v_iac_sb_in_progress :: bool
  v_sb_buf :: "u8 list"
  v_sb_len :: nat
  v_width :: int
  v_height :: int
  v_lines :: int
  v_monitor :: int
  v_t_read :: bool
  v_t_write :: bool
  v_t_timeout :: bool
  v_v_timeout :: nat
  v_frame_pos :: nat
  v_frame :: string

text \<open>The global \<open>host\<close>, without the paths of files.\<close>

record host =
  h_name :: "string ptr"
  h_password :: "string ptr"
  h_password_encrypt :: "string ptr"
  h_enable :: "string ptr"
  h_enable_encrypt :: "string ptr"
  h_lines :: int
  h_encrypt :: bool
  h_advanced :: bool
  h_motd :: "string ptr"

section \<open>Output\<close>

text \<open>Characters of the model as the bytes that are sent.\<close>

definition bytes :: "string \<Rightarrow> u8 list" where
  "bytes s = map of_char s"

lemma bytes_append [simp]: "bytes (s @ t) = bytes s @ bytes t"
  by (simp add: bytes_def)

lemma bytes_Nil [simp]: "bytes [] = []"
  by (simp add: bytes_def)

text \<open>The string at the start of a zero-terminated sequence of bytes.\<close>

definition c_string :: "u8 list \<Rightarrow> string" where
  "c_string bs = map (\<lambda>b. char_of (unat b)) (takeWhile (\<lambda>b. b \<noteq> 0) bs)"

text \<open>
  The part of \<open>vty_out\<close> with an active filter: the line buffer collects the text up to the first newline; the
  other pieces are filtered. The result is the session and the text to print, \<open>NULL\<close> when there is none.
\<close>

definition filter_out :: "(string \<Rightarrow> bool) \<Rightarrow> string \<Rightarrow> vty \<Rightarrow> (vty \<times> string ptr) option" where
  "filter_out regexec p v =
     do { r \<leftarrow> frrstr_split_vec (Some p) [CHR 0x0A];
          lines \<leftarrow> r;
          f \<leftarrow> rd (index lines) 0;
          firstline \<leftarrow> f;
          lb \<leftarrow> buffer_put (v_lbuf v) (bytes firstline);
          if active lines > 1
          then do { (lines1, _) \<leftarrow> vector_set_index lines 0 (Some (c_string (buffer_getstr lb)));
                    lines2 \<leftarrow> frrstr_filter_vec regexec lines1;
                    lines3 \<leftarrow> vector_compact lines2;
                    lines4 \<leftarrow> (if last p = CHR 0x0A \<and> active lines3 > 0
                              then do { q \<leftarrow> rd (index lines3) (active lines3 - 1);
                                        s \<leftarrow> q;
                                        if s \<noteq> [] then map_option fst (vector_set lines3 (Some [])) else Some lines3 }
                              else Some lines3);
                    filtered \<leftarrow> frrstr_join_vec lines4 (Some [CHR 0x0A]);
                    Some (v\<lparr>v_lbuf := buffer_reset lb\<rparr>, filtered) }
          else Some (v\<lparr>v_lbuf := lb\<rparr>, None) }"

text \<open>The text is printed with or without carriage returns, or to the standard output of the shell.\<close>

definition out_text :: "string \<Rightarrow> vty \<Rightarrow> vty option" where
  "out_text s v =
     (case v_type v of
        VTY_TERM \<Rightarrow> do { b \<leftarrow> buffer_put_crlf (v_obuf v) (bytes s); Some (v\<lparr>v_obuf := b\<rparr>) }
      | VTY_SHELL \<Rightarrow> Some (v\<lparr>v_of := v_of v @ bytes s\<rparr>)
      | _ \<Rightarrow> do { b \<leftarrow> buffer_put (v_obuf v) (bytes s); Some (v\<lparr>v_obuf := b\<rparr>) })"

definition vty_out_str :: "string \<Rightarrow> vty \<Rightarrow> vty option" where
  "vty_out_str p v =
     do { (v1, filtered) \<leftarrow> (case v_filter v of Some regexec \<Rightarrow> filter_out regexec p v | None \<Rightarrow> Some (v, Some p));
          case filtered of None \<Rightarrow> Some v1 | Some s \<Rightarrow> out_text s v1 }"

text \<open>\<open>vty_out\<close> of the formatted text; a pending frame goes first.\<close>

definition vty_out :: "string \<Rightarrow> vty \<Rightarrow> vty option" where
  "vty_out p v =
     do { v1 \<leftarrow> (if v_frame_pos v \<noteq> 0 then vty_out_str (v_frame v) (v\<lparr>v_frame_pos := 0\<rparr>) else Some v);
          vty_out_str p v1 }"

definition vty_frame :: "string \<Rightarrow> vty \<Rightarrow> vty option" where
  "vty_frame s v =
     do { c_assert (v_frame_pos v < 1024);
          let f = take (v_frame_pos v) (v_frame v) @ take (1024 - v_frame_pos v - 1) s;
          Some (v\<lparr>v_frame := f, v_frame_pos := length f\<rparr>) }"

definition vty_endframe :: "string ptr \<Rightarrow> vty \<Rightarrow> vty option" where
  "vty_endframe endtext v =
     do { v1 \<leftarrow> (case endtext of Some s \<Rightarrow> if v_frame_pos v = 0 then vty_out s v else Some v | None \<Rightarrow> Some v);
          Some (v1\<lparr>v_frame_pos := 0\<rparr>) }"

text \<open>\<open>regcomp\<close> is a parameter: the predicate of the expression, or the text of the error.\<close>

definition vty_set_include :: "(string \<Rightarrow> string + (string \<Rightarrow> bool)) \<Rightarrow> string ptr \<Rightarrow> vty \<Rightarrow> (bool \<times> vty) option" where
  "vty_set_include regcomp regexp v =
     (case regexp of
        None \<Rightarrow> Some (True, v\<lparr>v_filter := None\<rparr>)
      | Some e \<Rightarrow>
          (case regcomp e of
             Inl err \<Rightarrow> do { v1 \<leftarrow> vty_out (''% Regex compilation error: '' @ err) v; Some (False, v1) }
           | Inr regexec \<Rightarrow> Some (True, v\<lparr>v_filter := Some regexec\<rparr>)))"

text \<open>Output of the line editor, which is suppressed while a password is typed.\<close>

definition vty_write :: "string \<Rightarrow> vty \<Rightarrow> vty option" where
  "vty_write s v =
     (if v_node v = AUTH_NODE \<or> v_node v = AUTH_ENABLE_NODE then Some v
      else do { b \<leftarrow> buffer_put (v_obuf v) (bytes s); Some (v\<lparr>v_obuf := b\<rparr>) })"

text \<open>The negotiation of the telnet options when a session starts.\<close>

definition vty_will_echo :: "vty \<Rightarrow> vty option" where
  "vty_will_echo v = vty_out [CHR 0xFF, CHR 0xFB, CHR 0x01] v"

definition vty_will_suppress_go_ahead :: "vty \<Rightarrow> vty option" where
  "vty_will_suppress_go_ahead v = vty_out [CHR 0xFF, CHR 0xFB, CHR 0x03] v"

definition vty_dont_linemode :: "vty \<Rightarrow> vty option" where
  "vty_dont_linemode v = vty_out [CHR 0xFF, CHR 0xFE, CHR 0x22] v"

definition vty_do_window_size :: "vty \<Rightarrow> vty option" where
  "vty_do_window_size v = vty_out [CHR 0xFF, CHR 0xFD, CHR 0x1F] v"

section \<open>Creation\<close>

definition vty_new :: "nat \<Rightarrow> vty" where
  "vty_new pgsz =
     \<lparr>v_fd = -1, v_wfd = -1, v_type = VTY_TERM, v_node = 0, v_fail = 0, v_filter = None,
      v_lbuf = buffer_new pgsz 0, v_obuf = buffer_new pgsz 0, v_of = [], v_buf = replicate VTY_BUFSIZ NUL,
      v_error = [], v_cp = 0, v_length = 0, v_hist = replicate VTY_MAXHIST None, v_hp = 0, v_hindex = 0,
      v_num_cfg_changes = 0, v_xpath_index = 0, v_config = False, v_private_config = False,
      v_escape = VTY_UNESCAPED, v_status = VTY_NORMAL, v_iac = False, v_iac_sb_in_progress = False,
      v_sb_buf = replicate TELNET_NAWS_SB_LEN 0, v_sb_len = 0, v_width = 0, v_height = 0, v_lines = 0,
      v_monitor = 0, v_t_read = False, v_t_write = False, v_t_timeout = False, v_v_timeout = 0,
      v_frame_pos = 0, v_frame = []\<rparr>"

definition vty_clear_buf :: "vty \<Rightarrow> vty" where
  "vty_clear_buf v = v\<lparr>v_buf := replicate VTY_BUFSIZ NUL\<rparr>"

definition vty_new_init :: "nat \<Rightarrow> int \<Rightarrow> vty" where
  "vty_new_init pgsz vty_sock =
     (vty_clear_buf (vty_new pgsz))
       \<lparr>v_fd := vty_sock, v_wfd := vty_sock, v_type := VTY_TERM, v_node := AUTH_NODE, v_fail := 0, v_cp := 0,
        v_length := 0, v_hist := replicate VTY_MAXHIST None, v_hp := 0, v_hindex := 0, v_xpath_index := 0,
        v_private_config := False, v_status := VTY_NORMAL, v_lines := -1, v_iac := False,
        v_iac_sb_in_progress := False, v_sb_len := 0\<rparr>"

definition vty_shell :: "vty \<Rightarrow> bool" where "vty_shell v \<longleftrightarrow> v_type v = VTY_SHELL"
definition vty_shell_serv :: "vty \<Rightarrow> bool" where "vty_shell_serv v \<longleftrightarrow> v_type v = VTY_SHELL_SERV"

end
