(* ===== verification/Command_Node.thy ===== *)
theory Command_Node
  imports Vty_State Command_Match
begin

text \<open>
  The tree of command nodes of \<open>command_node.c\<close>, and the operations of \<open>command.c\<close> and \<open>vty.c\<close> that only move
  a session between nodes: the prompt, \<open>exit\<close>, \<open>end\<close>, and entering and leaving the configuration mode.
\<close>

section \<open>Nodes\<close>

text \<open>A node with its prompt, and its command graph with the memory that holds it.\<close>

record 'e cmd_node =
  cn_prompt :: string
  cn_cmdgraph :: graph
  cn_mem :: "'e cmem"

definition NODE_TYPE_LIMIT :: nat where "NODE_TYPE_LIMIT = 256"

text \<open>The globals \<open>cmdvec\<close>, \<open>NODE_TYPE_MAX\<close>, \<open>node_names\<close> and \<open>_node_parent\<close>.\<close>

record 'e cmds =
  c_cmdvec :: "'e cmd_node vector"
  c_max :: nat
  c_names :: "string ptr list"
  c_parents :: "int list"

definition node_names_init :: "string ptr list" where
  "node_names_init =
     [Some ''auth'', Some ''view'', Some ''auth enable'', Some ''enable'', Some ''config+'', Some ''debug'', Some ''vty'']
     @ replicate (NODE_TYPE_LIMIT - 7) None"

definition node_parent_init :: "int list" where
  "node_parent_init = [-1, -1, -1, -1, -1, CONFIG_NODE, CONFIG_NODE] @ replicate (NODE_TYPE_LIMIT - 7) 0"

text \<open>Access to an array with an index of type \<open>int\<close>.\<close>

definition rd_int :: "'a list \<Rightarrow> int \<Rightarrow> 'a option" where
  "rd_int xs i = (if i < 0 then None else rd xs (nat i))"

definition node_parent :: "'e cmds \<Rightarrow> int \<Rightarrow> int option" where
  "node_parent c n = rd_int (c_parents c) n"

definition alloc_new_node_id :: "string \<Rightarrow> int \<Rightarrow> 'e cmds \<Rightarrow> (int \<times> 'e cmds) option" where
  "alloc_new_node_id name parent c =
     do { c_assert (c_max c < NODE_TYPE_LIMIT);
          names \<leftarrow> wr (c_names c) (c_max c) (Some name);
          parents \<leftarrow> wr (c_parents c) (c_max c) parent;
          Some (int (c_max c), c\<lparr>c_max := c_max c + 1, c_names := names, c_parents := parents\<rparr>) }"

fun find_name_from :: "string ptr list \<Rightarrow> nat \<Rightarrow> nat \<Rightarrow> string \<Rightarrow> int option" where
  "find_name_from names i 0 name = Some (-1)"
| "find_name_from names i (Suc k) name =
     do { p \<leftarrow> rd names i;
          s \<leftarrow> p;
          if s = name then Some (int i) else find_name_from names (Suc i) k name }"

definition find_node_id_by_name :: "'e cmds \<Rightarrow> string \<Rightarrow> int option" where
  "find_node_id_by_name c name = find_name_from (c_names c) 0 (c_max c) name"

definition cmd_node :: "'e cmds \<Rightarrow> int \<Rightarrow> 'e cmd_node option" where
  "cmd_node c n = do { p \<leftarrow> rd_int (index (c_cmdvec c)) n; p }"

definition cmd_prompt :: "'e cmds \<Rightarrow> int \<Rightarrow> string option" where
  "cmd_prompt c n = map_option cn_prompt (cmd_node c n)"

definition cmd_node_graph :: "'e cmds \<Rightarrow> int \<Rightarrow> ('e cmem \<times> graph) option" where
  "cmd_node_graph c n = map_option (\<lambda>cn. (cn_mem cn, cn_cmdgraph cn)) (cmd_node c n)"

section \<open>Moving between nodes\<close>

text \<open>
  Formatting with \<open>%s\<close> and \<open>%%\<close>, the directives of the prompts; a missing argument or another directive has no
  value here.
\<close>

fun format_s :: "string \<Rightarrow> string list \<Rightarrow> string option" where
  "format_s [] args = Some []"
| "format_s (ch # f) args =
     (if ch \<noteq> CHR 0x25 then map_option (Cons ch) (format_s f args)
      else (case f of
              [] \<Rightarrow> None
            | d # f' \<Rightarrow>
                if d = CHR 0x25 then map_option (Cons d) (format_s f' args)
                else if d = CHR ''s''
                then (case args of [] \<Rightarrow> None | a # as \<Rightarrow> map_option (append a) (format_s f' as))
                else None))"

definition vty_prompt :: "'e cmds \<Rightarrow> host \<Rightarrow> vty \<Rightarrow> vty option" where
  "vty_prompt c h v =
     (if v_type v = VTY_TERM
      then do { p \<leftarrow> cmd_prompt c (v_node v);
                s \<leftarrow> format_s p [case h_name h of None \<Rightarrow> ''(null)'' | Some n \<Rightarrow> n];
                vty_out s v }
      else Some v)"

definition CMD_SUCCESS :: int where "CMD_SUCCESS = 0"
definition CMD_WARNING :: int where "CMD_WARNING = 1"
definition CMD_ERR_NO_MATCH :: int where "CMD_ERR_NO_MATCH = 2"
definition CMD_ERR_AMBIGUOUS :: int where "CMD_ERR_AMBIGUOUS = 3"
definition CMD_ERR_INCOMPLETE :: int where "CMD_ERR_INCOMPLETE = 4"
definition CMD_ERR_NOTHING_TODO :: int where "CMD_ERR_NOTHING_TODO = 6"
definition CMD_COMPLETE_FULL_MATCH :: int where "CMD_COMPLETE_FULL_MATCH = 7"
definition CMD_COMPLETE_MATCH :: int where "CMD_COMPLETE_MATCH = 8"
definition CMD_COMPLETE_LIST_MATCH :: int where "CMD_COMPLETE_LIST_MATCH = 9"
definition CMD_SUCCESS_DAEMON :: int where "CMD_SUCCESS_DAEMON = 10"
definition CMD_WARNING_CONFIG_FAILED :: int where "CMD_WARNING_CONFIG_FAILED = 13"
definition CMD_NOT_MY_INSTANCE :: int where "CMD_NOT_MY_INSTANCE = 14"

lemmas cmd_defs = CMD_SUCCESS_def CMD_WARNING_def CMD_ERR_NO_MATCH_def CMD_ERR_AMBIGUOUS_def CMD_ERR_INCOMPLETE_def
  CMD_ERR_NOTHING_TODO_def CMD_COMPLETE_FULL_MATCH_def CMD_COMPLETE_MATCH_def CMD_COMPLETE_LIST_MATCH_def
  CMD_SUCCESS_DAEMON_def CMD_WARNING_CONFIG_FAILED_def CMD_NOT_MY_INSTANCE_def

definition vty_config_enter :: "bool \<Rightarrow> bool \<Rightarrow> vty \<Rightarrow> (int \<times> vty) option" where
  "vty_config_enter private_config exclusive v =
     (if exclusive
      then do { v1 \<leftarrow> vty_out (''% Configuration is locked by other client'' @ [CHR 0x0A]) v; Some (CMD_WARNING, v1) }
      else Some (CMD_SUCCESS, v\<lparr>v_node := CONFIG_NODE, v_config := True, v_private_config := private_config, v_xpath_index := 0\<rparr>))"

definition vty_config_exit :: "vty \<Rightarrow> vty" where
  "vty_config_exit v = v\<lparr>v_config := False\<rparr>"

text \<open>\<open>cmd_exit\<close>; the shell exits, so that nothing is returned.\<close>

definition cmd_exit :: "'e cmds \<Rightarrow> vty \<Rightarrow> vty option" where
  "cmd_exit c v =
     do { v1 \<leftarrow> (if v_node v = VIEW_NODE \<or> v_node v = ENABLE_NODE
                 then (if vty_shell v then None else Some (v\<lparr>v_status := VTY_CLOSE\<rparr>))
                 else if v_node v = CONFIG_NODE then Some (vty_config_exit (v\<lparr>v_node := ENABLE_NODE\<rparr>))
                 else if v_node v = VTY_NODE then Some (v\<lparr>v_node := CONFIG_NODE\<rparr>)
                 else do { p \<leftarrow> node_parent c (v_node v); Some (v\<lparr>v_node := p\<rparr>) });
          Some (if v_xpath_index v1 > 0 then v1\<lparr>v_xpath_index := v_xpath_index v1 - 1\<rparr> else v1) }"

text \<open>The same lines stand in \<open>config_end\<close>, \<open>vty_end_config\<close> and \<open>vty_stop_input\<close>.\<close>

definition leave_config :: "vty \<Rightarrow> vty" where
  "leave_config v = (if v_config v then (vty_config_exit v)\<lparr>v_node := ENABLE_NODE\<rparr> else v)"

end
