(* ===== verification/Vty_Edit.thy ===== *)
theory Vty_Edit
  imports Command_Node
begin

text \<open>
  The line editor of \<open>vty.c\<close>: the operations bound to keys, on the input buffer \<open>buf\<close> with the cursor \<open>cp\<close> and
  the length \<open>length\<close>, with the characters they send so that the terminal shows the same line.
\<close>

section \<open>Memory and loops\<close>

text \<open>Copying within an array, copying into an array, and reading a part of an array.\<close>

definition c_memmove :: "'a list \<Rightarrow> nat \<Rightarrow> nat \<Rightarrow> nat \<Rightarrow> 'a list option" where
  "c_memmove xs dst src n =
     do { c_assert (dst + n \<le> length xs \<and> src + n \<le> length xs);
          Some (take dst xs @ take n (drop src xs) @ drop (dst + n) xs) }"

definition c_memcpy :: "'a list \<Rightarrow> nat \<Rightarrow> 'a list \<Rightarrow> 'a list option" where
  "c_memcpy xs dst ys =
     do { c_assert (dst + length ys \<le> length xs);
          Some (take dst xs @ ys @ drop (dst + length ys) xs) }"

definition rd_range :: "'a list \<Rightarrow> nat \<Rightarrow> nat \<Rightarrow> 'a list option" where
  "rd_range xs i n = do { c_assert (i + n \<le> length xs); Some (take n (drop i xs)) }"

fun repeat_opt :: "nat \<Rightarrow> ('s \<Rightarrow> 's option) \<Rightarrow> 's \<Rightarrow> 's option" where
  "repeat_opt 0 f s = Some s"
| "repeat_opt (Suc n) f s = do { s1 \<leftarrow> f s; repeat_opt n f s1 }"

text \<open>A loop with at most the given number of rounds; a loop that needs more has no value.\<close>

fun while_opt :: "nat \<Rightarrow> ('s \<Rightarrow> bool option) \<Rightarrow> ('s \<Rightarrow> 's option) \<Rightarrow> 's \<Rightarrow> 's option" where
  "while_opt 0 cond body s = do { b \<leftarrow> cond s; if b then None else Some s }"
| "while_opt (Suc n) cond body s = do { b \<leftarrow> cond s; if b then do { s1 \<leftarrow> body s; while_opt n cond body s1 } else Some s }"

section \<open>Characters\<close>

abbreviation telnet_backward_char :: char where "telnet_backward_char \<equiv> CHR 0x08"
abbreviation telnet_space_char :: char where "telnet_space_char \<equiv> CHR 0x20"

definition vty_self_insert :: "char \<Rightarrow> vty \<Rightarrow> vty option" where
  "vty_self_insert ch v =
     (if v_length v + 1 \<ge> VTY_BUFSIZ then Some v
      else do { c_assert (v_cp v \<le> v_length v);
                let len = v_length v - v_cp v;
                b1 \<leftarrow> c_memmove (v_buf v) (v_cp v + 1) (v_cp v) len;
                b2 \<leftarrow> wr b1 (v_cp v) ch;
                s \<leftarrow> rd_range b2 (v_cp v) (len + 1);
                v1 \<leftarrow> vty_write s (v\<lparr>v_buf := b2\<rparr>);
                v2 \<leftarrow> repeat_opt len (vty_write [telnet_backward_char]) v1;
                b3 \<leftarrow> wr (v_buf v2) (v_length v2 + 1) NUL;
                Some (v2\<lparr>v_cp := v_cp v2 + 1, v_length := v_length v2 + 1, v_buf := b3\<rparr>) })"

definition vty_self_insert_overwrite :: "char \<Rightarrow> vty \<Rightarrow> vty option" where
  "vty_self_insert_overwrite ch v =
     (if v_cp v = v_length v then vty_self_insert ch v
      else do { b1 \<leftarrow> wr (v_buf v) (v_cp v) ch;
                vty_write [ch] (v\<lparr>v_buf := b1, v_cp := v_cp v + 1\<rparr>) })"

definition vty_insert_word_overwrite :: "string \<Rightarrow> vty \<Rightarrow> vty option" where
  "vty_insert_word_overwrite str v =
     (if v_cp v = VTY_BUFSIZ then Some v
      else do { c_assert (v_cp v < VTY_BUFSIZ);
                let nwrite = min (length str) (VTY_BUFSIZ - v_cp v - 1);
                b1 \<leftarrow> c_memcpy (v_buf v) (v_cp v) (take nwrite str);
                let cp = v_cp v + nwrite;
                let len = max cp (v_length v);
                b2 \<leftarrow> wr b1 len NUL;
                vty_write (take nwrite str) (v\<lparr>v_cp := cp, v_length := len, v_buf := b2\<rparr>) })"

section \<open>Movement\<close>

definition vty_forward_char :: "vty \<Rightarrow> vty option" where
  "vty_forward_char v =
     (if v_cp v < v_length v
      then do { ch \<leftarrow> rd (v_buf v) (v_cp v); v1 \<leftarrow> vty_write [ch] v; Some (v1\<lparr>v_cp := v_cp v1 + 1\<rparr>) }
      else Some v)"

definition vty_backward_char :: "vty \<Rightarrow> vty option" where
  "vty_backward_char v =
     (if v_cp v > 0 then vty_write [telnet_backward_char] (v\<lparr>v_cp := v_cp v - 1\<rparr>) else Some v)"

text \<open>The loops move the cursor by one character in each round, so that the length of the buffer bounds them.\<close>

definition vty_beginning_of_line :: "vty \<Rightarrow> vty option" where
  "vty_beginning_of_line v = while_opt VTY_BUFSIZ (\<lambda>v. Some (v_cp v \<noteq> 0)) vty_backward_char v"

definition vty_end_of_line :: "vty \<Rightarrow> vty option" where
  "vty_end_of_line v = while_opt VTY_BUFSIZ (\<lambda>v. Some (v_cp v < v_length v)) vty_forward_char v"

text \<open>The conditions of the loops on words: a character is left at, or before, the cursor, and is a space or not.\<close>

definition at_cursor :: "bool \<Rightarrow> vty \<Rightarrow> bool option" where
  "at_cursor space v =
     (if v_cp v \<noteq> v_length v then do { ch \<leftarrow> rd (v_buf v) (v_cp v); Some ((ch = CHR 0x20) = space) } else Some False)"

definition before_cursor :: "bool \<Rightarrow> vty \<Rightarrow> bool option" where
  "before_cursor space v =
     (if v_cp v > 0 then do { ch \<leftarrow> rd (v_buf v) (v_cp v - 1); Some ((ch = CHR 0x20) = space) } else Some False)"

definition vty_forward_word :: "vty \<Rightarrow> vty option" where
  "vty_forward_word v =
     do { v1 \<leftarrow> while_opt VTY_BUFSIZ (at_cursor False) vty_forward_char v;
          while_opt VTY_BUFSIZ (at_cursor True) vty_forward_char v1 }"

definition vty_backward_pure_word :: "vty \<Rightarrow> vty option" where
  "vty_backward_pure_word v = while_opt VTY_BUFSIZ (before_cursor False) vty_backward_char v"

definition vty_backward_word :: "vty \<Rightarrow> vty option" where
  "vty_backward_word v =
     do { v1 \<leftarrow> while_opt VTY_BUFSIZ (before_cursor True) vty_backward_char v;
          while_opt VTY_BUFSIZ (before_cursor False) vty_backward_char v1 }"

definition vty_redraw_line :: "vty \<Rightarrow> vty option" where
  "vty_redraw_line v =
     do { s \<leftarrow> rd_range (v_buf v) 0 (v_length v);
          v1 \<leftarrow> vty_write s v;
          Some (v1\<lparr>v_cp := v_length v1\<rparr>) }"

section \<open>Leaving a node\<close>

definition vty_down_level :: "'e cmds \<Rightarrow> host \<Rightarrow> vty \<Rightarrow> vty option" where
  "vty_down_level c h v =
     do { v1 \<leftarrow> vty_out [CHR 0x0A] v;
          v2 \<leftarrow> cmd_exit c v1;
          v3 \<leftarrow> vty_prompt c h v2;
          Some (v3\<lparr>v_cp := 0\<rparr>) }"

definition vty_end_config :: "'e cmds \<Rightarrow> host \<Rightarrow> vty \<Rightarrow> vty option" where
  "vty_end_config c h v =
     do { v1 \<leftarrow> vty_out [CHR 0x0A] v;
          v2 \<leftarrow> vty_prompt c h (leave_config v1);
          Some (v2\<lparr>v_cp := 0\<rparr>) }"

definition vty_stop_input :: "'e cmds \<Rightarrow> host \<Rightarrow> vty \<Rightarrow> vty option" where
  "vty_stop_input c h v =
     do { v1 \<leftarrow> vty_out [CHR 0x0A] (vty_clear_buf (v\<lparr>v_cp := 0, v_length := 0\<rparr>));
          v2 \<leftarrow> vty_prompt c h (leave_config v1);
          Some (v2\<lparr>v_hp := v_hindex v2\<rparr>) }"

section \<open>Deletion\<close>

definition vty_delete_char :: "'e cmds \<Rightarrow> host \<Rightarrow> vty \<Rightarrow> vty option" where
  "vty_delete_char c h v =
     (if v_length v = 0 then vty_down_level c h v
      else if v_cp v = v_length v then Some v
      else do { c_assert (v_cp v < v_length v);
                let sz = v_length v - v_cp v;
                let len = v_length v - 1;
                b1 \<leftarrow> c_memmove (v_buf v) (v_cp v) (v_cp v + 1) (sz - 1);
                b2 \<leftarrow> wr b1 len NUL;
                let v1 = v\<lparr>v_length := len, v_buf := b2\<rparr>;
                if v_node v = AUTH_NODE \<or> v_node v = AUTH_ENABLE_NODE then Some v1
                else do { s \<leftarrow> rd_range b2 (v_cp v) (sz - 1);
                          v2 \<leftarrow> vty_write s v1;
                          v3 \<leftarrow> vty_write [telnet_space_char] v2;
                          repeat_opt sz (vty_write [telnet_backward_char]) v3 } })"

definition vty_delete_backward_char :: "'e cmds \<Rightarrow> host \<Rightarrow> vty \<Rightarrow> vty option" where
  "vty_delete_backward_char c h v =
     (if v_cp v = 0 then Some v else do { v1 \<leftarrow> vty_backward_char v; vty_delete_char c h v1 })"

definition vty_kill_line :: "vty \<Rightarrow> vty option" where
  "vty_kill_line v =
     do { c_assert (v_cp v \<le> v_length v);
          let sz = v_length v - v_cp v;
          if sz = 0 then Some v
          else do { v1 \<leftarrow> repeat_opt sz (vty_write [telnet_space_char]) v;
                    v2 \<leftarrow> repeat_opt sz (vty_write [telnet_backward_char]) v1;
                    b \<leftarrow> c_memcpy (v_buf v2) (v_cp v2) (replicate sz NUL);
                    Some (v2\<lparr>v_buf := b, v_length := v_cp v2\<rparr>) } }"

definition vty_kill_line_from_beginning :: "vty \<Rightarrow> vty option" where
  "vty_kill_line_from_beginning v = do { v1 \<leftarrow> vty_beginning_of_line v; vty_kill_line v1 }"

definition vty_forward_kill_word :: "'e cmds \<Rightarrow> host \<Rightarrow> vty \<Rightarrow> vty option" where
  "vty_forward_kill_word c h v =
     do { v1 \<leftarrow> while_opt VTY_BUFSIZ (at_cursor True) (vty_delete_char c h) v;
          while_opt VTY_BUFSIZ (at_cursor False) (vty_delete_char c h) v1 }"

definition vty_backward_kill_word :: "'e cmds \<Rightarrow> host \<Rightarrow> vty \<Rightarrow> vty option" where
  "vty_backward_kill_word c h v =
     do { v1 \<leftarrow> while_opt VTY_BUFSIZ (before_cursor True) (vty_delete_backward_char c h) v;
          while_opt VTY_BUFSIZ (before_cursor False) (vty_delete_backward_char c h) v1 }"

definition vty_transpose_chars :: "vty \<Rightarrow> vty option" where
  "vty_transpose_chars v =
     (if v_length v < 2 \<or> v_cp v < 1 then Some v
      else if v_cp v = v_length v
      then do { c1 \<leftarrow> rd (v_buf v) (v_cp v - 1);
                c2 \<leftarrow> rd (v_buf v) (v_cp v - 2);
                v1 \<leftarrow> vty_backward_char v;
                v2 \<leftarrow> vty_backward_char v1;
                v3 \<leftarrow> vty_self_insert_overwrite c1 v2;
                vty_self_insert_overwrite c2 v3 }
      else do { c1 \<leftarrow> rd (v_buf v) (v_cp v);
                c2 \<leftarrow> rd (v_buf v) (v_cp v - 1);
                v1 \<leftarrow> vty_backward_char v;
                v2 \<leftarrow> vty_self_insert_overwrite c1 v1;
                vty_self_insert_overwrite c2 v2 })"

section \<open>History\<close>

definition vty_history_print :: "vty \<Rightarrow> vty option" where
  "vty_history_print v =
     do { v1 \<leftarrow> vty_kill_line_from_beginning v;
          p \<leftarrow> rd (v_hist v1) (v_hp v1);
          s \<leftarrow> p;
          b1 \<leftarrow> c_memcpy (v_buf v1) 0 s;
          b2 \<leftarrow> wr b1 (length s) NUL;
          vty_redraw_line (v1\<lparr>v_cp := length s, v_length := length s, v_buf := b2\<rparr>) }"

definition vty_next_line :: "vty \<Rightarrow> vty option" where
  "vty_next_line v =
     (if v_hp v = v_hindex v then Some v
      else let try_index = (if v_hp v = VTY_MAXHIST - 1 then 0 else v_hp v + 1)
           in do { p \<leftarrow> rd (v_hist v) try_index;
                   if p = None then Some v else vty_history_print (v\<lparr>v_hp := try_index\<rparr>) })"

definition vty_previous_line :: "vty \<Rightarrow> vty option" where
  "vty_previous_line v =
     (let try_index = (if v_hp v = 0 then VTY_MAXHIST - 1 else v_hp v - 1)
      in do { p \<leftarrow> rd (v_hist v) try_index;
              if p = None then Some v else vty_history_print (v\<lparr>v_hp := try_index\<rparr>) })"

text \<open>The buffer as a string, up to its terminating zero.\<close>

definition vty_line :: "vty \<Rightarrow> string" where
  "vty_line v = takeWhile (\<lambda>ch. ch \<noteq> NUL) (v_buf v)"

definition vty_hist_add :: "vty \<Rightarrow> vty option" where
  "vty_hist_add v =
     (if v_length v = 0 then Some v
      else let i = (if v_hindex v \<noteq> 0 then v_hindex v - 1 else VTY_MAXHIST - 1)
           in do { p \<leftarrow> rd (v_hist v) i;
                   if p = Some (vty_line v) then Some (v\<lparr>v_hp := v_hindex v\<rparr>)
                   else do { hist \<leftarrow> wr (v_hist v) (v_hindex v) (Some (vty_line v));
                             let hindex = (if v_hindex v + 1 = VTY_MAXHIST then 0 else v_hindex v + 1);
                             Some (v\<lparr>v_hist := hist, v_hindex := hindex, v_hp := hindex\<rparr>) } })"

end
