(* ===== verification/Command_Exec.thy ===== *)
theory Command_Exec
  imports Command_Node
begin

text \<open>
  Executing a command line (\<open>command.c\<close>): the command is looked up in the graph of the session's node, with
  \<open>do\<close> in the enable node, and otherwise in the parent nodes; configuration files are read the same way.
  The functions of the commands are a parameter: they take the arguments and the state, and return a
  \<open>CMD_*\<close> code and the state afterwards.
\<close>

section \<open>State and environment\<close>

text \<open>The session, the host settings, and the rest of the program's state.\<close>

record 'w sys =
  s_vty :: vty
  s_host :: host
  s_rest :: 'w

abbreviation s_node :: "'w sys \<Rightarrow> int" where
  "s_node s \<equiv> v_node (s_vty s)"

definition with_vty :: "(vty \<Rightarrow> vty option) \<Rightarrow> 'w sys \<Rightarrow> 'w sys option" where
  "with_vty f s = do { v \<leftarrow> f (s_vty s); Some (s\<lparr>s_vty := v\<rparr>) }"

text \<open>
  What the executor gets from outside: the nodes with their command graphs, \<open>inet_pton\<close>, and of each command
  whether it belongs to another daemon, and its function.
\<close>

record ('e, 'w) cmd_env =
  e_cmds :: "'e cmds"
  e_pton6 :: "string \<Rightarrow> bool"
  e_daemon :: "'e \<Rightarrow> bool"
  e_func :: "'e \<Rightarrow> cmd_token list \<Rightarrow> 'w sys \<Rightarrow> (int \<times> 'w sys) option"

section \<open>One command\<close>

definition matcher_ret :: "matcher_rv \<Rightarrow> int" where
  "matcher_ret status =
     (case status of
        MATCHER_INCOMPLETE \<Rightarrow> CMD_ERR_INCOMPLETE
      | MATCHER_AMBIGUOUS \<Rightarrow> CMD_ERR_AMBIGUOUS
      | _ \<Rightarrow> CMD_ERR_NO_MATCH)"

definition cmd_execute_command_real :: "('e, 'w) cmd_env \<Rightarrow> string vector \<Rightarrow> 'w sys \<Rightarrow> (int \<times> 'w sys) option" where
  "cmd_execute_command_real E vline s =
     do { (m, cmdgraph) \<leftarrow> cmd_node_graph (e_cmds E) (s_node s);
          (status, argv_list, matched) \<leftarrow> command_match (e_pton6 E) m cmdgraph vline None;
          if MATCHER_ERROR status then Some (matcher_ret status, s)
          else do { args \<leftarrow> argv_list;
                    argv \<leftarrow> collect (\<lambda>d. map_option (\<lambda>t. [t]) (as_token d)) args;
                    e \<leftarrow> matched;
                    if e_daemon E e then Some (CMD_SUCCESS_DAEMON, s)
                    else e_func E e argv
                      (if v_config (s_vty s) then s\<lparr>s_vty := (s_vty s)\<lparr>v_num_cfg_changes := 0\<rparr>\<rparr> else s) } }"

definition cmd_try_do_shortcut :: "int \<Rightarrow> string ptr \<Rightarrow> bool" where
  "cmd_try_do_shortcut node first_word \<longleftrightarrow>
     first_word \<noteq> None \<and> node \<noteq> AUTH_NODE \<and> node \<noteq> VIEW_NODE \<and> node \<noteq> AUTH_ENABLE_NODE \<and> first_word = Some ''do''"

text \<open>The copy of the line from a word on.\<close>

fun shift_from :: "string vector \<Rightarrow> nat \<Rightarrow> nat \<Rightarrow> nat \<Rightarrow> string vector \<Rightarrow> string vector option" where
  "shift_from vline offset i 0 v = Some v"
| "shift_from vline offset i (Suc k) v =
     do { w \<leftarrow> vector_lookup vline (i + offset);
          (v', _) \<leftarrow> vector_set_index v i w;
          shift_from vline offset (Suc i) k v' }"

definition shifted_vline :: "string vector \<Rightarrow> nat \<Rightarrow> string vector option" where
  "shifted_vline vline offset =
     do { cnt \<leftarrow> vector_count vline;
          shift_from vline offset 0 (active vline - offset) (vector_init cnt) }"

section \<open>Climbing to the parent nodes\<close>

definition cmd_done :: "int \<Rightarrow> bool" where
  "cmd_done ret \<longleftrightarrow> ret = CMD_SUCCESS \<or> ret = CMD_WARNING \<or> ret = CMD_NOT_MY_INSTANCE \<or> ret = CMD_WARNING_CONFIG_FAILED"

definition enter_node :: "int \<Rightarrow> vty \<Rightarrow> vty" where
  "enter_node n v = v\<lparr>v_node := n, v_xpath_index := (if v_xpath_index v > 0 then v_xpath_index v - 1 else v_xpath_index v)\<rparr>"

text \<open>
  The loop of \<open>cmd_execute_command\<close>; the result is the code of the command that was done, or \<open>NULL\<close>. The first
  argument bounds the number of rounds; the number of nodes is enough when every parent comes before its
  children.
\<close>

fun climb :: "nat \<Rightarrow> ('e, 'w) cmd_env \<Rightarrow> string vector \<Rightarrow> int \<Rightarrow> 'w sys \<Rightarrow> (int ptr \<times> 'w sys) option" where
  "climb 0 E vline try_node s = (if s_node s > CONFIG_NODE then None else Some (None, s))"
| "climb (Suc fuel) E vline try_node s =
     (if s_node s > CONFIG_NODE
      then do { try_node' \<leftarrow> node_parent (e_cmds E) try_node;
                (ret, s') \<leftarrow> cmd_execute_command_real E vline (s\<lparr>s_vty := enter_node try_node' (s_vty s)\<rparr>);
                if cmd_done ret then Some (Some ret, s') else climb fuel E vline try_node' s' }
      else Some (None, s))"

definition cmd_execute_command :: "('e, 'w) cmd_env \<Rightarrow> string vector \<Rightarrow> bool \<Rightarrow> 'w sys \<Rightarrow> (int \<times> 'w sys) option" where
  "cmd_execute_command E vline vtysh s =
     (let onode = s_node s;
          orig_xpath_index = v_xpath_index (s_vty s);
          restore = (\<lambda>s. s\<lparr>s_vty := (s_vty s)\<lparr>v_node := onode, v_xpath_index := orig_xpath_index\<rparr>\<rparr>)
      in do { w \<leftarrow> rd (index vline) 0;
              if cmd_try_do_shortcut onode w
              then do { shifted \<leftarrow> shifted_vline vline 1;
                        (ret, s1) \<leftarrow> cmd_execute_command_real E shifted
                          (s\<lparr>s_vty := (s_vty s)\<lparr>v_node := ENABLE_NODE, v_xpath_index := 0\<rparr>\<rparr>);
                        Some (ret, restore s1) }
              else do { (saved_ret, s1) \<leftarrow> cmd_execute_command_real E vline s;
                        if vtysh \<or> cmd_done saved_ret then Some (saved_ret, s1)
                        else do { (found, s2) \<leftarrow> climb NODE_TYPE_LIMIT E vline onode s1;
                                  case found of
                                    Some ret \<Rightarrow> Some (ret, s2)
                                  | None \<Rightarrow> Some (saved_ret, restore s2) } } })"

definition cmd_execute_command_strict :: "('e, 'w) cmd_env \<Rightarrow> string vector \<Rightarrow> 'w sys \<Rightarrow> (int \<times> 'w sys) option" where
  "cmd_execute_command_strict E vline s = cmd_execute_command_real E vline s"

definition cmd_execute :: "('e, 'w) cmd_env \<Rightarrow> string \<Rightarrow> bool \<Rightarrow> 'w sys \<Rightarrow> (int \<times> 'w sys) option" where
  "cmd_execute E cmd vtysh s =
     do { r \<leftarrow> cmd_make_strvec (Some cmd);
          case r of
            Some vline \<Rightarrow> cmd_execute_command E vline vtysh s
          | None \<Rightarrow> Some (CMD_SUCCESS, s) }"

section \<open>Configuration files\<close>

text \<open>The two conditions under which a line of a file counts as done.\<close>

definition line_found :: "bool \<Rightarrow> int \<Rightarrow> bool" where
  "line_found use_daemon ret \<longleftrightarrow>
     use_daemon \<and> ret = CMD_SUCCESS_DAEMON \<or> \<not> use_daemon \<and> ret = CMD_ERR_NOTHING_TODO
     \<or> ret = CMD_SUCCESS \<or> ret = CMD_WARNING"

fun climb_strict :: "nat \<Rightarrow> ('e, 'w) cmd_env \<Rightarrow> string vector \<Rightarrow> bool \<Rightarrow> int \<Rightarrow> 'w sys \<Rightarrow> (int \<times> 'w sys) option" where
  "climb_strict 0 E vline use_daemon ret s =
     (if \<not> line_found use_daemon ret \<and> s_node s > CONFIG_NODE then None else Some (ret, s))"
| "climb_strict (Suc fuel) E vline use_daemon ret s =
     (if \<not> line_found use_daemon ret \<and> s_node s > CONFIG_NODE
      then do { p \<leftarrow> node_parent (e_cmds E) (s_node s);
                (ret', s') \<leftarrow> cmd_execute_command_strict E vline (s\<lparr>s_vty := enter_node p (s_vty s)\<rparr>);
                climb_strict fuel E vline use_daemon ret' s' }
      else Some (ret, s))"

text \<open>The input line is the string in the session's buffer.\<close>

definition buf_string :: "vty \<Rightarrow> string" where
  "buf_string v = takeWhile (\<lambda>ch. ch \<noteq> NUL) (v_buf v)"

definition command_config_read_one_line ::
  "('e, 'w) cmd_env \<Rightarrow> nat \<Rightarrow> bool \<Rightarrow> 'w sys \<Rightarrow> (int \<times> 'w sys) option" where
  "command_config_read_one_line E line_num use_daemon s =
     do { r \<leftarrow> cmd_make_strvec (Some (buf_string (s_vty s)));
          case r of
            None \<Rightarrow> Some (CMD_SUCCESS, s)
          | Some vline \<Rightarrow>
              do { (ret, s1) \<leftarrow> cmd_execute_command_strict E vline s;
                   (ret', s2) \<leftarrow>
                     (if \<not> line_found use_daemon ret \<and> ret \<noteq> CMD_NOT_MY_INSTANCE \<and> ret \<noteq> CMD_WARNING_CONFIG_FAILED
                         \<and> s_node s1 \<noteq> CONFIG_NODE
                      then do { (ret', s2) \<leftarrow> climb_strict NODE_TYPE_LIMIT E vline use_daemon ret s1;
                                Some (ret',
                                  if line_found use_daemon ret' then s2
                                  else s2\<lparr>s_vty := (s_vty s2)\<lparr>v_node := s_node s1,
                                                               v_xpath_index := v_xpath_index (s_vty s1)\<rparr>\<rparr>) }
                      else Some (ret, s1));
                   Some (ret',
                     if ret' \<noteq> CMD_SUCCESS \<and> ret' \<noteq> CMD_WARNING \<and> ret' \<noteq> CMD_SUCCESS_DAEMON
                     then s2\<lparr>s_vty := (s_vty s2)\<lparr>v_error := v_error (s_vty s2) @ [(buf_string (s_vty s2), line_num)]\<rparr>\<rparr>
                     else s2) } }"

text \<open>\<open>fgets\<close> into the buffer: a line with its newline, or as much as fits; and the rest of the file.\<close>

definition fgets :: "nat \<Rightarrow> string \<Rightarrow> string \<times> string" where
  "fgets sz fp =
     (let line = takeWhile (\<lambda>ch. ch \<noteq> CHR 0x0A) fp;
          n = min (sz - 1) (length line + (if length line < length fp then 1 else 0))
      in (take n fp, drop n fp))"

lemma fgets_shorter: "fp \<noteq> [] \<Longrightarrow> fgets VTY_BUFSIZ fp = (l, rest) \<Longrightarrow> length rest < length fp"
  by (cases fp) (auto simp: fgets_def Let_def VTY_BUFSIZ_def)

text \<open>The state of the buffer after \<open>fgets\<close>: the line, its zero, and what was there before.\<close>

definition store_line :: "string \<Rightarrow> vty \<Rightarrow> vty" where
  "store_line l v = v\<lparr>v_buf := l @ NUL # drop (length l + 1) (v_buf v)\<rparr>"

function config_from_file_loop ::
  "('e, 'w) cmd_env \<Rightarrow> string \<Rightarrow> nat \<Rightarrow> int \<Rightarrow> 'w sys \<Rightarrow> (int \<times> nat \<times> 'w sys) option" where
  "config_from_file_loop E fp line_num error_ret s =
     (if fp = [] then Some (error_ret, line_num, s)
      else (case fgets VTY_BUFSIZ fp of
              (l, rest) \<Rightarrow>
                (case command_config_read_one_line E (line_num + 1) False (s\<lparr>s_vty := store_line l (s_vty s)\<rparr>) of
                   None \<Rightarrow> None
                 | Some (ret, s1) \<Rightarrow>
                     config_from_file_loop E rest (line_num + 1)
                       (if ret \<noteq> CMD_SUCCESS \<and> ret \<noteq> CMD_WARNING \<and> ret \<noteq> CMD_ERR_NOTHING_TODO then ret else error_ret)
                       s1)))"
  by pat_completeness auto
termination
  by (relation "measure (\<lambda>(E, fp, n, r, s). length fp)") (auto simp: fgets_shorter [OF _ sym])

declare config_from_file_loop.simps [simp del]

definition config_from_file :: "('e, 'w) cmd_env \<Rightarrow> string \<Rightarrow> 'w sys \<Rightarrow> (int \<times> nat \<times> 'w sys) option" where
  "config_from_file E fp s =
     do { (error_ret, n, s1) \<leftarrow> config_from_file_loop E fp 0 0 s;
          Some (if error_ret \<noteq> 0 then error_ret else CMD_SUCCESS, n, s1) }"

end
