(* ===== verification/Vty_Complete.thy ===== *)
theory Vty_Complete
  imports Vty_Edit Command_Exec "HOL-Library.Char_ord" "HOL-Library.List_Lexorder"
begin

text \<open>
  Completion and help on the command line: the candidates of the matcher are made unique and sorted
  (\<open>command.c\<close>), and the line editor inserts the only one, or lists them, or prints their descriptions
  (\<open>vty.c\<close>).
\<close>

section \<open>Candidates\<close>

text \<open>\<open>strcmp\<close> of two texts; \<open>NULL\<close> must not occur.\<close>

fun text_exists :: "string \<Rightarrow> cmd_token ptr list \<Rightarrow> bool option" where
  "text_exists s [] = Some False"
| "text_exists s (p # ps) = do { curr \<leftarrow> p; u \<leftarrow> ct_text curr; if u = s then Some True else text_exists s ps }"

text \<open>The loop over the candidates: the vector, and the last end token seen.\<close>

fun add_completions :: "cmd_token list \<Rightarrow> cmd_token vector \<Rightarrow> cmd_token ptr \<Rightarrow> (cmd_token vector \<times> cmd_token ptr) option" where
  "add_completions [] comps cr = Some (comps, cr)"
| "add_completions (token # toks) comps cr =
     (if ct_type token = END_TKN then add_completions toks comps (Some token)
      else do { s \<leftarrow> (if active comps = 0 then Some [] else ct_text token);
                found \<leftarrow> text_exists s (vec_slots comps);
                if found then add_completions toks comps cr
                else do { (comps', _) \<leftarrow> vector_set comps (Some token); add_completions toks comps' cr } })"

text \<open>
  \<open>qsort\<close> with \<open>compare_completions\<close>; the texts are different, so that every way of sorting gives this result.
\<close>

definition sort_completions :: "cmd_token vector \<Rightarrow> cmd_token vector option" where
  "sort_completions comps =
     do { c_assert (active comps \<le> length (index comps));
          c_assert (list_all (\<lambda>p. case p of None \<Rightarrow> False | Some t \<Rightarrow> ct_text t \<noteq> None) (vec_slots comps) \<or> active comps \<le> 1);
          Some (comps\<lparr>index := sort_key (\<lambda>p. the (ct_text (the p))) (vec_slots comps) @ drop (active comps) (index comps)\<rparr>) }"

definition completions_to_vec :: "cmd_token list \<Rightarrow> cmd_token vector option" where
  "completions_to_vec completions =
     do { (comps, cr) \<leftarrow> add_completions completions (vector_init VECTOR_MIN_SIZE) None;
          comps1 \<leftarrow> sort_completions comps;
          case cr of
            None \<Rightarrow> Some comps1
          | Some t \<Rightarrow>
              do { (comps2, _) \<leftarrow> vector_set_index comps1 (active comps1) None;
                   ix \<leftarrow> c_memmove (index comps2) 1 0 (alloced comps2 - 1);
                   (comps3, _) \<leftarrow> vector_set_index (comps2\<lparr>index := ix\<rparr>) 0 (Some t);
                   Some comps3 } }"

definition status_of :: "nat \<Rightarrow> int" where
  "status_of n = (if n = 0 then CMD_ERR_NO_MATCH else if n = 1 then CMD_COMPLETE_FULL_MATCH else CMD_COMPLETE_LIST_MATCH)"

definition cmd_complete_command_real ::
  "('e, 'w) cmd_env \<Rightarrow> int \<Rightarrow> string vector \<Rightarrow> (int \<times> cmd_token vector ptr) option" where
  "cmd_complete_command_real E node vline =
     do { (m, cmdgraph) \<leftarrow> cmd_node_graph (e_cmds E) node;
          (rv, completions) \<leftarrow> command_complete (e_pton6 E) m cmdgraph vline;
          if MATCHER_ERROR rv then Some (CMD_ERR_NO_MATCH, None)
          else do { cs \<leftarrow> completions;
                    comps \<leftarrow> completions_to_vec cs;
                    Some (status_of (active comps), Some comps) } }"

definition cmd_describe_command ::
  "('e, 'w) cmd_env \<Rightarrow> int \<Rightarrow> string vector \<Rightarrow> (int \<times> cmd_token vector ptr) option" where
  "cmd_describe_command E node vline =
     do { w \<leftarrow> rd (index vline) 0;
          if cmd_try_do_shortcut node w
          then do { shifted \<leftarrow> shifted_vline vline 1; cmd_complete_command_real E ENABLE_NODE shifted }
          else cmd_complete_command_real E node vline }"

subsection \<open>Variables\<close>

text \<open>A handler that completes variables; its \<open>completions\<close> function gives the texts it adds.\<close>

record cmd_variable_handler =
  cvh_tokenname :: "string ptr"
  cvh_varname :: "string ptr"
  cvh_completions :: "cmd_token \<Rightarrow> string list"

definition cvh_applies :: "cmd_token \<Rightarrow> cmd_variable_handler \<Rightarrow> bool" where
  "cvh_applies token cvh \<longleftrightarrow>
     (cvh_tokenname cvh = None \<or> cvh_tokenname cvh = ct_text token)
     \<and> (cvh_varname cvh = None \<or> cvh_varname cvh = ct_varname token)"

definition push :: "string \<Rightarrow> string vector \<Rightarrow> string vector option" where
  "push item comps = map_option fst (vector_set comps (Some item))"

text \<open>With an argument, the texts that start with it are added from the last to the first.\<close>

definition cmd_variable_complete ::
  "cmd_variable_handler list \<Rightarrow> cmd_token \<Rightarrow> string ptr \<Rightarrow> string vector \<Rightarrow> string vector option" where
  "cmd_variable_complete varhandlers token arg comps =
     (let items = (case filter (cvh_applies token) varhandlers of [] \<Rightarrow> [] | cvh # _ \<Rightarrow> cvh_completions cvh token)
      in case arg of
           None \<Rightarrow> fold_opt push items comps
         | Some a \<Rightarrow> fold_opt push (filter (\<lambda>item. length item \<ge> length a \<and> take (length a) item = a) (rev items)) comps)"

definition IS_VARYING_TOKEN :: "cmd_token_type \<Rightarrow> bool" where
  "IS_VARYING_TOKEN t \<longleftrightarrow> t \<noteq> WORD_TKN \<and> \<not> special t"

fun add_texts ::
  "cmd_variable_handler list \<Rightarrow> string ptr \<Rightarrow> cmd_token ptr list \<Rightarrow> string vector \<Rightarrow> string vector option" where
  "add_texts varhandlers ref [] comps = Some comps"
| "add_texts varhandlers ref (p # ps) comps =
     do { token \<leftarrow> p;
          comps' \<leftarrow> (if ct_type token = WORD_TKN then do { s \<leftarrow> ct_text token; push s comps }
                     else if IS_VARYING_TOKEN (ct_type token) then cmd_variable_complete varhandlers token ref comps
                     else Some comps);
          add_texts varhandlers ref ps comps' }"

text \<open>
  \<open>MATCHER_ERROR\<close> applied to a \<open>CMD_*\<close> code holds for the codes 0, 1 and 2, of which only \<open>CMD_ERR_NO_MATCH\<close>
  occurs. The result is the status and the array of texts.
\<close>

definition cmd_complete_command ::
  "('e, 'w) cmd_env \<Rightarrow> cmd_variable_handler list \<Rightarrow> int \<Rightarrow> string vector \<Rightarrow> (int \<times> string list ptr) option" where
  "cmd_complete_command E varhandlers node vline =
     do { w \<leftarrow> rd (index vline) 0;
          let do_shortcut = cmd_try_do_shortcut node w;
          input_line \<leftarrow> shifted_vline vline (if do_shortcut then 1 else 0);
          (status, initial) \<leftarrow> cmd_complete_command_real E (if do_shortcut then ENABLE_NODE else node) input_line;
          if 0 \<le> status \<and> status \<le> 2 then Some (status, None)
          else do { ini \<leftarrow> initial;
                    ref \<leftarrow> vector_lookup vline (active vline - 1);
                    comps \<leftarrow> add_texts varhandlers ref (vec_slots ini) (vector_init VECTOR_MIN_SIZE);
                    c_assert (None \<notin> set (vec_slots comps));
                    Some (status_of (active comps), Some (map the (vec_slots comps))) } }"

section \<open>Formatting\<close>

text \<open>\<open>%-*s\<close>.\<close>

definition pad :: "nat \<Rightarrow> string \<Rightarrow> string" where
  "pad n s = s @ replicate (n - length s) CHR 0x20"

abbreviation nl :: string where "nl \<equiv> [CHR 0x0A]"

text \<open>The list of the texts, six in a row.\<close>

fun list_matched :: "nat \<Rightarrow> string list \<Rightarrow> vty \<Rightarrow> vty option" where
  "list_matched i [] v = Some v"
| "list_matched i (s # ss) v =
     do { v1 \<leftarrow> (if i \<noteq> 0 \<and> i mod 6 = 0 then vty_out nl v else Some v);
          v2 \<leftarrow> vty_out (pad 10 s @ [CHR 0x20]) v1;
          list_matched (Suc i) ss v2 }"

text \<open>The last space at or before a position, not at the beginning; 0 when there is none.\<close>

fun fold_pos :: "string \<Rightarrow> nat \<Rightarrow> nat" where
  "fold_pos p 0 = 0"
| "fold_pos p (Suc n) = (if p ! Suc n = CHR 0x20 then Suc n else fold_pos p n)"

lemma fold_pos_le: "fold_pos p n \<le> n"
  by (induction n) auto

lemma fold_pos_space: "fold_pos p n \<noteq> 0 \<Longrightarrow> p ! fold_pos p n = CHR 0x20"
  by (induction n) (auto split: if_splits)

text \<open>The lines of a description that is too wide.\<close>

function fold_lines :: "nat \<Rightarrow> string \<Rightarrow> string list" where
  "fold_lines desc_width p =
     (if length p > desc_width \<and> fold_pos p desc_width \<noteq> 0
      then take (fold_pos p desc_width) p # fold_lines desc_width (drop (fold_pos p desc_width + 1) p)
      else [p])"
  by pat_completeness auto
termination
  by (relation "measure (\<lambda>(w, p). length p)") auto

declare fold_lines.simps [simp del]

text \<open>The command stands before the first line only.\<close>

fun out_lines :: "nat \<Rightarrow> string \<Rightarrow> string list \<Rightarrow> vty \<Rightarrow> vty option" where
  "out_lines cmd_width cmd [] v = Some v"
| "out_lines cmd_width cmd (l # ls) v =
     do { v1 \<leftarrow> vty_out (''  '' @ pad cmd_width cmd @ ''  '' @ l @ nl) v; out_lines cmd_width [] ls v1 }"

definition vty_describe_fold :: "nat \<Rightarrow> nat \<Rightarrow> cmd_token \<Rightarrow> vty \<Rightarrow> vty option" where
  "vty_describe_fold cmd_width desc_width token v =
     do { cmd \<leftarrow> ct_text token;
          desc \<leftarrow> ct_desc token;
          if desc_width = 0 then vty_out (''  '' @ pad cmd_width cmd @ ''  '' @ desc @ nl) v
          else out_lines cmd_width cmd (fold_lines desc_width desc) v }"

section \<open>Completion\<close>

definition redraw_prompt :: "('e, 'w) cmd_env \<Rightarrow> host \<Rightarrow> vty \<Rightarrow> vty option" where
  "redraw_prompt E h v = do { v1 \<leftarrow> vty_prompt (e_cmds E) h v; vty_redraw_line v1 }"

text \<open>A space at the end of the line adds an empty word.\<close>

definition add_null :: "vty \<Rightarrow> string vector \<Rightarrow> string vector option" where
  "add_null v vline =
     do { c_assert (0 < v_length v);
          ch \<leftarrow> rd (v_buf v) (v_length v - 1);
          if isspace ch then map_option fst (vector_set vline None) else Some vline }"

definition vty_complete_command :: "('e, 'w) cmd_env \<Rightarrow> cmd_variable_handler list \<Rightarrow> host \<Rightarrow> vty \<Rightarrow> vty option" where
  "vty_complete_command E varhandlers h v =
     (if v_node v = AUTH_NODE \<or> v_node v = AUTH_ENABLE_NODE then Some v
      else do { r \<leftarrow> cmd_make_strvec (Some (vty_line v));
                case r of
                  None \<Rightarrow> Some v
                | Some vline0 \<Rightarrow>
                    do { vline \<leftarrow> add_null v vline0;
                         (ret, matched) \<leftarrow> cmd_complete_command E varhandlers (v_node v) vline;
                         v1 \<leftarrow> vty_out nl v;
                         if ret = CMD_ERR_AMBIGUOUS
                         then do { v2 \<leftarrow> vty_out (''% Ambiguous command.'' @ nl) v1; redraw_prompt E h v2 }
                         else if ret = CMD_ERR_NO_MATCH then redraw_prompt E h v1
                         else if ret = CMD_COMPLETE_FULL_MATCH
                         then do { ms \<leftarrow> matched;
                                   case ms of
                                     [] \<Rightarrow> do { v2 \<leftarrow> vty_out (''% CLI BUG: FULL_MATCH with NULL str'' @ nl) v1; redraw_prompt E h v2 }
                                   | word # _ \<Rightarrow>
                                       do { v2 \<leftarrow> redraw_prompt E h v1;
                                            v3 \<leftarrow> vty_backward_pure_word v2;
                                            v4 \<leftarrow> vty_insert_word_overwrite word v3;
                                            vty_self_insert CHR 0x20 v4 } }
                         else if ret = CMD_COMPLETE_MATCH
                         then do { ms \<leftarrow> matched;
                                   v2 \<leftarrow> redraw_prompt E h v1;
                                   v3 \<leftarrow> vty_backward_pure_word v2;
                                   word \<leftarrow> rd ms 0;
                                   vty_insert_word_overwrite word v3 }
                         else if ret = CMD_COMPLETE_LIST_MATCH
                         then do { ms \<leftarrow> matched;
                                   v2 \<leftarrow> list_matched 0 ms v1;
                                   v3 \<leftarrow> vty_out nl v2;
                                   redraw_prompt E h v3 }
                         else if ret = CMD_ERR_NOTHING_TODO then redraw_prompt E h v1
                         else Some v1 } })"

section \<open>Description\<close>

fun max_width :: "cmd_token ptr list \<Rightarrow> nat option" where
  "max_width [] = Some 0"
| "max_width (p # ps) =
     do { n \<leftarrow> max_width ps;
          case p of None \<Rightarrow> Some n | Some token \<Rightarrow> do { s \<leftarrow> ct_text token; Some (max (length s) n) } }"

text \<open>The description of one token: on one line, or folded.\<close>

definition describe_token :: "nat \<Rightarrow> nat \<Rightarrow> cmd_token \<Rightarrow> vty \<Rightarrow> vty option" where
  "describe_token cmd_width desc_width token v =
     do { s \<leftarrow> ct_text token;
          case ct_desc token of
            None \<Rightarrow> vty_out (''  '' @ s @ nl) v
          | Some desc \<Rightarrow>
              if desc_width \<ge> length desc then vty_out (''  '' @ pad cmd_width s @ ''  '' @ desc @ nl) v
              else vty_describe_fold cmd_width desc_width token v }"

text \<open>
  \<open>cmd_variable_comp2str\<close>: the texts in rows that fit the columns, each row indented by five; \<open>lc\<close> is the column.
  The string is allocated with \<open>bsz\<close> bytes, and \<open>cs\<close> counts the characters as \<open>snprintf\<close> returns them, with those
  that were cut off. Past the end of the array the remaining size wraps around, and \<open>snprintf\<close> writes out of bounds.
\<close>

definition put_text :: "nat \<Rightarrow> string \<times> nat \<Rightarrow> string \<Rightarrow> (string \<times> nat) option" where
  "put_text bsz st s =
     (case st of
        (txt, cs) \<Rightarrow>
          if cs > bsz then None
          else Some (if length txt = cs then txt @ take (bsz - cs - 1) s else txt, cs + length s))"

fun comp2str :: "nat \<Rightarrow> nat \<Rightarrow> nat \<Rightarrow> string \<times> nat \<Rightarrow> string list \<Rightarrow> string option" where
  "comp2str cols bsz lc st [] = Some (fst st)"
| "comp2str cols bsz lc st (item # items) =
     do { let bsz' = (if snd st + length item + 5 + 3 \<ge> bsz then bsz * 2 else bsz);
          (st1, lc1) \<leftarrow> (if lc + length item + 1 \<ge> cols
                        then map_option (\<lambda>st1. (st1, 5)) (put_text bsz' st ([CHR 0x0A] @ replicate 5 CHR 0x20))
                        else Some (st, lc));
          st2 \<leftarrow> put_text bsz' st1 (item @ [CHR 0x20]);
          comp2str cols bsz' (lc1 + length item + 1) st2 items }"

definition cmd_variable_comp2str :: "string list \<Rightarrow> nat \<Rightarrow> string option" where
  "cmd_variable_comp2str comps cols = comp2str cols 16 5 (replicate 5 CHR 0x20, 5) comps"

definition describe_variable ::
  "cmd_variable_handler list \<Rightarrow> string vector \<Rightarrow> cmd_token \<Rightarrow> vty \<Rightarrow> vty option" where
  "describe_variable varhandlers vline token v =
     (if IS_VARYING_TOKEN (ct_type token)
      then do { c_assert (0 < active vline);
                ref \<leftarrow> rd (index vline) (active vline - 1);
                varcomps \<leftarrow> cmd_variable_complete varhandlers token ref (vector_init VECTOR_MIN_SIZE);
                c_assert (None \<notin> set (vec_slots varcomps));
                if active varcomps > 0
                then do { ac \<leftarrow> cmd_variable_comp2str (map the (vec_slots varcomps)) (nat (v_width v mod 65536));
                          vty_out (ac @ nl) v }
                else Some v }
      else Some v)"

text \<open>The loop over the tokens; the token for the end of the command is kept for the end.\<close>

fun describe_loop ::
  "cmd_variable_handler list \<Rightarrow> string vector \<Rightarrow> nat \<Rightarrow> nat \<Rightarrow> cmd_token ptr list \<Rightarrow> cmd_token ptr \<Rightarrow> vty \<Rightarrow>
     (cmd_token ptr \<times> vty) option" where
  "describe_loop varhandlers vline cmd_width desc_width [] cr v = Some (cr, v)"
| "describe_loop varhandlers vline cmd_width desc_width (p # ps) cr v =
     (case p of
        None \<Rightarrow> describe_loop varhandlers vline cmd_width desc_width ps cr v
      | Some token \<Rightarrow>
          do { s \<leftarrow> ct_text token;
               if s = [] then describe_loop varhandlers vline cmd_width desc_width ps cr v
               else if s = ''<cr>'' then describe_loop varhandlers vline cmd_width desc_width ps (Some token) v
               else do { v1 \<leftarrow> describe_token cmd_width desc_width token v;
                         v2 \<leftarrow> describe_variable varhandlers vline token v1;
                         describe_loop varhandlers vline cmd_width desc_width ps cr v2 } })"

definition vty_describe_command :: "('e, 'w) cmd_env \<Rightarrow> cmd_variable_handler list \<Rightarrow> host \<Rightarrow> vty \<Rightarrow> vty option" where
  "vty_describe_command E varhandlers h v =
     do { r \<leftarrow> cmd_make_strvec (Some (vty_line v));
          vline \<leftarrow> (case r of
                     None \<Rightarrow> map_option fst (vector_set (vector_init 1) None)
                   | Some vline0 \<Rightarrow> add_null v vline0);
          (ret, describe) \<leftarrow> cmd_describe_command E (v_node v) vline;
          v1 \<leftarrow> vty_out nl v;
          v2 \<leftarrow> (if ret = CMD_ERR_AMBIGUOUS then vty_out (''% Ambiguous command.'' @ nl) v1
                 else if ret = CMD_ERR_NO_MATCH then vty_out (''% There is no matched command.'' @ nl) v1
                 else do { d \<leftarrow> describe;
                           width \<leftarrow> max_width (vec_slots d);
                           let desc_width = nat ((v_width v1 - (int width + 6)) mod 2 ^ 32);
                           (cr, v2) \<leftarrow> describe_loop varhandlers vline width desc_width (vec_slots d) None v1;
                           case cr of None \<Rightarrow> Some v2 | Some token \<Rightarrow> describe_token width desc_width token v2 });
          redraw_prompt E h v2 }"

end
