(* ===== verification/Host_Commands.thy ===== *)
theory Host_Commands
  imports Command_Exec
begin

text \<open>
  The commands of \<open>command.c\<close> and \<open>vty.c\<close> that change the session or the host settings, and the check of a
  password. \<open>crypt\<close> is a parameter, as are the random number and the time that make a salt.
\<close>

section \<open>Passwords\<close>

definition itoa64 :: string where
  "itoa64 = ''./0123456789ABCDEFGHIJKLMNOPQRSTUVWXYZabcdefghijklmnopqrstuvwxyz''"

fun to64 :: "nat \<Rightarrow> nat \<Rightarrow> string" where
  "to64 v 0 = []"
| "to64 v (Suc n) = itoa64 ! (v mod 64) # to64 (v div 64) n"

text \<open>The third character of the second half is overwritten by the terminating zero.\<close>

definition zencrypt :: "(string \<Rightarrow> string \<Rightarrow> string) \<Rightarrow> nat \<Rightarrow> nat \<Rightarrow> string \<Rightarrow> string" where
  "zencrypt crypt rnd usec passwd = crypt passwd (take 5 (to64 rnd 3 @ to64 usec 3))"

text \<open>The password that is asked for, and whether a line is that password.\<close>

definition auth_passwd :: "host \<Rightarrow> int \<Rightarrow> string ptr" where
  "auth_passwd h node =
     (if node = AUTH_NODE then (if h_encrypt h then h_password_encrypt h else h_password h)
      else if node = AUTH_ENABLE_NODE then (if h_encrypt h then h_enable_encrypt h else h_enable h)
      else None)"

definition auth_next :: "host \<Rightarrow> int \<Rightarrow> int" where
  "auth_next h node =
     (if node = AUTH_NODE
      then (if h_advanced h then (if h_enable h \<noteq> None then VIEW_NODE else ENABLE_NODE) else VIEW_NODE)
      else if node = AUTH_ENABLE_NODE then ENABLE_NODE else 0)"

definition auth_ok :: "(string \<Rightarrow> string \<Rightarrow> string) \<Rightarrow> host \<Rightarrow> int \<Rightarrow> string \<Rightarrow> bool" where
  "auth_ok crypt h node buf =
     (case auth_passwd h node of
        Some passwd \<Rightarrow> if h_encrypt h then crypt buf passwd = passwd else buf = passwd
      | None \<Rightarrow> False)"

definition vty_auth :: "(string \<Rightarrow> string \<Rightarrow> string) \<Rightarrow> host \<Rightarrow> string \<Rightarrow> vty \<Rightarrow> vty option" where
  "vty_auth crypt h buf v =
     (if auth_ok crypt h (v_node v) buf then Some (v\<lparr>v_fail := 0, v_node := auth_next h (v_node v)\<rparr>)
      else let v1 = v\<lparr>v_fail := v_fail v + 1\<rparr>
           in if v_fail v1 \<ge> 3
              then (if v_node v = AUTH_NODE
                    then do { v2 \<leftarrow> vty_out (''% Bad passwords, too many failures!'' @ [CHR 0x0A]) v1;
                              Some (v2\<lparr>v_status := VTY_CLOSE\<rparr>) }
                    else do { v2 \<leftarrow> vty_out (''% Bad enable passwords, too many failures!'' @ [CHR 0x0A]) (v1\<lparr>v_fail := 0\<rparr>);
                              Some (v2\<lparr>v_status := VTY_CLOSE\<rparr>) })
              else Some v1)"

section \<open>Commands\<close>

text \<open>The text of an argument; an index past the arguments or a token without text has no value.\<close>

definition arg_of :: "cmd_token list \<Rightarrow> nat \<Rightarrow> string option" where
  "arg_of argv i = do { t \<leftarrow> rd argv i; ct_arg t }"

definition say :: "string \<Rightarrow> 'w sys \<Rightarrow> 'w sys option" where
  "say msg s = with_vty (vty_out msg) s"

definition config_terminal :: "'w sys \<Rightarrow> (int \<times> 'w sys) option" where
  "config_terminal s = do { (ret, v) \<leftarrow> vty_config_enter False False (s_vty s); Some (ret, s\<lparr>s_vty := v\<rparr>) }"

definition enable :: "'w sys \<Rightarrow> (int \<times> 'w sys) option" where
  "enable s =
     Some (CMD_SUCCESS,
       s\<lparr>s_vty := (s_vty s)\<lparr>v_node :=
           (if h_enable (s_host s) = None \<and> h_enable_encrypt (s_host s) = None \<or> v_type (s_vty s) = VTY_SHELL_SERV
            then ENABLE_NODE else AUTH_ENABLE_NODE)\<rparr>\<rparr>)"

definition disable :: "'w sys \<Rightarrow> (int \<times> 'w sys) option" where
  "disable s = Some (CMD_SUCCESS, if s_node s = ENABLE_NODE then s\<lparr>s_vty := (s_vty s)\<lparr>v_node := VIEW_NODE\<rparr>\<rparr> else s)"

definition config_exit :: "'e cmds \<Rightarrow> 'w sys \<Rightarrow> (int \<times> 'w sys) option" where
  "config_exit c s = do { s1 \<leftarrow> with_vty (cmd_exit c) s; Some (CMD_SUCCESS, s1) }"

definition config_quit :: "'e cmds \<Rightarrow> 'w sys \<Rightarrow> (int \<times> 'w sys) option" where
  "config_quit c s = config_exit c s"

definition config_end :: "'w sys \<Rightarrow> (int \<times> 'w sys) option" where
  "config_end s = Some (CMD_SUCCESS, s\<lparr>s_vty := leave_config (s_vty s)\<rparr>)"

definition line_vty :: "'w sys \<Rightarrow> (int \<times> 'w sys) option" where
  "line_vty s = Some (CMD_SUCCESS, s\<lparr>s_vty := (s_vty s)\<lparr>v_node := VTY_NODE\<rparr>\<rparr>)"

definition isalnum :: "char \<Rightarrow> bool" where
  "isalnum ch \<longleftrightarrow> isdigit ch \<or> 65 \<le> char_code ch \<and> char_code ch \<le> 90 \<or> 97 \<le> char_code ch \<and> char_code ch \<le> 122"

text \<open>The first character of a string, which is the terminating zero if there is no other.\<close>

definition first_char :: "string \<Rightarrow> char" where
  "first_char s = (case s of [] \<Rightarrow> NUL | ch # cs \<Rightarrow> ch)"

definition HOSTNAME_LEN :: nat where "HOSTNAME_LEN = 255"

text \<open>\<open>strdup\<close> of \<open>NULL\<close> does not return.\<close>

definition cmd_hostname_set :: "string ptr \<Rightarrow> 'w sys \<Rightarrow> (int \<times> 'w sys) option" where
  "cmd_hostname_set hostname s = do { n \<leftarrow> hostname; Some (CMD_SUCCESS, s\<lparr>s_host := (s_host s)\<lparr>h_name := Some n\<rparr>\<rparr>) }"

definition config_hostname :: "cmd_token list \<Rightarrow> 'w sys \<Rightarrow> (int \<times> 'w sys) option" where
  "config_hostname argv s =
     do { word \<leftarrow> arg_of argv 1;
          if \<not> isalnum (first_char word)
          then do { s1 \<leftarrow> say (''Please specify string starting with alphabet or number'' @ [CHR 0x0A]) s;
                    Some (CMD_WARNING_CONFIG_FAILED, s1) }
          else if length word > HOSTNAME_LEN
          then do { s1 \<leftarrow> say (''Hostname length should be less than 255 chars'' @ [CHR 0x0A]) s;
                    Some (CMD_WARNING_CONFIG_FAILED, s1) }
          else cmd_hostname_set (Some word) s }"

definition config_no_hostname :: "'w sys \<Rightarrow> (int \<times> 'w sys) option" where
  "config_no_hostname s = cmd_hostname_set None s"

definition alnum_error :: string where
  "alnum_error = ''Please specify string starting with alphanumeric'' @ [CHR 0x0A]"

definition config_password :: "(string \<Rightarrow> string) \<Rightarrow> cmd_token list \<Rightarrow> 'w sys \<Rightarrow> (int \<times> 'w sys) option" where
  "config_password encrypt argv s =
     (if length argv = 3
      then do { word \<leftarrow> arg_of argv 2;
                Some (CMD_SUCCESS, s\<lparr>s_host := (s_host s)\<lparr>h_password := None, h_password_encrypt := Some word\<rparr>\<rparr>) }
      else do { word \<leftarrow> arg_of argv 1;
                if \<not> isalnum (first_char word)
                then do { s1 \<leftarrow> say alnum_error s; Some (CMD_WARNING_CONFIG_FAILED, s1) }
                else Some (CMD_SUCCESS,
                  s\<lparr>s_host := (if h_encrypt (s_host s)
                              then (s_host s)\<lparr>h_password := None, h_password_encrypt := Some (encrypt word)\<rparr>
                              else (s_host s)\<lparr>h_password := Some word\<rparr>)\<rparr>) })"

definition config_enable_password :: "(string \<Rightarrow> string) \<Rightarrow> cmd_token list \<Rightarrow> 'w sys \<Rightarrow> (int \<times> 'w sys) option" where
  "config_enable_password encrypt argv s =
     (if length argv = 4
      then do { eight \<leftarrow> arg_of argv 2;
                if first_char eight = CHR ''8''
                then do { word \<leftarrow> arg_of argv 3;
                          Some (CMD_SUCCESS, s\<lparr>s_host := (s_host s)\<lparr>h_enable := None, h_enable_encrypt := Some word\<rparr>\<rparr>) }
                else do { s1 \<leftarrow> say (''Unknown encryption type.'' @ [CHR 0x0A]) s; Some (CMD_WARNING_CONFIG_FAILED, s1) } }
      else do { word \<leftarrow> arg_of argv 2;
                if \<not> isalnum (first_char word)
                then do { s1 \<leftarrow> say alnum_error s; Some (CMD_WARNING_CONFIG_FAILED, s1) }
                else Some (CMD_SUCCESS,
                  s\<lparr>s_host := (if h_encrypt (s_host s)
                              then (s_host s)\<lparr>h_enable := None, h_enable_encrypt := Some (encrypt word)\<rparr>
                              else (s_host s)\<lparr>h_enable := Some word\<rparr>)\<rparr>) })"

definition NO_PASSWD_CMD_WARNING :: string where
  "NO_PASSWD_CMD_WARNING =
     ''Please be aware that removing the password is a security risk and you should think twice about this command.''
     @ [CHR 0x0A]"

text \<open>The warning is given once, unless the session is the shell's.\<close>

definition warn_passwd :: "string ptr \<Rightarrow> string ptr \<Rightarrow> 'w sys \<Rightarrow> 'w sys option" where
  "warn_passwd plain enc s =
     (if (plain \<noteq> None \<or> enc \<noteq> None) \<and> \<not> vty_shell_serv (s_vty s) then say NO_PASSWD_CMD_WARNING s else Some s)"

definition no_config_password :: "'w sys \<Rightarrow> (int \<times> 'w sys) option" where
  "no_config_password s =
     do { s1 \<leftarrow> warn_passwd (h_password (s_host s)) (h_password_encrypt (s_host s)) s;
          Some (CMD_SUCCESS, s1\<lparr>s_host := (s_host s1)\<lparr>h_password := None, h_password_encrypt := None\<rparr>\<rparr>) }"

definition no_config_enable_password :: "'w sys \<Rightarrow> (int \<times> 'w sys) option" where
  "no_config_enable_password s =
     do { s1 \<leftarrow> warn_passwd (h_enable (s_host s)) (h_enable_encrypt (s_host s)) s;
          Some (CMD_SUCCESS, s1\<lparr>s_host := (s_host s1)\<lparr>h_enable := None, h_enable_encrypt := None\<rparr>\<rparr>) }"

definition service_password_encrypt :: "(string \<Rightarrow> string) \<Rightarrow> 'w sys \<Rightarrow> (int \<times> 'w sys) option" where
  "service_password_encrypt encrypt s =
     (let h = s_host s
      in Some (CMD_SUCCESS,
           if h_encrypt h then s
           else s\<lparr>s_host := h\<lparr>h_encrypt := True,
                   h_password_encrypt := (case h_password h of Some p \<Rightarrow> Some (encrypt p) | None \<Rightarrow> h_password_encrypt h),
                   h_enable_encrypt := (case h_enable h of Some p \<Rightarrow> Some (encrypt p) | None \<Rightarrow> h_enable_encrypt h)\<rparr>\<rparr>))"

definition no_service_password_encrypt :: "'w sys \<Rightarrow> (int \<times> 'w sys) option" where
  "no_service_password_encrypt s =
     (let h = s_host s
      in Some (CMD_SUCCESS,
           if \<not> h_encrypt h then s
           else s\<lparr>s_host := h\<lparr>h_encrypt := False, h_password_encrypt := None, h_enable_encrypt := None\<rparr>\<rparr>))"

definition config_terminal_length :: "cmd_token list \<Rightarrow> 'w sys \<Rightarrow> (int \<times> 'w sys) option" where
  "config_terminal_length argv s =
     do { a \<leftarrow> arg_of argv 2; n \<leftarrow> atoi a; Some (CMD_SUCCESS, s\<lparr>s_vty := (s_vty s)\<lparr>v_lines := n\<rparr>\<rparr>) }"

definition config_terminal_no_length :: "'w sys \<Rightarrow> (int \<times> 'w sys) option" where
  "config_terminal_no_length s = Some (CMD_SUCCESS, s\<lparr>s_vty := (s_vty s)\<lparr>v_lines := -1\<rparr>\<rparr>)"

definition service_terminal_length :: "cmd_token list \<Rightarrow> 'w sys \<Rightarrow> (int \<times> 'w sys) option" where
  "service_terminal_length argv s =
     do { a \<leftarrow> arg_of argv 2; n \<leftarrow> atoi a; Some (CMD_SUCCESS, s\<lparr>s_host := (s_host s)\<lparr>h_lines := n\<rparr>\<rparr>) }"

definition no_service_terminal_length :: "'w sys \<Rightarrow> (int \<times> 'w sys) option" where
  "no_service_terminal_length s = Some (CMD_SUCCESS, s\<lparr>s_host := (s_host s)\<lparr>h_lines := -1\<rparr>\<rparr>)"

text \<open>The arguments from an index on, joined with spaces; \<open>NULL\<close> if there are none.\<close>

definition argv_concat :: "cmd_token list \<Rightarrow> nat \<Rightarrow> string ptr option" where
  "argv_concat argv shift =
     (if length argv \<le> shift then Some None
      else do { args \<leftarrow> collect (\<lambda>t. map_option (\<lambda>a. [a]) (ct_arg t)) (drop shift argv);
                frrstr_join args (Some [CHR 0x20]) })"

definition do_echo :: "cmd_token list \<Rightarrow> 'w sys \<Rightarrow> (int \<times> 'w sys) option" where
  "do_echo argv s =
     do { message \<leftarrow> argv_concat argv 1;
          s1 \<leftarrow> say ((case message of Some msg \<Rightarrow> msg | None \<Rightarrow> []) @ [CHR 0x0A]) s;
          Some (CMD_SUCCESS, s1) }"

fun argv_find_from :: "cmd_token list \<Rightarrow> string \<Rightarrow> nat \<Rightarrow> nat option" where
  "argv_find_from [] word i = None"
| "argv_find_from (t # argv) word i = (if ct_text t = Some word then Some i else argv_find_from argv word (Suc i))"

definition argv_find :: "cmd_token list \<Rightarrow> string \<Rightarrow> nat \<Rightarrow> nat option" where
  "argv_find argv word i = argv_find_from (drop i argv) word i"

end
