(* ===== verification/Vty_Read.thy ===== *)
theory Vty_Read
  imports Vty_Complete Host_Commands
begin

text \<open>
  The events of a terminal session (\<open>vty.c\<close>): reading bytes, with the telnet protocol and the keys of the line
  editor, executing a line, flushing the output, and closing. Waiting for events is the event loop's part; here
  a pending event is a flag of the session.
\<close>

section \<open>Executing a line\<close>

text \<open>What a session gets from outside.\<close>

record ('e, 'w) vty_env =
  r_exec :: "('e, 'w) cmd_env"
  r_varhandlers :: "cmd_variable_handler list"
  r_crypt :: "string \<Rightarrow> string \<Rightarrow> string"

abbreviation r_cmds :: "('e, 'w) vty_env \<Rightarrow> 'e cmds" where
  "r_cmds R \<equiv> e_cmds (r_exec R)"

text \<open>The log of commands has no effect on the state and is left out.\<close>

definition vty_command :: "('e, 'w) vty_env \<Rightarrow> 'w sys \<Rightarrow> (int \<times> 'w sys) option" where
  "vty_command R s =
     do { (ret, s1) \<leftarrow> cmd_execute (r_exec R) (vty_line (s_vty s)) False s;
          s2 \<leftarrow> (if ret = CMD_WARNING then (if v_type (s_vty s1) = VTY_FILE then say (''Warning...'' @ nl) s1 else Some s1)
                else if ret = CMD_ERR_AMBIGUOUS then say (''% Ambiguous command.'' @ nl) s1
                else if ret = CMD_ERR_NO_MATCH then say (''% Unknown command: '' @ vty_line (s_vty s1) @ nl) s1
                else if ret = CMD_ERR_INCOMPLETE then say (''% Command incomplete.'' @ nl) s1
                else Some s1);
          Some (ret, s2) }"

definition vty_execute :: "('e, 'w) vty_env \<Rightarrow> 'w sys \<Rightarrow> (int \<times> 'w sys) option" where
  "vty_execute R s =
     do { (ret, s1) \<leftarrow>
            (if s_node s = AUTH_NODE \<or> s_node s = AUTH_ENABLE_NODE
             then do { s1 \<leftarrow> with_vty (vty_auth (r_crypt R) (s_host s) (vty_line (s_vty s))) s; Some (CMD_SUCCESS, s1) }
             else do { (ret, s1) \<leftarrow> vty_command R s;
                       s2 \<leftarrow> (if v_type (s_vty s1) = VTY_TERM then with_vty vty_hist_add s1 else Some s1);
                       Some (ret, s2) });
          let s2 = s1\<lparr>s_vty := vty_clear_buf ((s_vty s1)\<lparr>v_cp := 0, v_length := 0\<rparr>)\<rparr>;
          s3 \<leftarrow> (if v_status (s_vty s2) \<noteq> VTY_CLOSE then with_vty (vty_prompt (r_cmds R) (s_host s2)) s2 else Some s2);
          Some (ret, s3) }"

section \<open>Telnet\<close>

abbreviation IAC :: u8 where "IAC \<equiv> 255"
abbreviation SB :: u8 where "SB \<equiv> 250"
abbreviation SE :: u8 where "SE \<equiv> 240"
abbreviation TELOPT_NAWS :: u8 where "TELOPT_NAWS \<equiv> 31"

text \<open>A 16-bit number in network order.\<close>

definition be16 :: "u8 \<Rightarrow> u8 \<Rightarrow> int" where
  "be16 hi lo = uint (or (push_bit 8 (ucast hi :: 32 word)) (ucast lo))"

text \<open>The number of bytes to skip, and the session.\<close>

definition vty_telnet_option :: "u8 \<Rightarrow> vty \<Rightarrow> nat \<times> vty" where
  "vty_telnet_option b v =
     (if b = SB then (0, v\<lparr>v_sb_len := 0, v_iac_sb_in_progress := True\<rparr>)
      else if b = SE
      then (if \<not> v_iac_sb_in_progress v then (0, v)
            else if v_sb_len v = 0 \<or> v_sb_buf v ! 0 = 0 then (0, v\<lparr>v_iac_sb_in_progress := False\<rparr>)
            else if v_sb_buf v ! 0 = TELOPT_NAWS \<and> v_sb_len v = TELNET_NAWS_SB_LEN
            then (0, v\<lparr>v_width := be16 (v_sb_buf v ! 1) (v_sb_buf v ! 2),
                       v_height := be16 (v_sb_buf v ! 3) (v_sb_buf v ! 4), v_iac_sb_in_progress := False\<rparr>)
            else (0, v\<lparr>v_iac_sb_in_progress := False\<rparr>))
      else (1, v))"

definition sb_store :: "u8 \<Rightarrow> vty \<Rightarrow> vty" where
  "sb_store b v =
     v\<lparr>v_sb_buf := (if v_sb_len v < TELNET_NAWS_SB_LEN then (v_sb_buf v)[v_sb_len v := b] else v_sb_buf v),
       v_sb_len := v_sb_len v + 1\<rparr>"

section \<open>Keys\<close>

definition vty_buffer_reset :: "('e, 'w) vty_env \<Rightarrow> host \<Rightarrow> vty \<Rightarrow> vty option" where
  "vty_buffer_reset R h v =
     redraw_prompt (r_exec R) h (v\<lparr>v_obuf := buffer_reset (v_obuf v), v_lbuf := buffer_reset (v_lbuf v)\<rparr>)"

text \<open>The byte after an escape sequence's bracket.\<close>

definition vty_escape_map :: "u8 \<Rightarrow> vty \<Rightarrow> vty option" where
  "vty_escape_map b v =
     do { v1 \<leftarrow> (if b = 65 then vty_previous_line v
                 else if b = 66 then vty_next_line v
                 else if b = 67 then vty_forward_char v
                 else if b = 68 then vty_backward_char v
                 else Some v);
          Some (v1\<lparr>v_escape := VTY_UNESCAPED\<rparr>) }"

text \<open>The byte after an escape character alone.\<close>

definition vty_pre_escape :: "('e, 'w) vty_env \<Rightarrow> host \<Rightarrow> u8 \<Rightarrow> vty \<Rightarrow> vty option" where
  "vty_pre_escape R h b v =
     (if b = 91 then Some (v\<lparr>v_escape := VTY_ESCAPE\<rparr>)
      else do { v1 \<leftarrow> (if b = 98 then vty_backward_word v
                      else if b = 102 then vty_forward_word v
                      else if b = 100 then vty_forward_kill_word (r_cmds R) h v
                      else if b = 8 \<or> b = 127 then vty_backward_kill_word (r_cmds R) h v
                      else Some v);
                Some (v1\<lparr>v_escape := VTY_UNESCAPED\<rparr>) })"

text \<open>The keys that only touch the session.\<close>

definition vty_edit_key :: "('e, 'w) vty_env \<Rightarrow> host \<Rightarrow> u8 \<Rightarrow> vty \<Rightarrow> vty option" where
  "vty_edit_key R h b v =
     (if b = 1 then vty_beginning_of_line v
      else if b = 2 then vty_backward_char v
      else if b = 3 then vty_stop_input (r_cmds R) h v
      else if b = 4 then vty_delete_char (r_cmds R) h v
      else if b = 5 then vty_end_of_line v
      else if b = 6 then vty_forward_char v
      else if b = 8 \<or> b = 127 then vty_delete_backward_char (r_cmds R) h v
      else if b = 11 then vty_kill_line v
      else if b = 14 then vty_next_line v
      else if b = 16 then vty_previous_line v
      else if b = 20 then vty_transpose_chars v
      else if b = 21 then vty_kill_line_from_beginning v
      else if b = 23 then vty_backward_kill_word (r_cmds R) h v
      else if b = 26 then vty_end_config (r_cmds R) h v
      else if b = 9 then vty_complete_command (r_exec R) (r_varhandlers R) h v
      else if b = 63
      then (if v_node v = AUTH_NODE \<or> v_node v = AUTH_ENABLE_NODE then vty_self_insert (char_of (unat b)) v
            else vty_describe_command (r_exec R) (r_varhandlers R) h v)
      else if b > 31 \<and> b < 127 then vty_self_insert (char_of (unat b)) v
      else Some v)"

definition vty_key :: "('e, 'w) vty_env \<Rightarrow> u8 \<Rightarrow> 'w sys \<Rightarrow> 'w sys option" where
  "vty_key R b s =
     (if b = 10 \<or> b = 13 then do { s1 \<leftarrow> say nl s; (_, s2) \<leftarrow> vty_execute R s1; Some s2 }
      else with_vty (vty_edit_key R (s_host s) b) s)"

text \<open>One round of the loop of \<open>vty_read\<close>, with the bytes that follow; the number of those to skip.\<close>

definition vty_byte :: "('e, 'w) vty_env \<Rightarrow> u8 \<Rightarrow> u8 list \<Rightarrow> 'w sys \<Rightarrow> (nat \<times> 'w sys) option" where
  "vty_byte R b rest s0 =
     (if b = IAC \<and> \<not> v_iac (s_vty s0) then Some (0, s0\<lparr>s_vty := (s_vty s0)\<lparr>v_iac := True\<rparr>\<rparr>)
      else let v = (if b = IAC then (s_vty s0)\<lparr>v_iac := False\<rparr> else s_vty s0);
               s = s0\<lparr>s_vty := v\<rparr>;
               stay = map_option (Pair 0)
           in if v_iac_sb_in_progress v \<and> \<not> v_iac v then Some (0, s\<lparr>s_vty := sb_store b v\<rparr>)
              else if v_iac v
              then (case vty_telnet_option b v of (n, v1) \<Rightarrow> Some (n, s\<lparr>s_vty := v1\<lparr>v_iac := False\<rparr>\<rparr>))
              else if v_status v = VTY_MORE
              then (if b = 3 \<or> b = 113 \<or> b = 81 then stay (with_vty (vty_buffer_reset R (s_host s)) s) else Some (0, s))
              else if v_escape v = VTY_ESCAPE then stay (with_vty (vty_escape_map b) s)
              else if v_escape v = VTY_PRE_ESCAPE then stay (with_vty (vty_pre_escape R (s_host s) b) s)
              else if b = 27
              then (if rest \<noteq> [] \<and> hd rest = 91 then Some (1, s\<lparr>s_vty := v\<lparr>v_escape := VTY_ESCAPE\<rparr>\<rparr>)
                    else Some (0, s\<lparr>s_vty := v\<lparr>v_escape := VTY_PRE_ESCAPE\<rparr>\<rparr>))
              else stay (vty_key R b s))"

function vty_bytes :: "('e, 'w) vty_env \<Rightarrow> u8 list \<Rightarrow> 'w sys \<Rightarrow> 'w sys option" where
  "vty_bytes R [] s = Some s"
| "vty_bytes R (b # bs) s =
     (case vty_byte R b bs s of None \<Rightarrow> None | Some (n, s1) \<Rightarrow> vty_bytes R (drop n bs) s1)"
  by pat_completeness auto
termination
  by (relation "measure (\<lambda>(R, bs, s). length bs)") auto

section \<open>Events\<close>

definition vty_event_read :: "vty \<Rightarrow> vty" where
  "vty_event_read v = v\<lparr>v_t_read := True, v_t_timeout := (v_t_timeout v \<or> v_v_timeout v \<noteq> 0)\<rparr>"

definition vty_event_write :: "vty \<Rightarrow> vty" where
  "vty_event_write v = v\<lparr>v_t_write := True\<rparr>"

definition vty_event_timeout_reset :: "vty \<Rightarrow> vty" where
  "vty_event_timeout_reset v = v\<lparr>v_t_timeout := (v_v_timeout v \<noteq> 0)\<rparr>"

text \<open>
  A session is open, or closed with the bytes that were still sent. \<open>vty_close\<close> flushes the output with the given
  answers of \<open>writev\<close>, and frees the session.
\<close>

datatype 'w outcome = Open "'w sys" | Closed host 'w "u8 list"

definition vty_close :: "(write_result \<times> bool) list \<Rightarrow> 'w sys \<Rightarrow> 'w outcome option" where
  "vty_close rs s =
     do { (_, _, out) \<leftarrow> buffer_flush_all rs (v_wfd (s_vty s)) (v_obuf (s_vty s));
          Some (Closed (s_host s) (s_rest s) out) }"

text \<open>What \<open>read\<close> answers: an error, which may be temporary, or bytes; no bytes are the end of the connection.\<close>

datatype read_result = Read_error bool | Read_bytes "u8 list"

definition vty_read :: "('e, 'w) vty_env \<Rightarrow> (write_result \<times> bool) list \<Rightarrow> read_result \<Rightarrow> 'w sys \<Rightarrow> 'w outcome option" where
  "vty_read R rs input s0 =
     (let s = s0\<lparr>s_vty := (s_vty s0)\<lparr>v_t_read := False\<rparr>\<rparr>
      in case input of
           Read_error True \<Rightarrow> Some (Open (s\<lparr>s_vty := vty_event_read (s_vty s)\<rparr>))
         | Read_error False \<Rightarrow>
             vty_close rs (s\<lparr>s_vty := (s_vty s)\<lparr>v_monitor := 0, v_obuf := buffer_reset (v_obuf (s_vty s)),
                                              v_lbuf := buffer_reset (v_lbuf (s_vty s)), v_status := VTY_CLOSE\<rparr>\<rparr>)
         | Read_bytes [] \<Rightarrow> vty_close rs (s\<lparr>s_vty := (s_vty s)\<lparr>v_status := VTY_CLOSE\<rparr>\<rparr>)
         | Read_bytes bs \<Rightarrow>
             do { s1 \<leftarrow> vty_bytes R bs s;
                  if v_status (s_vty s1) = VTY_CLOSE then vty_close rs s1
                  else Some (Open (s1\<lparr>s_vty := vty_event_read (vty_event_write (s_vty s1))\<rparr>)) })"

text \<open>\<open>res\<close> is the answer of \<open>writev\<close>; the bytes sent are returned with the outcome.\<close>

definition vty_flush ::
  "(write_result \<times> bool) list \<Rightarrow> write_result \<Rightarrow> int \<Rightarrow> 'w sys \<Rightarrow> ('w outcome \<times> u8 list) option" where
  "vty_flush rs res vty_sock s =
     (let v0 = (s_vty s)\<lparr>v_t_write := False\<rparr>;
          v = (if v_lines v0 = 0 then v0\<lparr>v_t_read := False\<rparr> else v0);
          erase = (v_status v = VTY_MORE \<or> v_status v = VTY_MORELINE);
          fails = (case res of Write_error _ \<Rightarrow> True | Written _ \<Rightarrow> False);
          (flushrc, ob, out) =
            (if v_lines v = 0 \<or> v_width v = 0 \<or> v_height v = 0 then buffer_flush_available res vty_sock (v_obuf v)
             else buffer_flush_window fails (v_width v)
               (if v_status v = VTY_MORELINE then 1 else if v_lines v \<ge> 0 then v_lines v else v_height v)
               erase False (v_obuf v));
          v1 = v\<lparr>v_obuf := ob\<rparr>
      in case flushrc of
           BUFFER_ERROR \<Rightarrow>
             map_option (\<lambda>r. (r, out))
               (vty_close rs (s\<lparr>s_vty := v1\<lparr>v_monitor := 0, v_lbuf := buffer_reset (v_lbuf v1), v_obuf := buffer_reset (v_obuf v1)\<rparr>\<rparr>))
         | BUFFER_EMPTY \<Rightarrow>
             if v_status v1 = VTY_CLOSE then map_option (\<lambda>r. (r, out)) (vty_close rs (s\<lparr>s_vty := v1\<rparr>))
             else let v2 = v1\<lparr>v_status := VTY_NORMAL\<rparr>
                  in Some (Open (s\<lparr>s_vty := (if v_lines v2 = 0 then vty_event_read v2 else v2)\<rparr>), out)
         | BUFFER_PENDING \<Rightarrow>
             let v2 = v1\<lparr>v_status := VTY_MORE\<rparr>
             in Some (Open (s\<lparr>s_vty := (if v_lines v2 = 0 then vty_event_write v2 else v2)\<rparr>), out))"

definition vty_timeout :: "(write_result \<times> bool) list \<Rightarrow> 'w sys \<Rightarrow> 'w outcome option" where
  "vty_timeout rs s =
     do { v1 \<leftarrow> vty_out (nl @ ''Vty connection is timed out.'' @ nl)
            ((s_vty s)\<lparr>v_t_timeout := False, v_v_timeout := 0, v_lbuf := buffer_reset (v_lbuf (s_vty s)),
                       v_obuf := buffer_reset (v_obuf (s_vty s))\<rparr>);
          vty_close rs (s\<lparr>s_vty := v1\<lparr>v_status := VTY_CLOSE\<rparr>\<rparr>) }"

section \<open>A new session\<close>

text \<open>Without a message of the day from a file. \<open>no_password_check\<close> is the global switch of the same name.\<close>

definition vty_hello :: "host \<Rightarrow> vty \<Rightarrow> vty option" where
  "vty_hello h v = (case h_motd h of Some m \<Rightarrow> vty_out m v | None \<Rightarrow> Some v)"

definition vty_create ::
  "'e cmds \<Rightarrow> nat \<Rightarrow> bool \<Rightarrow> nat \<Rightarrow> (write_result \<times> bool) list \<Rightarrow> int \<Rightarrow> host \<Rightarrow> 'w \<Rightarrow> 'w outcome option" where
  "vty_create c pgsz no_password_check vty_timeout_val rs vty_sock h w =
     (let v0 = (vty_new_init pgsz vty_sock)\<lparr>v_v_timeout := vty_timeout_val\<rparr>;
          v1 = (if no_password_check then v0\<lparr>v_node := (if h_advanced h then ENABLE_NODE else VIEW_NODE)\<rparr> else v0);
          v2 = (if h_lines h \<ge> 0 then v1\<lparr>v_lines := h_lines h\<rparr> else v1)
      in if \<not> no_password_check \<and> h_password h = None \<and> h_password_encrypt h = None
         then do { v3 \<leftarrow> vty_out (''Vty password is not set.'' @ nl) v2;
                   vty_close rs \<lparr>s_vty = v3\<lparr>v_status := VTY_CLOSE\<rparr>, s_host = h, s_rest = w\<rparr> }
         else do { v3 \<leftarrow> vty_hello h v2;
                   v4 \<leftarrow> (if no_password_check then Some v3 else vty_out (nl @ ''User Access Verification'' @ nl @ nl) v3);
                   v5 \<leftarrow> vty_will_echo v4;
                   v6 \<leftarrow> vty_will_suppress_go_ahead v5;
                   v7 \<leftarrow> vty_dont_linemode v6;
                   v8 \<leftarrow> vty_do_window_size v7;
                   v9 \<leftarrow> vty_prompt c h v8;
                   Some (Open \<lparr>s_vty = vty_event_read (vty_event_write v9), s_host = h, s_rest = w\<rparr>) })"

section \<open>Timeouts and history\<close>

text \<open>
  \<open>exec_timeout\<close> with its two numbers as texts (\<open>long\<close> has 64 bits); the first result is the new value of the
  global \<open>vty_timeout_val\<close>.
\<close>

definition exec_timeout :: "string ptr \<Rightarrow> string ptr \<Rightarrow> 'w sys \<Rightarrow> nat \<times> int \<times> 'w sys" where
  "exec_timeout min_str sec_str s =
     (let t = (case min_str of Some m \<Rightarrow> fst (strtoll m) * 60 | None \<Rightarrow> 0)
              + (case sec_str of Some n \<Rightarrow> fst (strtoll n) | None \<Rightarrow> 0);
          timeout = nat (t mod 2 ^ 64)
      in (timeout, CMD_SUCCESS, s\<lparr>s_vty := vty_event_timeout_reset ((s_vty s)\<lparr>v_v_timeout := timeout\<rparr>)\<rparr>))"

text \<open>
  The loop of \<open>show_history\<close> visits each index once and one more to wrap around, so that \<open>VTY_MAXHIST + 2\<close> rounds are
  enough.
\<close>

fun show_history_loop :: "nat \<Rightarrow> nat \<Rightarrow> vty \<Rightarrow> vty option" where
  "show_history_loop 0 i v = None"
| "show_history_loop (Suc fuel) i v =
     (if i = v_hindex v then Some v
      else if i = VTY_MAXHIST then show_history_loop fuel 0 v
      else do { p \<leftarrow> rd (v_hist v) i;
                v1 \<leftarrow> (case p of Some l \<Rightarrow> vty_out (''  '' @ l @ nl) v | None \<Rightarrow> Some v);
                show_history_loop fuel (i + 1) v1 })"

definition show_history :: "'w sys \<Rightarrow> (int \<times> 'w sys) option" where
  "show_history s =
     do { s1 \<leftarrow> with_vty (\<lambda>v. show_history_loop (VTY_MAXHIST + 2) (v_hindex v + 1) v) s; Some (CMD_SUCCESS, s1) }"

end
