(* ===== verification/Vty_Edit_Laws.thy ===== *)
theory Vty_Edit_Laws
  imports Vty_Edit
begin

text \<open>
  The line editor implements an editor on a pair of strings, the text before and after the cursor, and what it
  sends keeps a terminal showing that text. An operation is related to its abstract counterpart by
  \<open>edits\<close>, which composes along sequences and loops.
\<close>

section \<open>The terminal\<close>

abbreviation BS :: char where "BS \<equiv> CHR 0x08"
abbreviation SP :: char where "SP \<equiv> CHR 0x20"

text \<open>A row of cells and a column: a backspace moves left, any other character is written over the cell.\<close>

definition put_cell :: "char \<Rightarrow> string \<times> nat \<Rightarrow> string \<times> nat" where
  "put_cell ch scr =
     (case scr of (row, col) \<Rightarrow> if ch = BS then (row, col - 1) else (take col row @ [ch] @ drop (Suc col) row, Suc col))"

definition display :: "string \<Rightarrow> string \<times> nat \<Rightarrow> string \<times> nat" where
  "display s scr = fold put_cell s scr"

lemma display_Nil [simp]: "display [] scr = scr"
  by (simp add: display_def)

lemma display_append: "display (s @ t) scr = display t (display s scr)"
  by (simp add: display_def)

lemma display_text:
  "BS \<notin> set s \<Longrightarrow> display s (l @ r, length l) = (l @ s @ drop (length s) r, length l + length s)"
proof (induction s arbitrary: l r)
  case (Cons ch s)
  then have "display (ch # s) (l @ r, length l) = display s ((l @ [ch]) @ drop 1 r, length (l @ [ch]))"
    by (auto simp: display_def put_cell_def)
  also have "\<dots> = ((l @ [ch]) @ s @ drop (length s) (drop 1 r), length (l @ [ch]) + length s)"
    by (rule Cons.IH) (use Cons.prems in simp)
  finally show ?case by simp
qed simp

lemma display_back: "display (replicate n BS) (row, col) = (row, col - n)"
  by (induction n arbitrary: col) (simp_all add: display_def put_cell_def)

text \<open>The text before and after the cursor.\<close>

type_synonym zipper = "string \<times> string"

text \<open>After a prompt the row shows the text, then only blanks, and the cursor stands between the two parts.\<close>

definition shows_line :: "string \<Rightarrow> zipper \<Rightarrow> string \<times> nat \<Rightarrow> bool" where
  "shows_line p z scr \<longleftrightarrow>
     (\<exists>k. scr = (p @ fst z @ snd z @ replicate k SP, length p + length (fst z)))"

section \<open>Simulation\<close>

definition printable :: "char \<Rightarrow> bool" where
  "printable ch \<longleftrightarrow> 32 \<le> char_code ch \<and> char_code ch < 127"

lemma printable_not: "printable ch \<Longrightarrow> ch \<noteq> BS \<and> ch \<noteq> NUL"
  by (auto simp: printable_def char_code_def NUL_def)

lemma printable_SP [simp]: "printable SP"
  by (simp add: printable_def char_code_def)

definition holds :: "vty \<Rightarrow> zipper \<Rightarrow> bool" where
  "holds v z \<longleftrightarrow>
     (\<exists>r. v_buf v = fst z @ snd z @ NUL # r) \<and> length (v_buf v) = VTY_BUFSIZ
     \<and> v_cp v = length (fst z) \<and> v_length v = length (fst z) + length (snd z)
     \<and> list_all printable (fst z @ snd z) \<and> buf_ok (v_obuf v)"

lemma holdsE:
  assumes "holds v (b, a)"
  obtains r where "v_buf v = b @ a @ NUL # r" "length b + length a + 1 + length r = VTY_BUFSIZ" "v_cp v = length b"
    "v_length v = length b + length a" "list_all printable b" "list_all printable a" "buf_ok (v_obuf v)"
  using assms that by (auto simp: holds_def)

lemma holdsI:
  "v_buf v = b @ a @ NUL # r \<Longrightarrow> length b + length a + 1 + length r = VTY_BUFSIZ \<Longrightarrow> v_cp v = length b \<Longrightarrow>
    v_length v = length b + length a \<Longrightarrow> list_all printable b \<Longrightarrow> list_all printable a \<Longrightarrow> buf_ok (v_obuf v) \<Longrightarrow>
    holds v (b, a)"
  by (auto simp: holds_def)

lemma printable_no_BS: "list_all printable s \<Longrightarrow> BS \<notin> set s"
  using printable_not by (auto simp: list_all_iff)

lemma printable_no_NUL: "list_all printable s \<Longrightarrow> NUL \<notin> set s"
  using printable_not by (auto simp: list_all_iff)

definition silent :: "vty \<Rightarrow> bool" where
  "silent v \<longleftrightarrow> v_node v = AUTH_NODE \<or> v_node v = AUTH_ENABLE_NODE"

text \<open>Only the line and the output buffer change.\<close>

definition only_line :: "vty \<Rightarrow> vty \<Rightarrow> bool" where
  "only_line v v' \<longleftrightarrow> (\<exists>b c l ob. v' = v\<lparr>v_buf := b, v_cp := c, v_length := l, v_obuf := ob\<rparr>)"

lemma only_lineI:
  "v' = v\<lparr>v_buf := v_buf v', v_cp := v_cp v', v_length := v_length v', v_obuf := v_obuf v'\<rparr> \<Longrightarrow> only_line v v'"
  unfolding only_line_def by blast

lemma only_line_refl [simp]: "only_line v v"
  by (rule only_lineI) simp

lemma only_line_trans: "only_line u v \<Longrightarrow> only_line v w \<Longrightarrow> only_line u w"
  unfolding only_line_def by (elim exE) (simp, blast)

lemma only_line_silent: "only_line v v' \<Longrightarrow> silent v' = silent v"
  by (auto simp: only_line_def silent_def)

text \<open>\<open>sends v v' out\<close>: the output grows by \<open>out\<close>, unless a password is typed.\<close>

definition sends :: "vty \<Rightarrow> vty \<Rightarrow> string \<Rightarrow> bool" where
  "sends v v' out \<longleftrightarrow> contents (v_obuf v') = contents (v_obuf v) @ (if silent v then [] else bytes out)"

lemma sends_Nil: "v_obuf v' = v_obuf v \<Longrightarrow> sends v v' []"
  by (simp add: sends_def)

definition edits :: "(zipper \<Rightarrow> bool) \<Rightarrow> (vty \<Rightarrow> vty option) \<Rightarrow> (zipper \<Rightarrow> zipper) \<Rightarrow> bool" where
  "edits P op f \<longleftrightarrow>
     (\<forall>v z. holds v z \<longrightarrow> P z \<longrightarrow>
        (\<exists>v' out. op v = Some v' \<and> only_line v v' \<and> holds v' (f z) \<and> sends v v' out
           \<and> (\<forall>p scr. shows_line p z scr \<longrightarrow> shows_line p (f z) (display out scr))))"

lemma editsI:
  assumes "\<And>v b a. holds v (b, a) \<Longrightarrow> P (b, a) \<Longrightarrow>
    \<exists>v' out. op v = Some v' \<and> only_line v v' \<and> holds v' (f (b, a)) \<and> sends v v' out
      \<and> (\<forall>p scr. shows_line p (b, a) scr \<longrightarrow> shows_line p (f (b, a)) (display out scr))"
  shows "edits P op f"
  unfolding edits_def using assms by auto

lemma editsD:
  assumes "edits P op f" "holds v z" "P z"
  obtains v' out where "op v = Some v'" "only_line v v'" "holds v' (f z)" "sends v v' out"
    "\<And>p scr. shows_line p z scr \<Longrightarrow> shows_line p (f z) (display out scr)"
  using assms unfolding edits_def by blast

lemma edits_skip: "edits P Some (\<lambda>z. z)"
  unfolding edits_def
proof (intro allI impI)
  fix v z assume "holds v z"
  then show "\<exists>v' out. Some v = Some v' \<and> only_line v v' \<and> holds v' z \<and> sends v v' out
      \<and> (\<forall>p scr. shows_line p z scr \<longrightarrow> shows_line p z (display out scr))"
    by (intro exI [of _ v] exI [of _ "[]"]) (simp add: sends_def)
qed

lemma edits_seq:
  assumes "edits P op f" "edits Q op' g" "\<And>z. P z \<Longrightarrow> Q (f z)"
  shows "edits P (\<lambda>v. do { v1 \<leftarrow> op v; op' v1 }) (\<lambda>z. g (f z))"
  unfolding edits_def
proof (intro allI impI)
  fix v z assume z: "holds v z" "P z"
  obtain v1 o1 where 1: "op v = Some v1" "only_line v v1" "holds v1 (f z)" "sends v v1 o1"
    "\<And>p scr. shows_line p z scr \<Longrightarrow> shows_line p (f z) (display o1 scr)"
    using editsD [OF assms(1) z] by metis
  obtain v2 o2 where 2: "op' v1 = Some v2" "only_line v1 v2" "holds v2 (g (f z))" "sends v1 v2 o2"
    "\<And>p scr. shows_line p (f z) scr \<Longrightarrow> shows_line p (g (f z)) (display o2 scr)"
    using editsD [OF assms(2) 1(3) assms(3) [OF z(2)]] by metis
  have "sends v v2 (o1 @ o2)"
    using 1(4) 2(4) only_line_silent [OF 1(2)] by (simp add: sends_def)
  moreover have "shows_line p (g (f z)) (display (o1 @ o2) scr)" if "shows_line p z scr" for p scr
    using 2(5) [OF 1(5) [OF that]] by (simp add: display_append)
  ultimately show "\<exists>v' out. (do { v1 \<leftarrow> op v; op' v1 }) = Some v' \<and> only_line v v' \<and> holds v' (g (f z)) \<and> sends v v' out
      \<and> (\<forall>p scr. shows_line p z scr \<longrightarrow> shows_line p (g (f z)) (display out scr))"
    using 1(1) 2(1,3) only_line_trans [OF 1(2) 2(2)] by (intro exI [of _ v2] exI [of _ "o1 @ o2"]) simp
qed

lemma edits_cong: "edits P op f \<Longrightarrow> (\<And>z. Q z \<Longrightarrow> P z) \<Longrightarrow> (\<And>z. Q z \<Longrightarrow> g z = f z) \<Longrightarrow> edits Q op g"
  unfolding edits_def by metis

text \<open>
  A loop: the abstract operation is unfolded round by round, and the length of the text bounds the number of
  rounds.
\<close>

definition tests :: "(vty \<Rightarrow> bool option) \<Rightarrow> (zipper \<Rightarrow> bool) \<Rightarrow> bool" where
  "tests cond t \<longleftrightarrow> (\<forall>v z. holds v z \<longrightarrow> cond v = Some (t z))"

lemma edits_while_fuel:
  assumes "tests cond t" "edits t body f"
    "\<And>z. t z \<Longrightarrow> m (f z) < (m z :: nat)" "\<And>z. \<not> t z \<Longrightarrow> w z = z" "\<And>z. t z \<Longrightarrow> w z = w (f z)"
  shows "edits (\<lambda>z. m z \<le> n) (while_opt n cond body) w"
proof (induction n)
  case 0
  have "while_opt 0 cond body v = Some v \<and> w z = z" if "holds v z" "m z \<le> 0" for v z
    using that assms(1,3,4) unfolding tests_def by fastforce
  then show ?case
    using edits_skip [of "\<lambda>_. True"] unfolding edits_def by simp
next
  case (Suc n)
  have seq: "edits (\<lambda>z. t z \<and> m z \<le> Suc n) (\<lambda>v. do { v1 \<leftarrow> body v; while_opt n cond body v1 }) (\<lambda>z. w (f z))"
    by (rule edits_seq [OF edits_cong [OF assms(2)] Suc.IH]) (use assms(3) in \<open>fastforce+\<close>)
  show ?case unfolding edits_def
  proof (intro allI impI)
    fix v z assume z: "holds v z" "m z \<le> Suc n"
    have c: "cond v = Some (t z)" using assms(1) z(1) unfolding tests_def by blast
    show "\<exists>v' out. while_opt (Suc n) cond body v = Some v' \<and> only_line v v' \<and> holds v' (w z) \<and> sends v v' out
      \<and> (\<forall>p scr. shows_line p z scr \<longrightarrow> shows_line p (w z) (display out scr))"
    proof (cases "t z")
      case True
      have "while_opt (Suc n) cond body v = (do { v1 \<leftarrow> body v; while_opt n cond body v1 })"
        using c True by simp
      with seq z True assms(5) [OF True] show ?thesis
        unfolding edits_def by presburger
    next
      case False
      with c assms(4) z(1) show ?thesis
        by (intro exI [of _ v] exI [of _ "[]"]) (simp add: sends_def)
    qed
  qed
qed

lemma edits_while:
  assumes "tests cond t" "edits t body f"
    "\<And>z. t z \<Longrightarrow> m (f z) < (m z :: nat)" "\<And>z. \<not> t z \<Longrightarrow> w z = z" "\<And>z. t z \<Longrightarrow> w z = w (f z)"
    "\<And>z. m z \<le> length (fst z) + length (snd z)"
  shows "edits (\<lambda>z. True) (while_opt VTY_BUFSIZ cond body) w"
proof -
  have "edits (\<lambda>z. m z \<le> VTY_BUFSIZ) (while_opt VTY_BUFSIZ cond body) w"
    by (rule edits_while_fuel [where m = m and t = t and f = f]) (fact assms)+
  moreover have "m z \<le> VTY_BUFSIZ" if "holds v z" for v z
    using that assms(6) [of z] by (auto simp: holds_def)
  ultimately show ?thesis unfolding edits_def by blast
qed

section \<open>Writing\<close>

lemma vty_write_ok:
  assumes "buf_ok (v_obuf v)"
  obtains ob where "vty_write s v = Some (v\<lparr>v_obuf := ob\<rparr>)" "buf_ok ob" "sends v (v\<lparr>v_obuf := ob\<rparr>) s"
proof (cases "silent v")
  case True
  then show ?thesis
    using that [of "v_obuf v"] assms by (simp add: vty_write_def silent_def sends_def)
next
  case False
  then show ?thesis
    using that buffer_put_ok [OF assms, of "bytes s"] by (auto simp: vty_write_def silent_def sends_def)
qed

lemma repeat_write_ok:
  assumes "buf_ok (v_obuf v)"
  shows "\<exists>ob. repeat_opt n (vty_write [ch]) v = Some (v\<lparr>v_obuf := ob\<rparr>) \<and> buf_ok ob
    \<and> sends v (v\<lparr>v_obuf := ob\<rparr>) (replicate n ch)"
  using assms
proof (induction n arbitrary: v)
  case 0
  then show ?case by (intro exI [of _ "v_obuf v"]) (simp add: sends_def)
next
  case (Suc n)
  obtain o1 where 1: "vty_write [ch] v = Some (v\<lparr>v_obuf := o1\<rparr>)" "buf_ok o1" "sends v (v\<lparr>v_obuf := o1\<rparr>) [ch]"
    by (rule vty_write_ok [OF Suc.prems])
  have "\<exists>ob. repeat_opt n (vty_write [ch]) (v\<lparr>v_obuf := o1\<rparr>) = Some (v\<lparr>v_obuf := o1\<rparr>\<lparr>v_obuf := ob\<rparr>) \<and> buf_ok ob
    \<and> sends (v\<lparr>v_obuf := o1\<rparr>) (v\<lparr>v_obuf := o1\<rparr>\<lparr>v_obuf := ob\<rparr>) (replicate n ch)"
    by (rule Suc.IH) (use 1 in simp)
  then obtain o2 where 2: "repeat_opt n (vty_write [ch]) (v\<lparr>v_obuf := o1\<rparr>) = Some (v\<lparr>v_obuf := o2\<rparr>)" "buf_ok o2"
    "sends (v\<lparr>v_obuf := o1\<rparr>) (v\<lparr>v_obuf := o2\<rparr>) (replicate n ch)"
    by auto
  have "sends v (v\<lparr>v_obuf := o2\<rparr>) (replicate (Suc n) ch)"
    using 1(3) 2(3) by (simp add: sends_def silent_def bytes_def)
  with 1(1) 2(1,2) show ?case by auto
qed

lemma sends_trans:
  "sends u v o1 \<Longrightarrow> sends v w o2 \<Longrightarrow> v_node v = v_node u \<Longrightarrow> sends u w (o1 @ o2)"
  by (simp add: sends_def silent_def)

section \<open>Primitive operations\<close>

text \<open>One step of the editor: what has to be shown of the new state and of the characters sent.\<close>

lemma edit_step:
  assumes "op v = Some v'" "only_line v v'" "holds v' (b', a')" "sends v v' out"
    "\<And>p k. \<exists>k'. display out ((p @ b) @ a @ replicate k SP, length (p @ b))
         = (p @ b' @ a' @ replicate k' SP, length p + length b')"
  shows "\<exists>v' out. op v = Some v' \<and> only_line v v' \<and> holds v' (b', a') \<and> sends v v' out
      \<and> (\<forall>p scr. shows_line p (b, a) scr \<longrightarrow> shows_line p (b', a') (display out scr))"
proof (intro exI conjI allI impI)
  show "op v = Some v'" "only_line v v'" "holds v' (b', a')" "sends v v' out" by fact+
  fix p scr assume "shows_line p (b, a) scr"
  then obtain k where "scr = ((p @ b) @ a @ replicate k SP, length (p @ b))"
    by (auto simp: shows_line_def)
  then show "shows_line p (b', a') (display out scr)"
    using assms(5) [of p k] by (simp add: shows_line_def)
qed

lemma edit_stay:
  assumes "op v = Some v" "holds v z"
  shows "\<exists>v' out. op v = Some v' \<and> only_line v v' \<and> holds v' z \<and> sends v v' out
      \<and> (\<forall>p scr. shows_line p z scr \<longrightarrow> shows_line p z (display out scr))"
  using assms by (intro exI [of _ v] exI [of _ "[]"]) (simp add: sends_def)

fun z_forward :: "zipper \<Rightarrow> zipper" where
  "z_forward (b, []) = (b, [])"
| "z_forward (b, x # a) = (b @ [x], a)"

definition z_backward :: "zipper \<Rightarrow> zipper" where
  "z_backward z = (if fst z = [] then z else (butlast (fst z), last (fst z) # snd z))"

lemma z_backward_simps [simp]:
  "z_backward ([], a) = ([], a)" "z_backward (b @ [x], a) = (b, x # a)"
  by (simp_all add: z_backward_def)

lemma edits_forward: "edits (\<lambda>z. True) vty_forward_char z_forward"
proof (rule editsI)
  fix v b a assume h: "holds v (b, a)"
  then obtain r where r: "v_buf v = b @ a @ NUL # r" "length b + length a + 1 + length r = VTY_BUFSIZ" "v_cp v = length b"
    "v_length v = length b + length a" "list_all printable b" "list_all printable a" "buf_ok (v_obuf v)"
    by (rule holdsE)
  show "\<exists>v' out. vty_forward_char v = Some v' \<and> only_line v v' \<and> holds v' (z_forward (b, a)) \<and> sends v v' out
      \<and> (\<forall>p scr. shows_line p (b, a) scr \<longrightarrow> shows_line p (z_forward (b, a)) (display out scr))"
  proof (cases a)
    case Nil
    then show ?thesis
      using edit_stay [of vty_forward_char v "(b, a)"] h r by (simp add: vty_forward_char_def)
  next
    case (Cons x a')
    obtain ob where w: "vty_write [x] v = Some (v\<lparr>v_obuf := ob\<rparr>)" "buf_ok ob" "sends v (v\<lparr>v_obuf := ob\<rparr>) [x]"
      by (rule vty_write_ok [OF r(7)])
    let ?v = "v\<lparr>v_obuf := ob, v_cp := Suc (v_cp v)\<rparr>"
    have "\<exists>v' out. vty_forward_char v = Some v' \<and> only_line v v' \<and> holds v' (b @ [x], a') \<and> sends v v' out
      \<and> (\<forall>p scr. shows_line p (b, a) scr \<longrightarrow> shows_line p (b @ [x], a') (display out scr))"
    proof (rule edit_step [where v' = ?v and out = "[x]"])
      show "vty_forward_char v = Some ?v"
        using r w(1) Cons by (simp add: vty_forward_char_def rd_def nth_append)
      show "holds ?v (b @ [x], a')" by (rule holdsI [where r = r]) (use r w Cons in auto)
      show "sends v ?v [x]" using w(3) by (simp add: sends_def)
      have "BS \<notin> set [x]" using r(6) Cons printable_no_BS [of "[x]"] by simp
      then show "\<exists>k'. display [x] ((p @ b) @ a @ replicate k SP, length (p @ b))
         = (p @ (b @ [x]) @ a' @ replicate k' SP, length p + length (b @ [x]))" for p k
        unfolding display_text [OF \<open>BS \<notin> set [x]\<close>] by (auto simp: Cons)
    qed (rule only_lineI, simp)
    then show ?thesis using Cons by simp
  qed
qed

lemma edits_backward: "edits (\<lambda>z. True) vty_backward_char z_backward"
proof (rule editsI)
  fix v b a assume h: "holds v (b, a)"
  then obtain r where r: "v_buf v = b @ a @ NUL # r" "length b + length a + 1 + length r = VTY_BUFSIZ" "v_cp v = length b"
    "v_length v = length b + length a" "list_all printable b" "list_all printable a" "buf_ok (v_obuf v)"
    by (rule holdsE)
  show "\<exists>v' out. vty_backward_char v = Some v' \<and> only_line v v' \<and> holds v' (z_backward (b, a)) \<and> sends v v' out
      \<and> (\<forall>p scr. shows_line p (b, a) scr \<longrightarrow> shows_line p (z_backward (b, a)) (display out scr))"
  proof (cases b rule: rev_cases)
    case Nil
    then show ?thesis
      using edit_stay [of vty_backward_char v "(b, a)"] h r by (simp add: vty_backward_char_def)
  next
    case (snoc b' x)
    let ?u = "v\<lparr>v_cp := v_cp v - 1\<rparr>"
    obtain ob where w: "vty_write [BS] ?u = Some (?u\<lparr>v_obuf := ob\<rparr>)" "buf_ok ob" "sends ?u (?u\<lparr>v_obuf := ob\<rparr>) [BS]"
      by (rule vty_write_ok [of ?u]) (use r in auto)
    have "\<exists>v' out. vty_backward_char v = Some v' \<and> only_line v v' \<and> holds v' (b', x # a) \<and> sends v v' out
      \<and> (\<forall>p scr. shows_line p (b, a) scr \<longrightarrow> shows_line p (b', x # a) (display out scr))"
    proof (rule edit_step [where v' = "?u\<lparr>v_obuf := ob\<rparr>" and out = "[BS]"])
      show "vty_backward_char v = Some (?u\<lparr>v_obuf := ob\<rparr>)"
        using r w(1) snoc by (simp add: vty_backward_char_def)
      show "holds (?u\<lparr>v_obuf := ob\<rparr>) (b', x # a)" by (rule holdsI [where r = r]) (use r w snoc in auto)
      show "sends v (?u\<lparr>v_obuf := ob\<rparr>) [BS]" using w(3) by (simp add: sends_def silent_def)
      show "\<exists>k'. display [BS] ((p @ b) @ a @ replicate k SP, length (p @ b))
         = (p @ b' @ (x # a) @ replicate k' SP, length p + length b')" for p k
        by (simp add: display_def put_cell_def snoc)
    qed (rule only_lineI, simp)
    then show ?thesis using snoc by simp
  qed
qed

text \<open>Insertion.\<close>

definition z_insert :: "char \<Rightarrow> zipper \<Rightarrow> zipper" where
  "z_insert ch z = (if length (fst z) + length (snd z) + 1 \<ge> VTY_BUFSIZ then z else (fst z @ [ch], snd z))"

lemma shift_right:
  "\<exists>b1. c_memmove (b @ a @ x # r) (length b + 1) (length b) (length a) = Some b1
     \<and> wr b1 (length b) ch = Some (b @ ch # a @ r)"
proof -
  obtain y ys where y: "a @ x # r = y # ys" by (cases a) auto
  have "c_memmove (b @ a @ x # r) (length b + 1) (length b) (length a) = Some (b @ y # a @ r)"
  proof -
    have "take (length b + 1) (b @ a @ x # r) = b @ [y]" using y by simp
    moreover have "drop (length b + 1 + length a) (b @ a @ x # r) = r"
      "take (length a) (drop (length b) (b @ a @ x # r)) = a" by simp_all
    ultimately show ?thesis unfolding c_memmove_def by (simp add: c_assert_def del: take_append drop_append)
  qed
  then show ?thesis by (simp add: wr_def)
qed

lemma edits_insert:
  assumes "printable ch"
  shows "edits (\<lambda>z. True) (vty_self_insert ch) (z_insert ch)"
proof (rule editsI)
  fix v b a assume h: "holds v (b, a)"
  then obtain r where r: "v_buf v = b @ a @ NUL # r" "length b + length a + 1 + length r = VTY_BUFSIZ" "v_cp v = length b"
    "v_length v = length b + length a" "list_all printable b" "list_all printable a" "buf_ok (v_obuf v)"
    by (rule holdsE)
  show "\<exists>v' out. vty_self_insert ch v = Some v' \<and> only_line v v' \<and> holds v' (z_insert ch (b, a)) \<and> sends v v' out
      \<and> (\<forall>p scr. shows_line p (b, a) scr \<longrightarrow> shows_line p (z_insert ch (b, a)) (display out scr))"
  proof (cases r)
    case Nil
    with r have "vty_self_insert ch v = Some v" "z_insert ch (b, a) = (b, a)"
      by (simp_all add: vty_self_insert_def z_insert_def)
    then show ?thesis using edit_stay [of "vty_self_insert ch" v "(b, a)"] h by simp
  next
    case (Cons y r')
    let ?b = "b @ ch # a @ r"
    obtain b1 where b1: "c_memmove (v_buf v) (v_cp v + 1) (v_cp v) (length a) = Some b1" "wr b1 (v_cp v) ch = Some ?b"
      using shift_right [of b a NUL r ch] r by auto
    obtain o1 where w: "vty_write (ch # a) (v\<lparr>v_buf := ?b\<rparr>) = Some (v\<lparr>v_buf := ?b, v_obuf := o1\<rparr>)" "buf_ok o1"
      "sends (v\<lparr>v_buf := ?b\<rparr>) (v\<lparr>v_buf := ?b, v_obuf := o1\<rparr>) (ch # a)"
      using vty_write_ok [of "v\<lparr>v_buf := ?b\<rparr>" "ch # a"] r(7) by auto
    obtain o2 where w2: "repeat_opt (length a) (vty_write [BS]) (v\<lparr>v_buf := ?b, v_obuf := o1\<rparr>)
        = Some (v\<lparr>v_buf := ?b, v_obuf := o2\<rparr>)" "buf_ok o2"
      "sends (v\<lparr>v_buf := ?b, v_obuf := o1\<rparr>) (v\<lparr>v_buf := ?b, v_obuf := o2\<rparr>) (replicate (length a) BS)"
      using repeat_write_ok [of "v\<lparr>v_buf := ?b, v_obuf := o1\<rparr>" "length a" BS] w(2) by auto
    let ?v = "v\<lparr>v_buf := b @ ch # a @ NUL # r', v_obuf := o2, v_cp := length b + 1, v_length := length b + length a + 1\<rparr>"
    have s: "rd_range ?b (length b) (length a + 1) = Some (ch # a)"
      by (simp add: rd_range_def)
    have e: "wr ?b (length b + length a + 1) NUL = Some (b @ ch # a @ NUL # r')"
      by (simp add: wr_def Cons list_update_append)
    have "\<exists>v' out. vty_self_insert ch v = Some v' \<and> only_line v v' \<and> holds v' (b @ [ch], a) \<and> sends v v' out
      \<and> (\<forall>p scr. shows_line p (b, a) scr \<longrightarrow> shows_line p (b @ [ch], a) (display out scr))"
    proof (rule edit_step [where v' = ?v and out = "(ch # a) @ replicate (length a) BS"])
      show "vty_self_insert ch v = Some ?v"
        using b1 w(1) w2(1) s e r(2,3,4) Cons by (simp add: vty_self_insert_def)
      show "holds ?v (b @ [ch], a)" by (rule holdsI [where r = r']) (use r w2 Cons assms in auto)
      show "sends v ?v ((ch # a) @ replicate (length a) BS)"
        using w(3) w2(3) by (simp add: sends_def silent_def bytes_def)
      have "BS \<notin> set (ch # a)" using r(6) assms printable_no_BS [of "ch # a"] by simp
      then show "\<exists>k'. display ((ch # a) @ replicate (length a) BS) ((p @ b) @ a @ replicate k SP, length (p @ b))
         = (p @ (b @ [ch]) @ a @ replicate k' SP, length p + length (b @ [ch]))" for p k
        unfolding display_append display_text [OF \<open>BS \<notin> set (ch # a)\<close>] display_back by auto
    qed (rule only_lineI, simp)
    moreover have "z_insert ch (b, a) = (b @ [ch], a)" using r(2) Cons by (simp add: z_insert_def)
    ultimately show ?thesis by simp
  qed
qed

text \<open>Overwriting the character at the cursor.\<close>

definition z_overwrite :: "char \<Rightarrow> zipper \<Rightarrow> zipper" where
  "z_overwrite ch z = (case snd z of [] \<Rightarrow> z_insert ch z | x # a \<Rightarrow> (fst z @ [ch], a))"

lemma edits_overwrite:
  assumes "printable ch"
  shows "edits (\<lambda>z. True) (vty_self_insert_overwrite ch) (z_overwrite ch)"
proof (rule editsI)
  fix v b a assume h: "holds v (b, a)"
  then obtain r where r: "v_buf v = b @ a @ NUL # r" "length b + length a + 1 + length r = VTY_BUFSIZ" "v_cp v = length b"
    "v_length v = length b + length a" "list_all printable b" "list_all printable a" "buf_ok (v_obuf v)"
    by (rule holdsE)
  show "\<exists>v' out. vty_self_insert_overwrite ch v = Some v' \<and> only_line v v' \<and> holds v' (z_overwrite ch (b, a)) \<and> sends v v' out
      \<and> (\<forall>p scr. shows_line p (b, a) scr \<longrightarrow> shows_line p (z_overwrite ch (b, a)) (display out scr))"
  proof (cases a)
    case Nil
    with r have "vty_self_insert_overwrite ch v = vty_self_insert ch v" "z_overwrite ch (b, a) = z_insert ch (b, a)"
      by (simp_all add: vty_self_insert_overwrite_def z_overwrite_def)
    then show ?thesis using edits_insert [OF assms] h unfolding edits_def by simp
  next
    case (Cons x a')
    let ?u = "v\<lparr>v_buf := b @ ch # a' @ NUL # r, v_cp := Suc (length b)\<rparr>"
    obtain ob where w: "vty_write [ch] ?u = Some (?u\<lparr>v_obuf := ob\<rparr>)" "buf_ok ob" "sends ?u (?u\<lparr>v_obuf := ob\<rparr>) [ch]"
      using vty_write_ok [of ?u "[ch]"] r(7) by auto
    have "\<exists>v' out. vty_self_insert_overwrite ch v = Some v' \<and> only_line v v' \<and> holds v' (b @ [ch], a') \<and> sends v v' out
      \<and> (\<forall>p scr. shows_line p (b, a) scr \<longrightarrow> shows_line p (b @ [ch], a') (display out scr))"
    proof (rule edit_step [where v' = "?u\<lparr>v_obuf := ob\<rparr>" and out = "[ch]"])
      show "vty_self_insert_overwrite ch v = Some (?u\<lparr>v_obuf := ob\<rparr>)"
        using r w(1) Cons by (simp add: vty_self_insert_overwrite_def wr_def)
      show "holds (?u\<lparr>v_obuf := ob\<rparr>) (b @ [ch], a')" by (rule holdsI [where r = r]) (use r w Cons assms in auto)
      show "sends v (?u\<lparr>v_obuf := ob\<rparr>) [ch]" using w(3) by (simp add: sends_def silent_def)
      have "BS \<notin> set [ch]" using assms printable_no_BS [of "[ch]"] by simp
      then show "\<exists>k'. display [ch] ((p @ b) @ a @ replicate k SP, length (p @ b))
         = (p @ (b @ [ch]) @ a' @ replicate k' SP, length p + length (b @ [ch]))" for p k
        unfolding display_text [OF \<open>BS \<notin> set [ch]\<close>] by (auto simp: Cons)
    qed (rule only_lineI, simp)
    then show ?thesis using Cons by (simp add: z_overwrite_def)
  qed
qed

text \<open>Writing a word over the text.\<close>

definition z_word :: "string \<Rightarrow> zipper \<Rightarrow> zipper" where
  "z_word str z =
     (let n = min (length str) (VTY_BUFSIZ - length (fst z) - 1) in (fst z @ take n str, drop n (snd z)))"

lemma overlay:
  assumes "length b + length s < length b + length a + 1 + length r"
  shows "\<exists>b1 r'. c_memcpy (b @ a @ NUL # r) (length b) s = Some b1
     \<and> wr b1 (max (length b + length s) (length b + length a)) NUL = Some (b @ s @ drop (length s) a @ NUL # r')
     \<and> length s + length (drop (length s) a) + length r' = length a + length r"
proof (cases "length s \<le> length a")
  case True
  then have "c_memcpy (b @ a @ NUL # r) (length b) s = Some (b @ s @ drop (length s) a @ NUL # r)"
    by (simp add: c_memcpy_def c_assert_def)
  moreover have "wr (b @ s @ drop (length s) a @ NUL # r) (length b + length a) NUL
      = Some (b @ s @ drop (length s) a @ NUL # r)"
    using True by (simp add: wr_def list_update_append)
  ultimately show ?thesis using True by (auto simp: max_def)
next
  case False
  let ?r = "drop (length s - length a - 1) r"
  obtain y ys where y: "?r = y # ys" using False assms by (cases ?r) auto
  have len: "length s - length a - 1 + Suc (length ys) = length r"
    using arg_cong [OF y, of length] False assms by simp
  have "c_memcpy (b @ a @ NUL # r) (length b) s = Some (b @ s @ y # ys)"
    using False assms y by (simp add: c_memcpy_def c_assert_def drop_Cons' y)
  moreover have "wr (b @ s @ y # ys) (length b + length s) NUL = Some (b @ s @ NUL # ys)"
    by (simp add: wr_def list_update_append)
  ultimately show ?thesis using False len by (auto simp: max_def)
qed

lemma edits_word:
  assumes "list_all printable str"
  shows "edits (\<lambda>z. True) (vty_insert_word_overwrite str) (z_word str)"
proof (rule editsI)
  fix v b a assume h: "holds v (b, a)"
  then obtain r where r: "v_buf v = b @ a @ NUL # r" "length b + length a + 1 + length r = VTY_BUFSIZ" "v_cp v = length b"
    "v_length v = length b + length a" "list_all printable b" "list_all printable a" "buf_ok (v_obuf v)"
    by (rule holdsE)
  define n where "n = min (length str) (VTY_BUFSIZ - length b - 1)"
  define s where "s = take n str"
  have n: "length s = n" "length b + n < VTY_BUFSIZ" using r(2) by (auto simp: s_def n_def)
  have fold: "min (length str) (VTY_BUFSIZ - Suc (length b)) = n" "take n str = s" by (simp_all add: n_def s_def)
  have s: "list_all printable s" using assms by (auto simp: s_def list_all_iff dest: in_set_takeD)
  obtain b1 r' where b1: "c_memcpy (v_buf v) (v_cp v) s = Some b1"
    "wr b1 (max (length b + n) (length b + length a)) NUL = Some (b @ s @ drop n a @ NUL # r')"
    "n + length (drop n a) + length r' = length a + length r"
    using overlay [of b s a r] r n by auto
  let ?u = "v\<lparr>v_cp := length b + n, v_length := max (length b + n) (length b + length a), v_buf := b @ s @ drop n a @ NUL # r'\<rparr>"
  obtain ob where w: "vty_write s ?u = Some (?u\<lparr>v_obuf := ob\<rparr>)" "buf_ok ob" "sends ?u (?u\<lparr>v_obuf := ob\<rparr>) s"
    using vty_write_ok [of ?u s] r(7) by auto
  have "\<exists>v' out. vty_insert_word_overwrite str v = Some v' \<and> only_line v v' \<and> holds v' (b @ s, drop n a) \<and> sends v v' out
      \<and> (\<forall>p scr. shows_line p (b, a) scr \<longrightarrow> shows_line p (b @ s, drop n a) (display out scr))"
  proof (rule edit_step [where v' = "?u\<lparr>v_obuf := ob\<rparr>" and out = s])
    show "vty_insert_word_overwrite str v = Some (?u\<lparr>v_obuf := ob\<rparr>)"
      using b1(1,2) w(1) r(2,3,4) n(2) unfolding vty_insert_word_overwrite_def
      by (simp add: fold Let_def)
    show "holds (?u\<lparr>v_obuf := ob\<rparr>) (b @ s, drop n a)"
      by (rule holdsI [where r = r']) (use r w b1(3) n s in \<open>auto simp: list_all_iff dest: in_set_dropD\<close>)
    show "sends v (?u\<lparr>v_obuf := ob\<rparr>) s" using w(3) by (simp add: sends_def silent_def)
    show "\<exists>k'. display s ((p @ b) @ a @ replicate k SP, length (p @ b))
         = (p @ (b @ s) @ drop n a @ replicate k' SP, length p + length (b @ s))" for p k
      unfolding display_text [OF printable_no_BS [OF s]] using n(1) by auto
  qed (rule only_lineI, simp)
  then show "\<exists>v' out. vty_insert_word_overwrite str v = Some v' \<and> only_line v v' \<and> holds v' (z_word str (b, a)) \<and> sends v v' out
      \<and> (\<forall>p scr. shows_line p (b, a) scr \<longrightarrow> shows_line p (z_word str (b, a)) (display out scr))"
    by (simp add: z_word_def Let_def n_def s_def)
qed

text \<open>Deletion at the cursor, on a line that is not empty.\<close>

definition z_delete :: "zipper \<Rightarrow> zipper" where
  "z_delete z = (fst z, tl (snd z))"

lemma shift_left:
  "\<exists>b1. c_memmove (b @ (x # a) @ y # r) (length b) (length b + 1) (length a) = Some b1
     \<and> wr b1 (length b + length a) ch = Some (b @ a @ ch # y # r)"
proof -
  obtain l where l: "drop (length a) (x # a) = [l]" by (cases a rule: rev_cases) auto
  have "c_memmove (b @ (x # a) @ y # r) (length b) (length b + 1) (length a) = Some (b @ a @ l # y # r)"
    using l by (cases "a = []") (simp_all add: c_memmove_def c_assert_def drop_Cons')
  then show ?thesis by (simp add: wr_def list_update_append)
qed

lemma edits_delete: "edits (\<lambda>z. z \<noteq> ([], [])) (vty_delete_char c h) z_delete"
proof (rule editsI)
  fix v b a assume h: "holds v (b, a)" and ne: "(b, a) \<noteq> ([], [])"
  from h obtain r where r: "v_buf v = b @ a @ NUL # r" "length b + length a + 1 + length r = VTY_BUFSIZ" "v_cp v = length b"
    "v_length v = length b + length a" "list_all printable b" "list_all printable a" "buf_ok (v_obuf v)"
    by (rule holdsE)
  show "\<exists>v' out. vty_delete_char c h v = Some v' \<and> only_line v v' \<and> holds v' (z_delete (b, a)) \<and> sends v v' out
      \<and> (\<forall>p scr. shows_line p (b, a) scr \<longrightarrow> shows_line p (z_delete (b, a)) (display out scr))"
  proof (cases a)
    case Nil
    with r ne have "vty_delete_char c h v = Some v" "z_delete (b, a) = (b, a)"
      by (simp_all add: vty_delete_char_def z_delete_def)
    then show ?thesis using edit_stay [of "vty_delete_char c h" v "(b, a)"] h by simp
  next
    case (Cons x a')
    let ?b = "b @ a' @ NUL # NUL # r"
    let ?u = "v\<lparr>v_length := length b + length a', v_buf := ?b\<rparr>"
    obtain b1 where b1: "c_memmove (v_buf v) (length b) (Suc (length b)) (length a') = Some b1"
        "wr b1 (length b + length a') NUL = Some ?b"
      using shift_left [of b x a' NUL r NUL] r(1) Cons by auto
    have s: "rd_range ?b (length b) (length a') = Some a'" by (simp add: rd_range_def)
    obtain o1 where w1: "vty_write a' ?u = Some (?u\<lparr>v_obuf := o1\<rparr>)" "buf_ok o1" "sends ?u (?u\<lparr>v_obuf := o1\<rparr>) a'"
      using vty_write_ok [of ?u a'] r(7) by auto
    obtain o2 where w2: "vty_write [SP] (?u\<lparr>v_obuf := o1\<rparr>) = Some (?u\<lparr>v_obuf := o2\<rparr>)" "buf_ok o2"
      "sends (?u\<lparr>v_obuf := o1\<rparr>) (?u\<lparr>v_obuf := o2\<rparr>) [SP]"
      using vty_write_ok [of "?u\<lparr>v_obuf := o1\<rparr>" "[SP]"] w1(2) by auto
    obtain o3 where w3: "repeat_opt (length a) (vty_write [BS]) (?u\<lparr>v_obuf := o2\<rparr>) = Some (?u\<lparr>v_obuf := o3\<rparr>)"
      "buf_ok o3" "sends (?u\<lparr>v_obuf := o2\<rparr>) (?u\<lparr>v_obuf := o3\<rparr>) (replicate (length a) BS)"
      using repeat_write_ok [of "?u\<lparr>v_obuf := o2\<rparr>" "length a" BS] w2(2) by auto
    let ?ob = "if silent v then v_obuf v else o3"
    have "\<exists>v' out. vty_delete_char c h v = Some v' \<and> only_line v v' \<and> holds v' (b, a') \<and> sends v v' out
      \<and> (\<forall>p scr. shows_line p (b, a) scr \<longrightarrow> shows_line p (b, a') (display out scr))"
    proof (rule edit_step [where v' = "?u\<lparr>v_obuf := ?ob\<rparr>" and out = "(a' @ [SP]) @ replicate (length a) BS"])
      show "vty_delete_char c h v = Some (?u\<lparr>v_obuf := ?ob\<rparr>)"
        using b1 s w1(1) w2(1) w3(1) r(3,4) Cons
        by (cases "silent v") (simp_all add: vty_delete_char_def silent_def)
      show "holds (?u\<lparr>v_obuf := ?ob\<rparr>) (b, a')"
        by (rule holdsI [where r = "NUL # r"]) (use r w3(2) Cons in \<open>auto simp: silent_def\<close>)
      show "sends v (?u\<lparr>v_obuf := ?ob\<rparr>) ((a' @ [SP]) @ replicate (length a) BS)"
        using w1(3) w2(3) w3(3) by (cases "silent v") (auto simp: sends_def silent_def bytes_def)
      have bs: "BS \<notin> set (a' @ [SP])" using r(6) Cons printable_no_BS [of "a' @ [SP]"] by simp
      show "\<exists>k'. display ((a' @ [SP]) @ replicate (length a) BS) ((p @ b) @ a @ replicate k SP, length (p @ b))
         = (p @ b @ a' @ replicate k' SP, length p + length b)" for p k
        unfolding display_append [of "a' @ [SP]"] display_text [OF bs] display_back
        by (rule exI [of _ "Suc k"]) (simp add: Cons)
    qed (rule only_lineI, simp)
    then show ?thesis using Cons by (simp add: z_delete_def)
  qed
qed

lemma edits_kill_line: "edits (\<lambda>z. True) vty_kill_line (\<lambda>z. (fst z, []))"
proof (rule editsI)
  fix v b a assume h: "holds v (b, a)"
  then obtain r where r: "v_buf v = b @ a @ NUL # r" "length b + length a + 1 + length r = VTY_BUFSIZ" "v_cp v = length b"
    "v_length v = length b + length a" "list_all printable b" "list_all printable a" "buf_ok (v_obuf v)"
    by (rule holdsE)
  show "\<exists>v' out. vty_kill_line v = Some v' \<and> only_line v v' \<and> holds v' (fst (b, a), []) \<and> sends v v' out
      \<and> (\<forall>p scr. shows_line p (b, a) scr \<longrightarrow> shows_line p (fst (b, a), []) (display out scr))"
  proof (cases "a = []")
    case True
    then show ?thesis using edit_stay [of vty_kill_line v "(b, a)"] h r by (simp add: vty_kill_line_def)
  next
    case False
    obtain o1 where w1: "repeat_opt (length a) (vty_write [SP]) v = Some (v\<lparr>v_obuf := o1\<rparr>)" "buf_ok o1"
      "sends v (v\<lparr>v_obuf := o1\<rparr>) (replicate (length a) SP)"
      using repeat_write_ok [OF r(7), of "length a" SP] by auto
    obtain o2 where w2: "repeat_opt (length a) (vty_write [BS]) (v\<lparr>v_obuf := o1\<rparr>) = Some (v\<lparr>v_obuf := o2\<rparr>)" "buf_ok o2"
      "sends (v\<lparr>v_obuf := o1\<rparr>) (v\<lparr>v_obuf := o2\<rparr>) (replicate (length a) BS)"
      using repeat_write_ok [of "v\<lparr>v_obuf := o1\<rparr>" "length a" BS] w1(2) by auto
    let ?b = "b @ replicate (length a) NUL @ NUL # r"
    let ?v = "v\<lparr>v_obuf := o2, v_buf := ?b, v_length := length b\<rparr>"
    have cpy: "c_memcpy (v_buf v) (length b) (replicate (length a) NUL) = Some ?b"
      using r(1) by (simp add: c_memcpy_def)
    have tail: "replicate (length a) NUL @ NUL # r = NUL # replicate (length a) NUL @ r"
      by (simp add: replicate_app_Cons_same)
    have "\<exists>v' out. vty_kill_line v = Some v' \<and> only_line v v' \<and> holds v' (b, []) \<and> sends v v' out
      \<and> (\<forall>p scr. shows_line p (b, a) scr \<longrightarrow> shows_line p (b, []) (display out scr))"
    proof (rule edit_step [where v' = ?v and out = "replicate (length a) SP @ replicate (length a) BS"])
      show "vty_kill_line v = Some ?v"
        using w1(1) w2(1) cpy r(3,4) False by (simp add: vty_kill_line_def)
      show "holds ?v (b, [])"
        by (rule holdsI [where r = "replicate (length a) NUL @ r"]) (use r w2(2) tail in auto)
      show "sends v ?v (replicate (length a) SP @ replicate (length a) BS)"
        using w1(3) w2(3) by (simp add: sends_def silent_def)
      have bs: "BS \<notin> set (replicate (length a) SP)" by simp
      show "\<exists>k'. display (replicate (length a) SP @ replicate (length a) BS) ((p @ b) @ a @ replicate k SP, length (p @ b))
         = (p @ b @ [] @ replicate k' SP, length p + length b)" for p k
        unfolding display_append display_text [OF bs] display_back
        by (rule exI [of _ "length a + k"]) (simp add: replicate_add)
    qed (rule only_lineI, simp)
    then show ?thesis by simp
  qed
qed

section \<open>Compound operations\<close>

lemma tests_conds:
  "tests (\<lambda>v. Some (v_cp v \<noteq> 0)) (\<lambda>z. fst z \<noteq> [])"
  "tests (\<lambda>v. Some (v_cp v < v_length v)) (\<lambda>z. snd z \<noteq> [])"
  "tests (at_cursor space) (\<lambda>z. snd z \<noteq> [] \<and> (hd (snd z) = SP) = space)"
  "tests (before_cursor space) (\<lambda>z. fst z \<noteq> [] \<and> (last (fst z) = SP) = space)"
proof -
  show "tests (\<lambda>v. Some (v_cp v \<noteq> 0)) (\<lambda>z. fst z \<noteq> [])" "tests (\<lambda>v. Some (v_cp v < v_length v)) (\<lambda>z. snd z \<noteq> [])"
    by (auto simp: tests_def holds_def)
  have "at_cursor space v = Some (a \<noteq> [] \<and> (hd a = SP) = space)" if h: "holds v (b, a)" for v b a
    using h by (cases a) (auto simp: at_cursor_def rd_def nth_append elim!: holdsE)
  then show "tests (at_cursor space) (\<lambda>z. snd z \<noteq> [] \<and> (hd (snd z) = SP) = space)"
    by (auto simp: tests_def)
  have "before_cursor space v = Some (b \<noteq> [] \<and> (last b = SP) = space)" if h: "holds v (b, a)" for v b a
    using h by (cases b rule: rev_cases) (auto simp: before_cursor_def rd_def nth_append elim!: holdsE)
  then show "tests (before_cursor space) (\<lambda>z. fst z \<noteq> [] \<and> (last (fst z) = SP) = space)"
    by (auto simp: tests_def)
qed

text \<open>Moving and deleting while the characters satisfy a condition.\<close>

definition z_forward_while :: "(char \<Rightarrow> bool) \<Rightarrow> zipper \<Rightarrow> zipper" where
  "z_forward_while t z = (fst z @ takeWhile t (snd z), dropWhile t (snd z))"

definition z_backward_while :: "(char \<Rightarrow> bool) \<Rightarrow> zipper \<Rightarrow> zipper" where
  "z_backward_while t z = (rev (dropWhile t (rev (fst z))), rev (takeWhile t (rev (fst z))) @ snd z)"

definition z_kill_while :: "(char \<Rightarrow> bool) \<Rightarrow> zipper \<Rightarrow> zipper" where
  "z_kill_while t z = (fst z, dropWhile t (snd z))"

definition z_rubout_while :: "(char \<Rightarrow> bool) \<Rightarrow> zipper \<Rightarrow> zipper" where
  "z_rubout_while t z = (rev (dropWhile t (rev (fst z))), snd z)"

lemma edits_forward_while:
  assumes "tests cond (\<lambda>z. snd z \<noteq> [] \<and> t (hd (snd z)))"
  shows "edits (\<lambda>z. True) (while_opt VTY_BUFSIZ cond vty_forward_char) (z_forward_while t)"
proof (rule edits_while [where m = "\<lambda>z. length (snd z)" and f = z_forward, OF assms])
  show "edits (\<lambda>z. snd z \<noteq> [] \<and> t (hd (snd z))) vty_forward_char z_forward"
    by (rule edits_cong [OF edits_forward]) auto
  fix z :: zipper
  show "snd z \<noteq> [] \<and> t (hd (snd z)) \<Longrightarrow> length (snd (z_forward z)) < length (snd z)"
    by (cases z rule: z_forward.cases) auto
  show "snd z \<noteq> [] \<and> t (hd (snd z)) \<Longrightarrow> z_forward_while t z = z_forward_while t (z_forward z)"
    by (cases z rule: z_forward.cases) (auto simp: z_forward_while_def)
  show "\<not> (snd z \<noteq> [] \<and> t (hd (snd z))) \<Longrightarrow> z_forward_while t z = z"
    by (cases z rule: z_forward.cases) (auto simp: z_forward_while_def)
qed simp

lemma zipper_snoc_cases:
  obtains a where "z = ([], a)" | b x a where "z = (b @ [x], a)"
  by (metis prod.exhaust rev_exhaust)

lemma edits_backward_while:
  assumes "tests cond (\<lambda>z. fst z \<noteq> [] \<and> t (last (fst z)))"
  shows "edits (\<lambda>z. True) (while_opt VTY_BUFSIZ cond vty_backward_char) (z_backward_while t)"
proof (rule edits_while [where m = "\<lambda>z. length (fst z)" and f = z_backward, OF assms])
  show "edits (\<lambda>z. fst z \<noteq> [] \<and> t (last (fst z))) vty_backward_char z_backward"
    by (rule edits_cong [OF edits_backward]) auto
  fix z :: zipper
  show "fst z \<noteq> [] \<and> t (last (fst z)) \<Longrightarrow> length (fst (z_backward z)) < length (fst z)"
    by (cases z rule: zipper_snoc_cases) auto
  show "fst z \<noteq> [] \<and> t (last (fst z)) \<Longrightarrow> z_backward_while t z = z_backward_while t (z_backward z)"
    by (cases z rule: zipper_snoc_cases) (auto simp: z_backward_while_def)
  show "\<not> (fst z \<noteq> [] \<and> t (last (fst z))) \<Longrightarrow> z_backward_while t z = z"
    by (cases z rule: zipper_snoc_cases) (auto simp: z_backward_while_def)
qed simp

lemma edits_kill_while:
  assumes "tests cond (\<lambda>z. snd z \<noteq> [] \<and> t (hd (snd z)))"
  shows "edits (\<lambda>z. True) (while_opt VTY_BUFSIZ cond (vty_delete_char c h)) (z_kill_while t)"
proof (rule edits_while [where m = "\<lambda>z. length (snd z)" and f = z_delete, OF assms])
  show "edits (\<lambda>z. snd z \<noteq> [] \<and> t (hd (snd z))) (vty_delete_char c h) z_delete"
    by (rule edits_cong [OF edits_delete]) auto
  fix z :: zipper
  show "snd z \<noteq> [] \<and> t (hd (snd z)) \<Longrightarrow> length (snd (z_delete z)) < length (snd z)"
    by (cases "snd z") (auto simp: z_delete_def)
  show "snd z \<noteq> [] \<and> t (hd (snd z)) \<Longrightarrow> z_kill_while t z = z_kill_while t (z_delete z)"
    by (cases "snd z") (auto simp: z_kill_while_def z_delete_def)
  show "\<not> (snd z \<noteq> [] \<and> t (hd (snd z))) \<Longrightarrow> z_kill_while t z = z"
    by (cases z; cases "snd z") (auto simp: z_kill_while_def)
qed simp

definition z_rubout :: "zipper \<Rightarrow> zipper" where
  "z_rubout z = (butlast (fst z), snd z)"

lemma edits_rubout: "edits (\<lambda>z. True) (vty_delete_backward_char c h) z_rubout"
proof -
  have seq: "edits (\<lambda>z. fst z \<noteq> []) (\<lambda>v. do { v1 \<leftarrow> vty_backward_char v; vty_delete_char c h v1 })
      (\<lambda>z. z_delete (z_backward z))"
    by (rule edits_seq [OF edits_cong [OF edits_backward] edits_delete]) (auto simp: z_backward_def)
  show ?thesis
  proof (rule editsI)
    fix v b a assume h: "holds v (b, a)"
    show "\<exists>v' out. vty_delete_backward_char c h v = Some v' \<and> only_line v v' \<and> holds v' (z_rubout (b, a)) \<and> sends v v' out
      \<and> (\<forall>p scr. shows_line p (b, a) scr \<longrightarrow> shows_line p (z_rubout (b, a)) (display out scr))"
    proof (cases "b = []")
      case True
      then have "vty_delete_backward_char c h v = Some v" "z_rubout (b, a) = (b, a)"
        using h by (auto simp: vty_delete_backward_char_def z_rubout_def holds_def)
      then show ?thesis using edit_stay [of "vty_delete_backward_char c h" v "(b, a)"] h by simp
    next
      case False
      then have "vty_delete_backward_char c h v = (do { v1 \<leftarrow> vty_backward_char v; vty_delete_char c h v1 })"
        "z_rubout (b, a) = z_delete (z_backward (b, a))"
        using h by (auto simp: vty_delete_backward_char_def z_rubout_def z_delete_def z_backward_def holds_def)
      then show ?thesis using seq h False unfolding edits_def by simp
    qed
  qed
qed

lemma edits_rubout_while:
  assumes "tests cond (\<lambda>z. fst z \<noteq> [] \<and> t (last (fst z)))"
  shows "edits (\<lambda>z. True) (while_opt VTY_BUFSIZ cond (vty_delete_backward_char c h)) (z_rubout_while t)"
proof (rule edits_while [where m = "\<lambda>z. length (fst z)" and f = z_rubout, OF assms])
  show "edits (\<lambda>z. fst z \<noteq> [] \<and> t (last (fst z))) (vty_delete_backward_char c h) z_rubout"
    by (rule edits_cong [OF edits_rubout]) auto
  fix z :: zipper
  show "fst z \<noteq> [] \<and> t (last (fst z)) \<Longrightarrow> length (fst (z_rubout z)) < length (fst z)"
    by (cases z rule: zipper_snoc_cases) (auto simp: z_rubout_def)
  show "fst z \<noteq> [] \<and> t (last (fst z)) \<Longrightarrow> z_rubout_while t z = z_rubout_while t (z_rubout z)"
    by (cases z rule: zipper_snoc_cases) (auto simp: z_rubout_while_def z_rubout_def)
  show "\<not> (fst z \<noteq> [] \<and> t (last (fst z))) \<Longrightarrow> z_rubout_while t z = z"
    by (cases z rule: zipper_snoc_cases) (auto simp: z_rubout_while_def)
qed simp

lemma while_all [simp]: "takeWhile (\<lambda>ch. True) xs = xs" "dropWhile (\<lambda>ch. True) xs = []"
  by (induction xs) auto

lemma edits_beginning: "edits (\<lambda>z. True) vty_beginning_of_line (\<lambda>z. ([], fst z @ snd z))"
  unfolding vty_beginning_of_line_def [abs_def]
  by (rule edits_cong [OF edits_backward_while [where t = "\<lambda>ch. True"]])
    (use tests_conds(1) in \<open>auto simp: z_backward_while_def\<close>)

lemma edits_end: "edits (\<lambda>z. True) vty_end_of_line (\<lambda>z. (fst z @ snd z, []))"
  unfolding vty_end_of_line_def [abs_def]
  by (rule edits_cong [OF edits_forward_while [where t = "\<lambda>ch. True"]])
    (use tests_conds(2) in \<open>auto simp: z_forward_while_def\<close>)

lemma edits_kill_from_beginning: "edits (\<lambda>z. True) vty_kill_line_from_beginning (\<lambda>z. ([], []))"
  unfolding vty_kill_line_from_beginning_def [abs_def]
  by (rule edits_cong [OF edits_seq [OF edits_beginning edits_kill_line]]) auto

text \<open>A space, or not; the conditions of the loops on words.\<close>

abbreviation blank :: "bool \<Rightarrow> char \<Rightarrow> bool" where
  "blank b ch \<equiv> (ch = SP) = b"

lemma edits_forward_word:
  "edits (\<lambda>z. True) vty_forward_word (\<lambda>z. z_forward_while (blank True) (z_forward_while (blank False) z))"
  unfolding vty_forward_word_def [abs_def]
  by (rule edits_seq [OF edits_forward_while edits_forward_while]) (rule tests_conds TrueI)+

lemma edits_backward_word:
  "edits (\<lambda>z. True) vty_backward_word (\<lambda>z. z_backward_while (blank False) (z_backward_while (blank True) z))"
  unfolding vty_backward_word_def [abs_def]
  by (rule edits_seq [OF edits_backward_while edits_backward_while]) (rule tests_conds TrueI)+

lemma edits_backward_pure_word: "edits (\<lambda>z. True) vty_backward_pure_word (z_backward_while (blank False))"
  unfolding vty_backward_pure_word_def [abs_def] by (rule edits_backward_while) (rule tests_conds)

lemma edits_forward_kill_word:
  "edits (\<lambda>z. True) (vty_forward_kill_word c h) (\<lambda>z. z_kill_while (blank False) (z_kill_while (blank True) z))"
  unfolding vty_forward_kill_word_def [abs_def]
  by (rule edits_seq [OF edits_kill_while edits_kill_while]) (rule tests_conds TrueI)+

lemma edits_backward_kill_word:
  "edits (\<lambda>z. True) (vty_backward_kill_word c h) (\<lambda>z. z_rubout_while (blank False) (z_rubout_while (blank True) z))"
  unfolding vty_backward_kill_word_def [abs_def]
  by (rule edits_seq [OF edits_rubout_while edits_rubout_while]) (rule tests_conds TrueI)+

text \<open>Transposition of the two characters around the cursor, or before it at the end of the line.\<close>

definition z_transpose :: "zipper \<Rightarrow> zipper" where
  "z_transpose z =
     (case (rev (fst z), snd z) of
        (y # b, x # a) \<Rightarrow> (rev b @ [x, y], a)
      | (x # y # b, []) \<Rightarrow> (rev b @ [x, y], [])
      | _ \<Rightarrow> z)"

lemma z_transpose_simps:
  "z_transpose (b @ [y], x # a) = (b @ [x, y], a)" "z_transpose (b @ [y, x], []) = (b @ [x, y], [])"
  by (cases "rev b"; simp add: z_transpose_def)+

lemma edits_swap:
  assumes "printable c1" "printable c2"
  shows "edits (\<lambda>z. True) (\<lambda>v. do { v1 \<leftarrow> vty_backward_char v; do { v2 \<leftarrow> vty_self_insert_overwrite c1 v1; vty_self_insert_overwrite c2 v2 } })
    (\<lambda>z. z_overwrite c2 (z_overwrite c1 (z_backward z)))"
  by (rule edits_seq [OF edits_backward edits_seq [OF edits_overwrite [OF assms(1)] edits_overwrite [OF assms(2)]]]) (rule TrueI)+

lemma edits_transpose: "edits (\<lambda>z. True) vty_transpose_chars z_transpose"
proof (rule editsI)
  fix v b a assume h: "holds v (b, a)"
  then obtain r where r: "v_buf v = b @ a @ NUL # r" "length b + length a + 1 + length r = VTY_BUFSIZ" "v_cp v = length b"
    "v_length v = length b + length a" "list_all printable b" "list_all printable a" "buf_ok (v_obuf v)"
    by (rule holdsE)
  let ?goal = "\<lambda>z. \<exists>v' out. vty_transpose_chars v = Some v' \<and> only_line v v' \<and> holds v' z \<and> sends v v' out
      \<and> (\<forall>p scr. shows_line p (b, a) scr \<longrightarrow> shows_line p z (display out scr))"
  consider (same) "z_transpose (b, a) = (b, a)" "length b + length a < 2 \<or> b = []"
    | (mid) b' y x a' where "b = b' @ [y]" "a = x # a'" | (last) b' y x where "b = b' @ [y, x]" "a = []"
  proof (cases b rule: rev_cases)
    case Nil
    then show ?thesis using same by (simp add: z_transpose_def)
  next
    case (snoc b' y)
    note b = this
    show ?thesis
    proof (cases a)
      case (Cons x a')
      then show ?thesis using mid b by blast
    next
      case Nil
      show ?thesis
      proof (cases b' rule: rev_cases)
        case snoc
        then show ?thesis using last b Nil by simp
      qed (use same b Nil in \<open>simp add: z_transpose_def\<close>)
    qed
  qed
  then show "?goal (z_transpose (b, a))"
  proof cases
    case same
    then have "vty_transpose_chars v = Some v" using r by (auto simp: vty_transpose_chars_def)
    then show ?thesis using edit_stay [of vty_transpose_chars v "(b, a)"] h same by simp
  next
    case mid
    have op: "vty_transpose_chars v
        = (do { v1 \<leftarrow> vty_backward_char v; do { v2 \<leftarrow> vty_self_insert_overwrite x v1; vty_self_insert_overwrite y v2 } })"
      using r mid by (simp add: vty_transpose_chars_def rd_def nth_append)
    have "printable x" "printable y" using r mid by simp_all
    from edits_swap [OF this] h have "?goal (z_overwrite y (z_overwrite x (z_backward (b, a))))"
      unfolding edits_def op by simp
    then show ?thesis using mid by (simp add: z_transpose_simps z_overwrite_def)
  next
    case last
    have op: "vty_transpose_chars v = (do { v0 \<leftarrow> vty_backward_char v;
        do { v1 \<leftarrow> vty_backward_char v0; do { v2 \<leftarrow> vty_self_insert_overwrite x v1; vty_self_insert_overwrite y v2 } } })"
      using r last by (simp add: vty_transpose_chars_def rd_def nth_append)
    have pr: "printable x" "printable y" using r last by simp_all
    from edits_seq [OF edits_backward edits_swap [OF this]] h
    have "?goal (z_overwrite y (z_overwrite x (z_backward (z_backward (b, a)))))"
      unfolding edits_def op by simp
    then show ?thesis using last z_backward_simps(2) [of "b' @ [y]" x "[]"] by (simp add: z_transpose_simps z_overwrite_def)
  qed
qed

section \<open>Recalling a line\<close>

lemma holds_reset:
  assumes "holds v ([], [])" "list_all printable s" "length s < VTY_BUFSIZ"
  shows "\<exists>b1 b2. c_memcpy (v_buf v) 0 s = Some b1 \<and> wr b1 (length s) NUL = Some b2
    \<and> holds (v\<lparr>v_cp := length s, v_length := length s, v_buf := b2\<rparr>) (s, [])"
proof -
  obtain r where r: "v_buf v = NUL # r" "1 + length r = VTY_BUFSIZ" "buf_ok (v_obuf v)"
    using assms(1) by (auto simp: holds_def)
  obtain b1 r' where "c_memcpy (v_buf v) 0 s = Some b1" "wr b1 (length s) NUL = Some (s @ NUL # r')"
    "length s + length r' = length r"
    using overlay [of "[]" s "[]" r] r assms(3) by auto
  moreover from this have "holds (v\<lparr>v_cp := length s, v_length := length s, v_buf := s @ NUL # r'\<rparr>) (s, [])"
    by (intro holdsI [where r = r']) (use assms(2) r in auto)
  ultimately show ?thesis by blast
qed

lemma edits_history_print:
  assumes "holds v z" "rd (v_hist v) (v_hp v) = Some (Some s)" "list_all printable s" "length s < VTY_BUFSIZ"
  shows "\<exists>v' out. vty_history_print v = Some v' \<and> only_line v v' \<and> holds v' (s, []) \<and> sends v v' out
    \<and> (\<forall>p scr. shows_line p z scr \<longrightarrow> shows_line p (s, []) (display out scr))"
proof -
  obtain v1 o1 where 1: "vty_kill_line_from_beginning v = Some v1" "only_line v v1" "holds v1 ([], [])" "sends v v1 o1"
    "\<And>p scr. shows_line p z scr \<Longrightarrow> shows_line p ([], []) (display o1 scr)"
    using editsD [OF edits_kill_from_beginning assms(1) TrueI] by metis
  obtain b1 b2 where b: "c_memcpy (v_buf v1) 0 s = Some b1" "wr b1 (length s) NUL = Some b2"
    "holds (v1\<lparr>v_cp := length s, v_length := length s, v_buf := b2\<rparr>) (s, [])"
    using holds_reset [OF 1(3) assms(3,4)] by blast
  let ?v2 = "v1\<lparr>v_cp := length s, v_length := length s, v_buf := b2\<rparr>"
  obtain r where r: "v_buf ?v2 = s @ NUL # r" "buf_ok (v_obuf ?v2)" using b(3) by (auto simp: holds_def)
  obtain ob where w: "vty_write s ?v2 = Some (?v2\<lparr>v_obuf := ob\<rparr>)" "buf_ok ob" "sends ?v2 (?v2\<lparr>v_obuf := ob\<rparr>) s"
    using vty_write_ok [OF r(2)] by metis
  have "v_hist v1 = v_hist v" "v_hp v1 = v_hp v" "v_node v1 = v_node v" using 1(2) by (auto simp: only_line_def)
  then have op: "vty_history_print v = Some (?v2\<lparr>v_obuf := ob\<rparr>)"
    using 1(1) b(1,2) assms(2) r(1) w(1) by (simp add: vty_history_print_def vty_redraw_line_def rd_range_def)
  have ol: "only_line v (?v2\<lparr>v_obuf := ob\<rparr>)"
    by (rule only_line_trans [OF 1(2)]) (rule only_lineI, simp)
  have hold: "holds (?v2\<lparr>v_obuf := ob\<rparr>) (s, [])" using b(3) w(2) by (simp add: holds_def)
  have snd: "sends v (?v2\<lparr>v_obuf := ob\<rparr>) (o1 @ s)"
    using 1(4) w(3) \<open>v_node v1 = v_node v\<close> by (simp add: sends_def silent_def)
  have "shows_line p (s, []) (display (o1 @ s) scr)" if sh: "shows_line p z scr" for p scr
  proof -
    obtain k where k: "display o1 scr = (p @ replicate k SP, length p)" using 1(5) [OF sh] by (auto simp: shows_line_def)
    show ?thesis unfolding display_append k display_text [OF printable_no_BS [OF assms(3)]] by (auto simp: shows_line_def)
  qed
  then show ?thesis using op ol hold snd by blast
qed

end
