(* ===== verification/Vty_Editor.thy ===== *)
theory Vty_Editor
  imports Vty_Read Vty_Edit_Laws
begin

text \<open>
  The keys typed at the terminal as operations on the text before and after the cursor: bytes read by
  \<open>vty_read\<close> edit the line as the abstract editor \<open>typed\<close> does, and the terminal shows it.
\<close>

section \<open>The abstract editor\<close>

text \<open>The effect of one key; none for a key that does more than editing the line.\<close>

definition edit_byte :: "u8 \<Rightarrow> zipper \<Rightarrow> zipper option" where
  "edit_byte b z =
     (if b = 1 then Some ([], fst z @ snd z)
      else if b = 2 then Some (z_backward z)
      else if b = 4 then (if z = ([], []) then None else Some (z_delete z))
      else if b = 5 then Some (fst z @ snd z, [])
      else if b = 6 then Some (z_forward z)
      else if b = 8 \<or> b = 127 then Some (z_rubout z)
      else if b = 11 then Some (fst z, [])
      else if b = 20 then Some (z_transpose z)
      else if b = 21 then Some ([], [])
      else if b = 23 then Some (z_rubout_while (blank False) (z_rubout_while (blank True) z))
      else if 31 < b \<and> b < 127 \<and> b \<noteq> 63 then Some (z_insert (char_of (unat b)) z)
      else None)"

text \<open>The effect of a byte after an escape character.\<close>

definition meta_byte :: "u8 \<Rightarrow> zipper \<Rightarrow> zipper option" where
  "meta_byte b z =
     (if b = 98 then Some (z_backward_while (blank False) (z_backward_while (blank True) z))
      else if b = 102 then Some (z_forward_while (blank True) (z_forward_while (blank False) z))
      else if b = 100 then Some (z_kill_while (blank False) (z_kill_while (blank True) z))
      else if b = 8 \<or> b = 127 then Some (z_rubout_while (blank False) (z_rubout_while (blank True) z))
      else None)"

text \<open>The effect of a byte after an escape character and a bracket.\<close>

definition arrow_byte :: "u8 \<Rightarrow> zipper \<Rightarrow> zipper option" where
  "arrow_byte b z = (if b = 67 then Some (z_forward z) else if b = 68 then Some (z_backward z) else None)"

fun typed :: "u8 list \<Rightarrow> zipper \<Rightarrow> zipper option" where
  "typed [] z = Some z"
| "typed (b # bs) z =
     (if b \<noteq> 27 then (case edit_byte b z of None \<Rightarrow> None | Some z1 \<Rightarrow> typed bs z1)
      else (case bs of
              [] \<Rightarrow> None
            | b1 # bs1 \<Rightarrow>
                if b1 \<noteq> 91 then (case meta_byte b1 z of None \<Rightarrow> None | Some z1 \<Rightarrow> typed bs1 z1)
                else (case bs1 of
                        [] \<Rightarrow> None
                      | b2 # bs2 \<Rightarrow> (case arrow_byte b2 z of None \<Rightarrow> None | Some z1 \<Rightarrow> typed bs2 z1))))"

section \<open>Refinement\<close>

text \<open>No telnet command, escape sequence or page prompt is in progress.\<close>

definition idle :: "vty \<Rightarrow> bool" where
  "idle v \<longleftrightarrow> \<not> v_iac v \<and> \<not> v_iac_sb_in_progress v \<and> v_status v \<noteq> VTY_MORE \<and> v_escape v = VTY_UNESCAPED"

lemma only_line_idle: "only_line v v' \<Longrightarrow> idle v' = idle v"
  by (auto simp: only_line_def idle_def)

text \<open>What every editing step establishes.\<close>

definition edited :: "vty \<Rightarrow> zipper \<Rightarrow> vty \<Rightarrow> zipper \<Rightarrow> bool" where
  "edited v z v' z' \<longleftrightarrow> only_line v v' \<and> holds v' z'
     \<and> (\<exists>out. sends v v' out \<and> (\<forall>p scr. shows_line p z scr \<longrightarrow> shows_line p z' (display out scr)))"

lemma edits_edited: "edits P op f \<Longrightarrow> holds v z \<Longrightarrow> P z \<Longrightarrow> \<exists>v'. op v = Some v' \<and> edited v z v' (f z)"
  unfolding edits_def edited_def by blast

lemma edited_refl: "holds v z \<Longrightarrow> edited v z v z"
  unfolding edited_def by (auto intro!: exI [of _ "[]"] simp: sends_def)

lemma edited_trans:
  assumes "edited v z v1 z1" "edited v1 z1 v2 z2"
  shows "edited v z v2 z2"
proof -
  obtain o1 where 1: "only_line v v1" "holds v1 z1" "sends v v1 o1"
    "\<And>p scr. shows_line p z scr \<Longrightarrow> shows_line p z1 (display o1 scr)"
    using assms(1) unfolding edited_def by blast
  obtain o2 where 2: "only_line v1 v2" "holds v2 z2" "sends v1 v2 o2"
    "\<And>p scr. shows_line p z1 scr \<Longrightarrow> shows_line p z2 (display o2 scr)"
    using assms(2) unfolding edited_def by blast
  have "sends v v2 (o1 @ o2)" using 1(1,3) 2(3) only_line_silent by (simp add: sends_def)
  moreover have "shows_line p z scr \<Longrightarrow> shows_line p z2 (display (o1 @ o2) scr)" for p scr
    using 1(4) 2(4) by (simp add: display_append)
  ultimately show ?thesis
    unfolding edited_def using only_line_trans [OF 1(1) 2(1)] 2(2) by blast
qed

lemma printable_byte: "31 < b \<Longrightarrow> b < 127 \<Longrightarrow> printable (char_of (unat (b :: u8)))"
  using unat_u8_less [of b] by (simp add: printable_def char_code_of word_less_nat_alt)

lemma edit_byte_key:
  assumes "edit_byte b z = Some z'" "holds v z"
  shows "\<exists>v'. vty_edit_key R h b v = Some v' \<and> edited v z v' z'"
proof -
  note ops = edits_beginning edits_backward edits_end edits_forward edits_rubout [where c = "r_cmds R" and h = h]
    edits_kill_line edits_transpose edits_kill_from_beginning edits_backward_kill_word [where c = "r_cmds R" and h = h]
  note ops = ops [THEN edits_edited, OF assms(2) TrueI]
  consider "b = 1" | "b = 2" | "b = 4" | "b = 5" | "b = 6" | "b = 8 \<or> b = 127" | "b = 11" | "b = 20" | "b = 21" | "b = 23"
    | "31 < b" "b < 127" "b \<noteq> 63"
    using assms(1) unfolding edit_byte_def by (auto split: if_splits)
  then show ?thesis
  proof cases
    case 3
    then show ?thesis
      using assms edits_edited [OF edits_delete [where c = "r_cmds R" and h = h] assms(2)]
      by (auto simp: edit_byte_def vty_edit_key_def split: if_splits)
  next
    case 11
    have ne: "b \<noteq> 1" "b \<noteq> 2" "b \<noteq> 3" "b \<noteq> 4" "b \<noteq> 5" "b \<noteq> 6" "b \<noteq> 8" "b \<noteq> 127" "b \<noteq> 11" "b \<noteq> 14" "b \<noteq> 16" "b \<noteq> 20" "b \<noteq> 21" "b \<noteq> 23"
      "b \<noteq> 26" "b \<noteq> 9"
      using 11 by (auto simp: word_less_nat_alt)
    with 11 show ?thesis
      using assms edits_edited [OF edits_insert [OF printable_byte] assms(2)]
      by (auto simp: edit_byte_def vty_edit_key_def)
  qed (use assms(1) ops in \<open>auto simp: edit_byte_def vty_edit_key_def\<close>)
qed

lemma meta_byte_key:
  assumes "meta_byte b z = Some z'" "holds v z"
  shows "\<exists>v'. vty_pre_escape R h b v = Some (v'\<lparr>v_escape := VTY_UNESCAPED\<rparr>) \<and> edited v z v' z'"
proof -
  note ops = edits_backward_word edits_forward_word edits_forward_kill_word [where c = "r_cmds R" and h = h]
    edits_backward_kill_word [where c = "r_cmds R" and h = h]
  note ops = ops [THEN edits_edited, OF assms(2) TrueI]
  consider "b = 98" | "b = 102" | "b = 100" | "b = 8 \<or> b = 127"
    using assms(1) unfolding meta_byte_def by (auto split: if_splits)
  then show ?thesis
    by cases (use assms(1) ops in \<open>auto simp: meta_byte_def vty_pre_escape_def\<close>)
qed

lemma arrow_byte_key:
  assumes "arrow_byte b z = Some z'" "holds v z"
  shows "\<exists>v'. vty_escape_map b v = Some (v'\<lparr>v_escape := VTY_UNESCAPED\<rparr>) \<and> edited v z v' z'"
proof -
  note ops = edits_backward edits_forward
  note ops = ops [THEN edits_edited, OF assms(2) TrueI]
  consider "b = 67" | "b = 68"
    using assms(1) unfolding arrow_byte_def by (auto split: if_splits)
  then show ?thesis
    by cases (use assms(1) ops in \<open>auto simp: arrow_byte_def vty_escape_map_def\<close>)
qed

text \<open>The escape state is set for the sequence and reset at its end.\<close>

lemma edited_escape:
  assumes "edited (v\<lparr>v_escape := e\<rparr>) z v' z'" "v_escape v = e'"
  shows "edited v z (v'\<lparr>v_escape := e'\<rparr>) z'"
proof -
  from assms(1) obtain buf c l ob out where o: "v' = v\<lparr>v_escape := e, v_buf := buf, v_cp := c, v_length := l, v_obuf := ob\<rparr>"
    "holds v' z'" "sends (v\<lparr>v_escape := e\<rparr>) v' out"
    "\<forall>p scr. shows_line p z scr \<longrightarrow> shows_line p z' (display out scr)"
    unfolding edited_def only_line_def by blast
  have "v'\<lparr>v_escape := e'\<rparr> = v\<lparr>v_buf := buf, v_cp := c, v_length := l, v_obuf := ob\<rparr>"
    unfolding o(1) using assms(2) by simp
  then have "only_line v (v'\<lparr>v_escape := e'\<rparr>)" unfolding only_line_def by blast
  moreover have "holds (v'\<lparr>v_escape := e'\<rparr>) z'" using o(2) by (simp add: holds_def)
  moreover have "sends v (v'\<lparr>v_escape := e'\<rparr>) out" using o(3) by (simp add: sends_def silent_def)
  ultimately show ?thesis using o(4) unfolding edited_def by blast
qed

lemma holds_escape [simp]: "holds (v\<lparr>v_escape := e\<rparr>) z = holds v z"
  by (simp add: holds_def)

section \<open>Sequences of bytes\<close>

lemma edit_byte_plain: "edit_byte b z = Some z' \<Longrightarrow> b \<noteq> 255 \<and> b \<noteq> 27 \<and> b \<noteq> 10 \<and> b \<noteq> 13"
  by (auto simp: edit_byte_def)

lemma meta_byte_plain: "meta_byte b z = Some z' \<Longrightarrow> b \<noteq> 255"
  by (auto simp: meta_byte_def)

lemma arrow_byte_plain: "arrow_byte b z = Some z' \<Longrightarrow> b \<noteq> 255"
  by (auto simp: arrow_byte_def)

lemma byte_edit:
  assumes "idle (s_vty s)" "holds (s_vty s) z" "edit_byte b z = Some z'"
  obtains v' where "vty_byte R b rest s = Some (0, s\<lparr>s_vty := v'\<rparr>)" "edited (s_vty s) z v' z'"
proof -
  obtain v' where "vty_edit_key R (s_host s) b (s_vty s) = Some v'" "edited (s_vty s) z v' z'"
    using edit_byte_key [OF assms(3,2)] by blast
  then show thesis
    using that [of v'] assms(1) edit_byte_plain [OF assms(3)]
    by (simp add: vty_byte_def idle_def vty_key_def with_vty_def)
qed

lemma byte_meta:
  assumes "idle (s_vty s)" "holds (s_vty s) z" "meta_byte b z = Some z'"
  obtains v' where "vty_byte R b rest (s\<lparr>s_vty := (s_vty s)\<lparr>v_escape := VTY_PRE_ESCAPE\<rparr>\<rparr>) = Some (0, s\<lparr>s_vty := v'\<rparr>)"
    "edited (s_vty s) z v' z'"
proof -
  let ?v = "(s_vty s)\<lparr>v_escape := VTY_PRE_ESCAPE\<rparr>"
  obtain v' where "vty_pre_escape R (s_host s) b ?v = Some (v'\<lparr>v_escape := VTY_UNESCAPED\<rparr>)" "edited ?v z v' z'"
    using meta_byte_key [OF assms(3), of ?v] assms(2) by auto
  then show thesis
    using that [of "v'\<lparr>v_escape := VTY_UNESCAPED\<rparr>"] assms(1) meta_byte_plain [OF assms(3)] edited_escape [where v = "s_vty s"]
    by (simp add: vty_byte_def idle_def with_vty_def)
qed

lemma byte_arrow:
  assumes "idle (s_vty s)" "holds (s_vty s) z" "arrow_byte b z = Some z'"
  obtains v' where "vty_byte R b rest (s\<lparr>s_vty := (s_vty s)\<lparr>v_escape := VTY_ESCAPE\<rparr>\<rparr>) = Some (0, s\<lparr>s_vty := v'\<rparr>)"
    "edited (s_vty s) z v' z'"
proof -
  let ?v = "(s_vty s)\<lparr>v_escape := VTY_ESCAPE\<rparr>"
  obtain v' where "vty_escape_map b ?v = Some (v'\<lparr>v_escape := VTY_UNESCAPED\<rparr>)" "edited ?v z v' z'"
    using arrow_byte_key [OF assms(3), of ?v] assms(2) by auto
  then show thesis
    using that [of "v'\<lparr>v_escape := VTY_UNESCAPED\<rparr>"] assms(1) arrow_byte_plain [OF assms(3)] edited_escape [where v = "s_vty s"]
    by (simp add: vty_byte_def idle_def with_vty_def)
qed

lemma byte_escape:
  "idle (s_vty s) \<Longrightarrow> vty_byte R 27 (b # bs) s =
     (if b = 91 then Some (1, s\<lparr>s_vty := (s_vty s)\<lparr>v_escape := VTY_ESCAPE\<rparr>\<rparr>)
      else Some (0, s\<lparr>s_vty := (s_vty s)\<lparr>v_escape := VTY_PRE_ESCAPE\<rparr>\<rparr>))"
  by (simp add: vty_byte_def idle_def)

lemma edited_next: "edited v z v' z' \<Longrightarrow> idle v \<Longrightarrow> idle v' \<and> holds v' z'"
  using only_line_idle by (auto simp: edited_def)

lemma vty_bytes_typed:
  assumes "typed bs z = Some z'" "idle (s_vty s)" "holds (s_vty s) z"
  shows "\<exists>v'. vty_bytes R (bs @ rest) s = vty_bytes R rest (s\<lparr>s_vty := v'\<rparr>) \<and> edited (s_vty s) z v' z'"
  using assms
proof (induction bs z arbitrary: s rule: typed.induct)
  case (1 z)
  then show ?case by (intro exI [of _ "s_vty s"]) (simp add: edited_refl)
next
  case (2 b bs z)
  note id = "2.prems"(2) and h = "2.prems"(3)
  have goes_on: "\<exists>v'. vty_bytes R (cs @ rest) (s\<lparr>s_vty := v1\<rparr>) = vty_bytes R rest (s\<lparr>s_vty := v'\<rparr>) \<and> edited (s_vty s) z v' z'"
    if IH: "\<And>t. idle (s_vty t) \<Longrightarrow> holds (s_vty t) z1 \<Longrightarrow>
      \<exists>v'. vty_bytes R (cs @ rest) t = vty_bytes R rest (t\<lparr>s_vty := v'\<rparr>) \<and> edited (s_vty t) z1 v' z'"
      and e: "edited (s_vty s) z v1 z1" for cs v1 z1
  proof -
    obtain v' where "vty_bytes R (cs @ rest) (s\<lparr>s_vty := v1\<rparr>) = vty_bytes R rest (s\<lparr>s_vty := v'\<rparr>)" "edited v1 z1 v' z'"
      using IH [of "s\<lparr>s_vty := v1\<rparr>"] edited_next [OF e id] by auto
    then show ?thesis using edited_trans [OF e] by blast
  qed
  consider (plain) "b \<noteq> 27" | (meta) b1 bs1 where "b = 27" "bs = b1 # bs1" "b1 \<noteq> 91"
    | (arrow) b2 bs2 where "b = 27" "bs = 91 # b2 # bs2"
    using "2.prems"(1) by (auto split: if_splits list.splits)
  then show ?case
  proof cases
    case plain
    then obtain z1 where z1: "edit_byte b z = Some z1" "typed bs z1 = Some z'"
      using "2.prems"(1) by (auto split: option.splits)
    obtain v1 where v1: "vty_byte R b (bs @ rest) s = Some (0, s\<lparr>s_vty := v1\<rparr>)" "edited (s_vty s) z v1 z1"
      by (rule byte_edit [OF id h z1(1)])
    show ?thesis
      using goes_on [OF "2.IH"(1) [OF plain z1] v1(2)] v1(1) by simp
  next
    case meta
    then obtain z1 where z1: "meta_byte b1 z = Some z1" "typed bs1 z1 = Some z'"
      using "2.prems"(1) by (auto split: option.splits)
    obtain v1 where v1: "vty_byte R b1 (bs1 @ rest) (s\<lparr>s_vty := (s_vty s)\<lparr>v_escape := VTY_PRE_ESCAPE\<rparr>\<rparr>) = Some (0, s\<lparr>s_vty := v1\<rparr>)"
      "edited (s_vty s) z v1 z1"
      by (rule byte_meta [OF id h z1(1)])
    have "b = 27 \<Longrightarrow> \<not> b \<noteq> 27" by simp
    then show ?thesis
      using goes_on [OF "2.IH"(2) [OF _ meta(2,3) z1] v1(2)] v1(1) meta byte_escape [OF id, of R b1 "bs1 @ rest"] by simp
  next
    case arrow
    then obtain z1 where z1: "arrow_byte b2 z = Some z1" "typed bs2 z1 = Some z'"
      using "2.prems"(1) by (auto split: option.splits)
    obtain v1 where v1: "vty_byte R b2 (bs2 @ rest) (s\<lparr>s_vty := (s_vty s)\<lparr>v_escape := VTY_ESCAPE\<rparr>\<rparr>) = Some (0, s\<lparr>s_vty := v1\<rparr>)"
      "edited (s_vty s) z v1 z1"
      by (rule byte_arrow [OF id h z1(1)])
    show ?thesis
      using goes_on [OF "2.IH"(3) [OF _ arrow(2) _ refl z1] v1(2)] v1(1) arrow byte_escape [OF id, of R 91 "b2 # bs2 @ rest"] by simp
  qed
qed

end
