(* ===== verification/Vty_Session.thy ===== *)
theory Vty_Session
  imports Vty_Editor
begin

text \<open>
  Runs of a session: what the output routines leave alone, the telnet window size, and the history.
\<close>

section \<open>Frames\<close>

text \<open>Printing changes the output, the line buffer of the filter and the pending frame.\<close>

definition only_output :: "vty \<Rightarrow> vty \<Rightarrow> bool" where
  "only_output v v' \<longleftrightarrow> (\<exists>lb ob f p. v' = v\<lparr>v_lbuf := lb, v_obuf := ob, v_of := f, v_frame_pos := p\<rparr>)"

lemma only_outputI:
  "v' = v\<lparr>v_lbuf := v_lbuf v', v_obuf := v_obuf v', v_of := v_of v', v_frame_pos := v_frame_pos v'\<rparr> \<Longrightarrow> only_output v v'"
  unfolding only_output_def by blast

lemma only_output_refl [simp]: "only_output v v"
  by (rule only_outputI) simp

lemma only_output_upd [simp]:
  "only_output v (v\<lparr>v_lbuf := b\<rparr>)" "only_output v (v\<lparr>v_obuf := b\<rparr>)" "only_output v (v\<lparr>v_of := f\<rparr>)"
  "only_output v (v\<lparr>v_frame_pos := n\<rparr>)"
  by (rule only_outputI, simp)+

lemma only_output_trans: "only_output u v \<Longrightarrow> only_output v w \<Longrightarrow> only_output u w"
  unfolding only_output_def by (elim exE) (simp, blast)

lemma only_output_simps:
  assumes "only_output v v'"
  shows "v_node v' = v_node v" "v_type v' = v_type v" "v_config v' = v_config v" "v_buf v' = v_buf v"
    "v_status v' = v_status v" "v_hist v' = v_hist v" "v_hindex v' = v_hindex v" "v_hp v' = v_hp v"
    "v_length v' = v_length v" "v_cp v' = v_cp v" "v_fail v' = v_fail v"
  using assms by (auto simp: only_output_def)

lemma filter_out_frame: "filter_out regexec p v = Some (v', t) \<Longrightarrow> only_output v v'"
  unfolding filter_out_def bind_Some_iff by (elim exE conjE) (auto simp: bind_Some_iff split: if_splits)

lemma out_text_frame: "out_text p v = Some v' \<Longrightarrow> only_output v v'"
  by (cases "v_type v") (auto simp: out_text_def bind_Some_iff)

lemma vty_out_str_frame: "vty_out_str p v = Some v' \<Longrightarrow> only_output v v'"
proof -
  assume "vty_out_str p v = Some v'"
  then obtain v1 f where 1: "(case v_filter v of Some regexec \<Rightarrow> filter_out regexec p v | None \<Rightarrow> Some (v, Some p)) = Some (v1, f)"
    and 2: "(case f of None \<Rightarrow> Some v1 | Some s \<Rightarrow> out_text s v1) = Some v'"
    unfolding vty_out_str_def bind_Some_iff by auto
  have "only_output v v1" using 1 filter_out_frame by (cases "v_filter v") auto
  moreover have "only_output v1 v'" using 2 out_text_frame by (cases f) auto
  ultimately show ?thesis by (rule only_output_trans)
qed

lemma vty_out_frame: "vty_out p v = Some v' \<Longrightarrow> only_output v v'"
proof -
  assume "vty_out p v = Some v'"
  then obtain v1 where 1: "(if v_frame_pos v \<noteq> 0 then vty_out_str (v_frame v) (v\<lparr>v_frame_pos := 0\<rparr>) else Some v) = Some v1"
    and 2: "vty_out_str p v1 = Some v'"
    unfolding vty_out_def bind_Some_iff by blast
  have "only_output v v1"
    using 1 only_output_trans [OF only_output_upd(4) vty_out_str_frame] by (cases "v_frame_pos v = 0") auto
  then show ?thesis using vty_out_str_frame [OF 2] by (rule only_output_trans)
qed

lemma vty_prompt_frame: "vty_prompt c h v = Some v' \<Longrightarrow> only_output v v'"
  by (cases "v_type v = VTY_TERM") (auto simp: vty_prompt_def bind_Some_iff dest: vty_out_frame)

lemma vty_write_frame: "vty_write t v = Some v' \<Longrightarrow> only_output v v'"
  by (auto simp: vty_write_def bind_Some_iff split: if_splits)

section \<open>The window size\<close>

definition quote_iac :: "u8 \<Rightarrow> u8 list" where
  "quote_iac b = (if b = IAC then [IAC, IAC] else [b])"

lemma be16_eq: "be16 hi lo = 256 * uint hi + uint lo"
proof -
  have nb: "\<not> bit lo n" if "8 \<le> n" for n using that bit_imp_le_length [of lo n] by auto
  have "or (push_bit 8 (ucast hi :: 32 word)) (ucast lo) = push_bit 8 (ucast hi) + ucast lo"
    by (rule disjunctive_add_eq_or [symmetric]) (auto intro!: bit_word_eqI simp: bit_simps nb)
  moreover have "uint (push_bit 8 (ucast hi :: 32 word) + ucast lo) = 256 * uint hi + uint lo"
    using uint_bounded [of hi] uint_bounded [of lo]
    by (simp add: push_bit_eq_mult uint_word_ariths unsigned_ucast_eq take_bit_eq_mod)
  ultimately show ?thesis by (simp add: be16_def)
qed

lemma same_flags [simp]:
  "\<not> v_iac v \<Longrightarrow> v\<lparr>v_iac := False\<rparr> = v"
  "\<not> v_iac_sb_in_progress v \<Longrightarrow> v\<lparr>v_iac_sb_in_progress := False\<rparr> = v"
  by (cases v, simp)+

lemma sb_bytes:
  assumes "\<not> v_iac (s_vty s)" "v_iac_sb_in_progress (s_vty s)"
  shows "vty_bytes R (quote_iac b @ bs) s = vty_bytes R bs (s\<lparr>s_vty := sb_store b (s_vty s)\<rparr>)"
  using assms by (simp add: quote_iac_def vty_byte_def)

text \<open>The bytes with which a client announces its size.\<close>

definition naws_bytes :: "u8 \<Rightarrow> u8 \<Rightarrow> u8 \<Rightarrow> u8 \<Rightarrow> u8 list" where
  "naws_bytes w1 w0 h1 h0 =
     [IAC, SB] @ quote_iac TELOPT_NAWS @ quote_iac w1 @ quote_iac w0 @ quote_iac h1 @ quote_iac h0 @ [IAC, SE]"

lemma naws_sets_size:
  assumes "\<not> v_iac (s_vty s)" "\<not> v_iac_sb_in_progress (s_vty s)" "length (v_sb_buf (s_vty s)) = TELNET_NAWS_SB_LEN"
  shows "vty_bytes R (naws_bytes w1 w0 h1 h0 @ bs) s =
    vty_bytes R bs (s\<lparr>s_vty := (s_vty s)\<lparr>v_sb_buf := [TELOPT_NAWS, w1, w0, h1, h0], v_sb_len := 5,
      v_width := 256 * uint w1 + uint w0, v_height := 256 * uint h1 + uint h0\<rparr>\<rparr>)"
proof -
  obtain x0 x1 x2 x3 x4 where x: "v_sb_buf (s_vty s) = [x0, x1, x2, x3, x4]"
    using assms(3) unfolding TELNET_NAWS_SB_LEN_def by (auto simp: numeral_eq_Suc length_Suc_conv)
  let ?s0 = "s\<lparr>s_vty := (s_vty s)\<lparr>v_sb_len := 0, v_iac_sb_in_progress := True\<rparr>\<rparr>"
  let ?q = "quote_iac TELOPT_NAWS @ quote_iac w1 @ quote_iac w0 @ quote_iac h1 @ quote_iac h0 @ [IAC, SE] @ bs"
  have start: "vty_bytes R (naws_bytes w1 w0 h1 h0 @ bs) s = vty_bytes R ?q ?s0"
    using assms(1,2) by (simp add: naws_bytes_def vty_byte_def vty_telnet_option_def)
  have "vty_bytes R ?q ?s0 = vty_bytes R ([IAC, SE] @ bs)
      (s\<lparr>s_vty := (s_vty s)\<lparr>v_iac_sb_in_progress := True, v_sb_buf := [TELOPT_NAWS, w1, w0, h1, h0], v_sb_len := 5\<rparr>\<rparr>)"
    using assms(1) by (simp add: sb_bytes sb_store_def TELNET_NAWS_SB_LEN_def x numeral_eq_Suc del: vty_bytes.simps)
  also have "\<dots> = vty_bytes R bs (s\<lparr>s_vty := (s_vty s)\<lparr>v_sb_buf := [TELOPT_NAWS, w1, w0, h1, h0], v_sb_len := 5,
      v_width := 256 * uint w1 + uint w0, v_height := 256 * uint h1 + uint h0\<rparr>\<rparr>)"
    using assms(1,2) by (simp add: vty_byte_def vty_telnet_option_def TELNET_NAWS_SB_LEN_def be16_eq)
  finally show ?thesis unfolding start .
qed

section \<open>History\<close>

text \<open>The ring holds the lines \<open>hs\<close>, the latest first, at most as many as it has entries.\<close>

definition hist_ok :: "vty \<Rightarrow> string list \<Rightarrow> bool" where
  "hist_ok v hs \<longleftrightarrow> length (v_hist v) = VTY_MAXHIST \<and> v_hindex v < VTY_MAXHIST \<and> length hs \<le> VTY_MAXHIST
     \<and> (\<forall>k < VTY_MAXHIST. v_hist v ! ((v_hindex v + VTY_MAXHIST - 1 - k) mod VTY_MAXHIST)
          = (if k < length hs then Some (hs ! k) else None))"

lemma ring_pred: "0 < n \<Longrightarrow> i < n \<Longrightarrow> (if i \<noteq> 0 then i - 1 else n - 1) = (i + n - 1) mod (n :: nat)"
  by (cases i) (auto simp: mod_if)

lemma ring_succ: "i < n \<Longrightarrow> (if i + 1 = n then 0 else i + 1) = (i + 1) mod (n :: nat)"
  by auto

lemma ring_back: "0 < n \<Longrightarrow> i < n \<Longrightarrow> ((i + 1) mod n + n - 1) mod n = (i :: nat)"
  by (cases "i + 1 = n") (auto simp: mod_if)

lemma ring_step: "k < n \<Longrightarrow> i < n \<Longrightarrow> ((i + 1) mod n + n - 1 - Suc k) mod n = (i + n - 1 - k) mod (n :: nat)" if "Suc k < n"
proof (cases "i + 1 = n")
  case True
  then have "(i + 1) mod n + n - 1 - Suc k = n - 1 - Suc k" "i + n - 1 - k = n + (n - 1 - Suc k)"
    using that by auto
  then show ?thesis by (metis mod_add_self1)
next
  case False
  assume "i < n"
  with False have "(i + 1) mod n = i + 1" by simp
  then show ?thesis using that by simp
qed

lemma ring_other: "0 < k \<Longrightarrow> k < n \<Longrightarrow> i < n \<Longrightarrow> ((i + 1) mod n + n - 1 - k) mod n \<noteq> (i :: nat)"
proof -
  assume k: "0 < k" "k < n" and i: "i < n"
  have "(i + n - k) mod n \<noteq> i"
  proof (cases "k \<le> i")
    case True
    then have "(i + n - k) mod n = i - k" using k i by (simp add: mod_if)
    then show ?thesis using k True by simp
  next
    case False
    then show ?thesis using k i by simp
  qed
  moreover have "((i + 1) mod n + n - 1 - k) mod n = (i + n - k) mod n"
    using k i by (cases "i + 1 = n") (auto simp: mod_if)
  ultimately show ?thesis by simp
qed

text \<open>A line that repeats the last one is not added; otherwise the oldest line is dropped from a full ring.\<close>

definition remembered :: "string \<Rightarrow> string list \<Rightarrow> string list" where
  "remembered l hs = (if hs \<noteq> [] \<and> hd hs = l then hs else take VTY_MAXHIST (l # hs))"

lemma hist_add_ok:
  assumes "hist_ok v hs" "v_length v \<noteq> 0"
  obtains v' where "vty_hist_add v = Some v'" "hist_ok v' (remembered (vty_line v) hs)" "v_hp v' = v_hindex v'"
    "\<exists>hist i. v' = v\<lparr>v_hist := hist, v_hindex := i, v_hp := i\<rparr>"
proof -
  let ?n = VTY_MAXHIST and ?i = "v_hindex v" and ?l = "vty_line v"
  have n: "0 < ?n" "?i < ?n" "length (v_hist v) = ?n" "length hs \<le> ?n"
    using assms(1) unfolding hist_ok_def by (simp_all add: VTY_MAXHIST_def)
  have at: "v_hist v ! ((?i + ?n - 1 - k) mod ?n) = (if k < length hs then Some (hs ! k) else None)" if "k < ?n" for k
    using assms(1) that unfolding hist_ok_def by blast
  have prev: "rd (v_hist v) (if ?i \<noteq> 0 then ?i - 1 else ?n - 1) = Some (if hs \<noteq> [] then Some (hd hs) else None)"
  proof -
    have "(?i + ?n - 1) mod ?n < length (v_hist v)" using n by simp
    moreover have "v_hist v ! ((?i + ?n - 1) mod ?n) = (if hs \<noteq> [] then Some (hd hs) else None)"
      using at [OF n(1)] by (cases hs) auto
    ultimately show ?thesis unfolding ring_pred [OF n(1,2)] by (simp only: rd_Some)
  qed
  show thesis
  proof (cases "hs \<noteq> [] \<and> hd hs = ?l")
    case True
    have "vty_hist_add v = Some (v\<lparr>v_hp := ?i\<rparr>)"
      unfolding vty_hist_add_def Let_def prev using assms(2) True by simp
    moreover have "hist_ok (v\<lparr>v_hp := ?i\<rparr>) (remembered ?l hs)"
      using assms(1) True unfolding hist_ok_def remembered_def by simp
    moreover have "\<exists>hist i. v\<lparr>v_hp := ?i\<rparr> = v\<lparr>v_hist := hist, v_hindex := i, v_hp := i\<rparr>"
      by (rule exI [of _ "v_hist v"], rule exI [of _ ?i]) simp
    moreover have "v_hp (v\<lparr>v_hp := ?i\<rparr>) = v_hindex (v\<lparr>v_hp := ?i\<rparr>)" by simp
    ultimately show thesis using that by blast
  next
    case False
    let ?j = "(?i + 1) mod ?n"
    let ?v = "v\<lparr>v_hist := (v_hist v)[?i := Some ?l], v_hindex := ?j, v_hp := ?j\<rparr>"
    have "vty_hist_add v = Some ?v"
    proof -
      have ne: "(if hs \<noteq> [] then Some (hd hs) else None) \<noteq> Some ?l" using False by auto
      have "wr (v_hist v) ?i (Some ?l) = Some ((v_hist v)[?i := Some ?l])" using n by (simp add: wr_Some)
      then show ?thesis
        unfolding vty_hist_add_def Let_def prev ring_succ [OF n(2)] using assms(2) ne by simp
    qed
    moreover have "hist_ok ?v (remembered ?l hs)"
      unfolding hist_ok_def
    proof (intro conjI allI impI)
      fix k assume k: "k < ?n"
      have len: "k < length (remembered ?l hs) \<longleftrightarrow> k < Suc (length hs)" "remembered ?l hs = take ?n (?l # hs)"
        using False k by (auto simp: remembered_def)
      show "v_hist ?v ! ((v_hindex ?v + ?n - 1 - k) mod ?n) = (if k < length (remembered ?l hs) then Some (remembered ?l hs ! k) else None)"
      proof (cases k)
        case 0
        have "(?j + ?n - 1) mod ?n = ?i" using n(1,2) by (rule ring_back)
        then show ?thesis using 0 len n by simp
      next
        case (Suc m)
        have "(?j + ?n - 1 - k) mod ?n \<noteq> ?i" by (rule ring_other) (use Suc k n in auto)
        moreover have "(?j + ?n - 1 - k) mod ?n = (?i + ?n - 1 - m) mod ?n"
          using ring_step [of m ?n ?i] Suc k n by simp
        ultimately show ?thesis using at [of m] Suc k len by simp
      qed
    qed (use n False in \<open>auto simp: remembered_def\<close>)
    moreover have "v_hp ?v = v_hindex ?v" "\<exists>hist i. ?v = v\<lparr>v_hist := hist, v_hindex := i, v_hp := i\<rparr>" by (simp, blast)
    ultimately show thesis using that by blast
  qed
qed

text \<open>A line that fits the buffer and can be shown.\<close>

definition line_fits :: "string \<Rightarrow> bool" where
  "line_fits l \<longleftrightarrow> list_all printable l \<and> length l < VTY_BUFSIZ"

text \<open>\<open>recalled v hs k\<close>: the history pointer has gone back \<open>k\<close> lines.\<close>

definition recalled :: "vty \<Rightarrow> string list \<Rightarrow> nat \<Rightarrow> bool" where
  "recalled v hs k \<longleftrightarrow> hist_ok v hs \<and> v_hp v = (v_hindex v + VTY_MAXHIST - k) mod VTY_MAXHIST"

lemma only_line_hist:
  assumes "only_line v v'"
  shows "v_hist v' = v_hist v" "v_hindex v' = v_hindex v" "v_hp v' = v_hp v"
  using assms by (auto simp: only_line_def)

lemma hist_ok_cong: "v_hist v' = v_hist v \<Longrightarrow> v_hindex v' = v_hindex v \<Longrightarrow> hist_ok v' hs = hist_ok v hs"
  by (simp add: hist_ok_def)

lemma holds_hp [simp]: "holds (v\<lparr>v_hp := i\<rparr>) z = holds v z"
  by (simp add: holds_def)

lemma history_print_at:
  assumes "holds v z" "hist_ok v hs" "k < length hs" "line_fits (hs ! k)" "i = (v_hindex v + VTY_MAXHIST - Suc k) mod VTY_MAXHIST"
  shows "\<exists>v'. vty_history_print (v\<lparr>v_hp := i\<rparr>) = Some v' \<and> holds v' (hs ! k, []) \<and> recalled v' hs (Suc k)
    \<and> v_hindex v' = v_hindex v"
proof -
  have kn: "k < VTY_MAXHIST" "i < VTY_MAXHIST" "length (v_hist v) = VTY_MAXHIST"
    using assms(2,3,5) by (auto simp: hist_ok_def VTY_MAXHIST_def)
  have "v_hist v ! ((v_hindex v + VTY_MAXHIST - 1 - k) mod VTY_MAXHIST) = Some (hs ! k)"
    using assms(2,3) kn(1) unfolding hist_ok_def by simp
  then have "rd (v_hist (v\<lparr>v_hp := i\<rparr>)) (v_hp (v\<lparr>v_hp := i\<rparr>)) = Some (Some (hs ! k))"
    using kn assms(5) by (simp add: rd_def)
  then obtain v' where v': "vty_history_print (v\<lparr>v_hp := i\<rparr>) = Some v'" "only_line (v\<lparr>v_hp := i\<rparr>) v'" "holds v' (hs ! k, [])"
    using edits_history_print [of "v\<lparr>v_hp := i\<rparr>" z "hs ! k"] assms(1,4) by (auto simp: line_fits_def)
  have "recalled v' hs (Suc k)"
    using only_line_hist [OF v'(2)] assms(2,5) by (simp add: recalled_def hist_ok_cong [of v' v])
  then show ?thesis using v' only_line_hist [OF v'(2)] by auto
qed

lemma previous_ok:
  assumes "recalled v hs k" "holds v z" "k < length hs" "line_fits (hs ! k)"
  shows "\<exists>v'. vty_previous_line v = Some v' \<and> holds v' (hs ! k, []) \<and> recalled v' hs (Suc k) \<and> v_hindex v' = v_hindex v"
proof -
  let ?n = VTY_MAXHIST and ?i = "v_hindex v"
  have h: "hist_ok v hs" "v_hp v = (?i + ?n - k) mod ?n" using assms(1) by (simp_all add: recalled_def)
  have n: "0 < ?n" "?i < ?n" "k < ?n" "length (v_hist v) = ?n"
    using h(1) assms(3) by (auto simp: hist_ok_def VTY_MAXHIST_def)
  let ?t = "(?i + ?n - Suc k) mod ?n"
  have t: "(if v_hp v = 0 then ?n - 1 else v_hp v - 1) = ?t"
  proof -
    have "(if v_hp v = 0 then ?n - 1 else v_hp v - 1) = (v_hp v + ?n - 1) mod ?n"
      using ring_pred [of ?n "v_hp v"] h(2) n(1) by (cases "v_hp v = 0") simp_all
    also have "\<dots> = ?t"
      unfolding h(2) using n by (cases "k \<le> ?i"; cases "k = ?i") (auto simp: mod_if)
    finally show ?thesis .
  qed
  have at: "v_hist v ! ?t = Some (hs ! k)"
    using h(1) assms(3) n(3) unfolding hist_ok_def by simp
  have "vty_previous_line v = vty_history_print (v\<lparr>v_hp := ?t\<rparr>)"
    unfolding vty_previous_line_def Let_def t using at n by (simp add: rd_def)
  then show ?thesis using history_print_at [OF assms(2) h(1) assms(3,4) refl] by simp
qed

lemma next_ok:
  assumes "recalled v hs (Suc (Suc k))" "holds v z" "Suc k < length hs" "Suc (Suc k) < VTY_MAXHIST" "line_fits (hs ! k)"
  shows "\<exists>v'. vty_next_line v = Some v' \<and> holds v' (hs ! k, []) \<and> recalled v' hs (Suc k) \<and> v_hindex v' = v_hindex v"
proof -
  let ?n = VTY_MAXHIST and ?i = "v_hindex v"
  have h: "hist_ok v hs" "v_hp v = (?i + ?n - Suc (Suc k)) mod ?n" using assms(1) by (simp_all add: recalled_def)
  have n: "0 < ?n" "?i < ?n" "length (v_hist v) = ?n"
    using h(1) by (auto simp: hist_ok_def VTY_MAXHIST_def)
  let ?t = "(?i + ?n - Suc k) mod ?n"
  have ne: "v_hp v \<noteq> ?i" and t: "(if v_hp v = ?n - 1 then 0 else v_hp v + 1) = ?t"
    unfolding h(2) using n assms(4) by (cases "Suc (Suc k) \<le> ?i"; auto simp: mod_if)+
  have at: "v_hist v ! ?t = Some (hs ! k)"
    using h(1) assms(3,4) unfolding hist_ok_def by simp
  have "vty_next_line v = vty_history_print (v\<lparr>v_hp := ?t\<rparr>)"
    unfolding vty_next_line_def Let_def t using at n ne by (simp add: rd_def)
  then show ?thesis using history_print_at [OF assms(2) h(1) _ assms(5) refl] assms(3) by simp
qed

lemma previous_repeat:
  assumes "recalled v hs k" "holds v z" "k + m < length hs" "\<forall>l\<in>set hs. line_fits l"
  shows "\<exists>v'. repeat_opt (Suc m) vty_previous_line v = Some v' \<and> holds v' (hs ! (k + m), []) \<and> recalled v' hs (Suc (k + m))"
  using assms
proof (induction m arbitrary: v z k)
  case 0
  then show ?case using previous_ok [of v hs k z] by auto
next
  case (Suc m)
  obtain v1 where v1: "vty_previous_line v = Some v1" "holds v1 (hs ! k, [])" "recalled v1 hs (Suc k)"
    using previous_ok [of v hs k z] Suc.prems by auto
  show ?case using Suc.IH [OF v1(3,2)] Suc.prems(3,4) v1(1) by simp
qed

lemma next_repeat:
  assumes "recalled v hs (Suc k)" "holds v (hs ! k, [])" "k < length hs" "Suc k < VTY_MAXHIST" "\<forall>l\<in>set hs. line_fits l" "j \<le> k"
  shows "\<exists>v'. repeat_opt j vty_next_line v = Some v' \<and> holds v' (hs ! (k - j), [])"
  using assms
proof (induction j arbitrary: v k)
  case (Suc j)
  then obtain k' where k: "k = Suc k'" by (cases k) auto
  obtain v1 where v1: "vty_next_line v = Some v1" "holds v1 (hs ! k', [])" "recalled v1 hs (Suc k')"
    using next_ok [of v hs k' "(hs ! k, [])"] Suc.prems k by auto
  show ?case using Suc.IH [OF v1(3,2)] Suc.prems k v1(1) by simp
qed simp

end
