(* ===== verification/Vty_Login.thy ===== *)
theory Vty_Login
  imports Vty_Session
begin

text \<open>
  A session leaves the password prompt only when the password is entered: no other key or sequence of bytes
  moves it to another node.
\<close>

section \<open>Operations at the prompt\<close>

text \<open>A terminal session at the password prompt.\<close>

definition at_login :: "vty \<Rightarrow> bool" where
  "at_login v \<longleftrightarrow> v_node v = AUTH_NODE \<and> v_type v = VTY_TERM \<and> \<not> v_config v"

lemma at_login_output: "only_output v v' \<Longrightarrow> at_login v' = at_login v"
  by (simp add: at_login_def only_output_simps)

text \<open>Operations after which a session at the prompt is still there.\<close>

definition stays :: "(vty \<Rightarrow> vty option) \<Rightarrow> bool" where
  "stays op \<longleftrightarrow> (\<forall>v v'. at_login v \<longrightarrow> op v = Some v' \<longrightarrow> at_login v')"

lemma staysI: "(\<And>v v'. at_login v \<Longrightarrow> op v = Some v' \<Longrightarrow> at_login v') \<Longrightarrow> stays op"
  by (simp add: stays_def)

lemma staysD: "stays op \<Longrightarrow> at_login v \<Longrightarrow> op v = Some v' \<Longrightarrow> at_login v'"
  by (simp add: stays_def)

lemma at_login_upd [simp]:
  "at_login (v\<lparr>v_buf := b\<rparr>) = at_login v" "at_login (v\<lparr>v_cp := n\<rparr>) = at_login v" "at_login (v\<lparr>v_length := n\<rparr>) = at_login v"
  "at_login (v\<lparr>v_hp := n\<rparr>) = at_login v" "at_login (v\<lparr>v_escape := e\<rparr>) = at_login v" "at_login (v\<lparr>v_fail := i\<rparr>) = at_login v"
  "at_login (v\<lparr>v_status := t\<rparr>) = at_login v" "at_login (v\<lparr>v_iac := q\<rparr>) = at_login v" "at_login (v\<lparr>v_obuf := ob\<rparr>) = at_login v"
  "at_login (v\<lparr>v_lbuf := ob\<rparr>) = at_login v" "at_login (v\<lparr>v_hist := hi\<rparr>) = at_login v" "at_login (v\<lparr>v_hindex := n\<rparr>) = at_login v"
  by (simp_all add: at_login_def)

lemma stays_frame: "(\<And>v v'. op v = Some v' \<Longrightarrow> only_output v v') \<Longrightarrow> stays op"
  using at_login_output unfolding stays_def by blast

lemma stays_output:
  "stays (vty_write t)" "stays (vty_out t)" "stays (vty_prompt c h)"
  by (rule stays_frame, erule vty_write_frame vty_out_frame vty_prompt_frame)+

lemma stays_seq: "stays f \<Longrightarrow> stays g \<Longrightarrow> stays (\<lambda>v. do { v1 \<leftarrow> f v; g v1 })"
  unfolding stays_def bind_Some_iff by blast

lemma stays_repeat: "stays f \<Longrightarrow> stays (repeat_opt n f)"
proof (induction n)
  case 0
  show ?case by (rule staysI) simp
next
  case (Suc n)
  then show ?case unfolding stays_def repeat_opt.simps bind_Some_iff by blast
qed

lemma stays_while: "stays f \<Longrightarrow> stays (while_opt n cond f)"
proof (induction n)
  case 0
  show ?case by (rule staysI) (auto simp: bind_Some_iff split: if_splits)
next
  case (Suc n)
  show ?case
  proof (rule staysI)
    fix v v' assume v: "at_login v" "while_opt (Suc n) cond f v = Some v'"
    then obtain b where b: "cond v = Some b" by (auto simp: bind_Some_iff)
    show "at_login v'"
    proof (cases b)
      case True
      then obtain v1 where "f v = Some v1" "while_opt n cond f v1 = Some v'"
        using v(2) b by (auto simp: bind_Some_iff)
      then show ?thesis using staysD [OF Suc.prems v(1)] staysD [OF Suc.IH [OF Suc.prems]] by blast
    qed (use v b in simp)
  qed
qed

lemma stays_insert: "stays (vty_self_insert ch)"
proof (rule staysI)
  fix v v' assume v: "at_login v" "vty_self_insert ch v = Some v'"
  show "at_login v'"
  proof (cases "v_length v + 1 \<ge> VTY_BUFSIZ")
    case False
    then obtain t b2 v1 v2 b3 where w: "vty_write t (v\<lparr>v_buf := b2\<rparr>) = Some v1"
        "repeat_opt (v_length v - v_cp v) (vty_write [telnet_backward_char]) v1 = Some v2"
        "v' = v2\<lparr>v_cp := v_cp v2 + 1, v_length := v_length v2 + 1, v_buf := b3\<rparr>"
      using v(2) unfolding vty_self_insert_def Let_def by (auto simp: bind_Some_iff)
    have "at_login v1" by (rule staysD [OF stays_output(1) _ w(1)]) (use v in simp)
    then have "at_login v2" by (rule staysD [OF stays_repeat [OF stays_output(1)] _ w(2)])
    then show ?thesis by (simp add: w(3))
  qed (use v in \<open>simp add: vty_self_insert_def\<close>)
qed

lemma stays_forward: "stays vty_forward_char"
  by (rule staysI) (auto simp: vty_forward_char_def bind_Some_iff split: if_splits dest: staysD [OF stays_output(1)])

lemma stays_backward: "stays vty_backward_char"
proof (rule staysI)
  fix v v' assume v: "at_login v" "vty_backward_char v = Some v'"
  show "at_login v'"
  proof (cases "v_cp v > 0")
    case True
    then have "vty_write [telnet_backward_char] (v\<lparr>v_cp := v_cp v - 1\<rparr>) = Some v'" using v(2) by (simp add: vty_backward_char_def)
    then show ?thesis by (rule staysD [OF stays_output(1), rotated]) (use v in simp)
  qed (use v in \<open>simp add: vty_backward_char_def\<close>)
qed

lemma stays_overwrite: "stays (vty_self_insert_overwrite ch)"
proof (rule staysI)
  fix v v' assume v: "at_login v" "vty_self_insert_overwrite ch v = Some v'"
  show "at_login v'"
  proof (cases "v_cp v = v_length v")
    case True
    then show ?thesis using v staysD [OF stays_insert] by (auto simp: vty_self_insert_overwrite_def)
  next
    case False
    then obtain b where "vty_write [ch] (v\<lparr>v_buf := b, v_cp := v_cp v + 1\<rparr>) = Some v'"
      using v(2) by (auto simp: vty_self_insert_overwrite_def bind_Some_iff)
    then show ?thesis by (rule staysD [OF stays_output(1), rotated]) (use v in simp)
  qed
qed

lemma stays_moves:
  "stays vty_beginning_of_line" "stays vty_end_of_line" "stays vty_forward_word" "stays vty_backward_word"
  unfolding vty_beginning_of_line_def [abs_def] vty_end_of_line_def [abs_def] vty_forward_word_def [abs_def]
    vty_backward_word_def [abs_def]
  by (intro stays_seq stays_while stays_forward stays_backward)+

text \<open>At the prompt, a deletion on the empty line would leave it for a node that does not exist.\<close>

lemma login_down_level:
  assumes "at_login v" "node_parent c AUTH_NODE = Some (-1)"
  shows "vty_down_level c h v = None"
proof -
  have "vty_prompt c h v2 = None" if "vty_out t v = Some v1" "cmd_exit c v1 = Some v2" for t v1 v2
  proof -
    have "at_login v1" using staysD [OF stays_output(2) assms(1) that(1)] .
    then have "v_node v2 = -1" "v_type v2 = VTY_TERM"
      using that(2) assms(2) by (auto simp: cmd_exit_def at_login_def node_defs bind_Some_iff)
    then show ?thesis by (simp add: vty_prompt_def cmd_prompt_def cmd_node_def rd_int_def)
  qed
  then show ?thesis unfolding vty_down_level_def by (auto split: Option.bind_splits)
qed

lemma stays_delete:
  assumes "node_parent c AUTH_NODE = Some (-1)"
  shows "stays (vty_delete_char c h)"
proof (rule staysI)
  fix v v' assume v: "at_login v" "vty_delete_char c h v = Some v'"
  have ne: "v_length v \<noteq> 0" using v(2) login_down_level [OF v(1) assms, of h] unfolding vty_delete_char_def by (metis option.distinct(1))
  have auth: "v_node v = AUTH_NODE" using v(1) by (simp add: at_login_def)
  show "at_login v'"
  proof (cases "v_cp v = v_length v")
    case False
    then obtain b where "v' = v\<lparr>v_length := v_length v - 1, v_buf := b\<rparr>"
      using v(2) ne auth unfolding vty_delete_char_def Let_def by (auto simp: bind_Some_iff)
    then show ?thesis using v(1) by simp
  qed (use v ne in \<open>simp add: vty_delete_char_def\<close>)
qed

lemma stays_rubout:
  assumes "node_parent c AUTH_NODE = Some (-1)"
  shows "stays (vty_delete_backward_char c h)"
proof (rule staysI)
  fix v v' assume v: "at_login v" "vty_delete_backward_char c h v = Some v'"
  show "at_login v'"
  proof (cases "v_cp v = 0")
    case False
    then have "(do { v1 \<leftarrow> vty_backward_char v; vty_delete_char c h v1 }) = Some v'"
      using v(2) by (simp add: vty_delete_backward_char_def)
    then show ?thesis by (rule staysD [OF stays_seq [OF stays_backward stays_delete [OF assms]] v(1)])
  qed (use v in \<open>simp add: vty_delete_backward_char_def\<close>)
qed

lemma stays_kill_words:
  assumes "node_parent c AUTH_NODE = Some (-1)"
  shows "stays (vty_forward_kill_word c h)" "stays (vty_backward_kill_word c h)"
  unfolding vty_forward_kill_word_def [abs_def] vty_backward_kill_word_def [abs_def]
  by (intro stays_seq stays_while stays_delete [OF assms] stays_rubout [OF assms])+

lemma stays_kill_line: "stays vty_kill_line"
proof (rule staysI)
  fix v v' assume v: "at_login v" "vty_kill_line v = Some v'"
  let ?sz = "v_length v - v_cp v"
  show "at_login v'"
  proof (cases "?sz = 0")
    case False
    then obtain v1 v2 b where w: "repeat_opt ?sz (vty_write [telnet_space_char]) v = Some v1"
        "repeat_opt ?sz (vty_write [telnet_backward_char]) v1 = Some v2" "v' = v2\<lparr>v_buf := b, v_length := v_cp v2\<rparr>"
      using v(2) unfolding vty_kill_line_def Let_def by (auto simp: bind_Some_iff)
    have "at_login v1" by (rule staysD [OF stays_repeat [OF stays_output(1)] v(1) w(1)])
    then have "at_login v2" by (rule staysD [OF stays_repeat [OF stays_output(1)] _ w(2)])
    then show ?thesis by (simp add: w(3))
  qed (use v in \<open>auto simp: vty_kill_line_def bind_Some_iff Let_def\<close>)
qed

lemma stays_kill_from_beginning: "stays vty_kill_line_from_beginning"
  unfolding vty_kill_line_from_beginning_def [abs_def] by (intro stays_seq stays_moves stays_kill_line)

lemma stays_transpose: "stays vty_transpose_chars"
proof (rule staysI)
  note two = stays_seq [OF stays_overwrite stays_overwrite]
  note three = stays_seq [OF stays_backward two]
  fix v v' assume v: "at_login v" "vty_transpose_chars v = Some v'"
  show "at_login v'"
  proof (cases "v_length v < 2 \<or> v_cp v < 1")
    case True
    then show ?thesis using v by (simp add: vty_transpose_chars_def)
  next
    case long: False
    show ?thesis
    proof (cases "v_cp v = v_length v")
      case True
      obtain c1 where c1: "rd (v_buf v) (v_cp v - 1) = Some c1"
        using v(2) long True by (cases "rd (v_buf v) (v_cp v - 1)") (simp_all add: vty_transpose_chars_def)
      obtain c2 where c2: "rd (v_buf v) (v_cp v - 2) = Some c2"
        using v(2) long True c1 by (cases "rd (v_buf v) (v_cp v - 2)") (simp_all add: vty_transpose_chars_def)
      have "(do { v0 \<leftarrow> vty_backward_char v; do { v1 \<leftarrow> vty_backward_char v0;
          do { v2 \<leftarrow> vty_self_insert_overwrite c1 v1; vty_self_insert_overwrite c2 v2 } } }) = Some v'"
        using v(2) long True c1 c2 by (simp add: vty_transpose_chars_def)
      then show ?thesis by (rule staysD [OF stays_seq [OF stays_backward three] v(1)])
    next
      case False
      obtain c1 where c1: "rd (v_buf v) (v_cp v) = Some c1"
        using v(2) long False by (cases "rd (v_buf v) (v_cp v)") (simp_all add: vty_transpose_chars_def)
      obtain c2 where c2: "rd (v_buf v) (v_cp v - 1) = Some c2"
        using v(2) long False c1 by (cases "rd (v_buf v) (v_cp v - 1)") (simp_all add: vty_transpose_chars_def)
      have "(do { v1 \<leftarrow> vty_backward_char v; do { v2 \<leftarrow> vty_self_insert_overwrite c1 v1; vty_self_insert_overwrite c2 v2 } }) = Some v'"
        using v(2) long False c1 c2 by (simp add: vty_transpose_chars_def)
      then show ?thesis by (rule staysD [OF three v(1)])
    qed
  qed
qed

lemma stays_redraw: "stays vty_redraw_line"
proof (rule staysI)
  fix v v' assume v: "at_login v" "vty_redraw_line v = Some v'"
  then obtain t v1 where w: "vty_write t v = Some v1" "v' = v1\<lparr>v_cp := v_length v1\<rparr>"
    unfolding vty_redraw_line_def by (auto simp: bind_Some_iff)
  then show "at_login v'" using staysD [OF stays_output(1) v(1)] by simp
qed

lemma stays_history_print: "stays vty_history_print"
proof (rule staysI)
  fix v v' assume v: "at_login v" "vty_history_print v = Some v'"
  then obtain v1 n b where w: "vty_kill_line_from_beginning v = Some v1"
    "vty_redraw_line (v1\<lparr>v_cp := n, v_length := n, v_buf := b\<rparr>) = Some v'"
    unfolding vty_history_print_def by (auto simp: bind_Some_iff)
  have "at_login v1" by (rule staysD [OF stays_kill_from_beginning v(1) w(1)])
  then show "at_login v'" by (intro staysD [OF stays_redraw _ w(2)]) simp
qed

lemma stays_lines: "stays vty_next_line" "stays vty_previous_line"
proof -
  have 1: "at_login v'" if "at_login v" "v' = v \<or> (\<exists>i. vty_history_print (v\<lparr>v_hp := i\<rparr>) = Some v')" for v v'
    using that staysD [OF stays_history_print, of "v\<lparr>v_hp := i\<rparr>" v' for i] by auto
  show "stays vty_next_line"
    by (rule staysI, rule 1) (auto simp: vty_next_line_def Let_def bind_Some_iff split: if_splits)
  show "stays vty_previous_line"
    by (rule staysI, rule 1) (auto simp: vty_previous_line_def Let_def bind_Some_iff split: if_splits)
qed

lemma leave_config_login: "at_login v \<Longrightarrow> leave_config v = v"
  by (simp add: leave_config_def at_login_def)

lemma stays_end_config: "stays (vty_end_config c h)"
proof (rule staysI)
  fix v v' assume v: "at_login v" "vty_end_config c h v = Some v'"
  then obtain t v1 v2 where w: "vty_out t v = Some v1" "vty_prompt c h (leave_config v1) = Some v2" "v' = v2\<lparr>v_cp := 0\<rparr>"
    unfolding vty_end_config_def bind_Some_iff by blast
  have "at_login v1" by (rule staysD [OF stays_output(2) v(1) w(1)])
  then show "at_login v'" using staysD [OF stays_output(3)] w(2,3) leave_config_login by simp
qed

lemma stays_stop_input: "stays (vty_stop_input c h)"
proof (rule staysI)
  fix v v' assume v: "at_login v" "vty_stop_input c h v = Some v'"
  then obtain t v1 v2 where w: "vty_out t (vty_clear_buf (v\<lparr>v_cp := 0, v_length := 0\<rparr>)) = Some v1"
      "vty_prompt c h (leave_config v1) = Some v2" "v' = v2\<lparr>v_hp := v_hindex v2\<rparr>"
    unfolding vty_stop_input_def bind_Some_iff by blast
  have "at_login (vty_clear_buf (v\<lparr>v_cp := 0, v_length := 0\<rparr>))" using v(1) by (simp add: vty_clear_buf_def)
  from staysD [OF stays_output(2) this w(1)]
  show "at_login v'" using staysD [OF stays_output(3)] w(2,3) leave_config_login by simp
qed

section \<open>Keys at the prompt\<close>

lemma stays_Some: "stays Some"
  by (rule staysI) simp

lemma stays_if: "stays f \<Longrightarrow> stays g \<Longrightarrow> stays (\<lambda>v. if b then f v else g v)"
  by (cases b) simp_all

lemma stays_unescape: "stays f \<Longrightarrow> stays (\<lambda>v. do { v1 \<leftarrow> f v; Some (v1\<lparr>v_escape := e\<rparr>) })"
  by (rule stays_seq) (assumption, rule staysI, auto)

lemma stays_complete: "stays (vty_complete_command E vh h)"
  by (rule staysI) (simp add: vty_complete_command_def at_login_def)

lemma stays_question:
  "stays (\<lambda>v. if v_node v = AUTH_NODE \<or> v_node v = AUTH_ENABLE_NODE then vty_self_insert ch v else f v)"
proof (rule staysI)
  fix v v' assume v: "at_login v" "(if v_node v = AUTH_NODE \<or> v_node v = AUTH_ENABLE_NODE then vty_self_insert ch v else f v) = Some v'"
  then have "vty_self_insert ch v = Some v'" by (simp add: at_login_def)
  then show "at_login v'" by (rule staysD [OF stays_insert v(1)])
qed

lemmas stays_ops = stays_if stays_Some stays_complete stays_question stays_insert stays_moves stays_backward stays_forward
  stays_kill_line stays_kill_from_beginning stays_transpose stays_lines stays_end_config stays_stop_input

lemma stays_edit_key:
  assumes "node_parent (r_cmds R) AUTH_NODE = Some (-1)"
  shows "stays (vty_edit_key R h b)"
  unfolding vty_edit_key_def [abs_def]
  by (intro stays_ops stays_delete [OF assms] stays_rubout [OF assms] stays_kill_words [OF assms])

lemma stays_pre_escape:
  assumes "node_parent (r_cmds R) AUTH_NODE = Some (-1)"
  shows "stays (vty_pre_escape R h b)"
proof -
  have "stays (\<lambda>v. Some (v\<lparr>v_escape := VTY_ESCAPE\<rparr>))" by (rule staysI) auto
  then show ?thesis
    unfolding vty_pre_escape_def [abs_def] by (intro stays_unescape stays_ops stays_kill_words [OF assms])
qed

lemma stays_escape_map: "stays (vty_escape_map b)"
  unfolding vty_escape_map_def [abs_def] by (intro stays_unescape stays_ops)

lemma stays_buffer_reset: "stays (vty_buffer_reset R h)"
proof (rule staysI)
  fix v v' assume v: "at_login v" "vty_buffer_reset R h v = Some v'"
  have "stays (redraw_prompt (r_exec R) h)"
    unfolding redraw_prompt_def [abs_def] by (intro stays_seq stays_output stays_redraw)
  from staysD [OF this _ v(2) [unfolded vty_buffer_reset_def]] v(1) show "at_login v'" by simp
qed

section \<open>Runs\<close>

text \<open>The rounds of the loop of \<open>vty_read\<close>: the bytes left and the state.\<close>

inductive vty_steps :: "('e, 'w) vty_env \<Rightarrow> u8 list \<Rightarrow> 'w sys \<Rightarrow> u8 list \<Rightarrow> 'w sys \<Rightarrow> bool" for R where
  vty_steps_refl: "vty_steps R bs s bs s"
| vty_steps_step: "vty_byte R b bs s = Some (n, s1) \<Longrightarrow> vty_steps R (drop n bs) s1 bs' s' \<Longrightarrow> vty_steps R (b # bs) s bs' s'"

lemma with_vty_stays:
  assumes "stays f" "at_login (s_vty s)" "with_vty f s = Some s'"
  shows "at_login (s_vty s')" "s_host s' = s_host s"
proof -
  obtain v where "f (s_vty s) = Some v" "s' = s\<lparr>s_vty := v\<rparr>"
    using assms(3) unfolding with_vty_def bind_Some_iff by blast
  then show "at_login (s_vty s')" "s_host s' = s_host s" using staysD [OF assms(1,2)] by simp_all
qed

text \<open>A line that is not the password leaves the session at the prompt.\<close>

lemma stays_auth:
  assumes "at_login v" "vty_auth crypt h l v = Some v'" "\<not> auth_ok crypt h AUTH_NODE l"
  shows "at_login v'"
proof -
  have n: "v_node v = AUTH_NODE" using assms(1) by (simp add: at_login_def)
  have "at_login v'" if "vty_out t (v\<lparr>v_fail := i\<rparr>) = Some v2" "v' = v2\<lparr>v_status := VTY_CLOSE\<rparr>" for t i v2
    using staysD [OF stays_output(2) _ that(1)] that(2) assms(1) by simp
  then show ?thesis
    using assms n unfolding vty_auth_def Let_def bind_Some_iff by (auto split: if_splits simp: bind_Some_iff)
qed

lemma execute_login:
  assumes "at_login (s_vty s)" "vty_execute R s = Some (ret, s')"
    "\<not> auth_ok (r_crypt R) (s_host s) AUTH_NODE (vty_line (s_vty s))"
  shows "at_login (s_vty s') \<and> s_host s' = s_host s"
proof -
  have n: "s_node s = AUTH_NODE" using assms(1) by (simp add: at_login_def)
  obtain s1 where s1: "with_vty (vty_auth (r_crypt R) (s_host s) (vty_line (s_vty s))) s = Some s1"
    using assms(2) n unfolding vty_execute_def by (cases "with_vty (vty_auth (r_crypt R) (s_host s) (vty_line (s_vty s))) s") simp_all
  then obtain v1 where v1: "vty_auth (r_crypt R) (s_host s) (vty_line (s_vty s)) (s_vty s) = Some v1" "s1 = s\<lparr>s_vty := v1\<rparr>"
    unfolding with_vty_def bind_Some_iff by blast
  let ?s2 = "s1\<lparr>s_vty := vty_clear_buf ((s_vty s1)\<lparr>v_cp := 0, v_length := 0\<rparr>)\<rparr>"
  have l: "at_login (s_vty ?s2)" "s_host ?s2 = s_host s"
    using stays_auth [OF assms(1) v1(1) assms(3)] v1(2) by (simp_all add: vty_clear_buf_def)
  have "s' = ?s2 \<or> with_vty (vty_prompt (r_cmds R) (s_host ?s2)) ?s2 = Some s'"
    using assms(2) n s1 unfolding vty_execute_def by (simp add: bind_Some_iff Let_def split: if_splits)
  then show ?thesis
  proof
    assume p: "with_vty (vty_prompt (r_cmds R) (s_host ?s2)) ?s2 = Some s'"
    show ?thesis using with_vty_stays [OF stays_output(3) l(1) p] l(2) by simp
  qed (use l in simp)
qed

lemma key_login:
  assumes "at_login (s_vty s)" "node_parent (r_cmds R) AUTH_NODE = Some (-1)" "vty_key R b s = Some s'"
  shows "at_login (s_vty s') \<and> s_host s' = s_host s
    \<or> (b = 10 \<or> b = 13) \<and> auth_ok (r_crypt R) (s_host s) AUTH_NODE (vty_line (s_vty s))"
proof (cases "b = 10 \<or> b = 13")
  case True
  then obtain s1 ret where s1: "say nl s = Some s1" "vty_execute R s1 = Some (ret, s')"
    using assms(3) unfolding vty_key_def by (auto simp: bind_Some_iff)
  then obtain v1 where v1: "vty_out nl (s_vty s) = Some v1" "s1 = s\<lparr>s_vty := v1\<rparr>"
    unfolding say_def with_vty_def bind_Some_iff by blast
  have "vty_line (s_vty s1) = vty_line (s_vty s)" "s_host s1 = s_host s"
    using v1(2) only_output_simps(4) [OF vty_out_frame [OF v1(1)]] by (simp_all add: vty_line_def)
  moreover have "at_login (s_vty s1)" using v1(2) staysD [OF stays_output(2) assms(1) v1(1)] by simp
  ultimately show ?thesis using execute_login [OF _ s1(2)] True by auto
next
  case False
  then have "with_vty (vty_edit_key R (s_host s) b) s = Some s'" using assms(3) by (simp add: vty_key_def)
  from with_vty_stays [OF stays_edit_key [OF assms(2)] assms(1) this] show ?thesis by simp
qed

lemma at_login_telnet: "at_login (snd (vty_telnet_option b v)) = at_login v"
  by (simp add: vty_telnet_option_def at_login_def)

lemma byte_login:
  assumes "at_login (s_vty s)" "node_parent (r_cmds R) AUTH_NODE = Some (-1)" "vty_byte R b rest s = Some (n, s')"
  shows "at_login (s_vty s') \<and> s_host s' = s_host s
    \<or> (b = 10 \<or> b = 13) \<and> auth_ok (r_crypt R) (s_host s) AUTH_NODE (vty_line (s_vty s))"
proof -
  define v where "v = (if b = IAC then (s_vty s)\<lparr>v_iac := False\<rparr> else s_vty s)"
  define t where "t = s\<lparr>s_vty := v\<rparr>"
  have v: "at_login v" "s_vty t = v" "s_host t = s_host s" "vty_line v = vty_line (s_vty s)"
    using assms(1) by (simp_all add: v_def t_def vty_line_def)
  consider (first) "s' = s\<lparr>s_vty := (s_vty s)\<lparr>v_iac := True\<rparr>\<rparr>" | (sb) "s' = t\<lparr>s_vty := sb_store b v\<rparr>"
    | (opt) "s' = t\<lparr>s_vty := (snd (vty_telnet_option b v))\<lparr>v_iac := False\<rparr>\<rparr>" | (same) "s' = t"
    | (reset) "with_vty (vty_buffer_reset R (s_host t)) t = Some s'" | (map) "with_vty (vty_escape_map b) t = Some s'"
    | (pre) "with_vty (vty_pre_escape R (s_host t) b) t = Some s'" | (esc) e where "s' = t\<lparr>s_vty := v\<lparr>v_escape := e\<rparr>\<rparr>"
    | (key) "vty_key R b t = Some s'"
    using assms(3) unfolding vty_byte_def Let_def v_def [symmetric] t_def [symmetric]
    by (auto split: if_splits prod.splits)
  then show ?thesis
  proof cases
    case key
    then show ?thesis using key_login [of t R b s'] v assms(2) by simp
  next
    case reset
    from with_vty_stays [OF stays_buffer_reset _ this] show ?thesis using v by simp
  next
    case map
    from with_vty_stays [OF stays_escape_map _ this] show ?thesis using v by simp
  next
    case pre
    from with_vty_stays [OF stays_pre_escape [OF assms(2)] _ this] show ?thesis using v by simp
  next
    case sb
    then show ?thesis using v by (simp add: sb_store_def at_login_def)
  qed (use v assms(1) at_login_telnet in simp_all)
qed

lemma bytes_login:
  assumes "vty_bytes R bs s = Some s'" "at_login (s_vty s)" "node_parent (r_cmds R) AUTH_NODE = Some (-1)" "s_node s' \<noteq> AUTH_NODE"
  shows "\<exists>b bs' t. vty_steps R bs s (b # bs') t \<and> (b = 10 \<or> b = 13) \<and> s_node t = AUTH_NODE \<and> s_host t = s_host s
    \<and> auth_ok (r_crypt R) (s_host s) AUTH_NODE (vty_line (s_vty t))"
  using assms
proof (induction R bs s rule: vty_bytes.induct)
  case (1 R s)
  then show ?case by (simp add: at_login_def)
next
  case (2 R b bs s)
  obtain n s1 where s1: "vty_byte R b bs s = Some (n, s1)" "vty_bytes R (drop n bs) s1 = Some s'"
    using "2.prems"(1) by (auto split: option.splits)
  show ?case
  proof (cases "at_login (s_vty s1) \<and> s_host s1 = s_host s")
    case True
    obtain b' bs' t where "vty_steps R (drop n bs) s1 (b' # bs') t" "b' = 10 \<or> b' = 13" "s_node t = AUTH_NODE"
      "s_host t = s_host s1" "auth_ok (r_crypt R) (s_host s1) AUTH_NODE (vty_line (s_vty t))"
      using "2.IH" [OF s1(1) refl s1(2)] True "2.prems"(3,4) by blast
    then show ?thesis using vty_steps_step [OF s1(1)] True by metis
  next
    case False
    then have "b = 10 \<or> b = 13" "auth_ok (r_crypt R) (s_host s) AUTH_NODE (vty_line (s_vty s))"
      using byte_login [OF "2.prems"(2,3) s1(1)] by auto
    then show ?thesis
      using vty_steps_refl "2.prems"(2) unfolding at_login_def by metis
  qed
qed

end
