(* ===== verification/Vty_Props.thy ===== *)
theory Vty_Props
  imports Vty_Login
begin

text \<open>
  The properties of terminal sessions: the line editor, the telnet window size, the history, and the login.
\<close>

section \<open>Printing\<close>

text \<open>Output goes to the terminal, without a filter and without a pending frame.\<close>

definition quiet :: "vty \<Rightarrow> bool" where
  "quiet v \<longleftrightarrow> v_type v = VTY_TERM \<and> v_filter v = None \<and> v_frame_pos v = 0 \<and> buf_ok (v_obuf v)"

lemma vty_out_quiet:
  assumes "quiet v"
  obtains ob where "vty_out p v = Some (v\<lparr>v_obuf := ob\<rparr>)" "quiet (v\<lparr>v_obuf := ob\<rparr>)"
    "contents ob = contents (v_obuf v) @ crlf (bytes p)"
proof -
  have "buf_ok (v_obuf v)" using assms by (simp add: quiet_def)
  then obtain ob where "buffer_put_crlf (v_obuf v) (bytes p) = Some ob" "buf_ok ob" "contents ob = contents (v_obuf v) @ crlf (bytes p)"
    using buffer_put_crlf_ok by blast
  then show thesis
    using that [of ob] assms by (simp add: quiet_def vty_out_def vty_out_str_def out_text_def)
qed

text \<open>The prompts of the nodes a login can lead to.\<close>

definition prompts_ok :: "'e cmds \<Rightarrow> bool" where
  "prompts_ok c \<longleftrightarrow> list_all (\<lambda>n. case cmd_prompt c n of None \<Rightarrow> False | Some p \<Rightarrow> format_s p [[]] \<noteq> None)
     [AUTH_NODE, VIEW_NODE, ENABLE_NODE]"

lemma format_s_any: "format_s f args = Some t \<Longrightarrow> length args = length args' \<Longrightarrow> \<exists>t'. format_s f args' = Some t'"
proof (induction f args arbitrary: args' t rule: format_s.induct)
  case (2 ch f args)
  show ?case
  proof (cases "ch = CHR 0x25")
    case False
    then obtain t1 where "format_s f args = Some t1" using "2.prems"(1) by auto
    then show ?thesis using "2.IH"(1) [OF False] "2.prems"(2) False by fastforce
  next
    case pc: True
    then have npc: "\<not> ch \<noteq> CHR 0x25" by simp
    obtain d f' where f: "f = d # f'" using "2.prems"(1) pc by (cases f) auto
    show ?thesis
    proof (cases "d = CHR 0x25")
      case True
      then obtain t1 where "format_s f' args = Some t1" using "2.prems"(1) pc f by auto
      then show ?thesis using "2.IH"(2) [OF npc f True] "2.prems"(2) pc f True by fastforce
    next
      case False
      then have "d = CHR ''s''" using "2.prems"(1) pc f by (cases "d = CHR ''s''") auto
      then obtain a as t1 where as: "args = a # as" "format_s f' as = Some t1"
        using "2.prems"(1) pc f False by (cases args) auto
      obtain a' as' where as': "args' = a' # as'" using as "2.prems"(2) by (cases args') auto
      show ?thesis
        using "2.IH"(3) [OF npc f False \<open>d = CHR ''s''\<close> as(1,2), of as'] "2.prems"(2) as as' pc f \<open>d = CHR ''s''\<close> by auto
    qed
  qed
qed simp

lemma vty_prompt_quiet:
  assumes "quiet v" "prompts_ok c" "v_node v \<in> {AUTH_NODE, VIEW_NODE, ENABLE_NODE}"
  obtains ob where "vty_prompt c h v = Some (v\<lparr>v_obuf := ob\<rparr>)" "quiet (v\<lparr>v_obuf := ob\<rparr>)"
proof -
  obtain p where p: "cmd_prompt c (v_node v) = Some p" "format_s p [[]] \<noteq> None"
    using assms(2,3) by (auto simp: prompts_ok_def split: option.splits)
  then obtain t where t: "format_s p [case h_name h of None \<Rightarrow> ''(null)'' | Some n \<Rightarrow> n] = Some t"
    using format_s_any [of p "[[]]"] by fastforce
  obtain ob where "vty_out t v = Some (v\<lparr>v_obuf := ob\<rparr>)" "quiet (v\<lparr>v_obuf := ob\<rparr>)"
    using vty_out_quiet [OF assms(1)] by metis
  then show thesis
    using that p(1) t assms(1) by (simp add: vty_prompt_def quiet_def)
qed

lemma vty_line_holds: "holds v (b, a) \<Longrightarrow> vty_line v = b @ a"
proof -
  assume "holds v (b, a)"
  then obtain r where r: "v_buf v = (b @ a) @ NUL # r" "NUL \<notin> set (b @ a)"
    using printable_no_NUL by (auto simp: holds_def)
  have "takeWhile (\<lambda>ch. ch \<noteq> NUL) (l @ NUL # r) = l" if "NUL \<notin> set l" for l
    using that by (induction l) auto
  from this [OF r(2)] r(1) show ?thesis by (simp add: vty_line_def)
qed

section \<open>A login attempt\<close>

text \<open>The session after a line is entered at the password prompt.\<close>

definition login_result :: "(string \<Rightarrow> string \<Rightarrow> string) \<Rightarrow> host \<Rightarrow> string \<Rightarrow> vty \<Rightarrow> vty \<Rightarrow> bool" where
  "login_result crypt h l v v' \<longleftrightarrow>
     holds v' ([], []) \<and> quiet v' \<and> idle v' = idle v \<and>
     (if auth_ok crypt h AUTH_NODE l
      then v_node v' = auth_next h AUTH_NODE \<and> v_fail v' = 0 \<and> v_status v' = v_status v
      else v_node v' = AUTH_NODE \<and> v_fail v' = v_fail v + 1
        \<and> v_status v' = (if v_fail v + 1 \<ge> 3 then VTY_CLOSE else v_status v))"

lemma holds_empty: "buf_ok (v_obuf v) \<Longrightarrow> holds (vty_clear_buf (v\<lparr>v_cp := 0, v_length := 0\<rparr>)) ([], [])"
proof -
  have n: "VTY_BUFSIZ = Suc (VTY_BUFSIZ - 1)" by (simp add: VTY_BUFSIZ_def)
  then have "replicate VTY_BUFSIZ NUL = NUL # replicate (VTY_BUFSIZ - 1) NUL" by (metis replicate_Suc)
  then show "buf_ok (v_obuf v) \<Longrightarrow> ?thesis"
    by (intro holdsI [where r = "replicate (VTY_BUFSIZ - 1) NUL"]) (use n in \<open>auto simp: vty_clear_buf_def\<close>)
qed

lemma login_attempt:
  assumes "at_login (s_vty s)" "idle (s_vty s)" "quiet (s_vty s)" "prompts_ok (r_cmds R)" "holds (s_vty s) (b, a)"
    "ch = 10 \<or> ch = 13"
  shows "\<exists>v'. vty_bytes R [ch] s = Some (s\<lparr>s_vty := v'\<rparr>) \<and> login_result (r_crypt R) (s_host s) (b @ a) (s_vty s) v'"
proof -
  let ?v = "s_vty s" and ?h = "s_host s" and ?ok = "auth_ok (r_crypt R) (s_host s) AUTH_NODE (b @ a)"
  have n: "v_node ?v = AUTH_NODE" using assms(1) by (simp add: at_login_def)
  have line: "vty_line ?v = b @ a" by (rule vty_line_holds [OF assms(5)])
  obtain o1 where o1: "vty_out nl ?v = Some (?v\<lparr>v_obuf := o1\<rparr>)" "quiet (?v\<lparr>v_obuf := o1\<rparr>)"
    by (rule vty_out_quiet [OF assms(3)])
  let ?v1 = "?v\<lparr>v_obuf := o1\<rparr>"
  have l1: "vty_line ?v1 = b @ a" using line by (simp add: vty_line_def)
  obtain v2 where v2: "vty_auth (r_crypt R) ?h (b @ a) ?v1 = Some v2" "quiet v2" "idle v2 = idle ?v"
    "v_node v2 = (if ?ok then auth_next ?h AUTH_NODE else AUTH_NODE)" "v_fail v2 = (if ?ok then 0 else v_fail ?v + 1)"
    "v_status v2 = (if \<not> ?ok \<and> v_fail ?v + 1 \<ge> 3 then VTY_CLOSE else v_status ?v)"
  proof (cases "?ok \<or> v_fail ?v + 1 < 3")
    case True
    let ?w = "if ?ok then ?v1\<lparr>v_fail := 0, v_node := auth_next ?h AUTH_NODE\<rparr> else ?v1\<lparr>v_fail := v_fail ?v + 1\<rparr>"
    show thesis
      by (rule that [of ?w]) (use True o1(2) n in \<open>auto simp: vty_auth_def Let_def quiet_def idle_def\<close>)
  next
    case False
    let ?m = "''% Bad passwords, too many failures!'' @ [CHR 0x0A]"
    have "quiet (?v1\<lparr>v_fail := v_fail ?v + 1\<rparr>)" using o1(2) by (simp add: quiet_def)
    from vty_out_quiet [OF this, of ?m]
    obtain o2 where o2: "vty_out ?m (?v1\<lparr>v_fail := v_fail ?v + 1\<rparr>) = Some (?v1\<lparr>v_fail := v_fail ?v + 1, v_obuf := o2\<rparr>)"
      "quiet (?v1\<lparr>v_fail := v_fail ?v + 1, v_obuf := o2\<rparr>)"
      by metis
    show thesis
      by (rule that [of "?v1\<lparr>v_fail := v_fail ?v + 1, v_obuf := o2, v_status := VTY_CLOSE\<rparr>"])
        (use False o2 n assms(2) in \<open>auto simp: vty_auth_def Let_def quiet_def idle_def\<close>)
  qed
  let ?v3 = "vty_clear_buf (v2\<lparr>v_cp := 0, v_length := 0\<rparr>)"
  have v3: "quiet ?v3" "holds ?v3 ([], [])" using v2(2) holds_empty by (simp_all add: quiet_def vty_clear_buf_def)
  have nodes: "v_node ?v3 \<in> {AUTH_NODE, VIEW_NODE, ENABLE_NODE}"
    using v2(4) by (auto simp: vty_clear_buf_def auth_next_def)
  obtain o3 where o3: "vty_prompt (r_cmds R) ?h ?v3 = Some (?v3\<lparr>v_obuf := o3\<rparr>)" "quiet (?v3\<lparr>v_obuf := o3\<rparr>)"
    by (rule vty_prompt_quiet [OF v3(1) assms(4) nodes])
  let ?v4 = "if v_status ?v3 = VTY_CLOSE then ?v3 else ?v3\<lparr>v_obuf := o3\<rparr>"
  have "vty_execute R (s\<lparr>s_vty := ?v1\<rparr>) = Some (CMD_SUCCESS, s\<lparr>s_vty := ?v4\<rparr>)"
    using n l1 v2(1) o3(1) by (simp add: vty_execute_def with_vty_def)
  then have "vty_bytes R [ch] s = Some (s\<lparr>s_vty := ?v4\<rparr>)"
    using assms(2,6) o1(1) by (auto simp: vty_byte_def idle_def vty_key_def say_def with_vty_def)
  moreover have "login_result (r_crypt R) ?h (b @ a) ?v ?v4"
    using v2(3-6) v3 o3(2) by (auto simp: login_result_def vty_clear_buf_def holds_def quiet_def idle_def)
  ultimately show ?thesis by blast
qed

section \<open>A session\<close>

text \<open>A router with a password and one new session, used by the concrete instances below.\<close>

definition plain_node :: "string \<Rightarrow> unit cmd_node" where
  "plain_node p = \<lparr>cn_prompt = p, cn_cmdgraph = graph_new, cn_mem = \<lparr>g_next = 0, g_cells = (\<lambda>a. None), g_log = []\<rparr>\<rparr>"

definition plain_cmds :: "unit cmds" where
  "plain_cmds =
     \<lparr>c_cmdvec = \<lparr>active = 5, alloced = 8, index = map (\<lambda>p. Some (plain_node p))
        [''Password: '', CHR 0x25 # ''s> '', ''Password: '', CHR 0x25 # ''s# '', CHR 0x25 # ''s(config)# ''] @ replicate 3 None\<rparr>,
      c_max = 7, c_names = node_names_init, c_parents = node_parent_init\<rparr>"

definition plain_env :: "(unit, unit) vty_env" where
  "plain_env =
     \<lparr>r_exec = \<lparr>e_cmds = plain_cmds, e_pton6 = (\<lambda>t. False), e_daemon = (\<lambda>e. False), e_func = (\<lambda>e argv s. None)\<rparr>,
      r_varhandlers = [], r_crypt = (\<lambda>key salt. key)\<rparr>"

definition plain_host :: host where
  "plain_host =
     \<lparr>h_name = Some ''r1'', h_password = Some ''x'', h_password_encrypt = None, h_enable = None, h_enable_encrypt = None,
      h_lines = -1, h_encrypt = False, h_advanced = False, h_motd = None\<rparr>"

definition plain_session :: "unit sys" where
  "plain_session = \<lparr>s_vty = vty_new_init 4096 5, s_host = plain_host, s_rest = ()\<rparr>"

lemma plain_buffer: "buf_ok (buffer_new 4096 0)"
  by (simp add: buf_ok_def buffer_new_def BUFFER_SIZE_DEFAULT_def)

lemma plain_session_ok:
  "at_login (s_vty plain_session)" "idle (s_vty plain_session)" "quiet (s_vty plain_session)"
  "holds (s_vty plain_session) ([], [])"
proof -
  show "at_login (s_vty plain_session)" "idle (s_vty plain_session)" "quiet (s_vty plain_session)"
    by (simp_all add: plain_session_def vty_new_init_def vty_new_def vty_clear_buf_def at_login_def idle_def quiet_def plain_buffer)
  have "holds (vty_clear_buf ((vty_new 4096)\<lparr>v_cp := 0, v_length := 0\<rparr>)) ([], [])"
    by (rule holds_empty) (simp add: vty_new_def plain_buffer)
  then show "holds (s_vty plain_session) ([], [])"
    by (simp add: plain_session_def vty_new_init_def holds_def vty_clear_buf_def)
qed

lemma plain_parent: "node_parent (r_cmds plain_env) AUTH_NODE = Some (-1)"
  by (simp add: plain_env_def plain_cmds_def node_parent_def rd_int_def rd_def AUTH_NODE_def node_parent_init_def NODE_TYPE_LIMIT_def)

lemma plain_prompts: "prompts_ok (r_cmds plain_env)"
  by (simp add: prompts_ok_def plain_env_def plain_cmds_def cmd_prompt_def cmd_node_def rd_int_def rd_def node_defs
      plain_node_def)

section \<open>Properties\<close>

text \<open>
  C22: Reading the keys of the line editor refines an editor on the text before and after the cursor: the loop returns,
  only the line and the output of the session change, the buffer holds the edited text, and a terminal that shows
  the line after the prompt shows the edited line with the cursor in its place once it has received the
  output.
\<close>

theorem vty_line_editor_refines:
  assumes "typed bs z = Some z'" "idle (s_vty s)" "holds (s_vty s) z"
  shows "\<exists>v' out. vty_bytes R bs s = Some (s\<lparr>s_vty := v'\<rparr>) \<and> only_line (s_vty s) v' \<and> holds v' z'
    \<and> sends (s_vty s) v' out \<and> (\<forall>p scr. shows_line p z scr \<longrightarrow> shows_line p z' (display out scr))"
  using vty_bytes_typed [OF assms, of R "[]"] unfolding edited_def by auto

theorem vty_line_editor_refines_witness:
  "\<exists>v' out. vty_bytes plain_env [97, 98, 2, 99, 27, 91, 67, 20] plain_session = Some (plain_session\<lparr>s_vty := v'\<rparr>)
    \<and> only_line (s_vty plain_session) v' \<and> holds v' (''abc'', [])
    \<and> sends (s_vty plain_session) v' out
    \<and> (\<forall>p scr. shows_line p ([], []) scr \<longrightarrow> shows_line p (''abc'', []) (display out scr))"
proof -
  have "typed [97, 98, 2, 99, 27, 91, 67, 20] ([], []) = Some (''abc'', [])" by code_simp
  from vty_line_editor_refines [OF this plain_session_ok(2,4)] show ?thesis .
qed

text \<open>
  C23: Whatever bytes arrive at the password prompt, the session leaves it only if at some moment Enter was read
  while the line in the buffer was the password; until then no command runs and the host settings do not change.
\<close>

theorem login_needs_password:
  assumes "vty_bytes R bs s = Some s'" "at_login (s_vty s)" "node_parent (r_cmds R) AUTH_NODE = Some (-1)"
    "s_node s' \<noteq> AUTH_NODE"
  shows "\<exists>b bs' t. vty_steps R bs s (b # bs') t \<and> (b = 10 \<or> b = 13) \<and> s_node t = AUTH_NODE \<and> s_host t = s_host s
    \<and> auth_ok (r_crypt R) (s_host s) AUTH_NODE (vty_line (s_vty t))"
  by (rule bytes_login [OF assms])

text \<open>Typing the password at the prompt.\<close>

lemma login_typed:
  assumes "at_login (s_vty s)" "idle (s_vty s)" "quiet (s_vty s)" "prompts_ok (r_cmds R)" "holds (s_vty s) z"
    "typed bs z = Some (b, a)" "ch = 10 \<or> ch = 13"
  shows "\<exists>v'. vty_bytes R (bs @ [ch]) s = Some (s\<lparr>s_vty := v'\<rparr>)
    \<and> login_result (r_crypt R) (s_host s) (b @ a) (s_vty s) v'"
proof -
  obtain v1 where v1: "vty_bytes R (bs @ [ch]) s = vty_bytes R [ch] (s\<lparr>s_vty := v1\<rparr>)" "edited (s_vty s) z v1 (b, a)"
    using vty_bytes_typed [OF assms(6,2,5), of R "[ch]"] by blast
  then have ol: "only_line (s_vty s) v1" "holds v1 (b, a)" by (simp_all add: edited_def)
  have eq: "at_login v1 = at_login (s_vty s)" "idle v1 = idle (s_vty s)" "v_fail v1 = v_fail (s_vty s)" "v_status v1 = v_status (s_vty s)"
    "quiet v1"
    using ol assms(3) by (auto simp: only_line_def at_login_def idle_def quiet_def holds_def)
  obtain v2 where v2: "vty_bytes R [ch] (s\<lparr>s_vty := v1\<rparr>) = Some (s\<lparr>s_vty := v1\<rparr>\<lparr>s_vty := v2\<rparr>)"
    "login_result (r_crypt R) (s_host s) (b @ a) v1 v2"
    using login_attempt [of "s\<lparr>s_vty := v1\<rparr>" R b a ch] assms eq ol(2) by auto
  have "login_result (r_crypt R) (s_host s) (b @ a) (s_vty s) v2"
    using v2(2) eq by (simp add: login_result_def)
  then show ?thesis using v1(1) v2(1) by auto
qed

lemma plain_login:
  "\<exists>v'. vty_bytes plain_env [120, 10] plain_session = Some (plain_session\<lparr>s_vty := v'\<rparr>) \<and> v_node v' = VIEW_NODE"
proof -
  have t: "typed [120] ([], []) = Some (''x'', [])" by code_simp
  have ok: "auth_ok (r_crypt plain_env) (s_host plain_session) AUTH_NODE ''x''" "auth_next (s_host plain_session) AUTH_NODE = VIEW_NODE"
    by (simp_all add: auth_ok_def auth_passwd_def auth_next_def plain_session_def plain_host_def)
  from login_typed [OF plain_session_ok(1-3) plain_prompts plain_session_ok(4) t, of 10]
  show ?thesis using ok by (auto simp: login_result_def)
qed

theorem login_needs_password_witness:
  "\<exists>b bs' t. vty_steps plain_env [120, 10] plain_session (b # bs') t \<and> (b = 10 \<or> b = 13) \<and> s_node t = AUTH_NODE
    \<and> s_host t = s_host plain_session \<and> auth_ok (r_crypt plain_env) (s_host plain_session) AUTH_NODE (vty_line (s_vty t))"
proof -
  obtain v' where v': "vty_bytes plain_env [120, 10] plain_session = Some (plain_session\<lparr>s_vty := v'\<rparr>)" "v_node v' = VIEW_NODE"
    using plain_login by blast
  show ?thesis
    by (rule login_needs_password [OF v'(1) plain_session_ok(1) plain_parent]) (simp add: v'(2) node_defs)
qed

text \<open>
  C24: A login attempt, the keys of a line and then Enter, always returns. With the password the session moves to the
  next node and the count of failures is reset; otherwise it stays, the failure is counted, and the third
  failure closes the session.
\<close>

theorem login_outcome:
  assumes "at_login (s_vty s)" "idle (s_vty s)" "quiet (s_vty s)" "prompts_ok (r_cmds R)" "holds (s_vty s) z"
    "typed bs z = Some (b, a)"
  shows "\<exists>v'. vty_bytes R (bs @ [10]) s = Some (s\<lparr>s_vty := v'\<rparr>) \<and> holds v' ([], []) \<and>
    (if auth_ok (r_crypt R) (s_host s) AUTH_NODE (b @ a)
     then v_node v' = auth_next (s_host s) AUTH_NODE \<and> v_fail v' = 0 \<and> v_status v' = v_status (s_vty s)
     else v_node v' = AUTH_NODE \<and> v_fail v' = v_fail (s_vty s) + 1
       \<and> v_status v' = (if v_fail (s_vty s) + 1 \<ge> 3 then VTY_CLOSE else v_status (s_vty s)))"
  using login_typed [OF assms, of 10] by (auto simp: login_result_def)

theorem login_outcome_witness:
  "\<exists>v'. vty_bytes plain_env ([121] @ [10]) plain_session = Some (plain_session\<lparr>s_vty := v'\<rparr>) \<and> holds v' ([], [])
    \<and> v_node v' = AUTH_NODE \<and> v_fail v' = 1 \<and> v_status v' = VTY_NORMAL"
proof -
  have t: "typed [121] ([], []) = Some (''y'', [])" by code_simp
  have no: "\<not> auth_ok (r_crypt plain_env) (s_host plain_session) AUTH_NODE (''y'' @ [])"
    by (simp add: auth_ok_def auth_passwd_def plain_session_def plain_host_def)
  have v: "v_fail (s_vty plain_session) = 0" "v_status (s_vty plain_session) = VTY_NORMAL"
    by (simp_all add: plain_session_def vty_new_init_def)
  from login_outcome [OF plain_session_ok(1-3) plain_prompts plain_session_ok(4) t]
  show ?thesis unfolding if_not_P [OF no] v by simp
qed

text \<open>
  C31: Control-D on the empty line of the password prompt moves the session to the parent of that node, which is none,
  and printing the prompt of node \<open>-1\<close> reads outside the array of nodes: a client that has not logged in ends the
  program.
\<close>

theorem login_ctrl_d_fails:
  assumes "at_login (s_vty s)" "idle (s_vty s)" "v_length (s_vty s) = 0" "node_parent (r_cmds R) AUTH_NODE = Some (-1)"
  shows "vty_bytes R (4 # bs) s = None"
  using assms login_down_level [OF assms(1,4), of "s_host s"]
  by (simp add: vty_byte_def idle_def vty_key_def with_vty_def vty_edit_key_def vty_delete_char_def)

theorem login_ctrl_d_fails_witness: "vty_bytes plain_env (4 # []) plain_session = None"
  by (rule login_ctrl_d_fails [OF plain_session_ok(1,2) _ plain_parent]) (simp add: plain_session_def vty_new_init_def)

text \<open>
  C30: A client announces a window of any size; the escaped bytes of the subnegotiation give back exactly its width and
  height, and nothing else of the session changes but the negotiation buffer.
\<close>

theorem naws_roundtrip:
  assumes "\<not> v_iac (s_vty s)" "\<not> v_iac_sb_in_progress (s_vty s)" "length (v_sb_buf (s_vty s)) = TELNET_NAWS_SB_LEN"
    "width < 65536" "height < 65536"
  shows "vty_bytes R (naws_bytes (of_nat (width div 256)) (of_nat (width mod 256)) (of_nat (height div 256)) (of_nat (height mod 256))) s
    = Some (s\<lparr>s_vty := (s_vty s)\<lparr>v_sb_buf := [TELOPT_NAWS, of_nat (width div 256), of_nat (width mod 256),
        of_nat (height div 256), of_nat (height mod 256)], v_sb_len := 5, v_width := int width, v_height := int height\<rparr>\<rparr>)"
proof -
  have join: "256 * uint (of_nat (n div 256) :: u8) + uint (of_nat (n mod 256) :: u8) = int n" if "n < 65536" for n
  proof -
    have "n div 256 < 256" using that by (simp add: less_mult_imp_div_less)
    then have "256 * uint (of_nat (n div 256) :: u8) + uint (of_nat (n mod 256) :: u8) = 256 * int (n div 256) + int (n mod 256)"
      by (simp add: unsigned_of_nat take_bit_nat_eq_self)
    also have "\<dots> = int (256 * (n div 256) + n mod 256)" by (simp only: of_nat_add of_nat_mult of_nat_numeral)
    finally show ?thesis by simp
  qed
  show ?thesis
    using naws_sets_size [OF assms(1-3), of R _ _ _ _ "[]"] join [OF assms(4)] join [OF assms(5)] by simp
qed

theorem naws_roundtrip_witness:
  "vty_bytes plain_env (naws_bytes (of_nat (511 div 256)) (of_nat (511 mod 256)) (of_nat (24 div 256)) (of_nat (24 mod 256))) plain_session
    = Some (plain_session\<lparr>s_vty := (s_vty plain_session)\<lparr>v_sb_buf := [TELOPT_NAWS, of_nat (511 div 256), of_nat (511 mod 256),
        of_nat (24 div 256), of_nat (24 mod 256)], v_sb_len := 5, v_width := int 511, v_height := int 24\<rparr>\<rparr>)"
  by (rule naws_roundtrip)
    (simp_all add: plain_session_def vty_new_init_def vty_new_def vty_clear_buf_def TELNET_NAWS_SB_LEN_def)

text \<open>
  C25: A command line that was executed is added to the history, unless it repeats the line before, and a full history
  drops its oldest line. Going back \<open>k + 1\<close> lines then shows the line that was entered \<open>k\<close> lines before the last, and
  going forward again shows the later ones.
\<close>

theorem history_recall:
  assumes "hist_ok v hs" "holds v (b, a)" "b @ a \<noteq> []" "\<forall>l\<in>set hs. line_fits l"
    "k < length (remembered (b @ a) hs)" "j \<le> k" "Suc k < VTY_MAXHIST"
  shows "\<exists>v1 v2 v3. vty_hist_add v = Some v1 \<and> repeat_opt (Suc k) vty_previous_line v1 = Some v2
    \<and> holds v2 (remembered (b @ a) hs ! k, []) \<and> repeat_opt j vty_next_line v2 = Some v3
    \<and> holds v3 (remembered (b @ a) hs ! (k - j), [])"
proof -
  let ?hs = "remembered (b @ a) hs"
  have "v_length v \<noteq> 0" "line_fits (b @ a)" using assms(2,3) by (auto simp: holds_def line_fits_def)
  obtain v1 hist i where v1: "vty_hist_add v = Some v1" "hist_ok v1 ?hs" "v_hp v1 = v_hindex v1"
    "v1 = v\<lparr>v_hist := hist, v_hindex := i, v_hp := i\<rparr>"
    using hist_add_ok [OF assms(1) \<open>v_length v \<noteq> 0\<close>] vty_line_holds [OF assms(2)] by metis
  have fits: "\<forall>l\<in>set ?hs. line_fits l"
    using assms(4) \<open>line_fits (b @ a)\<close> by (auto simp: remembered_def dest!: in_set_takeD)
  have "holds v1 (b, a)" using assms(2) v1(4) by (simp add: holds_def)
  moreover have "recalled v1 ?hs 0" using v1(2,3) by (auto simp: recalled_def hist_ok_def)
  ultimately obtain v2 where v2: "repeat_opt (Suc k) vty_previous_line v1 = Some v2" "holds v2 (?hs ! k, [])" "recalled v2 ?hs (Suc k)"
    using previous_repeat [of v1 ?hs 0 "(b, a)" k] assms(5) fits by auto
  obtain v3 where "repeat_opt j vty_next_line v2 = Some v3" "holds v3 (?hs ! (k - j), [])"
    using next_repeat [OF v2(3,2) assms(5,7) fits assms(6)] by blast
  then show ?thesis using v1(1) v2(1,2) by blast
qed

theorem history_recall_witness:
  "\<exists>v v1 v2 v3. holds v (''b'', []) \<and> vty_hist_add v = Some v1 \<and> repeat_opt 1 vty_previous_line v1 = Some v2
    \<and> holds v2 (''b'', []) \<and> repeat_opt 0 vty_next_line v2 = Some v3 \<and> holds v3 (''b'', [])"
proof -
  have "typed [98] ([], []) = Some (''b'', [])" by code_simp
  then obtain v where v: "only_line (s_vty plain_session) v" "holds v (''b'', [])"
    using vty_bytes_typed [OF _ plain_session_ok(2,4), of "[98]" _ plain_env "[]"] unfolding edited_def by blast
  have "hist_ok (s_vty plain_session) []"
    by (simp add: hist_ok_def plain_session_def vty_new_init_def VTY_MAXHIST_def)
  then have ok: "hist_ok v []"
    using only_line_hist [OF v(1)] hist_ok_cong by metis
  have "\<exists>v1 v2 v3. vty_hist_add v = Some v1 \<and> repeat_opt (Suc 0) vty_previous_line v1 = Some v2
    \<and> holds v2 (remembered (''b'' @ []) [] ! 0, []) \<and> repeat_opt 0 vty_next_line v2 = Some v3
    \<and> holds v3 (remembered (''b'' @ []) [] ! (0 - 0), [])"
    by (rule history_recall [OF ok v(2)]) (simp_all add: remembered_def VTY_MAXHIST_def)
  then show ?thesis using v(2) by (auto simp: remembered_def VTY_MAXHIST_def)
qed

end
