(* ===== verification/C_Net.thy ===== *)
theory C_Net
  imports C_Strings Prefix
begin

text \<open>
  The parts of the C library and of the kernel interface that the daemon uses: numbers in memory (the host is
  little-endian), the conversions \<open>%u\<close>, \<open>%d\<close> and \<open>%x\<close> of \<open>printf\<close>, \<open>strtol\<close> in base zero and the text form of
  IPv4 addresses, with the round trips between printing and reading them.
\<close>

named_theorems net_simps \<open>reading back what was written\<close>

section \<open>Numbers in memory\<close>

fun le_bytes :: "nat \<Rightarrow> nat \<Rightarrow> u8 list" where
  "le_bytes 0 v = []"
| "le_bytes (Suc n) v = of_nat v # le_bytes n (v div 256)"

fun le_val :: "u8 list \<Rightarrow> nat" where
  "le_val [] = 0"
| "le_val (b # bs) = unat b + 256 * le_val bs"

text \<open>The \<open>n\<close> bytes at \<open>i\<close>, and the number they hold; reading outside the memory does not return.\<close>

definition mem_range :: "u8 list \<Rightarrow> nat \<Rightarrow> nat \<Rightarrow> u8 list option" where
  "mem_range mem i n = (if i + n \<le> length mem then Some (take n (drop i mem)) else None)"

definition mem_le :: "nat \<Rightarrow> u8 list \<Rightarrow> nat \<Rightarrow> nat option" where
  "mem_le n mem i = map_option le_val (mem_range mem i n)"

text \<open>Bytes written over the front of an object.\<close>

definition put_front :: "u8 list \<Rightarrow> u8 list \<Rightarrow> u8 list" where
  "put_front bs u = bs @ drop (length bs) u"

text \<open>Subtraction in \<open>size_t\<close> and in \<open>uint32_t\<close>, and the conversion to \<open>int\<close>.\<close>

definition sub64 :: "nat \<Rightarrow> nat \<Rightarrow> nat" where
  "sub64 a b = nat ((int a - int b) mod 2 ^ 64)"

definition sub32 :: "nat \<Rightarrow> nat \<Rightarrow> nat" where
  "sub32 a b = nat ((int a - int b) mod 2 ^ 32)"

definition c_int :: "int \<Rightarrow> int" where
  "c_int v = (v + 2 ^ 31) mod 2 ^ 32 - 2 ^ 31"

definition htons :: "u16 \<Rightarrow> u8 list" where
  "htons w = [ucast (drop_bit 8 w), ucast w]"

lemma length_le_bytes [simp]: "length (le_bytes n v) = n"
  by (induction n arbitrary: v) simp_all

lemma take_le_bytes: "k \<le> n \<Longrightarrow> take k (le_bytes n v) = le_bytes k v"
proof (induction n arbitrary: k v)
  case (Suc n)
  then show ?case by (cases k) simp_all
qed simp

lemma le_val_bytes [net_simps]: "le_val (le_bytes n v) = v mod 256 ^ n"
proof (induction n arbitrary: v)
  case (Suc n)
  have "unat (of_nat v :: u8) = v mod 256" by (simp add: unat_of_nat take_bit_eq_mod)
  with Suc show ?case by (simp add: mod_mult2_eq)
qed simp

lemma le_val_less: "le_val bs < 256 ^ length bs"
proof (induction bs)
  case (Cons b bs)
  have "unat b < 256" by (rule unat_u8_less)
  with Cons show ?case by simp
qed simp

lemma mem_range_at [net_simps]:
  assumes "mem = p @ bs @ r" "i = length p" "n = length bs"
  shows "mem_range mem i n = Some bs"
  using assms by (simp add: mem_range_def)

lemma mem_range_Some_iff: "mem_range mem i n = Some bs \<longleftrightarrow> i + n \<le> length mem \<and> bs = take n (drop i mem)"
  by (auto simp: mem_range_def)

lemma mem_le_at [net_simps]:
  assumes "mem = p @ le_bytes n v @ r" "i = length p"
  shows "mem_le n mem i = Some (v mod 256 ^ n)"
  using assms by (simp add: mem_le_def mem_range_def le_val_bytes)

lemma mem_le_less: "mem_le n mem i = Some v \<Longrightarrow> v < 256 ^ n"
  using le_val_less [of "take n (drop i mem)"] by (auto simp: mem_le_def mem_range_def split: if_splits)

lemma mem_le_in: "mem_le n mem i = Some v \<Longrightarrow> i + n \<le> length mem"
  by (auto simp: mem_le_def mem_range_def split: if_splits)

lemma sub64_le [net_simps]: "b \<le> a \<Longrightarrow> a < 2 ^ 64 \<Longrightarrow> sub64 a b = a - b"
  by (simp add: sub64_def nat_mod_distrib of_nat_diff [symmetric] del: of_nat_diff)

lemma sub32_le [net_simps]: "b \<le> a \<Longrightarrow> a < 2 ^ 32 \<Longrightarrow> sub32 a b = a - b"
  by (simp add: sub32_def nat_mod_distrib of_nat_diff [symmetric] del: of_nat_diff)

lemma c_int_small [net_simps]: "- (2 ^ 31) \<le> v \<Longrightarrow> v < 2 ^ 31 \<Longrightarrow> c_int v = v"
  by (simp add: c_int_def)

section \<open>Printing numbers\<close>

fun print_u :: "nat \<Rightarrow> string" where
  "print_u n = (if n < 10 then [char_of (48 + n)] else print_u (n div 10) @ [char_of (48 + n mod 10)])"

declare print_u.simps [simp del]

definition print_d :: "int \<Rightarrow> string" where
  "print_d v = (if v < 0 then CHR ''-'' # print_u (nat (- v)) else print_u (nat v))"

fun print_x :: "nat \<Rightarrow> string" where
  "print_x n = (if n < 16 then [hex_digit n] else print_x (n div 16) @ [hex_digit (n mod 16)])"

declare print_x.simps [simp del]

lemma char_code_digit: "k < 10 \<Longrightarrow> char_code (char_of (48 + k)) = 48 + k"
  by (simp add: char_code_def)

lemma print_digit: "k < 10 \<Longrightarrow> isdigit (char_of (48 + k)) \<and> digit_val (char_of (48 + k)) = k"
  by (simp add: isdigit_def digit_val_def char_code_digit)

lemma dec_val_snoc: "dec_val (ds @ [d]) = 10 * dec_val ds + digit_val d"
  by (simp add: dec_val_def)

lemma print_u_digits: "print_u n \<noteq> [] \<and> (\<forall>d \<in> set (print_u n). isdigit d) \<and> dec_val (print_u n) = n"
proof (induction n rule: print_u.induct)
  case (1 n)
  show ?case
  proof (cases "n < 10")
    case True
    then show ?thesis by (subst (1 2 3) print_u.simps) (use print_digit in \<open>simp add: dec_val_def\<close>)
  next
    case False
    have "isdigit (char_of (48 + n mod 10))" "digit_val (char_of (48 + n mod 10)) = n mod 10"
      using print_digit [of "n mod 10"] by simp_all
    with False 1 show ?thesis by (subst (1 2 3) print_u.simps) (simp add: dec_val_snoc)
  qed
qed

lemma print_u_lead: "0 < n \<Longrightarrow> digit_val (hd (print_u n)) \<noteq> 0"
proof (induction n rule: print_u.induct)
  case (1 n)
  show ?case
  proof (cases "n < 10")
    case True
    then show ?thesis using 1 by (subst print_u.simps) (use print_digit in simp)
  next
    case False
    then have "digit_val (hd (print_u (n div 10))) \<noteq> 0" using 1 by simp
    then show ?thesis using False print_u_digits [of "n div 10"] by (subst print_u.simps) simp
  qed
qed

lemma print_u_short: "n < 10 ^ Suc k \<Longrightarrow> length (print_u n) \<le> Suc k"
proof (induction k arbitrary: n)
  case 0
  then show ?case by (subst print_u.simps) simp
next
  case (Suc k)
  then have "n div 10 < 10 ^ Suc k" by (simp add: div_less_iff_less_mult mult.commute)
  with Suc.IH [of "n div 10"] show ?case by (subst print_u.simps) simp
qed

lemma isdigit_not:
  "isdigit d \<Longrightarrow> d \<noteq> CHR ''/''" "isdigit d \<Longrightarrow> d \<noteq> CHR ''.''" "isdigit d \<Longrightarrow> d \<noteq> NUL" "isdigit d \<Longrightarrow> \<not> isspace d"
  "isdigit d \<Longrightarrow> d \<noteq> CHR ''-''" "isdigit d \<Longrightarrow> d \<noteq> CHR ''+''" "isdigit d \<Longrightarrow> d \<noteq> CHR ''x''" "isdigit d \<Longrightarrow> d \<noteq> CHR ''X''"
  by (auto simp: isdigit_def isspace_def char_code_def NUL_def)

lemma hex_val_decimal: "isdigit d \<Longrightarrow> hex_val d = Some (digit_val d) \<and> digit_val d < 10"
  by (auto simp: hex_val_def isdigit_def digit_val_def Let_def)

section \<open>Reading numbers\<close>

text \<open>
  \<open>strtol\<close> in base zero on an array of characters: a number after \<open>0x\<close> is hexadecimal, after \<open>0\<close> octal. Reading
  on to the end of the array without finding a character that ends the number does not return.
\<close>

definition in_base :: "nat \<Rightarrow> char \<Rightarrow> bool" where
  "in_base base ch = (case hex_val ch of None \<Rightarrow> False | Some v \<Rightarrow> v < base)"

definition base_val :: "nat \<Rightarrow> string \<Rightarrow> nat" where
  "base_val base ds = foldl (\<lambda>n ch. base * n + the (hex_val ch)) 0 ds"

definition base_of :: "string \<Rightarrow> nat \<times> string" where
  "base_of s =
     (case s of
        [] \<Rightarrow> (10, s)
      | z # r \<Rightarrow>
          if z \<noteq> CHR ''0'' then (10, s)
          else (case r of
                  x # h # _ \<Rightarrow> if (x = CHR ''x'' \<or> x = CHR ''X'') \<and> in_base 16 h then (16, drop 2 s) else (8, s)
                | _ \<Rightarrow> (8, s)))"

definition strtol0 :: "string \<Rightarrow> int option" where
  "strtol0 b =
     (let s1 = dropWhile isspace b;
          (neg, s2) = (case s1 of [] \<Rightarrow> (False, s1)
                       | ch # r \<Rightarrow> if ch = CHR ''-'' then (True, r) else if ch = CHR ''+'' then (False, r) else (False, s1));
          (base, s3) = base_of s2;
          v = int (base_val base (takeWhile (in_base base) s3));
          w = (if neg then - v else v)
      in if dropWhile (in_base base) s3 = [] then None else Some (max (- (2 ^ 63)) (min (2 ^ 63 - 1) w)))"

lemma base_val_dec: "\<forall>d \<in> set ds. isdigit d \<Longrightarrow> base_val 10 ds = dec_val ds"
proof (induction ds rule: rev_induct)
  case (snoc d ds)
  then show ?case using hex_val_decimal [of d] by (simp add: base_val_def dec_val_def)
qed (simp add: base_val_def dec_val_def)

lemma in_base_digit: "isdigit d \<Longrightarrow> in_base 10 d"
  using hex_val_decimal by (simp add: in_base_def)

lemma in_base_NUL: "\<not> in_base b NUL"
  by (simp add: in_base_def hex_val_def NUL_def char_code_def Let_def)

lemma strtol0_print_u [net_simps]:
  assumes "n < 2 ^ 63"
  shows "strtol0 (print_u n @ NUL # r) = Some (int n)"
proof (cases "n = 0")
  case True
  have "char_of (48 :: nat) = CHR ''0''" by code_simp
  then have z: "print_u 0 = ''0''" by (subst print_u.simps) simp
  have nul: "takeWhile (in_base 8) (CHR ''0'' # NUL # r) = ''0''" "dropWhile (in_base 8) (CHR ''0'' # NUL # r) = NUL # r"
    using in_base_NUL [of 8] by (simp_all add: in_base_def hex_val_def char_code_def)
  have "base_of (CHR ''0'' # NUL # r) = (8, CHR ''0'' # NUL # r)"
    by (simp add: base_of_def NUL_def split: list.split)
  then show ?thesis
    using True nul in_base_NUL [of 8] by (simp add: z strtol0_def isspace_def char_code_def base_val_def hex_val_def)
next
  case False
  obtain d ds where ds: "print_u n = d # ds" using print_u_digits [of n] by (cases "print_u n") auto
  have dig: "isdigit d" "\<forall>d' \<in> set (d # ds). isdigit d'" using print_u_digits [of n] ds by auto
  have nz: "d \<noteq> CHR ''0''" using print_u_lead [of n] False ds by (auto simp: digit_val_def char_code_def)
  have tw: "takeWhile (in_base 10) (print_u n @ NUL # r) = print_u n" "dropWhile (in_base 10) (print_u n @ NUL # r) = NUL # r"
    using dig(2) ds in_base_NUL [of 10] by (auto simp: takeWhile_append dropWhile_append in_base_digit)
  have "base_of (print_u n @ NUL # r) = (10, print_u n @ NUL # r)" using ds nz by (simp add: base_of_def)
  moreover have "dropWhile isspace (print_u n @ NUL # r) = print_u n @ NUL # r"
    using ds isdigit_not(4) [OF dig(1)] by simp
  moreover have "base_val 10 (print_u n) = n" using base_val_dec dig(2) ds print_u_digits [of n] by metis
  ultimately show ?thesis
    using assms tw ds isdigit_not(5,6) [OF dig(1)] in_base_NUL [of 10] by (simp add: strtol0_def Let_def)
qed

section \<open>IPv4 addresses as text\<close>

text \<open>\<open>inet_ntop\<close> and \<open>inet_pton\<close> of \<open>AF_INET\<close>: four decimal numbers below 256 without leading zeros.\<close>

fun split_on :: "char \<Rightarrow> string \<Rightarrow> string list" where
  "split_on c [] = [[]]"
| "split_on c (x # xs) =
     (if x = c then [] # split_on c xs else (case split_on c xs of [] \<Rightarrow> [[x]] | f # fs \<Rightarrow> (x # f) # fs))"

definition octet_of :: "string \<Rightarrow> u8 option" where
  "octet_of s =
     (if s \<noteq> [] \<and> list_all isdigit s \<and> (hd s = CHR ''0'' \<longrightarrow> length s = 1) \<and> dec_val s \<le> 255
      then Some (of_nat (dec_val s)) else None)"

definition inet_pton4 :: "string \<Rightarrow> u8 list ptr" where
  "inet_pton4 s =
     (case split_on CHR ''.'' s of
        [a, b, c, d] \<Rightarrow> do { w \<leftarrow> octet_of a; x \<leftarrow> octet_of b; y \<leftarrow> octet_of c; z \<leftarrow> octet_of d; Some [w, x, y, z] }
      | _ \<Rightarrow> None)"

definition inet_ntop4 :: "u8 list \<Rightarrow> string" where
  "inet_ntop4 bs =
     print_u (unat (bs ! 0)) @ ''.'' @ print_u (unat (bs ! 1)) @ ''.'' @ print_u (unat (bs ! 2)) @ ''.'' @ print_u (unat (bs ! 3))"

lemma split_on_none: "c \<notin> set xs \<Longrightarrow> split_on c xs = [xs]"
  by (induction xs) auto

lemma split_on_append: "c \<notin> set xs \<Longrightarrow> split_on c (xs @ c # ys) = xs # split_on c ys"
  by (induction xs) auto

lemma octet_of_print_u: "octet_of (print_u (unat b)) = Some b"
proof -
  note p = print_u_digits [of "unat b"]
  have "unat b \<noteq> 0 \<Longrightarrow> hd (print_u (unat b)) \<noteq> CHR ''0''"
    using print_u_lead [of "unat b"] by (auto simp: digit_val_def char_code_def)
  moreover have "unat b = 0 \<Longrightarrow> length (print_u (unat b)) = 1" by (subst print_u.simps) simp
  moreover have "unat b \<le> 255" using unat_u8_less [of b] by simp
  ultimately have "hd (print_u (unat b)) = CHR ''0'' \<longrightarrow> length (print_u (unat b)) = 1" "unat b \<le> 255" by blast+
  then show ?thesis using p by (simp add: octet_of_def list_all_iff)
qed

lemma print_u_no_dot: "CHR ''.'' \<notin> set (print_u n)"
  using print_u_digits [of n] isdigit_not(2) by blast

lemma inet_pton_ntop4 [net_simps]:
  assumes "length bs = 4"
  shows "inet_pton4 (inet_ntop4 bs) = Some bs"
proof -
  obtain a b c d where bs: "bs = [a, b, c, d]"
    using assms by (auto simp: numeral_eq_Suc length_Suc_conv)
  have "split_on CHR ''.'' (inet_ntop4 bs) = [print_u (unat a), print_u (unat b), print_u (unat c), print_u (unat d)]"
    by (simp add: inet_ntop4_def bs split_on_append split_on_none print_u_no_dot)
  then show ?thesis by (simp add: inet_pton4_def octet_of_print_u bs)
qed

lemma inet_ntop4_chars:
  "inet_ntop4 bs \<noteq> []" "CHR ''/'' \<notin> set (inet_ntop4 bs)" "NUL \<notin> set (inet_ntop4 bs)" "length (inet_ntop4 bs) \<le> 15"
proof -
  have "length (print_u (unat (x :: u8))) \<le> 3" for x
    using print_u_short [of "unat x" 2] unat_u8_less [of x] by simp
  from add_mono [OF add_mono [OF this [of "bs ! 0"] this [of "bs ! 1"]] add_mono [OF this [of "bs ! 2"] this [of "bs ! 3"]]]
  show "length (inet_ntop4 bs) \<le> 15" by (simp add: inet_ntop4_def)
  show "inet_ntop4 bs \<noteq> []" by (simp add: inet_ntop4_def)
  have "CHR ''/'' \<notin> set (print_u n)" "NUL \<notin> set (print_u n)" for n
    using print_u_digits [of n] isdigit_not(1,3) by blast+
  then show "CHR ''/'' \<notin> set (inet_ntop4 bs)" "NUL \<notin> set (inet_ntop4 bs)" by (auto simp: inet_ntop4_def NUL_def)
qed

end
