(* ===== verification/Netlink.thy ===== *)
theory Netlink
  imports C_Net
begin

text \<open>
  The netlink library \<open>libyalin\<close> (\<open>netlink_socket.cc\<close>, \<open>netlink_helper.h\<close>, \<open>netlink_cache.cc\<close>): receiving
  datagrams of messages from the kernel, the attributes of a message and the cache of links.

  Memory is a list of bytes and a pointer into it an offset. The constants and the layout of the messages are
  those of the kernel interface (\<open>linux/netlink.h\<close>, \<open>linux/rtnetlink.h\<close> and their relatives).
\<close>

section \<open>Constants of the kernel interface\<close>

definition RTM_NEWLINK :: nat where "RTM_NEWLINK = 16"
definition RTM_DELLINK :: nat where "RTM_DELLINK = 17"
definition RTM_GETLINK :: nat where "RTM_GETLINK = 18"
definition RTM_NEWADDR :: nat where "RTM_NEWADDR = 20"
definition RTM_DELADDR :: nat where "RTM_DELADDR = 21"
definition RTM_GETADDR :: nat where "RTM_GETADDR = 22"
definition RTM_NEWROUTE :: nat where "RTM_NEWROUTE = 24"
definition RTM_DELROUTE :: nat where "RTM_DELROUTE = 25"
definition RTM_GETROUTE :: nat where "RTM_GETROUTE = 26"
definition RTM_NEWNEIGH :: nat where "RTM_NEWNEIGH = 28"
definition RTM_DELNEIGH :: nat where "RTM_DELNEIGH = 29"
definition NLMSG_ERROR :: nat where "NLMSG_ERROR = 2"
definition NLMSG_DONE :: nat where "NLMSG_DONE = 3"
definition NLMSG_HDRLEN :: nat where "NLMSG_HDRLEN = 16"

lemmas rtm_defs =
  RTM_NEWLINK_def RTM_DELLINK_def RTM_GETLINK_def RTM_NEWADDR_def RTM_DELADDR_def RTM_GETADDR_def RTM_NEWROUTE_def
  RTM_DELROUTE_def RTM_GETROUTE_def RTM_NEWNEIGH_def RTM_DELNEIGH_def NLMSG_ERROR_def NLMSG_DONE_def NLMSG_HDRLEN_def

text \<open>\<open>NLMSG_ALIGN\<close> and \<open>RTA_ALIGN\<close> round up to a multiple of four.\<close>

definition align4 :: "nat \<Rightarrow> nat" where "align4 n = (n + 3) div 4 * 4"

section \<open>Attributes\<close>

text \<open>
  A pointer to an attribute: \<open>NULL\<close>, a place in the memory of the message, or an address that is neither and
  cannot be read.
\<close>

datatype attr_ptr = Null | At nat | Wild

fun at :: "attr_ptr \<Rightarrow> nat option" where
  "at (At i) = Some i"
| "at _ = None"

text \<open>
  \<open>parse_rtattr\<close>: as long as \<open>RTA_OK\<close> holds of the remaining length, the attribute is noted under its type and
  \<open>RTA_NEXT\<close> moves on. The remaining length is a \<open>size_t\<close>.
\<close>

function parse_rtattr :: "u8 list \<Rightarrow> nat \<Rightarrow> nat \<Rightarrow> (nat \<Rightarrow> attr_ptr) \<Rightarrow> nat \<Rightarrow> (nat \<Rightarrow> attr_ptr) option" where
  "parse_rtattr mem rta rta_len attrs max_attrs =
     (if rta_len < 4 then Some attrs
      else case mem_le 2 mem rta of
             None \<Rightarrow> None
           | Some l \<Rightarrow>
               if l < 4 \<or> rta_len < l then Some attrs
               else case mem_le 2 mem (rta + 2) of
                      None \<Rightarrow> None
                    | Some t \<Rightarrow>
                        if t < max_attrs
                        then parse_rtattr mem (rta + align4 l) (sub64 rta_len (align4 l)) (attrs(t := At rta)) max_attrs
                        else None)"
  by pat_completeness auto
termination
  by (relation "measure (\<lambda>(mem, rta, _). length mem - rta)") (auto simp: align4_def dest: mem_le_in)

declare parse_rtattr.simps [simp del]

definition MAX_ATTRS :: nat where "MAX_ATTRS = 50000"

definition rta_array :: "u8 list \<Rightarrow> nat \<Rightarrow> nat \<Rightarrow> (nat \<Rightarrow> attr_ptr) option" where
  "rta_array mem rta_head rta_len = parse_rtattr mem rta_head rta_len (\<lambda>_. Null) MAX_ATTRS"

definition rta_payload :: "u8 list \<Rightarrow> nat \<Rightarrow> nat option" where
  "rta_payload mem rta = do { l \<leftarrow> mem_le 2 mem rta; Some (sub64 l 4) }"

definition rta_readptr :: "attr_ptr \<Rightarrow> attr_ptr" where
  "rta_readptr rta = (case rta of At i \<Rightarrow> At (i + 4) | _ \<Rightarrow> Wild)"

text \<open>\<open>rta_read8\<close> to \<open>rta_read64\<close> end the program when the payload is longer than the number.\<close>

definition rta_read :: "nat \<Rightarrow> u8 list \<Rightarrow> attr_ptr \<Rightarrow> nat option" where
  "rta_read n mem rta =
     do { i \<leftarrow> at rta; l \<leftarrow> rta_payload mem i; c_assert (l \<le> n); mem_le n mem (i + 4) }"

definition rta_read8 :: "u8 list \<Rightarrow> attr_ptr \<Rightarrow> nat option" where "rta_read8 = rta_read 1"
definition rta_read16 :: "u8 list \<Rightarrow> attr_ptr \<Rightarrow> nat option" where "rta_read16 = rta_read 2"
definition rta_read32 :: "u8 list \<Rightarrow> attr_ptr \<Rightarrow> nat option" where "rta_read32 = rta_read 4"
definition rta_read64 :: "u8 list \<Rightarrow> attr_ptr \<Rightarrow> nat option" where "rta_read64 = rta_read 8"

definition chars_of :: "u8 list \<Rightarrow> string" where "chars_of bs = map (\<lambda>b. char_of (unat b)) bs"

definition rta_readstr :: "u8 list \<Rightarrow> attr_ptr \<Rightarrow> string option" where
  "rta_readstr mem rta =
     do { i \<leftarrow> at rta;
          let s = drop (i + 4) mem;
          c_assert (0 \<in> set s);
          payloadlen \<leftarrow> rta_payload mem i;
          let strbuf = takeWhile (\<lambda>b. b \<noteq> 0) s;
          c_assert (length strbuf \<le> payloadlen);
          Some (chars_of strbuf) }"

section \<open>Messages\<close>

definition nlmsg_len :: "u8 list \<Rightarrow> nat \<Rightarrow> nat option" where "nlmsg_len mem h = mem_le 4 mem h"
definition nlmsg_type :: "u8 list \<Rightarrow> nat \<Rightarrow> nat option" where "nlmsg_type mem h = mem_le 2 mem (h + 4)"

text \<open>\<open>IFA_PAYLOAD\<close>: the length of the attributes of a message whose body starts with eight bytes.\<close>

definition IFA_PAYLOAD :: "u8 list \<Rightarrow> nat \<Rightarrow> nat option" where
  "IFA_PAYLOAD mem h = do { len \<leftarrow> nlmsg_len mem h; Some (sub32 len 24) }"

text \<open>
  The loop over the messages of a datagram, \<open>size_t(status) >= sizeof(*h)\<close>. It ends with the value the function
  returns (\<^const>\<open>Inl\<close>) or with what is left of the datagram (\<^const>\<open>Inr\<close>). A message of length zero is handled for ever.
\<close>

partial_function (option) nlmsg_loop ::
  "(nat \<Rightarrow> bool) \<Rightarrow> (u8 list \<Rightarrow> nat \<Rightarrow> 's \<Rightarrow> (int \<times> 's) option) \<Rightarrow> u8 list \<Rightarrow> nat \<Rightarrow> int \<Rightarrow> 's \<Rightarrow> ((int + int) \<times> 's) option" where
  "nlmsg_loop stop handler mem h status s =
     (if 0 \<le> status \<and> status < int NLMSG_HDRLEN then Some (Inr status, s)
      else do { t \<leftarrow> nlmsg_type mem h;
                if stop t then Some (Inl 0, s)
                else do { len \<leftarrow> nlmsg_len mem h;
                          (err, s') \<leftarrow> handler mem h s;
                          if err < 0 then Some (Inl err, s')
                          else nlmsg_loop stop handler mem (h + align4 len mod 2 ^ 32) (c_int (status - int (align4 len))) s' } })"

text \<open>
  What \<open>recvmsg\<close> does: it fails, with or without a reason to try again, or writes a datagram, whole or truncated.
  A listener returns or waits for more when the list of what is received has ended; a remnant of a datagram ends the
  program.
\<close>

datatype recv_result = Recv_error bool | Recv "u8 list" bool
datatype listening = Returned int | Waiting

definition receive :: "u8 list \<Rightarrow> u8 list \<Rightarrow> u8 list" where
  "receive dgram buf = dgram @ drop (length dgram) buf"

fun listen_loop ::
  "(nat \<Rightarrow> bool) \<Rightarrow> (u8 list \<Rightarrow> nat \<Rightarrow> 's \<Rightarrow> (int \<times> 's) option) \<Rightarrow> recv_result list \<Rightarrow> u8 list \<Rightarrow> 's \<Rightarrow> (listening \<times> 's) option" where
  "listen_loop stop handler [] buf s = Some (Waiting, s)"
| "listen_loop stop handler (Recv_error again # rs) buf s =
     (if again then listen_loop stop handler rs buf s else Some (Returned (- 1), s))"
| "listen_loop stop handler (Recv dgram trunc # rs) buf s =
     (if dgram = [] then Some (Returned (- 1), s)
      else do { (r, s') \<leftarrow> nlmsg_loop stop handler (receive dgram buf) 0 (int (length dgram)) s;
                case r of
                  Inl v \<Rightarrow> Some (Returned v, s')
                | Inr status \<Rightarrow>
                    if trunc \<or> status = 0 then listen_loop stop handler rs (receive dgram buf) s' else None })"

definition netlink_listen_until_done ::
  "(u8 list \<Rightarrow> nat \<Rightarrow> 's \<Rightarrow> (int \<times> 's) option) \<Rightarrow> recv_result list \<Rightarrow> u8 list \<Rightarrow> 's \<Rightarrow> (listening \<times> 's) option" where
  "netlink_listen_until_done = listen_loop (\<lambda>t. t = NLMSG_ERROR \<or> t = NLMSG_DONE)"

definition netlink_listen ::
  "(u8 list \<Rightarrow> nat \<Rightarrow> 's \<Rightarrow> (int \<times> 's) option) \<Rightarrow> recv_result list \<Rightarrow> u8 list \<Rightarrow> 's \<Rightarrow> (listening \<times> 's) option" where
  "netlink_listen = listen_loop (\<lambda>_. False)"

section \<open>The cache of links\<close>

text \<open>The cache holds copies of link messages, from \<open>struct ifinfomsg\<close> on; \<open>ifi_index\<close> is at offset four.\<close>

definition ifi_index :: "u8 list \<Rightarrow> nat \<Rightarrow> int option" where
  "ifi_index mem ifi = map_option (\<lambda>v. c_int (int v)) (mem_le 4 mem (ifi + 4))"

definition ifi_flags :: "u8 list \<Rightarrow> nat \<Rightarrow> u32 option" where
  "ifi_flags mem ifi = map_option of_nat (mem_le 4 mem (ifi + 8))"

definition ifi_change :: "u8 list \<Rightarrow> nat \<Rightarrow> u32 option" where
  "ifi_change mem ifi = map_option of_nat (mem_le 4 mem (ifi + 12))"

fun update_links :: "int \<Rightarrow> u8 list \<Rightarrow> u8 list list \<Rightarrow> u8 list list option" where
  "update_links index raw [] = Some []"
| "update_links index raw (l # ls) =
     do { i \<leftarrow> ifi_index l 0; ls' \<leftarrow> update_links index raw ls; Some ((if i = index then raw else l) # ls') }"

definition netlink_cache_update_link :: "u8 list list \<Rightarrow> u8 list \<Rightarrow> nat \<Rightarrow> nat \<Rightarrow> u8 list list option" where
  "netlink_cache_update_link links mem ifm rta_len =
     do { raw \<leftarrow> mem_range mem ifm rta_len;
          index \<leftarrow> ifi_index mem ifm;
          links' \<leftarrow> update_links index raw links;
          Some (links' @ [raw]) }"

fun cache_find :: "u8 list list \<Rightarrow> int \<Rightarrow> u8 list ptr option" where
  "cache_find [] index = Some None"
| "cache_find (l # ls) index = do { i \<leftarrow> ifi_index l 0; if i = index then Some (Some l) else cache_find ls index }"

text \<open>The index is a \<open>uint16_t\<close>.\<close>

definition netlink_cache_get_link :: "u8 list list \<Rightarrow> int \<Rightarrow> u8 list ptr option" where
  "netlink_cache_get_link links index = cache_find links (index mod 2 ^ 16)"

definition netlink_cachelen_get_link :: "u8 list list \<Rightarrow> int \<Rightarrow> nat option" where
  "netlink_cachelen_get_link links index =
     map_option (\<lambda>l. case l of None \<Rightarrow> 0 | Some raw \<Rightarrow> length raw) (cache_find links (index mod 2 ^ 16))"

definition cache_callback :: "u8 list \<Rightarrow> nat \<Rightarrow> u8 list list \<Rightarrow> (int \<times> u8 list list) option" where
  "cache_callback mem n links =
     do { t \<leftarrow> nlmsg_type mem n;
          if t = NLMSG_DONE then Some (- 1, links)
          else if t = RTM_NEWLINK \<or> t = RTM_DELLINK
          then do { len \<leftarrow> IFA_PAYLOAD mem n;
                    links' \<leftarrow> netlink_cache_update_link links mem (n + NLMSG_HDRLEN) len;
                    Some (0, links') }
          else Some (0, links) }"

text \<open>The requests for a dump, as they are written to the socket.\<close>

definition NLM_F_DUMP_REQUEST :: nat where "NLM_F_DUMP_REQUEST = 0x301"

definition dump_request :: "nat \<Rightarrow> nat \<Rightarrow> nat \<Rightarrow> nat \<Rightarrow> u8 list \<Rightarrow> u8 list" where
  "dump_request len type seq pid body =
     le_bytes 4 len @ le_bytes 2 type @ le_bytes 2 NLM_F_DUMP_REQUEST @ le_bytes 4 seq @ le_bytes 4 pid @ body"

definition netlink_dump_route :: "nat \<Rightarrow> nat \<Rightarrow> u8 list" where
  "netlink_dump_route seq pid = dump_request 28 RTM_GETROUTE seq pid (2 # replicate 11 0)"

definition netlink_dump_addr :: "nat \<Rightarrow> nat \<Rightarrow> u8 list" where
  "netlink_dump_addr seq pid = dump_request 17 RTM_GETADDR seq pid (17 # replicate 3 0)"

definition netlink_dump_link :: "nat \<Rightarrow> nat \<Rightarrow> u8 list" where
  "netlink_dump_link seq pid = dump_request 17 RTM_GETLINK seq pid (17 # replicate 3 0)"

definition netlink_cache_alloc :: "recv_result list \<Rightarrow> u8 list \<Rightarrow> (listening \<times> u8 list list) option" where
  "netlink_cache_alloc rs buf = netlink_listen cache_callback rs buf []"

end
