(* ===== verification/Netlink_Laws.thy ===== *)
theory Netlink_Laws
  imports Netlink
begin

text \<open>
  Messages as the kernel writes them, and the library reading them: the attributes of a message are found under their
  types, also when the length that is searched is too large by a few bytes, and a listener hands the messages of a
  datagram to its handler one after the other.
\<close>

section \<open>Attributes\<close>

definition enc_attr :: "nat \<times> u8 list \<Rightarrow> u8 list" where
  "enc_attr a = le_bytes 2 (4 + length (snd a)) @ le_bytes 2 (fst a) @ snd a
                @ replicate (align4 (length (snd a)) - length (snd a)) 0"

definition enc_attrs :: "(nat \<times> u8 list) list \<Rightarrow> u8 list" where
  "enc_attrs as = concat (map enc_attr as)"

definition attr_ok :: "nat \<times> u8 list \<Rightarrow> bool" where
  "attr_ok a \<longleftrightarrow> fst a < MAX_ATTRS \<and> 4 + length (snd a) < 2 ^ 16"

fun attrs_at :: "nat \<Rightarrow> (nat \<times> u8 list) list \<Rightarrow> (nat \<Rightarrow> attr_ptr) \<Rightarrow> nat \<Rightarrow> attr_ptr" where
  "attrs_at i [] m = m"
| "attrs_at i (a # as) m = attrs_at (i + length (enc_attr a)) as (m(fst a := At i))"

text \<open>What follows the attributes does not look like an attribute that fits in the \<open>x\<close> bytes searched too far.\<close>

definition no_attr :: "nat \<Rightarrow> u8 list \<Rightarrow> bool" where
  "no_attr x post \<longleftrightarrow> x < 4 \<or> 2 \<le> length post \<and> (le_val (take 2 post) < 4 \<or> x < le_val (take 2 post))"

lemma align4_simps: "align4 (4 + n) = 4 + align4 n" "n \<le> align4 n" "align4 n < n + 4" "align4 n mod 4 = 0"
  by (auto simp: align4_def) presburger+

lemma align4_eq: "n mod 4 = 0 \<Longrightarrow> align4 n = n"
  unfolding align4_def by presburger

lemma length_enc_attr: "length (enc_attr a) = align4 (4 + length (snd a))"
  using align4_simps(2) [of "length (snd a)"] by (simp add: enc_attr_def align4_simps(1))

lemma enc_attrs_simps [simp]: "enc_attrs [] = []" "enc_attrs (a # as) = enc_attr a @ enc_attrs as"
  by (simp_all add: enc_attrs_def)

lemma length_enc_attrs_mod: "length (enc_attrs as) mod 4 = 0"
proof (induction as)
  case (Cons a as)
  then show ?case
    using align4_simps(4) [of "4 + length (snd a)"] by (simp add: length_enc_attr mod_add_eq [symmetric] del: mod_add_eq)
qed simp

lemma enc_attr_header:
  assumes "attr_ok a" "mem = pre @ enc_attr a @ post"
  shows "mem_le 2 mem (length pre) = Some (4 + length (snd a))" "mem_le 2 mem (length pre + 2) = Some (fst a)"
proof -
  let ?r = "snd a @ replicate (align4 (length (snd a)) - length (snd a)) 0 @ post"
  have "4 + length (snd a) < 65536" "fst a < 65536" using assms(1) by (auto simp: attr_ok_def MAX_ATTRS_def)
  moreover have "mem = pre @ le_bytes 2 (4 + length (snd a)) @ le_bytes 2 (fst a) @ ?r"
    "mem = (pre @ le_bytes 2 (4 + length (snd a))) @ le_bytes 2 (fst a) @ ?r"
    using assms(2) by (simp_all add: enc_attr_def)
  ultimately show "mem_le 2 mem (length pre) = Some (4 + length (snd a))" "mem_le 2 mem (length pre + 2) = Some (fst a)"
    using mem_le_at [of mem pre 2 "4 + length (snd a)"] mem_le_at [of mem "pre @ le_bytes 2 (4 + length (snd a))" 2 "fst a"]
    by simp_all
qed

lemma parse_rtattr_enc:
  assumes "list_all attr_ok as" "mem = pre @ enc_attrs as @ post" "no_attr x post" "length (enc_attrs as) + x < 2 ^ 64"
  shows "parse_rtattr mem (length pre) (length (enc_attrs as) + x) attrs MAX_ATTRS = Some (attrs_at (length pre) as attrs)"
  using assms
proof (induction as arbitrary: pre attrs)
  case Nil
  have "2 \<le> length post \<Longrightarrow> mem_le 2 mem (length pre) = Some (le_val (take 2 post))"
    using Nil.prems(2) by (simp add: mem_le_def mem_range_def)
  then show ?case using Nil.prems(3) by (subst parse_rtattr.simps) (auto simp: no_attr_def)
next
  case (Cons a as)
  let ?l = "4 + length (snd a)" and ?n = "length (enc_attrs (a # as)) + x"
  have ok: "attr_ok a" using Cons.prems(1) by simp
  have mem: "mem = pre @ enc_attr a @ enc_attrs as @ post" using Cons.prems(2) by simp
  note hd = enc_attr_header [OF ok mem]
  have len: "length (enc_attr a) = align4 ?l" by (rule length_enc_attr)
  have le: "?l \<le> align4 ?l" by (rule align4_simps(2))
  have sub: "sub64 ?n (align4 ?l) = length (enc_attrs as) + x" using Cons.prems(4) len by (simp add: sub64_le)
  have t: "fst a < MAX_ATTRS" using ok by (simp add: attr_ok_def)
  have "parse_rtattr mem (length (pre @ enc_attr a)) (length (enc_attrs as) + x) (attrs(fst a := At (length pre))) MAX_ATTRS =
          Some (attrs_at (length (pre @ enc_attr a)) as (attrs(fst a := At (length pre))))"
    using Cons.prems by (intro Cons.IH) simp_all
  moreover have "\<not> ?n < 4" "\<not> (?l < 4 \<or> ?n < ?l)" using len le by auto
  ultimately show ?case
    using hd t sub len by (subst parse_rtattr.simps) simp
qed

lemma attrs_at_absent: "t \<notin> fst ` set as \<Longrightarrow> attrs_at i as m t = m t"
  by (induction as arbitrary: i m) auto

lemma attrs_at_present:
  assumes "distinct (map fst as)" "a \<in> set as" "mem = pre @ enc_attrs as @ post"
  shows "\<exists>pre' post'. attrs_at (length pre) as m (fst a) = At (length pre') \<and> mem = pre' @ enc_attr a @ post'"
  using assms
proof (induction as arbitrary: pre m)
  case (Cons b as)
  show ?case
  proof (cases "a = b")
    case True
    then have "fst a \<notin> fst ` set as" using Cons.prems(1) by simp
    with True Cons.prems(3) show ?thesis by (auto simp: attrs_at_absent)
  next
    case False
    then show ?thesis
      using Cons.IH [of "pre @ enc_attr b" "m(fst b := At (length pre))"] Cons.prems by (simp add: fun_upd_def)
  qed
qed simp

lemma enc_attr_payload:
  assumes "attr_ok a" "mem = pre @ enc_attr a @ post"
  shows "mem_range mem (length pre + 4) (length (snd a)) = Some (snd a)"
    "rta_payload mem (length pre) = Some (length (snd a))"
proof -
  have "mem = (pre @ le_bytes 2 (4 + length (snd a)) @ le_bytes 2 (fst a)) @ snd a
          @ replicate (align4 (length (snd a)) - length (snd a)) 0 @ post"
    using assms(2) by (simp add: enc_attr_def)
  from mem_range_at [OF this] show "mem_range mem (length pre + 4) (length (snd a)) = Some (snd a)" by simp
  show "rta_payload mem (length pre) = Some (length (snd a))"
    using enc_attr_header(1) [OF assms] assms(1) sub64_le [of 4 "4 + length (snd a)"] by (simp add: rta_payload_def attr_ok_def)
qed

lemma rta_read32_enc:
  assumes "attr_ok a" "mem = pre @ enc_attr a @ post" "length (snd a) = 4"
  shows "rta_read32 mem (At (length pre)) = Some (le_val (snd a))"
  using enc_attr_payload [OF assms(1,2)] assms(3) by (simp add: rta_read32_def rta_read_def mem_le_def)

section \<open>Datagrams\<close>

definition msg_ok :: "(nat \<Rightarrow> bool) \<Rightarrow> u8 list \<Rightarrow> bool" where
  "msg_ok stop m \<longleftrightarrow> 16 \<le> length m \<and> length m mod 4 = 0 \<and> length m < 2 ^ 31 \<and> le_val (take 4 m) = length m
     \<and> \<not> stop (le_val (take 2 (drop 4 m)))"

lemma msg_header:
  assumes "msg_ok stop m" "mem = pre @ m @ post"
  shows "nlmsg_len mem (length pre) = Some (length m)" "nlmsg_type mem (length pre) = Some (le_val (take 2 (drop 4 m)))"
  using assms by (simp_all add: nlmsg_len_def nlmsg_type_def mem_le_def mem_range_def msg_ok_def)

definition dgram_of :: "('a \<Rightarrow> u8 list) \<Rightarrow> 'a list \<Rightarrow> u8 list" where
  "dgram_of enc ms = concat (map enc ms)"

lemma dgram_of_simps [simp]: "dgram_of enc [] = []" "dgram_of enc (m # ms) = enc m @ dgram_of enc ms"
  by (simp_all add: dgram_of_def)

lemma nlmsg_loop_msgs:
  assumes "\<forall>m \<in> set ms. msg_ok stop (enc m)" "mem = pre @ dgram_of enc ms @ post" "length (dgram_of enc ms) < 2 ^ 31" "I s"
    and "\<And>ms1 m ms2 s. ms = ms1 @ m # ms2 \<Longrightarrow> I s \<Longrightarrow>
           handler mem (length pre + length (dgram_of enc ms1)) s = Some (0, step m s) \<and> I (step m s)"
  shows "nlmsg_loop stop handler mem (length pre) (int (length (dgram_of enc ms))) s = Some (Inr 0, fold step ms s)"
  using assms
proof (induction ms arbitrary: pre s)
  case Nil
  then show ?case by (subst nlmsg_loop.simps) (simp add: NLMSG_HDRLEN_def)
next
  case (Cons m ms)
  let ?m = "enc m" and ?r = "dgram_of enc ms"
  have ok: "msg_ok stop ?m" using Cons.prems(1) by simp
  have mem: "mem = pre @ ?m @ ?r @ post" using Cons.prems(2) by simp
  note hd = msg_header [OF ok mem]
  have m: "16 \<le> length ?m" "align4 (length ?m) = length ?m" "length ?m < 2 ^ 31" "\<not> stop (le_val (take 2 (drop 4 ?m)))"
    using ok align4_eq by (auto simp: msg_ok_def)
  have h: "handler mem (length pre) s = Some (0, step m s)" "I (step m s)"
    using Cons.prems(5) [of "[]" m ms s] Cons.prems(4) by simp_all
  have st: "c_int (int (length (?m @ ?r)) - int (length ?m)) = int (length ?r)"
    using Cons.prems(3) c_int_small [of "int (length ?r)"] by simp
  have "nlmsg_loop stop handler mem (length (pre @ ?m)) (int (length ?r)) (step m s) = Some (Inr 0, fold step ms (step m s))"
  proof (rule Cons.IH)
    show "handler mem (length (pre @ ?m) + length (dgram_of enc ms1)) s' = Some (0, step m' s') \<and> I (step m' s')"
      if "ms = ms1 @ m' # ms2" "I s'" for ms1 m' ms2 s'
      using Cons.prems(5) [of "m # ms1" m' ms2 s'] that by (simp add: add.assoc)
  qed (use Cons.prems h(2) in simp_all)
  moreover have "\<not> int (length (dgram_of enc (m # ms))) < int NLMSG_HDRLEN" using m(1) by (simp add: NLMSG_HDRLEN_def)
  ultimately show ?case
    using hd h(1) m st by (subst nlmsg_loop.simps) simp
qed

text \<open>A listener that receives one whole datagram of messages handles them in order and waits for the next.\<close>

lemma listen_datagram:
  assumes "\<forall>m \<in> set ms. msg_ok stop (enc m)" "ms \<noteq> []" "length (dgram_of enc ms) < 2 ^ 31" "I s"
    and "\<And>ms1 m ms2 s. ms = ms1 @ m # ms2 \<Longrightarrow> I s \<Longrightarrow>
           handler (receive (dgram_of enc ms) buf) (length (dgram_of enc ms1)) s = Some (0, step m s) \<and> I (step m s)"
  shows "listen_loop stop handler [Recv (dgram_of enc ms) trunc] buf s = Some (Waiting, fold step ms s)"
proof -
  let ?d = "dgram_of enc ms"
  have "?d \<noteq> []" using assms(1,2) by (cases ms) (auto simp: msg_ok_def)
  moreover have "nlmsg_loop stop handler (receive ?d buf) (length ([] :: u8 list)) (int (length ?d)) s = Some (Inr 0, fold step ms s)"
  proof (rule nlmsg_loop_msgs [where I = I and post = "drop (length ?d) buf"])
    show "handler (receive ?d buf) (length ([] :: u8 list) + length (dgram_of enc ms1)) s' = Some (0, step m s') \<and> I (step m s')"
      if "ms = ms1 @ m # ms2" "I s'" for ms1 m ms2 s'
      using assms(5) that by simp
  qed (use assms in \<open>simp_all add: receive_def\<close>)
  ultimately show ?thesis by simp
qed

section \<open>The cache\<close>

lemma ifi_index_at: "mem = p @ ifi @ r \<Longrightarrow> 8 \<le> length ifi \<Longrightarrow> ifi_index mem (length p) = ifi_index ifi 0"
  by (simp add: ifi_index_def mem_le_def mem_range_def)

lemma ifi_index_Some: "8 \<le> length raw \<Longrightarrow> \<exists>i. ifi_index raw 0 = Some i"
  by (simp add: ifi_index_def mem_le_def mem_range_def)

lemma update_links_Some:
  assumes "\<forall>l \<in> set ls. 8 \<le> length l"
  shows "update_links index raw ls = Some (map (\<lambda>l. if ifi_index l 0 = Some index then raw else l) ls)"
  using assms
proof (induction ls)
  case (Cons l ls)
  then obtain i where "ifi_index l 0 = Some i" using ifi_index_Some by force
  with Cons show ?case by simp
qed simp

lemma cache_find_Some:
  assumes "\<forall>l \<in> set ls. 8 \<le> length l"
  shows "cache_find ls index = Some (List.find (\<lambda>l. ifi_index l 0 = Some index) ls)"
  using assms
proof (induction ls)
  case (Cons l ls)
  then obtain i where "ifi_index l 0 = Some i" using ifi_index_Some by force
  with Cons show ?case by simp
qed simp

end
