(* ===== verification/Vpp_Api.thy ===== *)
theory Vpp_Api
  imports C_Net
begin

text \<open>
  The client of the binary API of VPP (\<open>src/vpp.c\<close>): finding message numbers, crafting and sending requests, waiting
  for the reply, and reading prefixes.

  VPP itself is a parameter: for every connection attempt a \<open>vpp_env\<close> says whether it succeeds, which client index
  and which table of message names VPP gives, and which replies arrive before the wait times out. Multi-byte fields
  that the code converts to network order are the bytes it stores; other fields hold the value that is assigned.
\<close>

section \<open>Messages\<close>

record rprefix =
  rp_afi :: family
  rp_plen :: nat
  rp_raw :: "u8 list"

record fib_path =
  fp_sw_if_index :: "u8 list"
  fp_nh :: "u8 list"

record ip_route =
  rt_af :: nat
  rt_address :: "u8 list"
  rt_len :: nat
  rt_paths :: "fib_path list"

datatype vpp_body =
    Get_node_info (node_name: string)
  | Get_proc_info (proc_name: string)
  | Sr_localsid_add_del (is_del: nat) (localsid: "u8 list") (behavior: nat) (localsid_if: "u8 list")
      (nh_addr6: "u8 list") (nh_addr4: "u8 list")
  | Ip_route_add_del (route_is_add: nat) (route: ip_route)
  | Create_loopback
  | Control_ping
  | Ip_route_dump (dump_table: "u8 list")
  | Sw_interface_dump
  | Ip_address_dump (addr_dump_if: "u8 list") (addr_dump_ip6: nat)
  | Tap_inject_dump
  | Sw_interface_set_flags (flags_if: "u8 list") (admin_up_down: nat)
  | Sw_interface_add_del_address (address_if: "u8 list") (address_is_add: bool) (address_is_ipv6: nat)
      (address_length: nat) (address: "u8 list")
  | Tap_inject_enable_disable (is_enable: bool)

record vpp_msg =
  vm_id :: "u8 list"
  vm_client_index :: u32
  vm_context :: "u8 list"
  vm_body :: vpp_body

text \<open>The fields of a reply that routerd reads, in host order.\<close>

record vpp_reply =
  re_id :: u16
  re_retval :: int
  re_sw_if_index :: u32
  re_kernel_if_index :: u32
  re_proc_flags :: u16
  re_node_index :: u32
  re_node_type :: u32
  re_node_state :: nat
  re_node_flags :: u16

record vpp_env =
  ve_ret :: int
  ve_client_index :: u32
  ve_msg_index_by_name :: "(string \<times> u32) list"
  ve_queue :: "vpp_reply list"
  ve_random :: u32

record vpp =
  vp_client_index :: u32
  vp_connections :: nat
  vp_sent :: "vpp_msg list"

section \<open>Message numbers\<close>

text \<open>
  The table of VPP has the keys \<open>name_crc\<close> with eight hexadecimal digits. Without a match the function ends without
  a value.
\<close>

definition find_msg_id :: "(string \<times> u32) list \<Rightarrow> string \<Rightarrow> u32 option" where
  "find_msg_id msgs msg =
     map_option snd (List.find (\<lambda>(key, _). length msg + 9 = length key \<and> take (length msg) key = msg) msgs)"

definition send_msg :: "vpp_env \<Rightarrow> string \<Rightarrow> u32 \<Rightarrow> vpp_body \<Rightarrow> vpp \<Rightarrow> vpp option" where
  "send_msg e name msg_id bdy v =
     do { vl_msg_id \<leftarrow> find_msg_id (ve_msg_index_by_name e) name;
          Some (v\<lparr>vp_sent := vp_sent v @ [\<lparr>vm_id = htons (ucast vl_msg_id), vm_client_index = vp_client_index v,
                                            vm_context = htonl msg_id, vm_body = bdy\<rparr>]\<rparr>) }"

section \<open>Requests\<close>

definition NODE_NAME_SIZE :: nat where "NODE_NAME_SIZE = 64"

definition get_node_info :: "vpp_env \<Rightarrow> u16 \<Rightarrow> string \<Rightarrow> vpp \<Rightarrow> vpp option" where
  "get_node_info e msg_id name v =
     do { c_assert (length name \<le> NODE_NAME_SIZE); send_msg e ''get_node_info'' (ucast msg_id) (Get_node_info name) v }"

definition get_proc_info :: "vpp_env \<Rightarrow> u16 \<Rightarrow> string \<Rightarrow> vpp \<Rightarrow> vpp option" where
  "get_proc_info e msg_id name v =
     do { c_assert (length name \<le> NODE_NAME_SIZE); send_msg e ''get_proc_info'' (ucast msg_id) (Get_proc_info name) v }"

definition SR_BEHAVIOR_DX4 :: nat where "SR_BEHAVIOR_DX4 = 7"

definition ip6_route_srv6_end_dx4_add :: "vpp_env \<Rightarrow> u16 \<Rightarrow> u8 list \<Rightarrow> u8 list \<Rightarrow> u32 \<Rightarrow> vpp \<Rightarrow> vpp option" where
  "ip6_route_srv6_end_dx4_add e msg_id sid nh4 nh_ifindex v =
     do { s \<leftarrow> mem_range sid 0 16;
          n \<leftarrow> mem_range nh4 0 4;
          send_msg e ''sr_localsid_add_del'' (ucast msg_id)
            (Sr_localsid_add_del 0 s SR_BEHAVIOR_DX4 (htonl nh_ifindex) (replicate 16 0) n) v }"

definition ip_route_add_del :: "vpp_env \<Rightarrow> u16 \<Rightarrow> bool \<Rightarrow> rprefix \<Rightarrow> rprefix \<Rightarrow> u32 \<Rightarrow> vpp \<Rightarrow> vpp option" where
  "ip_route_add_del e msg_id is_add rte nexthop nh_ifindex v =
     do { c_assert (rp_afi rte = rp_afi nexthop);
          let n = (if rp_afi rte = AF_INET6 then 16 else 4);
          addr \<leftarrow> mem_range (rp_raw rte) 0 n;
          nh \<leftarrow> mem_range (rp_raw nexthop) 0 n;
          send_msg e ''ip_route_add_del'' (ucast msg_id)
            (Ip_route_add_del (if is_add then 1 else 0)
               \<lparr>rt_af = (if rp_afi rte = AF_INET6 then 1 else 0), rt_address = addr, rt_len = rp_plen rte,
                rt_paths = [\<lparr>fp_sw_if_index = htonl nh_ifindex, fp_nh = nh\<rparr>]\<rparr>) v }"

definition create_loopback :: "vpp_env \<Rightarrow> u32 \<Rightarrow> vpp \<Rightarrow> vpp option" where
  "create_loopback e msg_id = send_msg e ''create_loopback'' msg_id Create_loopback"

definition send_ping :: "vpp_env \<Rightarrow> u32 \<Rightarrow> vpp \<Rightarrow> vpp option" where
  "send_ping e msg_id = send_msg e ''control_ping'' msg_id Control_ping"

definition ip_route_dump :: "vpp_env \<Rightarrow> u32 \<Rightarrow> u32 \<Rightarrow> vpp \<Rightarrow> vpp option" where
  "ip_route_dump e msg_id table_id = send_msg e ''ip_route_dump'' msg_id (Ip_route_dump (htonl table_id))"

definition dump_ifcs :: "vpp_env \<Rightarrow> u32 \<Rightarrow> vpp \<Rightarrow> vpp option" where
  "dump_ifcs e msg_id = send_msg e ''sw_interface_dump'' msg_id Sw_interface_dump"

definition dump_ipaddrs :: "vpp_env \<Rightarrow> u32 \<Rightarrow> u32 \<Rightarrow> bool \<Rightarrow> vpp \<Rightarrow> vpp option" where
  "dump_ipaddrs e msg_id ifindex is_ipv6 =
     send_msg e ''ip_address_dump'' msg_id (Ip_address_dump (htonl ifindex) (if is_ipv6 then 1 else 0))"

definition tap_inject_dump :: "vpp_env \<Rightarrow> u16 \<Rightarrow> vpp \<Rightarrow> vpp option" where
  "tap_inject_dump e msg_id = send_msg e ''tap_inject_dump'' (ucast msg_id) Tap_inject_dump"

definition set_interface_flag :: "vpp_env \<Rightarrow> u32 \<Rightarrow> u32 \<Rightarrow> bool \<Rightarrow> vpp \<Rightarrow> vpp option" where
  "set_interface_flag e msg_id ifindex link_up =
     send_msg e ''sw_interface_set_flags'' msg_id (Sw_interface_set_flags (htonl ifindex) (if link_up then 1 else 0))"

text \<open>\<open>set_interface_addr\<close> copies \<open>addr_len\<close> bytes from the buffer; the argument is the whole object it points to.\<close>

definition set_interface_addr ::
  "vpp_env \<Rightarrow> u32 \<Rightarrow> u32 \<Rightarrow> bool \<Rightarrow> bool \<Rightarrow> u8 list \<Rightarrow> nat \<Rightarrow> vpp \<Rightarrow> vpp option" where
  "set_interface_addr e msg_id ifindex is_add is_ipv6 addr_buffer addr_len v =
     do { a \<leftarrow> mem_range addr_buffer 0 addr_len;
          send_msg e ''sw_interface_add_del_address'' msg_id
            (Sw_interface_add_del_address (htonl ifindex) is_add (if is_ipv6 then 1 else 0) addr_len a) v }"

definition enable_disable_tap_inject :: "vpp_env \<Rightarrow> u16 \<Rightarrow> bool \<Rightarrow> vpp \<Rightarrow> vpp option" where
  "enable_disable_tap_inject e msg_id is_en =
     send_msg e ''tap_inject_enable_disable'' (ucast msg_id) (Tap_inject_enable_disable is_en)"

section \<open>Connections and replies\<close>

definition disconnect_from_vpp :: "vpp \<Rightarrow> vpp" where
  "disconnect_from_vpp v = v\<lparr>vp_connections := vp_connections v - 1\<rparr>"

definition connect_to_vpp :: "vpp_env \<Rightarrow> vpp \<Rightarrow> int \<times> vpp" where
  "connect_to_vpp e v =
     (if ve_ret e < 0 then (- 1, v)
      else (0, v\<lparr>vp_client_index := ve_client_index e, vp_connections := vp_connections v + 1\<rparr>))"

definition vpp_waitmsg_retval :: "vpp_env \<Rightarrow> int" where
  "vpp_waitmsg_retval e = (case ve_queue e of [] \<Rightarrow> - 1 | mp # _ \<Rightarrow> re_retval mp)"

definition enable_disable_tap_inject_retval :: "vpp_env \<Rightarrow> int" where
  "enable_disable_tap_inject_retval e = (case ve_queue e of [] \<Rightarrow> - 1 | mp # _ \<Rightarrow> re_retval mp)"

section \<open>Helpers\<close>

text \<open>
  \<open>parse_prefix_str\<close>: the address is written over the front of \<open>u\<close> when \<open>inet_pton\<close> accepts the text and otherwise
  left as it was. The text before the slash is copied into an array of 128 characters.
\<close>

definition PREFIX_BUF :: nat where "PREFIX_BUF = 128"

definition parse_prefix_str :: "(family \<Rightarrow> string \<Rightarrow> u8 list ptr) \<Rightarrow> string \<Rightarrow> family \<Rightarrow> rprefix \<Rightarrow> rprefix option" where
  "parse_prefix_str pton str afi pref =
     do { c_assert (afi = AF_INET \<or> afi = AF_INET6);
          let set_u = (\<lambda>s. case pton afi s of None \<Rightarrow> rp_raw pref | Some bs \<Rightarrow> put_front bs (rp_raw pref));
          let pos = length (takeWhile (\<lambda>ch. ch \<noteq> CHR ''/'') str);
          if pos = length str
          then Some \<lparr>rp_afi = afi, rp_plen = (if afi = AF_INET then 32 else 128), rp_raw = set_u str\<rparr>
          else do { buf \<leftarrow> wr (take PREFIX_BUF (str @ replicate PREFIX_BUF NUL)) pos NUL;
                    plen \<leftarrow> strtol0 (drop (pos + 1) buf);
                    Some \<lparr>rp_afi = afi, rp_plen = nat (plen mod 2 ^ 64), rp_raw = set_u (c_str buf)\<rparr> } }"

definition vpp_node_type_str :: "nat \<Rightarrow> string option" where
  "vpp_node_type_str num =
     do { s \<leftarrow> rd [Some ''internale'', Some ''input'', Some ''pre_input'', Some ''process'', None] num; s }"

text \<open>The flags of a process; the three constants are those of VPP.\<close>

definition vpp_proc_flags_to_state :: "u16 \<Rightarrow> u16 \<Rightarrow> u16 \<Rightarrow> u16 \<Rightarrow> string" where
  "vpp_proc_flags_to_state clock event running flags =
     (let w = flags AND (clock OR event)
      in if w = clock then ''time wait'' else if w = event then ''event wait'' else if w = event OR clock then ''any wait''
         else if flags AND running = 0 then ''done'' else ''active'')"

section \<open>Properties\<close>

text \<open>A table of names with distinct texts gives every message its own number.\<close>

lemma find_Some_in: "List.find P xs = Some x \<Longrightarrow> x \<in> set xs \<and> P x"
  by (induction xs) (auto split: if_splits)

lemma find_msg_id_named:
  assumes "(name @ ''_'' @ crc, n) \<in> set msgs" "length crc = 8"
    "\<And>key k. (key, k) \<in> set msgs \<Longrightarrow> length key = length name + 9 \<Longrightarrow> take (length name) key = name \<Longrightarrow> k = n"
  shows "find_msg_id msgs name = Some n"
proof -
  let ?P = "\<lambda>(key, _ :: u32). length name + 9 = length key \<and> take (length name) key = name"
  have "?P (name @ ''_'' @ crc, n)" using assms(2) by simp
  with assms(1) have "List.find ?P msgs \<noteq> None" unfolding find_None_iff by blast
  then obtain x where x: "List.find ?P msgs = Some x" by blast
  from find_Some_in [OF x] have "x \<in> set msgs" "?P x" by blast+
  with assms(3) have "snd x = n" by (cases x) auto
  with x show ?thesis by (simp add: find_msg_id_def)
qed

lemma parse_prefix_str_plain:
  assumes "CHR ''/'' \<notin> set s" "inet_pton4 s = Some bs" "\<And>t. pton AF_INET t = inet_pton4 t"
  shows "parse_prefix_str pton s AF_INET p = Some \<lparr>rp_afi = AF_INET, rp_plen = 32, rp_raw = put_front bs (rp_raw p)\<rparr>"
proof -
  have "\<forall>x \<in> set s. x \<noteq> CHR ''/''" using assms(1) by blast
  then have "takeWhile (\<lambda>ch. ch \<noteq> CHR ''/'') s = s" by (rule takeWhile_eq_all_conv [THEN iffD2])
  then have "length (takeWhile (\<lambda>ch. ch \<noteq> CHR ''/'') s) = length s" by (rule arg_cong)
  then show ?thesis using assms(2,3) by (simp add: parse_prefix_str_def Let_def)
qed

lemma take_padded: "length xs < n \<Longrightarrow> take n (xs @ replicate n x) = xs @ replicate (n - length xs) x"
  by simp

lemma parse_prefix_str_slash:
  assumes s: "CHR ''/'' \<notin> set s" "NUL \<notin> set s" "length s \<le> 15" and n: "n < 1000"
    and pton: "\<And>t. pton AF_INET t = inet_pton4 t"
  shows "parse_prefix_str pton (s @ ''/'' @ print_u n) AF_INET p =
           Some \<lparr>rp_afi = AF_INET, rp_plen = n,
                  rp_raw = (case inet_pton4 s of None \<Rightarrow> rp_raw p | Some bs \<Rightarrow> put_front bs (rp_raw p))\<rparr>"
proof -
  let ?str = "s @ ''/'' @ print_u n"
  have "takeWhile (\<lambda>ch. ch \<noteq> CHR ''/'') ?str = s @ takeWhile (\<lambda>ch. ch \<noteq> CHR ''/'') (''/'' @ print_u n)"
    by (rule takeWhile_append2) (use s(1) in blast)
  then have tw: "length (takeWhile (\<lambda>ch. ch \<noteq> CHR ''/'') ?str) = length s" by simp
  have ln: "length ?str < PREFIX_BUF" using print_u_short [of n 2] n s(3) by (simp add: PREFIX_BUF_def)
  define r where "r = replicate (PREFIX_BUF - length ?str - 1) NUL"
  have "NUL # r = replicate (PREFIX_BUF - length ?str) NUL"
    unfolding r_def replicate_Suc [symmetric] using ln by (simp del: replicate_Suc)
  then have r: "take PREFIX_BUF (?str @ replicate PREFIX_BUF NUL) = ?str @ NUL # r"
    using take_padded [of ?str PREFIX_BUF NUL] ln by argo
  have buf: "wr (?str @ NUL # r) (length s) NUL = Some (s @ NUL # print_u n @ NUL # r)"
    by (simp add: wr_def list_update_append)
  have num: "strtol0 (drop (length s + 1) (s @ NUL # print_u n @ NUL # r)) = Some (int n)"
    using strtol0_print_u [of n r] n by simp
  have cs: "c_str (s @ NUL # print_u n @ NUL # r) = s" using s(2) by (rule c_str_append_NUL)
  have nn: "nat (int n mod 2 ^ 64) = n" using n by simp
  have ne: "length s \<noteq> length ?str" by simp
  show ?thesis
    unfolding parse_prefix_str_def Let_def tw r if_not_P [OF ne] buf bind.bind_lunit num cs nn by (simp add: pton n nn)
qed

end
