(* ===== verification/Routerd.thy ===== *)
theory Routerd
  imports Netlink Vpp_Api
begin

text \<open>
  The netlink side of the daemon (\<open>src/netlink.cc\<close>, \<open>src/routerd.h\<close>, the debug flags of \<open>src/debug.cc\<close>) and the
  messages it reads, with their text as commands of \<open>ip\<close> (\<open>libyalin/yalin/yalin_*.h\<close>): a notification of the kernel
  becomes a request to VPP.

  The environment gives what the code does not compute: VPP at every connection attempt, the names of the interfaces
  of the kernel, the text of IPv6 addresses, and the contents of the uninitialised local variables it reads.
\<close>

record os_env =
  en_vpp :: "nat \<Rightarrow> vpp_env"
  en_ifname :: "nat \<Rightarrow> string ptr"
  en_ntop6 :: "u8 list \<Rightarrow> string"
  en_pton6 :: "string \<Rightarrow> u8 list ptr"
  en_route_u :: "u8 list"
  en_nexthop_u :: "u8 list"
  en_addr6 :: "u8 list"
  en_addr4 :: "u8 list"
  en_sub :: "nat \<Rightarrow> attr_ptr"

record routerd_interface =
  kern_ifindex :: u32
  vpp_ifindex :: u32
  kern_ifname :: string
  vpp_ifname :: string

datatype obj = Link | Addr | Route | Neigh

record routerd =
  rd_interfaces :: "routerd_interface list"
  rd_new_cnt :: "obj \<Rightarrow> nat"
  rd_del_cnt :: "obj \<Rightarrow> nat"
  rd_nlc :: "u8 list list"
  rd_debug_bitmap :: u64
  rd_vpp :: vpp
  rd_attempts :: nat
  rd_out :: "string list"

definition add_interface :: "u32 \<Rightarrow> string \<Rightarrow> u32 \<Rightarrow> string \<Rightarrow> routerd \<Rightarrow> routerd" where
  "add_interface k k_name v v_name s =
     s\<lparr>rd_interfaces := rd_interfaces s @
         [\<lparr>kern_ifindex = k, vpp_ifindex = v, kern_ifname = k_name, vpp_ifname = v_name\<rparr>]\<rparr>"

datatype debug_t = NETLINK | VPP | CLI

definition debug_bit :: "debug_t \<Rightarrow> u64" where
  "debug_bit d = (case d of NETLINK \<Rightarrow> 1 | VPP \<Rightarrow> 2 | CLI \<Rightarrow> 4)"

definition debug_enabled :: "debug_t \<Rightarrow> routerd \<Rightarrow> bool" where
  "debug_enabled d s \<longleftrightarrow> rd_debug_bitmap s AND debug_bit d \<noteq> 0"

definition set_debug :: "debug_t \<Rightarrow> bool \<Rightarrow> routerd \<Rightarrow> routerd" where
  "set_debug d on s =
     s\<lparr>rd_debug_bitmap := (if on then rd_debug_bitmap s OR debug_bit d else rd_debug_bitmap s AND NOT (debug_bit d))\<rparr>"

section \<open>Helpers\<close>

definition family_of :: "nat \<Rightarrow> family" where
  "family_of n = (if n = 2 then AF_INET else if n = 10 then AF_INET6 else AF_OTHER n)"

definition inet_pton :: "os_env \<Rightarrow> family \<Rightarrow> string \<Rightarrow> u8 list ptr" where
  "inet_pton e afi s = (if afi = AF_INET then inet_pton4 s else if afi = AF_INET6 then en_pton6 e s else None)"

text \<open>\<open>inetpton\<close> prints the address at a pointer; a family that \<open>inet_ntop\<close> does not know gives the empty text.\<close>

definition inetpton :: "os_env \<Rightarrow> u8 list \<Rightarrow> attr_ptr \<Rightarrow> family \<Rightarrow> string option" where
  "inetpton e mem p afi =
     (if afi = AF_INET then do { i \<leftarrow> at p; bs \<leftarrow> mem_range mem i 4; Some (inet_ntop4 bs) }
      else if afi = AF_INET6 then do { i \<leftarrow> at p; bs \<leftarrow> mem_range mem i 16; Some (en_ntop6 e bs) }
      else Some [])"

definition ifindex2str :: "os_env \<Rightarrow> nat \<Rightarrow> string" where
  "ifindex2str e ifindex = (case en_ifname e ifindex of None \<Rightarrow> ''none'' | Some name \<Rightarrow> name)"

text \<open>\<open>strfmt\<close> prints into an array of a thousand characters.\<close>

definition strfmt :: "string \<Rightarrow> string option" where
  "strfmt s = do { c_assert (length s < 1000); Some s }"

definition ip_version :: "family \<Rightarrow> string" where
  "ip_version afi = (if afi = AF_INET then ''4'' else ''6'')"

text \<open>An optional attribute that holds an address or the index of an interface, as text.\<close>

definition addr_text :: "os_env \<Rightarrow> u8 list \<Rightarrow> (nat \<Rightarrow> attr_ptr) \<Rightarrow> nat \<Rightarrow> family \<Rightarrow> string option" where
  "addr_text e mem rtas t afi = (if rtas t = Null then Some [] else inetpton e mem (rta_readptr (rtas t)) afi)"

definition ifname_text :: "os_env \<Rightarrow> u8 list \<Rightarrow> (nat \<Rightarrow> attr_ptr) \<Rightarrow> nat \<Rightarrow> string option" where
  "ifname_text e mem rtas t =
     (if rtas t = Null then Some [] else do { index \<leftarrow> rta_read32 mem (rtas t); Some (ifindex2str e index) })"

definition ifindex_kernel2vpp :: "routerd \<Rightarrow> u32 \<Rightarrow> u32" where
  "ifindex_kernel2vpp s k_idx =
     (case List.find (\<lambda>i. k_idx = kern_ifindex i) (rd_interfaces s) of None \<Rightarrow> 0 | Some i \<Rightarrow> vpp_ifindex i)"

section \<open>Requests to VPP\<close>

definition with_vpp :: "os_env \<Rightarrow> (vpp_env \<Rightarrow> vpp \<Rightarrow> vpp option) \<Rightarrow> routerd \<Rightarrow> routerd option" where
  "with_vpp e request s =
     (let ve = en_vpp e (rd_attempts s);
          (ret, v) = connect_to_vpp ve (rd_vpp s);
          s1 = s\<lparr>rd_attempts := rd_attempts s + 1\<rparr>
      in if ret < 0 then Some s1
         else do { v' \<leftarrow> request ve v; Some (s1\<lparr>rd_vpp := disconnect_from_vpp v'\<rparr>) })"

definition set_link :: "os_env \<Rightarrow> u32 \<Rightarrow> bool \<Rightarrow> routerd \<Rightarrow> routerd option" where
  "set_link e ifindex link_up =
     with_vpp e (\<lambda>ve. set_interface_flag ve (ucast (ucast (ve_random ve) :: u16)) ifindex link_up)"

definition set_addr_vpp :: "os_env \<Rightarrow> u32 \<Rightarrow> u8 list \<Rightarrow> nat \<Rightarrow> bool \<Rightarrow> routerd \<Rightarrow> routerd option" where
  "set_addr_vpp e ifindex addr addr_len is_add =
     with_vpp e (\<lambda>ve. set_interface_addr ve (ucast (ucast (ve_random ve) :: u16)) ifindex is_add False addr addr_len)"

definition set_route :: "os_env \<Rightarrow> string \<Rightarrow> string \<Rightarrow> u32 \<Rightarrow> bool \<Rightarrow> routerd \<Rightarrow> routerd option" where
  "set_route e route_str nh_str vpp_oif is_new =
     with_vpp e (\<lambda>ve v.
       do { route_pref \<leftarrow> parse_prefix_str (inet_pton e) route_str AF_INET
                            \<lparr>rp_afi = AF_UNSPEC, rp_plen = 0, rp_raw = en_route_u e\<rparr>;
            nexthop_pref \<leftarrow> parse_prefix_str (inet_pton e) nh_str AF_INET
                              \<lparr>rp_afi = AF_UNSPEC, rp_plen = 0, rp_raw = en_nexthop_u e\<rparr>;
            ip_route_add_del ve 10 is_new route_pref nexthop_pref vpp_oif v })"

section \<open>Links\<close>

definition IFLA_ADDRESS :: nat where "IFLA_ADDRESS = 1"
definition IFLA_IFNAME :: nat where "IFLA_IFNAME = 3"
definition IFLA_MTU :: nat where "IFLA_MTU = 4"
definition IFLA_LINK :: nat where "IFLA_LINK = 5"
definition IFLA_LINKINFO :: nat where "IFLA_LINKINFO = 18"
definition IFLA_INFO_KIND :: nat where "IFLA_INFO_KIND = 1"
definition IFLA_INFO_DATA :: nat where "IFLA_INFO_DATA = 2"
definition IFLA_VLAN_ID :: nat where "IFLA_VLAN_ID = 1"
definition IFLA_VRF_TABLE :: nat where "IFLA_VRF_TABLE = 1"
definition IFF_UP :: u32 where "IFF_UP = 1"
definition IFF_PROMISC :: u32 where "IFF_PROMISC = 0x100"

definition link_ifname :: "u8 list \<Rightarrow> (nat \<Rightarrow> attr_ptr) \<Rightarrow> string option" where
  "link_ifname mem rtas = (if rtas IFLA_IFNAME = Null then Some [] else rta_readstr mem (rtas IFLA_IFNAME))"

text \<open>Attributes inside an attribute; the array they are noted in is not initialised.\<close>

definition nested :: "os_env \<Rightarrow> u8 list \<Rightarrow> attr_ptr \<Rightarrow> (nat \<Rightarrow> attr_ptr) option" where
  "nested e mem rta =
     do { i \<leftarrow> at rta; l \<leftarrow> rta_payload mem i; parse_rtattr mem (i + 4) l (en_sub e) MAX_ATTRS }"

definition to_iproute2_cli_adddel_link :: "os_env \<Rightarrow> u8 list \<Rightarrow> (nat \<Rightarrow> attr_ptr) \<Rightarrow> nat \<Rightarrow> string option" where
  "to_iproute2_cli_adddel_link e mem rtas type =
     do { ifname \<leftarrow> link_ifname mem rtas;
          sub \<leftarrow> nested e mem (rtas IFLA_LINKINFO);
          tname \<leftarrow> rta_readstr mem (sub IFLA_INFO_KIND);
          str \<leftarrow> strfmt (''ip link '' @ (if type = RTM_NEWLINK then ''add'' else ''del'') @ '' '' @ ifname @ '' type '' @ tname);
          if tname = ''vlan''
          then do { ii \<leftarrow> rta_read32 mem (rtas IFLA_LINK);
                    subsub \<leftarrow> nested e mem (sub IFLA_INFO_DATA);
                    vid \<leftarrow> rta_read16 mem (subsub IFLA_VLAN_ID);
                    more \<leftarrow> strfmt ('' link '' @ ifindex2str e ii @ '' id '' @ print_u vid);
                    Some (str @ more) }
          else if tname = ''dummy'' \<or> tname = ''bridge'' then Some str
          else if tname = ''vrf''
          then do { subsub \<leftarrow> nested e mem (sub IFLA_INFO_DATA);
                    tableid \<leftarrow> rta_read32 mem (subsub IFLA_VRF_TABLE);
                    more \<leftarrow> strfmt ('' table '' @ print_u tableid);
                    Some (str @ more) }
          else Some (str @ '' UNKNOWNOPT???'') }"

text \<open>Changes of the attributes of a link are told from the copy in the cache, which is then brought up to date.\<close>

definition to_iproute2_cli_set_link ::
  "os_env \<Rightarrow> u8 list \<Rightarrow> nat \<Rightarrow> nat \<Rightarrow> (nat \<Rightarrow> attr_ptr) \<Rightarrow> nat \<Rightarrow> u8 list list \<Rightarrow> (string \<times> u8 list list) option" where
  "to_iproute2_cli_set_link e mem ifi len rtas type nlc =
     do { c_assert (type = RTM_NEWLINK);
          ifname \<leftarrow> link_ifname mem rtas;
          index \<leftarrow> ifi_index mem ifi;
          cached \<leftarrow> netlink_cache_get_link nlc index;
          cached_len \<leftarrow> netlink_cachelen_get_link nlc index;
          case cached of
            None \<Rightarrow> Some ([], nlc)
          | Some raw \<Rightarrow>
              do { crtas \<leftarrow> rta_array raw 16 cached_len;
                   let lname = ifindex2str e (nat (index mod 2 ^ 32));
                   old_mtu \<leftarrow> rta_read32 raw (crtas IFLA_MTU);
                   new_mtu \<leftarrow> rta_read32 mem (rtas IFLA_MTU);
                   mtu \<leftarrow> (if old_mtu \<noteq> new_mtu then strfmt (''ip link set '' @ lname @ '' mtu '' @ print_u new_mtu) else Some []);
                   oi \<leftarrow> at (crtas IFLA_ADDRESS);
                   old_addr \<leftarrow> mem_range raw (oi + 4) 6;
                   ni \<leftarrow> at (rtas IFLA_ADDRESS);
                   new_addr \<leftarrow> mem_range mem (ni + 4) 6;
                   addr \<leftarrow> (if old_addr \<noteq> new_addr then strfmt (''ip link set '' @ lname @ '' address '' @ print_hex_colon new_addr) else Some []);
                   nlc' \<leftarrow> netlink_cache_update_link nlc mem ifi len;
                   Some (mtu @ addr, nlc') } }"

definition to_iproute2_cli_set_link_flag :: "u8 list \<Rightarrow> (nat \<Rightarrow> attr_ptr) \<Rightarrow> nat \<Rightarrow> u32 \<Rightarrow> u32 \<Rightarrow> string option" where
  "to_iproute2_cli_set_link_flag mem rtas type flags change =
     do { c_assert (type = RTM_NEWLINK);
          ifname \<leftarrow> link_ifname mem rtas;
          str \<leftarrow> strfmt (''ip link set dev '' @ ifname @ '' '');
          let affected_flag = NOT 0 AND change;
          let destination_bit = flags AND change;
          Some (if change \<noteq> 0
                then str
                  @ (if affected_flag AND IFF_UP \<noteq> 0 then (if destination_bit AND affected_flag \<noteq> 0 then ''up'' else ''down'') else [])
                  @ (if affected_flag AND IFF_PROMISC \<noteq> 0
                     then (if destination_bit AND affected_flag \<noteq> 0 then ''promisc on'' else ''promisc off'') else [])
                else str @ ''UNSUPPORTED...?'') }"

definition link_to_iproute2_cli ::
  "os_env \<Rightarrow> u8 list \<Rightarrow> nat \<Rightarrow> nat \<Rightarrow> (nat \<Rightarrow> attr_ptr) \<Rightarrow> nat \<Rightarrow> u8 list list \<Rightarrow> (string \<times> u8 list list) option" where
  "link_to_iproute2_cli e mem ifi len rtas type nlc =
     do { flags \<leftarrow> ifi_flags mem ifi;
          change \<leftarrow> ifi_change mem ifi;
          if NOT change = 0 then do { str \<leftarrow> to_iproute2_cli_adddel_link e mem rtas type; Some (str, nlc) }
          else if change = 0 then to_iproute2_cli_set_link e mem ifi len rtas type nlc
          else do { str \<leftarrow> to_iproute2_cli_set_link_flag mem rtas type flags change; Some (str, nlc) } }"

definition link_analyze_and_hook :: "os_env \<Rightarrow> u8 list \<Rightarrow> nat \<Rightarrow> routerd \<Rightarrow> routerd option" where
  "link_analyze_and_hook e mem ifi s =
     do { flags \<leftarrow> ifi_flags mem ifi;
          change \<leftarrow> ifi_change mem ifi;
          index \<leftarrow> ifi_index mem ifi;
          let affected_flag = NOT 0 AND change;
          let target_bit = flags AND change;
          if affected_flag AND IFF_UP \<noteq> 0
          then (let next_is_up = (target_bit AND affected_flag \<noteq> 0); idx = ifindex_kernel2vpp s (word_of_int index)
                in if idx = 0 then Some s else set_link e idx next_is_up s)
          else Some s }"

section \<open>Addresses\<close>

definition ifa_family :: "u8 list \<Rightarrow> nat \<Rightarrow> family option" where
  "ifa_family mem ifa = map_option family_of (mem_le 1 mem ifa)"

definition ifa_prefixlen :: "u8 list \<Rightarrow> nat \<Rightarrow> nat option" where "ifa_prefixlen mem ifa = mem_le 1 mem (ifa + 1)"
definition ifa_index :: "u8 list \<Rightarrow> nat \<Rightarrow> nat option" where "ifa_index mem ifa = mem_le 4 mem (ifa + 4)"

definition addr_to_iproute2_cli :: "os_env \<Rightarrow> u8 list \<Rightarrow> nat \<Rightarrow> (nat \<Rightarrow> attr_ptr) \<Rightarrow> nat \<Rightarrow> string option" where
  "addr_to_iproute2_cli e mem ifa rtas type =
     do { afi \<leftarrow> ifa_family mem ifa;
          addr \<leftarrow> inetpton e mem (rta_readptr (rtas IFLA_ADDRESS)) afi;
          index \<leftarrow> ifa_index mem ifa;
          plen \<leftarrow> ifa_prefixlen mem ifa;
          strfmt (''ip -'' @ ip_version afi @ '' addr '' @ (if type = RTM_NEWADDR then ''add'' else ''del'') @ '' '' @ addr
                  @ ''/'' @ print_u plen @ '' dev '' @ ifindex2str e index) }"

definition addr_analyze_and_hook :: "os_env \<Rightarrow> u8 list \<Rightarrow> nat \<Rightarrow> (nat \<Rightarrow> attr_ptr) \<Rightarrow> bool \<Rightarrow> routerd \<Rightarrow> routerd option" where
  "addr_analyze_and_hook e mem ifa rtas is_new s =
     do { afi \<leftarrow> ifa_family mem ifa;
          if afi \<noteq> AF_INET then Some s
          else (let addr_ptr = rta_readptr (rtas IFLA_ADDRESS)
                in if addr_ptr = Null then Some s
                   else do { index \<leftarrow> ifa_index mem ifa;
                             let idx = ifindex_kernel2vpp s (of_nat index);
                             if idx = 0 then Some s
                             else do { i \<leftarrow> at addr_ptr;
                                       addr \<leftarrow> mem_range mem i 4;
                                       addr_len \<leftarrow> ifa_prefixlen mem ifa;
                                       set_addr_vpp e idx addr addr_len is_new s } }) }"

section \<open>Routes\<close>

definition RTA_DST :: nat where "RTA_DST = 1"
definition RTA_SRC :: nat where "RTA_SRC = 2"
definition RTA_IIF :: nat where "RTA_IIF = 3"
definition RTA_OIF :: nat where "RTA_OIF = 4"
definition RTA_GATEWAY :: nat where "RTA_GATEWAY = 5"
definition RTA_ENCAP_TYPE :: nat where "RTA_ENCAP_TYPE = 21"
definition RTA_ENCAP :: nat where "RTA_ENCAP = 22"
definition LWTUNNEL_ENCAP_SEG6 :: nat where "LWTUNNEL_ENCAP_SEG6 = 5"
definition LWTUNNEL_ENCAP_SEG6_LOCAL :: nat where "LWTUNNEL_ENCAP_SEG6_LOCAL = 7"
definition SEG6_IPTUNNEL_SRH :: nat where "SEG6_IPTUNNEL_SRH = 1"
definition SEG6_LOCAL_ACTION :: nat where "SEG6_LOCAL_ACTION = 1"
definition SEG6_LOCAL_TABLE :: nat where "SEG6_LOCAL_TABLE = 3"
definition SEG6_LOCAL_NH4 :: nat where "SEG6_LOCAL_NH4 = 4"
definition SEG6_LOCAL_NH6 :: nat where "SEG6_LOCAL_NH6 = 5"
definition SEG6_LOCAL_OIF :: nat where "SEG6_LOCAL_OIF = 7"
definition SEG6_LOCAL_ACTION_END_X :: nat where "SEG6_LOCAL_ACTION_END_X = 2"
definition SEG6_LOCAL_ACTION_END_T :: nat where "SEG6_LOCAL_ACTION_END_T = 3"
definition SEG6_LOCAL_ACTION_END_DX2 :: nat where "SEG6_LOCAL_ACTION_END_DX2 = 4"
definition SEG6_LOCAL_ACTION_END_DX4 :: nat where "SEG6_LOCAL_ACTION_END_DX4 = 6"

lemmas rta_defs = RTA_DST_def RTA_SRC_def RTA_IIF_def RTA_OIF_def RTA_GATEWAY_def RTA_ENCAP_TYPE_def RTA_ENCAP_def

definition seg6_actions :: "string list" where
  "seg6_actions = [''unspec '', ''end'', ''end.x'', ''end.t'', ''end.dx2'', ''end.dx6'', ''end.dx4'', ''end.dt6'', ''end.dt4'',
     ''end.b6'', ''end.b6_encap'', ''end.bm'', ''end.s'', ''end.as'', ''end.am'']"

text \<open>The action is passed as a \<open>uint16_t\<close>.\<close>

definition SEG6_LOCAL_ACTION_to_str2 :: "nat \<Rightarrow> string" where
  "SEG6_LOCAL_ACTION_to_str2 act =
     (let a = act mod 2 ^ 16 in if a < length seg6_actions then seg6_actions ! a else ''SEG6_LOCAL_ACTION_UNKNOWN'')"

definition rtm_family :: "u8 list \<Rightarrow> nat \<Rightarrow> family option" where
  "rtm_family mem rtm = map_option family_of (mem_le 1 mem rtm)"

definition rtm_dst_len :: "u8 list \<Rightarrow> nat \<Rightarrow> nat option" where "rtm_dst_len mem rtm = mem_le 1 mem (rtm + 1)"

text \<open>The segments of a segment routing header, separated by commas.\<close>

fun segs_text :: "os_env \<Rightarrow> u8 list \<Rightarrow> nat \<Rightarrow> nat \<Rightarrow> string option" where
  "segs_text e mem a 0 = Some []"
| "segs_text e mem a (Suc n) =
     do { str \<leftarrow> inetpton e mem (At a) AF_INET6;
          seg \<leftarrow> strfmt (str @ (if n = 0 then [] else '',''));
          rest \<leftarrow> segs_text e mem (a + 16) n;
          Some (seg @ rest) }"

definition route_head :: "family \<Rightarrow> nat \<Rightarrow> string \<Rightarrow> nat \<Rightarrow> string" where
  "route_head afi type dst dst_len =
     ''ip -'' @ ip_version afi @ '' route '' @ (if type = RTM_NEWROUTE then ''add'' else ''del'') @ '' '' @ dst @ ''/'' @ print_u dst_len"

definition seg6_text :: "os_env \<Rightarrow> u8 list \<Rightarrow> (nat \<Rightarrow> attr_ptr) \<Rightarrow> (string \<times> string) option" where
  "seg6_text e mem sub =
     (if sub SEG6_IPTUNNEL_SRH = Null then Some ([], [])
      else do { i \<leftarrow> at (sub SEG6_IPTUNNEL_SRH);
                mode \<leftarrow> mem_le 4 mem (i + 4);
                hdrlen \<leftarrow> mem_le 1 mem (i + 9);
                segs \<leftarrow> segs_text e mem (i + 16) (hdrlen div 2);
                Some (if mode = 0 then ''inline'' else if mode = 1 then ''encap'' else if mode = 2 then ''l2encap'' else [], segs) })"

definition seg6_local_text :: "os_env \<Rightarrow> u8 list \<Rightarrow> (nat \<Rightarrow> attr_ptr) \<Rightarrow> string option" where
  "seg6_local_text e mem sub =
     (if sub SEG6_LOCAL_ACTION = Null then Some []
      else do { num \<leftarrow> rta_read32 mem (sub SEG6_LOCAL_ACTION);
                let action = SEG6_LOCAL_ACTION_to_str2 num;
                if num = SEG6_LOCAL_ACTION_END_X \<and> sub SEG6_LOCAL_NH6 \<noteq> Null
                then do { nh \<leftarrow> inetpton e mem (rta_readptr (sub SEG6_LOCAL_NH6)) AF_INET6; Some (action @ '' nh6 '' @ nh) }
                else if num = SEG6_LOCAL_ACTION_END_DX2 \<and> sub SEG6_LOCAL_OIF \<noteq> Null
                then do { index \<leftarrow> rta_read32 mem (sub SEG6_LOCAL_OIF); Some (action @ '' oif '' @ ifindex2str e index) }
                else if num = SEG6_LOCAL_ACTION_END_T \<and> sub SEG6_LOCAL_TABLE \<noteq> Null
                then do { table_id \<leftarrow> rta_read32 mem (sub SEG6_LOCAL_OIF); Some (action @ '' table '' @ print_d (c_int (int table_id))) }
                else Some action })"

definition route_to_iproute2_cli :: "os_env \<Rightarrow> u8 list \<Rightarrow> nat \<Rightarrow> (nat \<Rightarrow> attr_ptr) \<Rightarrow> nat \<Rightarrow> string option" where
  "route_to_iproute2_cli e mem rtm rtas type =
     do { afi \<leftarrow> rtm_family mem rtm;
          dst_len \<leftarrow> rtm_dst_len mem rtm;
          src \<leftarrow> addr_text e mem rtas RTA_SRC afi;
          iif \<leftarrow> ifname_text e mem rtas RTA_IIF;
          dst \<leftarrow> addr_text e mem rtas RTA_DST afi;
          oif \<leftarrow> ifname_text e mem rtas RTA_OIF;
          let hd = route_head afi type dst dst_len;
          if rtas RTA_GATEWAY \<noteq> Null
          then do { gw \<leftarrow> inetpton e mem (rta_readptr (rtas RTA_GATEWAY)) afi; strfmt (hd @ '' via '' @ gw @ '' dev '' @ oif) }
          else if rtas RTA_ENCAP_TYPE \<noteq> Null
          then do { encap_type \<leftarrow> rta_read16 mem (rtas RTA_ENCAP_TYPE);
                    if encap_type = LWTUNNEL_ENCAP_SEG6
                    then do { sub \<leftarrow> nested e mem (rtas RTA_ENCAP);
                              (mode, segs) \<leftarrow> seg6_text e mem sub;
                              strfmt (hd @ '' encap seg6 mode '' @ mode @ '' segs '' @ segs @ '' dev '' @ oif) }
                    else if encap_type = LWTUNNEL_ENCAP_SEG6_LOCAL
                    then do { sub \<leftarrow> nested e mem (rtas RTA_ENCAP);
                              action \<leftarrow> seg6_local_text e mem sub;
                              strfmt (hd @ '' encap seg6local action '' @ action @ '' dev '' @ oif) }
                    else strfmt (hd @ '' unknown-type'') }
          else strfmt (hd @ '' unknown-type'') }"

text \<open>The action of a route of segment routing and the IPv4 next hop of the action \<open>end.dx4\<close>.\<close>

definition srv6_action :: "os_env \<Rightarrow> u8 list \<Rightarrow> (nat \<Rightarrow> attr_ptr) \<Rightarrow> (string \<times> string) option" where
  "srv6_action e mem rtas =
     (if rtas RTA_ENCAP_TYPE = Null then Some ([], [])
      else do { encap_type \<leftarrow> rta_read16 mem (rtas RTA_ENCAP_TYPE);
                if encap_type \<noteq> LWTUNNEL_ENCAP_SEG6_LOCAL then Some ([], [])
                else do { sub \<leftarrow> nested e mem (rtas RTA_ENCAP);
                          if sub SEG6_LOCAL_ACTION = Null then Some ([], [])
                          else do { num \<leftarrow> rta_read32 mem (sub SEG6_LOCAL_ACTION);
                                    nh4 \<leftarrow> (if num = SEG6_LOCAL_ACTION_END_DX4 \<and> sub SEG6_LOCAL_NH4 \<noteq> Null
                                            then inetpton e mem (rta_readptr (sub SEG6_LOCAL_NH4)) AF_INET else Some []);
                                    Some (SEG6_LOCAL_ACTION_to_str2 num, nh4) } } })"

definition pton_into :: "u8 list ptr \<Rightarrow> u8 list \<Rightarrow> u8 list" where
  "pton_into r old = (case r of None \<Rightarrow> old | Some bs \<Rightarrow> put_front bs old)"

definition route_analyze_and_hook :: "os_env \<Rightarrow> u8 list \<Rightarrow> nat \<Rightarrow> (nat \<Rightarrow> attr_ptr) \<Rightarrow> bool \<Rightarrow> routerd \<Rightarrow> routerd option" where
  "route_analyze_and_hook e mem rtm rtas is_new s =
     do { afi \<leftarrow> rtm_family mem rtm;
          dst \<leftarrow> addr_text e mem rtas RTA_DST afi;
          oif \<leftarrow> ifname_text e mem rtas RTA_OIF;
          if afi \<noteq> AF_INET
          then do { (act, nh4) \<leftarrow> srv6_action e mem rtas;
                    if dst \<noteq> [] \<and> oif \<noteq> [] \<and> nh4 \<noteq> [] \<and> act \<noteq> []
                    then do { oif_uint \<leftarrow> atoi oif;
                              let sw_ifindex = ifindex_kernel2vpp s (word_of_int oif_uint);
                              let sid_addr = pton_into (inet_pton e AF_INET6 dst) (en_addr6 e);
                              let nh4_addr = pton_into (inet_pton e AF_INET nh4) (en_addr4 e);
                              with_vpp e (\<lambda>ve. ip6_route_srv6_end_dx4_add ve 13 sid_addr nh4_addr sw_ifindex) s }
                    else Some s }
          else do { gw \<leftarrow> addr_text e mem rtas RTA_GATEWAY afi;
                    k_index \<leftarrow> (if rtas RTA_OIF = Null then Some 0 else rta_read32 mem (rtas RTA_OIF));
                    dst_len \<leftarrow> rtm_dst_len mem rtm;
                    route_str \<leftarrow> strfmt (dst @ ''/'' @ print_u dst_len);
                    nh_str \<leftarrow> strfmt gw;
                    set_route e route_str nh_str (ifindex_kernel2vpp s (of_nat k_index)) is_new s } }"

section \<open>Neighbours\<close>

definition NDA_DST :: nat where "NDA_DST = 1"
definition NDA_LLADDR :: nat where "NDA_LLADDR = 2"

definition neigh_to_iproute2_cli :: "os_env \<Rightarrow> u8 list \<Rightarrow> nat \<Rightarrow> (nat \<Rightarrow> attr_ptr) \<Rightarrow> nat \<Rightarrow> string option" where
  "neigh_to_iproute2_cli e mem ndm rtas type =
     do { lladdr \<leftarrow> (if rtas NDA_LLADDR = Null then Some []
                     else do { i \<leftarrow> at (rtas NDA_LLADDR);
                               l \<leftarrow> mem_le 2 mem i;
                               c_assert (l = 10);
                               bs \<leftarrow> mem_range mem (i + 4) 6;
                               Some (print_hex_colon bs) });
          dst \<leftarrow> (if rtas NDA_DST = Null then Some []
                  else do { i \<leftarrow> at (rtas NDA_DST);
                            addr_len \<leftarrow> rta_payload mem i;
                            c_assert (addr_len = 4 \<or> addr_len = 16);
                            inetpton e mem (At (i + 4)) (if addr_len = 4 then AF_INET else AF_INET6) });
          index \<leftarrow> mem_le 4 mem (ndm + 4);
          strfmt (''ip nei '' @ (if type = RTM_NEWNEIGH then ''add'' else ''del'') @ '' '' @ dst @ '' lladdr '' @ lladdr
                  @ '' dev '' @ ifindex2str e index) }"

section \<open>Notifications\<close>

definition count_new :: "obj \<Rightarrow> routerd \<Rightarrow> routerd" where
  "count_new k s = s\<lparr>rd_new_cnt := (rd_new_cnt s)(k := rd_new_cnt s k + 1)\<rparr>"

definition count_del :: "obj \<Rightarrow> routerd \<Rightarrow> routerd" where
  "count_del k s = s\<lparr>rd_del_cnt := (rd_del_cnt s)(k := rd_del_cnt s k + 1)\<rparr>"

text \<open>With the debug flag the command is printed; making its text may end the program.\<close>

definition debug_cli :: "string option \<Rightarrow> routerd \<Rightarrow> routerd option" where
  "debug_cli cli s =
     (if debug_enabled NETLINK s then do { c \<leftarrow> cli; Some (s\<lparr>rd_out := rd_out s @ [c]\<rparr>) } else Some s)"

definition debug_link :: "os_env \<Rightarrow> u8 list \<Rightarrow> nat \<Rightarrow> nat \<Rightarrow> (nat \<Rightarrow> attr_ptr) \<Rightarrow> nat \<Rightarrow> routerd \<Rightarrow> routerd option" where
  "debug_link e mem ifi len rtas type s =
     (if debug_enabled NETLINK s
      then do { (c, nlc) \<leftarrow> link_to_iproute2_cli e mem ifi len rtas type (rd_nlc s);
                Some (s\<lparr>rd_out := rd_out s @ [c], rd_nlc := nlc\<rparr>) }
      else Some s)"

definition monitor_NEWLINK :: "os_env \<Rightarrow> u8 list \<Rightarrow> nat \<Rightarrow> routerd \<Rightarrow> routerd option" where
  "monitor_NEWLINK e mem h s =
     do { let ifi = h + NLMSG_HDRLEN;
          len \<leftarrow> IFA_PAYLOAD mem h;
          rtas \<leftarrow> rta_array mem (ifi + 16) len;
          s1 \<leftarrow> debug_link e mem ifi len rtas RTM_NEWLINK (count_new Link s);
          link_analyze_and_hook e mem ifi s1 }"

definition monitor_DELLINK :: "os_env \<Rightarrow> u8 list \<Rightarrow> nat \<Rightarrow> routerd \<Rightarrow> routerd option" where
  "monitor_DELLINK e mem h s =
     do { let ifi = h + NLMSG_HDRLEN;
          len \<leftarrow> IFA_PAYLOAD mem h;
          rtas \<leftarrow> rta_array mem (ifi + 16) len;
          debug_link e mem ifi len rtas RTM_DELLINK (count_del Link s) }"

definition monitor_NEWADDR :: "os_env \<Rightarrow> u8 list \<Rightarrow> nat \<Rightarrow> routerd \<Rightarrow> routerd option" where
  "monitor_NEWADDR e mem h s =
     do { let ifa = h + NLMSG_HDRLEN;
          len \<leftarrow> IFA_PAYLOAD mem h;
          rtas \<leftarrow> rta_array mem (ifa + 8) len;
          s1 \<leftarrow> debug_cli (addr_to_iproute2_cli e mem ifa rtas RTM_NEWADDR) (count_new Addr s);
          addr_analyze_and_hook e mem ifa rtas True s1 }"

definition monitor_DELADDR :: "os_env \<Rightarrow> u8 list \<Rightarrow> nat \<Rightarrow> routerd \<Rightarrow> routerd option" where
  "monitor_DELADDR e mem h s =
     do { let ifa = h + NLMSG_HDRLEN;
          len \<leftarrow> IFA_PAYLOAD mem h;
          rtas \<leftarrow> rta_array mem (ifa + 8) len;
          s1 \<leftarrow> debug_cli (addr_to_iproute2_cli e mem ifa rtas RTM_DELADDR) (count_del Addr s);
          addr_analyze_and_hook e mem ifa rtas False s1 }"

definition monitor_NEWROUTE :: "os_env \<Rightarrow> u8 list \<Rightarrow> nat \<Rightarrow> routerd \<Rightarrow> routerd option" where
  "monitor_NEWROUTE e mem h s =
     do { let rtm = h + NLMSG_HDRLEN;
          len \<leftarrow> IFA_PAYLOAD mem h;
          rtas \<leftarrow> rta_array mem (rtm + 12) len;
          s1 \<leftarrow> debug_cli (route_to_iproute2_cli e mem rtm rtas RTM_NEWROUTE) (count_new Route s);
          route_analyze_and_hook e mem rtm rtas True s1 }"

definition monitor_DELROUTE :: "os_env \<Rightarrow> u8 list \<Rightarrow> nat \<Rightarrow> routerd \<Rightarrow> routerd option" where
  "monitor_DELROUTE e mem h s =
     do { let rtm = h + NLMSG_HDRLEN;
          len \<leftarrow> IFA_PAYLOAD mem h;
          rtas \<leftarrow> rta_array mem (rtm + 12) len;
          s1 \<leftarrow> debug_cli (route_to_iproute2_cli e mem rtm rtas RTM_DELROUTE) (count_del Route s);
          route_analyze_and_hook e mem rtm rtas False s1 }"

definition monitor_NEWNEIGH :: "os_env \<Rightarrow> u8 list \<Rightarrow> nat \<Rightarrow> routerd \<Rightarrow> routerd option" where
  "monitor_NEWNEIGH e mem h s =
     do { let ndm = h + NLMSG_HDRLEN;
          len \<leftarrow> IFA_PAYLOAD mem h;
          rtas \<leftarrow> rta_array mem (ndm + 12) len;
          debug_cli (neigh_to_iproute2_cli e mem ndm rtas RTM_NEWNEIGH) (count_new Neigh s) }"

definition monitor_DELNEIGH :: "os_env \<Rightarrow> u8 list \<Rightarrow> nat \<Rightarrow> routerd \<Rightarrow> routerd option" where
  "monitor_DELNEIGH e mem h s =
     do { let ndm = h + NLMSG_HDRLEN;
          len \<leftarrow> IFA_PAYLOAD mem h;
          rtas \<leftarrow> rta_array mem (ndm + 12) len;
          debug_cli (neigh_to_iproute2_cli e mem ndm rtas RTM_DELNEIGH) (count_del Neigh s) }"

definition monitor :: "os_env \<Rightarrow> u8 list \<Rightarrow> nat \<Rightarrow> routerd \<Rightarrow> (int \<times> routerd) option" where
  "monitor e mem n s =
     do { t \<leftarrow> nlmsg_type mem n;
          s' \<leftarrow> (if t = RTM_NEWLINK then monitor_NEWLINK e mem n s
                 else if t = RTM_DELLINK then monitor_DELLINK e mem n s
                 else if t = RTM_NEWADDR then monitor_NEWADDR e mem n s
                 else if t = RTM_DELADDR then monitor_DELADDR e mem n s
                 else if t = RTM_NEWROUTE then monitor_NEWROUTE e mem n s
                 else if t = RTM_DELROUTE then monitor_DELROUTE e mem n s
                 else if t = RTM_NEWNEIGH then monitor_NEWNEIGH e mem n s
                 else if t = RTM_DELNEIGH then monitor_DELNEIGH e mem n s
                 else Some s);
          Some (0, s') }"

section \<open>The manager\<close>

fun vpp_sync_links :: "os_env \<Rightarrow> u8 list list \<Rightarrow> routerd \<Rightarrow> routerd option" where
  "vpp_sync_links e [] s = Some s"
| "vpp_sync_links e (raw # links) s =
     do { index \<leftarrow> ifi_index raw 0;
          let vpp_index = ifindex_kernel2vpp s (word_of_int index);
          if vpp_index = 0 then vpp_sync_links e links s
          else do { flags \<leftarrow> ifi_flags raw 0;
                    s' \<leftarrow> set_link e vpp_index (flags AND IFF_UP \<noteq> 0) s;
                    vpp_sync_links e links s' } }"

definition vpp_sync_with_nlc :: "os_env \<Rightarrow> routerd \<Rightarrow> routerd option" where
  "vpp_sync_with_nlc e s = vpp_sync_links e (rd_nlc s) s"

text \<open>
  \<open>netlink_manager\<close>: what is received while the links, the addresses and the routes are dumped and afterwards. A
  listener that still waits when its list has ended keeps the manager where it is.
\<close>

definition listen_then :: "(listening \<times> 's) \<Rightarrow> ('s \<Rightarrow> 's option) \<Rightarrow> 's option" where
  "listen_then r k = (case r of (Waiting, s) \<Rightarrow> Some s | (Returned _, s) \<Rightarrow> k s)"

definition netlink_manager ::
  "os_env \<Rightarrow> recv_result list \<Rightarrow> recv_result list \<Rightarrow> recv_result list \<Rightarrow> recv_result list \<Rightarrow> u8 list \<Rightarrow> routerd \<Rightarrow> routerd option" where
  "netlink_manager e links addrs routes rest buf s =
     do { (r, nlc) \<leftarrow> netlink_cache_alloc links buf;
          let s0 = s\<lparr>rd_nlc := nlc\<rparr>;
          if r = Waiting then Some s0
          else do { s1 \<leftarrow> vpp_sync_with_nlc e s0;
                    r2 \<leftarrow> netlink_listen_until_done (monitor e) addrs buf s1;
                    listen_then r2 (\<lambda>s2.
                      do { r3 \<leftarrow> netlink_listen_until_done (monitor e) routes buf s2;
                           listen_then r3 (\<lambda>s3. do { (_, s4) \<leftarrow> netlink_listen (monitor e) rest buf s3; Some s4 }) }) } }"

end
