(* ===== verification/Routerd_Laws.thy ===== *)
theory Routerd_Laws
  imports Netlink_Laws Routerd
begin

text \<open>
  Notifications of the kernel as bytes, and what the handlers of the daemon ask of VPP for them.
\<close>

section \<open>Connections\<close>

text \<open>VPP accepts connections and knows the request.\<close>

definition serves :: "os_env \<Rightarrow> string \<Rightarrow> bool" where
  "serves e name \<longleftrightarrow> (\<forall>n. 0 \<le> ve_ret (en_vpp e n) \<and> find_msg_id (ve_msg_index_by_name (en_vpp e n)) name \<noteq> None)"

text \<open>The requests that VPP has received, without the numbers of message, client and context.\<close>

definition requests :: "routerd \<Rightarrow> vpp_body list" where
  "requests s = map vm_body (vp_sent (rd_vpp s))"

text \<open>One request has been made and the daemon is otherwise as before.\<close>

definition requested :: "vpp_body \<Rightarrow> routerd \<Rightarrow> routerd \<Rightarrow> bool" where
  "requested b s s' \<longleftrightarrow> requests s' = requests s @ [b] \<and> vp_connections (rd_vpp s') = vp_connections (rd_vpp s)
     \<and> rd_interfaces s' = rd_interfaces s \<and> rd_debug_bitmap s' = rd_debug_bitmap s \<and> rd_nlc s' = rd_nlc s"

lemma with_vpp_send:
  assumes "serves e name"
  shows "\<exists>s'. with_vpp e (\<lambda>ve. send_msg ve name (c ve) b) s = Some s' \<and> requested b s s'"
proof -
  let ?ve = "en_vpp e (rd_attempts s)"
  obtain n where n: "find_msg_id (ve_msg_index_by_name ?ve) name = Some n" and ret: "\<not> ve_ret ?ve < 0"
    using assms by (auto simp: serves_def not_less)
  then show ?thesis
    by (simp add: with_vpp_def connect_to_vpp_def send_msg_def disconnect_from_vpp_def requested_def requests_def Let_def)
qed

lemma requested_count:
  "requested b (count_new k s) s' = requested b s s'" "requested b (count_del k s) s' = requested b s s'"
  by (simp_all add: requested_def requests_def count_new_def count_del_def)

lemma count_same:
  "rd_interfaces (count_new k s) = rd_interfaces s" "rd_interfaces (count_del k s) = rd_interfaces s"
  "rd_debug_bitmap (count_new k s) = rd_debug_bitmap s" "rd_debug_bitmap (count_del k s) = rd_debug_bitmap s"
  by (simp_all add: count_new_def count_del_def)

lemma ifindex_kernel2vpp_cong: "rd_interfaces s = rd_interfaces s' \<Longrightarrow> ifindex_kernel2vpp s = ifindex_kernel2vpp s'"
  by (simp add: ifindex_kernel2vpp_def fun_eq_iff)

lemma debug_off:
  "rd_debug_bitmap s = 0 \<Longrightarrow> debug_cli c s = Some s" "rd_debug_bitmap s = 0 \<Longrightarrow> debug_link e mem ifi len rtas t s = Some s"
  by (simp_all add: debug_cli_def debug_link_def debug_enabled_def)

section \<open>The attributes of a message\<close>

definition holds_attrs :: "u8 list \<Rightarrow> (nat \<Rightarrow> attr_ptr) \<Rightarrow> (nat \<times> u8 list) list \<Rightarrow> bool" where
  "holds_attrs mem rtas as \<longleftrightarrow>
     (\<forall>a \<in> set as. \<exists>pre post. rtas (fst a) = At (length pre) \<and> mem = pre @ enc_attr a @ post)
     \<and> (\<forall>t. t \<notin> fst ` set as \<longrightarrow> rtas t = Null)"

text \<open>
  The body of a message starts with a structure of \<open>k\<close> bytes. The handlers search \<open>k - 8\<close> bytes more than the
  attributes have.
\<close>

lemma msg_attrs:
  assumes mem: "mem = pre @ hdr @ enc_attrs as @ post" and hdr: "length hdr = 16 + k" "8 \<le> k" "k < 2 ^ 16"
    and as: "list_all attr_ok as" "distinct (map fst as)" "length hdr + length (enc_attrs as) < 2 ^ 16"
    and len: "nlmsg_len mem (length pre) = Some (length hdr + length (enc_attrs as))" and post: "no_attr (k - 8) post"
  shows "\<exists>rtas n. IFA_PAYLOAD mem (length pre) = Some n \<and> rta_array mem (length pre + (16 + k)) n = Some rtas \<and> holds_attrs mem rtas as"
proof -
  let ?p = "pre @ hdr"
  have mem': "mem = ?p @ enc_attrs as @ post" using mem by simp
  have "parse_rtattr mem (length ?p) (length (enc_attrs as) + (k - 8)) (\<lambda>_. Null) MAX_ATTRS = Some (attrs_at (length ?p) as (\<lambda>_. Null))"
    using as(1,3) hdr(2,3) by (intro parse_rtattr_enc [OF _ mem' post]) simp_all
  moreover have "IFA_PAYLOAD mem (length pre) = Some (length (enc_attrs as) + (k - 8))"
    using len as(3) hdr by (simp add: IFA_PAYLOAD_def sub32_le)
  moreover have "holds_attrs mem (attrs_at (length ?p) as (\<lambda>_. Null)) as"
    using attrs_at_present [OF as(2) _ mem'] attrs_at_absent [of _ as "length ?p" "\<lambda>_. Null"] unfolding holds_attrs_def by blast
  ultimately show ?thesis using hdr(1) by (simp add: rta_array_def)
qed

lemma held_attr:
  assumes "holds_attrs mem rtas as" "(t, v) \<in> set as" "attr_ok (t, v)"
  shows "\<exists>i. rtas t = At i \<and> mem_range mem (i + 4) (length v) = Some v \<and> rta_payload mem i = Some (length v)
    \<and> (length v = 4 \<longrightarrow> rta_read32 mem (At i) = Some (le_val v))"
proof -
  from assms(1,2) obtain pre post where p: "rtas t = At (length pre)" "mem = pre @ enc_attr (t, v) @ post"
    unfolding holds_attrs_def by fastforce
  from enc_attr_payload [OF assms(3) p(2)] rta_read32_enc [OF assms(3) p(2)] p(1) show ?thesis by simp
qed

section \<open>Routes\<close>

text \<open>
  A notification of an IPv4 route: the header, \<open>struct rtmsg\<close> with the family and the length of the prefix, and the
  attributes, in any order and with any others.
\<close>

record kroute =
  kr_new :: bool
  kr_hdr :: "u8 list"
  kr_len :: u8
  kr_rtm :: "u8 list"
  kr_attrs :: "(nat \<times> u8 list) list"

definition enc_route :: "kroute \<Rightarrow> u8 list" where
  "enc_route r =
     le_bytes 4 (28 + length (enc_attrs (kr_attrs r))) @ le_bytes 2 (if kr_new r then RTM_NEWROUTE else RTM_DELROUTE)
     @ kr_hdr r @ [2, kr_len r] @ kr_rtm r @ enc_attrs (kr_attrs r)"

definition kroute_ok :: "kroute \<Rightarrow> bool" where
  "kroute_ok r \<longleftrightarrow> length (kr_hdr r) = 10 \<and> length (kr_rtm r) = 10 \<and> list_all attr_ok (kr_attrs r)
     \<and> distinct (map fst (kr_attrs r)) \<and> length (enc_route r) < 2 ^ 16
     \<and> list_all (\<lambda>(t, v). t \<in> {RTA_DST, RTA_OIF, RTA_GATEWAY} \<longrightarrow> length v = 4) (kr_attrs r)"

text \<open>
  The request for a route. An address that the notification does not have is what the uninitialised local variable
  of the daemon holds.
\<close>

definition addr_or :: "u8 list \<Rightarrow> u8 list option \<Rightarrow> u8 list" where
  "addr_or u a = (case a of None \<Rightarrow> take 4 u | Some bs \<Rightarrow> bs)"

definition oif_of :: "kroute \<Rightarrow> u32" where
  "oif_of r = (case map_of (kr_attrs r) RTA_OIF of None \<Rightarrow> 0 | Some v \<Rightarrow> of_nat (le_val v))"

definition route_request :: "os_env \<Rightarrow> (u32 \<Rightarrow> u32) \<Rightarrow> kroute \<Rightarrow> vpp_body" where
  "route_request e kernel2vpp r =
     Ip_route_add_del (if kr_new r then 1 else 0)
       \<lparr>rt_af = 0, rt_address = addr_or (en_route_u e) (map_of (kr_attrs r) RTA_DST), rt_len = unat (kr_len r),
        rt_paths = [\<lparr>fp_sw_if_index = htonl (kernel2vpp (oif_of r)),
                     fp_nh = addr_or (en_nexthop_u e) (map_of (kr_attrs r) RTA_GATEWAY)\<rparr>]\<rparr>"

lemma enc_route_length:
  "kroute_ok r \<Longrightarrow> length (enc_route r) = 28 + length (enc_attrs (kr_attrs r))"
  by (simp add: enc_route_def kroute_ok_def)

lemma enc_route_msg:
  assumes "kroute_ok r"
  shows "msg_ok (\<lambda>t. t < 16) (enc_route r)"
    "le_val (take 2 (drop 4 (enc_route r))) = (if kr_new r then RTM_NEWROUTE else RTM_DELROUTE)"
proof -
  have l: "length (enc_route r) = 28 + length (enc_attrs (kr_attrs r))" by (rule enc_route_length [OF assms])
  have "length (enc_route r) < 65536" using assms by (simp add: kroute_ok_def)
  moreover have "(28 + length (enc_attrs (kr_attrs r))) mod 4 = 0"
    using length_enc_attrs_mod [of "kr_attrs r"] by (simp add: mod_add_eq [symmetric] del: mod_add_eq)
  moreover have "take 4 (enc_route r) = le_bytes 4 (length (enc_route r))"
    "take 2 (drop 4 (enc_route r)) = le_bytes 2 (if kr_new r then RTM_NEWROUTE else RTM_DELROUTE)"
    unfolding l by (simp_all add: enc_route_def)
  ultimately show "msg_ok (\<lambda>t. t < 16) (enc_route r)"
    "le_val (take 2 (drop 4 (enc_route r))) = (if kr_new r then RTM_NEWROUTE else RTM_DELROUTE)"
    using l by (simp_all add: msg_ok_def le_val_bytes rtm_defs)
qed

text \<open>The attributes of the message are found although four bytes too many are searched.\<close>

lemma route_rtas:
  assumes ok: "kroute_ok r" and mem: "mem = pre @ enc_route r @ post" and post: "no_attr 4 post"
  shows "\<exists>rtas len. IFA_PAYLOAD mem (length pre) = Some len \<and> rta_array mem (length pre + 28) len = Some rtas
    \<and> holds_attrs mem rtas (kr_attrs r)"
proof -
  define hdr where "hdr = take 28 (enc_route r)"
  have "drop 28 (enc_route r) = enc_attrs (kr_attrs r)" using ok by (simp add: enc_route_def kroute_ok_def)
  then have "enc_route r = hdr @ enc_attrs (kr_attrs r)" using append_take_drop_id [of 28 "enc_route r"] unfolding hdr_def by argo
  moreover have "length hdr = 16 + 12" using enc_route_length [OF ok] by (simp add: hdr_def)
  moreover have "nlmsg_len mem (length pre) = Some (length (enc_route r))" by (rule msg_header(1) [OF enc_route_msg(1) [OF ok] mem])
  ultimately show ?thesis
    using msg_attrs [of mem pre hdr "kr_attrs r" post 12] ok post mem by (simp add: kroute_ok_def)
qed

text \<open>The texts that the handler makes of the attributes.\<close>

definition text_of :: "u8 list option \<Rightarrow> string" where
  "text_of a = (case a of None \<Rightarrow> [] | Some bs \<Rightarrow> inet_ntop4 bs)"

lemma found_attr:
  assumes "kroute_ok r" "holds_attrs mem rtas (kr_attrs r)" "t \<in> {RTA_DST, RTA_OIF, RTA_GATEWAY}"
  shows "addr_text e mem rtas t AF_INET = Some (text_of (map_of (kr_attrs r) t))"
    "rtas t \<noteq> Null \<Longrightarrow> rta_read32 mem (rtas t) = Some (le_val (the (map_of (kr_attrs r) t)))"
    "rtas t = Null \<longleftrightarrow> map_of (kr_attrs r) t = None"
    "map_of (kr_attrs r) t = Some v \<Longrightarrow> length v = 4"
proof -
  have absent: "map_of (kr_attrs r) t = None \<longleftrightarrow> t \<notin> fst ` set (kr_attrs r)" by (rule map_of_eq_None_iff)
  have present: "length v = 4 \<and> (\<exists>i. rtas t = At i \<and> rta_read32 mem (At i) = Some (le_val v) \<and> mem_range mem (i + 4) 4 = Some v)"
    if v: "map_of (kr_attrs r) t = Some v" for v
  proof -
    have m: "(t, v) \<in> set (kr_attrs r)" using v by (rule map_of_SomeD)
    then have "attr_ok (t, v)" "length v = 4" using assms(1,3) by (auto simp: kroute_ok_def list_all_iff)
    with held_attr [OF assms(2) m] show ?thesis by fastforce
  qed
  have null: "rtas t = Null" if "map_of (kr_attrs r) t = None" using that absent assms(2) by (simp add: holds_attrs_def)
  show "map_of (kr_attrs r) t = Some v \<Longrightarrow> length v = 4" using present by blast
  show "rtas t = Null \<longleftrightarrow> map_of (kr_attrs r) t = None" using present null by (cases "map_of (kr_attrs r) t") force+
  show "addr_text e mem rtas t AF_INET = Some (text_of (map_of (kr_attrs r) t))"
    using present null by (cases "map_of (kr_attrs r) t") (force simp: addr_text_def text_of_def inetpton_def rta_readptr_def)+
  show "rta_read32 mem (rtas t) = Some (le_val (the (map_of (kr_attrs r) t)))" if "rtas t \<noteq> Null"
    using present null that by (cases "map_of (kr_attrs r) t") force+
qed

lemma route_fixed:
  assumes "kroute_ok r" "mem = pre @ enc_route r @ post"
  shows "rtm_family mem (length pre + 16) = Some AF_INET" "rtm_dst_len mem (length pre + 16) = Some (unat (kr_len r))"
proof -
  define hd where "hd = pre @ le_bytes 4 (28 + length (enc_attrs (kr_attrs r)))
    @ le_bytes 2 (if kr_new r then RTM_NEWROUTE else RTM_DELROUTE) @ kr_hdr r"
  define tl where "tl = kr_rtm r @ enc_attrs (kr_attrs r) @ post"
  have m: "mem = hd @ [2, kr_len r] @ tl" using assms(2) by (simp add: hd_def tl_def enc_route_def)
  have h: "length hd = length pre + 16" using assms(1) by (simp add: hd_def kroute_ok_def)
  show "rtm_family mem (length pre + 16) = Some AF_INET" "rtm_dst_len mem (length pre + 16) = Some (unat (kr_len r))"
    unfolding m h [symmetric] by (simp_all add: rtm_family_def rtm_dst_len_def mem_le_def mem_range_def family_of_def)
qed

lemma strfmt_short: "length s < 1000 \<Longrightarrow> strfmt s = Some s"
  by (simp add: strfmt_def)

lemma print_u8_short: "length (print_u (unat (n :: u8))) \<le> 3"
  using print_u_short [of "unat n" 2] unat_u8_less [of n] by simp

text \<open>\<open>set_route\<close> on the texts of a prefix and a next hop.\<close>

definition addr4 :: "u8 list option \<Rightarrow> bool" where
  "addr4 a \<longleftrightarrow> (case a of None \<Rightarrow> True | Some bs \<Rightarrow> length bs = 4)"

definition addr_into :: "u8 list option \<Rightarrow> u8 list \<Rightarrow> u8 list" where
  "addr_into a u = (case a of None \<Rightarrow> u | Some bs \<Rightarrow> put_front bs u)"

lemma pton_text_of:
  assumes "addr4 a"
  shows "inet_pton4 (text_of a) = a"
  using assms inet_pton_ntop4 by (cases a) (simp_all add: text_of_def inet_pton4_def addr4_def)

lemma text_of_chars: "CHR ''/'' \<notin> set (text_of a)" "NUL \<notin> set (text_of a)" "length (text_of a) \<le> 15"
  using inet_ntop4_chars [of "the a"] by (cases a; simp add: text_of_def)+

lemma range_addr_into:
  assumes "addr4 a" "4 \<le> length u"
  shows "mem_range (addr_into a u) 0 4 = Some (addr_or u a)"
  using assms by (cases a) (simp_all add: addr_into_def addr_or_def put_front_def mem_range_def addr4_def)

lemma parse_plain_text:
  assumes "addr4 a"
  shows "parse_prefix_str (inet_pton e) (text_of a) AF_INET p = Some \<lparr>rp_afi = AF_INET, rp_plen = 32, rp_raw = addr_into a (rp_raw p)\<rparr>"
proof -
  have "\<forall>x \<in> set (text_of a). x \<noteq> CHR ''/''" using text_of_chars(1) [of a] by blast
  then have "takeWhile (\<lambda>ch. ch \<noteq> CHR ''/'') (text_of a) = text_of a" by (rule takeWhile_eq_all_conv [THEN iffD2])
  then have "length (takeWhile (\<lambda>ch. ch \<noteq> CHR ''/'') (text_of a)) = length (text_of a)" by (rule arg_cong)
  then show ?thesis using pton_text_of [OF assms] by (simp add: parse_prefix_str_def inet_pton_def addr_into_def Let_def)
qed

lemma parse_slash_text:
  assumes "addr4 a" "n < 1000"
  shows "parse_prefix_str (inet_pton e) (text_of a @ ''/'' @ print_u n) AF_INET p =
           Some \<lparr>rp_afi = AF_INET, rp_plen = n, rp_raw = addr_into a (rp_raw p)\<rparr>"
  using parse_prefix_str_slash [of "text_of a" n "inet_pton e" p] text_of_chars [of a] pton_text_of [OF assms(1)] assms(2)
  by (simp add: inet_pton_def addr_into_def)

lemma set_route_request:
  assumes "addr4 d" "addr4 g" "n < 1000"
    and "length (en_route_u e) = 16" "length (en_nexthop_u e) = 16"
  shows "set_route e (text_of d @ ''/'' @ print_u n) (text_of g) oif new =
    with_vpp e (\<lambda>ve. send_msg ve ''ip_route_add_del'' 10
      (Ip_route_add_del (if new then 1 else 0)
         \<lparr>rt_af = 0, rt_address = addr_or (en_route_u e) d, rt_len = n,
          rt_paths = [\<lparr>fp_sw_if_index = htonl oif, fp_nh = addr_or (en_nexthop_u e) g\<rparr>]\<rparr>))"
proof -
  have u: "ucast (10 :: u16) = (10 :: u32)" by simp
  show ?thesis
    unfolding set_route_def parse_slash_text [OF assms(1,3)] parse_plain_text [OF assms(2)]
    using range_addr_into [OF assms(1)] range_addr_into [OF assms(2)] assms(4,5)
    by (simp add: ip_route_add_del_def Let_def u)
qed

lemma route_handled:
  assumes ok: "kroute_ok r" and mem: "mem = pre @ enc_route r @ post" and post: "no_attr 4 post"
    and e: "length (en_route_u e) = 16" "length (en_nexthop_u e) = 16" and dbg: "rd_debug_bitmap s = 0"
    and serves: "serves e ''ip_route_add_del''"
  shows "\<exists>s'. monitor e mem (length pre) s = Some (0, s') \<and> requested (route_request e (ifindex_kernel2vpp s) r) s s'"
proof -
  let ?a = "\<lambda>t. map_of (kr_attrs r) t" and ?oif = "ifindex_kernel2vpp s (oif_of r)"
  let ?c = "(if kr_new r then count_new else count_del) Route s"
  obtain rtas len where len: "IFA_PAYLOAD mem (length pre) = Some len" "rta_array mem (length pre + 28) len = Some rtas"
    and found: "holds_attrs mem rtas (kr_attrs r)"
    using route_rtas [OF ok mem post] by blast
  note attr = found_attr [OF ok found]
  note dst = attr [of RTA_DST] and gw = attr [of RTA_GATEWAY] and oif = attr [of RTA_OIF]
  have k: "ifindex_kernel2vpp ?c = ifindex_kernel2vpp s" by (rule ifindex_kernel2vpp_cong) (simp add: count_same)
  have ix: "\<exists>i. ifname_text e mem rtas RTA_OIF = Some i" using oif(2) by (simp add: ifname_text_def)
  have ki: "(if rtas RTA_OIF = Null then Some 0 else rta_read32 mem (rtas RTA_OIF)) =
      Some (case ?a RTA_OIF of None \<Rightarrow> 0 | Some v \<Rightarrow> le_val v)"
    using oif(2,3) by (auto split: option.split)
  have short: "length (text_of (?a RTA_DST) @ ''/'' @ print_u (unat (kr_len r))) < 1000" "length (text_of (?a RTA_GATEWAY)) < 1000"
    using text_of_chars(3) [of "?a RTA_DST"] text_of_chars(3) [of "?a RTA_GATEWAY"] print_u8_short [of "kr_len r"] by simp_all
  have len_ok: "addr4 (?a RTA_DST)" "addr4 (?a RTA_GATEWAY)"
    using dst(4) gw(4) by (simp_all add: addr4_def split: option.split)
  have n: "unat (kr_len r) < 1000" using unat_u8_less [of "kr_len r"] by simp
  have hook: "route_analyze_and_hook e mem (length pre + 16) rtas (kr_new r) ?c =
      with_vpp e (\<lambda>ve. send_msg ve ''ip_route_add_del'' 10 (route_request e (ifindex_kernel2vpp s) r)) ?c"
  proof -
    have o: "of_nat (case ?a RTA_OIF of None \<Rightarrow> 0 | Some v \<Rightarrow> le_val v) = oif_of r"
      by (simp add: oif_of_def split: option.split)
    from ix obtain i where i: "ifname_text e mem rtas RTA_OIF = Some i" by blast
    show ?thesis
      unfolding route_analyze_and_hook_def route_fixed [OF ok mem] ki i
      using dst(1) gw(1) strfmt_short [OF short(1)] strfmt_short [OF short(2)] o
      by (simp add: k set_route_request [OF len_ok n e, unfolded append_Cons append_Nil] route_request_def)
  qed
  have dbg': "debug_cli c ?c = Some ?c" for c by (rule debug_off) (simp add: dbg count_same)
  have t: "nlmsg_type mem (length pre) = Some (if kr_new r then RTM_NEWROUTE else RTM_DELROUTE)"
    using msg_header(2) [OF enc_route_msg(1) [OF ok] mem] enc_route_msg(2) [OF ok] by simp
  have off: "length pre + NLMSG_HDRLEN = length pre + 16" "length pre + 16 + 12 = length pre + 28" by (simp_all add: NLMSG_HDRLEN_def)
  have h: "(if kr_new r then monitor_NEWROUTE else monitor_DELROUTE) e mem (length pre) s =
      route_analyze_and_hook e mem (length pre + 16) rtas (kr_new r) ?c"
    using len dbg' by (cases "kr_new r") (simp_all add: monitor_NEWROUTE_def monitor_DELROUTE_def off Let_def)
  obtain s' where s': "with_vpp e (\<lambda>ve. send_msg ve ''ip_route_add_del'' 10 (route_request e (ifindex_kernel2vpp s) r)) ?c = Some s'"
    "requested (route_request e (ifindex_kernel2vpp s) r) ?c s'"
    using with_vpp_send [OF serves, of "\<lambda>_. 10" "route_request e (ifindex_kernel2vpp s) r" ?c] by blast
  have "monitor e mem (length pre) s = Some (0, s')"
    using h hook s'(1) t by (cases "kr_new r") (simp_all add: monitor_def rtm_defs)
  moreover have "requested (route_request e (ifindex_kernel2vpp s) r) s s'"
    using s'(2) requested_count by (cases "kr_new r") simp_all
  ultimately show ?thesis by blast
qed

end
