(* ===== verification/Routerd_Props.thy ===== *)
theory Routerd_Props
  imports Routerd_Laws
begin

text \<open>
  The properties of the daemon's netlink side: what VPP is asked for when the kernel reports routes, links, addresses
  and segment routing, the state VPP is given at the start, and a message that is handled for ever.
\<close>

section \<open>Routes\<close>

lemma no_attr_route: "kroute_ok r \<Longrightarrow> no_attr 4 (enc_route r @ post)"
proof -
  assume ok: "kroute_ok r"
  have "take 2 (enc_route r @ post) = le_bytes 2 (28 + length (enc_attrs (kr_attrs r)))"
    using take_le_bytes [of 2 4] by (simp add: enc_route_def)
  moreover have "28 + length (enc_attrs (kr_attrs r)) < 65536" using ok enc_route_length [OF ok] by (simp add: kroute_ok_def)
  ultimately show ?thesis by (simp add: no_attr_def le_val_bytes enc_route_def)
qed

definition synced :: "routerd \<Rightarrow> vpp_body list \<Rightarrow> routerd \<Rightarrow> bool" where
  "synced s bs s' \<longleftrightarrow> requests s' = requests s @ bs \<and> vp_connections (rd_vpp s') = vp_connections (rd_vpp s)
     \<and> rd_interfaces s' = rd_interfaces s \<and> rd_debug_bitmap s' = rd_debug_bitmap s \<and> rd_nlc s' = rd_nlc s"

lemma synced_step: "requested b s s' \<Longrightarrow> synced s' bs s'' \<Longrightarrow> synced s (b # bs) s''"
  by (simp add: synced_def requested_def)

lemma routes_handled:
  assumes "\<forall>r \<in> set rs. kroute_ok r" "mem = pre @ dgram_of enc_route rs @ post" "no_attr 4 post"
    and "length (dgram_of enc_route rs) < 2 ^ 31" "length (en_route_u e) = 16" "length (en_nexthop_u e) = 16"
    and "rd_debug_bitmap s = 0" "serves e ''ip_route_add_del''"
  shows "\<exists>s'. nlmsg_loop (\<lambda>_. False) (monitor e) mem (length pre) (int (length (dgram_of enc_route rs))) s = Some (Inr 0, s')
    \<and> synced s (map (route_request e (ifindex_kernel2vpp s)) rs) s'"
  using assms
proof (induction rs arbitrary: pre s)
  case Nil
  then show ?case by (subst nlmsg_loop.simps) (simp add: NLMSG_HDRLEN_def synced_def)
next
  case (Cons r rs)
  let ?m = "enc_route r" and ?d = "dgram_of enc_route rs"
  have ok: "kroute_ok r" using Cons.prems(1) by simp
  have mem: "mem = pre @ ?m @ ?d @ post" using Cons.prems(2) by simp
  have "no_attr 4 (?d @ post)" using Cons.prems(1,3) no_attr_route by (cases rs) auto
  from route_handled [OF ok mem this Cons.prems(5,6,7,8)] obtain s1 where
    s1: "monitor e mem (length pre) s = Some (0, s1)" "requested (route_request e (ifindex_kernel2vpp s) r) s s1" by blast
  have same: "ifindex_kernel2vpp s1 = ifindex_kernel2vpp s" "rd_debug_bitmap s1 = 0"
    using s1(2) Cons.prems(7) by (auto simp: requested_def intro: ifindex_kernel2vpp_cong)
  have "\<exists>s'. nlmsg_loop (\<lambda>_. False) (monitor e) mem (length (pre @ ?m)) (int (length ?d)) s1 = Some (Inr 0, s')
    \<and> synced s1 (map (route_request e (ifindex_kernel2vpp s1)) rs) s'"
    using Cons.prems same(2) by (intro Cons.IH) simp_all
  then obtain s' where s': "nlmsg_loop (\<lambda>_. False) (monitor e) mem (length pre + length ?m) (int (length ?d)) s1 = Some (Inr 0, s')"
    "synced s1 (map (route_request e (ifindex_kernel2vpp s)) rs) s'" unfolding same(1) by auto
  note hd = msg_header [OF enc_route_msg(1) [OF ok] mem]
  have m: "16 \<le> length ?m" "align4 (length ?m) = length ?m" "length ?m < 2 ^ 31"
    using enc_route_msg(1) [OF ok] align4_eq by (auto simp: msg_ok_def)
  have st: "c_int (int (length (?m @ ?d)) - int (length ?m)) = int (length ?d)"
    using Cons.prems(4) c_int_small [of "int (length ?d)"] by simp
  have "nlmsg_loop (\<lambda>_. False) (monitor e) mem (length pre) (int (length (dgram_of enc_route (r # rs)))) s = Some (Inr 0, s')"
    using hd s1(1) s'(1) m st by (subst nlmsg_loop.simps) (simp add: NLMSG_HDRLEN_def)
  with synced_step [OF s1(2) s'(2)] show ?case by auto
qed

text \<open>
  C11: When the kernel sends a datagram of IPv4 route notifications, the daemon asks VPP for exactly these routes, in
  order: added or deleted, the prefix, its length and the next hop as in the notification and the interface translated
  by the table of pairs, and closes every connection it opened. The addresses go through text and back. A route
  without a destination or a gateway is requested with the bytes of an uninitialised variable in its place.
\<close>

theorem routes_synced:
  assumes "\<forall>r \<in> set rs. kroute_ok r" "rs \<noteq> []" "length (dgram_of enc_route rs) \<le> 16384"
    and "no_attr 4 (drop (length (dgram_of enc_route rs)) buf)"
    and "length (en_route_u e) = 16" "length (en_nexthop_u e) = 16"
    and "rd_debug_bitmap s = 0" "serves e ''ip_route_add_del''"
  shows "\<exists>s'. netlink_listen (monitor e) [Recv (dgram_of enc_route rs) trunc] buf s = Some (Waiting, s')
    \<and> requests s' = requests s @ map (route_request e (ifindex_kernel2vpp s)) rs
    \<and> vp_connections (rd_vpp s') = vp_connections (rd_vpp s)"
proof -
  let ?d = "dgram_of enc_route rs"
  have mem: "receive ?d buf = [] @ ?d @ drop (length ?d) buf" by (simp add: receive_def)
  have small: "length ?d < 2 ^ 31" using assms(3) by simp
  from routes_handled [OF assms(1) mem assms(4) small assms(5-8)] obtain s' where
    s': "nlmsg_loop (\<lambda>_. False) (monitor e) (receive ?d buf) 0 (int (length ?d)) s = Some (Inr 0, s')"
    "synced s (map (route_request e (ifindex_kernel2vpp s)) rs) s'" by auto
  have "0 < length ?d" using assms(1,2) enc_route_length by (cases rs) auto
  then have "?d \<noteq> []" by blast
  with s'(1) have "netlink_listen (monitor e) [Recv ?d trunc] buf s = Some (Waiting, s')" by (simp add: netlink_listen_def)
  with s'(2) show ?thesis unfolding synced_def by blast
qed

text \<open>A daemon with one pair of interfaces, a VPP that knows its requests and a route.\<close>

definition demo_vpp :: vpp_env where
  "demo_vpp = \<lparr>ve_ret = 0, ve_client_index = 7,
     ve_msg_index_by_name = [(''ip_route_add_del_12345678'', 100), (''sw_interface_set_flags_12345678'', 101),
       (''sw_interface_add_del_address_12345678'', 102), (''sr_localsid_add_del_12345678'', 103)],
     ve_queue = [], ve_random = 5\<rparr>"

definition demo_os :: os_env where
  "demo_os = \<lparr>en_vpp = (\<lambda>_. demo_vpp), en_ifname = (\<lambda>i. if i = 3 then Some ''eth0'' else None), en_ntop6 = (\<lambda>_. ''fc00::1''),
     en_pton6 = (\<lambda>_. Some (replicate 16 1)), en_route_u = replicate 16 0, en_nexthop_u = replicate 16 0,
     en_addr6 = replicate 16 0, en_addr4 = replicate 4 0, en_sub = (\<lambda>_. Null)\<rparr>"

definition demo_daemon :: routerd where
  "demo_daemon = \<lparr>rd_interfaces = [\<lparr>kern_ifindex = 3, vpp_ifindex = 1, kern_ifname = ''eth0'', vpp_ifname = ''vpp''\<rparr>],
     rd_new_cnt = (\<lambda>_. 0), rd_del_cnt = (\<lambda>_. 0), rd_nlc = [], rd_debug_bitmap = 0,
     rd_vpp = \<lparr>vp_client_index = 0, vp_connections = 0, vp_sent = []\<rparr>, rd_attempts = 0, rd_out = []\<rparr>"

definition demo_route :: kroute where
  "demo_route = \<lparr>kr_new = True, kr_hdr = replicate 10 0, kr_len = 8, kr_rtm = replicate 10 0,
     kr_attrs = [(RTA_DST, [10, 0, 0, 0]), (RTA_GATEWAY, [192, 168, 0, 1]), (RTA_OIF, [3, 0, 0, 0])]\<rparr>"

lemma demo_ids:
  "find_msg_id (ve_msg_index_by_name demo_vpp) ''ip_route_add_del'' = Some 100"
  "find_msg_id (ve_msg_index_by_name demo_vpp) ''sw_interface_set_flags'' = Some 101"
  "find_msg_id (ve_msg_index_by_name demo_vpp) ''sw_interface_add_del_address'' = Some 102"
  "find_msg_id (ve_msg_index_by_name demo_vpp) ''sr_localsid_add_del'' = Some 103"
  by code_simp+

lemma demo_serves:
  "serves demo_os ''ip_route_add_del''" "serves demo_os ''sw_interface_set_flags''"
  "serves demo_os ''sw_interface_add_del_address''" "serves demo_os ''sr_localsid_add_del''"
proof -
  have "en_vpp demo_os n = demo_vpp" "0 \<le> ve_ret demo_vpp" for n by (simp_all add: demo_os_def demo_vpp_def)
  then show "serves demo_os ''ip_route_add_del''" "serves demo_os ''sw_interface_set_flags''"
    "serves demo_os ''sw_interface_add_del_address''" "serves demo_os ''sr_localsid_add_del''"
    unfolding serves_def by (simp_all only: demo_ids) simp_all
qed

lemma demo_route_ok: "kroute_ok demo_route"
  by (simp add: kroute_ok_def demo_route_def enc_route_def attr_ok_def MAX_ATTRS_def length_enc_attr align4_def rta_defs)

theorem routes_synced_witness:
  "\<exists>s'. netlink_listen (monitor demo_os) [Recv (dgram_of enc_route [demo_route]) False] (replicate 16384 0) demo_daemon = Some (Waiting, s')
    \<and> requests s' = requests demo_daemon @ map (route_request demo_os (ifindex_kernel2vpp demo_daemon)) [demo_route]
    \<and> vp_connections (rd_vpp s') = vp_connections (rd_vpp demo_daemon)"
proof (rule routes_synced)
  have "length (dgram_of enc_route [demo_route]) = 52"
    by (simp add: enc_route_def demo_route_def length_enc_attr align4_def)
  then show "length (dgram_of enc_route [demo_route]) \<le> 16384"
    "no_attr 4 (drop (length (dgram_of enc_route [demo_route])) (replicate 16384 0))"
    by (simp_all add: no_attr_def numeral_2_eq_2)
qed (use demo_route_ok demo_serves in \<open>simp_all add: demo_os_def demo_daemon_def\<close>)

section \<open>Links\<close>

text \<open>A notification of a link: \<open>struct ifinfomsg\<close> with the index, the flags and the mask of the flags that changed.\<close>

record klink =
  kl_hdr :: "u8 list"
  kl_type :: "u8 list"
  kl_index :: u32
  kl_flags :: u32
  kl_change :: u32
  kl_attrs :: "(nat \<times> u8 list) list"

definition enc_link :: "klink \<Rightarrow> u8 list" where
  "enc_link l =
     le_bytes 4 (32 + length (enc_attrs (kl_attrs l))) @ le_bytes 2 RTM_NEWLINK @ kl_hdr l @ kl_type l
     @ le_bytes 4 (unat (kl_index l)) @ le_bytes 4 (unat (kl_flags l)) @ le_bytes 4 (unat (kl_change l)) @ enc_attrs (kl_attrs l)"

definition klink_ok :: "klink \<Rightarrow> bool" where
  "klink_ok l \<longleftrightarrow> length (kl_hdr l) = 10 \<and> length (kl_type l) = 4 \<and> list_all attr_ok (kl_attrs l)
     \<and> distinct (map fst (kl_attrs l)) \<and> length (enc_link l) < 2 ^ 16"

lemma le_u32:
  assumes "mem = p @ le_bytes 4 (unat (w :: u32)) @ r" "i = length p"
  shows "mem_le 4 mem i = Some (unat w)"
proof -
  have "unat w < 256 ^ 4" using unsigned_less [of w] by simp
  with mem_le_at [OF assms] show ?thesis by (simp only: mod_less)
qed

lemma word_of_c_int: "(word_of_int (c_int v) :: u32) = word_of_int v"
proof -
  have "((v + 2 ^ 31) mod 2 ^ 32 - 2 ^ 31) mod 2 ^ 32 = v mod (2 ^ 32 :: int)" by (simp add: mod_diff_left_eq)
  then have "take_bit 32 (c_int v) = take_bit 32 v" by (simp only: c_int_def take_bit_eq_mod)
  then show ?thesis by (simp only: word_of_int_eq_iff) simp
qed

lemma link_fixed:
  assumes ok: "klink_ok l" and mem: "mem = pre @ enc_link l @ post"
  shows "ifi_flags mem (length pre + 16) = Some (kl_flags l)" "ifi_change mem (length pre + 16) = Some (kl_change l)"
    "\<exists>i. ifi_index mem (length pre + 16) = Some i \<and> word_of_int i = kl_index l"
    "nlmsg_type mem (length pre) = Some RTM_NEWLINK"
    "\<exists>hdr. length hdr = 32 \<and> mem = pre @ hdr @ enc_attrs (kl_attrs l) @ post
       \<and> nlmsg_len mem (length pre) = Some (length hdr + length (enc_attrs (kl_attrs l)))"
proof -
  have small: "32 + length (enc_attrs (kl_attrs l)) < 65536" and ln: "length (kl_hdr l) = 10" "length (kl_type l) = 4"
    using ok by (simp_all add: klink_ok_def enc_link_def)
  define h where "h = pre @ le_bytes 4 (32 + length (enc_attrs (kl_attrs l))) @ le_bytes 2 RTM_NEWLINK @ kl_hdr l"
  let ?i = "le_bytes 4 (unat (kl_index l))" and ?f = "le_bytes 4 (unat (kl_flags l))" and ?c = "le_bytes 4 (unat (kl_change l))"
  let ?r = "enc_attrs (kl_attrs l) @ post"
  have h: "length h = length pre + 16" using ln by (simp add: h_def)
  have m: "mem = (h @ kl_type l) @ ?i @ ?f @ ?c @ ?r" "mem = (h @ kl_type l @ ?i) @ ?f @ ?c @ ?r"
    "mem = (h @ kl_type l @ ?i @ ?f) @ ?c @ ?r" using mem by (simp_all add: enc_link_def h_def)
  have idx: "mem_le 4 mem (length pre + 16 + 4) = Some (unat (kl_index l))" by (rule le_u32 [OF m(1)]) (simp add: h ln)
  have "mem_le 4 mem (length pre + 16 + 8) = Some (unat (kl_flags l))" by (rule le_u32 [OF m(2)]) (simp add: h ln)
  then show "ifi_flags mem (length pre + 16) = Some (kl_flags l)" by (simp add: ifi_flags_def)
  have "mem_le 4 mem (length pre + 16 + 12) = Some (unat (kl_change l))" by (rule le_u32 [OF m(3)]) (simp add: h ln)
  then show "ifi_change mem (length pre + 16) = Some (kl_change l)" by (simp add: ifi_change_def)
  have "word_of_int (c_int (int (unat (kl_index l)))) = kl_index l" by (simp add: word_of_c_int)
  with idx show "\<exists>i. ifi_index mem (length pre + 16) = Some i \<and> word_of_int i = kl_index l" by (simp add: ifi_index_def)
  show "nlmsg_type mem (length pre) = Some RTM_NEWLINK"
    using mem_le_at [of mem "pre @ le_bytes 4 (32 + length (enc_attrs (kl_attrs l)))" 2 RTM_NEWLINK _ "length pre + 4"] mem
    by (simp add: nlmsg_type_def enc_link_def rtm_defs)
  show "\<exists>hdr. length hdr = 32 \<and> mem = pre @ hdr @ enc_attrs (kl_attrs l) @ post
       \<and> nlmsg_len mem (length pre) = Some (length hdr + length (enc_attrs (kl_attrs l)))"
    using mem_le_at [of mem pre 4 "32 + length (enc_attrs (kl_attrs l))" _ "length pre"] mem ln small
    by (intro exI [of _ "le_bytes 4 (32 + length (enc_attrs (kl_attrs l))) @ le_bytes 2 RTM_NEWLINK @ kl_hdr l @ kl_type l @ ?i @ ?f @ ?c"])
      (simp add: nlmsg_len_def enc_link_def)
qed

text \<open>
  C13: A notification that \<open>IFF_UP\<close> of a paired interface changed makes VPP set the state of that interface: up if and
  only if some flag that changed is now set. With no other changed flag set this is the new state of the link; a link
  that goes down while another changed flag is set is brought up.
\<close>

theorem link_state_request:
  assumes ok: "klink_ok l" and mem: "mem = pre @ enc_link l @ post" and post: "no_attr 8 post"
    and dbg: "rd_debug_bitmap s = 0" and serves: "serves e ''sw_interface_set_flags''"
    and up: "kl_change l AND IFF_UP \<noteq> 0" and pair: "ifindex_kernel2vpp s (kl_index l) \<noteq> 0"
  shows "\<exists>s'. monitor e mem (length pre) s = Some (0, s')
    \<and> requested (Sw_interface_set_flags (htonl (ifindex_kernel2vpp s (kl_index l)))
                   (if kl_flags l AND kl_change l \<noteq> 0 then 1 else 0)) s s'"
proof -
  let ?b = "Sw_interface_set_flags (htonl (ifindex_kernel2vpp s (kl_index l))) (if kl_flags l AND kl_change l \<noteq> 0 then 1 else 0)"
  let ?c = "count_new Link s"
  note fix_ = link_fixed [OF ok mem]
  obtain hdr where hdr: "length hdr = 16 + 16" "mem = pre @ hdr @ enc_attrs (kl_attrs l) @ post"
    "nlmsg_len mem (length pre) = Some (length hdr + length (enc_attrs (kl_attrs l)))" using fix_(5) by auto
  have "length hdr + length (enc_attrs (kl_attrs l)) < 2 ^ 16" using ok hdr(1) by (simp add: klink_ok_def enc_link_def)
  then obtain rtas n where rt: "IFA_PAYLOAD mem (length pre) = Some n" "rta_array mem (length pre + 32) n = Some rtas"
    using msg_attrs [OF hdr(2,1) _ _ _ _ _ hdr(3)] ok post by (auto simp: klink_ok_def)
  obtain i where i: "ifi_index mem (length pre + 16) = Some i" "word_of_int i = kl_index l" using fix_(3) by blast
  have k: "ifindex_kernel2vpp ?c = ifindex_kernel2vpp s" by (rule ifindex_kernel2vpp_cong) (simp add: count_same)
  have "debug_link e mem (length pre + 16) n rtas RTM_NEWLINK ?c = Some ?c" by (rule debug_off) (simp add: dbg count_same)
  moreover have "link_analyze_and_hook e mem (length pre + 16) ?c = with_vpp e (\<lambda>ve. send_msg ve ''sw_interface_set_flags'' (ucast (ucast (ve_random ve) :: u16)) ?b) ?c"
    using fix_(1,2) i up pair by (simp add: link_analyze_and_hook_def k set_link_def set_interface_flag_def and.assoc)
  moreover obtain s' where s': "with_vpp e (\<lambda>ve. send_msg ve ''sw_interface_set_flags'' (ucast (ucast (ve_random ve) :: u16)) ?b) ?c = Some s'"
    "requested ?b ?c s'" using with_vpp_send [OF serves, of "\<lambda>ve. ucast (ucast (ve_random ve) :: u16)" ?b ?c] by blast
  ultimately have "monitor_NEWLINK e mem (length pre) s = Some s'"
    using rt by (simp add: monitor_NEWLINK_def NLMSG_HDRLEN_def Let_def add.commute)
  then have "monitor e mem (length pre) s = Some (0, s')" using fix_(4) by (simp add: monitor_def)
  with s'(2) show ?thesis unfolding requested_count by blast
qed

definition demo_link :: klink where
  "demo_link = \<lparr>kl_hdr = replicate 10 0, kl_type = replicate 4 0, kl_index = 3, kl_flags = 0x1002, kl_change = 0xffffffff,
     kl_attrs = [(IFLA_MTU, [220, 5, 0, 0])]\<rparr>"

lemma demo_link_ok: "klink_ok demo_link"
  by (simp add: klink_ok_def demo_link_def enc_link_def attr_ok_def MAX_ATTRS_def length_enc_attr align4_def IFLA_MTU_def)

lemma demo_pair: "ifindex_kernel2vpp demo_daemon 3 = 1"
  by (simp add: ifindex_kernel2vpp_def demo_daemon_def)

theorem link_state_request_witness:
  "\<exists>s'. monitor demo_os ([] @ enc_link demo_link @ [0, 0]) (length ([] :: u8 list)) demo_daemon = Some (0, s')
    \<and> requested (Sw_interface_set_flags (htonl (ifindex_kernel2vpp demo_daemon (kl_index demo_link)))
                   (if kl_flags demo_link AND kl_change demo_link \<noteq> 0 then 1 else 0)) demo_daemon s'"
proof (rule link_state_request)
  show "no_attr 8 [0, 0]" by (simp add: no_attr_def)
  show "ifindex_kernel2vpp demo_daemon (kl_index demo_link) \<noteq> 0" using demo_pair by (simp add: demo_link_def)
  show "kl_change demo_link AND IFF_UP \<noteq> 0" by (simp add: demo_link_def IFF_UP_def)
qed (use demo_link_ok demo_serves in \<open>simp_all add: demo_daemon_def\<close>)

section \<open>Addresses\<close>

text \<open>A notification of an IPv4 address: \<open>struct ifaddrmsg\<close> with the length of the prefix and the index of the link.\<close>

record kaddr =
  ka_new :: bool
  ka_hdr :: "u8 list"
  ka_len :: u8
  ka_flags :: "u8 list"
  ka_index :: u32
  ka_addr :: "u8 list"

definition enc_addr :: "kaddr \<Rightarrow> u8 list" where
  "enc_addr a =
     le_bytes 4 32 @ le_bytes 2 (if ka_new a then RTM_NEWADDR else RTM_DELADDR) @ ka_hdr a @ [2, ka_len a] @ ka_flags a
     @ le_bytes 4 (unat (ka_index a)) @ enc_attrs [(IFLA_ADDRESS, ka_addr a)]"

definition kaddr_ok :: "kaddr \<Rightarrow> bool" where
  "kaddr_ok a \<longleftrightarrow> length (ka_hdr a) = 10 \<and> length (ka_flags a) = 2 \<and> length (ka_addr a) = 4"

lemma addr_fixed:
  assumes ok: "kaddr_ok a" and mem: "mem = pre @ enc_addr a @ post"
  shows "nlmsg_type mem (length pre) = Some (if ka_new a then RTM_NEWADDR else RTM_DELADDR)"
    "ifa_family mem (length pre + 16) = Some AF_INET" "ifa_prefixlen mem (length pre + 16) = Some (unat (ka_len a))"
    "ifa_index mem (length pre + 16) = Some (unat (ka_index a))"
    "\<exists>hdr. length hdr = 24 \<and> mem = pre @ hdr @ enc_attrs [(IFLA_ADDRESS, ka_addr a)] @ post
       \<and> nlmsg_len mem (length pre) = Some (length hdr + length (enc_attrs [(IFLA_ADDRESS, ka_addr a)]))"
proof -
  have ln: "length (ka_hdr a) = 10" "length (ka_flags a) = 2" "length (ka_addr a) = 4" using ok by (simp_all add: kaddr_ok_def)
  let ?t = "if ka_new a then RTM_NEWADDR else RTM_DELADDR" and ?as = "enc_attrs [(IFLA_ADDRESS, ka_addr a)]"
  let ?i = "le_bytes 4 (unat (ka_index a))"
  define h where "h = pre @ le_bytes 4 32 @ le_bytes 2 ?t @ ka_hdr a"
  have h: "length h = length pre + 16" using ln by (simp add: h_def)
  have m: "mem = h @ [2, ka_len a] @ ka_flags a @ ?i @ ?as @ post" "mem = (h @ [2, ka_len a] @ ka_flags a) @ ?i @ ?as @ post"
    using mem by (simp_all add: enc_addr_def h_def)
  show "ifa_family mem (length pre + 16) = Some AF_INET" "ifa_prefixlen mem (length pre + 16) = Some (unat (ka_len a))"
    unfolding m(1) h [symmetric] by (simp_all add: ifa_family_def ifa_prefixlen_def mem_le_def mem_range_def family_of_def)
  show "ifa_index mem (length pre + 16) = Some (unat (ka_index a))"
    unfolding ifa_index_def by (rule le_u32 [OF m(2)]) (simp add: h ln)
  show "nlmsg_type mem (length pre) = Some ?t"
    using mem_le_at [of mem "pre @ le_bytes 4 32" 2 ?t _ "length pre + 4"] mem
    by (simp add: nlmsg_type_def enc_addr_def rtm_defs)
  have "length ?as = 8" using ln by (simp add: length_enc_attr align4_def)
  then show "\<exists>hdr. length hdr = 24 \<and> mem = pre @ hdr @ ?as @ post \<and> nlmsg_len mem (length pre) = Some (length hdr + length ?as)"
    using mem_le_at [of mem pre 4 32 _ "length pre"] mem ln
    by (intro exI [of _ "le_bytes 4 32 @ le_bytes 2 ?t @ ka_hdr a @ [2, ka_len a] @ ka_flags a @ ?i"])
      (simp add: nlmsg_len_def enc_addr_def)
qed


definition demo_addr :: kaddr where
  "demo_addr = \<lparr>ka_new = True, ka_hdr = replicate 10 0, ka_len = 24, ka_flags = [0, 0], ka_index = 3, ka_addr = [10, 0, 0, 1]\<rparr>"


section \<open>A message of length zero\<close>

lemma monitor_zero: "monitor e mem n s = Some (r, s') \<Longrightarrow> r = 0"
  unfolding monitor_def bind_Some_iff by blast

lemma nlmsg_loop_zero:
  assumes "nlmsg_loop stop handler mem h status s = Some y"
  shows "\<not> (stop = (\<lambda>_. False) \<and> handler = monitor e \<and> nlmsg_len mem h = Some 0 \<and> 16 \<le> status \<and> status < 2 ^ 31)"
  using assms
proof (rule nlmsg_loop.raw_induct [rotated])
  fix f :: "(nat \<Rightarrow> bool) \<Rightarrow> (u8 list \<Rightarrow> nat \<Rightarrow> routerd \<Rightarrow> (int \<times> routerd) option) \<Rightarrow> u8 list \<Rightarrow> nat \<Rightarrow> int \<Rightarrow> routerd \<Rightarrow> ((int + int) \<times> routerd) option"
  fix stop :: "nat \<Rightarrow> bool" and handler mem h s y and status :: int
  let ?bad = "stop = (\<lambda>_. False) \<and> handler = monitor e \<and> nlmsg_len mem h = Some 0 \<and> 16 \<le> status \<and> status < 2 ^ 31"
  assume IH: "\<And>stop handler mem h status s y. f stop handler mem h status s = Some y \<Longrightarrow>
      \<not> (stop = (\<lambda>_. False) \<and> handler = monitor e \<and> nlmsg_len mem h = Some 0 \<and> 16 \<le> status \<and> status < 2 ^ 31)"
  assume step: "(if 0 \<le> status \<and> status < int NLMSG_HDRLEN then Some (Inr status, s)
      else nlmsg_type mem h \<bind> (\<lambda>t. if stop t then Some (Inl 0, s)
        else nlmsg_len mem h \<bind> (\<lambda>len. handler mem h s \<bind> (\<lambda>(err, s').
          if err < 0 then Some (Inl err, s')
          else f stop handler mem (h + align4 len mod 2 ^ 32) (c_int (status - int (align4 len))) s')))) = Some y"
  show "\<not> ?bad"
  proof
    assume bad: ?bad
    have st: "c_int status = status" using bad by (intro c_int_small) simp_all
    obtain r s' where r: "monitor e mem h s = Some (r, s')"
      "(if r < 0 then Some (Inl r, s') else f stop handler mem (h + align4 0 mod 2 ^ 32) (c_int (status - int (align4 0))) s') = Some y"
      using step bad by (auto simp: bind_Some_iff NLMSG_HDRLEN_def)
    have "align4 0 = 0" by (simp add: align4_def)
    with monitor_zero [OF r(1)] r(2) st have "f stop handler mem h status s' = Some y" by simp
    from IH [OF this] bad show False by blast
  qed
qed



section \<open>The state at the start\<close>

text \<open>The links of the cache that are paired, with the state they have.\<close>

definition link_requests :: "(u32 \<Rightarrow> u32) \<Rightarrow> u8 list list \<Rightarrow> vpp_body list" where
  "link_requests kernel2vpp links =
     [Sw_interface_set_flags (htonl (kernel2vpp i)) (if f AND IFF_UP \<noteq> 0 then 1 else 0).
        (i, f) \<leftarrow> map (\<lambda>l. (word_of_int (the (ifi_index l 0)), the (ifi_flags l 0))) links, kernel2vpp i \<noteq> 0]"

text \<open>
  C16: At the start VPP is told the state of every paired link in the cache, in the order of the cache, and of no other:
  up if and only if \<open>IFF_UP\<close> is set.
\<close>

theorem sync_sets_links:
  assumes "\<forall>l \<in> set (rd_nlc s). 12 \<le> length l" "serves e ''sw_interface_set_flags''"
  shows "\<exists>s'. vpp_sync_with_nlc e s = Some s' \<and> requests s' = requests s @ link_requests (ifindex_kernel2vpp s) (rd_nlc s)
    \<and> vp_connections (rd_vpp s') = vp_connections (rd_vpp s)"
proof -
  have "\<exists>s'. vpp_sync_links e ls s = Some s' \<and> synced s (link_requests (ifindex_kernel2vpp s) ls) s'"
    if "\<forall>l \<in> set ls. 12 \<le> length l" for ls
    using that
  proof (induction ls arbitrary: s)
    case Nil
    then show ?case by (simp add: synced_def link_requests_def)
  next
    case (Cons l ls)
    obtain i f where l: "ifi_index l 0 = Some i" "ifi_flags l 0 = Some f"
      using Cons.prems by (simp add: ifi_index_def ifi_flags_def mem_le_def mem_range_def)
    let ?k = "ifindex_kernel2vpp s (word_of_int i)"
    let ?b = "Sw_interface_set_flags (htonl ?k) (if f AND IFF_UP \<noteq> 0 then 1 else 0)"
    show ?case
    proof (cases "?k = 0")
      case True
      then show ?thesis using Cons.IH [of s] Cons.prems l by (simp add: link_requests_def)
    next
      case False
      obtain s1 where s1: "set_link e ?k (f AND IFF_UP \<noteq> 0) s = Some s1" "requested ?b s s1"
        using with_vpp_send [OF assms(2), of "\<lambda>ve. ucast (ucast (ve_random ve) :: u16)" ?b s]
        unfolding set_link_def set_interface_flag_def by blast
      have "ifindex_kernel2vpp s1 = ifindex_kernel2vpp s"
        using s1(2) by (auto simp: requested_def intro: ifindex_kernel2vpp_cong)
      with Cons.IH [of s1] Cons.prems obtain s' where s': "vpp_sync_links e ls s1 = Some s'"
        "synced s1 (link_requests (ifindex_kernel2vpp s) ls) s'" by auto
      from synced_step [OF s1(2) s'(2)] have "synced s (link_requests (ifindex_kernel2vpp s) (l # ls)) s'"
        using False l by (simp add: link_requests_def)
      with s'(1) s1(1) l False show ?thesis by (simp add: Let_def)
    qed
  qed
  from this [OF assms(1)] show ?thesis unfolding vpp_sync_with_nlc_def synced_def by blast
qed

theorem sync_sets_links_witness:
  "\<exists>s'. vpp_sync_with_nlc demo_os (demo_daemon\<lparr>rd_nlc := [replicate 4 0 @ [3, 0, 0, 0, 1, 0, 0, 0]]\<rparr>) = Some s'
    \<and> requests s' = requests (demo_daemon\<lparr>rd_nlc := [replicate 4 0 @ [3, 0, 0, 0, 1, 0, 0, 0]]\<rparr>)
        @ link_requests (ifindex_kernel2vpp (demo_daemon\<lparr>rd_nlc := [replicate 4 0 @ [3, 0, 0, 0, 1, 0, 0, 0]]\<rparr>))
            (rd_nlc (demo_daemon\<lparr>rd_nlc := [replicate 4 0 @ [3, 0, 0, 0, 1, 0, 0, 0]]\<rparr>))
    \<and> vp_connections (rd_vpp s') = vp_connections (rd_vpp (demo_daemon\<lparr>rd_nlc := [replicate 4 0 @ [3, 0, 0, 0, 1, 0, 0, 0]]\<rparr>))"
  by (rule sync_sets_links) (use demo_serves in simp_all)

section \<open>Segment routing\<close>

text \<open>An attribute that holds attributes; those that are missing are what the uninitialised array has.\<close>

lemma nested_attrs:
  assumes "holds_attrs mem rtas as" "(t, enc_attrs sub) \<in> set as" "attr_ok (t, enc_attrs sub)" "list_all attr_ok sub"
    and "distinct (map fst sub)"
  shows "\<exists>m. nested e mem (rtas t) = Some m
    \<and> (\<forall>a \<in> set sub. \<exists>pre post. m (fst a) = At (length pre) \<and> mem = pre @ enc_attr a @ post)"
proof -
  from assms(1,2) obtain pre post where p: "rtas t = At (length pre)" "mem = pre @ enc_attr (t, enc_attrs sub) @ post"
    unfolding holds_attrs_def by fastforce
  define pre' where "pre' = pre @ le_bytes 2 (4 + length (enc_attrs sub)) @ le_bytes 2 t"
  define post' where "post' = replicate (align4 (length (enc_attrs sub)) - length (enc_attrs sub)) 0 @ post"
  have mem: "mem = pre' @ enc_attrs sub @ post'" using p(2) by (simp add: enc_attr_def pre'_def post'_def)
  have len: "length pre' = length pre + 4" by (simp add: pre'_def)
  have pl: "rta_payload mem (length pre) = Some (length (enc_attrs sub))" using enc_attr_payload(2) [OF assms(3) p(2)] by simp
  have "length (enc_attrs sub) < 2 ^ 64" using assms(3) by (simp add: attr_ok_def)
  then have "parse_rtattr mem (length pre') (length (enc_attrs sub) + 0) (en_sub e) MAX_ATTRS = Some (attrs_at (length pre') sub (en_sub e))"
    by (intro parse_rtattr_enc [OF assms(4) mem]) (simp_all add: no_attr_def)
  then have "nested e mem (rtas t) = Some (attrs_at (length pre') sub (en_sub e))" using pl len p(1) by (simp add: nested_def)
  moreover have "\<exists>pre post. attrs_at (length pre') sub (en_sub e) (fst a) = At (length pre) \<and> mem = pre @ enc_attr a @ post" if "a \<in> set sub" for a
    using attrs_at_present [OF assms(5) that mem] by blast
  ultimately show ?thesis by blast
qed

definition dx4_attrs :: "u8 list \<Rightarrow> (nat \<times> u8 list) list" where
  "dx4_attrs nh4 = [(SEG6_LOCAL_ACTION, le_bytes 4 SEG6_LOCAL_ACTION_END_DX4), (SEG6_LOCAL_NH4, nh4)]"

lemma dx4_action:
  assumes held: "holds_attrs mem rtas as" and as: "(RTA_ENCAP_TYPE, le_bytes 2 LWTUNNEL_ENCAP_SEG6_LOCAL) \<in> set as"
    "(RTA_ENCAP, enc_attrs (dx4_attrs nh4)) \<in> set as" and nh4: "length nh4 = 4"
  shows "srv6_action e mem rtas = Some (''end.dx4'', inet_ntop4 nh4)"
proof -
  have ok: "attr_ok (RTA_ENCAP_TYPE, le_bytes 2 LWTUNNEL_ENCAP_SEG6_LOCAL)" "list_all attr_ok (dx4_attrs nh4)"
    "attr_ok (RTA_ENCAP, enc_attrs (dx4_attrs nh4))" "distinct (map fst (dx4_attrs nh4))"
    using nh4 by (simp_all add: attr_ok_def dx4_attrs_def rta_defs MAX_ATTRS_def length_enc_attr align4_def SEG6_LOCAL_ACTION_def SEG6_LOCAL_NH4_def)
  obtain i where i: "rtas RTA_ENCAP_TYPE = At i" "mem_range mem (i + 4) 2 = Some (le_bytes 2 LWTUNNEL_ENCAP_SEG6_LOCAL)" "rta_payload mem i = Some 2"
    using held_attr [OF held as(1) ok(1)] by auto
  have et: "rta_read16 mem (At i) = Some LWTUNNEL_ENCAP_SEG6_LOCAL"
    using i(2,3) by (simp add: rta_read16_def rta_read_def mem_le_def le_val_bytes LWTUNNEL_ENCAP_SEG6_LOCAL_def)
  obtain m where m: "nested e mem (rtas RTA_ENCAP) = Some m"
    "\<forall>a \<in> set (dx4_attrs nh4). \<exists>pre post. m (fst a) = At (length pre) \<and> mem = pre @ enc_attr a @ post"
    using nested_attrs [OF held as(2) ok(3,2,4)] by blast
  obtain p1 q1 where act: "m SEG6_LOCAL_ACTION = At (length p1)" "mem = p1 @ enc_attr (SEG6_LOCAL_ACTION, le_bytes 4 SEG6_LOCAL_ACTION_END_DX4) @ q1"
    using m(2) by (auto simp: dx4_attrs_def)
  obtain p2 q2 where nh: "m SEG6_LOCAL_NH4 = At (length p2)" "mem = p2 @ enc_attr (SEG6_LOCAL_NH4, nh4) @ q2"
    using m(2) by (auto simp: dx4_attrs_def)
  have aok: "attr_ok (SEG6_LOCAL_ACTION, le_bytes 4 SEG6_LOCAL_ACTION_END_DX4)" "attr_ok (SEG6_LOCAL_NH4, nh4)"
    using ok(2) by (simp_all add: dx4_attrs_def)
  have num: "rta_read32 mem (At (length p1)) = Some SEG6_LOCAL_ACTION_END_DX4"
    using rta_read32_enc [OF aok(1) act(2)] by (simp add: le_val_bytes SEG6_LOCAL_ACTION_END_DX4_def)
  have addr: "mem_range mem (length p2 + 4) 4 = Some nh4" using enc_attr_payload(1) [OF aok(2) nh(2)] nh4 by simp
  have str: "SEG6_LOCAL_ACTION_to_str2 SEG6_LOCAL_ACTION_END_DX4 = ''end.dx4''"
    by (simp add: SEG6_LOCAL_ACTION_to_str2_def SEG6_LOCAL_ACTION_END_DX4_def seg6_actions_def Let_def)
  show ?thesis
    using i(1) et m(1) act(1) nh(1) num addr str by (simp add: srv6_action_def inetpton_def rta_readptr_def)
qed

text \<open>
  C19: A route of segment routing with the action \<open>end.dx4\<close> is requested with the segment and the next hop of the
  notification, but for the interface that is paired with the kernel index zero, whatever its outgoing interface is:
  the index is turned into the name of the interface and the name read as a number.
\<close>

theorem srv6_interface_lost:
  assumes "rtm_family mem rtm = Some AF_INET6" "holds_attrs mem rtas as" "\<forall>a \<in> set as. attr_ok a"
    and "(RTA_DST, sid) \<in> set as" "length sid = 16" "en_ntop6 e sid \<noteq> []" "en_pton6 e (en_ntop6 e sid) = Some sid"
    and "(RTA_OIF, oif) \<in> set as" "length oif = 4" "en_ifname e (le_val oif) = Some (ch # name)"
    and "\<not> isdigit ch" "\<not> isspace ch" "ch \<noteq> CHR ''-''" "ch \<noteq> CHR ''+''"
    and "(RTA_ENCAP_TYPE, le_bytes 2 LWTUNNEL_ENCAP_SEG6_LOCAL) \<in> set as" "(RTA_ENCAP, enc_attrs (dx4_attrs nh4)) \<in> set as"
    and "length nh4 = 4" "serves e ''sr_localsid_add_del''"
  shows "\<exists>s'. route_analyze_and_hook e mem rtm rtas is_new s = Some s'
    \<and> requested (Sr_localsid_add_del 0 sid SR_BEHAVIOR_DX4 (htonl (ifindex_kernel2vpp s 0)) (replicate 16 0) nh4) s s'"
proof -
  let ?b = "Sr_localsid_add_del 0 sid SR_BEHAVIOR_DX4 (htonl (ifindex_kernel2vpp s 0)) (replicate 16 0) nh4"
  obtain i where i: "rtas RTA_DST = At i" "mem_range mem (i + 4) 16 = Some sid"
    using held_attr [OF assms(2,4)] assms(3,4,5) by fastforce
  obtain j where j: "rtas RTA_OIF = At j" "rta_read32 mem (At j) = Some (le_val oif)"
    using held_attr [OF assms(2,8)] assms(3,8,9) by fastforce
  have act: "srv6_action e mem rtas = Some (''end.dx4'', inet_ntop4 nh4)" by (rule dx4_action [OF assms(2,15-17)])
  have zero: "atoi (ch # name) = Some 0" using assms(11-14) by (simp add: atoi_def dec_val_def Let_def)
  have dst: "addr_text e mem rtas RTA_DST AF_INET6 = Some (en_ntop6 e sid)"
    using i by (simp add: addr_text_def inetpton_def rta_readptr_def)
  have nh: "inet_ntop4 nh4 \<noteq> []" "inet_pton4 (inet_ntop4 nh4) = Some nh4"
    using inet_ntop4_chars(1) inet_pton_ntop4 [OF assms(17)] by blast+
  have req: "ip6_route_srv6_end_dx4_add ve 13 (put_front sid u) (put_front nh4 v) (ifindex_kernel2vpp s 0) =
      send_msg ve ''sr_localsid_add_del'' 13 ?b" for ve u v
    using assms(5,17) by (simp add: ip6_route_srv6_end_dx4_add_def [abs_def] put_front_def mem_range_def)
  have "route_analyze_and_hook e mem rtm rtas is_new s = with_vpp e (\<lambda>ve. send_msg ve ''sr_localsid_add_del'' 13 ?b) s"
    using assms(1,6,7,10) j act dst nh zero
    by (simp add: route_analyze_and_hook_def ifname_text_def ifindex2str_def inet_pton_def pton_into_def req Let_def)
  with with_vpp_send [OF assms(18), of "\<lambda>_. 13" ?b s] show ?thesis by simp
qed

definition demo_sid :: "(nat \<times> u8 list) list" where
  "demo_sid = [(RTA_DST, replicate 16 1), (RTA_OIF, [3, 0, 0, 0]), (RTA_ENCAP_TYPE, le_bytes 2 LWTUNNEL_ENCAP_SEG6_LOCAL),
     (RTA_ENCAP, enc_attrs (dx4_attrs [10, 0, 0, 2]))]"

theorem srv6_interface_lost_witness:
  "\<exists>s'. route_analyze_and_hook demo_os ([10] @ enc_attrs demo_sid) 0 (attrs_at 1 demo_sid (\<lambda>_. Null)) True demo_daemon = Some s'
    \<and> requested (Sr_localsid_add_del 0 (replicate 16 1) SR_BEHAVIOR_DX4 (htonl (ifindex_kernel2vpp demo_daemon 0)) (replicate 16 0) [10, 0, 0, 2])
        demo_daemon s'"
proof (rule srv6_interface_lost [where as = demo_sid and oif = "[3, 0, 0, 0]" and ch = "CHR ''e''" and name = "''th0''"])
  have d: "distinct (map fst demo_sid)" by (simp add: demo_sid_def rta_defs)
  show "holds_attrs ([10] @ enc_attrs demo_sid) (attrs_at 1 demo_sid (\<lambda>_. Null)) demo_sid"
    using attrs_at_present [OF d, of _ "[10] @ enc_attrs demo_sid" "[10]" "[]" "\<lambda>_. Null"] attrs_at_absent [of _ demo_sid 1 "\<lambda>_. Null"]
    unfolding holds_attrs_def by simp
  show "\<forall>a \<in> set demo_sid. attr_ok a"
    by (simp add: demo_sid_def attr_ok_def MAX_ATTRS_def rta_defs dx4_attrs_def length_enc_attr align4_def)
  show "rtm_family ([10] @ enc_attrs demo_sid) 0 = Some AF_INET6" by (simp add: rtm_family_def mem_le_def mem_range_def family_of_def)
qed (use demo_serves in \<open>simp_all add: demo_sid_def demo_os_def isdigit_def isspace_def char_code_def\<close>)

end
