(* ===== verification/Cplane_Netdev.thy ===== *)
theory Cplane_Netdev
  imports C_Net
begin

text \<open>
  The VPP plugin \<open>cplane_netdev\<close> (\<open>cplane_netdev/cplane_netdev.c\<close>): every Ethernet interface of VPP gets a tap device
  in the kernel; packets for the control plane are written to the tap of the interface they came in on, and packets
  read from a tap leave through its interface.

  VPP and the kernel are parameters: the interfaces of VPP, the nodes it looks up by name, what the system calls of
  each attempt to create a tap do, and what is allocated and read.
\<close>

section \<open>State\<close>

text \<open>The index that stands for none, and the vectors of \<open>vppinfra\<close>, which are extended with it before an access.\<close>

definition none :: u32 where "none = - 1"

definition vec_validate_init_empty :: "u32 list \<Rightarrow> u32 \<Rightarrow> u32 list" where
  "vec_validate_init_empty v i = v @ replicate (unat i + 1 - length v) none"

definition vec_get :: "u32 list \<Rightarrow> u32 \<Rightarrow> u32 option" where "vec_get v i = rd v (unat i)"
definition vec_put :: "u32 list \<Rightarrow> u32 \<Rightarrow> u32 \<Rightarrow> u32 list option" where "vec_put v i x = wr v (unat i) x"

definition TAP_INJECT_F_CONFIG_ENABLE :: u32 where "TAP_INJECT_F_CONFIG_ENABLE = 1"
definition TAP_INJECT_F_CONFIG_DISABLE :: u32 where "TAP_INJECT_F_CONFIG_DISABLE = 2"
definition TAP_INJECT_F_ENABLED :: u32 where "TAP_INJECT_F_ENABLED = 8"

datatype if_kind = Kloop | Khost | Kgiga | Ktap | Kother

text \<open>
  \<open>cplane_netdev_main_t\<close> with the counters of names that \<open>tap_inject_tap_connect\<close> keeps, the nodes that VPP gives the
  packets of ARP and of the IPv4 protocols to, the descriptors that are open, the devices that exist because theirs is,
  and the descriptors that are polled.
\<close>

record cplane =
  cn_flags :: u32
  cn_tap_fd :: "u32 list"
  cn_tap_if_index :: "u32 list"
  cn_sw_if_index :: "u32 list"
  cn_by_kernel :: "u32 \<Rightarrow> u32 option"
  cn_to_enable :: "u32 list"
  cn_to_disable :: "u32 list"
  cn_rx_fds :: "u32 list"
  cn_rx_node_index :: u32
  cn_tx_node_index :: u32
  cn_neighbor_node_index :: u32
  cn_rx_buffers :: "u32 list"
  cn_counts :: "if_kind \<Rightarrow> nat"
  cn_arp_node :: u32
  cn_ip4_nodes :: "nat \<Rightarrow> u32 option"
  cn_open :: "u32 list"
  cn_devices :: "(u32 \<times> u32) list"
  cn_polled :: "u32 list"
  cn_attempts :: nat

record hw_interface =
  hw_name :: string
  hw_if_index :: u32
  hw_sw_if_index :: u32
  hw_ethernet :: bool
  hw_output_node :: u32

text \<open>What the system calls of one attempt to create a tap do, given the open descriptors and the devices there are.\<close>

record tap_env =
  te_fd :: int
  te_tunsetiff :: bool
  te_fionbio :: bool
  te_socket :: bool
  te_hwaddr :: bool
  te_ifindex :: "u32 ptr"

record vnet_env =
  vn_pool :: "hw_interface option list"
  vn_arp_input :: u32
  vn_icmp_input :: u32
  vn_tap :: "nat \<Rightarrow> u32 list \<Rightarrow> u32 list \<Rightarrow> tap_env"

section \<open>Enabling and disabling\<close>

definition tap_inject_is_enabled :: "cplane \<Rightarrow> bool" where
  "tap_inject_is_enabled c \<longleftrightarrow> cn_flags c AND TAP_INJECT_F_ENABLED \<noteq> 0"

definition tap_inject_is_config_disabled :: "cplane \<Rightarrow> bool" where
  "tap_inject_is_config_disabled c \<longleftrightarrow> cn_flags c AND TAP_INJECT_F_CONFIG_DISABLE \<noteq> 0"

definition IP_PROTOCOL_ICMP :: nat where "IP_PROTOCOL_ICMP = 1"
definition IP_PROTOCOL_TCP :: nat where "IP_PROTOCOL_TCP = 6"
definition IP_PROTOCOL_UDP :: nat where "IP_PROTOCOL_UDP = 17"
definition IP_PROTOCOL_OSPF :: nat where "IP_PROTOCOL_OSPF = 89"

definition tap_inject_disable :: "vnet_env \<Rightarrow> cplane \<Rightarrow> cplane" where
  "tap_inject_disable e c =
     (if \<not> tap_inject_is_enabled c then c
      else c\<lparr>cn_arp_node := vn_arp_input e,
             cn_ip4_nodes := (cn_ip4_nodes c)(IP_PROTOCOL_ICMP := Some (vn_icmp_input e), IP_PROTOCOL_OSPF := None,
                                              IP_PROTOCOL_TCP := None, IP_PROTOCOL_UDP := None),
             cn_flags := cn_flags c AND NOT TAP_INJECT_F_ENABLED\<rparr>)"

definition tap_inject_enable :: "cplane \<Rightarrow> cplane" where
  "tap_inject_enable c =
     (if tap_inject_is_enabled c then c
      else c\<lparr>cn_arp_node := cn_neighbor_node_index c,
             cn_ip4_nodes := (cn_ip4_nodes c)(IP_PROTOCOL_ICMP := Some (cn_tx_node_index c), IP_PROTOCOL_OSPF := Some (cn_tx_node_index c),
                                              IP_PROTOCOL_TCP := Some (cn_tx_node_index c), IP_PROTOCOL_UDP := Some (cn_tx_node_index c)),
             cn_flags := cn_flags c OR TAP_INJECT_F_ENABLED\<rparr>)"

section \<open>Taps\<close>

definition tap_inject_insert_tap :: "u32 \<Rightarrow> u32 \<Rightarrow> u32 \<Rightarrow> cplane \<Rightarrow> cplane option" where
  "tap_inject_insert_tap sw_if_index tap_fd tap_if_index c =
     do { fds \<leftarrow> vec_put (vec_validate_init_empty (cn_tap_fd c) sw_if_index) sw_if_index tap_fd;
          ifs \<leftarrow> vec_put (vec_validate_init_empty (cn_tap_if_index c) sw_if_index) sw_if_index tap_if_index;
          sws \<leftarrow> vec_put (vec_validate_init_empty (cn_sw_if_index c) tap_fd) tap_fd sw_if_index;
          Some (c\<lparr>cn_tap_fd := fds, cn_tap_if_index := ifs, cn_sw_if_index := sws,
                  cn_by_kernel := (cn_by_kernel c)(tap_if_index \<mapsto> sw_if_index)\<rparr>) }"

definition starts :: "string \<Rightarrow> string \<Rightarrow> bool" where
  "starts p s \<longleftrightarrow> take (length p) s = p"

definition if_kind_of :: "string \<Rightarrow> if_kind" where
  "if_kind_of name =
     (if starts ''loop'' name then Kloop else if starts ''host-'' name then Khost
      else if starts ''GigabitEthernet'' name then Kgiga else if starts ''tap'' name then Ktap else Kother)"

definition close_fd :: "u32 \<Rightarrow> cplane \<Rightarrow> cplane" where
  "close_fd fd c =
     c\<lparr>cn_open := filter (\<lambda>f. f \<noteq> fd) (cn_open c), cn_devices := filter (\<lambda>(f, _). f \<noteq> fd) (cn_devices c)\<rparr>"

text \<open>\<open>tap_inject_tap_connect\<close>; the boolean says whether an error is returned. A failed \<open>TUNSETIFF\<close> is not an error.\<close>

definition tap_inject_tap_connect :: "vnet_env \<Rightarrow> hw_interface \<Rightarrow> cplane \<Rightarrow> (bool \<times> cplane) option" where
  "tap_inject_tap_connect e hw c0 =
     do { c_assert (hw_if_index hw = hw_sw_if_index hw);
          let t = vn_tap e (cn_attempts c0) (cn_open c0) (map snd (cn_devices c0));
          let c = c0\<lparr>cn_attempts := cn_attempts c0 + 1\<rparr>;
          if te_fd t < 0 then Some (True, c)
          else (let tap_fd = word_of_int (te_fd t);
                    k = if_kind_of (hw_name hw);
                    c1 = c\<lparr>cn_open := tap_fd # cn_open c, cn_counts := (cn_counts c)(k := cn_counts c k + 1)\<rparr>
                in if \<not> te_tunsetiff t then Some (False, close_fd tap_fd c1)
                   else if \<not> te_fionbio t \<or> \<not> te_socket t \<or> \<not> te_hwaddr t then Some (True, close_fd tap_fd c1)
                   else (case te_ifindex t of
                           None \<Rightarrow> Some (True, close_fd tap_fd c1)
                         | Some ifindex \<Rightarrow>
                             do { c2 \<leftarrow> tap_inject_insert_tap (hw_sw_if_index hw) tap_fd ifindex
                                          (c1\<lparr>cn_devices := (tap_fd, ifindex) # cn_devices c1, cn_polled := cn_polled c1 @ [tap_fd]\<rparr>);
                                  Some (False, c2) })) }"

definition tap_inject_delete_tap :: "u32 \<Rightarrow> cplane \<Rightarrow> cplane option" where
  "tap_inject_delete_tap sw_if_index c =
     do { tap_fd \<leftarrow> vec_get (cn_tap_fd c) sw_if_index;
          tap_if_index \<leftarrow> vec_get (cn_tap_if_index c) sw_if_index;
          ifs \<leftarrow> vec_put (cn_tap_if_index c) sw_if_index none;
          fds \<leftarrow> vec_put (cn_tap_fd c) sw_if_index none;
          sws \<leftarrow> vec_put (cn_sw_if_index c) tap_fd none;
          Some (c\<lparr>cn_tap_if_index := ifs, cn_tap_fd := fds, cn_sw_if_index := sws,
                  cn_by_kernel := (cn_by_kernel c)(tap_if_index := None)\<rparr>) }"

definition tap_inject_lookup_tap_fd :: "u32 \<Rightarrow> cplane \<Rightarrow> (u32 \<times> cplane) option" where
  "tap_inject_lookup_tap_fd sw_if_index c =
     (let fds = vec_validate_init_empty (cn_tap_fd c) sw_if_index
      in do { fd \<leftarrow> vec_get fds sw_if_index; Some (fd, c\<lparr>cn_tap_fd := fds\<rparr>) })"

definition tap_inject_lookup_sw_if_index_from_tap_fd :: "u32 \<Rightarrow> cplane \<Rightarrow> (u32 \<times> cplane) option" where
  "tap_inject_lookup_sw_if_index_from_tap_fd tap_fd c =
     (let sws = vec_validate_init_empty (cn_sw_if_index c) tap_fd
      in do { sw \<leftarrow> vec_get sws tap_fd; Some (sw, c\<lparr>cn_sw_if_index := sws\<rparr>) })"

definition tap_inject_tap_disconnect :: "u32 \<Rightarrow> cplane \<Rightarrow> cplane option" where
  "tap_inject_tap_disconnect sw_if_index c =
     do { (tap_fd, c1) \<leftarrow> tap_inject_lookup_tap_fd sw_if_index c;
          if tap_fd = none then Some c1
          else do { c2 \<leftarrow> tap_inject_delete_tap sw_if_index c1; Some (close_fd tap_fd c2) } }"

definition tap_inject_tap_read :: "u32 \<Rightarrow> cplane \<Rightarrow> cplane" where
  "tap_inject_tap_read fd c = c\<lparr>cn_rx_fds := cn_rx_fds c @ [fd]\<rparr>"

text \<open>\<open>tap_inject_iface_isr\<close>: the taps to connect, up to the first error, and then those to disconnect.\<close>

fun connect_all :: "vnet_env \<Rightarrow> u32 list \<Rightarrow> cplane \<Rightarrow> (bool \<times> cplane) option" where
  "connect_all e [] c = Some (False, c)"
| "connect_all e (i # is) c =
     do { slot \<leftarrow> rd (vn_pool e) (unat i);
          hw \<leftarrow> slot;
          if hw_ethernet hw
          then do { (err, c1) \<leftarrow> tap_inject_tap_connect e hw c; if err then Some (True, c1) else connect_all e is c1 }
          else connect_all e is c }"

definition tap_inject_iface_isr :: "vnet_env \<Rightarrow> cplane \<Rightarrow> (bool \<times> cplane) option" where
  "tap_inject_iface_isr e c =
     do { (err, c1) \<leftarrow> connect_all e (cn_to_enable c) c;
          c2 \<leftarrow> fold_opt tap_inject_tap_disconnect (cn_to_disable c) c1;
          Some (err, c2\<lparr>cn_to_enable := [], cn_to_disable := []\<rparr>) }"

definition pool_indices :: "hw_interface option list \<Rightarrow> u32 list" where
  "pool_indices pool = map of_nat (filter (\<lambda>i. pool ! i \<noteq> None) [0..<length pool])"

definition tap_inject_enable_disable_all_interfaces :: "vnet_env \<Rightarrow> bool \<Rightarrow> cplane \<Rightarrow> (bool \<times> cplane) option" where
  "tap_inject_enable_disable_all_interfaces e enable c =
     (let c1 = (if enable then tap_inject_enable c else tap_inject_disable e c);
          is = pool_indices (vn_pool e)
      in tap_inject_iface_isr e
           (if enable then c1\<lparr>cn_to_enable := cn_to_enable c1 @ is\<rparr> else c1\<lparr>cn_to_disable := cn_to_disable c1 @ is\<rparr>))"

text \<open>The handler of the API message and the commands of the VPP command line.\<close>

definition vl_api_tap_inject_enable_disable_t_handler :: "vnet_env \<Rightarrow> bool \<Rightarrow> cplane \<Rightarrow> (int \<times> cplane) option" where
  "vl_api_tap_inject_enable_disable_t_handler e is_enable c =
     do { (err, c1) \<leftarrow> tap_inject_enable_disable_all_interfaces e is_enable c;
          if err then do { (_, c2) \<leftarrow> tap_inject_enable_disable_all_interfaces e False c1; Some (- 1, c2) }
          else Some (0, c1) }"

definition enable_disable_tap_inject_cmd_fn :: "vnet_env \<Rightarrow> bool \<Rightarrow> cplane \<Rightarrow> (bool \<times> cplane) option" where
  "enable_disable_tap_inject_cmd_fn e enable c =
     (if enable
      then if tap_inject_is_config_disabled c then Some (True, c)
           else do { (err, c1) \<leftarrow> tap_inject_enable_disable_all_interfaces e True c;
                     if err then do { (_, c2) \<leftarrow> tap_inject_enable_disable_all_interfaces e False c1; Some (True, c2) }
                     else Some (False, c1\<lparr>cn_flags := cn_flags c1 OR TAP_INJECT_F_CONFIG_ENABLE\<rparr>) }
      else do { (_, c1) \<leftarrow> tap_inject_enable_disable_all_interfaces e False c;
                Some (False, c1\<lparr>cn_flags := cn_flags c1 AND NOT TAP_INJECT_F_CONFIG_ENABLE\<rparr>) })"

definition create_cplane_netdev :: "vnet_env \<Rightarrow> u32 \<Rightarrow> cplane \<Rightarrow> (bool \<times> cplane) option" where
  "create_cplane_netdev e ifindex c =
     do { slot \<leftarrow> rd (vn_pool e) (unat ifindex);
          hw \<leftarrow> slot;
          if hw_ethernet hw then tap_inject_tap_connect e hw c else Some (False, c) }"

section \<open>Packets\<close>

definition VLIB_BUFFER_DATA_SIZE :: nat where "VLIB_BUFFER_DATA_SIZE = 2048"
definition MTU :: nat where "MTU = 1500"
definition MTU_BUFFERS :: nat where "MTU_BUFFERS = (MTU + VLIB_BUFFER_DATA_SIZE - 1) div VLIB_BUFFER_DATA_SIZE"

record vbuf =
  vb_data :: "u8 list"
  vb_current_data :: nat
  vb_current_length :: nat
  vb_rx :: u32
  vb_tx :: u32
  vb_next :: "u32 option"
  vb_total_rest :: nat

text \<open>
  What the nodes do to the packets: the buffers, those that were given back, the writes to taps, the packets passed on
  to a next node and the frames put to the output node of an interface.
\<close>

record dplane =
  dp_bufs :: "u32 \<Rightarrow> vbuf"
  dp_freed :: "u32 list"
  dp_writes :: "(u32 \<times> u8 list) list"
  dp_next :: "(nat \<times> u32) list"
  dp_output :: "(u32 \<times> u32) list"

text \<open>\<open>vlib_buffer_advance (b, -b->current_data)\<close>\<close>

definition rewind :: "vbuf \<Rightarrow> vbuf" where
  "rewind b = b\<lparr>vb_current_data := 0, vb_current_length := vb_current_length b + vb_current_data b\<rparr>"

definition advance :: "nat \<Rightarrow> vbuf \<Rightarrow> vbuf" where
  "advance n b = b\<lparr>vb_current_data := vb_current_data b + n, vb_current_length := vb_current_length b - n\<rparr>"

definition tap_inject_tap_send_buffer :: "u32 \<Rightarrow> vbuf \<Rightarrow> dplane \<Rightarrow> dplane" where
  "tap_inject_tap_send_buffer fd b d =
     d\<lparr>dp_writes := dp_writes d @ [(fd, take (vb_current_length b) (drop (vb_current_data b) (vb_data b)))]\<rparr>"

definition set_buf :: "u32 \<Rightarrow> vbuf \<Rightarrow> dplane \<Rightarrow> dplane" where
  "set_buf bi b d = d\<lparr>dp_bufs := (dp_bufs d)(bi := b)\<rparr>"

fun tx_loop :: "u32 list \<Rightarrow> cplane \<times> dplane \<Rightarrow> (cplane \<times> dplane) option" where
  "tx_loop [] cd = Some cd"
| "tx_loop (bi # pkts) (c, d) =
     do { (fd, c1) \<leftarrow> tap_inject_lookup_tap_fd (vb_rx (dp_bufs d bi)) c;
          if fd = none then tx_loop pkts (c1, d)
          else (let b = rewind (dp_bufs d bi) in tx_loop pkts (c1, tap_inject_tap_send_buffer fd b (set_buf bi b d))) }"

definition tap_inject_tx :: "u32 list \<Rightarrow> cplane \<times> dplane \<Rightarrow> (cplane \<times> dplane) option" where
  "tap_inject_tx pkts cd =
     do { (c, d) \<leftarrow> tx_loop pkts cd; Some (c, d\<lparr>dp_freed := dp_freed d @ pkts\<rparr>) }"

text \<open>Numbers in network order at an offset of the packet.\<close>

definition be16_at :: "u8 list \<Rightarrow> nat \<Rightarrow> nat option" where
  "be16_at bs i = do { a \<leftarrow> rd bs i; b \<leftarrow> rd bs (i + 1); Some (256 * unat a + unat b) }"

definition NEXT_NEIGHBOR_ARP :: nat where "NEXT_NEIGHBOR_ARP = 0"
definition NEXT_NEIGHBOR_ICMP6 :: nat where "NEXT_NEIGHBOR_ICMP6 = 1"
definition ETHERNET_TYPE_ARP :: nat where "ETHERNET_TYPE_ARP = 0x0806"
definition ETHERNET_TYPE_IP6 :: nat where "ETHERNET_TYPE_IP6 = 0x86dd"

text \<open>The next node of a packet: replies of ARP and neighbour advertisements go on, others do not.\<close>

definition neighbor_next :: "u8 list \<Rightarrow> nat option option" where
  "neighbor_next eth =
     do { ether_type \<leftarrow> be16_at eth 12;
          c_assert (ether_type = ETHERNET_TYPE_ARP \<or> ether_type = ETHERNET_TYPE_IP6);
          if ether_type = ETHERNET_TYPE_ARP
          then do { opcode \<leftarrow> be16_at eth 20; Some (if opcode = 2 then Some NEXT_NEIGHBOR_ARP else None) }
          else do { protocol \<leftarrow> rd eth 20;
                    c_assert (protocol = 58);
                    type \<leftarrow> rd eth 54;
                    Some (if type = 136 then Some NEXT_NEIGHBOR_ICMP6 else None) } }"

fun tap_inject_neighbor :: "u32 list \<Rightarrow> cplane \<times> dplane \<Rightarrow> (cplane \<times> dplane) option" where
  "tap_inject_neighbor [] cd = Some cd"
| "tap_inject_neighbor (bi # pkts) (c, d) =
     do { (fd, c1) \<leftarrow> tap_inject_lookup_tap_fd (vb_rx (dp_bufs d bi)) c;
          if fd = none then tap_inject_neighbor pkts (c1, d)
          else do { let b = rewind (dp_bufs d bi);
                    let d1 = tap_inject_tap_send_buffer fd b (set_buf bi b d);
                    nxt \<leftarrow> neighbor_next (vb_data b);
                    case nxt of
                      None \<Rightarrow> tap_inject_neighbor pkts (c1, d1\<lparr>dp_freed := dp_freed d1 @ [bi]\<rparr>)
                    | Some n \<Rightarrow> tap_inject_neighbor pkts
                                 (c1, (set_buf bi (advance 14 b) d1)\<lparr>dp_next := dp_next d1 @ [(n, bi)]\<rparr>) } }"

text \<open>
  \<open>tap_rx\<close>: buffers are allocated when there are too few, the packet is read into the last of them, and a packet
  longer than a buffer is chained through the next ones.
\<close>

record rx_env =
  rx_alloc :: "u32 list"
  rx_read :: "u8 list option"

definition NUM_BUFFERS_TO_ALLOC :: nat where "NUM_BUFFERS_TO_ALLOC = 32"

definition refill :: "rx_env \<Rightarrow> cplane \<Rightarrow> cplane" where
  "refill e c =
     (if length (cn_rx_buffers c) < MTU_BUFFERS
      then c\<lparr>cn_rx_buffers := cn_rx_buffers c @ take NUM_BUFFERS_TO_ALLOC (rx_alloc e)\<rparr> else c)"

text \<open>\<open>readv\<close> fills the buffers one after the other.\<close>

fun scatter :: "u32 list \<Rightarrow> u8 list \<Rightarrow> dplane \<Rightarrow> dplane" where
  "scatter [] bs d = d"
| "scatter (bi # bis) bs d =
     scatter bis (drop VLIB_BUFFER_DATA_SIZE bs)
       (set_buf bi ((dp_bufs d bi)\<lparr>vb_data := put_front (take VLIB_BUFFER_DATA_SIZE bs) (vb_data (dp_bufs d bi))\<rparr>) d)"

text \<open>The chaining loop; the value is the number of buffers that are used.\<close>

function rx_chain :: "u32 list \<Rightarrow> nat \<Rightarrow> nat \<Rightarrow> dplane \<Rightarrow> (nat \<times> dplane) option" where
  "rx_chain bi i n_bytes_left d =
     (if n_bytes_left = 0 then Some (i, d)
      else do { b0 \<leftarrow> rd bi (i - 1);
                b1 \<leftarrow> rd bi i;
                let d1 = set_buf b0 ((dp_bufs d b0)\<lparr>vb_current_length := VLIB_BUFFER_DATA_SIZE, vb_next := Some b1\<rparr>) d;
                let d2 = set_buf b1 ((dp_bufs d1 b1)\<lparr>vb_current_length := n_bytes_left\<rparr>) d1;
                rx_chain bi (i + 1) (n_bytes_left - VLIB_BUFFER_DATA_SIZE) d2 })"
  by pat_completeness auto
termination
  by (relation "measure (\<lambda>(_, _, n, _). n)") (auto simp: VLIB_BUFFER_DATA_SIZE_def)

declare rx_chain.simps [simp del]

definition tap_rx :: "vnet_env \<Rightarrow> rx_env \<Rightarrow> u32 \<Rightarrow> cplane \<times> dplane \<Rightarrow> (nat \<times> cplane \<times> dplane) option" where
  "tap_rx e re fd cd =
     do { let (c, d) = cd;
          (sw_if_index, c1) \<leftarrow> tap_inject_lookup_sw_if_index_from_tap_fd fd c;
          if sw_if_index = none then Some (0, c1, d)
          else (let c2 = refill re c1; n = length (cn_rx_buffers c2)
                in if n < MTU_BUFFERS then Some (0, c2, d)
                   else (case rx_read re of
                           None \<Rightarrow> Some (0, c2, d)
                         | Some bytes \<Rightarrow>
                             do { let bi = take MTU_BUFFERS (rev (cn_rx_buffers c2));
                                  let d1 = scatter bi bytes d;
                                  let left = length bytes - VLIB_BUFFER_DATA_SIZE;
                                  let b = dp_bufs d1 (hd bi);
                                  let d2 = set_buf (hd bi)
                                    (b\<lparr>vb_rx := sw_if_index, vb_tx := sw_if_index, vb_current_length := length bytes,
                                       vb_total_rest := (if left > 0 then left else vb_total_rest b)\<rparr>) d1;
                                  (i, d3) \<leftarrow> rx_chain bi 1 left d2;
                                  slot \<leftarrow> rd (vn_pool e) (unat sw_if_index);
                                  hw \<leftarrow> slot;
                                  Some (1, c2\<lparr>cn_rx_buffers := take (n - i) (cn_rx_buffers c2)\<rparr>,
                                        d3\<lparr>dp_output := dp_output d3 @ [(hw_output_node hw, hd bi)]\<rparr>) })) }"

text \<open>\<open>tap_inject_rx\<close>: the descriptors that are ready, up to the first that fails; the others are dropped.\<close>

fun rx_loop :: "vnet_env \<Rightarrow> (nat \<Rightarrow> rx_env) \<Rightarrow> nat \<Rightarrow> u32 list \<Rightarrow> cplane \<times> dplane \<Rightarrow> (nat \<times> cplane \<times> dplane) option" where
  "rx_loop e re cnt [] cd = Some (cnt, cd)"
| "rx_loop e re cnt (fd # fds) cd =
     do { (r, cd1) \<leftarrow> tap_rx e (re cnt) fd cd;
          if r \<noteq> 1 then Some (0, cd1) else rx_loop e re (cnt + 1) fds cd1 }"

definition tap_inject_rx :: "vnet_env \<Rightarrow> (nat \<Rightarrow> rx_env) \<Rightarrow> cplane \<times> dplane \<Rightarrow> (nat \<times> cplane \<times> dplane) option" where
  "tap_inject_rx e re cd =
     do { (cnt, c, d) \<leftarrow> rx_loop e re 0 (cn_rx_fds (fst cd)) cd; Some (cnt, c\<lparr>cn_rx_fds := []\<rparr>, d) }"

section \<open>Messages\<close>

text \<open>
  \<open>vl_api_tap_inject_dump_t_handler\<close>: one message for each tap, with both indices in network order. The message number is
  that of the plugin's enumeration, without the base that VPP assigned.
\<close>

definition send_tap_inject_details :: "u16 \<Rightarrow> u32 \<Rightarrow> u32 \<times> u32 \<Rightarrow> u8 list \<times> u32 \<times> u8 list \<times> u8 list" where
  "send_tap_inject_details details_id context kv =
     (htons details_id, context, htonl (snd kv), htonl (fst kv))"

definition vl_api_tap_inject_dump_t_handler :: "u16 \<Rightarrow> u32 \<Rightarrow> u32 list \<Rightarrow> cplane \<Rightarrow> (u8 list \<times> u32 \<times> u8 list \<times> u8 list) list" where
  "vl_api_tap_inject_dump_t_handler details_id context order c =
     map (send_tap_inject_details details_id context)
       (concat (map (\<lambda>k. case cn_by_kernel c k of None \<Rightarrow> [] | Some v \<Rightarrow> [(k, v)]) order))"

text \<open>Replies about a node: not found, or its type, index, state and flags.\<close>

record vnode_info =
  ni_type :: u32
  ni_index :: u32
  ni_state :: nat
  ni_flags :: u16

definition vl_api_get_node_info_t_handler :: "(string \<Rightarrow> vnode_info ptr) \<Rightarrow> string \<Rightarrow> int \<times> vnode_info ptr" where
  "vl_api_get_node_info_t_handler nodes name = (case nodes name of None \<Rightarrow> (- 1, None) | Some n \<Rightarrow> (0, Some n))"

definition vl_api_get_proc_info_t_handler :: "(string \<Rightarrow> u16 ptr ptr) \<Rightarrow> string \<Rightarrow> int \<times> u16" where
  "vl_api_get_proc_info_t_handler procs name =
     (case procs name of None \<Rightarrow> (- 1, 0) | Some None \<Rightarrow> (- 1, 0) | Some (Some flags) \<Rightarrow> (0, flags))"

end
