(* ===== verification/Cplane_Props.thy ===== *)
theory Cplane_Props
  imports Cplane_Netdev "HOL-Library.Multiset"
begin

text \<open>
  Properties of the plugin: its tables agree with each other in every reachable state and its operations stay inside
  them, packets go to the tap of their interface and back, and the cases in which a buffer or a tap is lost.
\<close>

section \<open>Vectors\<close>

lemma vec_get_validate:
  "vec_get (vec_validate_init_empty v i) j =
     (if unat j < length v then Some (v ! unat j) else if unat j \<le> unat i then Some none else None)"
  by (auto simp: vec_get_def vec_validate_init_empty_def rd_def nth_append)

lemma vec_get_validate_some:
  "x \<noteq> none \<Longrightarrow> vec_get (vec_validate_init_empty v i) j = Some x \<longleftrightarrow> vec_get v j = Some x"
  unfolding vec_get_validate by (auto simp: vec_get_def rd_def)

lemma vec_get_validate_keep: "vec_get v j = Some x \<Longrightarrow> vec_get (vec_validate_init_empty v i) j = Some x"
  unfolding vec_get_validate by (auto simp: vec_get_def rd_def split: if_splits)

lemma vec_get_validate_self: "\<exists>x. vec_get (vec_validate_init_empty v i) i = Some x"
  by (simp add: vec_get_validate)

lemma vec_put_validate:
  "vec_put (vec_validate_init_empty v i) i x = Some ((vec_validate_init_empty v i)[unat i := x])"
  by (simp add: vec_put_def wr_def vec_validate_init_empty_def)

lemma vec_get_update:
  "vec_get (v[unat i := x]) j = (if j = i \<and> unat i < length v then Some x else vec_get v j)"
proof -
  have "unat j = unat i \<longleftrightarrow> j = i" by (simp add: word_unat_eq_iff)
  then show ?thesis by (auto simp: vec_get_def rd_def nth_list_update)
qed

lemma vec_get_in: "vec_get v i = Some x \<Longrightarrow> unat i < length v"
  by (auto simp: vec_get_def rd_def split: if_splits)

lemma vec_put_in: "vec_get v i = Some x \<Longrightarrow> vec_put v i y = Some (v[unat i := y])"
  by (auto simp: vec_get_def vec_put_def rd_def wr_def split: if_splits)

section \<open>The tables\<close>

text \<open>
  A connected interface: its descriptor is open and leads back to it, and so does the index of its device in the kernel.
\<close>

definition connected :: "cplane \<Rightarrow> u32 \<Rightarrow> u32 \<Rightarrow> u32 \<Rightarrow> bool" where
  "connected c sw fd k \<longleftrightarrow> vec_get (cn_tap_fd c) sw = Some fd \<and> fd \<noteq> none \<and> vec_get (cn_tap_if_index c) sw = Some k
     \<and> vec_get (cn_sw_if_index c) fd = Some sw \<and> cn_by_kernel c k = Some sw \<and> (fd, k) \<in> set (cn_devices c) \<and> fd \<in> set (cn_open c)"

definition taps_ok :: "cplane \<Rightarrow> bool" where
  "taps_ok c \<longleftrightarrow> (\<forall>sw fd. vec_get (cn_tap_fd c) sw = Some fd \<longrightarrow> fd \<noteq> none \<longrightarrow> (\<exists>k. connected c sw fd k))"

text \<open>The kernel gives out descriptors that are not open and device indices that are not in use.\<close>

definition os_fresh :: "vnet_env \<Rightarrow> bool" where
  "os_fresh e \<longleftrightarrow> (\<forall>n fds ks. let t = vn_tap e n fds ks in
     (0 \<le> te_fd t \<longrightarrow> te_fd t < 2 ^ 31 \<and> word_of_int (te_fd t) \<notin> set fds) \<and> (\<forall>k. te_ifindex t = Some k \<longrightarrow> k \<notin> set ks))"

definition pool_ok :: "vnet_env \<Rightarrow> bool" where
  "pool_ok e \<longleftrightarrow> length (vn_pool e) < 2 ^ 32
     \<and> (\<forall>i hw. i < length (vn_pool e) \<longrightarrow> vn_pool e ! i = Some hw \<longrightarrow> hw_if_index hw = hw_sw_if_index hw)"

text \<open>Parts of the state that the tables do not depend on.\<close>

definition same_taps :: "cplane \<Rightarrow> cplane \<Rightarrow> bool" where
  "same_taps c c' \<longleftrightarrow> cn_tap_fd c' = cn_tap_fd c \<and> cn_tap_if_index c' = cn_tap_if_index c \<and> cn_sw_if_index c' = cn_sw_if_index c
     \<and> cn_by_kernel c' = cn_by_kernel c \<and> cn_devices c' = cn_devices c \<and> cn_open c' = cn_open c"

lemma same_taps_ok: "same_taps c c' \<Longrightarrow> taps_ok c' = taps_ok c"
  by (simp add: same_taps_def taps_ok_def connected_def)

lemma fd_not_none: "0 \<le> (v :: int) \<Longrightarrow> v < 2 ^ 31 \<Longrightarrow> (word_of_int v :: u32) \<noteq> none"
proof
  assume v: "0 \<le> v" "v < 2 ^ 31" "(word_of_int v :: u32) = none"
  have "uint (word_of_int v :: u32) = v" using v(1,2) by (simp add: uint_word_of_int)
  moreover have "uint none = 4294967295" by code_simp
  ultimately show False using v by simp
qed

lemma insert_tap_ok:
  assumes ok: "taps_ok c" and fd: "fd \<noteq> none" "\<forall>sw' k'. \<not> connected c sw' fd k'" and k: "\<forall>sw' fd'. \<not> connected c sw' fd' k"
    and new: "(fd, k) \<in> set (cn_devices c)" "fd \<in> set (cn_open c)"
  shows "\<exists>c'. tap_inject_insert_tap sw fd k c = Some c' \<and> taps_ok c' \<and> connected c' sw fd k"
proof -
  let ?v = "vec_validate_init_empty"
  define c' where "c' = c\<lparr>cn_tap_fd := (?v (cn_tap_fd c) sw)[unat sw := fd], cn_tap_if_index := (?v (cn_tap_if_index c) sw)[unat sw := k],
      cn_sw_if_index := (?v (cn_sw_if_index c) fd)[unat fd := sw], cn_by_kernel := (cn_by_kernel c)(k \<mapsto> sw)\<rparr>"
  have len: "unat i < length (?v v i)" for v i by (simp add: vec_validate_init_empty_def)
  have ins: "tap_inject_insert_tap sw fd k c = Some c'" by (simp add: tap_inject_insert_tap_def vec_put_validate c'_def)
  have self: "connected c' sw fd k" using fd(1) new len by (simp add: connected_def c'_def vec_get_update)
  have "\<exists>k'. connected c' sw' fd' k'" if g: "vec_get (cn_tap_fd c') sw' = Some fd'" "fd' \<noteq> none" for sw' fd'
  proof (cases "sw' = sw")
    case True
    then show ?thesis using self g by (auto simp: connected_def)
  next
    case False
    then have "vec_get (cn_tap_fd c) sw' = Some fd'" using g by (simp add: c'_def vec_get_update vec_get_validate_some)
    with ok g(2) obtain k' where k': "connected c sw' fd' k'" by (auto simp: taps_ok_def)
    have "fd' \<noteq> fd" "k' \<noteq> k" using k' fd(2) k by blast+
    with k' False have "connected c' sw' fd' k'"
      by (simp add: connected_def c'_def vec_get_update vec_get_validate_keep)
    then show ?thesis by blast
  qed
  then have "taps_ok c'" unfolding taps_ok_def by blast
  with ins self show ?thesis by blast
qed

lemma connect_ok:
  assumes ok: "taps_ok c" and e: "os_fresh e" and hw: "hw_if_index hw = hw_sw_if_index hw"
  shows "\<exists>err c'. tap_inject_tap_connect e hw c = Some (err, c') \<and> taps_ok c'"
proof -
  define t where "t = vn_tap e (cn_attempts c) (cn_open c) (map snd (cn_devices c))"
  define fd :: u32 where "fd = word_of_int (te_fd t)"
  define c0 where "c0 = c\<lparr>cn_attempts := cn_attempts c + 1\<rparr>"
  define c1 where "c1 = c0\<lparr>cn_open := fd # cn_open c0, cn_counts := (cn_counts c0)(if_kind_of (hw_name hw) := cn_counts c0 (if_kind_of (hw_name hw)) + 1)\<rparr>"
  have fresh: "0 \<le> te_fd t \<Longrightarrow> te_fd t < 2 ^ 31 \<and> fd \<notin> set (cn_open c)" "te_ifindex t = Some k \<Longrightarrow> k \<notin> snd ` set (cn_devices c)" for k
    using e unfolding os_fresh_def t_def fd_def Let_def by force+
  have "same_taps c c0" by (simp add: same_taps_def c0_def)
  then have ok0: "taps_ok c0" using ok same_taps_ok by blast
  show ?thesis
  proof (cases "te_fd t < 0")
    case True
    then have "tap_inject_tap_connect e hw c = Some (True, c0)"
      using hw by (simp add: tap_inject_tap_connect_def t_def [symmetric] c0_def)
    with ok0 show ?thesis by blast
  next
    case False
    have nn: "fd \<noteq> none" unfolding fd_def using False fresh(1) by (intro fd_not_none) auto
    have un: "fd \<notin> set (cn_open c)" using False fresh(1) by simp
    have conn1: "connected c1 sw f k \<longleftrightarrow> connected c sw f k" for sw f k
      using un ok by (auto simp: connected_def c1_def c0_def taps_ok_def)
    have nofd: "\<not> connected c sw fd k" for sw k using un by (simp add: connected_def)
    have closed: "taps_ok (close_fd fd c1)"
    proof -
      have "connected (close_fd fd c1) sw f k" if "connected c sw f k" for sw f k
        using that un by (auto simp: connected_def close_fd_def c1_def c0_def)
      moreover have "cn_tap_fd (close_fd fd c1) = cn_tap_fd c" by (simp add: close_fd_def c1_def c0_def)
      ultimately show ?thesis using ok unfolding taps_ok_def by metis
    qed
    show ?thesis
    proof (cases "te_tunsetiff t \<and> te_fionbio t \<and> te_socket t \<and> te_hwaddr t \<and> te_ifindex t \<noteq> None")
      assume "\<not> (te_tunsetiff t \<and> te_fionbio t \<and> te_socket t \<and> te_hwaddr t \<and> te_ifindex t \<noteq> None)"
      then have "\<exists>err. tap_inject_tap_connect e hw c = Some (err, close_fd fd c1)"
        using hw False by (auto simp: tap_inject_tap_connect_def t_def [symmetric] fd_def c0_def c1_def Let_def split: option.splits)
      with closed show ?thesis by blast
    next
      case True
      then obtain k where k: "te_ifindex t = Some k" by blast
      let ?c = "c1\<lparr>cn_devices := (fd, k) # cn_devices c1, cn_polled := cn_polled c1 @ [fd]\<rparr>"
      have conn2: "connected c sw f k' \<Longrightarrow> connected ?c sw f k'" for sw f k' by (auto simp: connected_def c1_def c0_def)
      have old: "connected ?c sw f k' \<Longrightarrow> f \<noteq> fd \<Longrightarrow> connected c sw f k'" for sw f k' by (auto simp: connected_def c1_def c0_def)
      have tf: "cn_tap_fd ?c = cn_tap_fd c" by (simp add: c1_def c0_def)
      have okc: "taps_ok ?c" using ok conn2 unfolding taps_ok_def tf by blast
      have unused: "\<not> connected ?c sw fd k'" for sw k'
      proof
        assume "connected ?c sw fd k'"
        then have "vec_get (cn_tap_fd c) sw = Some fd" by (simp add: connected_def c1_def c0_def)
        with ok nn obtain k'' where "connected c sw fd k''" by (auto simp: taps_ok_def)
        with nofd show False by blast
      qed
      have "\<not> connected ?c sw f k" for sw f
      proof
        assume a: "connected ?c sw f k"
        then have "connected c sw f k" using old unused by blast
        then have "k \<in> snd ` set (cn_devices c)" by (force simp: connected_def)
        with fresh(2) [OF k] show False by blast
      qed
      with insert_tap_ok [OF okc nn, of k "hw_sw_if_index hw"] unused obtain c' where
        "tap_inject_insert_tap (hw_sw_if_index hw) fd k ?c = Some c'" "taps_ok c'" by (auto simp: c1_def)
      moreover have "tap_inject_tap_connect e hw c = do { c2 \<leftarrow> tap_inject_insert_tap (hw_sw_if_index hw) fd k ?c; Some (False, c2) }"
        using hw False True k by (simp add: tap_inject_tap_connect_def t_def [symmetric] fd_def c0_def c1_def Let_def)
      ultimately show ?thesis by auto
    qed
  qed
qed

lemma validate_connected:
  "connected (c\<lparr>cn_tap_fd := vec_validate_init_empty (cn_tap_fd c) i\<rparr>) sw fd k \<longleftrightarrow> connected c sw fd k"
  "sw \<noteq> none \<Longrightarrow> connected (c\<lparr>cn_sw_if_index := vec_validate_init_empty (cn_sw_if_index c) i\<rparr>) sw fd k \<longleftrightarrow> connected c sw fd k"
  by (auto simp: connected_def vec_get_validate_some)

lemma lookup_tap_fd:
  "\<exists>fd. tap_inject_lookup_tap_fd sw c = Some (fd, c\<lparr>cn_tap_fd := vec_validate_init_empty (cn_tap_fd c) sw\<rparr>)
     \<and> vec_get (vec_validate_init_empty (cn_tap_fd c) sw) sw = Some fd"
  using vec_get_validate_self [of "cn_tap_fd c" sw] by (auto simp: tap_inject_lookup_tap_fd_def Let_def)

lemma validate_taps_ok: "taps_ok c \<Longrightarrow> taps_ok (c\<lparr>cn_tap_fd := vec_validate_init_empty (cn_tap_fd c) i\<rparr>)"
  unfolding taps_ok_def validate_connected(1) using vec_get_validate_some by force

lemma disconnect_ok:
  assumes "taps_ok c"
  shows "\<exists>c'. tap_inject_tap_disconnect sw c = Some c' \<and> taps_ok c' \<and> vec_get (cn_tap_fd c') sw = Some none"
proof -
  define c1 where "c1 = c\<lparr>cn_tap_fd := vec_validate_init_empty (cn_tap_fd c) sw\<rparr>"
  have ok: "taps_ok c1" unfolding c1_def by (rule validate_taps_ok [OF assms])
  obtain fd where fd: "tap_inject_lookup_tap_fd sw c = Some (fd, c1)" "vec_get (cn_tap_fd c1) sw = Some fd"
    using lookup_tap_fd [of sw c] by (auto simp: c1_def)
  show ?thesis
  proof (cases "fd = none")
    case True
    then show ?thesis using fd ok by (simp add: tap_inject_tap_disconnect_def)
  next
    case False
    with ok fd(2) obtain k where k: "connected c1 sw fd k" by (auto simp: taps_ok_def)
    define c2 where "c2 = c1\<lparr>cn_tap_if_index := (cn_tap_if_index c1)[unat sw := none], cn_tap_fd := (cn_tap_fd c1)[unat sw := none],
        cn_sw_if_index := (cn_sw_if_index c1)[unat fd := none], cn_by_kernel := (cn_by_kernel c1)(k := None)\<rparr>"
    have "tap_inject_delete_tap sw c1 = Some c2"
      using k by (simp add: tap_inject_delete_tap_def connected_def vec_put_in c2_def)
    then have d: "tap_inject_tap_disconnect sw c = Some (close_fd fd c2)" using fd(1) False by (simp add: tap_inject_tap_disconnect_def)
    have none: "vec_get (cn_tap_fd (close_fd fd c2)) sw = Some none"
      using vec_get_in [OF fd(2)] by (simp add: close_fd_def c2_def vec_get_update)
    have "\<exists>k'. connected (close_fd fd c2) sw' fd' k'" if g: "vec_get (cn_tap_fd (close_fd fd c2)) sw' = Some fd'" "fd' \<noteq> none" for sw' fd'
    proof -
      have ne: "sw' \<noteq> sw" using g none by auto
      then have "vec_get (cn_tap_fd c1) sw' = Some fd'" using g(1) by (simp add: close_fd_def c2_def vec_get_update)
      with ok g(2) obtain k' where k': "connected c1 sw' fd' k'" by (auto simp: taps_ok_def)
      have "fd' \<noteq> fd" "k' \<noteq> k" using k k' ne by (auto simp: connected_def)
      with k' ne have "connected (close_fd fd c2) sw' fd' k'" by (simp add: connected_def close_fd_def c2_def vec_get_update)
      then show ?thesis by blast
    qed
    then have "taps_ok (close_fd fd c2)" unfolding taps_ok_def by blast
    with d none show ?thesis by blast
  qed
qed

lemma connect_all_ok:
  assumes "taps_ok c" "os_fresh e" "pool_ok e" "\<forall>i \<in> set is. unat i < length (vn_pool e) \<and> vn_pool e ! unat i \<noteq> None"
  shows "\<exists>err c'. connect_all e is c = Some (err, c') \<and> taps_ok c'"
  using assms
proof (induction "is" arbitrary: c)
  case (Cons i "is")
  from Cons.prems(4) obtain hw where hw: "rd (vn_pool e) (unat i) = Some (Some hw)" "hw_if_index hw = hw_sw_if_index hw"
    using Cons.prems(3) by (auto simp: pool_ok_def rd_def)
  obtain err c1 where c1: "tap_inject_tap_connect e hw c = Some (err, c1)" "taps_ok c1"
    using connect_ok [OF Cons.prems(1,2) hw(2)] by blast
  show ?case
  proof (cases "hw_ethernet hw \<and> err")
    case True
    then show ?thesis using hw c1 by auto
  next
    case False
    then have "connect_all e (i # is) c = connect_all e is (if hw_ethernet hw then c1 else c)" using hw c1 by auto
    then show ?thesis using Cons.IH [of c1] Cons.IH [of c] Cons.prems c1(2) by auto
  qed
qed auto

lemma pool_indices_valid:
  "pool_ok e \<Longrightarrow> \<forall>i \<in> set (pool_indices (vn_pool e)). unat i < length (vn_pool e) \<and> vn_pool e ! unat i \<noteq> None"
  by (auto simp: pool_indices_def pool_ok_def unat_of_nat_u32)

definition cplane_ok :: "cplane \<Rightarrow> bool" where
  "cplane_ok c \<longleftrightarrow> taps_ok c \<and> cn_to_enable c = [] \<and> cn_to_disable c = []"

lemma all_interfaces_ok:
  assumes "cplane_ok c" "os_fresh e" "pool_ok e"
  shows "\<exists>err c'. tap_inject_enable_disable_all_interfaces e enable c = Some (err, c') \<and> cplane_ok c'"
proof -
  define c1 where "c1 = (if enable then tap_inject_enable c else tap_inject_disable e c)"
  let ?is = "pool_indices (vn_pool e)"
  define c2 where "c2 = (if enable then c1\<lparr>cn_to_enable := cn_to_enable c1 @ ?is\<rparr> else c1\<lparr>cn_to_disable := cn_to_disable c1 @ ?is\<rparr>)"
  have "same_taps c c2" by (simp add: same_taps_def c2_def c1_def tap_inject_enable_def tap_inject_disable_def)
  then have ok: "taps_ok c2" using assms(1) same_taps_ok by (auto simp: cplane_ok_def)
  have en: "\<forall>i \<in> set (cn_to_enable c2). unat i < length (vn_pool e) \<and> vn_pool e ! unat i \<noteq> None"
    using pool_indices_valid [OF assms(3)] assms(1)
    by (auto simp: c2_def c1_def tap_inject_enable_def tap_inject_disable_def cplane_ok_def)
  obtain err c3 where c3: "connect_all e (cn_to_enable c2) c2 = Some (err, c3)" "taps_ok c3"
    using connect_all_ok [OF ok assms(2,3) en] by blast
  obtain c4 where c4: "fold_opt tap_inject_tap_disconnect (cn_to_disable c2) c3 = Some c4" "taps_ok c4"
    using fold_opt_invariant [of taps_ok c3 "cn_to_disable c2" tap_inject_tap_disconnect] c3(2) disconnect_ok by blast
  have "same_taps c4 (c4\<lparr>cn_to_enable := [], cn_to_disable := []\<rparr>)" by (simp add: same_taps_def)
  with c4(2) have "cplane_ok (c4\<lparr>cn_to_enable := [], cn_to_disable := []\<rparr>)" using same_taps_ok by (auto simp: cplane_ok_def)
  moreover have "tap_inject_enable_disable_all_interfaces e enable c = Some (err, c4\<lparr>cn_to_enable := [], cn_to_disable := []\<rparr>)"
    using c3(1) c4(1)
    by (simp add: tap_inject_enable_disable_all_interfaces_def tap_inject_iface_isr_def c1_def [symmetric] c2_def [symmetric] Let_def)
  ultimately show ?thesis by blast
qed

lemma api_ok:
  assumes "cplane_ok c" "os_fresh e" "pool_ok e"
  shows "\<exists>r c'. vl_api_tap_inject_enable_disable_t_handler e b c = Some (r, c') \<and> cplane_ok c'"
proof -
  obtain err c1 where c1: "tap_inject_enable_disable_all_interfaces e b c = Some (err, c1)" "cplane_ok c1"
    using all_interfaces_ok [OF assms] by blast
  obtain err' c2 where c2: "tap_inject_enable_disable_all_interfaces e False c1 = Some (err', c2)" "cplane_ok c2"
    using all_interfaces_ok [OF c1(2) assms(2,3)] by blast
  show ?thesis using c1 c2 by (cases err) (simp_all add: vl_api_tap_inject_enable_disable_t_handler_def)
qed

lemma cmd_ok:
  assumes "cplane_ok c" "os_fresh e" "pool_ok e"
  shows "\<exists>r c'. enable_disable_tap_inject_cmd_fn e b c = Some (r, c') \<and> cplane_ok c'"
proof -
  obtain err c1 where c1: "tap_inject_enable_disable_all_interfaces e b c = Some (err, c1)" "cplane_ok c1"
    using all_interfaces_ok [OF assms] by blast
  obtain err' c2 where c2: "tap_inject_enable_disable_all_interfaces e False c1 = Some (err', c2)" "cplane_ok c2"
    using all_interfaces_ok [OF c1(2) assms(2,3)] by blast
  have "cplane_ok (c1\<lparr>cn_flags := f\<rparr>)" for f
    using c1(2) same_taps_ok [of c1 "c1\<lparr>cn_flags := f\<rparr>"] by (simp add: cplane_ok_def same_taps_def)
  then show ?thesis
    using assms(1) c1 c2 by (cases b; cases err) (auto simp: enable_disable_tap_inject_cmd_fn_def)
qed

section \<open>Packets to the taps\<close>

definition fd_of :: "cplane \<Rightarrow> u32 \<Rightarrow> u32" where
  "fd_of c sw = (case vec_get (cn_tap_fd c) sw of None \<Rightarrow> none | Some fd \<Rightarrow> fd)"

lemma lookup_fd_of:
  "tap_inject_lookup_tap_fd sw c = Some (fd_of c sw, c\<lparr>cn_tap_fd := vec_validate_init_empty (cn_tap_fd c) sw\<rparr>)"
proof -
  have "vec_get (vec_validate_init_empty (cn_tap_fd c) sw) sw = Some (fd_of c sw)"
    unfolding vec_get_validate by (auto simp: fd_of_def vec_get_def rd_def)
  then show ?thesis by (simp add: tap_inject_lookup_tap_fd_def Let_def)
qed

lemma fd_of_validate: "fd_of (c\<lparr>cn_tap_fd := vec_validate_init_empty (cn_tap_fd c) i\<rparr>) sw = fd_of c sw"
  unfolding fd_of_def by (simp add: vec_get_validate) (auto simp: vec_get_def rd_def)

lemma rewind_rewind: "rewind (rewind b) = rewind b" "vb_rx (rewind b) = vb_rx b" "vb_data (rewind b) = vb_data b"
  "vb_current_data (rewind b) = 0" "vb_current_length (rewind b) = vb_current_length b + vb_current_data b"
  by (simp_all add: rewind_def)

text \<open>The bytes of a packet from its Ethernet header on, and the writes that the packets of a frame are for.\<close>

definition packet :: "vbuf \<Rightarrow> u8 list" where
  "packet b = take (vb_current_length b + vb_current_data b) (vb_data b)"

definition tap_writes :: "cplane \<Rightarrow> dplane \<Rightarrow> u32 list \<Rightarrow> (u32 \<times> u8 list) list" where
  "tap_writes c d pkts =
     [(fd_of c (vb_rx (dp_bufs d bi)), packet (dp_bufs d bi)). bi \<leftarrow> pkts, fd_of c (vb_rx (dp_bufs d bi)) \<noteq> none]"

text \<open>Buffers that are equal up to rewinding, and descriptors that are the same.\<close>

definition rewound :: "cplane \<times> dplane \<Rightarrow> cplane \<times> dplane \<Rightarrow> bool" where
  "rewound cd cd' \<longleftrightarrow> fd_of (fst cd') = fd_of (fst cd) \<and> (\<forall>bi. rewind (dp_bufs (snd cd') bi) = rewind (dp_bufs (snd cd) bi))"

lemma rewound_rx: "rewound (c, d) (c', d') \<Longrightarrow> vb_rx (dp_bufs d' bi) = vb_rx (dp_bufs d bi)"
  unfolding rewound_def by (metis rewind_rewind(2) snd_conv)

lemma rewound_packet: "rewound (c, d) (c', d') \<Longrightarrow> packet (dp_bufs d' bi) = packet (dp_bufs d bi)"
  unfolding rewound_def packet_def by (metis rewind_rewind(3,5) snd_conv)

lemma rewound_writes:
  assumes "rewound (c, d) (c', d')"
  shows "tap_writes c' d' pkts = tap_writes c d pkts"
proof -
  have "fd_of c' = fd_of c" using assms by (simp add: rewound_def)
  then show ?thesis unfolding tap_writes_def by (simp only: rewound_rx [OF assms] rewound_packet [OF assms])
qed

lemma tx_loop_writes:
  "\<exists>c' d'. tx_loop pkts (c, d) = Some (c', d') \<and> dp_writes d' = dp_writes d @ tap_writes c d pkts
     \<and> dp_freed d' = dp_freed d \<and> dp_next d' = dp_next d \<and> dp_output d' = dp_output d \<and> fd_of c' = fd_of c"
proof (induction pkts arbitrary: c d)
  case Nil
  then show ?case by (simp add: tap_writes_def)
next
  case (Cons bi pkts)
  let ?sw = "vb_rx (dp_bufs d bi)" and ?b = "rewind (dp_bufs d bi)"
  define c1 where "c1 = c\<lparr>cn_tap_fd := vec_validate_init_empty (cn_tap_fd c) ?sw\<rparr>"
  have fd: "tap_inject_lookup_tap_fd ?sw c = Some (fd_of c ?sw, c1)" unfolding c1_def by (rule lookup_fd_of)
  have c1: "fd_of c1 = fd_of c" unfolding c1_def by (rule ext) (rule fd_of_validate)
  show ?case
  proof (cases "fd_of c ?sw = none")
    case True
    have "tap_writes c1 d pkts = tap_writes c d pkts" unfolding tap_writes_def c1 ..
    then show ?thesis using Cons.IH [of c1 d] True fd c1 by (simp add: tap_writes_def)
  next
    case False
    define d1 where "d1 = tap_inject_tap_send_buffer (fd_of c ?sw) ?b (set_buf bi ?b d)"
    have "rewound (c, d) (c1, d1)"
      using c1 by (simp add: rewound_def d1_def tap_inject_tap_send_buffer_def set_buf_def rewind_rewind)
    then have "tap_writes c1 d1 pkts = tap_writes c d pkts" by (rule rewound_writes)
    moreover have "dp_writes d1 = dp_writes d @ [(fd_of c ?sw, packet (dp_bufs d bi))]" "dp_freed d1 = dp_freed d"
      "dp_next d1 = dp_next d" "dp_output d1 = dp_output d"
      by (simp_all add: d1_def tap_inject_tap_send_buffer_def set_buf_def packet_def rewind_rewind)
    moreover have "tx_loop (bi # pkts) (c, d) = tx_loop pkts (c1, d1)" using fd False by (simp add: d1_def Let_def)
    ultimately show ?thesis using Cons.IH [of c1 d1] False c1 by (simp add: tap_writes_def)
  qed
qed


section \<open>Neighbour packets\<close>

text \<open>
  C20: Of the neighbour packets of a frame exactly those from an interface with a tap are given back or passed on, each
  once. The others are neither: their buffers are lost, as nothing frees the frame afterwards.
\<close>

theorem neighbor_buffers_lost:
  assumes "tap_inject_neighbor pkts (c, d) = Some (c', d')" "distinct pkts"
  shows "mset (dp_freed d') + mset (map snd (dp_next d')) =
    mset (dp_freed d) + mset (map snd (dp_next d)) + mset (filter (\<lambda>bi. fd_of c (vb_rx (dp_bufs d bi)) \<noteq> none) pkts)"
  using assms
proof (induction pkts arbitrary: c d)
  case (Cons bi pkts)
  let ?sw = "vb_rx (dp_bufs d bi)" and ?b = "rewind (dp_bufs d bi)"
  define c1 where "c1 = c\<lparr>cn_tap_fd := vec_validate_init_empty (cn_tap_fd c) ?sw\<rparr>"
  have fd: "tap_inject_lookup_tap_fd ?sw c = Some (fd_of c ?sw, c1)" unfolding c1_def by (rule lookup_fd_of)
  have c1: "fd_of c1 = fd_of c" unfolding c1_def by (rule ext) (rule fd_of_validate)
  have dist: "distinct pkts" "bi \<notin> set pkts" using Cons.prems(2) by simp_all
  show ?case
  proof (cases "fd_of c ?sw = none")
    case True
    then have "tap_inject_neighbor pkts (c1, d) = Some (c', d')" using Cons.prems(1) fd by simp
    from Cons.IH [OF this dist(1)] True c1 show ?thesis by simp
  next
    case False
    define d1 where "d1 = tap_inject_tap_send_buffer (fd_of c ?sw) ?b (set_buf bi ?b d)"
    obtain nxt where nxt: "neighbor_next (vb_data ?b) = Some nxt"
      using Cons.prems(1) fd False by (auto simp: Let_def bind_Some_iff)
    define d2 where "d2 = (case nxt of None \<Rightarrow> d1\<lparr>dp_freed := dp_freed d1 @ [bi]\<rparr>
        | Some n \<Rightarrow> (set_buf bi (advance 14 ?b) d1)\<lparr>dp_next := dp_next d1 @ [(n, bi)]\<rparr>)"
    have "tap_inject_neighbor pkts (c1, d2) = Some (c', d')"
      using Cons.prems(1) fd False nxt by (cases nxt) (simp_all add: d1_def d2_def Let_def)
    from Cons.IH [OF this dist(1)] have ih: "mset (dp_freed d') + mset (map snd (dp_next d')) =
      mset (dp_freed d2) + mset (map snd (dp_next d2)) + mset (filter (\<lambda>i. fd_of c (vb_rx (dp_bufs d2 i)) \<noteq> none) pkts)"
      unfolding c1 .
    have "dp_bufs d2 i = dp_bufs d i" if "i \<noteq> bi" for i
      using that by (simp add: d2_def d1_def set_buf_def tap_inject_tap_send_buffer_def split: option.split)
    then have "\<forall>i \<in> set pkts. dp_bufs d2 i = dp_bufs d i" using dist(2) by metis
    then have "filter (\<lambda>i. fd_of c (vb_rx (dp_bufs d2 i)) \<noteq> none) pkts = filter (\<lambda>i. fd_of c (vb_rx (dp_bufs d i)) \<noteq> none) pkts"
      by (intro filter_cong) simp_all
    moreover have "mset (dp_freed d2) + mset (map snd (dp_next d2)) = mset (dp_freed d) + mset (map snd (dp_next d)) + {#bi#}"
      by (cases nxt) (simp_all add: d2_def d1_def set_buf_def tap_inject_tap_send_buffer_def)
    ultimately show ?thesis using ih False by simp
  qed
qed simp

text \<open>A plugin with one Ethernet interface, and a kernel that has one descriptor and one device index to give.\<close>

definition demo_vnet :: vnet_env where
  "demo_vnet = \<lparr>vn_pool = [None, Some \<lparr>hw_name = ''GigabitEthernet0'', hw_if_index = 1, hw_sw_if_index = 1, hw_ethernet = True, hw_output_node = 9\<rparr>],
     vn_arp_input = 20, vn_icmp_input = 21,
     vn_tap = (\<lambda>_ fds ks. \<lparr>te_fd = (if 3 \<in> set fds then - 1 else 3), te_tunsetiff = True, te_fionbio = True, te_socket = True,
                           te_hwaddr = True, te_ifindex = (if 7 \<in> set ks then None else Some 7)\<rparr>)\<rparr>"

definition cplane_init :: "u32 \<Rightarrow> u32 \<Rightarrow> u32 \<Rightarrow> cplane" where
  "cplane_init rx tx neighbor =
     \<lparr>cn_flags = 0, cn_tap_fd = [], cn_tap_if_index = [], cn_sw_if_index = [], cn_by_kernel = (\<lambda>_. None), cn_to_enable = [],
      cn_to_disable = [], cn_rx_fds = [], cn_rx_node_index = rx, cn_tx_node_index = tx, cn_neighbor_node_index = neighbor,
      cn_rx_buffers = [], cn_counts = (\<lambda>_. 0), cn_arp_node = 0, cn_ip4_nodes = (\<lambda>_. None), cn_open = [], cn_devices = [],
      cn_polled = [], cn_attempts = 0\<rparr>"

definition demo_frame :: dplane where
  "demo_frame = \<lparr>dp_bufs = (\<lambda>_. \<lparr>vb_data = replicate 60 0, vb_current_data = 0, vb_current_length = 60, vb_rx = 1, vb_tx = 0,
     vb_next = None, vb_total_rest = 0\<rparr>), dp_freed = [], dp_writes = [], dp_next = [], dp_output = []\<rparr>"

theorem neighbor_buffers_lost_witness:
  "\<exists>c' d'. tap_inject_neighbor [5, 6] (cplane_init 1 2 3, demo_frame) = Some (c', d')
    \<and> mset (dp_freed d') + mset (map snd (dp_next d')) = {#}"
proof -
  have none: "fd_of c 1 = none" if "cn_tap_fd c = [] \<or> cn_tap_fd c = [none, none]" for c
    using that by (auto simp: fd_of_def vec_get_def rd_def)
  have v: "vec_validate_init_empty [] 1 = [none, none]" "vec_validate_init_empty [none, none] 1 = [none, none]"
    by (simp_all add: vec_validate_init_empty_def numeral_2_eq_2)
  have f: "vb_rx (dp_bufs demo_frame bi) = 1" for bi by (simp add: demo_frame_def)
  have i: "fd_of (cplane_init 1 2 3) 1 = none" by (rule none) (simp add: cplane_init_def)
  obtain c' where run: "tap_inject_neighbor [5, 6] (cplane_init 1 2 3, demo_frame) = Some (c', demo_frame)"
    using v none by (simp add: lookup_fd_of f i cplane_init_def)
  have "filter (\<lambda>bi. fd_of (cplane_init 1 2 3) (vb_rx (dp_bufs demo_frame bi)) \<noteq> none) [5, 6] = []" by (simp add: f i)
  with neighbor_buffers_lost [OF run] run show ?thesis by (simp add: demo_frame_def)
qed

section \<open>Packets from the taps\<close>

lemma MTU_BUFFERS_1: "MTU_BUFFERS = 1"
  by (simp add: MTU_BUFFERS_def MTU_def VLIB_BUFFER_DATA_SIZE_def)

text \<open>
  C15: A packet read from a connected tap is put, once, to the output node of the interface of that tap, in one buffer
  that has its bytes in front, its length and the interface, and that is taken from the stock; no other packet moves.
\<close>

theorem tap_rx_forwards:
  assumes conn: "connected c sw fd k" "sw \<noteq> none" and pkt: "rx_read re = Some bytes" "length bytes \<le> VLIB_BUFFER_DATA_SIZE"
    and stock: "cn_rx_buffers c = bs @ [bi]" and pool: "rd (vn_pool e) (unat sw) = Some (Some hw)"
  shows "\<exists>c' d'. tap_rx e re fd (c, d) = Some (1, c', d') \<and> dp_output d' = dp_output d @ [(hw_output_node hw, bi)]
    \<and> take (length bytes) (vb_data (dp_bufs d' bi)) = bytes \<and> vb_current_length (dp_bufs d' bi) = length bytes
    \<and> vb_rx (dp_bufs d' bi) = sw \<and> cn_rx_buffers c' = bs \<and> dp_writes d' = dp_writes d \<and> dp_next d' = dp_next d"
proof -
  define c1 where "c1 = c\<lparr>cn_sw_if_index := vec_validate_init_empty (cn_sw_if_index c) fd\<rparr>"
  have "vec_get (vec_validate_init_empty (cn_sw_if_index c) fd) fd = Some sw"
    using conn(1) by (intro vec_get_validate_keep) (simp add: connected_def)
  then have look: "tap_inject_lookup_sw_if_index_from_tap_fd fd c = Some (sw, c1)"
    by (simp add: tap_inject_lookup_sw_if_index_from_tap_fd_def c1_def Let_def)
  have c1: "cn_rx_buffers c1 = bs @ [bi]" "refill re c1 = c1" using stock by (simp_all add: c1_def refill_def MTU_BUFFERS_1)
  have left: "length bytes - VLIB_BUFFER_DATA_SIZE = 0" "take VLIB_BUFFER_DATA_SIZE bytes = bytes" using pkt(2) by simp_all
  have chain: "rx_chain is 1 0 d2 = Some (1, d2)" for "is" d2 by (subst rx_chain.simps) simp
  show ?thesis
    using look c1 pkt(1) left chain pool conn(2)
    by (simp add: tap_rx_def MTU_BUFFERS_1 set_buf_def put_front_def Let_def)
qed

section \<open>Reachable states\<close>

text \<open>
  What happens to the plugin: the API message and the commands that enable and disable it, the command that creates one
  tap, a tap that becomes readable, and frames that its nodes process.
\<close>

inductive cplane_reach :: "vnet_env \<Rightarrow> cplane \<Rightarrow> bool" for e where
  init: "cplane_reach e (cplane_init rx tx neighbor)"
| api: "cplane_reach e c \<Longrightarrow> vl_api_tap_inject_enable_disable_t_handler e b c = Some (r, c') \<Longrightarrow> cplane_reach e c'"
| cmd: "cplane_reach e c \<Longrightarrow> enable_disable_tap_inject_cmd_fn e b c = Some (err, c') \<Longrightarrow> cplane_reach e c'"
| create: "cplane_reach e c \<Longrightarrow> create_cplane_netdev e i c = Some (err, c') \<Longrightarrow> cplane_reach e c'"
| readable: "cplane_reach e c \<Longrightarrow> cplane_reach e (tap_inject_tap_read fd c)"
| tx: "cplane_reach e c \<Longrightarrow> tap_inject_tx pkts (c, d) = Some (c', d') \<Longrightarrow> cplane_reach e c'"
| neighbor: "cplane_reach e c \<Longrightarrow> tap_inject_neighbor pkts (c, d) = Some (c', d') \<Longrightarrow> cplane_reach e c'"
| rx: "cplane_reach e c \<Longrightarrow> tap_inject_rx e re (c, d) = Some (n, c', d') \<Longrightarrow> cplane_reach e c'"

text \<open>Processing packets only extends the tables and changes the stock of buffers.\<close>

definition extends :: "cplane \<Rightarrow> cplane \<Rightarrow> bool" where
  "extends c c' \<longleftrightarrow> (cplane_ok c \<longrightarrow> cplane_ok c')"

lemma extends_validate:
  "extends c (c\<lparr>cn_tap_fd := vec_validate_init_empty (cn_tap_fd c) i\<rparr>)"
  "extends c (c\<lparr>cn_sw_if_index := vec_validate_init_empty (cn_sw_if_index c) i\<rparr>)"
proof -
  show "extends c (c\<lparr>cn_tap_fd := vec_validate_init_empty (cn_tap_fd c) i\<rparr>)"
    using validate_taps_ok by (simp add: extends_def cplane_ok_def)
  have "connected c sw fd k \<Longrightarrow> connected (c\<lparr>cn_sw_if_index := vec_validate_init_empty (cn_sw_if_index c) i\<rparr>) sw fd k" for sw fd k
    by (simp add: connected_def vec_get_validate_keep)
  then show "extends c (c\<lparr>cn_sw_if_index := vec_validate_init_empty (cn_sw_if_index c) i\<rparr>)"
    unfolding extends_def cplane_ok_def taps_ok_def by fastforce
qed

lemma extends_same:
  assumes "same_taps c c'" "cn_to_enable c' = cn_to_enable c" "cn_to_disable c' = cn_to_disable c"
  shows "extends c c'"
  using assms same_taps_ok by (simp add: extends_def cplane_ok_def)

lemma extends_trans: "extends c c' \<Longrightarrow> extends c' c'' \<Longrightarrow> extends c c''"
  by (simp add: extends_def)

lemma tx_loop_extends: "tx_loop pkts (c, d) = Some (c', d') \<Longrightarrow> extends c c'"
proof (induction pkts arbitrary: c d)
  case (Cons bi pkts)
  let ?c = "c\<lparr>cn_tap_fd := vec_validate_init_empty (cn_tap_fd c) (vb_rx (dp_bufs d bi))\<rparr>"
  from Cons.prems obtain d1 where "tx_loop pkts (?c, d1) = Some (c', d')"
    by (auto simp: lookup_fd_of Let_def split: if_splits)
  from Cons.IH [OF this] extends_validate(1) show ?case by (rule extends_trans [rotated])
qed (simp add: extends_def)

lemma neighbor_extends: "tap_inject_neighbor pkts (c, d) = Some (c', d') \<Longrightarrow> extends c c'"
proof (induction pkts arbitrary: c d)
  case (Cons bi pkts)
  let ?c = "c\<lparr>cn_tap_fd := vec_validate_init_empty (cn_tap_fd c) (vb_rx (dp_bufs d bi))\<rparr>"
  from Cons.prems obtain d1 where "tap_inject_neighbor pkts (?c, d1) = Some (c', d')"
    by (auto simp: lookup_fd_of Let_def bind_Some_iff split: if_splits option.splits)
  from Cons.IH [OF this] extends_validate(1) show ?case by (rule extends_trans [rotated])
qed (simp add: extends_def)

lemma tap_rx_extends:
  assumes "tap_rx e re fd (c, d) = Some (r, c', d')"
  shows "extends c c'"
proof -
  define c1 where "c1 = c\<lparr>cn_sw_if_index := vec_validate_init_empty (cn_sw_if_index c) fd\<rparr>"
  have "\<exists>bufs. c' = c1\<lparr>cn_rx_buffers := bufs\<rparr>"
  proof -
    have self: "c1 = c1\<lparr>cn_rx_buffers := cn_rx_buffers c1\<rparr>" by simp
    have "refill re c1 = c1\<lparr>cn_rx_buffers := cn_rx_buffers (refill re c1)\<rparr>" by (simp add: refill_def)
    then obtain b2 where "refill re c1 = c1\<lparr>cn_rx_buffers := b2\<rparr>" by blast
    then show ?thesis
      using assms self
      by (auto simp: tap_rx_def tap_inject_lookup_sw_if_index_from_tap_fd_def c1_def [symmetric] bind_Some_iff Let_def
          intro: exI [of _ "cn_rx_buffers c'"] split: if_splits option.splits)
  qed
  then obtain bufs where c': "c' = c1\<lparr>cn_rx_buffers := bufs\<rparr>" by blast
  have "extends c1 c'" unfolding c' by (rule extends_same) (simp_all add: same_taps_def)
  then show ?thesis using extends_validate(2) [of c fd] extends_trans unfolding c1_def by blast
qed

lemma rx_loop_extends: "rx_loop e re n fds (c, d) = Some (n', c', d') \<Longrightarrow> extends c c'"
proof (induction fds arbitrary: n c d)
  case (Cons fd fds)
  from Cons.prems obtain r c1 d1 where r: "tap_rx e (re n) fd (c, d) = Some (r, c1, d1)"
    and rest: "(if r \<noteq> 1 then Some (0, c1, d1) else rx_loop e re (n + 1) fds (c1, d1)) = Some (n', c', d')"
    by (auto simp: bind_Some_iff)
  have "extends c1 c'"
  proof (cases "r = 1")
    case True
    then show ?thesis using rest Cons.IH [of "n + 1" c1 d1] by simp
  next
    case False
    then show ?thesis using rest by (simp add: extends_def)
  qed
  with tap_rx_extends [OF r] show ?case by (rule extends_trans)
qed (simp add: extends_def)

lemma cplane_reach_ok:
  assumes "cplane_reach e c" "os_fresh e" "pool_ok e"
  shows "cplane_ok c"
  using assms
proof (induction rule: cplane_reach.induct)
  case (init rx tx neighbor)
  then show ?case by (simp add: cplane_ok_def taps_ok_def cplane_init_def vec_get_def rd_def)
next
  case (api c b r c')
  with api_ok [of c e b] show ?case by auto
next
  case (cmd c b err c')
  with cmd_ok [of c e b] show ?case by auto
next
  case (create c i err c')
  then obtain hw where hw: "rd (vn_pool e) (unat i) = Some (Some hw)" by (auto simp: create_cplane_netdev_def bind_Some_iff)
  then have "hw_if_index hw = hw_sw_if_index hw" using create.prems(2) by (auto simp: pool_ok_def rd_def split: if_splits)
  with create connect_ok [of c e hw] hw obtain err' c'' where
    c'': "tap_inject_tap_connect e hw c = Some (err', c'')" "taps_ok c''" by (auto simp: cplane_ok_def)
  show ?case
  proof (cases "hw_ethernet hw")
    case True
    then have "c' = c''" using create.hyps(2) hw c''(1) by (simp add: create_cplane_netdev_def)
    moreover have "cn_to_enable c'' = cn_to_enable c" "cn_to_disable c'' = cn_to_disable c"
      using c''(1) by (auto simp: tap_inject_tap_connect_def tap_inject_insert_tap_def close_fd_def bind_Some_iff Let_def
          split: if_splits option.splits)
    ultimately show ?thesis using create c''(2) by (simp add: cplane_ok_def)
  next
    case False
    then show ?thesis using create hw by (simp add: create_cplane_netdev_def)
  qed
next
  case (readable c fd)
  moreover have "extends c (tap_inject_tap_read fd c)" by (rule extends_same) (simp_all add: same_taps_def tap_inject_tap_read_def)
  ultimately show ?case by (simp add: extends_def)
next
  case (tx c pkts d c' d')
  then obtain d1 where "tx_loop pkts (c, d) = Some (c', d1)" by (auto simp: tap_inject_tx_def bind_Some_iff)
  from tx_loop_extends [OF this] tx show ?case by (simp add: extends_def)
next
  case (neighbor c pkts d c' d')
  with neighbor_extends [OF neighbor.hyps(2)] show ?case by (simp add: extends_def)
next
  case (rx c re d n c' d')
  then obtain c1 where c1: "rx_loop e re 0 (cn_rx_fds c) (c, d) = Some (n, c1, d')" "c' = c1\<lparr>cn_rx_fds := []\<rparr>"
    by (auto simp: tap_inject_rx_def bind_Some_iff)
  have "extends c1 c'" unfolding c1(2) by (rule extends_same) (simp_all add: same_taps_def)
  with rx_loop_extends [OF c1(1)] rx show ?case by (simp add: extends_def)
qed


lemma demo_vnet_ok: "os_fresh demo_vnet" "pool_ok demo_vnet"
proof -
  show "os_fresh demo_vnet" by (simp add: os_fresh_def demo_vnet_def Let_def)
  have "length (vn_pool demo_vnet) < 2 ^ 32" by (simp add: demo_vnet_def)
  then show "pool_ok demo_vnet" unfolding pool_ok_def by (auto simp: demo_vnet_def less_Suc_eq)
qed


section \<open>A second tap\<close>

text \<open>
  C21: Connecting an interface that already has a tap loses the first one: after the interface is disconnected again, the
  descriptor of the first tap is still open and the kernel index of its device still leads to the interface.
\<close>

theorem reconnect_loses_tap:
  assumes ok: "taps_ok c" and conn: "connected c sw fd k" and e: "os_fresh e"
    and hw: "hw_if_index hw = sw" "hw_sw_if_index hw = sw"
    and t: "t = vn_tap e (cn_attempts c) (cn_open c) (map snd (cn_devices c))" "0 \<le> te_fd t" "te_tunsetiff t" "te_fionbio t"
      "te_socket t" "te_hwaddr t" "te_ifindex t = Some k'"
  shows "\<exists>c1 c2. tap_inject_tap_connect e hw c = Some (False, c1) \<and> tap_inject_tap_disconnect sw c1 = Some c2
    \<and> fd \<in> set (cn_open c2) \<and> cn_by_kernel c2 k = Some sw \<and> vec_get (cn_tap_fd c2) sw = Some none"
proof -
  define fd' :: u32 where "fd' = word_of_int (te_fd t)"
  have fresh: "te_fd t < 2 ^ 31" "fd' \<notin> set (cn_open c)" "k' \<notin> snd ` set (cn_devices c)"
    using e t unfolding os_fresh_def fd'_def Let_def by force+
  have nn: "fd' \<noteq> none" unfolding fd'_def using t(2) fresh(1) by (rule fd_not_none)
  have diff: "fd' \<noteq> fd" "k' \<noteq> k" using conn fresh by (force simp: connected_def)+
  let ?v = "vec_validate_init_empty"
  define c1 where "c1 = c\<lparr>cn_attempts := cn_attempts c + 1, cn_open := fd' # cn_open c,
      cn_counts := (cn_counts c)(if_kind_of (hw_name hw) := cn_counts c (if_kind_of (hw_name hw)) + 1),
      cn_devices := (fd', k') # cn_devices c, cn_polled := cn_polled c @ [fd'],
      cn_tap_fd := (?v (cn_tap_fd c) sw)[unat sw := fd'], cn_tap_if_index := (?v (cn_tap_if_index c) sw)[unat sw := k'],
      cn_sw_if_index := (?v (cn_sw_if_index c) fd')[unat fd' := sw], cn_by_kernel := (cn_by_kernel c)(k' \<mapsto> sw)\<rparr>"
  have c1: "tap_inject_tap_connect e hw c = Some (False, c1)"
    using hw t(2-) by (simp add: tap_inject_tap_connect_def tap_inject_insert_tap_def vec_put_validate t(1) [symmetric] fd'_def [symmetric] c1_def Let_def)
  have len: "unat i < length (?v v i)" for v i by (simp add: vec_validate_init_empty_def)
  have get: "vec_get (cn_tap_fd c1) sw = Some fd'" "vec_get (cn_tap_if_index c1) sw = Some k'" "vec_get (cn_sw_if_index c1) fd' = Some sw"
    using len by (simp_all add: c1_def vec_get_update)
  let ?w = "?v (cn_tap_fd c1) sw"
  have w: "vec_get ?w sw = Some fd'" using get(1) by (rule vec_get_validate_keep)
  define c2 where "c2 = close_fd fd' (c1\<lparr>cn_tap_if_index := (cn_tap_if_index c1)[unat sw := none], cn_tap_fd := ?w[unat sw := none],
      cn_sw_if_index := (cn_sw_if_index c1)[unat fd' := none], cn_by_kernel := (cn_by_kernel c1)(k' := None)\<rparr>)"
  have "tap_inject_tap_disconnect sw c1 = Some c2"
    using nn w get by (simp add: tap_inject_tap_disconnect_def tap_inject_lookup_tap_fd_def tap_inject_delete_tap_def vec_put_in c2_def Let_def)
  moreover have "fd \<in> set (cn_open c2)" "cn_by_kernel c2 k = Some sw"
    using conn diff by (simp_all add: c2_def close_fd_def c1_def connected_def)
  moreover have "vec_get (cn_tap_fd c2) sw = Some none" using len by (simp add: c2_def close_fd_def vec_get_update)
  ultimately show ?thesis using c1 by blast
qed

text \<open>A plugin whose interface has the tap with descriptor 4 and device 8.\<close>

definition demo_cplane :: cplane where
  "demo_cplane = (cplane_init 1 2 3)\<lparr>cn_tap_fd := [none, 4], cn_tap_if_index := [none, 8], cn_sw_if_index := [none, none, none, none, 1],
     cn_by_kernel := [8 \<mapsto> 1], cn_open := [4], cn_devices := [(4, 8)], cn_rx_buffers := [30, 31]\<rparr>"

definition demo_hw :: hw_interface where
  "demo_hw = \<lparr>hw_name = ''GigabitEthernet0'', hw_if_index = 1, hw_sw_if_index = 1, hw_ethernet = True, hw_output_node = 9\<rparr>"

lemma none_number: "none = 4294967295"
  by code_simp

lemma demo_connected: "connected demo_cplane 1 4 8"
  by (simp add: connected_def demo_cplane_def vec_get_def rd_def none_number)

lemma demo_cplane_ok: "taps_ok demo_cplane"
proof -
  have "sw = 1 \<and> fd = 4" if "vec_get (cn_tap_fd demo_cplane) sw = Some fd" "fd \<noteq> none" for sw fd
  proof -
    have "unat sw < 2" using vec_get_in [OF that(1)] by (simp add: demo_cplane_def)
    moreover have "unat sw \<noteq> 0"
    proof
      assume "unat sw = 0"
      then show False using that by (simp add: demo_cplane_def vec_get_def rd_def)
    qed
    ultimately have "unat sw = unat (1 :: u32)" by simp
    then have "sw = 1" by (simp only: word_unat_eq_iff)
    then show ?thesis using that(1) by (simp add: demo_cplane_def vec_get_def rd_def)
  qed
  then show ?thesis using demo_connected unfolding taps_ok_def by blast
qed

theorem reconnect_loses_tap_witness:
  "\<exists>c1 c2. tap_inject_tap_connect demo_vnet demo_hw demo_cplane = Some (False, c1) \<and> tap_inject_tap_disconnect 1 c1 = Some c2
    \<and> 4 \<in> set (cn_open c2) \<and> cn_by_kernel c2 8 = Some 1 \<and> vec_get (cn_tap_fd c2) 1 = Some none"
  by (rule reconnect_loses_tap [where k' = 7, OF demo_cplane_ok demo_connected demo_vnet_ok(1) _ _ refl])
    (simp_all add: demo_hw_def demo_vnet_def demo_cplane_def)

theorem tap_rx_forwards_witness:
  "\<exists>c' d'. tap_rx demo_vnet \<lparr>rx_alloc = [], rx_read = Some [1, 2, 3]\<rparr> 4 (demo_cplane, demo_frame) = Some (1, c', d')
    \<and> dp_output d' = dp_output demo_frame @ [(hw_output_node demo_hw, 31)]
    \<and> take (length [1, 2, 3 :: u8]) (vb_data (dp_bufs d' 31)) = [1, 2, 3] \<and> vb_current_length (dp_bufs d' 31) = length [1, 2, 3 :: u8]
    \<and> vb_rx (dp_bufs d' 31) = 1 \<and> cn_rx_buffers c' = [30] \<and> dp_writes d' = dp_writes demo_frame \<and> dp_next d' = dp_next demo_frame"
  by (rule tap_rx_forwards [OF demo_connected])
    (simp_all add: demo_cplane_def demo_vnet_def demo_hw_def rd_def none_number VLIB_BUFFER_DATA_SIZE_def)

end
