(* ===== verification/Spec2Isabelle.thy ===== *)
theory Spec2Isabelle
  imports Vectors Graphs Pqueue Linklist Hash C_Strings Prefix_Laws Event_Props Buffers Command_Props Vty_Props Routerd_Props Cplane_Props
begin

text \<open>
  Verification of routerd, the VPP router daemon, and of libvui, the command-line and event-loop
  library it is built on.
\<close>

end
